(* ===== verification/Prelude.thy ===== *)
theory Prelude
  imports Main "HOL-Library.Word" "HOL-Library.Multiset"
begin

text \<open>
  Shared vocabulary of the development: the C integer types as words, byte buffers with the
  block copies that \<^verbatim>\<open>memcpy\<close> performs on them, little-endian loads and stores, the
  \<^verbatim>\<open>_SUCCESS\<close>/\<^verbatim>\<open>_FAIL\<close> results, and the generic lemmas and collections the component
  theories use.

  A buffer is the list of the bytes from a C pointer to the end of the memory it may address.
  Code whose in-bounds behaviour matters returns an \<open>option\<close>: \<open>None\<close> stands for an access
  outside the buffer (undefined behaviour in C), \<open>Some\<close> for a run that stayed inside it.
\<close>

unbundle bit_operations_syntax

type_synonym u8 = "8 word"
type_synonym u16 = "16 word"
type_synonym u32 = "32 word"
type_synonym u64 = "64 word"
type_synonym bytes = "u8 list"

text \<open>The driver's two result codes (\<^verbatim>\<open>_SUCCESS\<close> is 1, \<^verbatim>\<open>_FAIL\<close> is 0).\<close>

datatype rtw_status = RTW_SUCCESS | RTW_FAIL

named_theorems buf_simps \<open>reads and writes of byte buffers\<close>
named_theorems len_simps \<open>lengths of the byte strings the operations produce\<close>

section \<open>Byte buffers\<close>

definition buf_get :: "nat \<Rightarrow> nat \<Rightarrow> bytes \<Rightarrow> bytes" where
  "buf_get off n buf = take n (drop off buf)"

definition buf_put :: "nat \<Rightarrow> bytes \<Rightarrow> bytes \<Rightarrow> bytes" where
  "buf_put off bs buf = take off buf @ bs @ drop (off + length bs) buf"

lemma length_buf_get [len_simps]: "off + n \<le> length buf \<Longrightarrow> length (buf_get off n buf) = n"
  by (simp add: buf_get_def)

lemma length_buf_put [len_simps]:
  "off + length bs \<le> length buf \<Longrightarrow> length (buf_put off bs buf) = length buf"
  by (simp add: buf_put_def)

lemma buf_get_put_same [buf_simps]:
  "off + length bs \<le> length buf \<Longrightarrow> n = length bs \<Longrightarrow> buf_get off n (buf_put off bs buf) = bs"
  by (simp add: buf_get_def buf_put_def)

lemma buf_put_get_same [buf_simps]:
  "off + n \<le> length buf \<Longrightarrow> buf_put off (buf_get off n buf) buf = buf"
  unfolding buf_get_def buf_put_def
  by (simp add: min_absorb2)
     (metis add.commute append_take_drop_id drop_drop)

lemma nth_buf_put_below [buf_simps]:
  "i < off \<Longrightarrow> off \<le> length buf \<Longrightarrow> buf_put off bs buf ! i = buf ! i"
  by (simp add: buf_put_def nth_append)

lemma nth_buf_put_above [buf_simps]:
  "off + length bs \<le> i \<Longrightarrow> off + length bs \<le> length buf \<Longrightarrow> buf_put off bs buf ! i = buf ! i"
  by (auto simp: buf_put_def nth_append)

lemma nth_buf_put:
  "off + length bs \<le> length buf \<Longrightarrow> i < length buf \<Longrightarrow>
   buf_put off bs buf ! i = (if i < off then buf ! i
     else if i < off + length bs then bs ! (i - off) else buf ! i)"
  by (auto simp: buf_put_def nth_append)

lemma nth_buf_get: "i < n \<Longrightarrow> off + n \<le> length buf \<Longrightarrow> buf_get off n buf ! i = buf ! (off + i)"
  by (simp add: buf_get_def)

lemma buf_get_put_below [buf_simps]:
  assumes "off + n \<le> o2" "o2 + length bs \<le> length buf"
  shows "buf_get off n (buf_put o2 bs buf) = buf_get off n buf"
  using assms
  by (intro nth_equalityI) (auto simp: len_simps nth_buf_get nth_buf_put)

lemma buf_get_put_above [buf_simps]:
  assumes "o2 + length bs \<le> off" "off + n \<le> length buf"
  shows "buf_get off n (buf_put o2 bs buf) = buf_get off n buf"
  using assms
  by (intro nth_equalityI) (auto simp: len_simps nth_buf_get nth_buf_put)

lemma take_buf_put [buf_simps]:
  "n \<le> off \<Longrightarrow> off \<le> length buf \<Longrightarrow> take n (buf_put off bs buf) = take n buf"
  by (simp add: buf_put_def)

lemma drop_buf_put [buf_simps]:
  "off + length bs \<le> n \<Longrightarrow> off \<le> length buf \<Longrightarrow> drop n (buf_put off bs buf) = drop n buf"
  by (simp add: buf_put_def)

lemma buf_get_append:
  "buf_get off m buf @ buf_get (off + m) n buf = buf_get off (m + n) buf"
  by (simp add: buf_get_def take_add add.commute)

lemma buf_split: "take off buf @ buf_get off n buf @ drop (off + n) buf = buf"
  unfolding buf_get_def
  by (metis add.commute append_take_drop_id drop_drop)

lemma buf_put_append:
  assumes "off + length xs + length ys \<le> length buf"
  shows "buf_put (off + length xs) ys (buf_put off xs buf) = buf_put off (xs @ ys) buf"
  using assms
  by (intro nth_equalityI) (auto simp: len_simps nth_buf_put nth_append)

lemma buf_put_put [buf_simps]:
  assumes "off + length xs \<le> length buf" "length ys = length xs"
  shows "buf_put off ys (buf_put off xs buf) = buf_put off ys buf"
  using assms
  by (intro nth_equalityI) (auto simp: len_simps nth_buf_put)

lemma buf_put_within:
  assumes "off + length bs \<le> m" "m \<le> length buf"
  shows "buf_put off bs buf = buf_put off bs (take m buf) @ drop m buf"
proof -
  have "drop (off + length bs) buf = drop (off + length bs) (take m buf) @ drop m buf"
    using assms by (metis append_take_drop_id drop_append diff_is_0_eq drop0 length_take min_absorb2)
  then show ?thesis using assms by (simp add: buf_put_def min_absorb1)
qed

lemma buf_get_take: "off + n \<le> m \<Longrightarrow> buf_get off n (take m buf) = buf_get off n buf"
  by (simp add: buf_get_def drop_take min_absorb1)

section \<open>Exclusive or of byte strings\<close>

definition xor_bytes :: "bytes \<Rightarrow> bytes \<Rightarrow> bytes" where
  "xor_bytes xs ys = map2 (XOR) xs ys"

lemma length_xor_bytes [len_simps]: "length (xor_bytes xs ys) = min (length xs) (length ys)"
  by (simp add: xor_bytes_def)

lemma nth_xor_bytes:
  "i < length xs \<Longrightarrow> i < length ys \<Longrightarrow> xor_bytes xs ys ! i = xs ! i XOR ys ! i"
  by (simp add: xor_bytes_def)

lemma xor_bytes_Cons [simp]: "xor_bytes (x # xs) (y # ys) = (x XOR y) # xor_bytes xs ys"
  by (simp add: xor_bytes_def)

lemma xor_bytes_Nil [simp]: "xor_bytes [] ys = []" "xor_bytes xs [] = []"
  by (simp_all add: xor_bytes_def)

lemma xor_bytes_cancel:
  "length xs \<le> length ks \<Longrightarrow> xor_bytes ks (xor_bytes ks xs) = xs"
  by (intro nth_equalityI) (auto simp: len_simps nth_xor_bytes simp flip: xor.assoc)

lemma xor_bytes_commute: "xor_bytes xs ys = xor_bytes ys xs"
  by (rule nth_equalityI) (auto simp: len_simps nth_xor_bytes xor.commute)

lemma take_xor_bytes: "take n (xor_bytes xs ys) = xor_bytes (take n xs) (take n ys)"
  by (simp add: xor_bytes_def take_map take_zip)

lemma xor_bytes_append:
  "length a = length b \<Longrightarrow> xor_bytes (a @ c) (b @ d) = xor_bytes a b @ xor_bytes c d"
  by (simp add: xor_bytes_def)

lemma xor_word_cancel: "(a :: 'a :: len word) XOR x = a XOR y \<longleftrightarrow> x = y"
  by (metis xor.assoc xor.left_neutral xor_self_eq)

section \<open>Little-endian words\<close>

definition get_le16 :: "u8 \<Rightarrow> u8 \<Rightarrow> u16" where
  "get_le16 b0 b1 = ucast b0 OR push_bit 8 (ucast b1)"

definition put_le32 :: "u32 \<Rightarrow> bytes" where
  "put_le32 w = [ucast w, ucast (drop_bit 8 w), ucast (drop_bit 16 w), ucast (drop_bit 24 w)]"

definition get_le32 :: "bytes \<Rightarrow> u32" where
  "get_le32 bs = ucast (bs ! 0) OR push_bit 8 (ucast (bs ! 1))
     OR push_bit 16 (ucast (bs ! 2)) OR push_bit 24 (ucast (bs ! 3))"

lemma length_put_le32 [len_simps]: "length (put_le32 w) = 4"
  by (simp add: put_le32_def)

lemma bit_u8_bound: "bit (b :: u8) n \<Longrightarrow> n < 8"
  using bit_imp_le_length [of b n] by simp

lemma bit_u32_bound: "bit (w :: u32) n \<Longrightarrow> n < 32"
  using bit_imp_le_length [of w n] by simp

lemma bit_double_word: "bit (c * 2 :: 'a :: len word) n \<longleftrightarrow> 0 < n \<and> n < LENGTH('a) \<and> bit c (n - 1)"
  using bit_push_bit_iff [of 1 c n] by (auto simp: push_bit_eq_mult mult.commute bit_imp_le_length)

lemma mask8: "(0xff :: u32) = mask 8"
  by (simp add: mask_numeral)

lemma byte_ranges:
  assumes "(n :: nat) < 32"
  obtains m where "n = m" "n div 8 = 0" "n mod 8 = m" "m < 8"
    | m where "n = 8 + m" "n div 8 = 1" "n mod 8 = m" "m < 8"
    | m where "n = 16 + m" "n div 8 = 2" "n mod 8 = m" "m < 8"
    | m where "n = 24 + m" "n div 8 = 3" "n mod 8 = m" "m < 8"
proof -
  have *: "n = 8 * (n div 8) + n mod 8" "n mod 8 < 8" by auto
  have "n div 8 < 4" using assms by auto
  then have "n div 8 = 0 \<or> n div 8 = 1 \<or> n div 8 = 2 \<or> n div 8 = 3" by auto
  then show ?thesis using that [OF _ _ refl *(2)] *(1) by fastforce
qed

lemma bit_get_le32:
  assumes "n < 32"
  shows "bit (get_le32 bs) n = bit (bs ! (n div 8)) (n mod 8)"
proof -
  have *: "\<not> bit b (8 + k)" "\<not> bit b (16 + k)" "\<not> bit b (24 + k)" for b :: u8 and k
    using bit_u8_bound by fastforce+
  show ?thesis
    using assms
  proof (rule byte_ranges)
  qed (simp_all add: get_le32_def bit_simps *)
qed

lemma bit_put_le32:
  assumes "k < 4" "m < 8" shows "bit (put_le32 w ! k) m = bit w (8 * k + m)"
proof -
  have "k = 0 \<or> k = 1 \<or> k = 2 \<or> k = 3" using assms(1) by auto
  with assms(2) show ?thesis by (elim disjE) (simp_all add: put_le32_def bit_simps)
qed

lemma get_put_le32 [simp]: "get_le32 (put_le32 w) = w"
  by (rule bit_word_eqI) (simp add: bit_get_le32 bit_put_le32 less_mult_imp_div_less)

lemma put_get_le32:
  assumes "length bs = 4" shows "put_le32 (get_le32 bs) = bs"
proof -
  have *: "\<not> bit b (8 + n)" "\<not> bit b (16 + n)" "\<not> bit b (24 + n)" for b :: u8 and n
    using bit_u8_bound by fastforce+
  obtain b0 b1 b2 b3 where bs: "bs = [b0, b1, b2, b3]"
    using assms by (auto simp: eval_nat_numeral length_Suc_conv)
  show ?thesis
    unfolding bs put_le32_def get_le32_def
    by (auto intro!: bit_word_eqI simp: bit_simps *)
qed

lemma put_le32_inject [simp]: "put_le32 v = put_le32 w \<longleftrightarrow> v = w"
  by (metis get_put_le32)

lemma replicate_pred: "replicate (numeral k) x = x # replicate (pred_numeral k) x"
  by (simp add: numeral_eq_Suc)

lemma mod_add_inject:
  assumes "(i :: nat) < m" "j < m" "(a + i) mod m = (a + j) mod m"
  shows "i = j"
proof -
  from assms(3) obtain q1 q2 where "a + i + m * q1 = a + j + m * q2"
    by (auto simp: nat_mod_eq_iff)
  then have "i + m * q1 = j + m * q2" by simp
  then have "(i + m * q1) mod m = (j + m * q2) mod m" by simp
  with assms(1,2) show ?thesis by simp
qed

lemma u8_eqI:
  assumes "bit a 0 = bit b 0" "bit a 1 = bit b 1" "bit a 2 = bit b 2" "bit a 3 = bit b 3"
    "bit a 4 = bit b 4" "bit a 5 = bit b 5" "bit a 6 = bit b 6" "bit a 7 = bit (b :: u8) 7"
  shows "a = b"
proof (rule bit_word_eqI)
  fix n assume "n < LENGTH(8)"
  then have "n = 0 \<or> n = 1 \<or> n = 2 \<or> n = 3 \<or> n = 4 \<or> n = 5 \<or> n = 6 \<or> n = 7" by auto
  with assms show "bit a n = bit b n" by auto
qed

lemma funpow_pred: "(f ^^ numeral k) x = f ((f ^^ pred_numeral k) x)"
  by (simp add: numeral_eq_Suc)

section \<open>Permutations of a list\<close>

lemma swap_mset:
  "i < length xs \<Longrightarrow> j < length xs \<Longrightarrow> mset (xs[i := xs ! j, j := xs ! i]) = mset xs"
  by (metis mset_swap)

section \<open>Universal statements over one byte\<close>

lemma all_bytes: "(\<And>n. n < 256 \<Longrightarrow> P (word_of_nat n)) \<Longrightarrow> P (b :: u8)"
proof -
  assume *: "\<And>n. n < 256 \<Longrightarrow> P (word_of_nat n)"
  have "unat b < 256" using unsigned_less [of b] by simp
  from * [OF this] show ?thesis by simp
qed

end
