(* ===== verification/Rc4.thy ===== *)
theory Rc4
  imports Prelude
begin

text \<open>
  The RC4 engine of \<^verbatim>\<open>core/rtw_security.c\<close> (\<^verbatim>\<open>arcfour_init\<close>, \<^verbatim>\<open>arcfour_byte\<close>,
  \<^verbatim>\<open>arcfour_encrypt\<close>), the interface a stream cipher offers to the WEP and TKIP code (locale
  \<open>stream_cipher\<close>), and its interpretation on RC4.
\<close>

section \<open>The code\<close>

text \<open>\<^verbatim>\<open>struct arc4context\<close>.\<close>

record arc4context =
  arc4_x :: u32
  arc4_y :: u32
  arc4_state :: "u8 list"

text \<open>
  The key-scheduling loop of \<^verbatim>\<open>arcfour_init\<close>: \<open>counter\<close> and \<open>keyindex\<close> are its two
  indices, \<open>stateindex\<close> the 32-bit accumulator that is masked to a byte in each round.
\<close>

function arcfour_init_loop ::
    "bytes \<Rightarrow> nat \<Rightarrow> nat \<Rightarrow> nat \<Rightarrow> u32 \<Rightarrow> u8 list \<Rightarrow> u8 list" where
  "arcfour_init_loop key key_len counter keyindex stateindex state =
     (if counter < 256 then
        let t = state ! counter;
            stateindex' = (stateindex + ucast (key ! keyindex) + ucast t) AND 0xff;
            u = state ! unat stateindex';
            state' = state[unat stateindex' := t, counter := u];
            keyindex' = keyindex + 1
        in arcfour_init_loop key key_len (counter + 1)
             (if keyindex' \<ge> key_len then 0 else keyindex') stateindex' state'
      else state)"
  by pat_completeness auto
termination
  by (relation "measure (\<lambda>(key, key_len, counter, _). 256 - counter)") auto

declare arcfour_init_loop.simps [simp del]

definition arcfour_init :: "bytes \<Rightarrow> nat \<Rightarrow> arc4context" where
  "arcfour_init key key_len =
     \<lparr>arc4_x = 0, arc4_y = 0,
      arc4_state = arcfour_init_loop key key_len 0 0 0 (map word_of_nat [0..<256])\<rparr>"

definition arcfour_byte :: "arc4context \<Rightarrow> u32 \<times> arc4context" where
  "arcfour_byte ctx =
     (let state = arc4_state ctx;
          x = (arc4_x ctx + 1) AND 0xff;
          sx = ucast (state ! unat x) :: u32;
          y = (sx + arc4_y ctx) AND 0xff;
          sy = ucast (state ! unat y) :: u32;
          state' = state[unat y := ucast sx, unat x := ucast sy]
      in (ucast (state' ! unat ((sx + sy) AND 0xff)),
          ctx\<lparr>arc4_x := x, arc4_y := y, arc4_state := state'\<rparr>))"

text \<open>\<^verbatim>\<open>arcfour_encrypt\<close> writes \<open>dest[i] = src[i] ^ arcfour_byte()\<close>; the callers pass the
  same buffer as source and destination.\<close>

fun arcfour_encrypt :: "arc4context \<Rightarrow> bytes \<Rightarrow> bytes \<times> arc4context" where
  "arcfour_encrypt ctx [] = ([], ctx)"
| "arcfour_encrypt ctx (b # src) =
     (let (k, ctx') = arcfour_byte ctx; (dest, ctx'') = arcfour_encrypt ctx' src
      in ((b XOR ucast k) # dest, ctx''))"

section \<open>The state stays a permutation of the 256 bytes\<close>

definition arc4_perm :: "u8 list \<Rightarrow> bool" where
  "arc4_perm st \<longleftrightarrow> mset st = mset (map word_of_nat [0..<256])"

lemma arc4_perm_length: "arc4_perm st \<Longrightarrow> length st = 256"
  unfolding arc4_perm_def by (drule mset_eq_length) simp

lemma unat_and_ff: "unat ((w :: u32) AND 0xff) < 256"
proof -
  have "w AND 0xff \<le> 0xff" by (rule word_and_le1)
  then show ?thesis by (simp add: word_le_nat_alt)
qed

lemma arc4_perm_swap:
  "arc4_perm st \<Longrightarrow> i < 256 \<Longrightarrow> j < 256 \<Longrightarrow> arc4_perm (st[i := st ! j, j := st ! i])"
  by (simp add: arc4_perm_def swap_mset arc4_perm_length)

lemma arcfour_init_loop_perm:
  "arc4_perm st \<Longrightarrow> arc4_perm (arcfour_init_loop key len c ki si st)"
proof (induction key len c ki si st rule: arcfour_init_loop.induct)
  case (1 key len c ki si st)
  let ?si = "(si + ucast (key ! ki) + ucast (st ! c)) AND 0xff :: u32"
  show ?case
  proof (cases "c < 256")
    case True
    have "arc4_perm (st[unat ?si := st ! c, c := st ! unat ?si])"
      by (rule arc4_perm_swap [OF "1.prems" unat_and_ff True])
    with "1.IH" [OF True refl refl refl refl refl] True show ?thesis
      by (subst arcfour_init_loop.simps) (auto simp: Let_def split: if_splits)
  next
    case False
    with "1.prems" show ?thesis by (subst arcfour_init_loop.simps) simp
  qed
qed

lemma arcfour_init_perm: "arc4_perm (arc4_state (arcfour_init key len))"
  unfolding arcfour_init_def
  by (simp only: arc4context.select_convs, rule arcfour_init_loop_perm) (simp add: arc4_perm_def)

lemma ucast_up_down_u8 [simp]: "ucast (ucast (b :: u8) :: u32) = b"
  by (rule bit_word_eqI) (auto simp: bit_simps)

lemma arcfour_byte_perm:
  "arc4_perm (arc4_state ctx) \<Longrightarrow> arc4_perm (arc4_state (snd (arcfour_byte ctx)))"
  using unat_and_ff by (auto simp: arcfour_byte_def Let_def intro!: arc4_perm_swap)

lemma arcfour_encrypt_perm:
  "arc4_perm (arc4_state ctx) \<Longrightarrow> arc4_perm (arc4_state (snd (arcfour_encrypt ctx src)))"
  by (induction src arbitrary: ctx)
     (auto simp: Let_def split_beta dest: arcfour_byte_perm)

text \<open>Whatever the key, the S-box of RC4 is a permutation of the 256 byte values after key
  scheduling and after any amount of data has been encrypted.\<close>

theorem arcfour_state_permutation:
  "mset (arc4_state (snd (arcfour_encrypt (arcfour_init key key_len) src)))
     = mset (map word_of_nat [0..<256])"
  using arcfour_encrypt_perm [OF arcfour_init_perm] by (simp add: arc4_perm_def)

section \<open>Stream ciphers\<close>

text \<open>
  What the WEP and TKIP code relies on: \<open>crypt\<close> turns a byte string into one of the same
  length, decrypts what it encrypted from the same context, and may be called piecewise. The
  senders encrypt the payload and then, with the context where it stopped, the ICV; the
  receivers decrypt payload and ICV in one call and compare the last four bytes.
\<close>

locale stream_cipher =
  fixes crypt :: "'c \<Rightarrow> bytes \<Rightarrow> bytes \<times> 'c"
  assumes crypt_length: "length (fst (crypt c xs)) = length xs"
    and crypt_involution: "fst (crypt c (fst (crypt c xs))) = xs"
    and crypt_append: "fst (crypt c (xs @ ys)) = fst (crypt c xs) @ fst (crypt (snd (crypt c xs)) ys)"
begin

lemma open_sealed:
  "fst (crypt c (fst (crypt c xs) @ fst (crypt (snd (crypt c xs)) ys))) = xs @ ys"
  by (simp add: crypt_append [symmetric] crypt_involution)

lemma crypt_inject: "fst (crypt c xs) = fst (crypt c ys) \<longleftrightarrow> xs = ys"
  by (metis crypt_involution)

lemma sealed_length: "length (fst (crypt c xs) @ fst (crypt c' ys)) = length xs + length ys"
  by (simp add: crypt_length)

end

lemma arcfour_encrypt_snd_length:
  "length src = length src' \<Longrightarrow> snd (arcfour_encrypt ctx src) = snd (arcfour_encrypt ctx src')"
  by (induction src src' arbitrary: ctx rule: list_induct2) (auto simp: Let_def split_beta)

lemma arcfour_encrypt_length: "length (fst (arcfour_encrypt ctx src)) = length src"
  by (induction src arbitrary: ctx) (auto simp: Let_def split_beta) 

lemma arcfour_encrypt_involution:
  "fst (arcfour_encrypt ctx (fst (arcfour_encrypt ctx src))) = src"
proof (induction src arbitrary: ctx)
  case Nil
  then show ?case by simp
next
  case (Cons b src)
  show ?case
    using Cons [of "snd (arcfour_byte ctx)"]
    by (simp add: Let_def split_beta xor.assoc)
qed

lemma arcfour_encrypt_append:
  "fst (arcfour_encrypt ctx (xs @ ys))
     = fst (arcfour_encrypt ctx xs) @ fst (arcfour_encrypt (snd (arcfour_encrypt ctx xs)) ys)"
  by (induction xs arbitrary: ctx) (auto simp: Let_def split_beta)

interpretation rc4: stream_cipher arcfour_encrypt
  by unfold_locales (rule arcfour_encrypt_length arcfour_encrypt_involution arcfour_encrypt_append)+

end
