(* ===== verification/Crc32.thy ===== *)
theory Crc32
  imports Prelude
begin

text \<open>
  The table-driven CRC-32 of \<^verbatim>\<open>core/rtw_security.c\<close> that WEP and TKIP append as integrity
  check value, its equivalence with the bit-serial CRC of IEEE 802.3, and the errors it detects.
\<close>

section \<open>The code\<close>

definition CRC32_POLY :: u32 where "CRC32_POLY = 0x04c11db7"

definition crc32_reverseBit :: "u8 \<Rightarrow> u8" where
  "crc32_reverseBit data =
     (push_bit 7 data AND 0x80) OR (push_bit 5 data AND 0x40) OR (push_bit 3 data AND 0x20)
     OR (push_bit 1 data AND 0x10) OR (drop_bit 1 data AND 0x08) OR (drop_bit 3 data AND 0x04)
     OR (drop_bit 5 data AND 0x02) OR (drop_bit 7 data AND 0x01)"

text \<open>The statics \<^verbatim>\<open>bcrc32initialized\<close> and \<^verbatim>\<open>crc32_table\<close>.\<close>

record crc_state =
  bcrc32initialized :: bool
  crc32_table :: "u32 list"

text \<open>One entry of the table: the inner loop shifts \<open>j\<close> times, most significant bit first, and
  the four bytes of the little-endian word are then reversed in order and bit by bit.\<close>

fun crc32_shift :: "nat \<Rightarrow> u32 \<Rightarrow> u32" where
  "crc32_shift 0 c = c"
| "crc32_shift (Suc j) c =
     crc32_shift j (if c AND 0x80000000 \<noteq> 0 then push_bit 1 c XOR CRC32_POLY else push_bit 1 c)"

definition crc32_entry :: "u8 \<Rightarrow> u32" where
  "crc32_entry i =
     (let k = crc32_reverseBit i;
          p = put_le32 (crc32_shift 8 (push_bit 24 (ucast k)))
      in get_le32 [crc32_reverseBit (p ! 3), crc32_reverseBit (p ! 2),
                   crc32_reverseBit (p ! 1), crc32_reverseBit (p ! 0)])"

definition crc32_init :: "crc_state \<Rightarrow> crc_state" where
  "crc32_init s =
     (if bcrc32initialized s then s
      else s\<lparr>crc32_table := map (\<lambda>i. crc32_entry (word_of_nat i)) [0..<256],
             bcrc32initialized := True\<rparr>)"

fun crc32_loop :: "u32 list \<Rightarrow> u32 \<Rightarrow> bytes \<Rightarrow> u32" where
  "crc32_loop table crc [] = crc"
| "crc32_loop table crc (p # buf) =
     crc32_loop table (table ! unat ((crc XOR ucast p) AND 0xff) XOR drop_bit 8 crc) buf"

definition getcrc32_st :: "crc_state \<Rightarrow> bytes \<Rightarrow> u32 \<times> crc_state" where
  "getcrc32_st s buf =
     (let s' = (if bcrc32initialized s then s else crc32_init s)
      in (NOT (crc32_loop (crc32_table s') 0xffffffff buf), s'))"

text \<open>The statics start out zeroed; the value of the first call.\<close>

definition crc_state0 :: crc_state where
  "crc_state0 = \<lparr>bcrc32initialized = False, crc32_table = replicate 256 0\<rparr>"

definition getcrc32 :: "bytes \<Rightarrow> u32" where
  "getcrc32 buf = fst (getcrc32_st crc_state0 buf)"

section \<open>The initialisation flag\<close>

definition crc_state_ok :: "crc_state \<Rightarrow> bool" where
  "crc_state_ok s \<longleftrightarrow> (bcrc32initialized s \<longrightarrow>
     crc32_table s = map (\<lambda>i. crc32_entry (word_of_nat i)) [0..<256])"

lemma crc_state0_ok: "crc_state_ok crc_state0"
  by (simp add: crc_state_ok_def crc_state0_def)

lemma getcrc32_st_ok: "crc_state_ok s \<Longrightarrow> crc_state_ok (snd (getcrc32_st s buf))"
  by (auto simp: crc_state_ok_def getcrc32_st_def crc32_init_def Let_def)

text \<open>Which call fills the table does not matter: every later call returns what the first one
  would have returned.\<close>

lemma getcrc32_st_value: "crc_state_ok s \<Longrightarrow> fst (getcrc32_st s buf) = getcrc32 buf"
  by (auto simp: crc_state_ok_def getcrc32_def getcrc32_st_def crc32_init_def crc_state0_def Let_def)

section \<open>The bit-serial CRC of IEEE 802.3\<close>

definition crc_bit :: "u32 \<Rightarrow> u32" where
  "crc_bit c = (if odd c then drop_bit 1 c XOR 0xEDB88320 else drop_bit 1 c)"

definition crc_byte :: "u32 \<Rightarrow> u8 \<Rightarrow> u32" where
  "crc_byte c b = (crc_bit ^^ 8) (c XOR ucast b)"

definition crc32_ref :: "bytes \<Rightarrow> u32" where
  "crc32_ref buf = NOT (foldl crc_byte 0xffffffff buf)"

section \<open>The table\<close>

definition rev32 :: "u32 \<Rightarrow> u32" where
  "rev32 c = horner_sum of_bool 2 (map (\<lambda>n. bit c (31 - n)) [0..<32])"

lemma bit_rev32: "bit (rev32 c) n \<longleftrightarrow> n < 32 \<and> bit c (31 - n)"
  by (auto simp: rev32_def bit_horner_sum_bit_word_iff)

lemma rev32_poly: "rev32 CRC32_POLY = 0xEDB88320"
  by (simp add: rev32_def CRC32_POLY_def upt_rec)

lemma rev32_xor: "rev32 (a XOR b) = rev32 a XOR rev32 b"
  by (rule bit_word_eqI) (auto simp: bit_rev32 bit_simps)

lemma rev32_push: "rev32 (push_bit 1 c) = drop_bit 1 (rev32 c)"
  by (rule bit_word_eqI) (auto simp: bit_rev32 bit_double_word bit_drop_bit_eq Suc_diff_le)

lemma odd_rev32: "odd (rev32 c) \<longleftrightarrow> bit c 31"
  by (simp add: bit_rev32 flip: bit_0)

lemma bit31: "c AND 0x80000000 \<noteq> 0 \<longleftrightarrow> bit (c :: u32) 31"
proof -
  have "(0x80000000 :: u32) = push_bit 31 1" by simp
  then show ?thesis by (metis and.commute bit_iff_and_push_bit_not_eq_0)
qed

lemma crc32_shift_rev: "rev32 (crc32_shift j c) = (crc_bit ^^ j) (rev32 c)"
proof (induction j arbitrary: c)
  case 0
  then show ?case by simp
next
  case (Suc j)
  then show ?case
    by (cases "bit c 31")
       (simp_all only: crc32_shift.simps bit31 funpow_Suc_right o_apply crc_bit_def [of "rev32 c"]
          odd_rev32 rev32_xor rev32_push rev32_poly if_True if_False simp_thms)
qed

lemma bit_reverseBit: "bit (crc32_reverseBit b) n \<longleftrightarrow> n < 8 \<and> bit b (7 - n)"
proof (cases "n < 8")
  case True
  then have "n = 0 \<or> n = 1 \<or> n = 2 \<or> n = 3 \<or> n = 4 \<or> n = 5 \<or> n = 6 \<or> n = 7" by auto
  then show ?thesis
    by (elim disjE) (simp_all add: crc32_reverseBit_def bit_simps bit_double_word)
next
  case False
  then show ?thesis using bit_u8_bound by blast
qed

lemma byte_reversal_rev32:
  "get_le32 [crc32_reverseBit (put_le32 c ! 3), crc32_reverseBit (put_le32 c ! 2),
             crc32_reverseBit (put_le32 c ! 1), crc32_reverseBit (put_le32 c ! 0)] = rev32 c"
proof (rule bit_word_eqI)
  fix n assume "n < LENGTH(32)"
  then have n: "n < 32" by simp
  show "bit (get_le32 [crc32_reverseBit (put_le32 c ! 3), crc32_reverseBit (put_le32 c ! 2),
             crc32_reverseBit (put_le32 c ! 1), crc32_reverseBit (put_le32 c ! 0)]) n
             = bit (rev32 c) n"
    using n
  proof (rule byte_ranges)
  qed (simp_all add: bit_get_le32 bit_reverseBit bit_put_le32 bit_rev32 n del: One_nat_def)
qed

lemma rev32_top_byte: "rev32 (push_bit 24 (ucast (crc32_reverseBit b))) = ucast b"
proof (rule bit_word_eqI)
  fix n assume "n < LENGTH(32)"
  moreover have "n < 8 \<Longrightarrow> 31 - n - 24 = 7 - n" "n < 8 \<Longrightarrow> 7 - (7 - n) = n" by auto
  ultimately show "bit (rev32 (push_bit 24 (ucast (crc32_reverseBit b)))) n = bit (ucast b :: u32) n"
    using bit_u8_bound [of b n]
    by (auto simp: bit_rev32 bit_simps bit_reverseBit)
qed

lemma crc32_entry_eq: "crc32_entry b = (crc_bit ^^ 8) (ucast b)"
  unfolding crc32_entry_def Let_def byte_reversal_rev32 crc32_shift_rev rev32_top_byte ..

section \<open>Eight serial steps are one table step\<close>

lemma crc_bit_xor: "crc_bit (a XOR b) = crc_bit a XOR crc_bit b"
proof -
  have "odd (a XOR b) \<longleftrightarrow> odd a \<noteq> odd b" by (simp add: bit_simps flip: bit_0)
  then show ?thesis
    by (cases "odd a"; cases "odd b")
       (simp_all add: crc_bit_def drop_bit_xor xor.assoc xor.left_commute xor.commute)
qed

lemma crc_bits_xor: "(crc_bit ^^ n) (a XOR b) = (crc_bit ^^ n) a XOR (crc_bit ^^ n) b"
  by (induction n) (simp_all add: crc_bit_xor)

lemma crc_bits_high:
  "(\<And>i. i < n \<Longrightarrow> \<not> bit c i) \<Longrightarrow> (crc_bit ^^ n) c = drop_bit n c"
proof (induction n)
  case 0
  then show ?case by simp
next
  case (Suc n)
  then have "even (drop_bit n c)" by (simp add: even_drop_bit_iff_not_bit)
  with Suc show ?case by (simp add: crc_bit_def flip: drop_bit_Suc)
qed

lemma ucast_low_byte: "(ucast (ucast (c :: u32) :: u8) :: u32) = c AND 0xff"
proof -
  have "(0xff :: u32) = mask 8" by (simp add: mask_numeral)
  then show ?thesis by (simp add: bit_eq_iff bit_simps) (auto dest: bit_u32_bound)
qed

lemma low_byte_index: "word_of_nat (unat (c AND 0xff)) = (ucast (c :: u32) :: u8)"
proof -
  have "(0xff :: u32) = mask 8" by (simp add: mask_numeral)
  then have "ucast (c AND 0xff) = (ucast c :: u8)"
    by (simp add: bit_eq_iff bit_simps)
  then show ?thesis by (simp add: of_nat_unat)
qed

lemma crc_byte_table:
  "crc32_entry (ucast (c XOR ucast b)) XOR drop_bit 8 c = crc_byte c b"
proof -
  define d where "d = c XOR ucast b"
  have hi: "drop_bit 8 c = drop_bit 8 (d AND NOT (mask 8))"
  proof (rule bit_word_eqI)
    fix n show "bit (drop_bit 8 c) n = bit (drop_bit 8 (d AND NOT (mask 8))) n"
      using bit_u8_bound [of b "8 + n"] bit_u32_bound [of c "8 + n"]
      by (auto simp: d_def bit_simps)
  qed
  have low: "\<not> bit (d AND NOT (mask 8)) i" if "i < 8" for i
    using that by (simp add: bit_simps)
  have split: "(d AND mask 8) XOR (d AND NOT (mask 8)) = d"
    by (rule bit_word_eqI) (auto simp: bit_simps)
  have "(crc_bit ^^ 8) d = (crc_bit ^^ 8) (d AND mask 8) XOR (crc_bit ^^ 8) (d AND NOT (mask 8))"
    by (metis crc_bits_xor split)
  also have "\<dots> = crc32_entry (ucast d) XOR drop_bit 8 c"
    by (simp only: crc_bits_high [OF low] hi crc32_entry_eq ucast_low_byte mask8)
  finally show ?thesis by (simp add: crc_byte_def d_def)
qed

lemma crc32_loop_ref:
  "crc32_loop (map (\<lambda>i. crc32_entry (word_of_nat i)) [0..<256]) c buf = foldl crc_byte c buf"
proof (induction buf arbitrary: c)
  case Nil
  then show ?case by simp
next
  case (Cons b buf)
  let ?i = "unat ((c XOR ucast b) AND 0xff)"
  have "(c XOR ucast b) AND 0xff \<le> 0xff" by (rule word_and_le1)
  then have "?i < 256" by (simp add: word_le_nat_alt)
  then have "map (\<lambda>i. crc32_entry (word_of_nat i)) [0..<256] ! ?i
      = crc32_entry (word_of_nat ?i)" by simp
  then show ?case
    by (simp only: crc32_loop.simps foldl_Cons Cons low_byte_index crc_byte_table)
qed

lemma getcrc32_eq_ref: "getcrc32 buf = crc32_ref buf"
  by (simp add: getcrc32_def getcrc32_st_def crc32_init_def crc_state0_def Let_def crc32_ref_def
      crc32_loop_ref)

text \<open>The table-driven CRC of the driver is the bit-serial reflected CRC-32 of IEEE 802.3 on
  every buffer, whichever call of \<^verbatim>\<open>getcrc32\<close> filled the table.\<close>

theorem getcrc32_bit_serial:
  "crc_state_ok s \<Longrightarrow> fst (getcrc32_st s buf) = crc32_ref buf"
  by (simp add: getcrc32_st_value getcrc32_eq_ref)

theorem getcrc32_bit_serial_witness: "fst (getcrc32_st crc_state0 [1, 2, 3]) = crc32_ref [1, 2, 3]"
  by (rule getcrc32_bit_serial [OF crc_state0_ok])

section \<open>Error detection\<close>

lemma crc_bit_eq_0: "crc_bit c = 0 \<Longrightarrow> c = 0"
proof (rule ccontr)
  assume c: "crc_bit c = 0" "c \<noteq> 0"
  show False
  proof (cases "odd c")
    case True
    have "bit (crc_bit c) 31"
      using True bit_u32_bound [of c 32] by (auto simp: crc_bit_def bit_simps)
    with c show False by simp
  next
    case False
    with c have "drop_bit 1 c = 0" by (simp add: crc_bit_def)
    moreover obtain n where "bit c n" using c(2) by (auto simp: bit_eq_iff)
    ultimately show False
    proof (cases n)
      case 0
      with False \<open>bit c n\<close> show ?thesis by (simp add: bit_0)
    next
      case (Suc m)
      with \<open>bit c n\<close> have "bit (drop_bit 1 c) m" by (simp add: bit_drop_bit_eq)
      with \<open>drop_bit 1 c = 0\<close> show ?thesis by simp
    qed
  qed
qed

lemma crc_bits_inject: "(crc_bit ^^ n) a = (crc_bit ^^ n) b \<longleftrightarrow> a = b"
proof
  assume "(crc_bit ^^ n) a = (crc_bit ^^ n) b"
  then have "(crc_bit ^^ n) (a XOR b) = 0" by (simp add: crc_bits_xor)
  then have "a XOR b = 0" by (induction n) (auto dest: crc_bit_eq_0)
  then show "a = b" by (metis xor.right_neutral xor_word_cancel xor_self_eq)
qed simp

lemma crc_byte_inject_state: "crc_byte c b = crc_byte c' b \<longleftrightarrow> c = c'"
  by (metis crc_byte_def crc_bits_inject xor.commute xor_word_cancel)

lemma crc_byte_inject_data: "crc_byte c b = crc_byte c b' \<longleftrightarrow> b = b'"
proof -
  have "crc_byte c b = crc_byte c b' \<longleftrightarrow> (ucast b :: u32) = ucast b'"
    by (simp add: crc_byte_def crc_bits_inject xor_word_cancel)
  also have "\<dots> \<longleftrightarrow> b = b'"
    by (auto simp: bit_eq_iff bit_simps dest: bit_u8_bound)
  finally show ?thesis .
qed

lemma foldl_crc_inject: "foldl crc_byte c buf = foldl crc_byte c' buf \<longleftrightarrow> c = c'"
  by (induction buf arbitrary: c c') (simp_all add: crc_byte_inject_state)

text \<open>The integrity check value detects every corruption confined to one byte, wherever it
  is in the frame.\<close>

theorem getcrc32_detects_byte_error:
  "getcrc32 (pre @ a # post) = getcrc32 (pre @ b # post) \<longleftrightarrow> a = b"
  by (simp add: getcrc32_eq_ref crc32_ref_def foldl_crc_inject crc_byte_inject_data)

end
