(* ===== verification/Michael.thy ===== *)
theory Michael
  imports Prelude
begin

text \<open>
  The Michael message integrity code of TKIP in \<^verbatim>\<open>core/rtw_security.c\<close>: the byte-wise
  accumulator (\<^verbatim>\<open>rtw_secmicsetkey\<close>, \<^verbatim>\<open>rtw_secmicappend\<close>, \<^verbatim>\<open>rtw_secgetmic\<close>), the computation
  over a frame (\<^verbatim>\<open>rtw_seccalctkipmic\<close>), and its equality with the block function of the standard
  applied to the padded message.
\<close>

section \<open>The code\<close>

text \<open>\<^verbatim>\<open>struct mic_data\<close>.\<close>

record mic_data =
  K0 :: u32
  K1 :: u32
  mL :: u32
  mR :: u32
  mM :: u32
  nBytesInM :: nat

definition ROL32 :: "u32 \<Rightarrow> nat \<Rightarrow> u32" where
  "ROL32 A n = push_bit n A OR (drop_bit (32 - n) A AND (push_bit n 1 - 1))"

definition ROR32 :: "u32 \<Rightarrow> nat \<Rightarrow> u32" where
  "ROR32 A n = ROL32 A (32 - n)"

definition secmicgetuint32 :: "bytes \<Rightarrow> u32" where
  "secmicgetuint32 p =
     foldl (\<lambda>res i. res OR push_bit (8 * i) (ucast (p ! i))) 0 [0..<4]"

fun secmicput_loop :: "nat \<Rightarrow> u32 \<Rightarrow> bytes" where
  "secmicput_loop 0 val = []"
| "secmicput_loop (Suc i) val = ucast (val AND 0xff) # secmicput_loop i (drop_bit 8 val)"

definition secmicputuint32 :: "u32 \<Rightarrow> bytes" where
  "secmicputuint32 val = secmicput_loop 4 val"

definition secmicclear :: "mic_data \<Rightarrow> mic_data" where
  "secmicclear s = s\<lparr>mL := K0 s, mR := K1 s, nBytesInM := 0, mM := 0\<rparr>"

definition rtw_secmicsetkey :: "mic_data \<Rightarrow> bytes \<Rightarrow> mic_data" where
  "rtw_secmicsetkey s key =
     secmicclear (s\<lparr>K0 := secmicgetuint32 key, K1 := secmicgetuint32 (drop 4 key)\<rparr>)"

definition rtw_secmicappendbyte :: "mic_data \<Rightarrow> u8 \<Rightarrow> mic_data" where
  "rtw_secmicappendbyte s b =
     (let m = mM s OR push_bit (8 * nBytesInM s) (ucast b); n = nBytesInM s + 1
      in if n \<ge> 4 then
           let l = mL s XOR m;
               r = mR s XOR ROL32 l 17;
               l = l + r;
               r = r XOR (drop_bit 8 (l AND 0xff00ff00) OR push_bit 8 (l AND 0x00ff00ff));
               l = l + r;
               r = r XOR ROL32 l 3;
               l = l + r;
               r = r XOR ROR32 l 2;
               l = l + r
           in s\<lparr>mL := l, mR := r, mM := 0, nBytesInM := 0\<rparr>
         else s\<lparr>mM := m, nBytesInM := n\<rparr>)"

fun rtw_secmicappend :: "mic_data \<Rightarrow> bytes \<Rightarrow> mic_data" where
  "rtw_secmicappend s [] = s"
| "rtw_secmicappend s (b # src) = rtw_secmicappend (rtw_secmicappendbyte s b) src"

text \<open>The padding loop \<^verbatim>\<open>while( pmicdata->nBytesInM != 0 )\<close>.\<close>

function secmic_flush :: "mic_data \<Rightarrow> mic_data" where
  "secmic_flush s =
     (if nBytesInM s \<noteq> 0 then secmic_flush (rtw_secmicappendbyte s 0) else s)"
  by pat_completeness auto
termination
  by (relation "measure (\<lambda>s. if nBytesInM s = 0 then 0 else Suc (4 - nBytesInM s))")
     (auto simp: rtw_secmicappendbyte_def Let_def)

declare secmic_flush.simps [simp del]

definition rtw_secgetmic :: "mic_data \<Rightarrow> bytes \<times> mic_data" where
  "rtw_secgetmic s =
     (let s = rtw_secmicappendbyte s 0x5a;
          s = rtw_secmicappendbyte s 0;
          s = rtw_secmicappendbyte s 0;
          s = rtw_secmicappendbyte s 0;
          s = rtw_secmicappendbyte s 0;
          s = secmic_flush s
      in (secmicputuint32 (mL s) @ secmicputuint32 (mR s), secmicclear s))"

definition mic_data0 :: mic_data where
  "mic_data0 = \<lparr>K0 = 0, K1 = 0, mL = 0, mR = 0, mM = 0, nBytesInM = 0\<rparr>"

text \<open>\<open>data\<close> holds the \<open>data_len\<close> bytes the code reads. The local \<open>micdata\<close> is
  uninitialised in C; every field is set by \<^verbatim>\<open>rtw_secmicsetkey\<close> before it is read, so the model
  starts it from zeros.\<close>

definition rtw_seccalctkipmic :: "bytes \<Rightarrow> bytes \<Rightarrow> bytes \<Rightarrow> u8 \<Rightarrow> bytes" where
  "rtw_seccalctkipmic key header data pri =
     (let s = rtw_secmicsetkey mic_data0 key;
          s = (if header ! 1 AND 1 \<noteq> 0 then
                 let s = rtw_secmicappend s (buf_get 16 6 header)
                 in if header ! 1 AND 2 \<noteq> 0
                    then rtw_secmicappend s (buf_get 24 6 header)
                    else rtw_secmicappend s (buf_get 10 6 header)
               else
                 let s = rtw_secmicappend s (buf_get 4 6 header)
                 in if header ! 1 AND 2 \<noteq> 0
                    then rtw_secmicappend s (buf_get 16 6 header)
                    else rtw_secmicappend s (buf_get 10 6 header));
          s = rtw_secmicappend s [pri, 0, 0, 0];
          s = rtw_secmicappend s data
      in fst (rtw_secgetmic s))"

section \<open>The standard's definition\<close>

text \<open>The block function: one word of message into the two halves of the state.\<close>

definition michael_block :: "u32 \<times> u32 \<Rightarrow> u32 \<Rightarrow> u32 \<times> u32" where
  "michael_block = (\<lambda>(l, r) w.
     let l = l XOR w;
         r = r XOR word_rotl 17 l; l = l + r;
         r = r XOR (drop_bit 8 (l AND 0xff00ff00) OR push_bit 8 (l AND 0x00ff00ff)); l = l + r;
         r = r XOR word_rotl 3 l; l = l + r;
         r = r XOR word_rotr 2 l; l = l + r
     in (l, r))"

fun le_words :: "bytes \<Rightarrow> u32 list" where
  "le_words (a # b # c # d # bs) = get_le32 [a, b, c, d] # le_words bs"
| "le_words _ = []"

definition michael_pad :: "bytes \<Rightarrow> bytes" where
  "michael_pad msg = msg @ 0x5a # replicate (7 - length msg mod 4) 0"

definition michael :: "bytes \<Rightarrow> bytes \<Rightarrow> bytes" where
  "michael key msg =
     (let (l, r) = foldl michael_block (get_le32 (take 4 key), get_le32 (take 4 (drop 4 key)))
                     (le_words (michael_pad msg))
      in put_le32 l @ put_le32 r)"

text \<open>Destination and source address of a data frame, from the ToDS and FromDS bits.\<close>

definition to_ds :: "bytes \<Rightarrow> bool" where "to_ds header \<longleftrightarrow> bit (header ! 1) 0"
definition from_ds :: "bytes \<Rightarrow> bool" where "from_ds header \<longleftrightarrow> bit (header ! 1) 1"

definition frame_DA :: "bytes \<Rightarrow> bytes" where
  "frame_DA header = (if to_ds header then buf_get 16 6 header else buf_get 4 6 header)"

definition frame_SA :: "bytes \<Rightarrow> bytes" where
  "frame_SA header =
     (if from_ds header then (if to_ds header then buf_get 24 6 header else buf_get 16 6 header)
      else buf_get 10 6 header)"

section \<open>The accumulator computes the block function\<close>

lemma bit_word_rotl_u32:
  assumes "n < 32" "k < 32"
  shows "bit (word_rotl n (A :: u32)) k = bit A (if n \<le> k then k - n else k + 32 - n)"
proof -
  have idx: "(k + (32 - n)) mod 32 = (if n \<le> k then k - n else k + 32 - n)"
    using assms by (auto simp: mod_if)
  from assms show ?thesis by (simp add: bit_word_rotl_iff del: Nat.add_diff_assoc2 flip: idx)
qed

lemma ROL32_eq: "n < 32 \<Longrightarrow> ROL32 A n = word_rotl n A"
proof (rule bit_word_eqI)
  fix k assume n: "n < 32" and "k < LENGTH(32)"
  then have k: "k < 32" by simp
  have pow: "(push_bit n 1 - 1 :: u32) = mask n" by (simp add: mask_eq_exp_minus_1)
  show "bit (ROL32 A n) k = bit (word_rotl n A) k"
    unfolding ROL32_def pow bit_word_rotl_u32 [OF n k]
    using n k bit_u32_bound [of A "32 - n + k"]
    by (auto simp: bit_or_iff bit_and_iff bit_push_bit_iff bit_drop_bit_eq bit_mask_iff add.commute)
qed

lemma ROR32_eq: "0 < n \<Longrightarrow> n < 32 \<Longrightarrow> ROR32 A n = word_rotr n A"
  by (simp add: ROR32_def ROL32_eq word_rotl_eq_word_rotr [of "32 - n"])

lemma secmicgetuint32_eq: "4 \<le> length p \<Longrightarrow> secmicgetuint32 p = get_le32 (take 4 p)"
  by (simp add: secmicgetuint32_def get_le32_def upt_rec or.assoc numeral_2_eq_2 numeral_3_eq_3)

lemma secmicputuint32_eq: "secmicputuint32 w = put_le32 w"
proof -
  have *: "(ucast (x AND 0xff) :: u8) = ucast x" for x :: u32
    by (rule bit_word_eqI) (simp add: mask8 bit_simps)
  show ?thesis
    by (simp add: secmicputuint32_def put_le32_def numeral_eq_Suc *)
qed

lemma appendbyte_fills:
  assumes "nBytesInM s = 3"
  shows "rtw_secmicappendbyte s b =
    (let (l, r) = michael_block (mL s, mR s) (mM s OR push_bit 24 (ucast b))
     in s\<lparr>mL := l, mR := r, mM := 0, nBytesInM := 0\<rparr>)"
  using assms
  by (simp add: rtw_secmicappendbyte_def michael_block_def Let_def ROL32_eq ROR32_eq)

lemma appendbyte_stores:
  assumes "nBytesInM s < 3"
  shows "rtw_secmicappendbyte s b =
    s\<lparr>mM := mM s OR push_bit (8 * nBytesInM s) (ucast b), nBytesInM := nBytesInM s + 1\<rparr>"
  using assms by (simp add: rtw_secmicappendbyte_def Let_def)

text \<open>The accumulator between two words of the message.\<close>

definition at_word :: "u32 \<times> u32 \<Rightarrow> mic_data \<Rightarrow> mic_data" where
  "at_word lr s = s\<lparr>mL := fst lr, mR := snd lr, mM := 0, nBytesInM := 0\<rparr>"

lemma append_four:
  "rtw_secmicappend (at_word lr s) [a, b, c, d]
     = at_word (michael_block lr (get_le32 [a, b, c, d])) s"
  by (simp add: appendbyte_stores appendbyte_fills at_word_def get_le32_def split_beta or.assoc)

lemma append_append:
  "rtw_secmicappend s (xs @ ys) = rtw_secmicappend (rtw_secmicappend s xs) ys"
  by (induction xs arbitrary: s) auto

lemma append_words:
  "length msg mod 4 = 0 \<Longrightarrow>
   rtw_secmicappend (at_word lr s) msg = at_word (foldl michael_block lr (le_words msg)) s"
proof (induction msg arbitrary: lr rule: le_words.induct)
  case (1 a b c d bs)
  have "rtw_secmicappend (at_word lr s) (a # b # c # d # bs)
      = rtw_secmicappend (rtw_secmicappend (at_word lr s) [a, b, c, d]) bs" by simp
  also have "\<dots> = at_word (foldl michael_block lr (le_words (a # b # c # d # bs))) s"
    using "1.prems" unfolding append_four by (simp add: "1.IH")
  finally show ?case .
qed simp_all

lemma appendbyte_count:
  "nBytesInM s < 4 \<Longrightarrow> nBytesInM (rtw_secmicappendbyte s b) = (nBytesInM s + 1) mod 4"
  by (cases "nBytesInM s = 3") (auto simp: rtw_secmicappendbyte_def Let_def)

lemma append_count:
  "nBytesInM s < 4 \<Longrightarrow> nBytesInM (rtw_secmicappend s xs) = (nBytesInM s + length xs) mod 4"
proof (induction xs arbitrary: s)
  case (Cons b xs)
  from Cons.prems have "nBytesInM (rtw_secmicappendbyte s b) < 4" by (simp add: appendbyte_count)
  from Cons.IH [OF this] Cons.prems show ?case by (simp add: appendbyte_count mod_simps)
qed simp

text \<open>The padding loop appends the zeros that fill the last word, and so always ends.\<close>

lemma flush_zeros:
  "nBytesInM s < 4 \<Longrightarrow>
   secmic_flush s = rtw_secmicappend s (replicate ((4 - nBytesInM s) mod 4) 0)"
proof (induction s rule: secmic_flush.induct)
  case (1 s)
  show ?case
  proof (cases "nBytesInM s = 0")
    case True
    then show ?thesis by (simp add: secmic_flush.simps)
  next
    case False
    with "1.prems" have n: "nBytesInM s = 1 \<or> nBytesInM s = 2 \<or> nBytesInM s = 3" by auto
    from "1.prems" have lt: "nBytesInM (rtw_secmicappendbyte s 0) < 4" by (simp add: appendbyte_count)
    have "secmic_flush s = secmic_flush (rtw_secmicappendbyte s 0)"
      using False by (subst secmic_flush.simps) simp
    also have "\<dots> = rtw_secmicappend (rtw_secmicappendbyte s 0)
        (replicate ((4 - (nBytesInM s + 1) mod 4) mod 4) 0)"
      unfolding "1.IH" [OF False lt] appendbyte_count [OF "1.prems"] ..
    also have "\<dots> = rtw_secmicappend s (0 # replicate ((4 - (nBytesInM s + 1) mod 4) mod 4) 0)"
      by simp
    also have "0 # replicate ((4 - (nBytesInM s + 1) mod 4) mod 4) (0 :: u8)
        = replicate ((4 - nBytesInM s) mod 4) 0"
      using n by (elim disjE) (simp_all add: replicate_pred)
    finally show ?thesis .
  qed
qed

lemma getmic_pads:
  assumes "nBytesInM s = length msg mod 4"
  shows "secmic_flush (rtw_secmicappend s [0x5a, 0, 0, 0, 0])
       = rtw_secmicappend s (0x5a # replicate (7 - length msg mod 4) 0)"
proof -
  let ?s = "rtw_secmicappend s [0x5a, 0, 0, 0, 0]"
  have lt: "length msg mod 4 < 4" by simp
  then have cnt: "nBytesInM ?s = (length msg mod 4 + 5) mod 4"
    using assms by (subst append_count) (auto simp: add.commute)
  have z: "[0x5a, 0, 0, 0, 0] @ replicate ((4 - (length msg mod 4 + 5) mod 4) mod 4) 0
       = 0x5a # replicate (7 - length msg mod 4) (0 :: u8)"
  proof -
    from lt have "length msg mod 4 = 0 \<or> length msg mod 4 = 1 \<or> length msg mod 4 = 2
        \<or> length msg mod 4 = 3" by auto
    then show ?thesis by (elim disjE) (simp_all add: replicate_pred)
  qed
  have "secmic_flush ?s = rtw_secmicappend ?s (replicate ((4 - nBytesInM ?s) mod 4) 0)"
    by (rule flush_zeros) (unfold cnt, simp)
  also have "\<dots> = rtw_secmicappend s
      ([0x5a, 0, 0, 0, 0] @ replicate ((4 - (length msg mod 4 + 5) mod 4) mod 4) 0)"
    unfolding cnt append_append ..
  finally show ?thesis unfolding z .
qed

section \<open>The MIC of a frame\<close>

definition mic_state :: "bytes \<Rightarrow> mic_data" where
  "mic_state key = rtw_secmicsetkey mic_data0 key"

lemma mic_state_at_word:
  "8 \<le> length key \<Longrightarrow> mic_state key
     = at_word (get_le32 (take 4 key), get_le32 (take 4 (drop 4 key))) (mic_state key)"
  by (simp add: mic_state_def at_word_def rtw_secmicsetkey_def secmicclear_def secmicgetuint32_eq)

lemma getmic_message:
  assumes "8 \<le> length key"
  shows "fst (rtw_secgetmic (rtw_secmicappend (mic_state key) msg)) = michael key msg"
proof -
  let ?s = "rtw_secmicappend (mic_state key) msg"
  let ?lr = "(get_le32 (take 4 key), get_le32 (take 4 (drop 4 key)))"
  have z: "nBytesInM (mic_state key) = 0"
    by (simp add: mic_state_def rtw_secmicsetkey_def secmicclear_def)
  then have cnt: "nBytesInM ?s = length msg mod 4" by (simp add: append_count)
  have pad: "length (michael_pad msg) mod 4 = 0"
    by (simp add: michael_pad_def) presburger
  have "secmic_flush (rtw_secmicappend ?s [0x5a, 0, 0, 0, 0])
      = rtw_secmicappend (mic_state key) (michael_pad msg)"
    unfolding getmic_pads [OF cnt] michael_pad_def append_append ..
  also have "\<dots> = at_word (foldl michael_block ?lr (le_words (michael_pad msg))) (mic_state key)"
    by (subst mic_state_at_word [OF assms]) (rule append_words [OF pad])
  finally show ?thesis
    by (simp add: rtw_secgetmic_def Let_def michael_def split_beta at_word_def secmicputuint32_eq)
qed

lemma one_bit: "b AND 1 \<noteq> 0 \<longleftrightarrow> bit (b :: u8) 0"
  by (simp add: and_one_eq bit_0 odd_iff_mod_2_eq_one)

lemma two_bit: "b AND 2 \<noteq> 0 \<longleftrightarrow> bit (b :: u8) 1"
proof -
  have "(2 :: u8) = push_bit 1 1" by simp
  then show ?thesis by (metis and.commute bit_iff_and_push_bit_not_eq_0)
qed

lemma calctkipmic_michael:
  assumes "8 \<le> length key"
  shows "rtw_seccalctkipmic key header data pri
       = michael key (frame_DA header @ frame_SA header @ [pri, 0, 0, 0] @ data)"
proof -
  have "rtw_seccalctkipmic key header data pri
      = fst (rtw_secgetmic (rtw_secmicappend (mic_state key)
          (frame_DA header @ frame_SA header @ [pri, 0, 0, 0] @ data)))"
    unfolding rtw_seccalctkipmic_def mic_state_def Let_def append_append one_bit two_bit
    by (auto simp: frame_DA_def frame_SA_def to_ds_def from_ds_def)
  with getmic_message [OF assms] show ?thesis by simp
qed

text \<open>The MIC computed for a frame is the Michael function of the standard over the padded
  message DA, SA, priority, three zero bytes and the data, where the addresses are those that the ToDS
  and FromDS bits of the header select.\<close>

theorem rtw_seccalctkipmic_michael:
  assumes "8 \<le> length key"
  shows "rtw_seccalctkipmic key header data pri
       = michael key (frame_DA header @ frame_SA header @ [pri, 0, 0, 0] @ data)"
  by (rule calctkipmic_michael [OF assms])

theorem rtw_seccalctkipmic_michael_witness:
  "rtw_seccalctkipmic [1, 2, 3, 4, 5, 6, 7, 8] (replicate 30 0) [9, 10] 7
     = michael [1, 2, 3, 4, 5, 6, 7, 8] (replicate 12 0 @ [7, 0, 0, 0, 9, 10])"
  using rtw_seccalctkipmic_michael [of "[1, 2, 3, 4, 5, 6, 7, 8]" "replicate 30 0" "[9, 10]" 7]
  by (simp add: frame_DA_def frame_SA_def to_ds_def from_ds_def buf_get_def replicate_pred)

end
