(* ===== verification/Sta.thy ===== *)
theory Sta
  imports Prelude
begin

text \<open>
  The station table of \<^verbatim>\<open>core/rtw_sta_mgt.c\<close>: the array of station slots, the queue of
  free ones and the hash lists through which stations are found. A \<^verbatim>\<open>struct sta_info *\<close> is
  the index of the slot it points to.
\<close>

section \<open>The table\<close>

definition NUM_STA :: nat where "NUM_STA = 32"

definition FW_LINKED :: u32 where "FW_LINKED = 1"

record sta_info =
  hwaddr :: bytes
  sta_state :: u32
  dot118021x_UncstKey :: bytes

record sta_priv =
  sta_buf :: "sta_info list"
  free_sta_queue :: "nat list"
  sta_hash :: "nat list list"
  asoc_sta_count :: int

definition is_multicast_ether_addr :: "bytes \<Rightarrow> bool" where
  "is_multicast_ether_addr addr \<longleftrightarrow> addr ! 0 AND 1 \<noteq> 0"

definition bc_addr :: bytes where "bc_addr = replicate 6 0xff"

text \<open>\<^verbatim>\<open>wifi_mac_hash\<close>: the accumulator is a \<^verbatim>\<open>u32\<close>.\<close>

definition wifi_mac_hash :: "bytes \<Rightarrow> nat" where
  "wifi_mac_hash mac =
     (let x = ucast (mac ! 0) :: u32;
          x = push_bit 2 x XOR ucast (mac ! 1);
          x = push_bit 2 x XOR ucast (mac ! 2);
          x = push_bit 2 x XOR ucast (mac ! 3);
          x = push_bit 2 x XOR ucast (mac ! 4);
          x = push_bit 2 x XOR ucast (mac ! 5);
          x = x XOR drop_bit 8 x
      in unat (x AND (of_nat NUM_STA - 1)))"

text \<open>\<^verbatim>\<open>rtw_get_stainfo\<close>: a group address finds the broadcast station. \<open>memcmp\<close> compares
  the six bytes of the address.\<close>

definition rtw_get_stainfo :: "sta_priv \<Rightarrow> bytes \<Rightarrow> nat option" where
  "rtw_get_stainfo stapriv addr =
     (let addr = (if is_multicast_ether_addr addr then bc_addr else take 6 addr)
      in List.find (\<lambda>p. hwaddr (sta_buf stapriv ! p) = addr)
           (sta_hash stapriv ! wifi_mac_hash addr))"

lemma wifi_mac_hash_less: "wifi_mac_hash mac < NUM_STA"
proof -
  have "x AND (of_nat NUM_STA - 1) \<le> of_nat NUM_STA - 1" for x :: u32 by (rule word_and_le1)
  then have l: "unat (x AND (of_nat NUM_STA - 1)) < NUM_STA" for x :: u32
    unfolding word_le_nat_alt by (simp add: NUM_STA_def less_Suc_eq_le [symmetric])
  show ?thesis unfolding wifi_mac_hash_def Let_def by (rule l)
qed

end
