(* ===== verification/Frame.thy ===== *)
theory Frame
  imports Prelude Sta
begin

text \<open>
  What the three software ciphers (\<^verbatim>\<open>rtw_wep_encrypt\<close>, \<^verbatim>\<open>rtw_tkip_encrypt\<close>,
  \<^verbatim>\<open>rtw_aes_encrypt\<close> and their inverses) share: the attributes of a frame, the keys, the station
  table lookup, and the loop over the fragments of a transmit buffer. Memory behind a pointer is the list
  of the bytes from that pointer on; a function that works on a fragment takes the memory from
  \<^verbatim>\<open>pframe\<close> on and returns it updated, or \<open>None\<close> when the C code would leave it.
\<close>

section \<open>Attributes and keys\<close>

text \<open>The \<^verbatim>\<open>_NO_PRIVACY_\<close> to \<^verbatim>\<open>_WEP_WPA_MIXED_\<close> constants.\<close>

datatype privacy = NO_PRIVACY | WEP40 | TKIP | TKIP_WTMIC | AES | WEP104 | SMS4 | WEP_WPA_MIXED

text \<open>The fields of \<^verbatim>\<open>struct security_priv\<close>, \<^verbatim>\<open>struct pkt_attrib\<close>, \<^verbatim>\<open>struct rx_pkt_attrib\<close> and \<^verbatim>\<open>struct xmit_frame\<close>
  that the ciphers read. \<open>psta\<close> is the station pointer a transmit frame may carry.\<close>

record security_priv =
  dot11PrivacyKeyIndex :: nat
  dot11DefKey :: "bytes list"
  dot11DefKeylen :: "nat list"
  dot118021XGrpKeyid :: nat
  dot118021XGrpKey :: "bytes list"
  binstallGrpkey :: bool

record pkt_attrib =
  hdrlen :: nat
  iv_len :: nat
  icv_len :: nat
  last_txcmdsz :: nat
  nr_frags :: nat
  encrypt :: privacy
  pkt_ta :: bytes
  pkt_ra :: bytes
  psta :: "nat option"

record rx_pkt_attrib =
  rx_hdrlen :: nat
  rx_iv_len :: nat
  rx_encrypt :: privacy
  rx_ta :: bytes
  rx_ra :: bytes
  rx_key_index :: nat

text \<open>\<open>buf_addr\<close> is the memory behind the buffer pointer (\<open>None\<close> for a null pointer) and
  \<open>buf_base\<close> the address it starts at, which the rounding of fragment addresses depends on.\<close>

record xmit_frame =
  attrib :: pkt_attrib
  buf_addr :: "bytes option"
  buf_base :: nat

record recv_frame =
  rx_attrib :: rx_pkt_attrib
  rx_data :: bytes

definition TXDESC_OFFSET :: nat where "TXDESC_OFFSET = 32 + 8"

definition SET_ICE_IV_LEN :: "privacy \<Rightarrow> nat \<times> nat" where
  "SET_ICE_IV_LEN alg = (case alg of
     WEP40 \<Rightarrow> (4, 4) | WEP104 \<Rightarrow> (4, 4) | TKIP \<Rightarrow> (8, 4) | AES \<Rightarrow> (8, 8) | SMS4 \<Rightarrow> (18, 16)
   | _ \<Rightarrow> (0, 0))"

section \<open>Choosing the pairwise or group key\<close>

text \<open>
  The statements by which \<^verbatim>\<open>rtw_tkip_encrypt\<close> and \<^verbatim>\<open>rtw_aes_encrypt\<close> find the
  key of a frame: the station of the frame, or the one with the receiver address, has to be linked; a group
  address takes the current group key, any other the key of the station. \<open>Inl\<close> is a return with that
  result, \<open>None\<close> an index outside the array of group keys.
\<close>

definition grp_key :: "security_priv \<Rightarrow> nat \<Rightarrow> (rtw_status + bytes) option" where
  "grp_key sec k = (if k < 4 then Some (Inr (dot118021XGrpKey sec ! k)) else None)"

definition xmit_key ::
    "security_priv \<Rightarrow> sta_priv \<Rightarrow> pkt_attrib \<Rightarrow> (rtw_status + bytes) option" where
  "xmit_key sec stapriv a =
     (case (case psta a of Some i \<Rightarrow> Some i | None \<Rightarrow> rtw_get_stainfo stapriv (pkt_ra a)) of
        None \<Rightarrow> Some (Inl RTW_FAIL)
      | Some i \<Rightarrow>
        let stainfo = sta_buf stapriv ! i in
        if sta_state stainfo AND FW_LINKED = 0 then Some (Inl RTW_FAIL)
        else if is_multicast_ether_addr (pkt_ra a) then grp_key sec (dot118021XGrpKeyid sec)
        else Some (Inr (dot118021x_UncstKey stainfo)))"

section \<open>The fragments of a transmit buffer\<close>

definition RND4 :: "nat \<Rightarrow> nat" where
  "RND4 x = push_bit 2 (drop_bit 2 x + (if x AND 3 = 0 then 0 else 1))"

text \<open>The length of the plain payload of a fragment of \<open>sz\<close> bytes. A size smaller than the
  three lengths makes the C \<open>int\<close> negative; the ciphers then run over a huge unsigned length.\<close>

definition frag_payload :: "pkt_attrib \<Rightarrow> nat \<Rightarrow> nat option" where
  "frag_payload a sz =
     (if hdrlen a + iv_len a + icv_len a \<le> sz
      then Some (sz - hdrlen a - iv_len a - icv_len a) else None)"

text \<open>The loop \<open>for(curfragnum = 0; curfragnum < nr_frags; curfragnum++)\<close> that each of the
  three functions runs, with the sealing of one fragment as argument: \<open>pframe\<close> is an offset into the
  buffer, whose address is rounded up to a multiple of four after each fragment.\<close>

function frag_loop ::
    "(nat \<Rightarrow> bytes \<Rightarrow> bytes option) \<Rightarrow> pkt_attrib \<Rightarrow> nat \<Rightarrow> nat \<Rightarrow> nat \<Rightarrow> nat \<Rightarrow> bytes \<Rightarrow> bytes option" where
  "frag_loop seal a frag_len base curfragnum pframe buf =
     (if curfragnum < nr_frags a then
        if curfragnum + 1 = nr_frags a then
          (case frag_payload a (last_txcmdsz a) of None \<Rightarrow> None
           | Some n \<Rightarrow> (case seal n (drop pframe buf) of None \<Rightarrow> None
             | Some p \<Rightarrow>
               frag_loop seal a frag_len base (curfragnum + 1) pframe (take pframe buf @ p)))
        else
          (case frag_payload a frag_len of None \<Rightarrow> None
           | Some n \<Rightarrow> (case seal n (drop pframe buf) of None \<Rightarrow> None
             | Some p \<Rightarrow>
               frag_loop seal a frag_len base (curfragnum + 1)
                 (RND4 (base + pframe + frag_len) - base) (take pframe buf @ p)))
      else Some buf)"
  by pat_completeness auto
termination
  by (relation "measure (\<lambda>(seal, a, frag_len, base, curfragnum, _). nr_frags a - curfragnum)") auto

declare frag_loop.simps [simp del]

section \<open>Where the fragments are\<close>

definition frag_total :: "pkt_attrib \<Rightarrow> nat \<Rightarrow> nat \<Rightarrow> nat" where
  "frag_total a frag_len j = (if j + 1 = nr_frags a then last_txcmdsz a else frag_len)"

fun frag_offset :: "nat \<Rightarrow> nat \<Rightarrow> nat \<Rightarrow> nat \<Rightarrow> nat" where
  "frag_offset frag_len base pframe 0 = pframe"
| "frag_offset frag_len base pframe (Suc j) =
     frag_offset frag_len base (RND4 (base + pframe + frag_len) - base) j"

lemma RND4_bounds: "x \<le> RND4 x" "RND4 x < x + 4" "RND4 x mod 4 = 0"
proof -
  have and3: "x AND 3 = x mod 4"
  proof -
    have "(3 :: nat) = mask 2" by (simp add: mask_eq_exp_minus_1)
    then show ?thesis by (simp only: take_bit_eq_mask [symmetric]) (simp add: take_bit_eq_mod)
  qed
  have r: "RND4 x = 4 * (x div 4 + (if x mod 4 = 0 then 0 else 1))"
    by (simp add: RND4_def and3 push_bit_eq_mult drop_bit_eq_div)
  show "x \<le> RND4 x" "RND4 x < x + 4" "RND4 x mod 4 = 0"
    unfolding r by (auto split: if_splits) presburger+
qed

lemma next_frag_above: "pframe + frag_len \<le> RND4 (base + pframe + frag_len) - base"
  using RND4_bounds(1) [of "base + pframe + frag_len"] by simp

lemma frag_offset_above: "pframe \<le> frag_offset frag_len base pframe j"
proof (induction j arbitrary: pframe)
  case (Suc j)
  from Suc.IH [of "RND4 (base + pframe + frag_len) - base"] next_frag_above [of pframe frag_len base]
  show ?case by simp
qed simp

section \<open>Sealing fragments one by one\<close>

text \<open>
  What the loop needs of the sealing of a fragment: it works on the first \<open>n + ovh\<close> bytes (header, IV,
  payload of \<open>n\<close> bytes, integrity value) and neither reads nor writes beyond them, and what
  \<open>unseal\<close> makes of those bytes is \<open>opened\<close>. Both may hold for \<open>good\<close> fragments only.
\<close>

locale frag_cipher =
  fixes seal :: "nat \<Rightarrow> bytes \<Rightarrow> bytes option"
    and unseal :: "bytes \<Rightarrow> 'r"
    and opened :: "bytes \<Rightarrow> 'r"
    and good :: "bytes \<Rightarrow> bool"
    and ovh :: nat
  assumes seal_local: "seal n p = Some p' \<Longrightarrow> good (take (n + ovh) p) \<Longrightarrow> n + ovh \<le> length p \<and>
      (\<exists>f. seal n (take (n + ovh) p) = Some f \<and> length f = n + ovh \<and> p' = f @ drop (n + ovh) p)"
    and unseal_seal: "seal n p = Some f \<Longrightarrow> length p = n + ovh \<Longrightarrow> good p \<Longrightarrow> unseal f = opened p"
begin

lemma seal_splice:
  assumes "seal n (drop off buf) = Some p" "good (buf_get off (n + ovh) buf)" "off \<le> length buf"
  obtains f where "seal n (buf_get off (n + ovh) buf) = Some f" "length f = n + ovh"
    "off + (n + ovh) \<le> length buf" "take off buf @ p = buf_put off f buf"
proof -
  from seal_local [OF assms(1)] assms(2) obtain f where
    "n + ovh \<le> length (drop off buf)" "seal n (take (n + ovh) (drop off buf)) = Some f"
    "length f = n + ovh" "p = f @ drop (n + ovh) (drop off buf)" by (auto simp: buf_get_def)
  with assms(3) that [of f] show ?thesis
    by (simp add: buf_get_def buf_put_def add.commute)
qed

lemma seal_inside:
  "seal n (drop off buf) = Some p \<Longrightarrow> good (buf_get off (n + ovh) buf) \<Longrightarrow> 0 < ovh \<Longrightarrow> off \<le> length buf"
  using seal_local [of n "drop off buf" p] by (auto simp: buf_get_def)

text \<open>Every fragment of the sealed buffer is the sealing of the same bytes of the plain one, and
  nothing before the first fragment changes.\<close>

lemma frag_loop_seals:
  assumes "frag_loop seal a frag_len base k pframe buf = Some buf'"
    and "0 < ovh" "ovh = hdrlen a + iv_len a + icv_len a"
    and "\<forall>j. k \<le> j \<and> j < nr_frags a \<longrightarrow>
       good (buf_get (frag_offset frag_len base pframe (j - k)) (frag_total a frag_len j) buf)"
  shows "length buf' = length buf \<and> (k < nr_frags a \<longrightarrow> take pframe buf' = take pframe buf) \<and>
     (\<forall>j. k \<le> j \<and> j < nr_frags a \<longrightarrow>
        (let off = frag_offset frag_len base pframe (j - k); sz = frag_total a frag_len j
         in ovh \<le> sz \<and> off + sz \<le> length buf \<and>
            seal (sz - ovh) (buf_get off sz buf) = Some (buf_get off sz buf')))"
  using assms(1,4)
proof (induction "nr_frags a - k" arbitrary: k pframe buf)
  case 0
  then show ?case by (auto simp: frag_loop.simps)
next
  case (Suc d)
  then have k: "k < nr_frags a" by simp
  define sz where "sz = frag_total a frag_len k"
  define nxt where "nxt = (if k + 1 = nr_frags a then pframe else RND4 (base + pframe + frag_len) - base)"
  from Suc.prems k obtain n p where n: "frag_payload a sz = Some n"
    and p: "seal n (drop pframe buf) = Some p"
    and rest: "frag_loop seal a frag_len base (k + 1) nxt (take pframe buf @ p) = Some buf'"
    using frag_loop.simps [of seal a frag_len base k pframe buf]
    by (auto simp: sz_def nxt_def frag_total_def split: option.splits if_splits)
  from n assms(3) have sz: "sz = n + ovh" "ovh \<le> sz" "sz - ovh = n"
    by (auto simp: frag_payload_def split: if_splits)
  have g: "good (buf_get pframe (n + ovh) buf)"
    using Suc.prems(2) k sz(1) by (auto simp: sz_def)
  obtain f where f: "seal n (buf_get pframe sz buf) = Some f" "length f = sz"
    "pframe + sz \<le> length buf" "take pframe buf @ p = buf_put pframe f buf"
    using seal_splice [OF p g seal_inside [OF p g assms(2)]] sz(1) by metis
  let ?b = "buf_put pframe f buf"
  from Suc.hyps(2) have d: "d = nr_frags a - (k + 1)" by simp
  have above: "pframe + sz \<le> frag_offset frag_len base nxt (j - (k + 1))"
    if "k + 1 \<noteq> nr_frags a" for j
  proof -
    have "pframe + sz \<le> nxt"
      using that next_frag_above [of pframe frag_len base] by (simp add: nxt_def sz_def frag_total_def)
    also have "nxt \<le> frag_offset frag_len base nxt (j - (k + 1))" by (rule frag_offset_above)
    finally show ?thesis .
  qed
  have off: "frag_offset frag_len base pframe (j - k) = frag_offset frag_len base nxt (j - (k + 1))"
    if "k + 1 \<le> j" "k + 1 \<noteq> nr_frags a" for j
  proof -
    from that have "j - k = Suc (j - (k + 1))" by simp
    with that show ?thesis by (simp add: nxt_def)
  qed
  have untouched: "buf_get x m ?b = buf_get x m buf" if "pframe + sz \<le> x" for x m
    using that f(2,3) by (simp add: buf_get_def buf_simps)
  have good: "\<forall>j. k + 1 \<le> j \<and> j < nr_frags a \<longrightarrow>
      good (buf_get (frag_offset frag_len base nxt (j - (k + 1))) (frag_total a frag_len j) ?b)"
  proof (intro allI impI)
    fix j assume j: "k + 1 \<le> j \<and> j < nr_frags a"
    then have "k + 1 \<noteq> nr_frags a" by auto
    then show "good (buf_get (frag_offset frag_len base nxt (j - (k + 1))) (frag_total a frag_len j) ?b)"
      using Suc.prems(2) [rule_format, of j] j off [of j] untouched [OF above, of j] by simp
  qed
  note ih = Suc.hyps(1) [OF d rest [unfolded f(4)] good]
  have len: "length buf' = length buf" using ih f(2,3) by (simp add: len_simps)
  show ?case
  proof (cases "k + 1 = nr_frags a")
    case True
    then have "buf' = ?b" using rest f(4) by (simp add: frag_loop.simps)
    moreover have "k \<le> j \<and> j < nr_frags a \<longleftrightarrow> j = k" for j using True by auto
    moreover have "seal n (buf_get pframe sz buf) = Some (buf_get pframe sz ?b)"
      using f(1-3) by (simp add: buf_simps)
    ultimately show ?thesis
      using len f(3) sz by (simp add: Let_def buf_simps flip: sz_def)
  next
    case False
    then have nxt: "nxt = RND4 (base + pframe + frag_len) - base" and sz_frag: "sz = frag_len"
      by (simp_all add: nxt_def sz_def frag_total_def)
    have above: "pframe + sz \<le> nxt" unfolding nxt sz_frag by (rule next_frag_above)
    from ih False k have tk: "take nxt buf' = take nxt ?b" by simp
    have low: "buf_get x m buf' = buf_get x m ?b" if "x + m \<le> nxt" for x m
      using arg_cong [OF tk, of "\<lambda>b. drop x (take (x + m) b)"] that
      by (simp add: buf_get_def min_absorb1 take_drop add.commute)
    have first: "take pframe buf' = take pframe buf"
      using low [of 0 pframe] above f(3) by (simp add: buf_get_def buf_simps)
    have others: "let off = frag_offset frag_len base pframe (j - k); sj = frag_total a frag_len j
         in ovh \<le> sj \<and> off + sj \<le> length buf \<and>
            seal (sj - ovh) (buf_get off sj buf) = Some (buf_get off sj buf')"
      if j: "k + 1 \<le> j" "j < nr_frags a" for j
    proof -
      from j have "j - k = Suc (j - (k + 1))" by simp
      then have off: "frag_offset frag_len base pframe (j - k)
          = frag_offset frag_len base nxt (j - (k + 1))" unfolding nxt by simp
      moreover have "nxt \<le> frag_offset frag_len base nxt (j - (k + 1))"
        by (rule frag_offset_above)
      ultimately show ?thesis
        using ih j above f(2,3) by (auto simp: Let_def len_simps buf_simps)
    qed
    have this_one: "seal n (buf_get pframe sz buf) = Some (buf_get pframe sz buf')"
      using f low [of pframe sz] above by (simp add: buf_simps)
    show ?thesis
    proof (intro conjI impI allI)
      fix j assume j: "k \<le> j \<and> j < nr_frags a"
      show "let off = frag_offset frag_len base pframe (j - k); sz = frag_total a frag_len j
         in ovh \<le> sz \<and> off + sz \<le> length buf \<and>
            seal (sz - ovh) (buf_get off sz buf) = Some (buf_get off sz buf')"
      proof (cases "j = k")
        case True
        with this_one f(3) sz show ?thesis by (simp add: Let_def flip: sz_def)
      next
        case False
        with j have "k + 1 \<le> j" "j < nr_frags a" by auto
        then show ?thesis by (rule others)
      qed
    qed (rule len, rule first)
  qed
qed

lemma frag_loop_opens:
  assumes "frag_loop seal a frag_len base 0 pframe buf = Some buf'"
    and "0 < ovh" "ovh = hdrlen a + iv_len a + icv_len a" "j < nr_frags a"
    and "\<And>i. i < nr_frags a \<Longrightarrow>
       good (buf_get (frag_offset frag_len base pframe i) (frag_total a frag_len i) buf)"
    and "off = frag_offset frag_len base pframe j" "sz = frag_total a frag_len j"
  shows "unseal (buf_get off sz buf') = opened (buf_get off sz buf)"
    and "ovh \<le> sz" "off + sz \<le> length buf"
proof -
  have *: "ovh \<le> sz" "off + sz \<le> length buf"
    "seal (sz - ovh) (buf_get off sz buf) = Some (buf_get off sz buf')"
    using frag_loop_seals [OF assms(1-3)] assms(4-7) by (auto simp: Let_def)
  then show "unseal (buf_get off sz buf') = opened (buf_get off sz buf)"
    using assms(4-7) by (intro unseal_seal) (auto simp: len_simps)
  show "ovh \<le> sz" "off + sz \<le> length buf" using * by auto
qed

end

end
