(* ===== verification/Wep.thy ===== *)
theory Wep
  imports Frame Rc4 Crc32
begin

text \<open>
  Software WEP in \<^verbatim>\<open>core/rtw_security.c\<close>: \<^verbatim>\<open>rtw_wep_encrypt\<close> over the fragments of a
  transmit frame, \<^verbatim>\<open>rtw_wep_decrypt\<close> on a received one, and the round trip between them. The
  body of the two functions that is common with TKIP, sealing a payload and opening it again under an RC4
  key, comes first.
\<close>

section \<open>Sealing and opening under an RC4 key\<close>

text \<open>
  The statements of the senders from \<open>getcrc32(payload, length)\<close> to the second
  \<^verbatim>\<open>arcfour_encrypt\<close>: the ICV is computed over the plain payload, the payload encrypted in
  place and the encrypted ICV stored behind it. \<open>off\<close> is the offset of the payload, \<open>n\<close> its
  length.
\<close>

definition rc4_seal :: "bytes \<Rightarrow> nat \<Rightarrow> nat \<Rightarrow> bytes \<Rightarrow> bytes option" where
  "rc4_seal key off n p =
     (if off + n + 4 \<le> length p then
        let payload = buf_get off n p;
            crc = put_le32 (getcrc32 payload);
            mycontext = arcfour_init key (length key);
            (c, mycontext) = arcfour_encrypt mycontext payload;
            (icv, mycontext) = arcfour_encrypt mycontext crc
        in Some (buf_put (off + n) icv (buf_put off c p))
      else None)"

text \<open>
  The statements of the receivers: decrypt payload and ICV in one run, compute the ICV of the decrypted
  payload and compare it with the decrypted one. The flag is the outcome of the comparison, true for a
  match. A frame without room for the ICV makes the C code read outside the payload.
\<close>

definition rc4_open :: "bytes \<Rightarrow> nat \<Rightarrow> bytes \<Rightarrow> (bytes \<times> bool) option" where
  "rc4_open key off f =
     (if off + 4 \<le> length f then
        let len = length f - off;
            mycontext = arcfour_init key (length key);
            (payload, mycontext) = arcfour_encrypt mycontext (buf_get off len f);
            f = buf_put off payload f;
            crc = put_le32 (getcrc32 (take (len - 4) payload))
        in Some (f, \<not> (crc ! 3 \<noteq> payload ! (len - 1) \<or> crc ! 2 \<noteq> payload ! (len - 2)
                      \<or> crc ! 1 \<noteq> payload ! (len - 3) \<or> crc ! 0 \<noteq> payload ! (len - 4)))
      else None)"

text \<open>The plain fragment with its ICV in place, which is what the receiver is to end up with.\<close>

definition with_icv :: "nat \<Rightarrow> bytes \<Rightarrow> bytes" where
  "with_icv off p = buf_put (length p - 4) (put_le32 (getcrc32 (buf_get off (length p - 4 - off) p))) p"

definition rc4_sealed :: "bytes \<Rightarrow> bytes \<Rightarrow> bytes" where
  "rc4_sealed key pay =
     (let r = arcfour_encrypt (arcfour_init key (length key)) pay
      in fst r @ fst (arcfour_encrypt (snd r) (put_le32 (getcrc32 pay))))"

lemma length_rc4_sealed [len_simps]: "length (rc4_sealed key pay) = length pay + 4"
  by (simp add: rc4_sealed_def Let_def rc4.crypt_length len_simps)

lemma rc4_seal_eq:
  "rc4_seal key off n p =
     (if off + n + 4 \<le> length p then Some (buf_put off (rc4_sealed key (buf_get off n p)) p) else None)"
proof (cases "off + n + 4 \<le> length p")
  case True
  then have "length (fst (arcfour_encrypt (arcfour_init key (length key)) (buf_get off n p))) = n"
    by (simp add: rc4.crypt_length len_simps)
  with True show ?thesis
    using buf_put_append [of off "fst (arcfour_encrypt (arcfour_init key (length key)) (buf_get off n p))"
        "fst (arcfour_encrypt (snd (arcfour_encrypt (arcfour_init key (length key)) (buf_get off n p)))
           (put_le32 (getcrc32 (buf_get off n p))))" p]
    by (simp add: rc4_seal_def rc4_sealed_def Let_def split_beta rc4.crypt_length len_simps)
qed (simp add: rc4_seal_def)

lemma rc4_seal_local:
  assumes "rc4_seal key off n p = Some p'"
  shows "off + n + 4 \<le> length p"
    and "\<exists>f. rc4_seal key off n (take (off + n + 4) p) = Some f \<and> length f = off + n + 4
           \<and> p' = f @ drop (off + n + 4) p"
proof -
  show len: "off + n + 4 \<le> length p" using assms by (simp add: rc4_seal_eq split: if_splits)
  have "length (rc4_sealed key (buf_get off n p)) = n + 4" using len by (simp add: len_simps)
  with assms len show "\<exists>f. rc4_seal key off n (take (off + n + 4) p) = Some f \<and> length f = off + n + 4
           \<and> p' = f @ drop (off + n + 4) p"
    using buf_put_within [of off "rc4_sealed key (buf_get off n p)" "off + n + 4" p]
    by (simp add: rc4_seal_eq buf_get_take len_simps)
qed

lemma icv_compare:
  assumes "4 \<le> length xs" "length c = 4"
  shows "\<not> (c ! 3 \<noteq> xs ! (length xs - 1) \<or> c ! 2 \<noteq> xs ! (length xs - 2)
           \<or> c ! 1 \<noteq> xs ! (length xs - 3) \<or> c ! 0 \<noteq> xs ! (length xs - 4))
         \<longleftrightarrow> drop (length xs - 4) xs = c"
proof -
  define ys where "ys = drop (length xs - 4) xs"
  have "length ys = 4" using assms by (simp add: ys_def)
  then obtain y0 y1 y2 y3 where ys: "ys = [y0, y1, y2, y3]"
    by (auto simp: eval_nat_numeral length_Suc_conv)
  obtain c0 c1 c2 c3 where c: "c = [c0, c1, c2, c3]"
    using assms(2) by (auto simp: eval_nat_numeral length_Suc_conv)
  have nth: "xs ! (length xs - k) = ys ! (4 - k)" if "1 \<le> k" "k \<le> 4" for k
    using that assms(1) by (simp add: ys_def)
  show ?thesis
    unfolding ys_def [symmetric] using nth [of 1] nth [of 2] nth [of 3] nth [of 4]
    by (auto simp: ys c)
qed

lemma rc4_open_seal:
  assumes "rc4_seal key off n p = Some f" "length p = off + n + 4"
  shows "rc4_open key off f = Some (with_icv off p, True)"
proof -
  define pay where "pay = buf_get off n p"
  define crc where "crc = put_le32 (getcrc32 pay)"
  define ctx where "ctx = arcfour_init key (length key)"
  have len: "length pay = n" "length crc = 4"
    using assms(2) by (simp_all add: pay_def crc_def len_simps)
  have f: "f = buf_put off (rc4_sealed key pay) p"
    using assms by (simp add: rc4_seal_eq pay_def)
  have lf: "length f = off + n + 4" unfolding f using assms(2) len by (simp add: len_simps)
  have get: "buf_get off (length f - off) f = rc4_sealed key pay"
    using assms(2) len lf unfolding f by (simp add: buf_simps len_simps)
  have opened: "fst (arcfour_encrypt ctx (rc4_sealed key pay)) = pay @ crc"
    by (simp add: rc4_sealed_def Let_def ctx_def crc_def rc4.open_sealed)
  have "rc4_open key off f = Some (buf_put off (pay @ crc) f,
      drop (length (pay @ crc) - 4) (pay @ crc) = put_le32 (getcrc32 (take n (pay @ crc))))"
    using lf len icv_compare [of "pay @ crc" "put_le32 (getcrc32 pay)"]
    unfolding rc4_open_def Let_def split_beta get opened ctx_def [symmetric]
    by (simp add: len_simps)
  also have "buf_put off (pay @ crc) f = buf_put off (pay @ crc) p"
    unfolding f using assms(2) len by (simp add: buf_simps len_simps)
  also have "\<dots> = with_icv off p"
    using assms(2) len buf_put_append [of off pay crc p]
    by (simp add: with_icv_def pay_def crc_def buf_put_get_same)
  finally show ?thesis using len by (simp add: crc_def)
qed

section \<open>The code\<close>

text \<open>The first three bytes of the IV and the key of the given index make the RC4 key; a key that does
  not fit the array \<open>wepkey[16]\<close>, or an index above 3, is an overrun in C.\<close>

definition wep_rc4key :: "security_priv \<Rightarrow> nat \<Rightarrow> nat \<Rightarrow> bytes \<Rightarrow> bytes option" where
  "wep_rc4key sec keyindex hl p =
     (if keyindex < 4 \<and> 3 + dot11DefKeylen sec ! keyindex \<le> 16 \<and> hl + 3 \<le> length p
      then Some (buf_get hl 3 p @ take (dot11DefKeylen sec ! keyindex) (dot11DefKey sec ! keyindex))
      else None)"

definition wep_encrypt_frag :: "security_priv \<Rightarrow> nat \<Rightarrow> nat \<Rightarrow> nat \<Rightarrow> bytes \<Rightarrow> bytes option" where
  "wep_encrypt_frag sec hl il n p =
     (case wep_rc4key sec (dot11PrivacyKeyIndex sec) hl p of None \<Rightarrow> None
      | Some wepkey \<Rightarrow> rc4_seal wepkey (il + hl) n p)"

definition rtw_wep_encrypt ::
    "security_priv \<Rightarrow> nat \<Rightarrow> xmit_frame \<Rightarrow> xmit_frame option" where
  "rtw_wep_encrypt sec frag_len xf =
     (case buf_addr xf of None \<Rightarrow> Some xf
      | Some buf \<Rightarrow>
        let a = attrib xf in
        if encrypt a = WEP40 \<or> encrypt a = WEP104 then
          (case frag_loop (wep_encrypt_frag sec (hdrlen a) (iv_len a)) a frag_len (buf_base xf) 0
                  TXDESC_OFFSET buf of
             None \<Rightarrow> None
           | Some buf' \<Rightarrow> Some (xf\<lparr>buf_addr := Some buf'\<rparr>))
        else Some xf)"

definition wep_decrypt_frag ::
    "security_priv \<Rightarrow> nat \<Rightarrow> nat \<Rightarrow> nat \<Rightarrow> bytes \<Rightarrow> (bytes \<times> bool) option" where
  "wep_decrypt_frag sec keyindex hl il f =
     (case wep_rc4key sec keyindex hl f of None \<Rightarrow> None
      | Some wepkey \<Rightarrow> rc4_open wepkey (il + hl) f)"

text \<open>\<^verbatim>\<open>rtw_wep_decrypt\<close> returns nothing; the flag says whether it traced an ICV error.\<close>

definition rtw_wep_decrypt :: "security_priv \<Rightarrow> recv_frame \<Rightarrow> (recv_frame \<times> bool) option" where
  "rtw_wep_decrypt sec rf =
     (let a = rx_attrib rf in
      if rx_encrypt a = WEP40 \<or> rx_encrypt a = WEP104 then
        (case wep_decrypt_frag sec (rx_key_index a) (rx_hdrlen a) (rx_iv_len a) (rx_data rf) of
           None \<Rightarrow> None
         | Some (f, icv_ok) \<Rightarrow> Some (rf\<lparr>rx_data := f\<rparr>, \<not> icv_ok))
      else Some (rf, False))"

section \<open>The round trip\<close>

lemma wep_rc4key_take:
  "hl + 3 \<le> m \<Longrightarrow> m \<le> length p \<Longrightarrow> wep_rc4key sec k hl (take m p) = wep_rc4key sec k hl p"
  by (auto simp: wep_rc4key_def buf_get_take)

lemma wep_rc4key_put:
  "hl + 3 \<le> off \<Longrightarrow> off + length bs \<le> length p \<Longrightarrow>
   wep_rc4key sec k hl (buf_put off bs p) = wep_rc4key sec k hl p"
  by (auto simp: wep_rc4key_def buf_simps len_simps)

text \<open>With the IV of four bytes that \<^verbatim>\<open>SET_ICE_IV_LEN\<close> gives WEP, the two functions are a
  cipher on fragments.\<close>

interpretation wep: frag_cipher
  "wep_encrypt_frag sec hl 4" "wep_decrypt_frag sec (dot11PrivacyKeyIndex sec) hl 4"
  "\<lambda>p. Some (with_icv (4 + hl) p, True)" "\<lambda>p. True" "4 + hl + 4"
  for sec hl
proof (unfold_locales, goal_cases)
  case (1 n p p')
  then obtain key where key: "wep_rc4key sec (dot11PrivacyKeyIndex sec) hl p = Some key"
    and seal: "rc4_seal key (4 + hl) n p = Some p'"
    by (auto simp: wep_encrypt_frag_def split: option.splits)
  have m: "n + (4 + hl + 4) = 4 + hl + n + 4" by simp
  from rc4_seal_local [OF seal] key show ?case
    unfolding m by (auto simp: wep_encrypt_frag_def wep_rc4key_take)
next
  case (2 n p f)
  then obtain key where key: "wep_rc4key sec (dot11PrivacyKeyIndex sec) hl p = Some key"
    and seal: "rc4_seal key (4 + hl) n p = Some f"
    by (auto simp: wep_encrypt_frag_def split: option.splits)
  have "wep_rc4key sec (dot11PrivacyKeyIndex sec) hl f = Some key"
    using seal key by (auto simp: rc4_seal_eq wep_rc4key_put len_simps split: if_splits)
  with rc4_open_seal [OF seal] 2(2) show ?case by (simp add: wep_decrypt_frag_def)
qed

text \<open>C31. WEP round trip: every fragment that \<^verbatim>\<open>rtw_wep_encrypt\<close> seals, with the lengths that
  \<^verbatim>\<open>SET_ICE_IV_LEN\<close> assigns, is turned by \<^verbatim>\<open>rtw_wep_decrypt\<close> under the same key index
  into the plain fragment followed by the CRC-32 of its payload, with no ICV error, wherever the rounding
  of addresses has put the fragment in the buffer.\<close>

theorem rtw_wep_roundtrip:
  assumes "rtw_wep_encrypt sec frag_len xf = Some xf'"
    and "buf_addr xf = Some buf" "buf_addr xf' = Some buf'" "attrib xf = a"
    and "encrypt a = WEP40 \<or> encrypt a = WEP104" "(iv_len a, icv_len a) = SET_ICE_IV_LEN (encrypt a)"
    and "j < nr_frags a" "off = frag_offset frag_len (buf_base xf) TXDESC_OFFSET j"
    and "sz = frag_total a frag_len j"
    and "rx_hdrlen r = hdrlen a" "rx_iv_len r = iv_len a" "rx_encrypt r = encrypt a"
    and "rx_key_index r = dot11PrivacyKeyIndex sec"
  shows "rtw_wep_decrypt sec \<lparr>rx_attrib = r, rx_data = buf_get off sz buf'\<rparr>
     = Some (\<lparr>rx_attrib = r, rx_data = with_icv (iv_len a + hdrlen a) (buf_get off sz buf)\<rparr>, False)"
proof -
  have il: "iv_len a = 4" "icv_len a = 4"
    using assms(5,6) by (auto simp: SET_ICE_IV_LEN_def)
  have "frag_loop (wep_encrypt_frag sec (hdrlen a) 4) a frag_len (buf_base xf) 0 TXDESC_OFFSET buf
      = Some buf'"
    using assms(1-5) il by (auto simp: rtw_wep_encrypt_def Let_def split: option.splits)
  from wep.frag_loop_opens(1) [OF this _ _ assms(7) _ assms(8,9)] il
  have "wep_decrypt_frag sec (dot11PrivacyKeyIndex sec) (hdrlen a) 4 (buf_get off sz buf')
      = Some (with_icv (4 + hdrlen a) (buf_get off sz buf), True)" by simp
  with assms(5,10-) il show ?thesis by (auto simp: rtw_wep_decrypt_def)
qed

definition wep_example_sec :: security_priv where
  "wep_example_sec = \<lparr>dot11PrivacyKeyIndex = 1, dot11DefKey = replicate 4 [1, 2, 3, 4, 5],
     dot11DefKeylen = replicate 4 5, dot118021XGrpKeyid = 0, dot118021XGrpKey = [],
     binstallGrpkey = False\<rparr>"

definition wep_example_attrib :: pkt_attrib where
  "wep_example_attrib = \<lparr>hdrlen = 24, iv_len = 4, icv_len = 4, last_txcmdsz = 36, nr_frags = 2,
     encrypt = WEP40, pkt_ta = [], pkt_ra = [], psta = None\<rparr>"

definition wep_example_frame :: xmit_frame where
  "wep_example_frame =
     \<lparr>attrib = wep_example_attrib, buf_addr = Some (replicate 120 7), buf_base = 2\<rparr>"

definition wep_example_rx :: rx_pkt_attrib where
  "wep_example_rx = \<lparr>rx_hdrlen = 24, rx_iv_len = 4, rx_encrypt = WEP40, rx_ta = [], rx_ra = [],
     rx_key_index = 1\<rparr>"

lemma wep_example_sealed:
  "\<exists>buf'. rtw_wep_encrypt wep_example_sec 40 wep_example_frame
          = Some (wep_example_frame\<lparr>buf_addr := Some buf'\<rparr>)"
proof -
  have "RND4 82 = 84" by (simp add: RND4_def)
  then show ?thesis
    by (simp add: rtw_wep_encrypt_def wep_example_frame_def wep_example_attrib_def frag_loop.simps
        frag_payload_def wep_encrypt_frag_def wep_rc4key_def wep_example_sec_def rc4_seal_eq
        TXDESC_OFFSET_def len_simps)
qed

theorem rtw_wep_roundtrip_witness:
  "\<exists>buf'. rtw_wep_encrypt wep_example_sec 40 wep_example_frame
          = Some (wep_example_frame\<lparr>buf_addr := Some buf'\<rparr>)
     \<and> rtw_wep_decrypt wep_example_sec \<lparr>rx_attrib = wep_example_rx, rx_data = buf_get 82 36 buf'\<rparr>
       = Some (\<lparr>rx_attrib = wep_example_rx,
                 rx_data = with_icv 28 (buf_get 82 36 (replicate 120 7))\<rparr>, False)"
proof -
  obtain buf' where b: "rtw_wep_encrypt wep_example_sec 40 wep_example_frame
      = Some (wep_example_frame\<lparr>buf_addr := Some buf'\<rparr>)" using wep_example_sealed by blast
  have off: "(82 :: nat) = frag_offset 40 (buf_base wep_example_frame) TXDESC_OFFSET 1"
    by (simp add: wep_example_frame_def TXDESC_OFFSET_def RND4_def)
  have sz: "(36 :: nat) = frag_total wep_example_attrib 40 1"
    by (simp add: frag_total_def wep_example_attrib_def)
  have "rtw_wep_decrypt wep_example_sec \<lparr>rx_attrib = wep_example_rx, rx_data = buf_get 82 36 buf'\<rparr>
      = Some (\<lparr>rx_attrib = wep_example_rx, rx_data =
          with_icv (iv_len wep_example_attrib + hdrlen wep_example_attrib)
            (buf_get 82 36 (replicate 120 7))\<rparr>, False)"
    by (rule rtw_wep_roundtrip [OF b _ _ _ _ _ _ off sz])
       (simp_all add: wep_example_frame_def wep_example_attrib_def wep_example_rx_def
         wep_example_sec_def SET_ICE_IV_LEN_def)
  with b show ?thesis by (auto simp: wep_example_attrib_def)
qed

end
