(* ===== verification/Tkip.thy ===== *)
theory Tkip
  imports Wep
begin

text \<open>
  Software TKIP in \<^verbatim>\<open>core/rtw_security.c\<close>: the two-phase key mixing (\<^verbatim>\<open>phase1\<close>,
  \<^verbatim>\<open>phase2\<close>) with its S-box, the IV macros that carry the packet number, and
  \<^verbatim>\<open>rtw_tkip_encrypt\<close> and \<^verbatim>\<open>rtw_tkip_decrypt\<close>. It shows that the mixing never
  repeats a key for a given temporal key, and the round trip over the fragments of a frame.
\<close>

section \<open>Key mixing\<close>

definition RotR1 :: "u16 \<Rightarrow> u16" where
  "RotR1 v = (drop_bit 1 v AND 0x7FFF) XOR push_bit 15 (v AND 1)"

definition Lo8 :: "u16 \<Rightarrow> u8" where "Lo8 v = ucast (v AND 0x00FF)"
definition Hi8 :: "u16 \<Rightarrow> u8" where "Hi8 v = ucast (drop_bit 8 v AND 0x00FF)"
definition Lo16 :: "u32 \<Rightarrow> u16" where "Lo16 v = ucast (v AND 0xFFFF)"
definition Hi16 :: "u32 \<Rightarrow> u16" where "Hi16 v = ucast (drop_bit 16 v AND 0xFFFF)"

definition Mk16 :: "u8 \<Rightarrow> u8 \<Rightarrow> u16" where
  "Mk16 hi lo = ucast lo XOR push_bit 8 (ucast hi)"

definition TK16 :: "bytes \<Rightarrow> nat \<Rightarrow> u16" where
  "TK16 tk n = Mk16 (tk ! (2 * n + 1)) (tk ! (2 * n))"

definition Sbox1_0 :: "u16 list" where
  "Sbox1_0 = [
    0xC6A5, 0xF884, 0xEE99, 0xF68D, 0xFF0D, 0xD6BD, 0xDEB1, 0x9154,
    0x6050, 0x0203, 0xCEA9, 0x567D, 0xE719, 0xB562, 0x4DE6, 0xEC9A,
    0x8F45, 0x1F9D, 0x8940, 0xFA87, 0xEF15, 0xB2EB, 0x8EC9, 0xFB0B,
    0x41EC, 0xB367, 0x5FFD, 0x45EA, 0x23BF, 0x53F7, 0xE496, 0x9B5B,
    0x75C2, 0xE11C, 0x3DAE, 0x4C6A, 0x6C5A, 0x7E41, 0xF502, 0x834F,
    0x685C, 0x51F4, 0xD134, 0xF908, 0xE293, 0xAB73, 0x6253, 0x2A3F,
    0x080C, 0x9552, 0x4665, 0x9D5E, 0x3028, 0x37A1, 0x0A0F, 0x2FB5,
    0x0E09, 0x2436, 0x1B9B, 0xDF3D, 0xCD26, 0x4E69, 0x7FCD, 0xEA9F,
    0x121B, 0x1D9E, 0x5874, 0x342E, 0x362D, 0xDCB2, 0xB4EE, 0x5BFB,
    0xA4F6, 0x764D, 0xB761, 0x7DCE, 0x527B, 0xDD3E, 0x5E71, 0x1397,
    0xA6F5, 0xB968, 0x0000, 0xC12C, 0x4060, 0xE31F, 0x79C8, 0xB6ED,
    0xD4BE, 0x8D46, 0x67D9, 0x724B, 0x94DE, 0x98D4, 0xB0E8, 0x854A,
    0xBB6B, 0xC52A, 0x4FE5, 0xED16, 0x86C5, 0x9AD7, 0x6655, 0x1194,
    0x8ACF, 0xE910, 0x0406, 0xFE81, 0xA0F0, 0x7844, 0x25BA, 0x4BE3,
    0xA2F3, 0x5DFE, 0x80C0, 0x058A, 0x3FAD, 0x21BC, 0x7048, 0xF104,
    0x63DF, 0x77C1, 0xAF75, 0x4263, 0x2030, 0xE51A, 0xFD0E, 0xBF6D,
    0x814C, 0x1814, 0x2635, 0xC32F, 0xBEE1, 0x35A2, 0x88CC, 0x2E39,
    0x9357, 0x55F2, 0xFC82, 0x7A47, 0xC8AC, 0xBAE7, 0x322B, 0xE695,
    0xC0A0, 0x1998, 0x9ED1, 0xA37F, 0x4466, 0x547E, 0x3BAB, 0x0B83,
    0x8CCA, 0xC729, 0x6BD3, 0x283C, 0xA779, 0xBCE2, 0x161D, 0xAD76,
    0xDB3B, 0x6456, 0x744E, 0x141E, 0x92DB, 0x0C0A, 0x486C, 0xB8E4,
    0x9F5D, 0xBD6E, 0x43EF, 0xC4A6, 0x39A8, 0x31A4, 0xD337, 0xF28B,
    0xD532, 0x8B43, 0x6E59, 0xDAB7, 0x018C, 0xB164, 0x9CD2, 0x49E0,
    0xD8B4, 0xACFA, 0xF307, 0xCF25, 0xCAAF, 0xF48E, 0x47E9, 0x1018,
    0x6FD5, 0xF088, 0x4A6F, 0x5C72, 0x3824, 0x57F1, 0x73C7, 0x9751,
    0xCB23, 0xA17C, 0xE89C, 0x3E21, 0x96DD, 0x61DC, 0x0D86, 0x0F85,
    0xE090, 0x7C42, 0x71C4, 0xCCAA, 0x90D8, 0x0605, 0xF701, 0x1C12,
    0xC2A3, 0x6A5F, 0xAEF9, 0x69D0, 0x1791, 0x9958, 0x3A27, 0x27B9,
    0xD938, 0xEB13, 0x2BB3, 0x2233, 0xD2BB, 0xA970, 0x0789, 0x33A7,
    0x2DB6, 0x3C22, 0x1592, 0xC920, 0x8749, 0xAAFF, 0x5078, 0xA57A,
    0x038F, 0x59F8, 0x0980, 0x1A17, 0x65DA, 0xD731, 0x84C6, 0xD0B8,
    0x82C3, 0x29B0, 0x5A77, 0x1E11, 0x7BCB, 0xA8FC, 0x6DD6, 0x2C3A]"

definition Sbox1_1 :: "u16 list" where
  "Sbox1_1 = [
    0xA5C6, 0x84F8, 0x99EE, 0x8DF6, 0x0DFF, 0xBDD6, 0xB1DE, 0x5491,
    0x5060, 0x0302, 0xA9CE, 0x7D56, 0x19E7, 0x62B5, 0xE64D, 0x9AEC,
    0x458F, 0x9D1F, 0x4089, 0x87FA, 0x15EF, 0xEBB2, 0xC98E, 0x0BFB,
    0xEC41, 0x67B3, 0xFD5F, 0xEA45, 0xBF23, 0xF753, 0x96E4, 0x5B9B,
    0xC275, 0x1CE1, 0xAE3D, 0x6A4C, 0x5A6C, 0x417E, 0x02F5, 0x4F83,
    0x5C68, 0xF451, 0x34D1, 0x08F9, 0x93E2, 0x73AB, 0x5362, 0x3F2A,
    0x0C08, 0x5295, 0x6546, 0x5E9D, 0x2830, 0xA137, 0x0F0A, 0xB52F,
    0x090E, 0x3624, 0x9B1B, 0x3DDF, 0x26CD, 0x694E, 0xCD7F, 0x9FEA,
    0x1B12, 0x9E1D, 0x7458, 0x2E34, 0x2D36, 0xB2DC, 0xEEB4, 0xFB5B,
    0xF6A4, 0x4D76, 0x61B7, 0xCE7D, 0x7B52, 0x3EDD, 0x715E, 0x9713,
    0xF5A6, 0x68B9, 0x0000, 0x2CC1, 0x6040, 0x1FE3, 0xC879, 0xEDB6,
    0xBED4, 0x468D, 0xD967, 0x4B72, 0xDE94, 0xD498, 0xE8B0, 0x4A85,
    0x6BBB, 0x2AC5, 0xE54F, 0x16ED, 0xC586, 0xD79A, 0x5566, 0x9411,
    0xCF8A, 0x10E9, 0x0604, 0x81FE, 0xF0A0, 0x4478, 0xBA25, 0xE34B,
    0xF3A2, 0xFE5D, 0xC080, 0x8A05, 0xAD3F, 0xBC21, 0x4870, 0x04F1,
    0xDF63, 0xC177, 0x75AF, 0x6342, 0x3020, 0x1AE5, 0x0EFD, 0x6DBF,
    0x4C81, 0x1418, 0x3526, 0x2FC3, 0xE1BE, 0xA235, 0xCC88, 0x392E,
    0x5793, 0xF255, 0x82FC, 0x477A, 0xACC8, 0xE7BA, 0x2B32, 0x95E6,
    0xA0C0, 0x9819, 0xD19E, 0x7FA3, 0x6644, 0x7E54, 0xAB3B, 0x830B,
    0xCA8C, 0x29C7, 0xD36B, 0x3C28, 0x79A7, 0xE2BC, 0x1D16, 0x76AD,
    0x3BDB, 0x5664, 0x4E74, 0x1E14, 0xDB92, 0x0A0C, 0x6C48, 0xE4B8,
    0x5D9F, 0x6EBD, 0xEF43, 0xA6C4, 0xA839, 0xA431, 0x37D3, 0x8BF2,
    0x32D5, 0x438B, 0x596E, 0xB7DA, 0x8C01, 0x64B1, 0xD29C, 0xE049,
    0xB4D8, 0xFAAC, 0x07F3, 0x25CF, 0xAFCA, 0x8EF4, 0xE947, 0x1810,
    0xD56F, 0x88F0, 0x6F4A, 0x725C, 0x2438, 0xF157, 0xC773, 0x5197,
    0x23CB, 0x7CA1, 0x9CE8, 0x213E, 0xDD96, 0xDC61, 0x860D, 0x850F,
    0x90E0, 0x427C, 0xC471, 0xAACC, 0xD890, 0x0506, 0x01F7, 0x121C,
    0xA3C2, 0x5F6A, 0xF9AE, 0xD069, 0x9117, 0x5899, 0x273A, 0xB927,
    0x38D9, 0x13EB, 0xB32B, 0x3322, 0xBBD2, 0x70A9, 0x8907, 0xA733,
    0xB62D, 0x223C, 0x9215, 0x20C9, 0x4987, 0xFFAA, 0x7850, 0x7AA5,
    0x8F03, 0xF859, 0x8009, 0x171A, 0xDA65, 0x31D7, 0xC684, 0xB8D0,
    0xC382, 0xB029, 0x775A, 0x111E, 0xCB7B, 0xFCA8, 0xD66D, 0x3A2C]"

definition S16 :: "u16 \<Rightarrow> u16" where
  "S16 v = Sbox1_0 ! unat (Lo8 v) XOR Sbox1_1 ! unat (Hi8 v)"

text \<open>The arrays \<^verbatim>\<open>p1k[5]\<close> and \<^verbatim>\<open>PPK[6]\<close> are tuples; \<open>i AND 1\<close> of the round
  counter selects the half of the key.\<close>

type_synonym p1key = "u16 \<times> u16 \<times> u16 \<times> u16 \<times> u16"

definition p1_round :: "bytes \<Rightarrow> nat \<Rightarrow> p1key \<Rightarrow> p1key" where
  "p1_round tk i = (\<lambda>(p0, p1, p2, p3, p4).
     let p0 = p0 + S16 (p4 XOR TK16 tk ((i AND 1) + 0));
         p1 = p1 + S16 (p0 XOR TK16 tk ((i AND 1) + 2));
         p2 = p2 + S16 (p1 XOR TK16 tk ((i AND 1) + 4));
         p3 = p3 + S16 (p2 XOR TK16 tk ((i AND 1) + 6));
         p4 = p4 + S16 (p3 XOR TK16 tk ((i AND 1) + 0));
         p4 = p4 + of_nat i
     in (p0, p1, p2, p3, p4))"

definition PHASE1_LOOP_CNT :: nat where "PHASE1_LOOP_CNT = 8"

definition phase1 :: "bytes \<Rightarrow> bytes \<Rightarrow> u32 \<Rightarrow> p1key" where
  "phase1 tk ta iv32 =
     foldl (\<lambda>p i. p1_round tk i p)
       (Lo16 iv32, Hi16 iv32, Mk16 (ta ! 1) (ta ! 0), Mk16 (ta ! 3) (ta ! 2), Mk16 (ta ! 5) (ta ! 4))
       [0..<PHASE1_LOOP_CNT]"

text \<open>The two halves of \<^verbatim>\<open>phase2\<close>, as its comments divide it: the non-linear mixing of
  \<^verbatim>\<open>PPK\<close> and the final sweep.\<close>

type_synonym ppkey = "u16 \<times> u16 \<times> u16 \<times> u16 \<times> u16 \<times> u16"

definition ppk_mix :: "bytes \<Rightarrow> ppkey \<Rightarrow> ppkey" where
  "ppk_mix tk = (\<lambda>(q0, q1, q2, q3, q4, q5).
     let q0 = q0 + S16 (q5 XOR TK16 tk 0);
         q1 = q1 + S16 (q0 XOR TK16 tk 1);
         q2 = q2 + S16 (q1 XOR TK16 tk 2);
         q3 = q3 + S16 (q2 XOR TK16 tk 3);
         q4 = q4 + S16 (q3 XOR TK16 tk 4);
         q5 = q5 + S16 (q4 XOR TK16 tk 5)
     in (q0, q1, q2, q3, q4, q5))"

definition ppk_sweep :: "bytes \<Rightarrow> ppkey \<Rightarrow> ppkey" where
  "ppk_sweep tk = (\<lambda>(q0, q1, q2, q3, q4, q5).
     let q0 = q0 + RotR1 (q5 XOR TK16 tk 6);
         q1 = q1 + RotR1 (q0 XOR TK16 tk 7);
         q2 = q2 + RotR1 q1;
         q3 = q3 + RotR1 q2;
         q4 = q4 + RotR1 q3;
         q5 = q5 + RotR1 q4
     in (q0, q1, q2, q3, q4, q5))"

definition phase2 :: "bytes \<Rightarrow> p1key \<Rightarrow> u16 \<Rightarrow> bytes" where
  "phase2 tk = (\<lambda>(p0, p1, p2, p3, p4) iv16.
     let (q0, q1, q2, q3, q4, q5) = ppk_sweep tk (ppk_mix tk (p0, p1, p2, p3, p4, p4 + iv16))
     in [Hi8 iv16, (Hi8 iv16 OR 0x20) AND 0x7F, Lo8 iv16, Lo8 (drop_bit 1 (q5 XOR TK16 tk 0)),
         Lo8 q0, Hi8 q0, Lo8 q1, Hi8 q1, Lo8 q2, Hi8 q2,
         Lo8 q3, Hi8 q3, Lo8 q4, Hi8 q4, Lo8 q5, Hi8 q5])"

section \<open>The mixing is injective\<close>

lemma bit_u16_bound: "bit (w :: u16) n \<Longrightarrow> n < 16"
  using bit_imp_le_length [of w n] by simp

lemma mask8_u16: "(0xff :: u16) = mask 8" and mask16: "(0xffff :: u32) = mask 16"
  by (simp_all add: mask_numeral)

lemma bit_Lo8: "bit (Lo8 v) n \<longleftrightarrow> n < 8 \<and> bit v n"
  and bit_Hi8: "bit (Hi8 v) n \<longleftrightarrow> n < 8 \<and> bit v (8 + n)"
  by (auto simp: Lo8_def Hi8_def bit_simps mask8_u16 dest: bit_u16_bound)

lemma bit_Lo16: "bit (Lo16 v) n \<longleftrightarrow> n < 16 \<and> bit v n"
  and bit_Hi16: "bit (Hi16 v) n \<longleftrightarrow> n < 16 \<and> bit v (16 + n)"
  by (auto simp: Lo16_def Hi16_def bit_simps mask16)

lemma Lo8_Hi8_inject: "Lo8 v = Lo8 w \<and> Hi8 v = Hi8 w \<longleftrightarrow> v = w"
proof
  assume *: "Lo8 v = Lo8 w \<and> Hi8 v = Hi8 w"
  show "v = w"
  proof (rule bit_word_eqI)
    fix n assume "n < LENGTH(16)"
    with * show "bit v n = bit w n"
      using bit_Lo8 [of v n] bit_Lo8 [of w n] bit_Hi8 [of v "n - 8"] bit_Hi8 [of w "n - 8"]
      by (cases "n < 8") auto
  qed
qed simp

lemma Lo16_Hi16_inject: "Lo16 v = Lo16 w \<and> Hi16 v = Hi16 w \<longleftrightarrow> v = w"
proof
  assume *: "Lo16 v = Lo16 w \<and> Hi16 v = Hi16 w"
  show "v = w"
  proof (rule bit_word_eqI)
    fix n assume "n < LENGTH(32)"
    with * show "bit v n = bit w n"
      using bit_Lo16 [of v n] bit_Lo16 [of w n] bit_Hi16 [of v "n - 16"] bit_Hi16 [of w "n - 16"]
      by (cases "n < 16") auto
  qed
qed simp

lemma Lo8_Mk16: "Lo8 (Mk16 a b) = b" and Hi8_Mk16: "Hi8 (Mk16 a b) = a"
proof -
  have up: "\<not> bit x (8 + n)" for x :: u8 and n using bit_u8_bound [of x "8 + n"] by auto
  show "Lo8 (Mk16 a b) = b" "Hi8 (Mk16 a b) = a"
    by (rule bit_word_eqI, simp add: bit_Lo8 bit_Hi8 Mk16_def bit_simps up)+
qed

lemma Mk16_inject: "Mk16 a b = Mk16 c d \<longleftrightarrow> a = c \<and> b = d"
  by (metis Lo8_Mk16 Hi8_Mk16)

lemma p1_round_inject: "p1_round tk i p = p1_round tk i q \<longleftrightarrow> p = q"
  by (cases p; cases q) (auto simp: p1_round_def Let_def)

lemma phase1_inject:
  assumes "length ta = 6" "length ta' = 6"
  shows "phase1 tk ta iv32 = phase1 tk ta' iv32' \<longleftrightarrow> ta = ta' \<and> iv32 = iv32'"
proof -
  have fold: "foldl (\<lambda>p i. p1_round tk i p) p is = foldl (\<lambda>p i. p1_round tk i p) q is \<longleftrightarrow> p = q"
    for p q "is" by (induction "is" arbitrary: p q) (auto simp: p1_round_inject)
  obtain a0 a1 a2 a3 a4 a5 where a: "ta = [a0, a1, a2, a3, a4, a5]"
    using assms(1) by (auto simp: eval_nat_numeral length_Suc_conv)
  obtain b0 b1 b2 b3 b4 b5 where b: "ta' = [b0, b1, b2, b3, b4, b5]"
    using assms(2) by (auto simp: eval_nat_numeral length_Suc_conv)
  show ?thesis
    unfolding phase1_def fold a b using Lo16_Hi16_inject [of iv32 iv32']
    by (auto simp: Mk16_inject)
qed

lemma ppk_mix_inject: "ppk_mix tk p = ppk_mix tk q \<longleftrightarrow> p = q"
  by (cases p; cases q) (auto simp: ppk_mix_def Let_def)

lemma ppk_sweep_inject: "ppk_sweep tk p = ppk_sweep tk q \<longleftrightarrow> p = q"
  by (cases p; cases q) (auto simp: ppk_sweep_def Let_def)

lemma phase2_inject:
  "drop 4 (phase2 tk p iv16) = drop 4 (phase2 tk q iv16') \<longleftrightarrow> p = q \<and> iv16 = iv16'"
proof
  assume eq: "drop 4 (phase2 tk p iv16) = drop 4 (phase2 tk q iv16')"
  obtain p0 p1 p2 p3 p4 where p: "p = (p0, p1, p2, p3, p4)" by (cases p)
  obtain q0 q1 q2 q3 q4 where q: "q = (q0, q1, q2, q3, q4)" by (cases q)
  have "ppk_sweep tk (ppk_mix tk (p0, p1, p2, p3, p4, p4 + iv16))
      = ppk_sweep tk (ppk_mix tk (q0, q1, q2, q3, q4, q4 + iv16'))"
    using eq unfolding phase2_def p q
    by (cases "ppk_sweep tk (ppk_mix tk (p0, p1, p2, p3, p4, p4 + iv16))";
        cases "ppk_sweep tk (ppk_mix tk (q0, q1, q2, q3, q4, q4 + iv16'))")
       (simp add: Lo8_Hi8_inject flip: conj_assoc)
  then show "p = q \<and> iv16 = iv16'"
    by (auto simp: ppk_mix_inject ppk_sweep_inject p q)
qed simp

section \<open>Packet numbers\<close>

text \<open>The byte \<^verbatim>\<open>TSCk\<close> of \<^verbatim>\<open>union pn48\<close>.\<close>

definition TSC :: "u64 \<Rightarrow> nat \<Rightarrow> u8" where
  "TSC pn k = ucast (drop_bit (8 * k) pn)"

text \<open>\<^verbatim>\<open>TKIP_IV\<close> stores the packet number in the IV and steps it, wrapping at 48 bits.\<close>

definition TKIP_IV :: "u64 \<Rightarrow> u8 \<Rightarrow> bytes \<times> u64" where
  "TKIP_IV pn keyidx =
     ([TSC pn 1, (TSC pn 1 OR 0x20) AND 0x7f, TSC pn 0, 0x20 OR push_bit 6 (keyidx AND 3),
       TSC pn 2, TSC pn 3, TSC pn 4, TSC pn 5],
      if pn = 0xffffffffffff then 0 else pn + 1)"

text \<open>\<^verbatim>\<open>GET_TKIP_PN\<close> and the two casts that follow it: \<open>pnl\<close> and \<open>pnh\<close>. The bytes
  \<^verbatim>\<open>TSC6\<close> and \<^verbatim>\<open>TSC7\<close> stay uninitialised in C and are cut off by the casts.\<close>

definition GET_TKIP_PN :: "bytes \<Rightarrow> u16 \<times> u32" where
  "GET_TKIP_PN iv = (get_le16 (iv ! 2) (iv ! 0), get_le32 [iv ! 4, iv ! 5, iv ! 6, iv ! 7])"

lemma GET_TKIP_PN_IV: "GET_TKIP_PN (fst (TKIP_IV pn k)) = (ucast pn, ucast (drop_bit 16 pn))"
proof -
  have lo: "get_le16 (TSC pn 0) (TSC pn 1) = ucast pn"
  proof (rule bit_word_eqI)
    fix n assume "n < LENGTH(16)"
    then show "bit (get_le16 (TSC pn 0) (TSC pn 1)) n = bit (ucast pn :: u16) n"
      by (cases "n < 8") (auto simp: get_le16_def TSC_def bit_simps)
  qed
  have hi: "get_le32 [TSC pn 2, TSC pn 3, TSC pn 4, TSC pn 5] = ucast (drop_bit 16 pn)"
  proof (rule bit_word_eqI)
    fix n assume "n < LENGTH(32)"
    then have n: "n < 32" by simp
    then show "bit (get_le32 [TSC pn 2, TSC pn 3, TSC pn 4, TSC pn 5]) n
        = bit (ucast (drop_bit 16 pn) :: u32) n"
    proof (rule byte_ranges)
    qed (use n in \<open>simp_all add: bit_get_le32 TSC_def bit_simps\<close>)
  qed
  show ?thesis by (simp add: GET_TKIP_PN_def TKIP_IV_def lo [unfolded One_nat_def] hi)
qed

lemma TKIP_IV_step:
  "unat pn < 2 ^ 48 \<Longrightarrow> unat (snd (TKIP_IV pn k)) = (unat pn + 1) mod 2 ^ 48"
proof -
  assume pn: "unat pn < 2 ^ 48"
  show ?thesis
  proof (cases "pn = 0xffffffffffff")
    case True
    then show ?thesis by (simp add: TKIP_IV_def)
  next
    case False
    then have "unat pn \<noteq> unat (0xffffffffffff :: u64)" by (simp add: word_unat_eq_iff)
    with pn have lt: "unat pn + 1 < 2 ^ 48" by simp
    then have "unat (pn + 1) = unat pn + 1"
      by (subst unat_word_ariths) simp
    with False lt show ?thesis by (simp add: TKIP_IV_def)
  qed
qed

text \<open>The packet numbers of a sender, one per frame.\<close>

fun tkip_pn :: "u64 \<Rightarrow> nat \<Rightarrow> u64" where
  "tkip_pn pn 0 = pn"
| "tkip_pn pn (Suc k) = snd (TKIP_IV (tkip_pn pn k) 0)"

lemma tkip_pn_unat: "unat pn < 2 ^ 48 \<Longrightarrow> unat (tkip_pn pn k) = (unat pn + k) mod 2 ^ 48"
proof (induction k)
  case (Suc k)
  then have "unat (tkip_pn pn k) < 2 ^ 48" by simp
  from TKIP_IV_step [OF this] Suc show ?case by (simp add: mod_simps)
qed simp

lemma pn_words_inject:
  assumes "unat (p :: u64) < 2 ^ 48" "unat (q :: u64) < 2 ^ 48"
    and "(ucast p :: u16) = ucast q" "(ucast (drop_bit 16 p) :: u32) = ucast (drop_bit 16 q)"
  shows "p = q"
proof (rule bit_word_eqI)
  fix n assume "n < LENGTH(64)"
  have top: "\<not> bit x n" if "unat x < 2 ^ 48" "48 \<le> n" for x :: u64
  proof -
    have "take_bit 48 (unat x) = unat x" using that(1) by (simp add: take_bit_nat_eq_self)
    then have "bit (unat x) n \<longleftrightarrow> n < 48 \<and> bit (unat x) n" by (metis bit_take_bit_iff)
    with that(2) show ?thesis by (simp add: bit_unsigned_iff)
  qed
  have lo: "bit (ucast p :: u16) n = bit (ucast q :: u16) n" using assms(3) by simp
  have hi: "bit (ucast (drop_bit 16 p) :: u32) (n - 16) = bit (ucast (drop_bit 16 q) :: u32) (n - 16)"
    using assms(4) by simp
  consider "n < 16" | "16 \<le> n" "n < 48" | "48 \<le> n" by linarith
  then show "bit p n = bit q n"
  proof cases
    case 1
    with lo show ?thesis by (simp add: bit_simps)
  next
    case 2
    then have "n - 16 < 32" by simp
    with hi 2 show ?thesis by (simp add: bit_simps)
  next
    case 3
    with top assms(1,2) show ?thesis by blast
  qed
qed

section \<open>Encryption and decryption\<close>

text \<open>The RC4 key of a fragment; \<open>p\<close> is the memory from its header on.\<close>

definition tkip_rc4key :: "bytes \<Rightarrow> bytes \<Rightarrow> bytes \<Rightarrow> bytes" where
  "tkip_rc4key key adr iv =
     (let (pnl, pnh) = GET_TKIP_PN iv in phase2 key (phase1 key adr pnh) pnl)"

definition tkip_encrypt_frag ::
    "bytes \<Rightarrow> bytes \<Rightarrow> nat \<Rightarrow> nat \<Rightarrow> nat \<Rightarrow> bytes \<Rightarrow> bytes option" where
  "tkip_encrypt_frag key adr hl il n p =
     (if hl + 8 \<le> length p then rc4_seal (tkip_rc4key key adr (buf_get hl 8 p)) (il + hl) n p else None)"

definition rtw_tkip_encrypt ::
    "security_priv \<Rightarrow> sta_priv \<Rightarrow> nat \<Rightarrow> xmit_frame \<Rightarrow> (rtw_status \<times> xmit_frame) option" where
  "rtw_tkip_encrypt sec stapriv frag_len xf =
     (case buf_addr xf of None \<Rightarrow> Some (RTW_FAIL, xf)
      | Some buf \<Rightarrow>
        let a = attrib xf in
        if encrypt a = TKIP then
          (case xmit_key sec stapriv a of None \<Rightarrow> None
           | Some (Inl res) \<Rightarrow> Some (res, xf)
           | Some (Inr prwskey) \<Rightarrow>
             (case frag_loop (tkip_encrypt_frag prwskey (pkt_ta a) (hdrlen a) (iv_len a)) a frag_len
                     (buf_base xf) 0 TXDESC_OFFSET buf of
                None \<Rightarrow> None
              | Some buf' \<Rightarrow> Some (RTW_SUCCESS, xf\<lparr>buf_addr := Some buf'\<rparr>)))
        else Some (RTW_SUCCESS, xf))"

definition tkip_decrypt_frag ::
    "bytes \<Rightarrow> bytes \<Rightarrow> nat \<Rightarrow> nat \<Rightarrow> bytes \<Rightarrow> (bytes \<times> bool) option" where
  "tkip_decrypt_frag key adr hl il f =
     (if hl + 8 \<le> length f then rc4_open (tkip_rc4key key adr (buf_get hl 8 f)) (il + hl) f else None)"

text \<open>The key a received frame is opened with: the group key of the frame's index, once a group key
  is installed, or the key of the transmitting station.\<close>

definition tkip_recv_key ::
    "security_priv \<Rightarrow> sta_priv \<Rightarrow> rx_pkt_attrib \<Rightarrow> (rtw_status + bytes) option" where
  "tkip_recv_key sec stapriv a =
     (case rtw_get_stainfo stapriv (rx_ta a) of
        None \<Rightarrow> Some (Inl RTW_FAIL)
      | Some i \<Rightarrow>
        if is_multicast_ether_addr (rx_ra a) then
          if \<not> binstallGrpkey sec then Some (Inl RTW_FAIL) else grp_key sec (rx_key_index a)
        else Some (Inr (dot118021x_UncstKey (sta_buf stapriv ! i))))"

definition rtw_tkip_decrypt ::
    "security_priv \<Rightarrow> sta_priv \<Rightarrow> recv_frame \<Rightarrow> (rtw_status \<times> recv_frame) option" where
  "rtw_tkip_decrypt sec stapriv rf =
     (let a = rx_attrib rf in
      if rx_encrypt a = TKIP then
        (case tkip_recv_key sec stapriv a of None \<Rightarrow> None
         | Some (Inl res) \<Rightarrow> Some (res, rf)
         | Some (Inr prwskey) \<Rightarrow>
           (case tkip_decrypt_frag prwskey (rx_ta a) (rx_hdrlen a) (rx_iv_len a) (rx_data rf) of
              None \<Rightarrow> None
            | Some (f, icv_ok) \<Rightarrow>
              Some (if icv_ok then RTW_SUCCESS else RTW_FAIL, rf\<lparr>rx_data := f\<rparr>)))
      else Some (RTW_SUCCESS, rf))"

section \<open>Key reuse\<close>

text \<open>C24. TKIP never repeats an RC4 key: for one temporal key, the 96 bits of the RC4 key that depend
  on the mixing differ between any two frames that differ in transmitter address or packet number, where a
  transmitter's packet numbers are those of \<^verbatim>\<open>TKIP_IV\<close> from any start, up to the 2^48 of a
  full cycle.\<close>

theorem tkip_keys_distinct:
  assumes "unat pn < 2 ^ 48" "i < 2 ^ 48" "j < 2 ^ 48" "length adr = 6" "length adr' = 6"
  shows "drop 4 (tkip_rc4key key adr (fst (TKIP_IV (tkip_pn pn i) kid)))
       = drop 4 (tkip_rc4key key adr' (fst (TKIP_IV (tkip_pn pn j) kid'))) \<longleftrightarrow> i = j \<and> adr = adr'"
    (is "?l = ?r \<longleftrightarrow> _")
proof
  let ?p = "tkip_pn pn i" and ?q = "tkip_pn pn j"
  assume "?l = ?r"
  then have "(ucast ?p :: u16) = ucast ?q \<and> (ucast (drop_bit 16 ?p) :: u32) = ucast (drop_bit 16 ?q)
      \<and> adr = adr'"
    using phase1_inject [OF assms(4,5)]
    by (auto simp: tkip_rc4key_def GET_TKIP_PN_IV phase2_inject)
  moreover have "unat ?p < 2 ^ 48" "unat ?q < 2 ^ 48"
    using tkip_pn_unat [OF assms(1)] by simp_all
  ultimately have "?p = ?q" "adr = adr'" using pn_words_inject by blast+
  then have "(unat pn + i) mod 2 ^ 48 = (unat pn + j) mod 2 ^ 48"
    using tkip_pn_unat [OF assms(1)] by metis
  with assms(2,3) have "i = j" by (rule mod_add_inject)
  with \<open>adr = adr'\<close> show "i = j \<and> adr = adr'" by simp
qed (simp add: tkip_rc4key_def GET_TKIP_PN_IV)

theorem tkip_keys_distinct_witness:
  "drop 4 (tkip_rc4key (replicate 16 1) [0, 1, 2, 3, 4, 5] (fst (TKIP_IV (tkip_pn 0xffffffffffff 0) 1)))
     \<noteq> drop 4 (tkip_rc4key (replicate 16 1) [0, 1, 2, 3, 4, 5] (fst (TKIP_IV (tkip_pn 0xffffffffffff 1) 1)))"
  using tkip_keys_distinct [of "0xffffffffffff" 0 1 "[0, 1, 2, 3, 4, 5]" "[0, 1, 2, 3, 4, 5]"
      "replicate 16 1" 1 1]
  by simp

section \<open>The round trip\<close>

interpretation tkip: frag_cipher
  "tkip_encrypt_frag key adr hl 8" "tkip_decrypt_frag key adr hl 8"
  "\<lambda>p. Some (with_icv (8 + hl) p, True)" "\<lambda>p. True" "8 + hl + 4"
  for key adr hl
proof (unfold_locales, goal_cases)
  case (1 n p p')
  then have seal: "rc4_seal (tkip_rc4key key adr (buf_get hl 8 p)) (8 + hl) n p = Some p'"
    by (auto simp: tkip_encrypt_frag_def split: if_splits)
  have m: "n + (8 + hl + 4) = 8 + hl + n + 4" by simp
  from rc4_seal_local [OF seal] show ?case
    unfolding m by (auto simp: tkip_encrypt_frag_def buf_get_take)
next
  case (2 n p f)
  then have seal: "rc4_seal (tkip_rc4key key adr (buf_get hl 8 p)) (8 + hl) n p = Some f"
    by (auto simp: tkip_encrypt_frag_def split: if_splits)
  then have "buf_get hl 8 f = buf_get hl 8 p" "length f = length p"
    by (auto simp: rc4_seal_eq buf_simps len_simps split: if_splits)
  with rc4_open_seal [OF seal] 2(2) show ?case by (simp add: tkip_decrypt_frag_def)
qed

text \<open>C25. TKIP round trip: when the receiver's key selection yields the key the sender's selection
  yields, every fragment that \<^verbatim>\<open>rtw_tkip_encrypt\<close> seals is accepted by
  \<^verbatim>\<open>rtw_tkip_decrypt\<close>, which restores the plain fragment followed by its CRC-32.\<close>

theorem rtw_tkip_roundtrip:
  assumes "rtw_tkip_encrypt sec stapriv frag_len xf = Some (RTW_SUCCESS, xf')"
    and "buf_addr xf = Some buf" "buf_addr xf' = Some buf'" "attrib xf = a"
    and "encrypt a = TKIP" "(iv_len a, icv_len a) = SET_ICE_IV_LEN (encrypt a)"
    and "j < nr_frags a" "off = frag_offset frag_len (buf_base xf) TXDESC_OFFSET j"
    and "sz = frag_total a frag_len j"
    and "rx_hdrlen r = hdrlen a" "rx_iv_len r = iv_len a" "rx_encrypt r = encrypt a"
    and "rx_ta r = pkt_ta a" "xmit_key sec stapriv a = Some (Inr key)"
    and "tkip_recv_key sec' stapriv' r = Some (Inr key)"
  shows "rtw_tkip_decrypt sec' stapriv' \<lparr>rx_attrib = r, rx_data = buf_get off sz buf'\<rparr>
     = Some (RTW_SUCCESS,
         \<lparr>rx_attrib = r, rx_data = with_icv (iv_len a + hdrlen a) (buf_get off sz buf)\<rparr>)"
proof -
  have il: "iv_len a = 8" "icv_len a = 4"
    using assms(5,6) by (auto simp: SET_ICE_IV_LEN_def)
  have "frag_loop (tkip_encrypt_frag key (pkt_ta a) (hdrlen a) 8) a frag_len (buf_base xf) 0
      TXDESC_OFFSET buf = Some buf'"
    using assms(1-5,14) il by (auto simp: rtw_tkip_encrypt_def Let_def split: option.splits)
  from tkip.frag_loop_opens(1) [OF this _ _ assms(7) _ assms(8,9)] il
  have "tkip_decrypt_frag key (pkt_ta a) (hdrlen a) 8 (buf_get off sz buf')
      = Some (with_icv (8 + hdrlen a) (buf_get off sz buf), True)" by simp
  with assms(5,10-) il show ?thesis by (auto simp: rtw_tkip_decrypt_def)
qed

definition tkip_example_sec :: security_priv where
  "tkip_example_sec = \<lparr>dot11PrivacyKeyIndex = 0, dot11DefKey = [], dot11DefKeylen = [],
     dot118021XGrpKeyid = 0, dot118021XGrpKey = [], binstallGrpkey = False\<rparr>"

definition tkip_example_sta :: sta_priv where
  "tkip_example_sta = \<lparr>sta_buf = [\<lparr>hwaddr = [2, 0, 0, 0, 0, 5], sta_state = 1,
       dot118021x_UncstKey = replicate 16 3\<rparr>],
     free_sta_queue = [], sta_hash = (replicate 32 [])[13 := [0]], asoc_sta_count = 1\<rparr>"

definition tkip_example_attrib :: pkt_attrib where
  "tkip_example_attrib = \<lparr>hdrlen = 24, iv_len = 8, icv_len = 4, last_txcmdsz = 50, nr_frags = 1,
     encrypt = TKIP, pkt_ta = [2, 0, 0, 0, 0, 5], pkt_ra = [2, 0, 0, 0, 0, 5], psta = None\<rparr>"

definition tkip_example_frame :: xmit_frame where
  "tkip_example_frame =
     \<lparr>attrib = tkip_example_attrib, buf_addr = Some (replicate 90 7), buf_base = 0\<rparr>"

definition tkip_example_rx :: rx_pkt_attrib where
  "tkip_example_rx = \<lparr>rx_hdrlen = 24, rx_iv_len = 8, rx_encrypt = TKIP,
     rx_ta = [2, 0, 0, 0, 0, 5], rx_ra = [2, 0, 0, 0, 0, 5], rx_key_index = 0\<rparr>"

lemma tkip_example_station: "rtw_get_stainfo tkip_example_sta [2, 0, 0, 0, 0, 5] = Some 0"
  by (simp add: rtw_get_stainfo_def tkip_example_sta_def is_multicast_ether_addr_def
      wifi_mac_hash_def NUM_STA_def)

lemma tkip_example_keys:
  "xmit_key tkip_example_sec tkip_example_sta tkip_example_attrib = Some (Inr (replicate 16 3))"
  "tkip_recv_key tkip_example_sec tkip_example_sta tkip_example_rx = Some (Inr (replicate 16 3))"
  by (simp_all add: xmit_key_def tkip_recv_key_def tkip_example_attrib_def tkip_example_rx_def
      tkip_example_station)
     (simp_all add: tkip_example_sta_def is_multicast_ether_addr_def FW_LINKED_def)

lemma tkip_example_sealed:
  "\<exists>buf'. rtw_tkip_encrypt tkip_example_sec tkip_example_sta 100 tkip_example_frame
          = Some (RTW_SUCCESS, tkip_example_frame\<lparr>buf_addr := Some buf'\<rparr>)"
proof -
  have "encrypt tkip_example_attrib = TKIP" "attrib tkip_example_frame = tkip_example_attrib"
    "buf_addr tkip_example_frame = Some (replicate 90 7)"
    by (simp_all add: tkip_example_attrib_def tkip_example_frame_def)
  then show ?thesis
    by (simp add: rtw_tkip_encrypt_def tkip_example_keys Let_def)
       (simp add: tkip_example_frame_def tkip_example_attrib_def frag_loop.simps
        frag_payload_def tkip_encrypt_frag_def rc4_seal_eq TXDESC_OFFSET_def len_simps)
qed

theorem rtw_tkip_roundtrip_witness:
  "\<exists>buf'. rtw_tkip_encrypt tkip_example_sec tkip_example_sta 100 tkip_example_frame
          = Some (RTW_SUCCESS, tkip_example_frame\<lparr>buf_addr := Some buf'\<rparr>)
     \<and> rtw_tkip_decrypt tkip_example_sec tkip_example_sta
          \<lparr>rx_attrib = tkip_example_rx, rx_data = buf_get 40 50 buf'\<rparr>
       = Some (RTW_SUCCESS, \<lparr>rx_attrib = tkip_example_rx,
                 rx_data = with_icv 32 (buf_get 40 50 (replicate 90 7))\<rparr>)"
proof -
  obtain buf' where b: "rtw_tkip_encrypt tkip_example_sec tkip_example_sta 100 tkip_example_frame
      = Some (RTW_SUCCESS, tkip_example_frame\<lparr>buf_addr := Some buf'\<rparr>)"
    using tkip_example_sealed by blast
  have off: "(40 :: nat) = frag_offset 100 (buf_base tkip_example_frame) TXDESC_OFFSET 0"
    by (simp add: TXDESC_OFFSET_def)
  have sz: "(50 :: nat) = frag_total tkip_example_attrib 100 0"
    by (simp add: frag_total_def tkip_example_attrib_def)
  have "rtw_tkip_decrypt tkip_example_sec tkip_example_sta
      \<lparr>rx_attrib = tkip_example_rx, rx_data = buf_get 40 50 buf'\<rparr>
      = Some (RTW_SUCCESS, \<lparr>rx_attrib = tkip_example_rx, rx_data =
          with_icv (iv_len tkip_example_attrib + hdrlen tkip_example_attrib)
            (buf_get 40 50 (replicate 90 7))\<rparr>)"
    by (rule rtw_tkip_roundtrip [OF b _ _ _ _ _ _ off sz _ _ _ _ tkip_example_keys])
       (simp_all add: tkip_example_frame_def tkip_example_attrib_def tkip_example_rx_def
         SET_ICE_IV_LEN_def)
  with b show ?thesis by (auto simp: tkip_example_attrib_def)
qed

end
