(* ===== verification/Aes.thy ===== *)
theory Aes
  imports Tkip
begin

text \<open>
  The AES-128 block cipher of \<^verbatim>\<open>core/rtw_security.c\<close> (\<^verbatim>\<open>aes128k128d\<close> and its
  parts) and its equality with the cipher as FIPS-197 writes it: S-box, ShiftRows on the column-major state,
  MixColumns over GF(2^8) and the key expansion by words.
\<close>

section \<open>The code\<close>

definition sbox_table :: bytes where
  "sbox_table = [
    0x63, 0x7c, 0x77, 0x7b, 0xf2, 0x6b, 0x6f, 0xc5, 0x30, 0x01, 0x67, 0x2b, 0xfe, 0xd7, 0xab, 0x76,
    0xca, 0x82, 0xc9, 0x7d, 0xfa, 0x59, 0x47, 0xf0, 0xad, 0xd4, 0xa2, 0xaf, 0x9c, 0xa4, 0x72, 0xc0,
    0xb7, 0xfd, 0x93, 0x26, 0x36, 0x3f, 0xf7, 0xcc, 0x34, 0xa5, 0xe5, 0xf1, 0x71, 0xd8, 0x31, 0x15,
    0x04, 0xc7, 0x23, 0xc3, 0x18, 0x96, 0x05, 0x9a, 0x07, 0x12, 0x80, 0xe2, 0xeb, 0x27, 0xb2, 0x75,
    0x09, 0x83, 0x2c, 0x1a, 0x1b, 0x6e, 0x5a, 0xa0, 0x52, 0x3b, 0xd6, 0xb3, 0x29, 0xe3, 0x2f, 0x84,
    0x53, 0xd1, 0x00, 0xed, 0x20, 0xfc, 0xb1, 0x5b, 0x6a, 0xcb, 0xbe, 0x39, 0x4a, 0x4c, 0x58, 0xcf,
    0xd0, 0xef, 0xaa, 0xfb, 0x43, 0x4d, 0x33, 0x85, 0x45, 0xf9, 0x02, 0x7f, 0x50, 0x3c, 0x9f, 0xa8,
    0x51, 0xa3, 0x40, 0x8f, 0x92, 0x9d, 0x38, 0xf5, 0xbc, 0xb6, 0xda, 0x21, 0x10, 0xff, 0xf3, 0xd2,
    0xcd, 0x0c, 0x13, 0xec, 0x5f, 0x97, 0x44, 0x17, 0xc4, 0xa7, 0x7e, 0x3d, 0x64, 0x5d, 0x19, 0x73,
    0x60, 0x81, 0x4f, 0xdc, 0x22, 0x2a, 0x90, 0x88, 0x46, 0xee, 0xb8, 0x14, 0xde, 0x5e, 0x0b, 0xdb,
    0xe0, 0x32, 0x3a, 0x0a, 0x49, 0x06, 0x24, 0x5c, 0xc2, 0xd3, 0xac, 0x62, 0x91, 0x95, 0xe4, 0x79,
    0xe7, 0xc8, 0x37, 0x6d, 0x8d, 0xd5, 0x4e, 0xa9, 0x6c, 0x56, 0xf4, 0xea, 0x65, 0x7a, 0xae, 0x08,
    0xba, 0x78, 0x25, 0x2e, 0x1c, 0xa6, 0xb4, 0xc6, 0xe8, 0xdd, 0x74, 0x1f, 0x4b, 0xbd, 0x8b, 0x8a,
    0x70, 0x3e, 0xb5, 0x66, 0x48, 0x03, 0xf6, 0x0e, 0x61, 0x35, 0x57, 0xb9, 0x86, 0xc1, 0x1d, 0x9e,
    0xe1, 0xf8, 0x98, 0x11, 0x69, 0xd9, 0x8e, 0x94, 0x9b, 0x1e, 0x87, 0xe9, 0xce, 0x55, 0x28, 0xdf,
    0x8c, 0xa1, 0x89, 0x0d, 0xbf, 0xe6, 0x42, 0x68, 0x41, 0x99, 0x2d, 0x0f, 0xb0, 0x54, 0xbb, 0x16]"

text \<open>The output arrays are the values returned.\<close>

definition xor_128 :: "bytes \<Rightarrow> bytes \<Rightarrow> bytes" where
  "xor_128 a b = map (\<lambda>i. a ! i XOR b ! i) [0..<16]"

definition xor_32 :: "bytes \<Rightarrow> bytes \<Rightarrow> bytes" where
  "xor_32 a b = map (\<lambda>i. a ! i XOR b ! i) [0..<4]"

definition sbox :: "u8 \<Rightarrow> u8" where
  "sbox a = sbox_table ! unat a"

definition rcon_table :: bytes where
  "rcon_table = [0x01, 0x02, 0x04, 0x08, 0x10, 0x20, 0x40, 0x80, 0x1b, 0x36, 0x36, 0x36]"

definition next_key :: "bytes \<Rightarrow> nat \<Rightarrow> bytes" where
  "next_key key round =
     (let sbox_key = [sbox (key ! 13), sbox (key ! 14), sbox (key ! 15), sbox (key ! 12)];
          rcon = rcon_table ! round;
          key = buf_put 0 (xor_32 (drop 0 key) sbox_key) key;
          key = key[0 := key ! 0 XOR rcon];
          key = buf_put 4 (xor_32 (drop 4 key) (drop 0 key)) key;
          key = buf_put 8 (xor_32 (drop 8 key) (drop 4 key)) key;
          key = buf_put 12 (xor_32 (drop 12 key) (drop 8 key)) key
      in key)"

definition byte_sub :: "bytes \<Rightarrow> bytes" where
  "byte_sub inp = map (\<lambda>i. sbox (inp ! i)) [0..<16]"

definition shift_row :: "bytes \<Rightarrow> bytes" where
  "shift_row inp =
     [inp ! 0, inp ! 5, inp ! 10, inp ! 15, inp ! 4, inp ! 9, inp ! 14, inp ! 3,
      inp ! 8, inp ! 13, inp ! 2, inp ! 7, inp ! 12, inp ! 1, inp ! 6, inp ! 11]"

text \<open>The shift loop of \<^verbatim>\<open>mix_column\<close> runs from byte 3 down to byte 1; the byte below is not
  shifted yet when its top bit is looked at.\<close>

fun mix_shift :: "nat \<Rightarrow> bytes \<Rightarrow> bytes" where
  "mix_shift 0 andf7 = andf7"
| "mix_shift (Suc i) andf7 =
     mix_shift i
       (let b = push_bit 1 (andf7 ! Suc i)
        in andf7[Suc i := (if andf7 ! i AND 0x80 = 0x80 then b OR 0x01 else b)])"

definition mix_column :: "bytes \<Rightarrow> bytes" where
  "mix_column inp =
     (let add1b = map (\<lambda>i. if inp ! i AND 0x80 = 0x80 then 0x1b else 0x00) [0..<4];
          swap_halfs = [inp ! 2, inp ! 3, inp ! 0, inp ! 1];
          rotl = [inp ! 3, inp ! 0, inp ! 1, inp ! 2];
          andf7 = [inp ! 0 AND 0x7f, inp ! 1 AND 0x7f, inp ! 2 AND 0x7f, inp ! 3 AND 0x7f];
          andf7 = mix_shift 3 andf7;
          andf7 = andf7[0 := push_bit 1 (andf7 ! 0)];
          andf7 = andf7[0 := andf7 ! 0 AND 0xfe];
          add1bf7 = xor_32 add1b andf7;
          rotr = xor_32 inp add1bf7;
          rotr = [rotr ! 1, rotr ! 2, rotr ! 3, rotr ! 0];
          temp = xor_32 add1bf7 rotr;
          tempb = xor_32 swap_halfs rotl
      in xor_32 temp tempb)"

definition aes_round :: "nat \<Rightarrow> bytes \<Rightarrow> bytes \<times> bytes \<Rightarrow> bytes \<times> bytes" where
  "aes_round round data = (\<lambda>(round_key, ciphertext).
     if round = 0 then (next_key round_key round, xor_128 round_key data)
     else if round = 10 then
       let a = byte_sub ciphertext; b = shift_row a in (round_key, xor_128 b round_key)
     else
       let a = byte_sub ciphertext; b = shift_row a;
           a = mix_column (drop 0 b) @ mix_column (drop 4 b) @ mix_column (drop 8 b)
               @ mix_column (drop 12 b)
       in (next_key round_key round, xor_128 a round_key))"

definition aes128k128d :: "bytes \<Rightarrow> bytes \<Rightarrow> bytes" where
  "aes128k128d key data =
     snd (foldl (\<lambda>s round. aes_round round data s) (take 16 key, replicate 16 0) [0..<11])"

section \<open>FIPS-197\<close>

text \<open>Multiplication by x in GF(2^8).\<close>

definition xtime :: "u8 \<Rightarrow> u8" where
  "xtime b = (if bit b 7 then push_bit 1 b XOR 0x1b else push_bit 1 b)"

definition gmul3 :: "u8 \<Rightarrow> u8" where
  "gmul3 b = xtime b XOR b"

text \<open>The state is stored column by column: row \<open>r\<close> of column \<open>c\<close> is byte \<open>4 * c + r\<close>.\<close>

definition SubBytes :: "bytes \<Rightarrow> bytes" where
  "SubBytes s = map sbox s"

definition ShiftRows :: "bytes \<Rightarrow> bytes" where
  "ShiftRows s = map (\<lambda>i. s ! (4 * ((i div 4 + i mod 4) mod 4) + i mod 4)) [0..<16]"

definition MixColumns :: "bytes \<Rightarrow> bytes" where
  "MixColumns s = concat (map (\<lambda>c.
     let a = s ! (4 * c); b = s ! (4 * c + 1); d = s ! (4 * c + 2); e = s ! (4 * c + 3)
     in [xtime a XOR gmul3 b XOR d XOR e, a XOR xtime b XOR gmul3 d XOR e,
         a XOR b XOR xtime d XOR gmul3 e, gmul3 a XOR b XOR d XOR xtime e]) [0..<4])"

definition AddRoundKey :: "bytes \<Rightarrow> bytes \<Rightarrow> bytes" where
  "AddRoundKey s k = xor_bytes s k"

definition SubWord :: "bytes \<Rightarrow> bytes" where "SubWord w = map sbox w"
definition RotWord :: "bytes \<Rightarrow> bytes" where "RotWord w = rotate1 w"

definition Rcon :: "nat \<Rightarrow> bytes" where
  "Rcon i = [(xtime ^^ (i - 1)) 1, 0, 0, 0]"

fun KeyWord :: "bytes \<Rightarrow> nat \<Rightarrow> bytes" where
  "KeyWord key i =
     (if i < 4 then buf_get (4 * i) 4 key
      else if i mod 4 = 0
      then xor_bytes (KeyWord key (i - 4)) (xor_bytes (SubWord (RotWord (KeyWord key (i - 1)))) (Rcon (i div 4)))
      else xor_bytes (KeyWord key (i - 4)) (KeyWord key (i - 1)))"

declare KeyWord.simps [simp del]

definition RoundKey :: "bytes \<Rightarrow> nat \<Rightarrow> bytes" where
  "RoundKey key r =
     KeyWord key (4 * r) @ KeyWord key (4 * r + 1) @ KeyWord key (4 * r + 2) @ KeyWord key (4 * r + 3)"

definition fips_rounds :: "nat \<Rightarrow> bytes \<Rightarrow> bytes \<Rightarrow> bytes" where
  "fips_rounds n key s =
     foldl (\<lambda>s r. AddRoundKey (MixColumns (ShiftRows (SubBytes s))) (RoundKey key r)) s [1..<n]"

definition fips197_cipher :: "bytes \<Rightarrow> bytes \<Rightarrow> bytes" where
  "fips197_cipher key data =
     AddRoundKey (ShiftRows (SubBytes (fips_rounds 10 key (AddRoundKey data (RoundKey key 0)))))
       (RoundKey key 10)"

section \<open>Lengths\<close>

lemma length_xor_128 [len_simps]: "length (xor_128 a b) = 16"
  and length_xor_32 [len_simps]: "length (xor_32 a b) = 4"
  and length_byte_sub [len_simps]: "length (byte_sub a) = 16"
  and length_shift_row [len_simps]: "length (shift_row a) = 16"
  and length_mix_column [len_simps]: "length (mix_column a) = 4"
  by (simp_all add: xor_128_def xor_32_def byte_sub_def shift_row_def mix_column_def Let_def)

lemma xor_32_list: "xor_32 a b = [a ! 0 XOR b ! 0, a ! 1 XOR b ! 1, a ! 2 XOR b ! 2, a ! 3 XOR b ! 3]"
  by (simp add: xor_32_def upt_rec numeral_2_eq_2 numeral_3_eq_3)

lemma length_next_key [len_simps]: "length key = 16 \<Longrightarrow> length (next_key key r) = 16"
  by (simp add: next_key_def Let_def len_simps)

lemma xor_128_eq: "length a = 16 \<Longrightarrow> length b = 16 \<Longrightarrow> xor_128 a b = xor_bytes a b"
  by (rule nth_equalityI) (simp_all add: xor_128_def nth_xor_bytes len_simps)

section \<open>The round functions\<close>

lemma top_bit: "b AND 0x80 = 0x80 \<longleftrightarrow> bit (b :: u8) 7"
proof
  assume "b AND 0x80 = 0x80"
  then have "bit (b AND 0x80) 7" by simp
  then show "bit b 7" by (simp add: bit_simps)
next
  assume "bit b 7"
  then show "b AND 0x80 = 0x80" by (intro u8_eqI) (simp_all add: bit_simps)
qed

lemma shift_masked: "push_bit 1 (b AND 0x7f) = push_bit 1 (b :: u8)"
  by (rule u8_eqI) (simp_all add: bit_simps bit_double_word)

lemma even_masked: "push_bit 1 b AND 0xfe = push_bit 1 (b :: u8)"
  by (rule u8_eqI) (simp_all add: bit_simps bit_double_word)

lemma masked_top: "\<not> bit ((b :: u8) AND 0x7f) 7"
proof -
  have "(0x7f :: u8) = mask 7" by (simp add: mask_numeral)
  then show ?thesis by (simp add: bit_simps)
qed

lemma xtime_code:
  "(if b AND 0x80 = 0x80 then 0x1b else 0) XOR push_bit 1 (b AND 0x7f) = xtime b"
  unfolding top_bit shift_masked by (simp add: xtime_def xor.commute)

lemma mix_shift_3:
  "mix_shift 3 [a AND 0x7f, b AND 0x7f, c AND 0x7f, d AND 0x7f]
     = [a AND 0x7f, push_bit 1 (b AND 0x7f), push_bit 1 (c AND 0x7f), push_bit 1 (d AND 0x7f)]"
  using masked_top [of a] masked_top [of b] masked_top [of c]
  by (simp add: numeral_3_eq_3 top_bit)

lemma upto_4: "map f [0..<4] = [f 0, f 1, f 2, f 3]"
  by (simp add: upt_rec numeral_2_eq_2 numeral_3_eq_3)

lemma xtime_double:
  "(if b AND 0x80 = 0x80 then 0x1b else 0) XOR b * 2 = xtime b"
  "(if b AND 0x80 = 0x80 then 0x1b else 0) XOR (b * 2 AND 0xfe) = xtime b"
proof -
  have "b * 2 = push_bit 1 b" by simp
  then show "(if b AND 0x80 = 0x80 then 0x1b else 0) XOR b * 2 = xtime b"
    "(if b AND 0x80 = 0x80 then 0x1b else 0) XOR (b * 2 AND 0xfe) = xtime b"
    using xtime_code [of b] even_masked [of b] unfolding shift_masked by metis+
qed

lemma mix_column_eq:
  "mix_column inp =
    (let a = inp ! 0; b = inp ! 1; d = inp ! 2; e = inp ! 3
     in [xtime a XOR gmul3 b XOR d XOR e, a XOR xtime b XOR gmul3 d XOR e,
         a XOR b XOR xtime d XOR gmul3 e, gmul3 a XOR b XOR d XOR xtime e])"
proof -
  let ?x = "[xtime (inp ! 0), xtime (inp ! 1), xtime (inp ! 2), xtime (inp ! 3)]"
  have "xor_32 (map (\<lambda>i. if inp ! i AND 0x80 = 0x80 then 0x1b else 0x00) [0..<4])
     (let f = mix_shift 3 [inp ! 0 AND 0x7f, inp ! 1 AND 0x7f, inp ! 2 AND 0x7f, inp ! 3 AND 0x7f];
          f = f[0 := push_bit 1 (f ! 0)]
      in f[0 := f ! 0 AND 0xfe]) = ?x"
    unfolding mix_shift_3 upto_4 xor_32_list Let_def shift_masked
    by (simp add: xtime_double split del: if_split)
  then have eq: "mix_column inp =
     (let rotr = xor_32 inp ?x; rotr = [rotr ! 1, rotr ! 2, rotr ! 3, rotr ! 0]
      in xor_32 (xor_32 ?x rotr)
           (xor_32 [inp ! 2, inp ! 3, inp ! 0, inp ! 1] [inp ! 3, inp ! 0, inp ! 1, inp ! 2]))"
    unfolding mix_column_def Let_def by simp
  show ?thesis
    unfolding eq by (simp add: xor_32_list gmul3_def Let_def ac_simps)
qed

section \<open>Rounds and round keys\<close>

lemma length_SubBytes [len_simps]: "length (SubBytes s) = length s"
  and length_ShiftRows [len_simps]: "length (ShiftRows s) = 16"
  and length_AddRoundKey [len_simps]: "length (AddRoundKey s k) = min (length s) (length k)"
  by (simp_all add: SubBytes_def ShiftRows_def AddRoundKey_def len_simps)

lemma MixColumns_list:
  "MixColumns s = mix_column s @ mix_column (drop 4 s) @ mix_column (drop 8 s) @ mix_column (drop 12 s)"
  if "length s = 16"
  using that by (simp add: MixColumns_def mix_column_eq upto_4 Let_def numeral_2_eq_2)

lemma length_MixColumns [len_simps]: "length s = 16 \<Longrightarrow> length (MixColumns s) = 16"
  by (simp add: MixColumns_list len_simps)

lemma byte_sub_eq: "length s = 16 \<Longrightarrow> byte_sub s = SubBytes s"
  by (rule nth_equalityI) (simp_all add: byte_sub_def SubBytes_def)

lemma upto_16: "[0..<16] = [0, 1, 2, 3, 4, 5, 6, 7, 8, 9, 10, 11, 12, 13, 14, 15]"
  by (simp add: upt_rec)

lemma shift_row_eq: "shift_row s = ShiftRows s"
  by (simp add: shift_row_def ShiftRows_def upto_16 numeral_2_eq_2) (simp add: numeral_3_eq_3)

text \<open>The key schedule in place is the expansion by words.\<close>

lemma length_KeyWord [len_simps]: "length key = 16 \<Longrightarrow> length (KeyWord key i) = 4"
proof (induction key i rule: KeyWord.induct)
  case (1 key i)
  then show ?case
    by (subst KeyWord.simps) (auto simp: len_simps SubWord_def RotWord_def Rcon_def)
qed

lemma length_RoundKey [len_simps]: "length key = 16 \<Longrightarrow> length (RoundKey key r) = 16"
  by (simp add: RoundKey_def len_simps)

lemma next_key_words:
  assumes "length a = 4" "length b = 4" "length c = 4" "length d = 4" "round < 12"
  shows "next_key (a @ b @ c @ d) round =
    (let a' = xor_bytes a (xor_bytes (SubWord (RotWord d)) [rcon_table ! round, 0, 0, 0]);
         b' = xor_bytes b a'; c' = xor_bytes c b'; d' = xor_bytes d c'
     in a' @ b' @ c' @ d')"
proof -
  obtain a0 a1 a2 a3 where a: "a = [a0, a1, a2, a3]"
    using assms(1) by (auto simp: eval_nat_numeral length_Suc_conv)
  obtain b0 b1 b2 b3 where b: "b = [b0, b1, b2, b3]"
    using assms(2) by (auto simp: eval_nat_numeral length_Suc_conv)
  obtain c0 c1 c2 c3 where c: "c = [c0, c1, c2, c3]"
    using assms(3) by (auto simp: eval_nat_numeral length_Suc_conv)
  obtain d0 d1 d2 d3 where d: "d = [d0, d1, d2, d3]"
    using assms(4) by (auto simp: eval_nat_numeral length_Suc_conv)
  show ?thesis
    unfolding a b c d next_key_def
    by (simp add: xor_32_list buf_put_def SubWord_def RotWord_def Let_def ac_simps)
qed

lemma rcon_eq: "1 \<le> i \<Longrightarrow> i \<le> 10 \<Longrightarrow> [rcon_table ! (i - 1), 0, 0, 0] = Rcon i"
proof -
  assume "1 \<le> i" "i \<le> 10"
  then have "i = 1 \<or> i = 2 \<or> i = 3 \<or> i = 4 \<or> i = 5 \<or> i = 6 \<or> i = 7 \<or> i = 8 \<or> i = 9
      \<or> i = 10" by presburger
  then show ?thesis
    by (elim disjE) (simp_all add: rcon_table_def Rcon_def xtime_def funpow_pred)
qed

lemma next_key_RoundKey:
  assumes "length key = 16" "r < 10"
  shows "next_key (RoundKey key r) r = RoundKey key (r + 1)"
proof -
  have w0: "KeyWord key (4 * (r + 1)) = xor_bytes (KeyWord key (4 * r))
      (xor_bytes (SubWord (RotWord (KeyWord key (4 * r + 3)))) (Rcon (r + 1)))"
    by (subst KeyWord.simps) (simp add: algebra_simps)
  have w: "KeyWord key (4 * (r + 1) + k) = xor_bytes (KeyWord key (4 * r + k)) (KeyWord key (4 * (r + 1) + k - 1))"
    if "k \<in> {1, 2, 3}" for k
  proof -
    from that have "\<not> 4 * (r + 1) + k < 4" "(4 * (r + 1) + k) mod 4 \<noteq> 0"
      "4 * (r + 1) + k - 4 = 4 * r + k" by auto
    then show ?thesis by (subst KeyWord.simps) simp
  qed
  have rc: "[rcon_table ! r, 0, 0, 0] = Rcon (r + 1)"
    using rcon_eq [of "r + 1"] assms(2) by simp
  show ?thesis
    unfolding RoundKey_def
    by (subst next_key_words) (use assms w0 w [of 1] w [of 2] w [of 3] in
        \<open>simp_all add: len_simps rc Let_def\<close>)
qed

lemma RoundKey_0: "length key = 16 \<Longrightarrow> RoundKey key 0 = key"
proof -
  assume len: "length key = 16"
  have w: "KeyWord key i = buf_get (4 * i) 4 key" if "i < 4" for i
    using that by (subst KeyWord.simps) simp
  have "RoundKey key 0 = buf_get 0 4 key @ buf_get 4 4 key @ buf_get 8 4 key @ buf_get 12 4 key"
    by (simp add: RoundKey_def w)
  also have "\<dots> = buf_get 0 16 key"
    using buf_get_append [of 8 4 key 4] buf_get_append [of 4 4 key 8] buf_get_append [of 0 4 key 12]
    by simp
  finally show ?thesis using len by (simp add: buf_get_def)
qed

lemma fips_rounds_Suc:
  "1 \<le> n \<Longrightarrow> fips_rounds (Suc n) key s
     = AddRoundKey (MixColumns (ShiftRows (SubBytes (fips_rounds n key s)))) (RoundKey key n)"
  by (simp add: fips_rounds_def)

lemma length_fips_rounds [len_simps]:
  assumes "length key = 16" "length s = 16" shows "length (fips_rounds n key s) = 16"
proof (induction n)
  case (Suc n)
  then show ?case
    using assms by (cases "1 \<le> n") (simp_all add: fips_rounds_Suc len_simps, simp add: fips_rounds_def)
qed (simp add: fips_rounds_def assms)

lemma aes_round_first: "length k = 16 \<Longrightarrow> length data = 16 \<Longrightarrow>
    aes_round 0 data (k, z) = (next_key k 0, AddRoundKey data k)"
  by (simp add: aes_round_def AddRoundKey_def xor_128_eq xor_bytes_commute)

lemma aes_round_mid: "length k = 16 \<Longrightarrow> length s = 16 \<Longrightarrow> r \<noteq> 0 \<Longrightarrow> r \<noteq> 10 \<Longrightarrow>
    aes_round r data (k, s) = (next_key k r, AddRoundKey (MixColumns (ShiftRows (SubBytes s))) k)"
  by (simp add: aes_round_def Let_def byte_sub_eq shift_row_eq AddRoundKey_def
      MixColumns_list [symmetric] xor_128_eq len_simps)

lemma aes_round_last: "length k = 16 \<Longrightarrow> length s = 16 \<Longrightarrow>
    aes_round 10 data (k, s) = (k, AddRoundKey (ShiftRows (SubBytes s)) k)"
  by (simp add: aes_round_def Let_def byte_sub_eq shift_row_eq AddRoundKey_def xor_128_eq len_simps)

lemma aes_rounds:
  assumes "length key = 16" "length data = 16" "n < 10"
  shows "foldl (\<lambda>s round. aes_round round data s) (key, z) [0..<Suc n]
    = (RoundKey key (n + 1), fips_rounds (n + 1) key (AddRoundKey data (RoundKey key 0)))"
  using assms(3)
proof (induction n)
  case 0
  show ?case
    using assms next_key_RoundKey [of key 0] RoundKey_0 [OF assms(1)]
    by (simp add: aes_round_first fips_rounds_def)
next
  case (Suc n)
  let ?s = "fips_rounds (n + 1) key (AddRoundKey data (RoundKey key 0))"
  have len: "length ?s = 16" using assms by (simp add: len_simps)
  from Suc have "foldl (\<lambda>s round. aes_round round data s) (key, z) [0..<Suc (Suc n)]
      = aes_round (Suc n) data (RoundKey key (n + 1), ?s)" by simp
  with Suc.prems assms(1) show ?case
    using next_key_RoundKey [OF assms(1), of "Suc n"] aes_round_mid [OF length_RoundKey len, of key "Suc n"]
    by (simp add: fips_rounds_Suc)
qed

text \<open>C11. The block cipher of the driver, with its key schedule in place and its shift-based column
  mixing, is AES-128 as FIPS-197 specifies it, for every key and block.\<close>

theorem aes128k128d_fips197:
  assumes "length key = 16" "length data = 16"
  shows "aes128k128d key data = fips197_cipher key data"
proof -
  let ?s = "fips_rounds 10 key (AddRoundKey data (RoundKey key 0))"
  have len: "length ?s = 16" using assms by (simp add: len_simps)
  have "[0..<11] = [0..<Suc 9] @ [10]" by (simp add: upt_rec)
  then have "aes128k128d key data = snd (aes_round 10 data (RoundKey key 10, ?s))"
    using aes_rounds [OF assms, of 9 "replicate 16 0"] assms(1)
    by (simp only: aes128k128d_def foldl_append) simp
  then show ?thesis
    using aes_round_last [OF length_RoundKey len] assms(1) by (simp add: fips197_cipher_def)
qed

theorem aes128k128d_fips197_witness:
  "aes128k128d (replicate 16 1) (replicate 16 2) = fips197_cipher (replicate 16 1) (replicate 16 2)"
  by (rule aes128k128d_fips197) simp_all

section \<open>The S-boxes\<close>

text \<open>Multiplication in GF(2^8), the affine map of FIPS-197 and the table of inverses.\<close>

fun gmul_bits :: "nat \<Rightarrow> u8 \<Rightarrow> u8 \<Rightarrow> u8" where
  "gmul_bits 0 a b = 0"
| "gmul_bits (Suc n) a b = (if odd b then a else 0) XOR gmul_bits n (xtime a) (drop_bit 1 b)"

definition gmul :: "u8 \<Rightarrow> u8 \<Rightarrow> u8" where "gmul a b = gmul_bits 8 a b"

definition rot8 :: "u8 \<Rightarrow> u8" where "rot8 x = push_bit 1 x OR drop_bit 7 x"

definition sbox_affine :: "u8 \<Rightarrow> u8" where
  "sbox_affine x =
     (let a = rot8 x; b = rot8 a; c = rot8 b; d = rot8 c in x XOR a XOR b XOR c XOR d XOR 0x63)"

definition gf_inv0 :: bytes where
  "gf_inv0 = [
    0x00, 0x01, 0x8d, 0xf6, 0xcb, 0x52, 0x7b, 0xd1, 0xe8, 0x4f, 0x29, 0xc0, 0xb0, 0xe1, 0xe5, 0xc7,
    0x74, 0xb4, 0xaa, 0x4b, 0x99, 0x2b, 0x60, 0x5f, 0x58, 0x3f, 0xfd, 0xcc, 0xff, 0x40, 0xee, 0xb2,
    0x3a, 0x6e, 0x5a, 0xf1, 0x55, 0x4d, 0xa8, 0xc9, 0xc1, 0x0a, 0x98, 0x15, 0x30, 0x44, 0xa2, 0xc2,
    0x2c, 0x45, 0x92, 0x6c, 0xf3, 0x39, 0x66, 0x42, 0xf2, 0x35, 0x20, 0x6f, 0x77, 0xbb, 0x59, 0x19]"

definition gf_inv1 :: bytes where
  "gf_inv1 = [
    0x1d, 0xfe, 0x37, 0x67, 0x2d, 0x31, 0xf5, 0x69, 0xa7, 0x64, 0xab, 0x13, 0x54, 0x25, 0xe9, 0x09,
    0xed, 0x5c, 0x05, 0xca, 0x4c, 0x24, 0x87, 0xbf, 0x18, 0x3e, 0x22, 0xf0, 0x51, 0xec, 0x61, 0x17,
    0x16, 0x5e, 0xaf, 0xd3, 0x49, 0xa6, 0x36, 0x43, 0xf4, 0x47, 0x91, 0xdf, 0x33, 0x93, 0x21, 0x3b,
    0x79, 0xb7, 0x97, 0x85, 0x10, 0xb5, 0xba, 0x3c, 0xb6, 0x70, 0xd0, 0x06, 0xa1, 0xfa, 0x81, 0x82]"

definition gf_inv2 :: bytes where
  "gf_inv2 = [
    0x83, 0x7e, 0x7f, 0x80, 0x96, 0x73, 0xbe, 0x56, 0x9b, 0x9e, 0x95, 0xd9, 0xf7, 0x02, 0xb9, 0xa4,
    0xde, 0x6a, 0x32, 0x6d, 0xd8, 0x8a, 0x84, 0x72, 0x2a, 0x14, 0x9f, 0x88, 0xf9, 0xdc, 0x89, 0x9a,
    0xfb, 0x7c, 0x2e, 0xc3, 0x8f, 0xb8, 0x65, 0x48, 0x26, 0xc8, 0x12, 0x4a, 0xce, 0xe7, 0xd2, 0x62,
    0x0c, 0xe0, 0x1f, 0xef, 0x11, 0x75, 0x78, 0x71, 0xa5, 0x8e, 0x76, 0x3d, 0xbd, 0xbc, 0x86, 0x57]"

definition gf_inv3 :: bytes where
  "gf_inv3 = [
    0x0b, 0x28, 0x2f, 0xa3, 0xda, 0xd4, 0xe4, 0x0f, 0xa9, 0x27, 0x53, 0x04, 0x1b, 0xfc, 0xac, 0xe6,
    0x7a, 0x07, 0xae, 0x63, 0xc5, 0xdb, 0xe2, 0xea, 0x94, 0x8b, 0xc4, 0xd5, 0x9d, 0xf8, 0x90, 0x6b,
    0xb1, 0x0d, 0xd6, 0xeb, 0xc6, 0x0e, 0xcf, 0xad, 0x08, 0x4e, 0xd7, 0xe3, 0x5d, 0x50, 0x1e, 0xb3,
    0x5b, 0x23, 0x38, 0x34, 0x68, 0x46, 0x03, 0x8c, 0xdd, 0x9c, 0x7d, 0xa0, 0xcd, 0x1a, 0x41, 0x1c]"

definition gf_inverses :: bytes where
  "gf_inverses = gf_inv0 @ gf_inv1 @ gf_inv2 @ gf_inv3"

lemma gmul_bits_pred:
  "gmul_bits (numeral n) a b = (if odd b then a else 0) XOR gmul_bits (pred_numeral n) (xtime a) (drop_bit 1 b)"
  by (simp add: numeral_eq_Suc)

lemma all_byte_list: "map word_of_nat [0..<256] ! unat b = (b :: u8)"
proof -
  have "unat b < 256" using unsigned_less [of b] by simp
  then show ?thesis by simp
qed

lemma inverses_mult0: "map2 gmul (map word_of_nat [0..<64]) gf_inv0 = 0 # replicate 63 1"
  by (simp add: upt_rec gf_inv0_def gmul_def gmul_bits_pred xtime_def replicate_pred)

lemma inverses_mult1: "map2 gmul (map word_of_nat [64..<128]) gf_inv1 = replicate 64 1"
  by (simp add: upt_rec gf_inv1_def gmul_def gmul_bits_pred xtime_def replicate_pred)

lemma inverses_mult2: "map2 gmul (map word_of_nat [128..<192]) gf_inv2 = replicate 64 1"
  by (simp add: upt_rec gf_inv2_def gmul_def gmul_bits_pred xtime_def replicate_pred)

lemma inverses_mult3: "map2 gmul (map word_of_nat [192..<256]) gf_inv3 = replicate 64 1"
  by (simp add: upt_rec gf_inv3_def gmul_def gmul_bits_pred xtime_def replicate_pred)

lemma length_gf_inv0: "length gf_inv0 = 64"
  by (simp add: gf_inv0_def)

lemma length_gf_inv1: "length gf_inv1 = 64"
  by (simp add: gf_inv1_def)

lemma length_gf_inv2: "length gf_inv2 = 64"
  by (simp add: gf_inv2_def)

lemma length_gf_inv3: "length gf_inv3 = 64"
  by (simp add: gf_inv3_def)

lemmas gf_inv_length = length_gf_inv0 length_gf_inv1 length_gf_inv2 length_gf_inv3

lemma inverses_mult:
  "map2 gmul (map word_of_nat [0..<256]) gf_inverses = 0 # replicate 255 1"
proof -
  have upt: "[0..<256] = [0..<64] @ [64..<128] @ [128..<192] @ [192..<256]"
    using upt_add_eq_append [of 0 192 64] upt_add_eq_append [of 0 128 64]
      upt_add_eq_append [of 0 64 64] by (simp del: upt_Suc)
  have rep: "(0 :: u8) # replicate 255 1
      = (0 # replicate 63 1) @ replicate 64 1 @ replicate 64 1 @ replicate 64 1"
    by (simp flip: replicate_add)
  show ?thesis
    unfolding upt gf_inverses_def rep map_append
    by (simp only: zip_append length_map length_upt gf_inv_length map_append
        inverses_mult0 inverses_mult1 inverses_mult2 inverses_mult3)
qed

lemma inverses_affine: "map sbox_affine gf_inverses = sbox_table"
  by (simp add: gf_inverses_def gf_inv0_def gf_inv1_def gf_inv2_def gf_inv3_def sbox_table_def
      sbox_affine_def Let_def rot8_def)

lemma tkip_sbox_aes: "Sbox1_0 = map (\<lambda>s. Mk16 (xtime s) (gmul3 s)) sbox_table"
  by (simp add: Sbox1_0_def sbox_table_def Mk16_def xtime_def gmul3_def)

lemma tkip_sbox_swapped: "Sbox1_1 = map (\<lambda>s. Mk16 (gmul3 s) (xtime s)) sbox_table"
  by (simp add: Sbox1_1_def sbox_table_def Mk16_def xtime_def gmul3_def)

lemma length_gf_inverses: "length gf_inverses = 256"
  by (simp add: gf_inverses_def gf_inv_length)

text \<open>The S-box of the driver's AES is the affine image of the inverse in GF(2^8), and the two
  halves of the TKIP S-box are the products of it by x and x + 1 packed in a word, the second half
  with the bytes exchanged.\<close>

theorem sbox_tables_correct:
  "\<exists>c. gmul b c = of_bool (b \<noteq> 0) \<and> (c = 0) = (b = 0) \<and> sbox b = sbox_affine c
     \<and> Sbox1_0 ! unat b = Mk16 (xtime (sbox b)) (gmul3 (sbox b))
     \<and> Sbox1_1 ! unat b = Mk16 (gmul3 (sbox b)) (xtime (sbox b))"
proof -
  let ?c = "gf_inverses ! unat b"
  have lt: "unat b < 256" using unsigned_less [of b] by simp
  have len: "length sbox_table = 256"
    by (simp add: inverses_affine [symmetric] length_gf_inverses)
  have "gmul b ?c = (0 # replicate 255 1) ! unat b"
    using arg_cong [OF inverses_mult, of "\<lambda>l. l ! unat b"] lt all_byte_list [of b]
    by (simp add: length_gf_inverses)
  also have "\<dots> = of_bool (b \<noteq> 0)"
    using lt by (cases "unat b") (auto simp: unat_eq_0 simp flip: word_unat_eq_iff)
  finally have mul: "gmul b ?c = of_bool (b \<noteq> 0)" .
  have zero: "gmul b 0 = 0" by (simp add: gmul_def gmul_bits_pred)
  have "gf_inverses ! 0 = 0" by (simp add: gf_inverses_def gf_inv0_def)
  with mul zero have "(?c = 0) = (b = 0)" by (cases "b = 0") auto
  moreover have "sbox b = sbox_affine ?c"
    using arg_cong [OF inverses_affine, of "\<lambda>l. l ! unat b"] lt
    by (simp add: sbox_def length_gf_inverses)
  ultimately show ?thesis
    using mul lt len by (intro exI [of _ ?c]) (simp add: tkip_sbox_aes tkip_sbox_swapped sbox_def)
qed

end
