(* ===== verification/Ccmp.thy ===== *)
theory Ccmp
  imports Aes
begin

text \<open>
  Software CCMP in \<^verbatim>\<open>core/rtw_security.c\<close>: the construction of the CCM blocks from a frame
  header, \<^verbatim>\<open>aes_cipher\<close> and \<^verbatim>\<open>aes_decipher\<close>, and the functions over transmit and
  received frames. The counter mode and the CBC-MAC are related to their block-wise definitions through the
  interface of a block cipher, and sealing and opening are inverse to each other.
\<close>

section \<open>The blocks of CCM\<close>

definition GetFrameType :: "bytes \<Rightarrow> u16" where
  "GetFrameType p = get_le16 (p ! 0) (p ! 1) AND 0x0C"

definition GetFrameSubType :: "bytes \<Rightarrow> u16" where
  "GetFrameSubType p = get_le16 (p ! 0) (p ! 1) AND 0xFC"

definition WLAN_HDR_A3_LEN :: nat where "WLAN_HDR_A3_LEN = 24"
definition WLAN_HDR_A3_QOS_LEN :: nat where "WLAN_HDR_A3_QOS_LEN = 26"

definition WIFI_DATA_CFACK :: u16 where "WIFI_DATA_CFACK = 0x18"
definition WIFI_DATA_CFPOLL :: u16 where "WIFI_DATA_CFPOLL = 0x28"
definition WIFI_DATA_CFACKPOLL :: u16 where "WIFI_DATA_CFACKPOLL = 0x38"

text \<open>The statements of \<^verbatim>\<open>aes_cipher\<close> and \<^verbatim>\<open>aes_decipher\<close> that set
  \<open>a4_exists\<close>, \<open>qc_exists\<close> and correct \<open>hdrlen\<close>.\<close>

definition ccmp_a4 :: "nat \<Rightarrow> bool" where
  "ccmp_a4 hdl = (\<not> (hdl = WLAN_HDR_A3_LEN \<or> hdl = WLAN_HDR_A3_QOS_LEN))"

definition ccmp_qc :: "bytes \<Rightarrow> bool" where
  "ccmp_qc pframe =
     (let frtype = GetFrameType pframe; frsubtype = drop_bit 4 (GetFrameSubType pframe)
      in if frtype = WIFI_DATA_CFACK \<or> frtype = WIFI_DATA_CFPOLL \<or> frtype = WIFI_DATA_CFACKPOLL
         then True
         else frsubtype = 0x08 \<or> frsubtype = 0x09 \<or> frsubtype = 0x0a \<or> frsubtype = 0x0b)"

definition ccmp_hdrlen :: "nat \<Rightarrow> bytes \<Rightarrow> nat" where
  "ccmp_hdrlen hdl pframe =
     (if ccmp_qc pframe \<and> hdl \<noteq> WLAN_HDR_A3_QOS_LEN then hdl + 2 else hdl)"

definition ccmp_pn_vector :: "nat \<Rightarrow> bytes \<Rightarrow> bytes" where
  "ccmp_pn_vector hdl p =
     [p ! hdl, p ! (hdl + 1), p ! (hdl + 4), p ! (hdl + 5), p ! (hdl + 6), p ! (hdl + 7)]"

text \<open>\<^verbatim>\<open>CONSISTENT_PN_ORDER\<close> is not defined: the packet number goes in from byte 5 down.\<close>

definition construct_mic_iv :: "bool \<Rightarrow> bool \<Rightarrow> bytes \<Rightarrow> nat \<Rightarrow> bytes \<Rightarrow> bytes" where
  "construct_mic_iv qc_exists a4_exists mpdu payload_length pn =
     [0x59,
      if qc_exists \<and> a4_exists then mpdu ! 30 AND 0x0f
      else if qc_exists \<and> \<not> a4_exists then mpdu ! 24 AND 0x0f else 0]
     @ map (\<lambda>i. mpdu ! (i + 8)) [2..<8] @ map (\<lambda>i. pn ! (13 - i)) [8..<14]
     @ [of_nat (payload_length div 256), of_nat (payload_length mod 256)]"

definition construct_mic_header1 :: "nat \<Rightarrow> bytes \<Rightarrow> bytes" where
  "construct_mic_header1 header_length mpdu =
     [of_nat ((header_length - 2) div 256), of_nat ((header_length - 2) mod 256),
      mpdu ! 0 AND 0xcf, mpdu ! 1 AND 0xc7] @ map (\<lambda>i. mpdu ! i) [4..<16]"

definition construct_mic_header2 :: "bytes \<Rightarrow> bool \<Rightarrow> bool \<Rightarrow> bytes" where
  "construct_mic_header2 mpdu a4_exists qc_exists =
     map (\<lambda>i. mpdu ! i) [16..<22] @ [0, 0] @
     (if \<not> qc_exists \<and> a4_exists then map (\<lambda>i. mpdu ! (24 + i)) [0..<6] @ [0, 0]
      else if qc_exists \<and> \<not> a4_exists then [mpdu ! 24 AND 0x0f, mpdu ! 25 AND 0x00] @ replicate 6 0
      else if qc_exists \<and> a4_exists
      then map (\<lambda>i. mpdu ! (24 + i)) [0..<6] @ [mpdu ! 30 AND 0x0f, mpdu ! 31 AND 0x00]
      else replicate 8 0)"

definition construct_ctr_preload :: "bool \<Rightarrow> bool \<Rightarrow> bytes \<Rightarrow> bytes \<Rightarrow> nat \<Rightarrow> bytes" where
  "construct_ctr_preload a4_exists qc_exists mpdu pn c =
     [0x01,
      if qc_exists \<and> a4_exists then mpdu ! 30 AND 0x0f
      else if qc_exists \<and> \<not> a4_exists then mpdu ! 24 AND 0x0f else 0]
     @ map (\<lambda>i. mpdu ! (i + 8)) [2..<8] @ map (\<lambda>i. pn ! (13 - i)) [8..<14]
     @ [of_nat (c div 256), of_nat (c mod 256)]"

definition bitwise_xor :: "bytes \<Rightarrow> bytes \<Rightarrow> bytes" where
  "bitwise_xor ina inb = map (\<lambda>i. ina ! i XOR inb ! i) [0..<16]"

section \<open>Integrity value and counter mode\<close>

text \<open>The loop over the whole blocks of the payload: \<open>n\<close> blocks from \<open>payload_index\<close>.\<close>

fun mic_blocks :: "bytes \<Rightarrow> bytes \<Rightarrow> nat \<Rightarrow> nat \<Rightarrow> bytes \<Rightarrow> bytes" where
  "mic_blocks key p payload_index 0 aes_out = aes_out"
| "mic_blocks key p payload_index (Suc n) aes_out =
     mic_blocks key p (payload_index + 16) n
       (aes128k128d key (bitwise_xor aes_out (drop payload_index p)))"

definition ccmp_calc_mic ::
    "bytes \<Rightarrow> bytes \<Rightarrow> bytes \<Rightarrow> bytes \<Rightarrow> bytes \<Rightarrow> nat \<Rightarrow> nat \<Rightarrow> bytes" where
  "ccmp_calc_mic key mic_iv mic_header1 mic_header2 p payload_index plen =
     (let payload_remainder = plen mod 16; num_blocks = plen div 16;
          aes_out = aes128k128d key mic_iv;
          aes_out = aes128k128d key (bitwise_xor aes_out mic_header1);
          aes_out = aes128k128d key (bitwise_xor aes_out mic_header2);
          aes_out = mic_blocks key p payload_index num_blocks aes_out;
          aes_out = (if payload_remainder > 0 then
              let padded_buffer = buf_get (payload_index + 16 * num_blocks) payload_remainder p
                    @ replicate (16 - payload_remainder) 0
              in aes128k128d key (bitwise_xor aes_out padded_buffer)
            else aes_out)
      in take 8 aes_out)"

text \<open>Counter mode in place, \<open>n\<close> blocks from \<open>payload_index\<close> with counters from \<open>i + 1\<close>.\<close>

fun ctr_blocks ::
    "bytes \<Rightarrow> bool \<Rightarrow> bool \<Rightarrow> bytes \<Rightarrow> nat \<Rightarrow> nat \<Rightarrow> nat \<Rightarrow> bytes \<Rightarrow> bytes" where
  "ctr_blocks key a4 qc pn payload_index i 0 p = p"
| "ctr_blocks key a4 qc pn payload_index i (Suc n) p =
     (let aes_out = aes128k128d key (construct_ctr_preload a4 qc p pn (i + 1));
          chain_buffer = bitwise_xor aes_out (drop payload_index p)
      in ctr_blocks key a4 qc pn (payload_index + 16) (i + 1) n (buf_put payload_index chain_buffer p))"

definition ccmp_crypt_payload ::
    "bytes \<Rightarrow> bool \<Rightarrow> bool \<Rightarrow> bytes \<Rightarrow> nat \<Rightarrow> nat \<Rightarrow> bytes \<Rightarrow> bytes" where
  "ccmp_crypt_payload key a4 qc pn hdl plen p =
     (let num_blocks = plen div 16; payload_remainder = plen mod 16;
          p = ctr_blocks key a4 qc pn (hdl + 8) 0 num_blocks p;
          payload_index = hdl + 8 + 16 * num_blocks
      in if payload_remainder > 0 then
           let padded_buffer = buf_get payload_index payload_remainder p
                 @ replicate (16 - payload_remainder) 0;
               aes_out = aes128k128d key (construct_ctr_preload a4 qc p pn (num_blocks + 1));
               chain_buffer = bitwise_xor aes_out padded_buffer
           in buf_put payload_index (take payload_remainder chain_buffer) p
         else p)"

definition ccmp_encrypt_mic ::
    "bytes \<Rightarrow> bool \<Rightarrow> bool \<Rightarrow> bytes \<Rightarrow> nat \<Rightarrow> nat \<Rightarrow> bytes \<Rightarrow> bytes" where
  "ccmp_encrypt_mic key a4 qc pn hdl plen p =
     (let padded_buffer = buf_get (hdl + 8 + plen) 8 p @ replicate 8 0;
          aes_out = aes128k128d key (construct_ctr_preload a4 qc p pn 0);
          chain_buffer = bitwise_xor aes_out padded_buffer
      in buf_put (hdl + 8 + plen) (take 8 chain_buffer) p)"

text \<open>From the MIC blocks to the encrypted MIC: the statements \<^verbatim>\<open>aes_cipher\<close> runs on the
  frame and \<^verbatim>\<open>aes_decipher\<close> runs on its copy of the decrypted frame.\<close>

definition ccmp_seal :: "bytes \<Rightarrow> bool \<Rightarrow> bool \<Rightarrow> nat \<Rightarrow> nat \<Rightarrow> bytes \<Rightarrow> bytes" where
  "ccmp_seal key a4 qc hdl plen p =
     (let pn = ccmp_pn_vector hdl p;
          mic_iv = construct_mic_iv qc a4 p plen pn;
          mic_header1 = construct_mic_header1 hdl p;
          mic_header2 = construct_mic_header2 p a4 qc;
          mic = ccmp_calc_mic key mic_iv mic_header1 mic_header2 p (hdl + 8) plen;
          p = buf_put (hdl + 8 + plen) mic p;
          p = ccmp_crypt_payload key a4 qc pn hdl plen p
      in ccmp_encrypt_mic key a4 qc pn hdl plen p)"

text \<open>\<open>plen\<close> is the length of the plain payload. The headers are read up to byte 31, which lies in the
  frame as soon as the header has its 24 bytes.\<close>

definition aes_cipher :: "bytes \<Rightarrow> nat \<Rightarrow> bytes \<Rightarrow> nat \<Rightarrow> bytes option" where
  "aes_cipher key hdl p plen =
     (let hl = ccmp_hdrlen hdl p
      in if hl + 8 + plen + 8 \<le> length p \<and> 32 \<le> length p
         then Some (ccmp_seal key (ccmp_a4 hdl) (ccmp_qc p) hl plen p) else None)"

definition MAX_MSG_SIZE :: nat where "MAX_MSG_SIZE = 2048"

text \<open>\<open>message\<close> is the static buffer of \<^verbatim>\<open>aes_decipher\<close>, \<open>plen\<close> the length of payload
  and MIC. A frame that does not fit the buffer is not copied to it, but the MIC is still computed over the
  same offsets of the buffer, past its end; a \<open>plen\<close> below 8 makes the block count huge.\<close>

definition aes_decipher ::
    "bytes \<Rightarrow> nat \<Rightarrow> bytes \<Rightarrow> nat \<Rightarrow> bytes \<Rightarrow> (rtw_status \<times> bytes \<times> bytes) option" where
  "aes_decipher key hdl p plen message =
     (let hl = ccmp_hdrlen hdl p; a4 = ccmp_a4 hdl; qc = ccmp_qc p; n = plen - 8
      in if 8 \<le> plen \<and> hl + 8 + plen \<le> length p \<and> 32 \<le> length p \<and> hl + plen + 8 \<le> MAX_MSG_SIZE then
           let pn = ccmp_pn_vector hdl p;
               p = ccmp_crypt_payload key a4 qc pn hl n p;
               message = buf_put 0 (take (hl + plen + 8) p) message;
               message = ccmp_seal key a4 qc hl n message;
               res = (if buf_get (hl + 8 + n) 8 p \<noteq> buf_get (hl + 8 + n) 8 message
                      then RTW_FAIL else RTW_SUCCESS)
           in Some (res, p, message)
         else None)"

section \<open>CCM over a block cipher\<close>

text \<open>Counter mode: block \<open>k\<close> of the data is combined with the encryption of counter block
  \<open>k + 1\<close>.\<close>

function ctr_mode :: "(bytes \<Rightarrow> bytes) \<Rightarrow> (nat \<Rightarrow> bytes) \<Rightarrow> nat \<Rightarrow> bytes \<Rightarrow> bytes" where
  "ctr_mode enc blk i xs =
     (if xs = [] then []
      else xor_bytes (enc (blk (i + 1))) (take 16 xs) @ ctr_mode enc blk (i + 1) (drop 16 xs))"
  by pat_completeness auto
termination by (relation "measure (\<lambda>(_, _, _, xs). length xs)") auto

declare ctr_mode.simps [simp del]

text \<open>CBC-MAC, with the last block padded by zeros.\<close>

function cbc_mac :: "(bytes \<Rightarrow> bytes) \<Rightarrow> bytes \<Rightarrow> bytes \<Rightarrow> bytes" where
  "cbc_mac enc out xs =
     (if xs = [] then out
      else cbc_mac enc (enc (xor_bytes out (take 16 xs @ replicate (16 - length xs) 0))) (drop 16 xs))"
  by pat_completeness auto
termination by (relation "measure (\<lambda>(_, _, xs). length xs)") auto

declare cbc_mac.simps [simp del]

definition ccm_mic :: "(bytes \<Rightarrow> bytes) \<Rightarrow> bytes \<Rightarrow> bytes \<Rightarrow> bytes \<Rightarrow> bytes" where
  "ccm_mic enc b0 aad xs = take 8 (cbc_mac enc (enc b0) (aad @ xs))"

definition ccm_encrypt ::
    "(bytes \<Rightarrow> bytes) \<Rightarrow> bytes \<Rightarrow> (nat \<Rightarrow> bytes) \<Rightarrow> bytes \<Rightarrow> bytes \<Rightarrow> bytes \<times> bytes" where
  "ccm_encrypt enc b0 blk aad xs =
     (ctr_mode enc blk 0 xs, xor_bytes (take 8 (enc (blk 0))) (ccm_mic enc b0 aad xs))"

text \<open>The plain data of a sealed message, and whether it is accepted.\<close>

definition ccm_decrypt ::
    "(bytes \<Rightarrow> bytes) \<Rightarrow> bytes \<Rightarrow> (nat \<Rightarrow> bytes) \<Rightarrow> bytes \<Rightarrow> bytes \<times> bytes \<Rightarrow> bytes \<times> bool" where
  "ccm_decrypt enc b0 blk aad = (\<lambda>(c, t).
     let xs = ctr_mode enc blk 0 c
     in (xs, t = xor_bytes (take 8 (enc (blk 0))) (ccm_mic enc b0 aad xs)))"

text \<open>What counter mode and CBC-MAC need of the cipher is that it returns blocks of 16 bytes.\<close>

locale block_cipher =
  fixes enc :: "bytes \<Rightarrow> bytes"
  assumes enc_length: "length (enc b) = 16"
begin

lemma ctr_mode_length: "length (ctr_mode enc blk i xs) = length xs"
proof (induction xs arbitrary: i rule: length_induct)
  case (1 xs)
  then show ?case
    by (cases "xs = []") (subst ctr_mode.simps, auto simp: len_simps enc_length)+
qed

lemma ctr_mode_involution: "ctr_mode enc blk i (ctr_mode enc blk i xs) = xs"
proof (induction xs arbitrary: i rule: length_induct)
  case (1 xs)
  show ?case
  proof (cases "xs = []")
    case True
    then show ?thesis by (simp add: ctr_mode.simps)
  next
    case False
    let ?b = "xor_bytes (enc (blk (i + 1))) (take 16 xs)"
    let ?r = "ctr_mode enc blk (i + 1) (drop 16 xs)"
    have step: "ctr_mode enc blk i xs = ?b @ ?r"
      using False by (subst ctr_mode.simps) simp
    have len: "length ?b = min 16 (length xs)" by (simp add: len_simps enc_length)
    have full: "length ?b < 16 \<Longrightarrow> ?r = []" using len by (simp add: ctr_mode.simps)
    have cut: "take 16 (?b @ ?r) = ?b" "drop 16 (?b @ ?r) = ?r"
      using len full by (cases "length ?b < 16"; simp)+
    have "?b \<noteq> []" using len False by (metis length_0_conv min_def zero_neq_numeral)
    then have ne: "?b @ ?r \<noteq> []" by simp
    have "ctr_mode enc blk i (?b @ ?r)
        = xor_bytes (enc (blk (i + 1))) ?b @ ctr_mode enc blk (i + 1) ?r"
      by (subst ctr_mode.simps) (simp only: ne cut if_False)
    also have "xor_bytes (enc (blk (i + 1))) ?b = take 16 xs"
      by (rule xor_bytes_cancel) (simp add: enc_length)
    also have "ctr_mode enc blk (i + 1) ?r = drop 16 xs"
      using "1.IH" False by simp
    finally show ?thesis unfolding step by simp
  qed
qed

lemma ctr_mode_whole:
  "length xs = 16 \<Longrightarrow>
   ctr_mode enc blk i (xs @ ys) = xor_bytes (enc (blk (i + 1))) xs @ ctr_mode enc blk (i + 1) ys"
  by (subst ctr_mode.simps) auto

text \<open>Opening what was sealed gives the data back and accepts it.\<close>

lemma ccm_decrypt_encrypt:
  "ccm_decrypt enc b0 blk aad (ccm_encrypt enc b0 blk aad xs) = (xs, True)"
  by (simp add: ccm_decrypt_def ccm_encrypt_def ctr_mode_involution Let_def)

lemma cbc_mac_length: "length out = 16 \<Longrightarrow> length (cbc_mac enc out xs) = 16"
proof (induction xs arbitrary: out rule: length_induct)
  case (1 xs)
  then show ?case
    by (cases "xs = []") (subst cbc_mac.simps, auto simp: enc_length)+
qed

lemma cbc_mac_whole:
  "length xs = 16 \<Longrightarrow> cbc_mac enc out (xs @ ys) = cbc_mac enc (enc (xor_bytes out xs)) ys"
  by (subst cbc_mac.simps) auto

lemma ccm_mic_length: "length (ccm_mic enc b0 aad xs) = 8"
  by (simp add: ccm_mic_def cbc_mac_length enc_length)

end

lemma length_aes128k128d: "length (aes128k128d key data) = 16"
proof -
  have "[0..<11] = [0..<10] @ [10]" by (simp add: upt_rec)
  then show ?thesis
    by (simp add: aes128k128d_def aes_round_def split_beta Let_def len_simps)
qed

interpretation aes: block_cipher "aes128k128d key" for key
  by unfold_locales (rule length_aes128k128d)

section \<open>The code computes CCM\<close>

lemma bitwise_xor_eq:
  "length a = 16 \<Longrightarrow> 16 \<le> length b \<Longrightarrow> bitwise_xor a b = xor_bytes a (take 16 b)"
  by (rule nth_equalityI) (simp_all add: bitwise_xor_def nth_xor_bytes len_simps)

lemma length_bitwise_xor [len_simps]: "length (bitwise_xor a b) = 16"
  by (simp add: bitwise_xor_def)

lemma preload_header:
  assumes "take 32 p = take 32 q" "32 \<le> length p" "32 \<le> length q"
  shows "construct_ctr_preload a4 qc p pn c = construct_ctr_preload a4 qc q pn c"
proof -
  have "p ! i = q ! i" if "i < 32" for i
    using that assms by (metis nth_take)
  then show ?thesis by (simp add: construct_ctr_preload_def)
qed

lemma ctr_blocks_ctr_mode:
  assumes "32 \<le> idx" "idx + 16 * n \<le> length p"
  shows "ctr_blocks key a4 qc pn idx i n p = buf_put idx
    (ctr_mode (aes128k128d key) (construct_ctr_preload a4 qc p pn) i (buf_get idx (16 * n) p)) p"
  using assms
proof (induction n arbitrary: idx i p)
  case 0
  then show ?case by (simp add: ctr_mode.simps buf_get_def buf_put_def)
next
  case (Suc n)
  let ?blk = "construct_ctr_preload a4 qc p pn"
  let ?c = "xor_bytes (aes128k128d key (?blk (i + 1))) (buf_get idx 16 p)"
  let ?p = "buf_put idx ?c p"
  let ?r = "ctr_mode (aes128k128d key) ?blk (i + 1) (buf_get (idx + 16) (16 * n) p)"
  have lc: "length ?c = 16" using Suc.prems by (simp add: len_simps aes.enc_length)
  have c: "bitwise_xor (aes128k128d key (?blk (i + 1))) (drop idx p) = ?c"
    using Suc.prems by (simp add: bitwise_xor_eq aes.enc_length buf_get_def)
  have lp: "length ?p = length p" using Suc.prems lc by (simp add: len_simps)
  have blk: "construct_ctr_preload a4 qc ?p pn = ?blk"
    by (rule ext, rule preload_header) (use Suc.prems lc lp in \<open>simp_all add: buf_simps\<close>)
  have get: "buf_get (idx + 16) (16 * n) ?p = buf_get (idx + 16) (16 * n) p"
    using Suc.prems lc by (simp add: buf_simps)
  have "ctr_blocks key a4 qc pn idx i (Suc n) p = ctr_blocks key a4 qc pn (idx + 16) (i + 1) n ?p"
    by (simp only: ctr_blocks.simps Let_def c)
  also have "\<dots> = buf_put (idx + 16) ?r ?p"
    by (subst Suc.IH) (use Suc.prems lp in \<open>simp_all only: blk get, simp_all\<close>)
  also have "\<dots> = buf_put idx (?c @ ?r) p"
    using buf_put_append [of idx ?c ?r p] Suc.prems lc
    by (simp add: aes.ctr_mode_length len_simps)
  also have "?c @ ?r = ctr_mode (aes128k128d key) ?blk i (buf_get idx (16 * Suc n) p)"
    using aes.ctr_mode_whole [of "buf_get idx 16 p" key ?blk i "buf_get (idx + 16) (16 * n) p"]
      Suc.prems by (simp add: buf_get_append len_simps)
  finally show ?case .
qed

lemma drop_whole_blocks: "buf_get idx n p = buf_get idx (16 * (n div 16)) p
    @ buf_get (idx + 16 * (n div 16)) (n mod 16) p"
  by (simp add: buf_get_append)

lemma ctr_mode_append:
  "length xs = 16 * n \<Longrightarrow> ctr_mode (aes128k128d key) blk i (xs @ ys)
     = ctr_mode (aes128k128d key) blk i xs @ ctr_mode (aes128k128d key) blk (i + n) ys"
proof (induction n arbitrary: xs i)
  case 0
  then show ?case by (simp add: ctr_mode.simps [of _ _ _ "[]"])
next
  case (Suc n)
  define a b where "a = take 16 xs" and "b = drop 16 xs"
  then have xs: "xs = a @ b" "length a = 16" "length b = 16 * n" using Suc.prems by auto
  show ?case
    unfolding xs(1) append_assoc aes.ctr_mode_whole [OF xs(2)]
    using Suc.IH [OF xs(3), of "i + 1"] by simp
qed

lemma crypt_payload_ctr_mode:
  assumes "24 \<le> hl" "hl + 8 + n \<le> length p"
  shows "ccmp_crypt_payload key a4 qc pn hl n p = buf_put (hl + 8)
    (ctr_mode (aes128k128d key) (construct_ctr_preload a4 qc p pn) 0 (buf_get (hl + 8) n p)) p"
proof -
  let ?q = "n div 16" and ?r = "n mod 16"
  let ?E = "aes128k128d key" and ?blk = "construct_ctr_preload a4 qc p pn"
  let ?x = "buf_get (hl + 8) (16 * ?q) p" and ?y = "buf_get (hl + 8 + 16 * ?q) ?r p"
  have nr: "16 * ?q + ?r = n" by simp
  let ?c = "ctr_mode ?E ?blk 0 ?x"
  let ?p = "buf_put (hl + 8) ?c p"
  have lens: "length ?x = 16 * ?q" "length ?y = ?r" "length ?c = 16 * ?q"
    using assms(2) nr by (simp_all add: len_simps aes.ctr_mode_length)
  have p: "ctr_blocks key a4 qc pn (hl + 8) 0 ?q p = ?p"
    using assms nr by (subst ctr_blocks_ctr_mode) auto
  have lp: "length ?p = length p" using assms(2) nr lens by (simp add: len_simps)
  have blk: "construct_ctr_preload a4 qc ?p pn = ?blk"
    by (rule ext, rule preload_header) (use assms lens lp in \<open>simp_all add: buf_simps\<close>)
  have y: "buf_get (hl + 8 + 16 * ?q) ?r ?p = ?y"
    using assms(2) nr lens by (simp add: buf_simps)
  have whole: "ctr_mode ?E ?blk 0 (buf_get (hl + 8) n p) = ?c @ ctr_mode ?E ?blk ?q ?y"
    using drop_whole_blocks [of "hl + 8" n p] ctr_mode_append [OF lens(1), of key ?blk 0 ?y] by simp
  show ?thesis
  proof (cases "?r = 0")
    case True
    then have "?y = []" by (simp add: buf_get_def)
    with True show ?thesis
      by (simp add: ccmp_crypt_payload_def Let_def p whole ctr_mode.simps [of _ _ _ "[]"])
  next
    case False
    let ?pad = "?y @ replicate (16 - ?r) 0"
    have r16: "?r < 16" by simp
    have "take ?r (bitwise_xor (?E (?blk (?q + 1))) ?pad) = xor_bytes (?E (?blk (?q + 1))) ?y"
      using lens(2) r16
      by (intro nth_equalityI)
         (simp_all add: bitwise_xor_def nth_xor_bytes len_simps aes.enc_length nth_append)
    also have "\<dots> = ctr_mode ?E ?blk ?q ?y"
      using False lens(2) r16 by (subst ctr_mode.simps)
        (auto simp: ctr_mode.simps [of _ _ _ "[]"])
    finally have last: "take ?r (bitwise_xor (?E (?blk (?q + 1))) ?pad) = ctr_mode ?E ?blk ?q ?y" .
    have "ccmp_crypt_payload key a4 qc pn hl n p
        = buf_put (hl + 8 + 16 * ?q) (ctr_mode ?E ?blk ?q ?y) ?p"
      using False last by (simp add: ccmp_crypt_payload_def Let_def p y blk)
    also have "\<dots> = buf_put (hl + 8) (?c @ ctr_mode ?E ?blk ?q ?y) p"
      using buf_put_append [of "hl + 8" ?c "ctr_mode ?E ?blk ?q ?y" p] assms(2) nr lens
      by (simp add: aes.ctr_mode_length)
    finally show ?thesis by (simp add: whole)
  qed
qed

lemma mic_blocks_cbc:
  "length out = 16 \<Longrightarrow> idx + 16 * n \<le> length p \<Longrightarrow>
   mic_blocks key p idx n out = cbc_mac (aes128k128d key) out (buf_get idx (16 * n) p)"
proof (induction n arbitrary: idx out)
  case 0
  then show ?case by (simp add: cbc_mac.simps buf_get_def)
next
  case (Suc n)
  have x: "bitwise_xor out (drop idx p) = xor_bytes out (buf_get idx 16 p)"
    using Suc.prems by (simp add: bitwise_xor_eq buf_get_def)
  have "buf_get idx (16 * Suc n) p = buf_get idx 16 p @ buf_get (idx + 16) (16 * n) p"
    by (simp add: buf_get_append)
  then show ?case
    using Suc.IH [of "aes128k128d key (xor_bytes out (buf_get idx 16 p))" "idx + 16"] Suc.prems
    by (simp add: x aes.cbc_mac_whole aes.enc_length len_simps)
qed

lemma cbc_mac_append:
  "length xs = 16 * n \<Longrightarrow> cbc_mac (aes128k128d key) out (xs @ ys)
     = cbc_mac (aes128k128d key) (cbc_mac (aes128k128d key) out xs) ys"
proof (induction n arbitrary: xs out)
  case 0
  then show ?case by (simp add: cbc_mac.simps [of _ _ "[]"])
next
  case (Suc n)
  define a b where "a = take 16 xs" and "b = drop 16 xs"
  then have xs: "xs = a @ b" "length a = 16" "length b = 16 * n" using Suc.prems by auto
  show ?case
    unfolding xs(1) append_assoc aes.cbc_mac_whole [OF xs(2)] Suc.IH [OF xs(3)] ..
qed

lemma calc_mic_ccm:
  assumes "idx + n \<le> length p" "length h1 = 16" "length h2 = 16"
  shows "ccmp_calc_mic key iv h1 h2 p idx n = ccm_mic (aes128k128d key) iv (h1 @ h2) (buf_get idx n p)"
proof -
  let ?q = "n div 16" and ?r = "n mod 16" and ?E = "aes128k128d key"
  let ?x = "buf_get idx (16 * ?q) p" and ?y = "buf_get (idx + 16 * ?q) ?r p"
  have nr: "16 * ?q + ?r = n" by simp
  have lens: "length ?x = 16 * ?q" "length ?y = ?r" using assms(1) nr by (simp_all add: len_simps)
  let ?o = "?E (xor_bytes (?E (xor_bytes (?E iv) h1)) h2)"
  let ?m = "cbc_mac ?E ?o ?x"
  have mac: "cbc_mac ?E (?E iv) ((h1 @ h2) @ buf_get idx n p) = cbc_mac ?E ?m ?y"
    using drop_whole_blocks [of idx n p] cbc_mac_append [OF lens(1), of key ?o ?y]
    by (simp add: aes.cbc_mac_whole assms)
  have blocks: "mic_blocks key p idx ?q ?o = ?m"
    using assms(1) nr by (intro mic_blocks_cbc) (auto simp: aes.enc_length)
  have x: "bitwise_xor (?E z) h1 = xor_bytes (?E z) h1" "bitwise_xor (?E z) h2 = xor_bytes (?E z) h2"
    for z using assms by (simp_all add: bitwise_xor_eq aes.enc_length)
  show ?thesis
  proof (cases "?r = 0")
    case True
    then have "?y = []" by (simp add: buf_get_def)
    with True show ?thesis
      by (simp add: ccmp_calc_mic_def ccm_mic_def Let_def x blocks mac [simplified] cbc_mac.simps [of _ _ "[]"])
  next
    case False
    have r16: "?r < 16" by simp
    have lm: "length ?m = 16" by (simp add: aes.cbc_mac_length aes.enc_length)
    have "bitwise_xor ?m (?y @ replicate (16 - ?r) 0) = xor_bytes ?m (?y @ replicate (16 - ?r) 0)"
      using lens(2) r16 lm by (simp add: bitwise_xor_eq)
    moreover have "cbc_mac ?E ?m ?y = ?E (xor_bytes ?m (?y @ replicate (16 - ?r) 0))"
      using False lens(2) r16 by (subst cbc_mac.simps) (auto simp: cbc_mac.simps [of _ _ "[]"])
    ultimately show ?thesis
      using False by (simp add: ccmp_calc_mic_def ccm_mic_def Let_def x blocks mac [simplified])
  qed
qed

text \<open>The CCM parameters that a header determines.\<close>

definition ccmp_b0 :: "bool \<Rightarrow> bool \<Rightarrow> nat \<Rightarrow> nat \<Rightarrow> bytes \<Rightarrow> bytes" where
  "ccmp_b0 a4 qc hdl n p = construct_mic_iv qc a4 p n (ccmp_pn_vector hdl p)"

definition ccmp_aad :: "bool \<Rightarrow> bool \<Rightarrow> nat \<Rightarrow> bytes \<Rightarrow> bytes" where
  "ccmp_aad a4 qc hdl p = construct_mic_header1 hdl p @ construct_mic_header2 p a4 qc"

definition ccmp_ctr :: "bool \<Rightarrow> bool \<Rightarrow> nat \<Rightarrow> bytes \<Rightarrow> nat \<Rightarrow> bytes" where
  "ccmp_ctr a4 qc hdl p = construct_ctr_preload a4 qc p (ccmp_pn_vector hdl p)"

lemma construct_lengths [len_simps]:
  "length (construct_mic_iv qc a4 p n pn) = 16"
  "length (construct_mic_header1 hl p) = 16"
  "length (construct_mic_header2 p a4 qc) = 16"
  "length (construct_ctr_preload a4 qc p pn c) = 16"
  by (simp_all add: construct_mic_iv_def construct_mic_header1_def construct_mic_header2_def
      construct_ctr_preload_def)

lemma ccmp_seal_ccm:
  assumes "24 \<le> hl" "hl + 8 + n + 8 \<le> length p"
  shows "ccmp_seal key a4 qc hl n p = buf_put (hl + 8)
    (let (c, t) = ccm_encrypt (aes128k128d key) (ccmp_b0 a4 qc hl n p) (ccmp_ctr a4 qc hl p)
                    (ccmp_aad a4 qc hl p) (buf_get (hl + 8) n p) in c @ t) p"
proof -
  let ?E = "aes128k128d key" and ?pn = "ccmp_pn_vector hl p"
  let ?x = "buf_get (hl + 8) n p" and ?blk = "ccmp_ctr a4 qc hl p"
  let ?mic = "ccm_mic ?E (ccmp_b0 a4 qc hl n p) (ccmp_aad a4 qc hl p) ?x"
  let ?c = "ctr_mode ?E ?blk 0 ?x" and ?t = "xor_bytes (take 8 (?E (?blk 0))) ?mic"
  have lx: "length ?x = n" using assms by (simp add: len_simps)
  have lm: "length ?mic = 8" by (rule aes.ccm_mic_length)
  have lc: "length ?c = n" by (simp add: aes.ctr_mode_length lx)
  have lt: "length ?t = 8" by (simp add: len_simps aes.enc_length lm)
  have mic: "ccmp_calc_mic key (construct_mic_iv qc a4 p n ?pn) (construct_mic_header1 hl p)
      (construct_mic_header2 p a4 qc) p (hl + 8) n = ?mic"
    using assms by (subst calc_mic_ccm) (simp_all add: len_simps ccmp_b0_def ccmp_aad_def)
  let ?p1 = "buf_put (hl + 8 + n) ?mic p"
  let ?p2 = "buf_put (hl + 8) ?c ?p1"
  have l1: "length ?p1 = length p" and l2: "length ?p2 = length p"
    using assms lm lc by (simp_all add: len_simps)
  have same: "construct_ctr_preload a4 qc q ?pn = ?blk"
    if "take 32 q = take 32 p" "length q = length p" for q
    unfolding ccmp_ctr_def by (rule ext, rule preload_header) (use assms that in simp_all)
  have blk: "construct_ctr_preload a4 qc ?p1 ?pn = ?blk" "construct_ctr_preload a4 qc ?p2 ?pn = ?blk"
    by (rule same, use assms lm lc l1 l2 in \<open>simp_all add: buf_simps\<close>)+
  have p2: "ccmp_crypt_payload key a4 qc ?pn hl n ?p1 = ?p2"
    using assms l1 lm by (subst crypt_payload_ctr_mode) (simp_all add: blk buf_simps)
  have get: "buf_get (hl + 8 + n) 8 ?p2 = ?mic"
    using assms lm lc l1 by (simp add: buf_simps)
  have "take 8 (bitwise_xor (?E (?blk 0)) (?mic @ replicate 8 0)) = ?t"
    using lm by (intro nth_equalityI)
      (simp_all add: bitwise_xor_def nth_xor_bytes len_simps aes.enc_length nth_append)
  then have "ccmp_encrypt_mic key a4 qc ?pn hl n ?p2 = buf_put (hl + 8 + n) ?t ?p2"
    by (simp add: ccmp_encrypt_mic_def Let_def get blk)
  also have "\<dots> = buf_put (hl + 8) (?c @ ?t) ?p1"
    using buf_put_append [of "hl + 8" ?c ?t ?p1] assms lc lt l1 by simp
  also have "\<dots> = buf_put (hl + 8) (?c @ ?t) p"
    using assms lc lt lm l1
    by (intro nth_equalityI) (auto simp: len_simps nth_buf_put)
  finally show ?thesis
    unfolding ccmp_seal_def Let_def mic p2 by (simp add: ccm_encrypt_def)
qed

section \<open>Sealing and opening frames\<close>

text \<open>What the header of a frame needs for the code to treat it like the standard: 24 bytes, and no
  correction of \<open>hdrlen\<close>, which the code applies to QoS frames whose header is not 26 bytes long.\<close>

definition ccmp_header_ok :: "nat \<Rightarrow> bytes \<Rightarrow> bool" where
  "ccmp_header_ok hdl p \<longleftrightarrow> 24 \<le> hdl \<and> ccmp_hdrlen hdl p = hdl"

definition ccmp_params ::
    "nat \<Rightarrow> nat \<Rightarrow> bytes \<Rightarrow> bytes \<times> (nat \<Rightarrow> bytes) \<times> bytes" where
  "ccmp_params hdl n p = (ccmp_b0 (ccmp_a4 hdl) (ccmp_qc p) hdl n p,
     ccmp_ctr (ccmp_a4 hdl) (ccmp_qc p) hdl p, ccmp_aad (ccmp_a4 hdl) (ccmp_qc p) hdl p)"

text \<open>The parameters depend on the header and the IV only.\<close>

lemma ccmp_params_header:
  assumes "take (hdl + 8) p = take (hdl + 8) q" "24 \<le> hdl" "hdl + 8 \<le> length p" "hdl + 8 \<le> length q"
  shows "ccmp_params hdl n p = ccmp_params hdl n q" "ccmp_qc p = ccmp_qc q"
    "ccmp_header_ok hdl p = ccmp_header_ok hdl q"
proof -
  have nth: "p ! i = q ! i" if "i < hdl + 8" for i using that assms(1,3,4) by (metis nth_take)
  have n: "p ! i = q ! i" if "i < 32" for i using nth that assms(2) by simp
  show qc: "ccmp_qc p = ccmp_qc q"
    by (simp add: ccmp_qc_def GetFrameType_def GetFrameSubType_def n)
  show "ccmp_header_ok hdl p = ccmp_header_ok hdl q"
    by (simp add: ccmp_header_ok_def ccmp_hdrlen_def qc)
  have pn: "ccmp_pn_vector hdl p = ccmp_pn_vector hdl q"
    by (simp add: ccmp_pn_vector_def nth)
  have "construct_ctr_preload a4 c p v = construct_ctr_preload a4 c q v" for a4 c v
    by (rule ext) (simp add: construct_ctr_preload_def n)
  then show "ccmp_params hdl n p = ccmp_params hdl n q"
    by (simp add: ccmp_params_def qc ccmp_b0_def ccmp_aad_def ccmp_ctr_def pn construct_mic_iv_def
        construct_mic_header1_def construct_mic_header2_def n)
qed

lemma aes_cipher_ccm:
  assumes "ccmp_header_ok hdl p" "hdl + 8 + n + 8 \<le> length p"
  shows "aes_cipher key hdl p n = Some (buf_put (hdl + 8)
     (let (b0, blk, aad) = ccmp_params hdl n p;
          (c, t) = ccm_encrypt (aes128k128d key) b0 blk aad (buf_get (hdl + 8) n p) in c @ t) p)"
  using assms by (simp add: aes_cipher_def ccmp_header_ok_def ccmp_seal_ccm ccmp_params_def Let_def)

lemma buf_put_prefix: "off \<le> length p \<Longrightarrow> m \<le> off \<Longrightarrow> take m (buf_put off bs p) = take m p"
  by (simp add: buf_put_def)

lemma aes_decipher_ccm:
  assumes "ccmp_header_ok hdl f" "length f = hdl + 8 + n + 8" "length f \<le> MAX_MSG_SIZE"
    and "length message = MAX_MSG_SIZE"
  shows "\<exists>message'. length message' = MAX_MSG_SIZE \<and> aes_decipher key hdl f (n + 8) message =
    (let (b0, blk, aad) = ccmp_params hdl n f;
         (x, ok) = ccm_decrypt (aes128k128d key) b0 blk aad
                     (buf_get (hdl + 8) n f, buf_get (hdl + 8 + n) 8 f)
     in Some (if ok then RTW_SUCCESS else RTW_FAIL, buf_put (hdl + 8) x f, message'))"
proof -
  let ?E = "aes128k128d key" and ?a4 = "ccmp_a4 hdl" and ?qc = "ccmp_qc f"
  let ?pn = "ccmp_pn_vector hdl f" and ?blk = "ccmp_ctr (ccmp_a4 hdl) (ccmp_qc f) hdl f"
  let ?x = "ctr_mode ?E ?blk 0 (buf_get (hdl + 8) n f)"
  let ?p = "buf_put (hdl + 8) ?x f"
  let ?m = "buf_put 0 ?p message"
  from assms(1) have hl: "24 \<le> hdl" "ccmp_hdrlen hdl f = hdl" by (auto simp: ccmp_header_ok_def)
  have lx: "length ?x = n" using assms(2) by (simp add: aes.ctr_mode_length len_simps)
  have lp: "length ?p = length f" using assms(2) lx by (simp add: len_simps)
  have p: "ccmp_crypt_payload key ?a4 ?qc ?pn hdl n f = ?p"
    using assms(2) hl by (subst crypt_payload_ctr_mode) (simp_all add: ccmp_ctr_def)
  have lm: "length ?m = MAX_MSG_SIZE" using assms(3,4) lp by (simp add: len_simps)
  have mp: "take (length f) ?m = ?p" by (simp add: buf_put_def [of 0] flip: lp)
  have getm: "buf_get o' k ?m = buf_get o' k ?p" if "o' + k \<le> length f" for o' k
  proof -
    have "buf_get o' k (take (length f) ?m) = buf_get o' k ?m" using that by (rule buf_get_take)
    then show ?thesis unfolding mp by simp
  qed
  have "take (hdl + 8) ?m = take (hdl + 8) ?p"
    using getm [of 0 "hdl + 8"] assms(2) by (simp add: buf_get_def)
  also have "\<dots> = take (hdl + 8) f" using assms(2) lx by (simp add: buf_simps)
  finally have hdr: "take (hdl + 8) ?m = take (hdl + 8) f" .
  have par: "ccmp_params hdl n ?m = ccmp_params hdl n f" "ccmp_qc ?m = ?qc"
    using ccmp_params_header [OF hdr hl(1)] assms(2,3) lm by simp_all
  obtain b0 blk aad where f: "ccmp_params hdl n f = (b0, blk, aad)" by (cases "ccmp_params hdl n f")
  have fm: "ccmp_b0 ?a4 ?qc hdl n ?m = b0" "ccmp_ctr ?a4 ?qc hdl ?m = blk" "ccmp_aad ?a4 ?qc hdl ?m = aad"
    and blk: "?blk = blk"
    using par f by (simp_all add: ccmp_params_def)
  have xm: "buf_get (hdl + 8) n ?m = ?x"
    using getm [of "hdl + 8" n] assms(2) lx by (simp add: buf_simps)
  let ?t = "xor_bytes (take 8 (?E (blk 0))) (ccm_mic ?E b0 aad ?x)"
  have lt: "length ?t = 8" by (simp add: len_simps aes.enc_length aes.ccm_mic_length)
  define message' where "message' = ccmp_seal key ?a4 ?qc hdl n ?m"
  have m': "message' = buf_put (hdl + 8) (ctr_mode ?E blk 0 ?x @ ?t) ?m"
    unfolding message'_def using hl(1) assms(2,3) lm
    by (subst ccmp_seal_ccm) (simp_all add: fm xm ccm_encrypt_def)
  have lm': "length message' = MAX_MSG_SIZE"
    unfolding m' using assms(2,3) lm lt lx by (simp add: len_simps aes.ctr_mode_length)
  have gt: "buf_get (hdl + 8 + n) 8 message' = ?t"
    unfolding m' using assms(2,3) lm lt lx
    by (simp add: buf_get_def buf_put_def aes.ctr_mode_length)
  have gf: "buf_get (hdl + 8 + n) 8 ?p = buf_get (hdl + 8 + n) 8 f"
    using assms(2) lx by (simp add: buf_simps)
  have "aes_decipher key hdl f (n + 8) message =
      Some (if buf_get (hdl + 8 + n) 8 f = ?t then RTW_SUCCESS else RTW_FAIL, ?p, message')"
    using assms(2,3) hl lp
    by (simp add: aes_decipher_def p Let_def message'_def [symmetric] gt gf)
  then show ?thesis
    using lm' by (intro exI [of _ message']) (simp add: f ccm_decrypt_def blk Let_def)
qed

text \<open>C1. On frames whose header needs no correction, \<^verbatim>\<open>aes_cipher\<close> is CCM encryption and
  \<^verbatim>\<open>aes_decipher\<close> is CCM decryption under the parameters that the header and the IV determine:
  the payload is replaced by its counter-mode image, and the result is \<^verbatim>\<open>_SUCCESS\<close> exactly when
  the received MIC is the one CCM gives for the decrypted payload.\<close>

theorem aes_cipher_decipher_ccm:
  assumes "ccmp_header_ok hdl p" "length p = hdl + 8 + n + 8" "length p \<le> MAX_MSG_SIZE"
    and "length message = MAX_MSG_SIZE" "ccmp_params hdl n p = (b0, blk, aad)"
    and "ccm_encrypt (aes128k128d key) b0 blk aad (buf_get (hdl + 8) n p) = (c, t)"
    and "ccm_decrypt (aes128k128d key) b0 blk aad
           (buf_get (hdl + 8) n p, buf_get (hdl + 8 + n) 8 p) = (x, ok)"
  shows "aes_cipher key hdl p n = Some (buf_put (hdl + 8) (c @ t) p)
    \<and> map_option (\<lambda>(res, f, m). (res, f)) (aes_decipher key hdl p (n + 8) message)
        = Some (if ok then RTW_SUCCESS else RTW_FAIL, buf_put (hdl + 8) x p)"
  using aes_cipher_ccm [OF assms(1), of n key] aes_decipher_ccm [OF assms(1-4), of key] assms
  by (auto simp: Let_def)

definition ccmp_example_frame :: bytes where
  "ccmp_example_frame = replicate 60 7"

lemma ccmp_example_header: "ccmp_header_ok 24 ccmp_example_frame" "length ccmp_example_frame = 60"
  by (simp_all add: ccmp_example_frame_def ccmp_header_ok_def ccmp_hdrlen_def ccmp_qc_def
      GetFrameType_def GetFrameSubType_def get_le16_def WIFI_DATA_CFACK_def WIFI_DATA_CFPOLL_def
      WIFI_DATA_CFACKPOLL_def)

theorem aes_cipher_decipher_ccm_witness:
  "\<exists>c t. aes_cipher (replicate 16 1) 24 ccmp_example_frame 20
           = Some (buf_put 32 (c @ t) ccmp_example_frame) \<and> length c = 20"
proof -
  obtain b0 blk aad where par: "ccmp_params 24 20 ccmp_example_frame = (b0, blk, aad)"
    by (cases "ccmp_params 24 20 ccmp_example_frame")
  obtain c t where ct: "ccm_encrypt (aes128k128d (replicate 16 1)) b0 blk aad
      (buf_get (24 + 8) 20 ccmp_example_frame) = (c, t)" by (meson surj_pair)
  obtain x ok where xo: "ccm_decrypt (aes128k128d (replicate 16 1)) b0 blk aad
      (buf_get (24 + 8) 20 ccmp_example_frame, buf_get (24 + 8 + 20) 8 ccmp_example_frame) = (x, ok)"
    by (meson surj_pair)
  have "length c = 20"
    using ct by (auto simp: ccm_encrypt_def aes.ctr_mode_length len_simps ccmp_example_header)
  moreover have "aes_cipher (replicate 16 1) 24 ccmp_example_frame 20
      = Some (buf_put (24 + 8) (c @ t) ccmp_example_frame)"
    using aes_cipher_decipher_ccm [OF _ _ _ _ par ct xo, of "replicate 2048 0"]
    by (simp add: ccmp_example_header MAX_MSG_SIZE_def)
  ultimately show ?thesis by auto
qed

text \<open>The plain frame, with the encrypted MIC still behind the payload: what the receiver keeps.\<close>

definition ccmp_opened :: "bytes \<Rightarrow> nat \<Rightarrow> bytes \<Rightarrow> bytes" where
  "ccmp_opened key hdl p =
     (let n = length p - (hdl + 16); (b0, blk, aad) = ccmp_params hdl n p
      in buf_put (hdl + 8 + n) (snd (ccm_encrypt (aes128k128d key) b0 blk aad (buf_get (hdl + 8) n p))) p)"

lemma aes_decipher_cipher:
  assumes "aes_cipher key hdl p n = Some f" "length p = hdl + 8 + n + 8" "ccmp_header_ok hdl p"
    and "length p \<le> MAX_MSG_SIZE" "length message = MAX_MSG_SIZE"
  shows "\<exists>message'. aes_decipher key hdl f (n + 8) message
           = Some (RTW_SUCCESS, ccmp_opened key hdl p, message') \<and> length message' = MAX_MSG_SIZE"
proof -
  obtain b0 blk aad where par: "ccmp_params hdl n p = (b0, blk, aad)" by (cases "ccmp_params hdl n p")
  let ?E = "aes128k128d key" and ?x = "buf_get (hdl + 8) n p"
  obtain c t where ct: "ccm_encrypt ?E b0 blk aad ?x = (c, t)" by (cases "ccm_encrypt ?E b0 blk aad ?x")
  have lx: "length ?x = n" using assms(2) by (simp add: len_simps)
  have lc: "length c = n" and lt: "length t = 8"
    using ct lx by (auto simp: ccm_encrypt_def len_simps aes.ctr_mode_length aes.enc_length aes.ccm_mic_length)
  have f: "f = buf_put (hdl + 8) (c @ t) p"
    using assms(1,2) aes_cipher_ccm [OF assms(3), of n key] by (simp add: par ct)
  have lf: "length f = hdl + 8 + n + 8" using assms(2) lc lt by (simp add: f len_simps)
  have hl: "24 \<le> hdl" using assms(3) by (simp add: ccmp_header_ok_def)
  have hdr: "take (hdl + 8) f = take (hdl + 8) p" using assms(2) by (simp add: f buf_simps)
  have ok: "ccmp_header_ok hdl f" and fpar: "ccmp_params hdl n f = (b0, blk, aad)"
    using ccmp_params_header [OF hdr hl] lf assms(2,3) par by simp_all
  have gc: "buf_get (hdl + 8) n f = c" and gt: "buf_get (hdl + 8 + n) 8 f = t"
    unfolding f using assms(2) lc lt by (simp_all add: buf_get_def buf_put_def)
  have dec: "ccm_decrypt ?E b0 blk aad (c, t) = (?x, True)"
    using aes.ccm_decrypt_encrypt [of key b0 blk aad ?x] ct by simp
  obtain message' where m: "length message' = MAX_MSG_SIZE"
    "aes_decipher key hdl f (n + 8) message = Some (RTW_SUCCESS, buf_put (hdl + 8) ?x f, message')"
    using aes_decipher_ccm [OF ok lf _ assms(5), of key] assms(2,4) lf by (auto simp: fpar gc gt dec)
  have "buf_put (hdl + 8) ?x f = ccmp_opened key hdl p"
    unfolding f using assms(2) lx lc lt
    by (intro nth_equalityI)
       (auto simp: ccmp_opened_def par ct len_simps nth_buf_put nth_buf_get nth_append)
  with m show ?thesis by auto
qed

definition rtw_aes_encrypt ::
    "security_priv \<Rightarrow> sta_priv \<Rightarrow> nat \<Rightarrow> xmit_frame \<Rightarrow> (rtw_status \<times> xmit_frame) option" where
  "rtw_aes_encrypt sec stapriv frag_len xf =
     (case buf_addr xf of None \<Rightarrow> Some (RTW_FAIL, xf)
      | Some buf \<Rightarrow>
        let a = attrib xf in
        if encrypt a = AES then
          (case xmit_key sec stapriv a of None \<Rightarrow> None
           | Some (Inl res) \<Rightarrow> Some (res, xf)
           | Some (Inr prwskey) \<Rightarrow>
             (case frag_loop (\<lambda>n p. aes_cipher prwskey (hdrlen a) p n) a frag_len
                     (buf_base xf) 0 TXDESC_OFFSET buf of
                None \<Rightarrow> None
              | Some buf' \<Rightarrow> Some (RTW_SUCCESS, xf\<lparr>buf_addr := Some buf'\<rparr>)))
        else Some (RTW_SUCCESS, xf))"

text \<open>A group-addressed frame has to carry the index of the current group key.\<close>

definition aes_recv_key ::
    "security_priv \<Rightarrow> sta_priv \<Rightarrow> rx_pkt_attrib \<Rightarrow> (rtw_status + bytes) option" where
  "aes_recv_key sec stapriv a =
     (case rtw_get_stainfo stapriv (rx_ta a) of
        None \<Rightarrow> Some (Inl RTW_FAIL)
      | Some i \<Rightarrow>
        if is_multicast_ether_addr (rx_ra a) then
          if \<not> binstallGrpkey sec then Some (Inl RTW_FAIL)
          else if dot118021XGrpKeyid sec \<noteq> rx_key_index a then Some (Inl RTW_FAIL)
          else grp_key sec (rx_key_index a)
        else Some (Inr (dot118021x_UncstKey (sta_buf stapriv ! i))))"

definition rtw_aes_decrypt ::
    "security_priv \<Rightarrow> sta_priv \<Rightarrow> bytes \<Rightarrow> recv_frame \<Rightarrow> (rtw_status \<times> recv_frame \<times> bytes) option" where
  "rtw_aes_decrypt sec stapriv message rf =
     (let a = rx_attrib rf in
      if rx_encrypt a = AES then
        (case aes_recv_key sec stapriv a of None \<Rightarrow> None
         | Some (Inl res) \<Rightarrow> Some (res, rf, message)
         | Some (Inr prwskey) \<Rightarrow>
           if rx_hdrlen a + rx_iv_len a \<le> length (rx_data rf) then
             (case aes_decipher prwskey (rx_hdrlen a) (rx_data rf)
                     (length (rx_data rf) - rx_hdrlen a - rx_iv_len a) message of
                None \<Rightarrow> None
              | Some (res, f, message) \<Rightarrow> Some (res, rf\<lparr>rx_data := f\<rparr>, message))
           else None)
      else Some (RTW_SUCCESS, rf, message))"

lemma ccmp_header_take: "2 \<le> m \<Longrightarrow> ccmp_header_ok hdl (take m p) = ccmp_header_ok hdl p"
  by (simp add: ccmp_header_ok_def ccmp_hdrlen_def ccmp_qc_def GetFrameType_def GetFrameSubType_def)

text \<open>The fragment cipher that CCMP is. What a receiver makes of a fragment is a function of the
  contents of its static buffer.\<close>

interpretation ccmp: frag_cipher
  "\<lambda>n p. aes_cipher key hdl p n"
  "\<lambda>f message. map_option (\<lambda>(res, f, m). (res, f)) (aes_decipher key hdl f (length f - hdl - 8)
      (take MAX_MSG_SIZE (message @ replicate MAX_MSG_SIZE 0)))"
  "\<lambda>p message. Some (RTW_SUCCESS, ccmp_opened key hdl p)"
  "\<lambda>p. ccmp_header_ok hdl p \<and> length p \<le> MAX_MSG_SIZE" "hdl + 8 + 8"
  for key hdl
proof (unfold_locales, goal_cases)
  case (1 n p p')
  let ?m = "n + (hdl + 8 + 8)"
  have ok: "ccmp_header_ok hdl p" using 1(2) by (simp add: ccmp_header_take)
  then have len: "?m \<le> length p"
    using 1(1) by (auto simp: aes_cipher_def ccmp_header_ok_def Let_def split: if_splits)
  define s where "s = (let (b0, blk, aad) = ccmp_params hdl n p;
      (c, t) = ccm_encrypt (aes128k128d key) b0 blk aad (buf_get (hdl + 8) n p) in c @ t)"
  have ls: "length s = n + 8"
    using len by (simp add: s_def split_beta Let_def ccm_encrypt_def aes.ctr_mode_length len_simps
        aes.enc_length aes.ccm_mic_length)
  have p': "p' = buf_put (hdl + 8) s p"
    using 1(1) len aes_cipher_ccm [OF ok, of n key] by (simp add: s_def)
  have hl: "24 \<le> hdl" using ok by (simp add: ccmp_header_ok_def)
  have par: "ccmp_params hdl n (take ?m p) = ccmp_params hdl n p"
    by (rule ccmp_params_header(1)) (use hl len in simp_all)
  have "aes_cipher key hdl (take ?m p) n = Some (buf_put (hdl + 8) s (take ?m p))"
    using aes_cipher_ccm [of hdl "take ?m p" n key] 1(2) len par
    by (simp add: s_def buf_get_take)
  moreover have "p' = buf_put (hdl + 8) s (take ?m p) @ drop ?m p"
    unfolding p' by (rule buf_put_within) (use ls len in simp_all)
  ultimately show ?case using len ls by (simp add: len_simps)
next
  case (2 n p f)
  have n: "length f - hdl - 8 = n + 8"
  proof -
    have "f = buf_put (hdl + 8) (let (b0, blk, aad) = ccmp_params hdl n p;
      (c, t) = ccm_encrypt (aes128k128d key) b0 blk aad (buf_get (hdl + 8) n p) in c @ t) p"
      using 2 aes_cipher_ccm [of hdl p n key] by simp
    then have "length f = length p"
      using 2(2) by (simp add: len_simps split_beta Let_def ccm_encrypt_def aes.ctr_mode_length
          aes.enc_length aes.ccm_mic_length)
    then show ?thesis using 2(2) by simp
  qed
  show ?case
  proof (rule ext)
    fix message :: bytes
    let ?b = "take MAX_MSG_SIZE (message @ replicate MAX_MSG_SIZE 0)"
    have "length ?b = MAX_MSG_SIZE" by simp
    then obtain message' where "aes_decipher key hdl f (n + 8) ?b
        = Some (RTW_SUCCESS, ccmp_opened key hdl p, message')"
      using aes_decipher_cipher [OF 2(1) _ _ _, of ?b] 2(2,3) by (simp only: ac_simps) blast
    then show "map_option (\<lambda>(res, f, m). (res, f)) (aes_decipher key hdl f (length f - hdl - 8) ?b)
        = Some (RTW_SUCCESS, ccmp_opened key hdl p)"
      by (simp only: n) simp
  qed
qed

text \<open>C17. CCMP round trip: when every fragment has a header that needs no correction and fits the
  receiver's buffer, and both sides select the same key, each fragment that
  \<^verbatim>\<open>rtw_aes_encrypt\<close> seals is accepted by \<^verbatim>\<open>rtw_aes_decrypt\<close>, which restores the
  plain payload, whatever the static buffer held before.\<close>

theorem rtw_aes_roundtrip:
  assumes "rtw_aes_encrypt sec stapriv frag_len xf = Some (RTW_SUCCESS, xf')"
    and "buf_addr xf = Some buf" "buf_addr xf' = Some buf'" "attrib xf = a"
    and "encrypt a = AES" "(iv_len a, icv_len a) = SET_ICE_IV_LEN (encrypt a)"
    and "\<And>i. i < nr_frags a \<Longrightarrow>
        ccmp_header_ok (hdrlen a) (buf_get (frag_offset frag_len (buf_base xf) TXDESC_OFFSET i)
          (frag_total a frag_len i) buf) \<and> frag_total a frag_len i \<le> MAX_MSG_SIZE"
    and "j < nr_frags a" "off = frag_offset frag_len (buf_base xf) TXDESC_OFFSET j"
    and "sz = frag_total a frag_len j"
    and "rx_hdrlen r = hdrlen a" "rx_iv_len r = iv_len a" "rx_encrypt r = encrypt a"
    and "xmit_key sec stapriv a = Some (Inr key)" "aes_recv_key sec' stapriv' r = Some (Inr key)"
    and "length message = MAX_MSG_SIZE"
  shows "\<exists>message'. rtw_aes_decrypt sec' stapriv' message \<lparr>rx_attrib = r, rx_data = buf_get off sz buf'\<rparr>
     = Some (RTW_SUCCESS,
         \<lparr>rx_attrib = r, rx_data = ccmp_opened key (hdrlen a) (buf_get off sz buf)\<rparr>, message')"
proof -
  have il: "iv_len a = 8" "icv_len a = 8"
    using assms(5,6) by (auto simp: SET_ICE_IV_LEN_def)
  have loop: "frag_loop (\<lambda>n p. aes_cipher key (hdrlen a) p n) a frag_len (buf_base xf) 0
      TXDESC_OFFSET buf = Some buf'"
    using assms(1-5,14) il by (auto simp: rtw_aes_encrypt_def Let_def split: option.splits)
  have ovh: "hdrlen a + 8 + 8 = hdrlen a + iv_len a + icv_len a" "0 < hdrlen a + 8 + 8"
    using il by simp_all
  have good: "ccmp_header_ok (hdrlen a) (buf_get (frag_offset frag_len (buf_base xf) TXDESC_OFFSET i)
        (frag_total a frag_len i) buf)
      \<and> length (buf_get (frag_offset frag_len (buf_base xf) TXDESC_OFFSET i) (frag_total a frag_len i) buf)
        \<le> MAX_MSG_SIZE" if "i < nr_frags a" for i
    using assms(7) [OF that] by (auto simp: buf_get_def)
  note opens = ccmp.frag_loop_opens [OF loop ovh(2,1) assms(8) good assms(9,10)]
  have sz: "hdrlen a + 8 + 8 \<le> sz" "off + sz \<le> length buf" using opens(2,3) by blast+
  have "length buf' = length buf"
    using ccmp.frag_loop_seals [OF loop ovh(2,1)] good by simp
  with sz have lsz: "length (buf_get off sz buf') = sz" by (simp add: len_simps)
  have msg: "take MAX_MSG_SIZE (message @ replicate MAX_MSG_SIZE 0) = message"
    using assms(16) by simp
  have "map_option (\<lambda>(res, f, m). (res, f)) (aes_decipher key (hdrlen a) (buf_get off sz buf')
      (sz - hdrlen a - 8) message) = Some (RTW_SUCCESS, ccmp_opened key (hdrlen a) (buf_get off sz buf))"
    using fun_cong [OF opens(1), of message] unfolding msg lsz .
  then obtain message' where "aes_decipher key (hdrlen a) (buf_get off sz buf') (sz - hdrlen a - 8) message
      = Some (RTW_SUCCESS, ccmp_opened key (hdrlen a) (buf_get off sz buf), message')" by auto
  then show ?thesis
    using assms(5,11-13,15) il lsz sz(1) by (intro exI [of _ message']) (simp add: rtw_aes_decrypt_def)
qed

definition ccmp_example_attrib :: pkt_attrib where
  "ccmp_example_attrib = tkip_example_attrib\<lparr>encrypt := AES, icv_len := 8, last_txcmdsz := 60\<rparr>"

definition ccmp_example_xmit :: xmit_frame where
  "ccmp_example_xmit =
     \<lparr>attrib = ccmp_example_attrib, buf_addr = Some (replicate 40 0 @ ccmp_example_frame), buf_base = 0\<rparr>"

definition ccmp_example_rx :: rx_pkt_attrib where
  "ccmp_example_rx = tkip_example_rx\<lparr>rx_encrypt := AES\<rparr>"

lemma ccmp_example_keys:
  "xmit_key tkip_example_sec tkip_example_sta ccmp_example_attrib = Some (Inr (replicate 16 3))"
  "aes_recv_key tkip_example_sec tkip_example_sta ccmp_example_rx = Some (Inr (replicate 16 3))"
  by (simp_all add: xmit_key_def aes_recv_key_def ccmp_example_attrib_def tkip_example_attrib_def
      ccmp_example_rx_def tkip_example_rx_def tkip_example_station)
     (simp_all add: tkip_example_sta_def is_multicast_ether_addr_def FW_LINKED_def)

lemma ccmp_example_attribs:
  "encrypt ccmp_example_attrib = AES" "iv_len ccmp_example_attrib = 8" "icv_len ccmp_example_attrib = 8"
  "hdrlen ccmp_example_attrib = 24" "nr_frags ccmp_example_attrib = 1"
  "last_txcmdsz ccmp_example_attrib = 60" "attrib ccmp_example_xmit = ccmp_example_attrib"
  "buf_addr ccmp_example_xmit = Some (replicate 40 0 @ ccmp_example_frame)"
  by (simp_all add: ccmp_example_attrib_def tkip_example_attrib_def ccmp_example_xmit_def)

lemma ccmp_example_sealed:
  "\<exists>buf'. rtw_aes_encrypt tkip_example_sec tkip_example_sta 100 ccmp_example_xmit
          = Some (RTW_SUCCESS, ccmp_example_xmit\<lparr>buf_addr := Some buf'\<rparr>)"
proof -
  obtain f where "aes_cipher (replicate 16 3) 24 ccmp_example_frame 20 = Some f"
    using aes_cipher_ccm [of 24 ccmp_example_frame 20 "replicate 16 3"] ccmp_example_header by simp
  then show ?thesis
    by (simp add: rtw_aes_encrypt_def ccmp_example_keys ccmp_example_attribs Let_def frag_loop.simps
        frag_payload_def TXDESC_OFFSET_def) (rule exI, rule refl)
qed

theorem rtw_aes_roundtrip_witness:
  "\<exists>buf' message'. rtw_aes_encrypt tkip_example_sec tkip_example_sta 100 ccmp_example_xmit
          = Some (RTW_SUCCESS, ccmp_example_xmit\<lparr>buf_addr := Some buf'\<rparr>)
     \<and> rtw_aes_decrypt tkip_example_sec tkip_example_sta (replicate 2048 0)
          \<lparr>rx_attrib = ccmp_example_rx, rx_data = buf_get 40 60 buf'\<rparr>
       = Some (RTW_SUCCESS, \<lparr>rx_attrib = ccmp_example_rx,
             rx_data = ccmp_opened (replicate 16 3) 24 ccmp_example_frame\<rparr>, message')"
proof -
  obtain buf' where b: "rtw_aes_encrypt tkip_example_sec tkip_example_sta 100 ccmp_example_xmit
      = Some (RTW_SUCCESS, ccmp_example_xmit\<lparr>buf_addr := Some buf'\<rparr>)"
    using ccmp_example_sealed by blast
  have off: "(40 :: nat) = frag_offset 100 (buf_base ccmp_example_xmit) TXDESC_OFFSET 0"
    by (simp add: TXDESC_OFFSET_def)
  have sz: "(60 :: nat) = frag_total ccmp_example_attrib 100 0"
    by (simp add: frag_total_def ccmp_example_attribs)
  have get: "buf_get 40 60 (replicate 40 0 @ ccmp_example_frame) = ccmp_example_frame"
    by (simp add: buf_get_def ccmp_example_header)
  have "\<exists>message'. rtw_aes_decrypt tkip_example_sec tkip_example_sta (replicate 2048 0)
          \<lparr>rx_attrib = ccmp_example_rx, rx_data = buf_get 40 60 buf'\<rparr>
       = Some (RTW_SUCCESS, \<lparr>rx_attrib = ccmp_example_rx,
             rx_data = ccmp_opened (replicate 16 3) (hdrlen ccmp_example_attrib)
               (buf_get 40 60 (replicate 40 0 @ ccmp_example_frame))\<rparr>, message')"
    by (rule rtw_aes_roundtrip [OF b _ _ _ _ _ _ _ off sz _ _ _ ccmp_example_keys])
       (use ccmp_example_header get in \<open>auto simp: ccmp_example_attribs SET_ICE_IV_LEN_def
         TXDESC_OFFSET_def frag_total_def MAX_MSG_SIZE_def ccmp_example_rx_def tkip_example_rx_def\<close>)
  with b show ?thesis by (auto simp: get ccmp_example_attribs)
qed

end
