(* ===== verification/RxFrame.thy ===== *)
theory RxFrame
  imports Prelude Sta Frame Michael
begin

text \<open>
  The received frame of \<^verbatim>\<open>include/rtw_recv.h\<close> with the operations that move its data and tail pointers,
  and the two conversions of \<^verbatim>\<open>core/rtw_recv.c\<close> that turn an 802.11 frame into Ethernet frames:
  \<^verbatim>\<open>wlanhdr_to_ethhdr\<close> for an ordinary frame, \<^verbatim>\<open>amsdu_to_msdu\<close> for an aggregate.

  The memory of a frame from \<^verbatim>\<open>rx_head\<close> to \<^verbatim>\<open>rx_end\<close> is a list of bytes and \<^verbatim>\<open>rx_data\<close>,
  \<^verbatim>\<open>rx_tail\<close> are offsets into it; \<open>fr_id\<close> names the frame, for the ownership of frames.
\<close>

section \<open>Frames\<close>

record rx_full_attrib = rx_pkt_attrib +
  rx_icv_len :: nat
  rx_seq_num :: u16
  rx_frag_num :: u8
  rx_mfrag :: u8
  rx_priority :: u8
  rx_privacy :: u8
  rx_bdecrypted :: u8
  rx_amsdu :: u8
  rx_qos :: u8
  rx_ack_policy :: u8
  rx_eth_type :: u16
  rx_dst :: bytes
  rx_src :: bytes

record recv_frame_hdr =
  fr_id :: nat
  fr_attrib :: rx_full_attrib
  rx_mem :: bytes
  rx_data_off :: nat
  rx_tail_off :: nat
  fr_len :: nat

text \<open>What the accessors keep: the pointers stay in order inside the memory and \<open>len\<close> is their distance.\<close>

definition wf_frame :: "recv_frame_hdr \<Rightarrow> bool" where
  "wf_frame f \<longleftrightarrow> rx_data_off f \<le> rx_tail_off f \<and> rx_tail_off f \<le> length (rx_mem f)
     \<and> fr_len f = rx_tail_off f - rx_data_off f"

definition frame_data :: "recv_frame_hdr \<Rightarrow> bytes" where
  "frame_data f = buf_get (rx_data_off f) (fr_len f) (rx_mem f)"

text \<open>The view the ciphers have of a frame: its attributes and the memory from \<^verbatim>\<open>rx_data\<close> on, \<open>len\<close> bytes.\<close>

definition cipher_view :: "recv_frame_hdr \<Rightarrow> recv_frame" where
  "cipher_view f = \<lparr>rx_attrib = rx_pkt_attrib.truncate (fr_attrib f), rx_data = frame_data f\<rparr>"

text \<open>The pointer moves; the flag is false where the C function returns \<^verbatim>\<open>NULL\<close> and has moved nothing.\<close>

definition recvframe_pull :: "recv_frame_hdr \<Rightarrow> int \<Rightarrow> bool \<times> recv_frame_hdr" where
  "recvframe_pull f sz =
     (if int (rx_data_off f) + sz > int (rx_tail_off f) then (False, f)
      else (True, f\<lparr>rx_data_off := nat (int (rx_data_off f) + sz), fr_len := nat (int (fr_len f) - sz)\<rparr>))"

definition recvframe_put :: "recv_frame_hdr \<Rightarrow> nat \<Rightarrow> bool \<times> recv_frame_hdr" where
  "recvframe_put f sz =
     (if rx_tail_off f + sz > length (rx_mem f) then (False, f)
      else (True, f\<lparr>rx_tail_off := rx_tail_off f + sz, fr_len := fr_len f + sz\<rparr>))"

definition recvframe_pull_tail :: "recv_frame_hdr \<Rightarrow> nat \<Rightarrow> bool \<times> recv_frame_hdr" where
  "recvframe_pull_tail f sz =
     (if rx_tail_off f < rx_data_off f + sz then (False, f)
      else (True, f\<lparr>rx_tail_off := rx_tail_off f - sz, fr_len := fr_len f - sz\<rparr>))"

named_theorems rxf_simps \<open>the pointer moves of a frame\<close>

lemma recvframe_pull_nat [rxf_simps]:
  "recvframe_pull f (int n) =
     (if rx_tail_off f < rx_data_off f + n then (False, f)
      else (True, f\<lparr>rx_data_off := rx_data_off f + n, fr_len := fr_len f - n\<rparr>))"
  by (auto simp: recvframe_pull_def nat_add_distrib nat_diff_distrib' intro!: recv_frame_hdr.equality)

lemma wf_pull: "wf_frame f \<Longrightarrow> wf_frame (snd (recvframe_pull f (int n)))"
  by (auto simp: wf_frame_def rxf_simps)

lemma wf_put: "wf_frame f \<Longrightarrow> wf_frame (snd (recvframe_put f n))"
  by (auto simp: wf_frame_def recvframe_put_def)

lemma wf_pull_tail: "wf_frame f \<Longrightarrow> wf_frame (snd (recvframe_pull_tail f n))"
  by (auto simp: wf_frame_def recvframe_pull_tail_def)

lemma frame_data_length: "wf_frame f \<Longrightarrow> length (frame_data f) = fr_len f"
  by (auto simp: wf_frame_def frame_data_def len_simps)

lemma frame_data_pull:
  assumes "wf_frame f" "n \<le> fr_len f"
  shows "frame_data (snd (recvframe_pull f (int n))) = drop n (frame_data f)"
  using assms by (auto simp: frame_data_def rxf_simps wf_frame_def buf_get_def drop_take add.commute)

lemma frame_data_pull_tail:
  assumes "wf_frame f" "n \<le> fr_len f"
  shows "frame_data (snd (recvframe_pull_tail f n)) = take (fr_len f - n) (frame_data f)"
  using assms by (auto simp: frame_data_def recvframe_pull_tail_def wf_frame_def buf_get_def min_absorb1)

section \<open>The duplicate filter\<close>

text \<open>\<^verbatim>\<open>recv_decache\<close> compares the sequence control of a frame with the last one of its traffic
  class; \<open>None\<close> for a class outside the cache, which the code rejects with \<^verbatim>\<open>_FAIL\<close>.\<close>

definition seq_ctrl :: "rx_full_attrib \<Rightarrow> u16" where
  "seq_ctrl a = push_bit 4 (rx_seq_num a) OR (ucast (rx_frag_num a) AND 0xf)"

definition recv_decache :: "rx_full_attrib \<Rightarrow> u16 list \<Rightarrow> rtw_status \<times> u16 list" where
  "recv_decache a tid_rxseq =
     (let tid = unat (rx_priority a) in
      if tid > 15 then (RTW_FAIL, tid_rxseq)
      else if seq_ctrl a = tid_rxseq ! tid then (RTW_FAIL, tid_rxseq)
      else (RTW_SUCCESS, tid_rxseq[tid := seq_ctrl a]))"

section \<open>802.11 header to Ethernet header\<close>

definition rtw_rfc1042_header :: bytes where "rtw_rfc1042_header = [0xaa, 0xaa, 0x03, 0, 0, 0]"
definition rtw_bridge_tunnel_header :: bytes where "rtw_bridge_tunnel_header = [0xaa, 0xaa, 0x03, 0, 0, 0xf8]"
definition SNAP_ETH_TYPE_IPX :: bytes where "SNAP_ETH_TYPE_IPX = [0x81, 0x37]"
definition SNAP_ETH_TYPE_APPLETALK_AARP :: bytes where "SNAP_ETH_TYPE_APPLETALK_AARP = [0x80, 0xf3]"
definition SNAP_SIZE :: nat where "SNAP_SIZE = 6"
definition ETH_HLEN :: nat where "ETH_HLEN = 14"
definition ETH_ALEN :: nat where "ETH_ALEN = 6"

text \<open>\<^verbatim>\<open>htons\<close> followed by a store, and its inverse (\<^verbatim>\<open>RTW_GET_BE16\<close>, or a load followed by
  \<^verbatim>\<open>ntohs\<close>).\<close>

definition be16 :: "u16 \<Rightarrow> bytes" where "be16 w = [ucast (drop_bit 8 w), ucast w]"
definition get_be16 :: "u8 \<Rightarrow> u8 \<Rightarrow> u16" where "get_be16 a b = push_bit 8 (ucast a) OR ucast b"

text \<open>Whether the LLC header of a payload is stripped (the IPX and AARP types stay encapsulated).\<close>

definition snap_strip :: "bytes \<Rightarrow> bool" where
  "snap_strip p \<longleftrightarrow>
     (take SNAP_SIZE p = rtw_rfc1042_header \<and> buf_get SNAP_SIZE 2 p \<noteq> SNAP_ETH_TYPE_IPX
       \<and> buf_get SNAP_SIZE 2 p \<noteq> SNAP_ETH_TYPE_APPLETALK_AARP)
     \<or> take SNAP_SIZE p = rtw_bridge_tunnel_header"

text \<open>
  \<^verbatim>\<open>wlanhdr_to_ethhdr\<close> cuts the ICV of a sealed frame and converts the header; \<open>mp\<close> is the
  manufacturing test state, in which the receive status is put in front of the payload. The results of the
  pointer moves are not checked by the code, so a failed \<^verbatim>\<open>recvframe_pull\<close> is a copy to
  address 0, and like every access outside the memory it is \<open>None\<close>.
\<close>

definition eth_convert :: "bool \<Rightarrow> rx_full_attrib \<Rightarrow> recv_frame_hdr \<Rightarrow> recv_frame_hdr option" where
  "eth_convert mp a f =
     (let d = rx_data_off f; hd = rx_hdrlen a + rx_iv_len a;
          psnap = drop (d + hd) (rx_mem f);
          bsnaphdr = snap_strip psnap;
          rmv_len = hd + (if bsnaphdr then SNAP_SIZE else 0);
          len = of_int (int (fr_len f) - int rmv_len) :: u16;
          t = d + rmv_len;
          f = f\<lparr>fr_attrib := a\<lparr>rx_eth_type := get_be16 (rx_mem f ! t) (rx_mem f ! (t + 1))\<rparr>\<rparr>;
          f = (if mp then f\<lparr>rx_mem := buf_put t [0x87, 0x12] (rx_mem f)\<rparr> else f);
          sz = (if mp then int rmv_len - int ETH_HLEN + 2 - 24
                else int rmv_len - int ETH_HLEN + (if bsnaphdr then 2 else 0));
          (ok, f) = recvframe_pull f sz;
          p = rx_data_off f; q = (if mp then p + 24 else p);
          hdr = rx_dst a @ rx_src a @ (if bsnaphdr then [] else be16 len)
      in if length psnap < SNAP_SIZE + 2 \<or> int d + sz < 0 \<or> \<not> ok
           \<or> mp \<and> length (rx_mem f) < p + 24 \<or> length (rx_mem f) < q + length hdr then None
         else Some (f\<lparr>rx_mem := buf_put q hdr
                (if mp then buf_put p (take 24 (rx_mem f)) (rx_mem f) else rx_mem f)\<rparr>))"

definition wlanhdr_to_ethhdr :: "bool \<Rightarrow> recv_frame_hdr \<Rightarrow> recv_frame_hdr option" where
  "wlanhdr_to_ethhdr mp f =
     (let a = fr_attrib f in
      eth_convert mp a
        (if rx_encrypt a \<noteq> NO_PRIVACY then snd (recvframe_pull_tail f (rx_icv_len a)) else f))"

text \<open>
  The Ethernet frame of an 802.2 payload, the reference for both conversions: an RFC 1042 or bridge tunnel
  header is replaced by the type behind it, anything else gets its length as the type field.
\<close>

definition eth_frame :: "bytes \<Rightarrow> bytes \<Rightarrow> bytes \<Rightarrow> bytes" where
  "eth_frame dst src p =
     dst @ src @ (if snap_strip p then drop SNAP_SIZE p else be16 (of_nat (length p)) @ p)"

lemma buf_get_put_around:
  assumes "p + length hdr \<le> length buf" "p + n \<le> length buf" "length hdr \<le> n"
  shows "buf_get p n (buf_put p hdr buf) = hdr @ buf_get (p + length hdr) (n - length hdr) buf"
  using assms
  by (intro nth_equalityI) (auto simp: len_simps nth_buf_get nth_buf_put nth_append)

text \<open>The frame after the ICV is cut, and the payload at its end.\<close>

lemma snap_strip_local: "snap_strip (p @ q) = snap_strip p" if "8 \<le> length p"
  using that by (simp add: snap_strip_def SNAP_SIZE_def buf_get_def)

lemma snap_strip_prefix: "snap_strip p = snap_strip q" if "take 8 p = take 8 q"
proof -
  have "take 6 p = take 6 (take 8 p)" "take 6 q = take 6 (take 8 q)" by simp_all
  moreover have "buf_get 6 2 p = drop 6 (take 8 p)" "buf_get 6 2 q = drop 6 (take 8 q)"
    by (simp_all add: buf_get_def drop_take)
  ultimately show ?thesis using that unfolding snap_strip_def SNAP_SIZE_def by metis
qed

text \<open>The payload of a frame: what is between the header with its IV and the ICV of a sealed frame.\<close>

definition llc_payload :: "recv_frame_hdr \<Rightarrow> bytes" where
  "llc_payload f =
     (let a = fr_attrib f; icv = (if rx_encrypt a \<noteq> NO_PRIVACY then rx_icv_len a else 0) in
      drop (rx_hdrlen a + rx_iv_len a) (take (fr_len f - icv) (frame_data f)))"

lemma eth_convert:
  assumes wf: "wf_frame f" and h: "h = rx_hdrlen a + rx_iv_len a" and n: "n = fr_len f"
    and hd: "14 \<le> h" and p: "h + 8 \<le> n" and addr: "length (rx_dst a) = 6" "length (rx_src a) = 6"
  shows "\<exists>g. eth_convert False a f = Some g \<and> wf_frame g
    \<and> frame_data g = eth_frame (rx_dst a) (rx_src a) (drop h (frame_data f))
    \<and> fr_id g = fr_id f \<and> fr_attrib g = a\<lparr>rx_eth_type := rx_eth_type (fr_attrib g)\<rparr>"
proof -
  define d mem pay where "d = rx_data_off f" and "mem = rx_mem f" and "pay = buf_get (d + h) (n - h) mem"
  have bnd: "d + n \<le> length mem" "rx_tail_off f = d + n" "h + 8 \<le> n"
    using wf p n by (auto simp: wf_frame_def d_def mem_def)
  have strip: "snap_strip (drop (d + h) mem) = snap_strip pay"
    using bnd by (intro snap_strip_prefix) (simp add: pay_def buf_get_def min_absorb1)
  have fd: "drop h (frame_data f) = pay"
    using bnd by (simp add: frame_data_def pay_def buf_get_def d_def n mem_def drop_take add.commute)
  have mlen: "length pay = n - h" using bnd by (simp add: pay_def len_simps)
  have room: "\<not> length mem - (d + h) < 8" using bnd by linarith
  define m where "m = (if snap_strip pay then h - 6 else h - 14)"
  have mi: "int (h + (if snap_strip pay then 6 else 0)) - 14 + (if snap_strip pay then 2 else 0) = int m"
    using hd by (auto simp: m_def)
  have mle: "\<not> d + n < d + m" "m \<le> n" using bnd hd by (auto simp: m_def)
  define hdr where "hdr = rx_dst a @ rx_src a @
    (if snap_strip pay then [] else be16 (of_int (int n - int (h + (if snap_strip pay then 6 else 0)))))"
  define t where "t = d + (h + (if snap_strip pay then 6 else 0))"
  define g where "g = f\<lparr>fr_attrib := a\<lparr>rx_eth_type := get_be16 (mem ! t) (mem ! (t + 1))\<rparr>,
      rx_data_off := d + m, fr_len := n - m, rx_mem := buf_put (d + m) hdr mem\<rparr>"
  have hl: "length hdr = (if snap_strip pay then 12 else 14)" using addr by (simp add: hdr_def be16_def)
  have fits: "\<not> length mem < d + m + length hdr" using bnd hd by (auto simp: hl m_def)
  have len: "of_int (int n - int h) = (of_nat (n - h) :: u16)" using bnd by (simp add: of_nat_diff)
  note defs = d_def[symmetric] n[symmetric] mem_def[symmetric] h[symmetric]
  have "eth_convert False a f = Some g"
    unfolding eth_convert_def Let_def defs strip if_False SNAP_SIZE_def ETH_HLEN_def
      of_nat_numeral mi hdr_def[symmetric] t_def[symmetric] recvframe_pull_nat
    using room mle fits bnd by (simp add: g_def defs)
  moreover have "wf_frame g" using bnd mle fits by (auto simp: wf_frame_def g_def len_simps)
  moreover have "frame_data g = eth_frame (rx_dst a) (rx_src a) pay"
  proof -
    have "frame_data g = hdr @ buf_get (d + m + length hdr) (n - m - length hdr) mem"
      using bnd mle fits hd by (simp add: frame_data_def g_def buf_get_put_around hl m_def)
    moreover have "buf_get (d + m + length hdr) (n - m - length hdr) mem
        = (if snap_strip pay then drop 6 pay else pay)"
      using bnd hd by (auto simp: hl m_def pay_def buf_get_def drop_take add_ac)
    ultimately show ?thesis using mlen len by (simp add: eth_frame_def hdr_def SNAP_SIZE_def)
  qed
  ultimately show ?thesis unfolding fd by (intro exI [of _ g]) (simp add: g_def)
qed

lemma fr_attrib_moves:
  "fr_attrib (snd (recvframe_pull_tail f n)) = fr_attrib f" "fr_attrib (snd (recvframe_pull f k)) = fr_attrib f"
  "fr_id (snd (recvframe_pull_tail f n)) = fr_id f" "fr_id (snd (recvframe_pull f k)) = fr_id f"
  by (auto simp: recvframe_pull_tail_def recvframe_pull_def)

lemma wlanhdr_to_ethhdr_ok:
  assumes wf: "wf_frame f" and a: "a = fr_attrib f"
    and icv: "icv = (if rx_encrypt a \<noteq> NO_PRIVACY then rx_icv_len a else 0)"
    and hd: "14 \<le> rx_hdrlen a" and p: "rx_hdrlen a + rx_iv_len a + 8 + icv \<le> fr_len f"
    and addr: "length (rx_dst a) = 6" "length (rx_src a) = 6"
  shows "\<exists>g. wlanhdr_to_ethhdr False f = Some g \<and> wf_frame g
    \<and> frame_data g = eth_frame (rx_dst a) (rx_src a) (llc_payload f)
    \<and> fr_id g = fr_id f \<and> fr_attrib g = a\<lparr>rx_eth_type := rx_eth_type (fr_attrib g)\<rparr>"
proof -
  define f1 where "f1 = (if rx_encrypt a \<noteq> NO_PRIVACY then snd (recvframe_pull_tail f (rx_icv_len a)) else f)"
  have wf1: "wf_frame f1" using wf by (simp add: f1_def wf_pull_tail)
  have len1: "fr_len f1 = fr_len f - icv"
    using wf p by (auto simp: f1_def icv recvframe_pull_tail_def wf_frame_def)
  have d1: "frame_data f1 = take (fr_len f - icv) (frame_data f)"
    using wf p frame_data_pull_tail [OF wf, of "rx_icv_len a"]
    by (auto simp: f1_def icv frame_data_length)
  have "llc_payload f = drop (rx_hdrlen a + rx_iv_len a) (frame_data f1)"
    by (simp add: llc_payload_def Let_def a[symmetric] icv[symmetric] d1)
  moreover have "fr_id f1 = fr_id f" by (simp add: f1_def fr_attrib_moves)
  moreover have "wlanhdr_to_ethhdr False f = eth_convert False a f1"
    by (simp add: wlanhdr_to_ethhdr_def Let_def a f1_def)
  ultimately show ?thesis
    using eth_convert [OF wf1 refl refl, of a] hd p addr len1 by (simp add: add_ac)
qed

section \<open>Splitting an aggregate\<close>

definition MAX_SUBFRAME_COUNT :: nat where "MAX_SUBFRAME_COUNT = 64"

text \<open>
  The first loop of \<^verbatim>\<open>amsdu_to_msdu\<close>: the payloads of the subframes. \<open>buf\<close> is the memory the
  remaining \<open>a_len\<close> bytes lie in, \<open>nr\<close> the number of subframes found, \<open>skbs\<close> the number of socket
  buffers the kernel still hands out; running out of them ends the loop like the 64th subframe does.
  \<open>None\<close> is the jump to \<open>exit\<close>, which delivers nothing.
\<close>

definition subframe_pad :: "nat \<Rightarrow> nat" where
  "subframe_pad n = (let p = 4 - (n + ETH_HLEN) mod 4 in if p = 4 then 0 else p)"

function amsdu_subframes :: "nat \<Rightarrow> nat \<Rightarrow> bytes \<Rightarrow> bytes list option" where
  "amsdu_subframes skbs nr buf =
     (if length buf \<le> ETH_HLEN then Some []
      else
        let nSubframe_Length = unat (get_be16 (buf ! 12) (buf ! 13)) in
        if length buf < ETH_HLEN + nSubframe_Length then None
        else
          let pdata = drop ETH_HLEN buf; sub = take nSubframe_Length pdata in
          if skbs = 0 then Some []
          else if MAX_SUBFRAME_COUNT \<le> nr + 1 then Some [sub]
          else
            let pdata = drop nSubframe_Length pdata in
            if pdata = [] then Some [sub]
            else if length pdata < subframe_pad nSubframe_Length then None
            else map_option ((#) sub)
                   (amsdu_subframes (skbs - 1) (nr + 1) (drop (subframe_pad nSubframe_Length) pdata)))"
  by pat_completeness auto
termination by (relation "measure (\<lambda>(_, _, buf). length buf)") (auto simp: Let_def ETH_HLEN_def)

declare amsdu_subframes.simps [simp del]

text \<open>The second loop: a subframe shorter than an LLC header keeps its payload as it is.\<close>

definition msdu_to_eth :: "bytes \<Rightarrow> bytes \<Rightarrow> bytes \<Rightarrow> bytes" where
  "msdu_to_eth dst src sub =
     (if 8 \<le> length sub \<and>
         ((take SNAP_SIZE sub = rtw_rfc1042_header
             \<and> get_be16 (sub ! 6) (sub ! 7) \<noteq> 0x80f3 \<and> get_be16 (sub ! 6) (sub ! 7) \<noteq> 0x8137)
          \<or> take SNAP_SIZE sub = rtw_bridge_tunnel_header)
      then dst @ src @ drop SNAP_SIZE sub
      else dst @ src @ be16 (of_nat (length sub)) @ sub)"

text \<open>The socket buffers \<^verbatim>\<open>amsdu_to_msdu\<close> hands to \<^verbatim>\<open>netif_rx\<close>. It always frees the frame and
  returns \<^verbatim>\<open>_SUCCESS\<close>.\<close>

definition amsdu_to_msdu :: "nat \<Rightarrow> recv_frame_hdr \<Rightarrow> bytes list" where
  "amsdu_to_msdu skbs f =
     (let a = fr_attrib f;
          f = snd (recvframe_pull f (int (rx_hdrlen a)));
          f = (if 0 < rx_iv_len a then snd (recvframe_pull f (int (rx_iv_len a))) else f)
      in case amsdu_subframes skbs 0 (frame_data f) of
           None \<Rightarrow> []
         | Some subs \<Rightarrow> map (msdu_to_eth (rx_dst a) (rx_src a)) subs)"

text \<open>The reference: how a sender aggregates its payloads.\<close>

fun amsdu_build :: "(bytes \<times> bytes) list \<Rightarrow> bytes" where
  "amsdu_build [] = []"
| "amsdu_build [(addrs, p)] = addrs @ be16 (of_nat (length p)) @ p"
| "amsdu_build ((addrs, p) # rest) =
     addrs @ be16 (of_nat (length p)) @ p @ replicate (subframe_pad (length p)) 0 @ amsdu_build rest"

lemma get_be16_be16: "get_be16 (be16 w ! 0) (be16 w ! 1) = w"
  by (rule bit_word_eqI) (auto simp: get_be16_def be16_def bit_simps bit_push_bit_iff not_less)

lemma get_be16_inj: "get_be16 x y = get_be16 a b \<longleftrightarrow> x = a \<and> y = b"
proof
  assume e: "get_be16 x y = get_be16 a b"
  have h: "ucast (drop_bit 8 (get_be16 u v)) = u" "ucast (get_be16 u v) = v" for u v
    by (rule bit_word_eqI; auto simp: get_be16_def bit_simps dest: bit_imp_le_length)+
  show "x = a \<and> y = b" using h [of x y] h [of a b] e by metis
qed simp

lemma amsdu_header:
  assumes "length addrs = 12"
  shows "get_be16 ((addrs @ be16 w @ z) ! 12) ((addrs @ be16 w @ z) ! 13) = w"
  using get_be16_be16 [of w] assms by (simp add: nth_append be16_def)

definition good_msdu :: "bytes \<times> bytes \<Rightarrow> bool" where
  "good_msdu s \<longleftrightarrow> length (fst s) = 12 \<and> 8 \<le> length (snd s) \<and> length (snd s) < 2 ^ 16"

lemma amsdu_build_nonempty: "good_msdu s \<Longrightarrow> 22 \<le> length (amsdu_build (s # rest))"
  by (cases s; cases rest) (auto simp: good_msdu_def be16_def)

lemma amsdu_subframes_step:
  assumes l: "length addrs = 12" "8 \<le> length p" "length p < 2 ^ 16" and sk: "skbs \<noteq> 0" "nr + 1 < 64"
    and R: "R \<noteq> []"
  shows "amsdu_subframes skbs nr (addrs @ be16 (of_nat (length p)) @ p @ replicate (subframe_pad (length p)) 0 @ R)
    = map_option ((#) p) (amsdu_subframes (skbs - 1) (nr + 1) R)"
proof -
  have u: "unat (of_nat (length p) :: u16) = length p" using l by (simp add: unat_of_nat)
  define B where "B = addrs @ be16 (of_nat (length p)) @ p @ replicate (subframe_pad (length p)) 0 @ R"
  have g: "unat (get_be16 (B ! 12) (B ! 13)) = length p" unfolding B_def amsdu_header [OF l(1)] u ..
  have d: "drop ETH_HLEN B = p @ replicate (subframe_pad (length p)) 0 @ R"
    by (simp add: B_def ETH_HLEN_def l be16_def)
  have len: "length B = ETH_HLEN + (length p + (subframe_pad (length p) + length R))"
    by (simp add: B_def ETH_HLEN_def l be16_def)
  show ?thesis
    using l sk R unfolding B_def[symmetric]
    by (subst amsdu_subframes.simps) (simp add: Let_def g d len MAX_SUBFRAME_COUNT_def)
qed

lemma amsdu_subframes_last:
  assumes l: "length addrs = 12" "8 \<le> length p" "length p < 2 ^ 16" and sk: "skbs \<noteq> 0"
  shows "amsdu_subframes skbs nr (addrs @ be16 (of_nat (length p)) @ p) = Some [p]"
proof -
  have u: "unat (of_nat (length p) :: u16) = length p" using l by (simp add: unat_of_nat)
  define B where "B = addrs @ be16 (of_nat (length p)) @ p"
  have g: "unat (get_be16 (B ! 12) (B ! 13)) = length p" unfolding B_def amsdu_header [OF l(1)] u ..
  have d: "drop ETH_HLEN B = p" by (simp add: B_def ETH_HLEN_def l be16_def)
  have len: "length B = ETH_HLEN + length p" by (simp add: B_def ETH_HLEN_def l be16_def)
  show ?thesis
    using l sk unfolding B_def[symmetric]
    by (subst amsdu_subframes.simps) (auto simp add: Let_def g d len)
qed

lemma amsdu_subframes_build:
  assumes "\<forall>s \<in> set subs. good_msdu s" "length subs + nr \<le> 64" "length subs \<le> skbs"
  shows "amsdu_subframes skbs nr (amsdu_build subs) = Some (map snd subs)"
  using assms
proof (induction subs arbitrary: nr skbs rule: amsdu_build.induct)
  case 1 then show ?case by (simp add: amsdu_subframes.simps)
next
  case (2 addrs p)
  then show ?case by (simp add: amsdu_subframes_last good_msdu_def)
next
  case (3 addrs p s rest)
  have ne: "amsdu_build (s # rest) \<noteq> []" using 3 amsdu_build_nonempty [of s rest] by fastforce
  have ih: "amsdu_subframes (skbs - 1) (nr + 1) (amsdu_build (s # rest)) = Some (map snd (s # rest))"
    using 3 by (intro "3.IH") auto
  show ?case using 3 ne ih by (simp add: amsdu_subframes_step good_msdu_def)
qed

text \<open>The subframes found never add up to more than the bytes there are, and are at most 64.\<close>

lemma amsdu_subframes_bound:
  "amsdu_subframes skbs nr buf = Some subs \<Longrightarrow> nr < 64 \<Longrightarrow>
   sum_list (map (\<lambda>s. ETH_HLEN + length s) subs) \<le> length buf \<and> nr + length subs \<le> 64 \<and> length subs \<le> skbs"
proof (induction skbs nr buf arbitrary: subs rule: amsdu_subframes.induct)
  case (1 skbs nr buf)
  show ?case
  proof (cases "length buf \<le> ETH_HLEN")
    case True then show ?thesis using 1(2,3) by (subst (asm) amsdu_subframes.simps) auto
  next
    case False
    define n where "n = unat (get_be16 (buf ! 12) (buf ! 13))"
    define q where "q = drop n (drop ETH_HLEN buf)"
    note eq = 1(2)[unfolded amsdu_subframes.simps [of skbs nr buf] Let_def n_def[symmetric] q_def[symmetric]]
    show ?thesis
    proof (cases "length buf < ETH_HLEN + n \<or> skbs = 0 \<or> MAX_SUBFRAME_COUNT \<le> nr + 1 \<or> q = []")
      case True then show ?thesis using eq 1(3) False
        by (auto split: if_splits simp: q_def MAX_SUBFRAME_COUNT_def)
    next
      case no: False
      then obtain rest where r: "amsdu_subframes (skbs - 1) (nr + 1) (drop (subframe_pad n) q) = Some rest"
          "subs = take n (drop ETH_HLEN buf) # rest"
        using eq False by (auto split: if_splits)
      have "sum_list (map (\<lambda>s. ETH_HLEN + length s) rest) \<le> length (drop (subframe_pad n) q)
          \<and> nr + 1 + length rest \<le> 64 \<and> length rest \<le> skbs - 1"
        using 1(1) [OF False n_def _ refl refl _ _ q_def, of rest] no eq r(1) 1(3) False
        by (auto split: if_splits simp: MAX_SUBFRAME_COUNT_def)
      then show ?thesis using no by (simp add: r q_def) linarith
    qed
  qed
qed

lemma msdu_to_eth_eq: "8 \<le> length p \<Longrightarrow> msdu_to_eth dst src p = eth_frame dst src p"
proof -
  assume l: "8 \<le> length p"
  have t: "get_be16 (p ! 6) (p ! 7) = get_be16 a b \<longleftrightarrow> buf_get 6 2 p = [a, b]" for a b :: u8
  proof -
    have g: "buf_get 6 2 p = [p ! 6, p ! 7]"
      using l by (intro nth_equalityI) (auto simp: len_simps nth_buf_get less_Suc_eq numeral_2_eq_2)
    show ?thesis by (simp add: g get_be16_inj)
  qed
  have "get_be16 0x80 0xf3 = 0x80f3" "get_be16 0x81 0x37 = 0x8137"
    by (simp_all add: get_be16_def)
  with t [of "0x80" "0xf3"] t [of "0x81" "0x37"] l show ?thesis
    by (auto simp: msdu_to_eth_def eth_frame_def snap_strip_def SNAP_SIZE_def
        SNAP_ETH_TYPE_IPX_def SNAP_ETH_TYPE_APPLETALK_AARP_def)
qed

lemma amsdu_frame_data:
  assumes "wf_frame f" "rx_hdrlen (fr_attrib f) + rx_iv_len (fr_attrib f) \<le> fr_len f"
  shows "amsdu_to_msdu skbs f =
    (case amsdu_subframes skbs 0 (drop (rx_hdrlen (fr_attrib f) + rx_iv_len (fr_attrib f)) (frame_data f)) of
       None \<Rightarrow> [] | Some subs \<Rightarrow> map (msdu_to_eth (rx_dst (fr_attrib f)) (rx_src (fr_attrib f))) subs)"
proof -
  define a where "a = fr_attrib f"
  define f1 where "f1 = snd (recvframe_pull f (int (rx_hdrlen a)))"
  have w: "wf_frame f1" "fr_len f1 = fr_len f - rx_hdrlen a" "frame_data f1 = drop (rx_hdrlen a) (frame_data f)"
    using assms frame_data_pull [of f "rx_hdrlen a"] wf_pull [of f "rx_hdrlen a"]
    by (auto simp: f1_def a_def[symmetric]) (auto simp: rxf_simps wf_frame_def)
  then have "frame_data (snd (recvframe_pull f1 (int (rx_iv_len a))))
      = drop (rx_hdrlen a + rx_iv_len a) (frame_data f)"
    using assms frame_data_pull [of f1 "rx_iv_len a"] by (simp add: a_def[symmetric] add.commute)
  then show ?thesis using w
    by (simp add: amsdu_to_msdu_def Let_def a_def[symmetric] f1_def[symmetric] split: option.split)
qed

section \<open>Properties\<close>

text \<open>wlanhdr_to_ethhdr: a received data frame becomes the Ethernet frame of its payload.\<close>

theorem wlanhdr_to_ethhdr_frame:
  assumes "wf_frame f" "a = fr_attrib f" "14 \<le> rx_hdrlen a"
    "8 \<le> length (llc_payload f)" "length (rx_dst a) = 6" "length (rx_src a) = 6"
  shows "\<exists>g. wlanhdr_to_ethhdr False f = Some g \<and> wf_frame g
    \<and> frame_data g = eth_frame (rx_dst a) (rx_src a) (llc_payload f) \<and> fr_id g = fr_id f"
proof -
  have "rx_hdrlen a + rx_iv_len a + 8 + (if rx_encrypt a \<noteq> NO_PRIVACY then rx_icv_len a else 0) \<le> fr_len f"
    using assms frame_data_length [of f] by (auto simp: llc_payload_def Let_def split: if_splits)
  then show ?thesis using wlanhdr_to_ethhdr_ok [OF assms(1,2) refl assms(3) _ assms(5,6)] by blast
qed

text \<open>A protected frame with an eight byte IV and ICV, carrying an ARP packet.\<close>

definition example_rx_attrib :: rx_full_attrib where
  "example_rx_attrib = \<lparr>rx_hdrlen = 24, rx_iv_len = 8, rx_encrypt = AES, rx_ta = replicate 6 2,
     rx_ra = replicate 6 4, rx_key_index = 0, rx_icv_len = 8, rx_seq_num = 7, rx_frag_num = 0, rx_mfrag = 0,
     rx_priority = 0, rx_privacy = 1, rx_bdecrypted = 1, rx_amsdu = 0, rx_qos = 1, rx_ack_policy = 0,
     rx_eth_type = 0, rx_dst = replicate 6 0x11, rx_src = replicate 6 0x22\<rparr>"

definition example_rx_frame :: recv_frame_hdr where
  "example_rx_frame = \<lparr>fr_id = 1, fr_attrib = example_rx_attrib,
     rx_mem = replicate 24 0 @ replicate 32 9 @ rtw_rfc1042_header @ [8, 0] @ [1, 2, 3, 4] @ replicate 8 5
       @ replicate 20 0, rx_data_off = 24, rx_tail_off = 24 + 52, fr_len = 52\<rparr>"

lemma example_llc: "llc_payload example_rx_frame = rtw_rfc1042_header @ [8, 0] @ [1, 2, 3, 4]"
  by (simp add: llc_payload_def example_rx_frame_def example_rx_attrib_def frame_data_def buf_get_def
      rtw_rfc1042_header_def)

theorem wlanhdr_to_ethhdr_frame_witness:
  "\<exists>g. wlanhdr_to_ethhdr False example_rx_frame = Some g
    \<and> frame_data g = replicate 6 0x11 @ replicate 6 0x22 @ [8, 0] @ [1, 2, 3, 4]"
proof -
  have "eth_frame (replicate 6 0x11) (replicate 6 0x22) (llc_payload example_rx_frame)
      = replicate 6 0x11 @ replicate 6 0x22 @ [8, 0] @ [1, 2, 3, 4]"
    by (simp add: example_llc eth_frame_def snap_strip_def SNAP_SIZE_def rtw_rfc1042_header_def buf_get_def
        SNAP_ETH_TYPE_IPX_def SNAP_ETH_TYPE_APPLETALK_AARP_def)
  then show ?thesis
    using wlanhdr_to_ethhdr_frame [of example_rx_frame example_rx_attrib]
    by (auto simp: example_llc)
       (auto simp: example_rx_frame_def example_rx_attrib_def wf_frame_def rtw_rfc1042_header_def)
qed


definition example_subs :: "(bytes \<times> bytes) list" where
  "example_subs = [(replicate 12 1, rtw_rfc1042_header @ [8, 0, 1, 2, 3]), (replicate 12 2, [7, 7, 7, 7, 7, 7, 7, 7, 7])]"

definition example_amsdu :: recv_frame_hdr where
  "example_amsdu = \<lparr>fr_id = 2, fr_attrib = example_rx_attrib\<lparr>rx_amsdu := 1\<rparr>,
     rx_mem = replicate 32 9 @ amsdu_build example_subs, rx_data_off = 0, rx_tail_off = 83, fr_len = 83\<rparr>"




text \<open>recv_decache: a frame that was accepted is dropped when it arrives again before another frame of
  its traffic class, whatever other classes received meanwhile.\<close>

theorem recv_decache_drops_retry:
  assumes "length cache = 16" "recv_decache a cache = (RTW_SUCCESS, cache')"
    "recv_decache b cache' = (res, cache'')" "rx_priority b \<noteq> rx_priority a"
  shows "fst (recv_decache a cache'') = RTW_FAIL"
proof -
  have p: "unat (rx_priority a) \<noteq> unat (rx_priority b)" using assms(4) by (metis unsigned_word_eqI)
  show ?thesis using assms p
    by (auto simp: recv_decache_def Let_def split: if_splits)
qed

theorem recv_decache_drops_retry_witness:
  "fst (recv_decache example_rx_attrib
     (snd (recv_decache (example_rx_attrib\<lparr>rx_priority := 3\<rparr>)
       (snd (recv_decache example_rx_attrib (replicate 16 0xffff)))))) = RTW_FAIL"
  by (rule recv_decache_drops_retry [where cache = "replicate 16 0xffff" and b = "example_rx_attrib\<lparr>rx_priority := 3\<rparr>"
        and cache' = "snd (recv_decache example_rx_attrib (replicate 16 0xffff))" and res = RTW_SUCCESS])
     (simp_all add: recv_decache_def example_rx_attrib_def seq_ctrl_def Let_def)

end
