(* ===== verification/Reorder.thy ===== *)
theory Reorder
  imports RxFrame
begin

text \<open>
  Receive reordering of A-MPDUs (\<^verbatim>\<open>core/rtw_recv.c\<close>): \<^verbatim>\<open>check_indicate_seq\<close>,
  \<^verbatim>\<open>enqueue_reorder_recvframe\<close>, \<^verbatim>\<open>recv_indicatepkts_in_order\<close>,
  \<^verbatim>\<open>recv_indicatepkt_reorder\<close> and the timeout handler, with the block-ack actions that start and
  stop a session. A record holds one \<^verbatim>\<open>struct recv_reorder_ctrl\<close>; the frames a step gives away are
  a list of \<open>rx_out\<close> events.

  The window arithmetic is on 16 bit words with wrapping 12 bit sequence numbers. The abstract specification
  is the same window over unbounded sequence numbers, and the refinement lemma relates the two as long
  as frames arrive less than half the number space away from the window.
\<close>

section \<open>State\<close>

record recv_reorder_ctrl =
  ctrl_enable :: bool
  indicate_seq :: u16
  wsize_b :: u8
  pending_recvframe_queue :: "recv_frame_hdr list"
  reordering_ctrl_timer :: bool

record rx_adapter =
  bDriverStopped :: bool
  bSurpriseRemoved :: bool
  mp_state :: bool
  skb_avail :: nat

text \<open>What happens to a frame that leaves the queue: \<^verbatim>\<open>rtw_recv_indicatepkt\<close>, \<^verbatim>\<open>amsdu_to_msdu\<close> (which frees
  it), or nothing at all.\<close>

datatype rx_out = Indicated recv_frame_hdr | Split recv_frame_hdr | Orphaned recv_frame_hdr

text \<open>The packets the network stack gets.\<close>

fun to_stack :: "nat \<Rightarrow> rx_out \<Rightarrow> bytes list" where
  "to_stack skbs (Indicated f) = [frame_data f]"
| "to_stack skbs (Split f) = amsdu_to_msdu skbs f"
| "to_stack skbs (Orphaned f) = []"

definition REORDER_WAIT_TIME :: nat where "REORDER_WAIT_TIME = 50"

text \<open>The values \<^verbatim>\<open>rtw_alloc_stainfo\<close> gives every traffic class.\<close>

definition reorder_init :: recv_reorder_ctrl where
  "reorder_init = \<lparr>ctrl_enable = False, indicate_seq = 0xffff, wsize_b = 64,
     pending_recvframe_queue = [], reordering_ctrl_timer = False\<rparr>"

text \<open>\<^verbatim>\<open>SN_LESS\<close> is on the promoted integers.\<close>

definition SN_LESS :: "u16 \<Rightarrow> u16 \<Rightarrow> bool" where
  "SN_LESS a b \<longleftrightarrow> (uint a - uint b) AND 0x800 \<noteq> 0"

abbreviation seq_num :: "recv_frame_hdr \<Rightarrow> u16" where
  "seq_num f \<equiv> rx_seq_num (fr_attrib f)"

section \<open>Operations\<close>

definition check_indicate_seq :: "recv_reorder_ctrl \<Rightarrow> u16 \<Rightarrow> bool \<times> recv_reorder_ctrl" where
  "check_indicate_seq c seq =
     (let wsize = ucast (wsize_b c) :: u16;
          wend = (indicate_seq c + wsize - 1) AND 0xfff;
          c = (if indicate_seq c = 0xffff then c\<lparr>indicate_seq := seq\<rparr> else c) in
      if SN_LESS seq (indicate_seq c) then (False, c)
      else if seq = indicate_seq c then
        (True, c\<lparr>indicate_seq := (indicate_seq c + 1) AND 0xfff\<rparr>)
      else if SN_LESS wend seq then
        (True, c\<lparr>indicate_seq := (if uint seq \<ge> uint (wsize_b c) - 1 then seq + 1 - wsize
                                      else 0xfff - (wsize - (seq + 1)) + 1)\<rparr>)
      else (True, c))"

text \<open>The position in the queue, or \<open>None\<close> for a duplicate.\<close>

fun reorder_insert :: "recv_frame_hdr \<Rightarrow> recv_frame_hdr list \<Rightarrow> recv_frame_hdr list option" where
  "reorder_insert f [] = Some [f]"
| "reorder_insert f (g # q) =
     (if SN_LESS (seq_num g) (seq_num f) then map_option ((#) g) (reorder_insert f q)
      else if seq_num g = seq_num f then None
      else Some (f # g # q))"

definition enqueue_reorder_recvframe ::
    "recv_reorder_ctrl \<Rightarrow> recv_frame_hdr \<Rightarrow> bool \<times> recv_reorder_ctrl" where
  "enqueue_reorder_recvframe c f =
     (case reorder_insert f (pending_recvframe_queue c) of None \<Rightarrow> (False, c)
      | Some q \<Rightarrow> (True, c\<lparr>pending_recvframe_queue := q\<rparr>))"

text \<open>The loop body's fate of a frame; the \<^verbatim>\<open>amsdu\<close> field is one bit of the receive descriptor, the
  last case is the code's \<^verbatim>\<open>error condition\<close>.\<close>

definition indicate_out :: "rx_adapter \<Rightarrow> recv_frame_hdr \<Rightarrow> rx_out" where
  "indicate_out ad f =
     (if rx_amsdu (fr_attrib f) = 0 then
        (if \<not> bDriverStopped ad \<and> \<not> bSurpriseRemoved ad then Indicated f else Orphaned f)
      else if rx_amsdu (fr_attrib f) = 1 then Split f
      else Orphaned f)"

text \<open>The loop: the next expected number, the frames given away, the frames left.\<close>

fun indicate_loop :: "rx_adapter \<Rightarrow> u16 \<Rightarrow> recv_frame_hdr list \<Rightarrow> u16 \<times> rx_out list \<times> recv_frame_hdr list" where
  "indicate_loop ad ind [] = (ind, [], [])"
| "indicate_loop ad ind (f # q) =
     (if \<not> SN_LESS ind (seq_num f) then
        (let ind = (if ind = seq_num f then (ind + 1) AND 0xfff else ind);
             (ind, out, q) = indicate_loop ad ind q
         in (ind, indicate_out ad f # out, q))
      else (ind, [], f # q))"

text \<open>The result tells whether the timer has to run (\<^verbatim>\<open>bPktInBuf\<close>).\<close>

definition recv_indicatepkts_in_order ::
    "rx_adapter \<Rightarrow> recv_reorder_ctrl \<Rightarrow> bool \<Rightarrow> bool \<times> recv_reorder_ctrl \<times> rx_out list" where
  "recv_indicatepkts_in_order ad c bforced =
     (if bforced \<and> pending_recvframe_queue c = [] then (True, c, [])
      else
        let ind = (if bforced then seq_num (hd (pending_recvframe_queue c)) else indicate_seq c);
            (ind, out, q) = indicate_loop ad ind (pending_recvframe_queue c)
        in (q \<noteq> [], c\<lparr>indicate_seq := ind, pending_recvframe_queue := q\<rparr>, out))"

text \<open>\<^verbatim>\<open>recv_indicatepkt_reorder\<close> from the label s2 on: a frame of a running session.\<close>

definition reorder_window ::
    "rx_adapter \<Rightarrow> recv_reorder_ctrl \<Rightarrow> recv_frame_hdr \<Rightarrow> rtw_status \<times> recv_reorder_ctrl \<times> rx_out list" where
  "reorder_window ad c f =
     (case check_indicate_seq c (seq_num f) of
        (False, c) \<Rightarrow> (RTW_FAIL, c, [])
      | (True, c) \<Rightarrow>
          (case enqueue_reorder_recvframe c f of
             (False, c) \<Rightarrow> (RTW_FAIL, c, [])
           | (True, c) \<Rightarrow>
               (let (buffered, c, out) = recv_indicatepkts_in_order ad c False
                in (RTW_SUCCESS, c\<lparr>reordering_ctrl_timer := buffered\<rparr>, out))))"

text \<open>Before it: frames outside a session are indicated at once. \<open>None\<close> is a run that leaves the frame's
  memory (in \<^verbatim>\<open>wlanhdr_to_ethhdr\<close>).\<close>

definition recv_indicatepkt_reorder ::
    "rx_adapter \<Rightarrow> recv_reorder_ctrl \<Rightarrow> recv_frame_hdr \<Rightarrow> (rtw_status \<times> recv_reorder_ctrl \<times> rx_out list) option" where
  "recv_indicatepkt_reorder ad c f =
     (if rx_amsdu (fr_attrib f) = 0 then
        (case wlanhdr_to_ethhdr (mp_state ad) f of None \<Rightarrow> None
         | Some f \<Rightarrow>
           let a = fr_attrib f in
           if rx_qos a \<noteq> 1 \<or> rx_eth_type a = 0x0806 \<or> rx_ack_policy a \<noteq> 0 then
             Some (if \<not> bDriverStopped ad \<and> \<not> bSurpriseRemoved ad then (RTW_SUCCESS, c, [Indicated f])
                   else (RTW_FAIL, c, []))
           else if \<not> ctrl_enable c then
             Some (RTW_SUCCESS, c\<lparr>indicate_seq := of_nat (unat (rx_seq_num a + 1) mod 4096)\<rparr>, [Indicated f])
           else Some (reorder_window ad c f))
      else if rx_amsdu (fr_attrib f) = 1 \<and> \<not> ctrl_enable c then
        Some (RTW_SUCCESS, c\<lparr>indicate_seq := of_nat (unat (seq_num f + 1) mod 4096)\<rparr>, [Split f])
      else Some (reorder_window ad c f))"

definition rtw_reordering_ctrl_timeout_handler ::
    "rx_adapter \<Rightarrow> recv_reorder_ctrl \<Rightarrow> recv_reorder_ctrl \<times> rx_out list" where
  "rtw_reordering_ctrl_timeout_handler ad c =
     (let c = c\<lparr>reordering_ctrl_timer := False\<rparr> in
      if bDriverStopped ad \<or> bSurpriseRemoved ad then (c, [])
      else let (buffered, c, out) = recv_indicatepkts_in_order ad c True
           in (c\<lparr>reordering_ctrl_timer := buffered\<rparr>, out))"

section \<open>The window over unbounded sequence numbers\<close>

text \<open>A frame with its unbounded sequence number; the one on the air is its residue.\<close>

type_synonym tagged = "nat \<times> recv_frame_hdr"

definition sn :: "nat \<Rightarrow> u16" where "sn n = of_nat (n mod 4096)"

definition first_gap :: "nat \<Rightarrow> tagged list \<Rightarrow> nat" where
  "first_gap N Q = foldl (\<lambda>m s. if fst s = m then m + 1 else m) N Q"

definition spec_deliver :: "nat \<Rightarrow> tagged list \<Rightarrow> nat \<times> tagged list \<times> tagged list" where
  "spec_deliver N Q = (let g = first_gap N Q in (g, filter (\<lambda>s. fst s < g) Q, filter (\<lambda>s. g < fst s) Q))"

definition spec_window :: "nat \<Rightarrow> nat \<Rightarrow> nat" where
  "spec_window N S = (if S = N then N + 1 else if N + 63 < S then S - 63 else N)"

text \<open>An arrival: whether the frame is taken, the next expected number, the frames waiting, the frames
  delivered.\<close>

definition spec_arrive ::
    "nat \<times> tagged list \<Rightarrow> tagged \<Rightarrow> bool \<times> (nat \<times> tagged list) \<times> tagged list" where
  "spec_arrive st s = (case st of (N, Q) \<Rightarrow>
     if fst s < N then (False, (N, Q), [])
     else if fst s \<in> fst ` set Q then (False, (N, Q), [])
     else (case spec_deliver (spec_window N (fst s)) (insort_key fst s Q) of
             (N, D, Q) \<Rightarrow> (True, (N, Q), D)))"

definition spec_timeout :: "nat \<times> tagged list \<Rightarrow> (nat \<times> tagged list) \<times> tagged list" where
  "spec_timeout st = (case st of (N, Q) \<Rightarrow>
     if Q = [] then ((N, Q), [])
     else (case spec_deliver (fst (hd Q)) Q of (N, D, Q) \<Rightarrow> ((N, Q), D)))"

definition spec_inv :: "nat \<times> tagged list \<Rightarrow> bool" where
  "spec_inv st = (case st of (N, Q) \<Rightarrow>
     sorted_wrt (\<lambda>a b. fst a < fst b) Q \<and> (\<forall>s \<in> set Q. N < fst s \<and> fst s \<le> N + 63))"

section \<open>Sequence number arithmetic\<close>

lemma SN_LESS_mod: "SN_LESS a b \<longleftrightarrow> 2048 \<le> (uint a - uint b) mod 4096"
proof -
  define x where "x = uint a - uint b"
  have "x AND 0x800 \<noteq> 0 \<longleftrightarrow> bit x 11"
    using and_exp_eq_0_iff_not_bit [of x 11] by (simp add: and.commute)
  also have "\<dots> \<longleftrightarrow> odd (x div 2048)" by (simp add: bit_iff_odd)
  also have "\<dots> \<longleftrightarrow> 2048 \<le> x mod 4096"
  proof -
    define q r where "q = x div 2048 mod 2" and "r = x mod 2048"
    have "x mod 4096 = 2048 * q + r" using zmod_zmult2_eq [of 2 x 2048] by (simp add: q_def r_def)
    moreover have "0 \<le> r" "r < 2048" by (simp_all add: r_def)
    moreover have "odd (x div 2048) \<longleftrightarrow> q = 1" "q = 0 \<or> q = 1" by (auto simp: q_def odd_iff_mod_2_eq_one)
    ultimately show ?thesis by auto
  qed
  finally show ?thesis by (simp add: SN_LESS_def x_def)
qed

lemma unat_sn: "unat (sn n) = n mod 4096"
  by (simp add: sn_def unat_of_nat)

lemma uint_sn: "uint (sn n) = int n mod 4096"
  by (simp add: uint_nat unat_sn zmod_int)

lemma SN_LESS_sn:
  assumes "a \<le> b + 2047" "b \<le> a + 2048"
  shows "SN_LESS (sn a) (sn b) \<longleftrightarrow> a < b"
proof -
  define d where "d = int a - int b"
  have m: "(uint (sn a) - uint (sn b)) mod 4096 = d mod 4096"
    by (simp add: uint_sn d_def mod_diff_eq)
  have "d mod 4096 = (if d < 0 then d + 4096 else d)"
  proof (cases "d < 0")
    case True
    have "(d + 4096) mod 4096 = d + 4096" using True assms by (intro mod_pos_pos_trivial) (auto simp: d_def)
    then show ?thesis using True by simp
  next
    case False
    then show ?thesis using assms by (simp add: d_def mod_pos_pos_trivial)
  qed
  then show ?thesis using assms by (auto simp: SN_LESS_mod m) (auto simp: d_def)
qed

lemma sn_eq:
  assumes "a < b + 4096" "b < a + 4096"
  shows "sn a = sn b \<longleftrightarrow> a = b"
proof
  assume "sn a = sn b"
  then have m: "a mod 4096 = b mod 4096" by (metis unat_sn)
  show "a = b"
  proof (cases "b \<le> a")
    case True
    then have "4096 dvd a - b" using m by (simp add: mod_eq_dvd_iff_nat)
    then show ?thesis using assms True dvd_imp_le [of 4096 "a - b"] by (cases "a = b") simp_all
  next
    case False
    then have "4096 dvd b - a" using m mod_eq_dvd_iff_nat [of a b 4096] by simp
    then show ?thesis using assms False dvd_imp_le [of 4096 "b - a"] by simp
  qed
qed simp

lemma sn_not_init: "sn n \<noteq> 0xffff"
proof
  assume "sn n = 0xffff"
  then have "n mod 4096 = unat (0xffff :: u16)" using unat_sn [of n] by metis
  then have "n mod 4096 = 65535" by simp
  moreover have "n mod 4096 < 4096" by simp
  ultimately show False by linarith
qed

lemma sn_add_and: "(sn n + of_nat k) AND 0xfff = sn (n + k)"
proof -
  have "(0xfff :: u16) = mask 12" by (simp add: mask_eq_exp_minus_1)
  then have e: "(sn n + of_nat k) AND 0xfff = take_bit 12 (sn n + of_nat k)" by (simp add: take_bit_eq_mask)
  have "unat (take_bit 12 (sn n + of_nat k)) = (n mod 4096 + k mod 65536) mod 65536 mod 4096"
    by (simp only: unsigned_take_bit_eq unat_word_ariths unat_sn unat_of_nat take_bit_eq_mod) simp
  also have "\<dots> = (n + k) mod 4096"
  proof -
    have c: "x mod 65536 mod 4096 = x mod 4096" for x :: nat by (rule mod_mod_cancel) simp
    show ?thesis unfolding c by (subst mod_add_eq [symmetric]) (simp only: c mod_mod_trivial mod_add_eq)
  qed
  finally have "unat (take_bit 12 (sn n + of_nat k)) = unat (sn (n + k))" by (simp add: unat_sn)
  then show ?thesis unfolding e by (rule unsigned_word_eqI)
qed

lemma sn_Suc: "(sn n + 1) AND 0xfff = sn (n + 1)"
  using sn_add_and [of n 1] by simp

section \<open>The specification\<close>

abbreviation seq_sorted :: "tagged list \<Rightarrow> bool" where
  "seq_sorted Q \<equiv> sorted_wrt (\<lambda>a b. fst a < fst b) Q"

lemma first_gap_Cons: "first_gap N (s # Q) = first_gap (if fst s = N then N + 1 else N) Q"
  by (simp add: first_gap_def)

lemma first_gap_ge: "N \<le> first_gap N Q"
proof (induction Q arbitrary: N)
  case (Cons s Q)
  show ?case using Cons [of "if fst s = N then N + 1 else N"] by (simp add: first_gap_Cons split: if_splits)
qed (simp add: first_gap_def)

lemma first_gap_above: "\<forall>s \<in> set Q. N < fst s \<Longrightarrow> first_gap N Q = N"
  by (induction Q) (auto simp: first_gap_Cons first_gap_def)

lemma first_gap_missing: "seq_sorted Q \<Longrightarrow> first_gap N Q \<notin> fst ` set Q"
proof (induction Q arbitrary: N)
  case (Cons s Q)
  show ?case
  proof (cases "N < fst s")
    case True
    then have "\<forall>t \<in> set (s # Q). N < fst t" using Cons.prems by fastforce
    then show ?thesis using first_gap_above [of "s # Q" N] by fastforce
  next
    case False
    let ?N = "if fst s = N then N + 1 else N"
    have "fst s < first_gap ?N Q" using False first_gap_ge [of ?N Q] by (simp split: if_splits)
    then show ?thesis using Cons by (simp add: first_gap_Cons)
  qed
qed (simp add: first_gap_def)

lemma first_gap_present: "N \<le> m \<Longrightarrow> m < first_gap N Q \<Longrightarrow> m \<in> fst ` set Q"
proof (induction Q arbitrary: N)
  case (Cons s Q)
  show ?case
  proof (cases "m = fst s")
    case False
    then show ?thesis
      using Cons.IH [of "if fst s = N then N + 1 else N"] Cons.prems
      by (auto simp: first_gap_Cons split: if_splits)
  qed auto
qed (simp add: first_gap_def)

lemma first_gap_eqI:
  assumes "seq_sorted Q" "N \<le> g" "g \<notin> fst ` set Q" "\<And>m. N \<le> m \<Longrightarrow> m < g \<Longrightarrow> m \<in> fst ` set Q"
  shows "first_gap N Q = g"
  using first_gap_missing [OF assms(1), of N] first_gap_ge [of N Q] first_gap_present [of N g Q] assms(2-4)
  by (metis linorder_neqE_nat)

lemma spec_deliver_sets:
  assumes "seq_sorted Q" "spec_deliver N Q = (g, D, W)"
  shows "N \<le> g" "Q = D @ W" "\<forall>s \<in> set D. fst s < g" "\<forall>s \<in> set W. g < fst s"
    "seq_sorted D" "seq_sorted W"
proof -
  have g: "g = first_gap N Q" "D = filter (\<lambda>s. fst s < g) Q" "W = filter (\<lambda>s. g < fst s) Q"
    using assms(2) by (auto simp: spec_deliver_def Let_def)
  show "N \<le> g" by (simp add: g first_gap_ge)
  have ne: "\<forall>s \<in> set Q. fst s \<noteq> g" using first_gap_missing [OF assms(1), of N] by (metis g(1) image_eqI)
  have "R = filter (\<lambda>s. fst s < g) R @ filter (\<lambda>s. g < fst s) R"
    if "seq_sorted R" "\<forall>s \<in> set R. fst s \<noteq> g" for R :: "tagged list"
    using that
  proof (induction R)
    case (Cons s R)
    show ?case
    proof (cases "fst s < g")
      case False
      then have "\<forall>t \<in> set (s # R). g < fst t" using Cons.prems by fastforce
      then have "filter (\<lambda>s. fst s < g) (s # R) = []" "filter (\<lambda>s. g < fst s) (s # R) = s # R"
        by (auto simp: filter_empty_conv intro!: filter_True)
      then show ?thesis by (simp only: append_Nil)
    qed (use Cons in auto)
  qed simp
  from this [OF assms(1) ne] show "Q = D @ W" by (simp add: g(2,3))
  show "\<forall>s \<in> set D. fst s < g" "\<forall>s \<in> set W. g < fst s" by (simp_all add: g(2,3))
  show "seq_sorted D" "seq_sorted W" using assms(1) by (simp_all add: g(2,3) sorted_wrt_filter)
qed

section \<open>The code refines the specification\<close>

text \<open>The loop of \<open>recv_indicatepkts_in_order\<close> delivers what is below the first missing number.\<close>

definition tags_ok :: "tagged list \<Rightarrow> bool" where
  "tags_ok Q \<longleftrightarrow> (\<forall>s \<in> set Q. seq_num (snd s) = sn (fst s))"

lemma indicate_loop_refines:
  assumes "seq_sorted Q" "tags_ok Q" "\<forall>s \<in> set Q. N \<le> fst s + 2047 \<and> fst s \<le> N + 2048"
    "spec_deliver N Q = (g, D, W)"
  shows "indicate_loop ad (sn N) (map snd Q) = (sn g, map (\<lambda>s. indicate_out ad (snd s)) D, map snd W)"
  using assms
proof (induction Q arbitrary: N g D W)
  case Nil then show ?case by (simp add: spec_deliver_def first_gap_def)
next
  case (Cons s Q)
  have sl: "SN_LESS (sn N) (seq_num (snd s)) \<longleftrightarrow> N < fst s"
    using Cons.prems by (simp add: tags_ok_def SN_LESS_sn)
  have se: "sn N = seq_num (snd s) \<longleftrightarrow> fst s = N"
    using Cons.prems sn_eq [of N "fst s"] by (auto simp: tags_ok_def)
  show ?case
  proof (cases "N < fst s")
    case True
    then have all: "\<forall>t \<in> set (s # Q). N < fst t" using Cons.prems by fastforce
    then have "spec_deliver N (s # Q) = (N, [], s # Q)"
      unfolding spec_deliver_def Let_def first_gap_above [OF all]
      by (auto simp: filter_empty_conv intro!: filter_True)
    then show ?thesis using sl True Cons.prems by simp
  next
    case False
    define M where "M = (if fst s = N then N + 1 else N)"
    obtain g1 D1 W1 where d: "spec_deliver M Q = (g1, D1, W1)" by (cases "spec_deliver M Q")
    have "fst s < first_gap M Q" using False first_gap_ge [of M Q] by (simp add: M_def split: if_splits)
    then have e: "g = g1" "D = s # D1" "W = W1"
      using d Cons.prems(4) by (auto simp: spec_deliver_def Let_def first_gap_Cons M_def[symmetric])
    have "\<forall>t \<in> set Q. M \<le> fst t + 2047 \<and> fst t \<le> M + 2048"
      using Cons.prems(1,3) by (fastforce simp: M_def)
    then have "indicate_loop ad (sn M) (map snd Q) = (sn g1, map (\<lambda>s. indicate_out ad (snd s)) D1, map snd W1)"
      using Cons.prems d by (intro Cons.IH) (auto simp: tags_ok_def)
    moreover have "(if sn N = seq_num (snd s) then (sn N + 1) AND 0xfff else sn N) = sn M"
      by (simp add: se M_def sn_Suc)
    ultimately show ?thesis using sl False by (simp add: e Let_def del: One_nat_def)
  qed
qed

text \<open>The position \<open>enqueue_reorder_recvframe\<close> finds is the sorted one.\<close>

lemma reorder_insert_refines:
  assumes "seq_sorted Q" "tags_ok Q" "seq_num (snd s) = sn (fst s)"
    "\<forall>t \<in> set Q. fst t \<le> fst s + 2047 \<and> fst s \<le> fst t + 2048"
  shows "reorder_insert (snd s) (map snd Q) =
    (if fst s \<in> fst ` set Q then None else Some (map snd (insort_key fst s Q)))"
  using assms
proof (induction Q)
  case (Cons t Q)
  have sl: "SN_LESS (seq_num (snd t)) (seq_num (snd s)) \<longleftrightarrow> fst t < fst s"
    using Cons.prems by (simp add: tags_ok_def SN_LESS_sn)
  have se: "seq_num (snd t) = seq_num (snd s) \<longleftrightarrow> fst t = fst s"
    using Cons.prems sn_eq [of "fst t" "fst s"] by (auto simp: tags_ok_def)
  have "reorder_insert (snd s) (map snd Q) =
    (if fst s \<in> fst ` set Q then None else Some (map snd (insort_key fst s Q)))"
    using Cons by (auto simp: tags_ok_def)
  moreover have "fst s \<notin> fst ` set Q" if "fst s \<le> fst t" using that Cons.prems(1) by fastforce
  ultimately show ?case using sl se by (auto simp del: One_nat_def)
qed simp

text \<open>The relation between a session and its unbounded view.\<close>

definition reorder_rel :: "nat \<times> tagged list \<Rightarrow> recv_reorder_ctrl \<Rightarrow> bool" where
  "reorder_rel st c \<longleftrightarrow> spec_inv st \<and> tags_ok (snd st) \<and> wsize_b c = 64
     \<and> indicate_seq c = sn (fst st) \<and> pending_recvframe_queue c = map snd (snd st)"

lemma sn_minus_63:
  assumes "63 \<le> S"
  shows "(if uint (sn S) \<ge> 63 then sn S + 1 - 64 else 0xfff - (64 - (sn S + 1)) + 1) = sn (S - 63)"
proof -
  define k r where "k = S div 4096" and "r = S mod 4096"
  have S: "S = 4096 * k + r" "r < 4096" by (simp_all add: k_def r_def)
  have sr: "sn S = of_nat r" by (simp add: sn_def r_def)
  have b: "uint (sn S) \<ge> 63 \<longleftrightarrow> 63 \<le> r" proof -
    have "int r = int S mod 4096" by (simp add: r_def zmod_int)
    then show ?thesis unfolding uint_sn by linarith
  qed
  show ?thesis
  proof (cases "63 \<le> r")
    case True
    then have "S - 63 = 4096 * k + (r - 63)" using S by linarith
    then have "(S - 63) mod 4096 = r - 63" using S(2) by simp
    then show ?thesis unfolding b unfolding sr using True by (simp add: sn_def of_nat_diff)
  next
    case False
    then obtain k' where k: "k = Suc k'" using S assms by (cases k) auto
    have "S - 63 = 4096 * k' + (4033 + r)" by (simp add: S k)
    then have "(S - 63) mod 4096 = 4033 + r" using False by simp
    then show ?thesis unfolding b unfolding sr using False by (simp add: sn_def)
  qed
qed

lemma check_indicate_seq_refines:
  assumes "indicate_seq c = sn N" "wsize_b c = 64" "N \<le> S + 2048" "S \<le> N + 2047"
  shows "check_indicate_seq c (sn S) =
    (\<not> S < N, c\<lparr>indicate_seq := sn (if S < N then N else spec_window N S)\<rparr>)"
proof -
  have wend: "(sn N + 64 - 1) AND 0xfff = sn (N + 63)"
  proof -
    have "sn N + 64 - 1 = sn N + of_nat 63" by simp
    then show ?thesis by (simp only: sn_add_and)
  qed
  have less: "SN_LESS (sn S) (sn N) \<longleftrightarrow> S < N" using assms by (intro SN_LESS_sn) auto
  have eq: "sn S = sn N \<longleftrightarrow> S = N" using assms by (intro sn_eq) auto
  have out: "SN_LESS (sn (N + 63)) (sn S) \<longleftrightarrow> N + 63 < S" if "N \<le> S"
    using that assms by (intro SN_LESS_sn) auto
  have c: "c\<lparr>indicate_seq := sn N\<rparr> = c" using assms(1) by simp
  have w: "ucast (wsize_b c) = (64 :: u16)" "uint (wsize_b c) - 1 = 63" using assms(2) by simp_all
  have init: "(if indicate_seq c = 0xffff then c\<lparr>indicate_seq := sn S\<rparr> else c) = c"
    using assms(1) sn_not_init by simp
  have e: "check_indicate_seq c (sn S) =
     (if S < N then (False, c)
      else if S = N then (True, c\<lparr>indicate_seq := (sn N + 1) AND 0xfff\<rparr>)
      else if SN_LESS (sn (N + 63)) (sn S) then (True, c\<lparr>indicate_seq :=
        (if uint (sn S) \<ge> 63 then sn S + 1 - 64 else 0xfff - (64 - (sn S + 1)) + 1)\<rparr>)
      else (True, c))"
    unfolding check_indicate_seq_def Let_def init w unfolding assms(1) less eq wend ..
  consider "S < N" | "S = N" | "N < S" "N + 63 < S" | "N < S" "\<not> N + 63 < S" by linarith
  then show ?thesis
  proof cases
    case 3
    then show ?thesis unfolding e using out sn_minus_63 [of S] by (simp add: spec_window_def)
  qed (use out c in \<open>unfold e, simp_all add: spec_window_def sn_Suc del: One_nat_def\<close>)
qed

lemma map_fst_insort: "map fst (insort_key fst s Q) = insort (fst s) (map fst Q)"
  by (induction Q) auto

text \<open>One arrival. The frame carries the residue of its number, which is less than half the number space
  away from the window.\<close>

lemma spec_arrive_window:
  assumes inv: "spec_inv (N, Q)" and S: "N \<le> fst s" "fst s \<notin> fst ` set Q"
    and M: "M = spec_window N (fst s)" and I: "I = insort_key fst s Q"
  shows "seq_sorted I" "\<forall>t \<in> set I. fst t \<le> M + 63" "N \<le> M" "set I = insert s (set Q)"
proof -
  have ss: "seq_sorted Q" using inv by (simp add: spec_inv_def)
  have "distinct (map fst Q)" "sorted (map fst Q)"
    using ss strict_sorted_iff [of "map fst Q"] by (simp_all add: sorted_wrt_map)
  then have "distinct (map fst I)" "sorted (map fst I)"
    using S(2) by (simp_all add: I map_fst_insort sorted_insort distinct_insort)
  then show "seq_sorted I" by (metis sorted_wrt_map strict_sorted_iff)
  show set_I: "set I = insert s (set Q)" by (simp add: I set_insort_key)
  show "N \<le> M" using S by (auto simp: M spec_window_def)
  show "\<forall>t \<in> set I. fst t \<le> M + 63"
    using inv S unfolding set_I by (auto simp: M spec_window_def spec_inv_def)
qed

lemma spec_arrive_inv:
  assumes "spec_inv st" "spec_arrive st s = (acc, st', D)"
  shows "spec_inv st'"
proof (cases st)
  case (Pair N Q)
  show ?thesis
  proof (cases "fst s < N \<or> fst s \<in> fst ` set Q")
    case True then show ?thesis using assms by (auto simp: Pair spec_arrive_def split: if_splits)
  next
    case False
    define M I where "M = spec_window N (fst s)" and "I = insort_key fst s Q"
    obtain g D' W where d: "spec_deliver M I = (g, D', W)" by (cases "spec_deliver M I")
    note w = spec_arrive_window [of N Q s, OF _ _ _ M_def I_def]
    have I: "seq_sorted I" "\<forall>t \<in> set I. fst t \<le> M + 63" using w assms(1) False by (simp_all add: Pair)
    note sd = spec_deliver_sets [OF I(1) d]
    have "st' = (g, W)" using assms(2) False d by (simp add: Pair spec_arrive_def M_def I_def)
    moreover have "\<forall>t \<in> set W. fst t \<le> g + 63"
    proof
      fix t assume "t \<in> set W"
      then have "fst t \<le> M + 63" using I(2) sd(2) by simp
      then show "fst t \<le> g + 63" using sd(1) by simp
    qed
    ultimately show ?thesis using sd(4,6) by (simp add: spec_inv_def)
  qed
qed

lemma reorder_window_refines:
  assumes R: "reorder_rel st c" and st: "st = (N, Q)" and s: "seq_num f = sn S"
    and near: "N \<le> S + 2048" "S \<le> N + 2047"
    and sp: "spec_arrive st (S, f) = (acc, st', D)"
  shows "\<exists>c'. reorder_window ad c f =
      (if acc then RTW_SUCCESS else RTW_FAIL, c', map (\<lambda>s. indicate_out ad (snd s)) D)
    \<and> reorder_rel st' c' \<and> (acc \<longrightarrow> (reordering_ctrl_timer c' \<longleftrightarrow> snd st' \<noteq> []))
    \<and> (\<not> acc \<longrightarrow> c' = c) \<and> ctrl_enable c' = ctrl_enable c"
proof -
  have c: "spec_inv (N, Q)" "tags_ok Q" "wsize_b c = 64" "indicate_seq c = sn N"
      "pending_recvframe_queue c = map snd Q"
    using R by (simp_all add: reorder_rel_def st)
  have Q: "seq_sorted Q" "\<forall>t \<in> set Q. N < fst t \<and> fst t \<le> N + 63" using c(1) by (simp_all add: spec_inv_def)
  note chk = check_indicate_seq_refines [OF c(4,3) near]
  have same: "c\<lparr>indicate_seq := sn N\<rparr> = c" using c(4) by simp
  consider "S < N" | "N \<le> S" "S \<in> fst ` set Q" | "N \<le> S" "S \<notin> fst ` set Q" by linarith
  then show ?thesis
  proof cases
    case 1
    then show ?thesis using chk R sp same by (auto simp: reorder_window_def s spec_arrive_def st)
  next
    case 2
    have ins: "reorder_insert f (map snd Q) = None"
    proof -
      have "\<forall>t \<in> set Q. fst t \<le> S + 2047 \<and> S \<le> fst t + 2048" using Q(2) near 2 by auto
      then show ?thesis using reorder_insert_refines [of Q "(S, f)"] Q c(2) s 2 by simp
    qed
    have "spec_window N S = N" using 2 Q(2) by (auto simp: spec_window_def)
    then show ?thesis using 2 chk R sp same c(5) ins
      by (auto simp: reorder_window_def s spec_arrive_def st enqueue_reorder_recvframe_def)
  next
    case 3
    define M I where "M = spec_window N S" and "I = insort_key fst (S, f) Q"
    have ins: "reorder_insert f (map snd Q) = Some (map snd I)"
    proof -
      have "\<forall>t \<in> set Q. fst t \<le> S + 2047 \<and> S \<le> fst t + 2048" using Q(2) near 3 by auto
      then show ?thesis using reorder_insert_refines [of Q "(S, f)"] Q c(2) s 3 by (simp add: I_def)
    qed
    have M: "N \<le> M" "M \<le> N + 2047" using near 3 by (auto simp: M_def spec_window_def)
    have I: "seq_sorted I" "\<forall>t \<in> set I. fst t \<le> M + 63" "set I = insert (S, f) (set Q)"
      using spec_arrive_window [of N Q "(S, f)" M I] c(1) 3 by (simp_all add: M_def I_def)
    have low: "\<forall>t \<in> set I. M \<le> fst t + 2047"
      using I(3) 3 Q(2) M near by (auto simp: M_def spec_window_def)
    have tI: "tags_ok I" using c(2) s by (auto simp: tags_ok_def I(3))
    obtain g D' W where d: "spec_deliver M I = (g, D', W)" by (cases "spec_deliver M I")
    note sd = spec_deliver_sets [OF I(1) d]
    have st': "acc" "st' = (g, W)" "D = D'" using sp 3 d by (simp_all add: spec_arrive_def st M_def I_def)
    have lp: "indicate_loop ad (sn M) (map snd I) = (sn g, map (\<lambda>s. indicate_out ad (snd s)) D', map snd W)"
      using I(2) low by (intro indicate_loop_refines [OF I(1) tI _ d]) fastforce
    define c' where "c' = c\<lparr>indicate_seq := sn g, pending_recvframe_queue := map snd W,
        reordering_ctrl_timer := W \<noteq> []\<rparr>"
    have run: "reorder_window ad c f = (RTW_SUCCESS, c', map (\<lambda>s. indicate_out ad (snd s)) D')"
      using chk 3 lp ins
      by (simp add: reorder_window_def s M_def[symmetric] enqueue_reorder_recvframe_def c(5)
          recv_indicatepkts_in_order_def c'_def)
    have "tags_ok W" using tI sd(2) by (auto simp: tags_ok_def)
    moreover have "spec_inv st'" using c(1) sp by (auto simp: st intro: spec_arrive_inv)
    ultimately have "reorder_rel st' c'" by (simp add: reorder_rel_def st' c'_def c(3))
    then show ?thesis using run st' by (simp add: c'_def)
  qed
qed

lemma timeout_refines:
  assumes R: "reorder_rel st c" and sp: "spec_timeout st = (st', D)"
    and run: "\<not> bDriverStopped ad" "\<not> bSurpriseRemoved ad"
  shows "\<exists>c'. rtw_reordering_ctrl_timeout_handler ad c = (c', map (\<lambda>s. indicate_out ad (snd s)) D)
    \<and> reorder_rel st' c' \<and> ctrl_enable c' = ctrl_enable c"
proof (cases st)
  case (Pair N Q)
  have c: "spec_inv (N, Q)" "tags_ok Q" "wsize_b c = 64" "indicate_seq c = sn N"
      "pending_recvframe_queue c = map snd Q"
    using R by (simp_all add: reorder_rel_def Pair)
  have Q: "seq_sorted Q" "\<forall>t \<in> set Q. N < fst t \<and> fst t \<le> N + 63" using c(1) by (simp_all add: spec_inv_def)
  show ?thesis
  proof (cases "Q = []")
    case True
    then show ?thesis using c sp run R
      by (auto simp: rtw_reordering_ctrl_timeout_handler_def recv_indicatepkts_in_order_def spec_timeout_def Pair
          reorder_rel_def)
  next
    case False
    define M where "M = fst (hd Q)"
    obtain g D' W where d: "spec_deliver M Q = (g, D', W)" by (cases "spec_deliver M Q")
    note sd = spec_deliver_sets [OF Q(1) d]
    have st': "st' = (g, W)" "D = D'" using sp False d by (simp_all add: spec_timeout_def Pair M_def)
    have hd: "N < M" using Q(2) False by (simp add: M_def)
    have ge: "\<forall>t \<in> set Q. M \<le> fst t" using Q(1) False by (cases Q) (auto simp: M_def order.order_iff_strict)
    have up: "\<forall>t \<in> set Q. fst t \<le> M + 63" using Q(2) hd by fastforce
    have lp: "indicate_loop ad (sn M) (map snd Q) = (sn g, map (\<lambda>s. indicate_out ad (snd s)) D', map snd W)"
      using ge up by (intro indicate_loop_refines [OF Q(1) c(2) _ d]) fastforce
    have "seq_num (hd (map snd Q)) = sn M" using c(2) False by (simp add: hd_map tags_ok_def M_def)
    then have e: "rtw_reordering_ctrl_timeout_handler ad c = (c\<lparr>indicate_seq := sn g,
        pending_recvframe_queue := map snd W, reordering_ctrl_timer := W \<noteq> []\<rparr>,
        map (\<lambda>s. indicate_out ad (snd s)) D')"
      using run False lp
      by (simp add: rtw_reordering_ctrl_timeout_handler_def recv_indicatepkts_in_order_def c(5))
    have "tags_ok W" using c(2) sd(2) by (auto simp: tags_ok_def)
    moreover have "\<forall>t \<in> set W. fst t \<le> g + 63"
    proof
      fix t assume "t \<in> set W"
      then have "fst t \<le> M + 63" using up sd(2) by simp
      then show "fst t \<le> g + 63" using sd(1) by simp
    qed
    ultimately show ?thesis using e sd(4,6) c(3) by (simp add: reorder_rel_def st' spec_inv_def)
  qed
qed

section \<open>Runs\<close>

text \<open>An event is the arrival of a frame or the expiry of the timer. The number next to a frame is its
  unbounded sequence number, which the code never sees.\<close>

datatype rx_event = Rx nat recv_frame_hdr | Expire

fun reorder_run :: "rx_adapter \<Rightarrow> recv_reorder_ctrl \<Rightarrow> rx_event list \<Rightarrow> (recv_reorder_ctrl \<times> rx_out list) option" where
  "reorder_run ad c [] = Some (c, [])"
| "reorder_run ad c (Rx S f # es) =
     (case recv_indicatepkt_reorder ad c f of None \<Rightarrow> None
      | Some (_, c, out) \<Rightarrow> map_option (apsnd ((@) out)) (reorder_run ad c es))"
| "reorder_run ad c (Expire # es) =
     (case rtw_reordering_ctrl_timeout_handler ad c of (c, out) \<Rightarrow>
        map_option (apsnd ((@) out)) (reorder_run ad c es))"

text \<open>The frame that enters the window, if it does.\<close>

definition to_window :: "rx_adapter \<Rightarrow> recv_frame_hdr \<Rightarrow> recv_frame_hdr option" where
  "to_window ad f =
     (if rx_amsdu (fr_attrib f) = 0 then
        (case wlanhdr_to_ethhdr (mp_state ad) f of None \<Rightarrow> None
         | Some g \<Rightarrow> let a = fr_attrib g in
             if rx_qos a = 1 \<and> rx_eth_type a \<noteq> 0x0806 \<and> rx_ack_policy a = 0 then Some g else None)
      else Some f)"

fun spec_run :: "rx_adapter \<Rightarrow> nat \<times> tagged list \<Rightarrow> rx_event list \<Rightarrow> (nat \<times> tagged list) \<times> tagged list" where
  "spec_run ad st [] = (st, [])"
| "spec_run ad st (Rx S f # es) =
     (case spec_arrive st (S, the (to_window ad f)) of (_, st, D) \<Rightarrow> apsnd ((@) D) (spec_run ad st es))"
| "spec_run ad st (Expire # es) =
     (case spec_timeout st of (st, D) \<Rightarrow> apsnd ((@) D) (spec_run ad st es))"

text \<open>Every frame belongs to the session and arrives less than half the number space from the window.\<close>

fun run_ok :: "rx_adapter \<Rightarrow> nat \<times> tagged list \<Rightarrow> rx_event list \<Rightarrow> bool" where
  "run_ok ad st [] \<longleftrightarrow> True"
| "run_ok ad st (Rx S f # es) \<longleftrightarrow>
     to_window ad f \<noteq> None \<and> seq_num f = sn S \<and> fst st \<le> S + 2048 \<and> S \<le> fst st + 2047
     \<and> run_ok ad (fst (snd (spec_arrive st (S, the (to_window ad f))))) es"
| "run_ok ad st (Expire # es) \<longleftrightarrow> run_ok ad (fst (spec_timeout st)) es"

definition arrivals :: "rx_adapter \<Rightarrow> rx_event list \<Rightarrow> tagged set" where
  "arrivals ad es = {(S, the (to_window ad f)) | S f. Rx S f \<in> set es}"

lemma wlanhdr_keeps:
  assumes "wlanhdr_to_ethhdr mp f = Some g"
  shows "fr_attrib g = (fr_attrib f)\<lparr>rx_eth_type := rx_eth_type (fr_attrib g)\<rparr>" "fr_id g = fr_id f"
proof -
  have *: "fr_attrib g = a\<lparr>rx_eth_type := rx_eth_type (fr_attrib g)\<rparr> \<and> fr_id g = fr_id f'"
    if "eth_convert mp a f' = Some g" for a f'
    using that by (cases mp) (auto simp: eth_convert_def recvframe_pull_def Let_def split: if_splits)
  show "fr_attrib g = (fr_attrib f)\<lparr>rx_eth_type := rx_eth_type (fr_attrib g)\<rparr>" "fr_id g = fr_id f"
    using * [of "fr_attrib f"] assms
    by (auto simp: wlanhdr_to_ethhdr_def Let_def fr_attrib_moves split: if_splits)
qed

lemma wlanhdr_keeps_seq: "wlanhdr_to_ethhdr mp f = Some g \<Longrightarrow> seq_num g = seq_num f"
  by (drule wlanhdr_keeps(1)) (metis rx_full_attrib.select_convs(2) rx_full_attrib.surjective rx_full_attrib.update_convs(11))

lemma to_window_seq: "to_window ad f = Some g \<Longrightarrow> seq_num g = seq_num f"
  by (auto simp: to_window_def wlanhdr_keeps_seq Let_def split: if_splits option.splits)

lemma to_window_step:
  assumes "ctrl_enable c" "to_window ad f = Some g"
  shows "recv_indicatepkt_reorder ad c f = Some (reorder_window ad c g)"
  using assms by (auto simp: to_window_def recv_indicatepkt_reorder_def Let_def split: if_splits option.splits)

lemma reorder_run_refines:
  assumes "run_ok ad st es" "reorder_rel st c" "ctrl_enable c"
    "\<not> bDriverStopped ad" "\<not> bSurpriseRemoved ad" "spec_run ad st es = (st', D)"
  shows "\<exists>c'. reorder_run ad c es = Some (c', map (\<lambda>s. indicate_out ad (snd s)) D) \<and> reorder_rel st' c'"
  using assms
proof (induction ad st es arbitrary: c D rule: spec_run.induct)
  case (2 ad st S f es)
  obtain g where g: "to_window ad f = Some g" using 2 by auto
  obtain acc st1 D1 where a: "spec_arrive st (S, g) = (acc, st1, D1)" by (metis prod_cases3)
  obtain D2 where D2: "spec_run ad st1 es = (st', D2)" "D = D1 @ D2"
    using 2(7) g a by (auto simp: apsnd_def map_prod_def split: prod.splits)
  obtain c1 where c1: "reorder_window ad c g =
      (if acc then RTW_SUCCESS else RTW_FAIL, c1, map (\<lambda>s. indicate_out ad (snd s)) D1)"
      "reorder_rel st1 c1" "ctrl_enable c1"
    using reorder_window_refines [OF 2(3), of "fst st" "snd st" g S acc st1 D1 ad] 2(2,4) a g to_window_seq [OF g]
    by auto
  have "\<exists>c'. reorder_run ad c1 es = Some (c', map (\<lambda>s. indicate_out ad (snd s)) D2) \<and> reorder_rel st' c'"
    using "2.IH" [of _ "(st1, D1)" st1 D1 c1 D2] 2(2-) g a c1 D2 by auto
  then show ?case using to_window_step [OF 2(4) g] c1 D2 by auto
next
  case (3 ad st es)
  obtain st1 D1 where a: "spec_timeout st = (st1, D1)" by fastforce
  obtain D2 where D2: "spec_run ad st1 es = (st', D2)" "D = D1 @ D2"
    using 3(7) a by (auto simp: apsnd_def map_prod_def split: prod.splits)
  obtain c1 where c1: "rtw_reordering_ctrl_timeout_handler ad c = (c1, map (\<lambda>s. indicate_out ad (snd s)) D1)"
      "reorder_rel st1 c1" "ctrl_enable c1"
    using timeout_refines [OF 3(3) a 3(5,6)] 3(4) by auto
  have "\<exists>c'. reorder_run ad c1 es = Some (c', map (\<lambda>s. indicate_out ad (snd s)) D2) \<and> reorder_rel st' c'"
    using "3.IH" [of st1 D1 c1 D2] 3(2-) a c1 D2 by auto
  then show ?case using c1 D2 by auto
qed auto

text \<open>One step of the specification delivers, in order, numbers from the old expected one up to the new one.\<close>

lemma spec_arrive_step:
  assumes "spec_inv (N, Q)" "spec_arrive (N, Q) s = (acc, (g, W), D)"
  shows "spec_inv (g, W)" "N \<le> g" "seq_sorted D" "\<forall>t \<in> set D. N \<le> fst t \<and> fst t < g"
    "set D \<union> set W \<subseteq> insert s (set Q)"
    "N \<le> fst s \<Longrightarrow> fst s \<notin> fst ` set Q \<Longrightarrow> set D \<union> set W = insert s (set Q)"
proof -
  show "spec_inv (g, W)" using spec_arrive_inv assms by blast
  have "N \<le> g \<and> seq_sorted D \<and> (\<forall>t \<in> set D. N \<le> fst t \<and> fst t < g) \<and> set D \<union> set W \<subseteq> insert s (set Q)
    \<and> (N \<le> fst s \<longrightarrow> fst s \<notin> fst ` set Q \<longrightarrow> set D \<union> set W = insert s (set Q))"
  proof (cases "fst s < N \<or> fst s \<in> fst ` set Q")
    case True then show ?thesis using assms by (auto simp: spec_arrive_def split: if_splits)
  next
    case False
    define M I where "M = spec_window N (fst s)" and "I = insort_key fst s Q"
    have I: "seq_sorted I" "N \<le> M" "set I = insert s (set Q)"
      using spec_arrive_window [of N Q s M I] assms(1) False by (simp_all add: M_def I_def)
    have d: "spec_deliver M I = (g, D, W)"
      using assms(2) False by (auto simp: spec_arrive_def M_def I_def split: prod.splits)
    note sd = spec_deliver_sets [OF I(1) d]
    have "\<forall>t \<in> set I. N \<le> fst t" using assms(1) False I(3) by (auto simp: spec_inv_def)
    then show ?thesis using sd I by auto
  qed
  then show "N \<le> g" "seq_sorted D" "\<forall>t \<in> set D. N \<le> fst t \<and> fst t < g"
    "set D \<union> set W \<subseteq> insert s (set Q)"
    "N \<le> fst s \<Longrightarrow> fst s \<notin> fst ` set Q \<Longrightarrow> set D \<union> set W = insert s (set Q)" by blast+
qed

lemma spec_timeout_step:
  assumes "spec_inv (N, Q)" "spec_timeout (N, Q) = ((g, W), D)"
  shows "spec_inv (g, W) \<and> N \<le> g \<and> seq_sorted D \<and> (\<forall>t \<in> set D. N \<le> fst t \<and> fst t < g)
    \<and> set D \<union> set W = set Q"
proof (cases "Q = []")
  case True then show ?thesis using assms by (simp add: spec_timeout_def)
next
  case False
  have Q: "seq_sorted Q" "\<forall>t \<in> set Q. N < fst t \<and> fst t \<le> N + 63" using assms(1) by (simp_all add: spec_inv_def)
  define M where "M = fst (hd Q)"
  have M: "N < M" using Q(2) False by (simp add: M_def)
  have d: "spec_deliver M Q = (g, D, W)"
    using assms(2) False by (auto simp: spec_timeout_def M_def split: prod.splits)
  note sd = spec_deliver_sets [OF Q(1) d]
  have "\<forall>t \<in> set W. g < fst t \<and> fst t \<le> g + 63"
  proof
    fix t assume t: "t \<in> set W"
    then have "fst t \<le> N + 63" using Q(2) sd(2) by simp
    then show "g < fst t \<and> fst t \<le> g + 63" using sd(1,4) M t by simp
  qed
  moreover have "\<forall>t \<in> set D. N \<le> fst t" using Q(2) sd(2) by (simp add: less_imp_le)
  ultimately show ?thesis using sd M by (simp add: spec_inv_def)
qed

lemma spec_run_order:
  assumes "spec_inv (N, Q)" "spec_run ad (N, Q) es = ((g, W), D)"
  shows "spec_inv (g, W) \<and> N \<le> g \<and> seq_sorted D \<and> (\<forall>t \<in> set D. N \<le> fst t \<and> fst t < g)
    \<and> set D \<union> set W \<subseteq> set Q \<union> arrivals ad es"
  using assms
proof (induction es arbitrary: N Q D)
  case Nil then show ?case by simp
next
  case (Cons e es)
  define Q' where "Q' = (case e of Rx S f \<Rightarrow> insert (S, the (to_window ad f)) (set Q) | Expire \<Rightarrow> set Q)"
  obtain N1 Q1 D1 D2 where st: "spec_run ad (N1, Q1) es = ((g, W), D2)" "D = D1 @ D2"
    "spec_inv (N1, Q1)" "N \<le> N1" "seq_sorted D1" "\<forall>t \<in> set D1. N \<le> fst t \<and> fst t < N1"
    "set D1 \<union> set Q1 \<subseteq> Q'"
  proof (cases e)
    case (Rx S f)
    obtain acc N1 Q1 D1 where a: "spec_arrive (N, Q) (S, the (to_window ad f)) = (acc, (N1, Q1), D1)"
      by (metis surj_pair)
    obtain D2 where D2: "spec_run ad (N1, Q1) es = ((g, W), D2)" "D = D1 @ D2"
      using Cons.prems(2) a by (auto simp: Rx apsnd_def map_prod_def split: prod.splits)
    show thesis using that [OF D2] spec_arrive_step(1-5) [OF Cons.prems(1) a] by (simp add: Q'_def Rx)
  next
    case Expire
    obtain N1 Q1 D1 where a: "spec_timeout (N, Q) = ((N1, Q1), D1)" by (metis surj_pair)
    obtain D2 where D2: "spec_run ad (N1, Q1) es = ((g, W), D2)" "D = D1 @ D2"
      using Cons.prems(2) a by (auto simp: Expire apsnd_def map_prod_def split: prod.splits)
    show thesis using that [OF D2] spec_timeout_step [OF Cons.prems(1) a] by (simp add: Q'_def Expire)
  qed
  have ih: "spec_inv (g, W) \<and> N1 \<le> g \<and> seq_sorted D2 \<and> (\<forall>t \<in> set D2. N1 \<le> fst t \<and> fst t < g)
    \<and> set D2 \<union> set W \<subseteq> set Q1 \<union> arrivals ad es"
    using Cons.IH [OF st(3,1)] .
  have "Q' \<union> arrivals ad es = set Q \<union> arrivals ad (e # es)"
    by (cases e) (auto simp: Q'_def arrivals_def)
  moreover have "seq_sorted D" using st(2,5,6) ih by (fastforce simp: sorted_wrt_append)
  ultimately show ?case using st ih by (auto; fastforce)
qed

lemma spec_inv_queue:
  assumes "spec_inv (N, Q)"
  shows "length Q \<le> 63"
proof -
  have "distinct (map fst Q)"
    using assms strict_sorted_iff [of "map fst Q"] by (simp add: spec_inv_def sorted_wrt_map)
  moreover have "fst ` set Q \<subseteq> {N <.. N + 63}" using assms by (auto simp: spec_inv_def)
  ultimately have "length Q \<le> card {N <.. N + 63}"
    by (metis card_mono distinct_card finite_greaterThanAtMost length_map list.set_map)
  then show ?thesis by simp
qed

text \<open>Within one window nothing is lost: what is delivered and what waits is what arrived.\<close>

fun is_block :: "rx_adapter \<Rightarrow> nat \<Rightarrow> rx_event list \<Rightarrow> bool" where
  "is_block ad hi [] \<longleftrightarrow> True"
| "is_block ad hi (Rx S f # es) \<longleftrightarrow> to_window ad f \<noteq> None \<and> seq_num f = sn S \<and> S < hi
     \<and> S \<notin> {T. \<exists>g. Rx T g \<in> set es} \<and> is_block ad hi es"
| "is_block ad hi (Expire # es) \<longleftrightarrow> False"

lemma spec_run_block:
  assumes "spec_inv (N, Q)" "is_block ad hi es" "hi \<le> N + 64" "\<forall>s \<in> set Q. fst s < hi"
    "\<forall>T f. Rx T f \<in> set es \<longrightarrow> N \<le> T \<and> T \<notin> fst ` set Q"
    "spec_run ad (N, Q) es = ((g, W), D)"
  shows "run_ok ad (N, Q) es \<and> set D \<union> set W = set Q \<union> arrivals ad es"
  using assms
proof (induction es arbitrary: N Q D)
  case Nil then show ?case by (simp add: arrivals_def)
next
  case (Cons e es)
  obtain S f where e: "e = Rx S f" using Cons.prems(2) by (cases e) auto
  define s where "s = (S, the (to_window ad f))"
  have s: "N \<le> S" "S < hi" "S \<notin> fst ` set Q" "seq_num f = sn S" "to_window ad f \<noteq> None"
    using Cons.prems(2,5) by (auto simp: e)
  obtain acc N1 Q1 D1 where a: "spec_arrive (N, Q) s = (acc, (N1, Q1), D1)" by (metis surj_pair)
  note st = spec_arrive_step [OF Cons.prems(1) a]
  have sets: "set D1 \<union> set Q1 = insert s (set Q)" using st(6) s by (simp add: s_def)
  obtain D2 where D2: "spec_run ad (N1, Q1) es = ((g, W), D2)" "D = D1 @ D2"
    using Cons.prems(6) a by (auto simp: e s_def apsnd_def map_prod_def split: prod.splits)
  have rest: "N1 \<le> T \<and> T \<notin> fst ` set Q1" if T: "Rx T h \<in> set es" for T h
  proof -
    have T2: "N \<le> T" "T \<notin> fst ` set Q" "T \<noteq> S"
      using Cons.prems(2,5) T by (auto simp: e)
    then have nq: "T \<notin> fst ` insert s (set Q)" by (simp add: s_def)
    have "N1 \<le> T"
    proof (rule ccontr)
      assume low: "\<not> N1 \<le> T"
      define M I where "M = spec_window N S" and "I = insort_key fst s Q"
      have "spec_deliver M I = (N1, D1, Q1)" using a s(1,3)
        by (auto simp: spec_arrive_def s_def M_def I_def split: prod.splits if_splits)
      then have "N1 = first_gap M I" by (simp add: spec_deliver_def Let_def)
      moreover have "M \<le> T" using T2 s Cons.prems(3) by (auto simp: M_def spec_window_def)
      ultimately have "T \<in> fst ` set I" using low by (intro first_gap_present [of M]) auto
      then show False using nq by (simp add: I_def set_insort_key)
    qed
    moreover have "T \<notin> fst ` set Q1" using nq unfolding sets [symmetric] by blast
    ultimately show ?thesis ..
  qed
  have "run_ok ad (N1, Q1) es \<and> set D2 \<union> set W = set Q1 \<union> arrivals ad es"
  proof (rule Cons.IH [OF st(1) _ _ _ _ D2(1)])
    show "is_block ad hi es" using Cons.prems(2) by (simp add: e)
    show "hi \<le> N1 + 64" using Cons.prems(3) st(2) by simp
    have "\<forall>t \<in> insert s (set Q). fst t < hi" using Cons.prems(4) s(2) by (simp add: s_def)
    then show "\<forall>t \<in> set Q1. fst t < hi" using sets by blast
    show "\<forall>T f. Rx T f \<in> set es \<longrightarrow> N1 \<le> T \<and> T \<notin> fst ` set Q1" using rest by blast
  qed
  moreover have "arrivals ad (e # es) = insert s (arrivals ad es)" by (auto simp: arrivals_def e s_def)
  ultimately show ?case using a s sets D2(2) Cons.prems(3) by (auto simp: e s_def)
qed

lemma reorder_init_first:
  assumes "to_window ad f = Some g" "seq_num f = sn S" "ctrl_enable c" "indicate_seq c = 0xffff"
  shows "recv_indicatepkt_reorder ad c f = recv_indicatepkt_reorder ad (c\<lparr>indicate_seq := sn S\<rparr>) f"
proof -
  have "\<not> SN_LESS (sn S) (sn S)" by (simp add: SN_LESS_def)
  then have "check_indicate_seq c (sn S) = check_indicate_seq (c\<lparr>indicate_seq := sn S\<rparr>) (sn S)"
    using assms(4) by (simp add: check_indicate_seq_def Let_def sn_not_init)
  then have "reorder_window ad c g = reorder_window ad (c\<lparr>indicate_seq := sn S\<rparr>) g"
    using to_window_seq [OF assms(1)] assms(2) by (simp add: reorder_window_def)
  then show ?thesis using to_window_step [OF _ assms(1)] assms(3) by simp
qed

lemma reorder_init_run:
  assumes "run_ok ad (S, []) (Rx S f # es)" "ctrl_enable c" "indicate_seq c = 0xffff"
  shows "reorder_run ad c (Rx S f # es) = reorder_run ad (c\<lparr>indicate_seq := sn S\<rparr>) (Rx S f # es)"
  using assms reorder_init_first [of ad f _ S c] by auto

section \<open>Block acknowledgement sessions\<close>

text \<open>A station's sixteen sessions and its transmit aggregation bitmaps.\<close>

record sta_back =
  recvreorder_ctrl :: "recv_reorder_ctrl list"
  agg_enable_bitmap :: u8
  candidate_tid_bitmap :: u8

text \<open>\<^verbatim>\<open>process_addba_req\<close> on the nine bytes of an ADDBA request.\<close>

definition process_addba_req :: "bool \<Rightarrow> bytes \<Rightarrow> sta_back \<Rightarrow> sta_back" where
  "process_addba_req accept req sta =
     (let param = get_le16 (req ! 1) (req ! 2);
          tid = unat (drop_bit 2 param AND 0xf)
      in sta\<lparr>recvreorder_ctrl := (recvreorder_ctrl sta)[tid :=
           (recvreorder_ctrl sta ! tid)\<lparr>indicate_seq := 0xffff, ctrl_enable := accept\<rparr>]\<rparr>)"

text \<open>The block-ack actions of \<^verbatim>\<open>OnAction_back\<close>, from the action code on. The second result is
  the status of the ADDBA response that is sent.\<close>

definition back_action :: "bool \<Rightarrow> bytes \<Rightarrow> sta_back \<Rightarrow> sta_back \<times> nat option" where
  "back_action accept body sta =
     (if body ! 1 = 0 then
        (process_addba_req accept (buf_get 2 9 body) sta, Some (if accept then 0 else 37))
      else if body ! 1 = 1 then
        (let tid = unat (drop_bit 2 (body ! 5) AND 0x7) in
         if get_le16 (body ! 3) (body ! 4) = 0 then
           (sta\<lparr>agg_enable_bitmap := agg_enable_bitmap sta OR push_bit tid 1,
                candidate_tid_bitmap := candidate_tid_bitmap sta AND NOT (push_bit tid 1)\<rparr>, None)
         else (sta\<lparr>agg_enable_bitmap := agg_enable_bitmap sta AND NOT (push_bit tid 1)\<rparr>, None))
      else if body ! 1 = 2 then
        (let tid = unat (drop_bit 4 (body ! 3) AND 0xf) in
         if body ! 3 AND 8 = 0 then
           (sta\<lparr>agg_enable_bitmap := agg_enable_bitmap sta AND NOT (push_bit tid 1),
                candidate_tid_bitmap := candidate_tid_bitmap sta AND NOT (push_bit tid 1)\<rparr>, None)
         else
           (sta\<lparr>recvreorder_ctrl := (recvreorder_ctrl sta)[tid :=
              (recvreorder_ctrl sta ! tid)\<lparr>ctrl_enable := False, indicate_seq := 0xffff\<rparr>]\<rparr>, None))
      else (sta, None))"

definition WIFI_FW_AP_STATE :: u32 where "WIFI_FW_AP_STATE = 3"
definition WIFI_FW_ASSOC_SUCCESS :: u32 where "WIFI_FW_ASSOC_SUCCESS = 0x4000"
definition RTW_WLAN_CATEGORY_BACK :: u8 where "RTW_WLAN_CATEGORY_BACK = 3"

record mlme_ext_info =
  info_state :: u32
  HT_enable :: bool
  bAcceptAddbaReq :: bool

text \<open>The whole handler: the frame has to be for this station (\<open>myid\<close>), which is an access point or
  associated, and come from a known one.\<close>

definition OnAction_back ::
    "bytes \<Rightarrow> mlme_ext_info \<Rightarrow> sta_priv \<Rightarrow> sta_back list \<Rightarrow> bytes \<Rightarrow> sta_back list \<times> nat option" where
  "OnAction_back myid info stapriv stas pframe =
     (if myid \<noteq> buf_get 4 6 pframe then (stas, None)
      else if info_state info AND 3 \<noteq> WIFI_FW_AP_STATE \<and> info_state info AND WIFI_FW_ASSOC_SUCCESS = 0
      then (stas, None)
      else (case rtw_get_stainfo stapriv (buf_get 10 6 pframe) of None \<Rightarrow> (stas, None)
        | Some i \<Rightarrow>
            (let body = drop 24 pframe in
             if body ! 0 \<noteq> RTW_WLAN_CATEGORY_BACK \<or> \<not> HT_enable info then (stas, None)
             else (case back_action (bAcceptAddbaReq info) body (stas ! i) of
                     (sta, resp) \<Rightarrow> (stas[i := sta], resp)))))"

text \<open>An accepted request starts a session: its first frame sets the window. The frames that wait are not
  touched, by either action.\<close>

lemma process_addba_req_session:
  assumes "length (recvreorder_ctrl sta) = 16"
    "tid = unat (drop_bit 2 (get_le16 (req ! 1) (req ! 2)) AND 0xf)"
  shows "recvreorder_ctrl (process_addba_req True req sta) ! tid
      = (recvreorder_ctrl sta ! tid)\<lparr>indicate_seq := 0xffff, ctrl_enable := True\<rparr>"
proof -
  have "drop_bit 2 (get_le16 (req ! 1) (req ! 2)) AND 0xf \<le> 0xf" by (rule word_and_le1)
  then have "tid \<le> 15" unfolding assms(2) word_le_nat_alt by simp
  then show ?thesis using assms by (simp add: process_addba_req_def Let_def)
qed

section \<open>Properties\<close>

text \<open>C8. In a block-ack session that has just been set up, whatever the order in which frames arrive and
  whenever the timer expires, the frames indicated to the stack are in strictly increasing order of their
  unbounded sequence numbers (so none twice), each of them arrived, those still waiting come after
  all of them, and at most 63 wait. The 12 bit numbers wrap without harm as long as every frame is less
  than half the number space away from the window.\<close>

theorem reorder_in_order:
  assumes "\<not> bDriverStopped ad" "\<not> bSurpriseRemoved ad" "ctrl_enable c" "indicate_seq c = 0xffff"
    "pending_recvframe_queue c = []" "wsize_b c = 64" "run_ok ad (S, []) (Rx S f # es)"
  shows "\<exists>c' D W. reorder_run ad c (Rx S f # es) = Some (c', map (\<lambda>s. indicate_out ad (snd s)) D)
    \<and> pending_recvframe_queue c' = map snd W \<and> sorted_wrt (<) (map fst (D @ W))
    \<and> set (D @ W) \<subseteq> arrivals ad (Rx S f # es) \<and> length W \<le> 63"
proof -
  obtain g W D where sp: "spec_run ad (S, []) (Rx S f # es) = ((g, W), D)" by (metis surj_pair)
  define c0 where "c0 = c\<lparr>indicate_seq := sn S\<rparr>"
  have c0: "reorder_rel (S, []) c0" "ctrl_enable c0"
    using assms by (simp_all add: c0_def reorder_rel_def spec_inv_def tags_ok_def)
  obtain c' where c': "reorder_run ad c0 (Rx S f # es) = Some (c', map (\<lambda>s. indicate_out ad (snd s)) D)"
      "reorder_rel (g, W) c'"
    using reorder_run_refines [OF assms(7) c0 assms(1,2) sp] by blast
  have "spec_inv (S, [])" by (simp add: spec_inv_def)
  note o = spec_run_order [OF this sp]
  have "reorder_run ad c (Rx S f # es) = reorder_run ad c0 (Rx S f # es)"
    using reorder_init_run [OF assms(7,3,4)] by (simp add: c0_def)
  moreover have "pending_recvframe_queue c' = map snd W" using c'(2) by (simp add: reorder_rel_def)
  moreover have "length W \<le> 63" using o spec_inv_queue by blast
  moreover have "sorted_wrt (<) (map fst (D @ W))"
    using o by (fastforce simp: sorted_wrt_map sorted_wrt_append spec_inv_def)
  ultimately show ?thesis using c'(1) o by (intro exI [of _ c'] exI [of _ D] exI [of _ W]) simp
qed


fun out_frame :: "rx_out \<Rightarrow> recv_frame_hdr" where
  "out_frame (Indicated f) = f"
| "out_frame (Split f) = f"
| "out_frame (Orphaned f) = f"

lemma out_frame_indicate: "out_frame (indicate_out ad f) = f"
  by (simp add: indicate_out_def)

lemma indicate_loop_conserves:
  "indicate_loop ad ind q = (ind', out, q') \<Longrightarrow> q = map out_frame out @ q' \<and> set out \<subseteq> range (indicate_out ad)"
proof (induction q arbitrary: ind ind' out q')
  case (Cons f q)
  show ?case
  proof (cases "SN_LESS ind (seq_num f)")
    case False
    define j where "j = (if ind = seq_num f then (ind + 1) AND 0xfff else ind)"
    obtain i1 o1 q1 where l: "indicate_loop ad j q = (i1, o1, q1)" by (metis surj_pair)
    then have "out = indicate_out ad f # o1" "q' = q1"
      using Cons.prems False by (simp_all add: Let_def j_def [symmetric] split: prod.splits)
    then show ?thesis using Cons.IH [OF l] by (simp add: out_frame_indicate)
  qed (use Cons.prems in auto)
qed simp

lemma reorder_insert_mset: "reorder_insert f q = Some q' \<Longrightarrow> mset q' = add_mset f (mset q)"
  by (induction f q arbitrary: q' rule: reorder_insert.induct) (auto split: if_splits)

lemma reorder_window_conserves:
  assumes "reorder_window ad c f = (res, c', out)"
  shows "mset (map out_frame out) + mset (pending_recvframe_queue c')
      = mset (pending_recvframe_queue c) + (if res = RTW_SUCCESS then {#f#} else {#})
    \<and> set out \<subseteq> range (indicate_out ad) \<and> (res = RTW_FAIL \<longrightarrow> out = [])"
proof -
  obtain b c1 where k: "check_indicate_seq c (seq_num f) = (b, c1)" by fastforce
  have p: "pending_recvframe_queue c1 = pending_recvframe_queue c"
    using k by (auto simp: check_indicate_seq_def Let_def split: if_splits)
  show ?thesis
  proof (cases "b \<and> reorder_insert f (pending_recvframe_queue c1) \<noteq> None")
    case False
    then show ?thesis using assms p k
      by (cases b) (auto simp: reorder_window_def enqueue_reorder_recvframe_def split: if_splits)
  next
    case True
    then obtain q where q: "reorder_insert f (pending_recvframe_queue c1) = Some q" by auto
    obtain ind' o' q' where l: "indicate_loop ad (indicate_seq c1) q = (ind', o', q')" by (metis surj_pair)
    show ?thesis using assms k True q l indicate_loop_conserves [OF l] reorder_insert_mset [OF q] p
      by (auto simp: reorder_window_def enqueue_reorder_recvframe_def recv_indicatepkts_in_order_def)
  qed
qed

text \<open>C36. Ownership of frames: a frame that is taken either waits or is given away, one that is refused
  (result \<^verbatim>\<open>_FAIL\<close>, on which the caller frees it) is neither, and the frames that waited before
  still wait or are given away. A frame is given to nobody only while the driver stops.\<close>

theorem reorder_conserves_frames:
  assumes "recv_indicatepkt_reorder ad c f = Some (res, c', out)"
  shows "image_mset fr_id (mset (map out_frame out) + mset (pending_recvframe_queue c'))
      = image_mset fr_id (mset (pending_recvframe_queue c)) + (if res = RTW_SUCCESS then {#fr_id f#} else {#})
    \<and> (res = RTW_FAIL \<longrightarrow> out = [])
    \<and> (\<forall>h. Orphaned h \<in> set out \<longrightarrow>
         bDriverStopped ad \<or> bSurpriseRemoved ad \<or> rx_amsdu (fr_attrib h) \<notin> {0, 1})"
proof -
  have orph: "bDriverStopped ad \<or> bSurpriseRemoved ad \<or> rx_amsdu (fr_attrib h) \<notin> {0, 1}"
    if "Orphaned h \<in> set os" "set os \<subseteq> range (indicate_out ad)" for h os
  proof -
    from that obtain k where "Orphaned h = indicate_out ad k" by blast
    then show ?thesis by (auto simp: indicate_out_def split: if_splits)
  qed
  show ?thesis
  proof (cases "\<exists>g. fr_id g = fr_id f \<and> reorder_window ad c g = (res, c', out)")
    case True
    then obtain g where g: "fr_id g = fr_id f" "reorder_window ad c g = (res, c', out)" by blast
    note w = reorder_window_conserves [OF g(2)]
    have "image_mset fr_id (mset (map out_frame out) + mset (pending_recvframe_queue c'))
      = image_mset fr_id (mset (pending_recvframe_queue c)) + (if res = RTW_SUCCESS then {#fr_id f#} else {#})"
      unfolding conjunct1 [OF w] by (simp add: g(1))
    then show ?thesis using w orph [of _ out] by blast
  next
    case False
    then show ?thesis using assms
      by (auto simp: recv_indicatepkt_reorder_def Let_def wlanhdr_keeps(2)
          split: if_splits option.splits)
  qed
qed

lemma indicate_loop_length:
  "indicate_loop ad ind q = (ind', out, q') \<Longrightarrow> length q' + length out = length q"
  using indicate_loop_conserves [of ad ind q ind' out q'] by simp

lemma timeout_progress:
  assumes "\<not> bDriverStopped ad" "\<not> bSurpriseRemoved ad" "pending_recvframe_queue c = f # q"
  shows "length (pending_recvframe_queue (fst (rtw_reordering_ctrl_timeout_handler ad c))) \<le> length q"
proof -
  have "\<not> SN_LESS (seq_num f) (seq_num f)" by (simp add: SN_LESS_def)
  moreover obtain i1 o1 q1 where l: "indicate_loop ad ((seq_num f + 1) AND 0xfff) q = (i1, o1, q1)"
    by (metis surj_pair)
  ultimately show ?thesis using assms indicate_loop_length [OF l]
    by (simp add: rtw_reordering_ctrl_timeout_handler_def recv_indicatepkts_in_order_def Let_def)
qed

text \<open>A gap does not hold frames back for ever: every expiry of the timer indicates the first
  waiting frame, so after as many expiries as frames wait the queue is empty.\<close>

theorem reorder_timer_drains:
  assumes "\<not> bDriverStopped ad" "\<not> bSurpriseRemoved ad" "length (pending_recvframe_queue c) \<le> n"
  shows "pending_recvframe_queue (((\<lambda>c. fst (rtw_reordering_ctrl_timeout_handler ad c)) ^^ n) c) = []"
  using assms(3)
proof (induction n arbitrary: c)
  case (Suc n)
  have "length (pending_recvframe_queue (fst (rtw_reordering_ctrl_timeout_handler ad c))) \<le> n"
  proof (cases "pending_recvframe_queue c")
    case Nil
    then show ?thesis using assms(1,2)
      by (simp add: rtw_reordering_ctrl_timeout_handler_def recv_indicatepkts_in_order_def)
  next
    case (Cons f q)
    then show ?thesis using timeout_progress [OF assms(1,2) Cons] Suc.prems by simp
  qed
  then show ?case using Suc.IH by (simp add: funpow_Suc_right del: funpow.simps)
qed simp

text \<open>On an empty queue the handler arms its timer again.\<close>

lemma timeout_rearms_when_empty:
  "\<not> bDriverStopped ad \<Longrightarrow> \<not> bSurpriseRemoved ad \<Longrightarrow> pending_recvframe_queue c = [] \<Longrightarrow>
   rtw_reordering_ctrl_timeout_handler ad c = (c\<lparr>reordering_ctrl_timer := True\<rparr>, [])"
  by (simp add: rtw_reordering_ctrl_timeout_handler_def recv_indicatepkts_in_order_def)

text \<open>Frames of one traffic class for the witnesses: aggregates, which keep their bytes.\<close>

definition reorder_frame :: "nat \<Rightarrow> recv_frame_hdr" where
  "reorder_frame n = example_amsdu\<lparr>fr_id := n, fr_attrib := example_rx_attrib\<lparr>rx_amsdu := 1, rx_seq_num := sn n\<rparr>\<rparr>"

definition reorder_adapter :: rx_adapter where
  "reorder_adapter = \<lparr>bDriverStopped = False, bSurpriseRemoved = False, mp_state = False, skb_avail = 8\<rparr>"

definition reorder_session :: recv_reorder_ctrl where
  "reorder_session = reorder_init\<lparr>ctrl_enable := True\<rparr>"

lemma reorder_frame_window: "to_window ad (reorder_frame n) = Some (reorder_frame n)"
  by (simp add: to_window_def reorder_frame_def)

lemma reorder_frame_seq: "seq_num (reorder_frame n) = sn n"
  by (simp add: reorder_frame_def)

lemma reorder_frame_out: "indicate_out ad (reorder_frame n) = Split (reorder_frame n)"
  by (simp add: indicate_out_def reorder_frame_def)

lemma reorder_session_facts:
  "\<not> bDriverStopped reorder_adapter" "\<not> bSurpriseRemoved reorder_adapter" "ctrl_enable reorder_session"
  "indicate_seq reorder_session = 0xffff" "pending_recvframe_queue reorder_session = []"
  "wsize_b reorder_session = 64"
  by (simp_all add: reorder_adapter_def reorder_session_def reorder_init_def)

text \<open>After 4094: 4096 (residue 0), 4095, 4096 again, the timer, 4097.\<close>

definition example_events :: "rx_event list" where
  "example_events = [Rx 4096 (reorder_frame 4096), Rx 4095 (reorder_frame 4095),
     Rx 4096 (reorder_frame 4096), Expire, Rx 4097 (reorder_frame 4097)]"

theorem reorder_in_order_witness:
  "\<exists>c' D W. reorder_run reorder_adapter reorder_session (Rx 4094 (reorder_frame 4094) # example_events)
      = Some (c', map (\<lambda>s. indicate_out reorder_adapter (snd s)) D)
    \<and> pending_recvframe_queue c' = map snd W \<and> sorted_wrt (<) (map fst (D @ W))
    \<and> set (D @ W) \<subseteq> arrivals reorder_adapter (Rx 4094 (reorder_frame 4094) # example_events)
    \<and> length W \<le> 63"
proof (rule reorder_in_order [OF reorder_session_facts])
  show "run_ok reorder_adapter (4094, []) (Rx 4094 (reorder_frame 4094) # example_events)"
    by (simp add: example_events_def reorder_frame_window reorder_frame_seq spec_arrive_def spec_window_def
        spec_deliver_def first_gap_def spec_timeout_def)
qed

definition example_block :: "rx_event list" where
  "example_block = [Rx 4097 (reorder_frame 4097), Rx 4095 (reorder_frame 4095), Rx 4096 (reorder_frame 4096)]"


theorem reorder_conserves_frames_witness:
  "\<exists>res c' out. recv_indicatepkt_reorder reorder_adapter reorder_init (reorder_frame 5) = Some (res, c', out)
    \<and> image_mset fr_id (mset (map out_frame out) + mset (pending_recvframe_queue c')) = {#5#}"
proof -
  have e: "recv_indicatepkt_reorder reorder_adapter reorder_init (reorder_frame 5)
      = Some (RTW_SUCCESS, reorder_init\<lparr>indicate_seq := of_nat (unat (sn 5 + 1) mod 4096)\<rparr>, [Split (reorder_frame 5)])"
    by (simp add: recv_indicatepkt_reorder_def reorder_init_def reorder_frame_def)
  show ?thesis using e reorder_conserves_frames [OF e] by (simp add: reorder_init_def reorder_frame_def)
qed

theorem reorder_timer_drains_witness:
  "pending_recvframe_queue (((\<lambda>c. fst (rtw_reordering_ctrl_timeout_handler reorder_adapter c)) ^^ 2)
     (reorder_session\<lparr>pending_recvframe_queue := [reorder_frame 7, reorder_frame 9]\<rparr>)) = []"
  by (rule reorder_timer_drains) (simp_all add: reorder_adapter_def)

end
