(* ===== verification/RxPath.thy ===== *)
theory RxPath
  imports Reorder Wep Tkip Ccmp
begin

text \<open>
  What happens to a received data frame between the header checks and the reordering window
  (\<^verbatim>\<open>recv_func_posthandle\<close> of \<^verbatim>\<open>core/rtw_recv.c\<close>): software decryption, reassembly of fragments,
  the Michael check of the reassembled frame with the TKIP countermeasures, the 802.1X port filter and the
  hand-over to the window. The state records which frames were freed, so that ownership can be followed.
\<close>

section \<open>State\<close>

record rx_sec = security_priv +
  dot11AuthAlgrthm :: nat
  dot118021XGrprxmickey :: "bytes list"
  busetkipkey :: bool
  bcheck_grpkey :: bool
  sw_decrypt :: bool
  hw_decrypted :: bool
  btkip_countermeasure :: bool
  last_mic_err_time :: u32
  btkip_countermeasure_time :: u32

text \<open>The receive side of a station slot.\<close>

record rx_sta =
  defrag_q :: "recv_frame_hdr list"
  dot11tkiprxmickey :: bytes
  ieee8021x_blocked :: bool
  sta_reorder :: "recv_reorder_ctrl list"

text \<open>\<open>freed\<close> lists the calls of \<^verbatim>\<open>rtw_free_recvframe\<close>, \<open>given\<close> what the window gave
  away. \<open>jiffies\<close> and \<open>HZ\<close> are the kernel's clock, \<open>aes_message\<close> the static buffer of
  \<^verbatim>\<open>aes_decipher\<close>.\<close>

record rx_path =
  adapter :: rx_adapter
  securitypriv :: rx_sec
  stapriv :: sta_priv
  stations :: "rx_sta list"
  mlme_key_index :: nat
  ht_option :: bool
  jiffies :: u32
  HZ :: u32
  aes_message :: bytes
  freed :: "nat list"
  given :: "rx_out list"
  rx_drop :: nat

definition free_frames :: "recv_frame_hdr list \<Rightarrow> rx_path \<Rightarrow> rx_path" where
  "free_frames fs p = p\<lparr>freed := freed p @ map fr_id fs\<rparr>"

section \<open>Decryption\<close>

definition WEP_KEYS :: nat where "WEP_KEYS = 4"

text \<open>The frame with the memory a cipher leaves behind.\<close>

definition with_data :: "recv_frame_hdr \<Rightarrow> bytes \<Rightarrow> recv_frame_hdr" where
  "with_data f bs = f\<lparr>rx_mem := buf_put (rx_data_off f) bs (rx_mem f)\<rparr>"

text \<open>\<^verbatim>\<open>decryptor\<close>. \<open>None\<close> is an access outside the frame; the inner \<open>None\<close> a frame that was freed.\<close>

definition decryptor :: "rx_path \<Rightarrow> recv_frame_hdr \<Rightarrow> (rx_path \<times> recv_frame_hdr option) option" where
  "decryptor p f =
     (let a = fr_attrib f; sec = securitypriv p; d = frame_data f; enc = rx_encrypt a;
          oob = (enc \<noteq> NO_PRIVACY \<and> length d \<le> rx_hdrlen a + 3);
          ki = unat (drop_bit 6 (d ! (rx_hdrlen a + 3)) AND 3);
          ki = (if ki > WEP_KEYS then (if enc = WEP40 \<or> enc = WEP104 then dot11PrivacyKeyIndex sec
                  else dot118021XGrpKeyid sec) else ki);
          f = (if enc \<noteq> NO_PRIVACY then f\<lparr>fr_attrib := a\<lparr>rx_key_index := ki\<rparr>\<rparr> else f) in
      if oob then None
      else if enc \<noteq> NO_PRIVACY \<and> (rx_bdecrypted a = 0 \<or> sw_decrypt sec) then
        (let p = p\<lparr>securitypriv := sec\<lparr>hw_decrypted := False\<rparr>\<rparr>;
             base = security_priv.truncate sec in
         if enc = WEP40 \<or> enc = WEP104 then
           (case rtw_wep_decrypt base (cipher_view f) of None \<Rightarrow> None
            | Some (r, _) \<Rightarrow> Some (p, Some (with_data f (rx_data r))))
         else
           (case (if enc = TKIP then
                    map_option (\<lambda>(res, r). (res, r, aes_message p)) (rtw_tkip_decrypt base (stapriv p) (cipher_view f))
                  else if enc = AES then rtw_aes_decrypt base (stapriv p) (aes_message p) (cipher_view f)
                  else Some (RTW_SUCCESS, cipher_view f, aes_message p)) of
              None \<Rightarrow> None
            | Some (res, r, m) \<Rightarrow>
                (let p = p\<lparr>aes_message := m\<rparr>; f = with_data f (rx_data r)
                 in Some (if res = RTW_FAIL then (free_frames [f] p, None) else (p, Some f)))))
      else if rx_bdecrypted a = 1 \<and> enc \<noteq> NO_PRIVACY \<and> (busetkipkey sec \<or> enc \<noteq> TKIP) then
        Some (p\<lparr>securitypriv := sec\<lparr>hw_decrypted := True\<rparr>\<rparr>, Some f)
      else Some (p, Some f))"

section \<open>The Michael check and the TKIP countermeasures\<close>

text \<open>\<^verbatim>\<open>rtw_handle_tkip_mic_err\<close>, without the reports to user space.\<close>

definition rtw_handle_tkip_mic_err :: "rx_path \<Rightarrow> rx_path" where
  "rtw_handle_tkip_mic_err p =
     (let sec = securitypriv p; now = jiffies p in
      p\<lparr>securitypriv :=
        (if last_mic_err_time sec = 0 then sec\<lparr>last_mic_err_time := now\<rparr>
         else if now - last_mic_err_time sec < 60 * HZ p then
           sec\<lparr>btkip_countermeasure := True, last_mic_err_time := 0, btkip_countermeasure_time := now\<rparr>
         else sec\<lparr>last_mic_err_time := now\<rparr>)\<rparr>)"

text \<open>\<^verbatim>\<open>recvframe_chkmic\<close>: a length below the overhead wraps around and reads far beyond the frame. The
  group key index is below 4.\<close>

definition recvframe_chkmic :: "rx_path \<Rightarrow> recv_frame_hdr \<Rightarrow> (rtw_status \<times> rx_path \<times> recv_frame_hdr) option" where
  "recvframe_chkmic p f =
     (let a = fr_attrib f; sec = securitypriv p in
      if rx_encrypt a \<noteq> TKIP then Some (RTW_SUCCESS, p, f)
      else
        (case rtw_get_stainfo (stapriv p) (rx_ta a) of
           None \<Rightarrow> Some (RTW_SUCCESS, p, snd (recvframe_pull_tail f 8))
         | Some i \<Rightarrow>
             (let group = is_multicast_ether_addr (rx_ra a);
                  ovh = rx_hdrlen a + rx_iv_len a + rx_icv_len a + 8;
                  d = frame_data f; h = rx_hdrlen a + rx_iv_len a;
                  datalen = fr_len f - ovh;
                  mickey = (if group then dot118021XGrprxmickey sec ! rx_key_index a
                            else dot11tkiprxmickey (stations p ! i));
                  miccode = rtw_seccalctkipmic mickey d (buf_get h datalen d) (rx_priority a);
                  bmic_err = (miccode \<noteq> buf_get (h + datalen) 8 d) in
              if group \<and> \<not> binstallGrpkey sec then Some (RTW_FAIL, p, f)
              else if fr_len f < ovh then None
              else if bmic_err then
                (let brpt = \<not> (group \<and> rx_key_index a \<noteq> mlme_key_index p);
                     p = (if rx_bdecrypted a = 1 \<and> brpt then rtw_handle_tkip_mic_err p else p)
                 in Some (RTW_FAIL, p, snd (recvframe_pull_tail f 8)))
              else
                (let p = (if \<not> bcheck_grpkey sec \<and> group
                          then p\<lparr>securitypriv := sec\<lparr>bcheck_grpkey := True\<rparr>\<rparr> else p)
                 in Some (RTW_SUCCESS, p, snd (recvframe_pull_tail f 8))))))"

section \<open>Reassembly\<close>

text \<open>The loop of \<^verbatim>\<open>recvframe_defrag\<close>: the payloads of the following fragments are copied behind the first
  frame's, whose ICV is cut. The copy is not checked against the end of the buffer. The inner \<open>None\<close>
  is a fragment out of sequence.\<close>

fun defrag_loop :: "u8 \<Rightarrow> recv_frame_hdr \<Rightarrow> recv_frame_hdr list \<Rightarrow> recv_frame_hdr option option" where
  "defrag_loop curfragnum pr [] = Some (Some pr)"
| "defrag_loop curfragnum pr (nf # q) =
     (if curfragnum \<noteq> rx_frag_num (fr_attrib nf) then Some None
      else
        let wlanhdr_offset = (rx_hdrlen (fr_attrib nf) + rx_iv_len (fr_attrib nf)) mod 256;
            nf = snd (recvframe_pull nf (int wlanhdr_offset));
            pr = snd (recvframe_pull_tail pr (rx_icv_len (fr_attrib pr))) in
        if length (rx_mem pr) < rx_tail_off pr + fr_len nf then None
        else
          let pr = pr\<lparr>rx_mem := buf_put (rx_tail_off pr) (frame_data nf) (rx_mem pr)\<rparr>;
              pr = snd (recvframe_put pr (fr_len nf));
              pr = pr\<lparr>fr_attrib := (fr_attrib pr)\<lparr>rx_icv_len := rx_icv_len (fr_attrib nf)\<rparr>\<rparr>
          in defrag_loop (curfragnum + 1) pr q)"

text \<open>\<^verbatim>\<open>recvframe_defrag\<close> on a queue with at least one frame, which it empties: the frame, and the frames
  it frees.\<close>

definition recvframe_defrag :: "recv_frame_hdr list \<Rightarrow> (recv_frame_hdr option \<times> recv_frame_hdr list) option" where
  "recvframe_defrag q =
     (case q of [] \<Rightarrow> None
      | prframe # rest \<Rightarrow>
          if rx_frag_num (fr_attrib prframe) \<noteq> 0 then Some (None, q)
          else (case defrag_loop 1 prframe rest of None \<Rightarrow> None
                | Some None \<Rightarrow> Some (None, q)
                | Some (Some f) \<Rightarrow> Some (Some f, rest)))"

definition WIFI_DATA_TYPE :: u16 where "WIFI_DATA_TYPE = 8"

text \<open>The station whose queue collects the fragments: \<open>Inr None\<close> is the absence of a queue, \<open>Inl\<close> the missing
  broadcast station, whose address the code takes without a check.\<close>

definition defrag_sta :: "rx_path \<Rightarrow> recv_frame_hdr \<Rightarrow> unit + nat option" where
  "defrag_sta p f =
     (case rtw_get_stainfo (stapriv p) (rx_ta (fr_attrib f)) of
        Some i \<Rightarrow> Inr (Some i)
      | None \<Rightarrow>
          if GetFrameType (frame_data f) \<noteq> WIFI_DATA_TYPE then
            (case rtw_get_stainfo (stapriv p) bc_addr of None \<Rightarrow> Inl () | Some i \<Rightarrow> Inr (Some i))
          else Inr None)"

definition set_defrag_q :: "nat \<Rightarrow> recv_frame_hdr list \<Rightarrow> rx_path \<Rightarrow> rx_path" where
  "set_defrag_q i q p = p\<lparr>stations := (stations p)[i := (stations p ! i)\<lparr>defrag_q := q\<rparr>]\<rparr>"

text \<open>\<^verbatim>\<open>recvframe_chk_defrag\<close> up to the check of the code.\<close>

definition chk_defrag_queue :: "rx_path \<Rightarrow> recv_frame_hdr \<Rightarrow> (rx_path \<times> recv_frame_hdr option) option" where
  "chk_defrag_queue p f =
     (let a = fr_attrib f; ismfrag = rx_mfrag a; fragnum = rx_frag_num a in
      case defrag_sta p f of
        Inl _ \<Rightarrow> None
      | Inr qi \<Rightarrow>
          if ismfrag = 0 \<and> fragnum = 0 then Some (p, Some f)
          else if ismfrag = 1 then
            (case qi of None \<Rightarrow> Some (free_frames [f] p, None)
             | Some i \<Rightarrow>
                 let q = defrag_q (stations p ! i);
                     p = (if fragnum = 0 then free_frames q p else p);
                     q = (if fragnum = 0 then [] else q)
                 in Some (set_defrag_q i (q @ [f]) p, None))
          else if ismfrag = 0 then
            (case qi of None \<Rightarrow> Some (free_frames [f] p, None)
             | Some i \<Rightarrow>
                 (case recvframe_defrag (defrag_q (stations p ! i) @ [f]) of None \<Rightarrow> None
                  | Some (r, dead) \<Rightarrow> Some (free_frames dead (set_defrag_q i [] p), r)))
          else Some (p, None))"

definition recvframe_chk_defrag :: "rx_path \<Rightarrow> recv_frame_hdr \<Rightarrow> (rx_path \<times> recv_frame_hdr option) option" where
  "recvframe_chk_defrag p f =
     (case chk_defrag_queue p f of None \<Rightarrow> None
      | Some (p, None) \<Rightarrow> Some (p, None)
      | Some (p, Some g) \<Rightarrow>
          if rx_privacy (fr_attrib g) \<noteq> 0 then
            (case recvframe_chkmic p g of None \<Rightarrow> None
             | Some (RTW_FAIL, p, g) \<Rightarrow> Some (free_frames [g] p, None)
             | Some (RTW_SUCCESS, p, g) \<Rightarrow> Some (p, Some g))
          else Some (p, Some g))"

section \<open>The port filter and the hand-over\<close>

definition LLC_HEADER_SIZE :: nat where "LLC_HEADER_SIZE = 6"

text \<open>
  \<^verbatim>\<open>portctrl\<close> looks its station up through a pointer that is only set afterwards; \<open>found\<close> is whatever
  that lookup yields. An authenticator that blocks the station lets EAPOL frames (0x888e) through only.
\<close>

definition portctrl :: "nat option \<Rightarrow> rx_path \<Rightarrow> recv_frame_hdr \<Rightarrow> (rx_path \<times> recv_frame_hdr option) option" where
  "portctrl found p f =
     (let a = fr_attrib f; t = rx_hdrlen a + rx_iv_len a + LLC_HEADER_SIZE; m = drop (rx_data_off f) (rx_mem f) in
      if dot11AuthAlgrthm (securitypriv p) = 2 then
        (case found of None \<Rightarrow> Some (p, Some f)
         | Some i \<Rightarrow>
             if ieee8021x_blocked (stations p ! i) then
               (if length m < t + 2 then None
                else if get_be16 (m ! t) (m ! (t + 1)) = 0x888e then Some (p, Some f)
                else Some (free_frames [f] p, None))
             else Some (p, Some f))
      else Some (p, Some f))"

text \<open>\<^verbatim>\<open>process_recv_indicatepkts\<close>; \<open>ctrl\<close> is the station and traffic class of the frame's
  reorder control.\<close>

definition process_recv_indicatepkts ::
    "nat \<times> nat \<Rightarrow> rx_path \<Rightarrow> recv_frame_hdr \<Rightarrow> (rtw_status \<times> rx_path) option" where
  "process_recv_indicatepkts ctrl p f =
     (let (i, tid) = ctrl; running = (\<not> bDriverStopped (adapter p) \<and> \<not> bSurpriseRemoved (adapter p)) in
      if ht_option p then
        (case recv_indicatepkt_reorder (adapter p) (sta_reorder (stations p ! i) ! tid) f of None \<Rightarrow> None
         | Some (res, c, out) \<Rightarrow>
             (let p = p\<lparr>stations := (stations p)[i := (stations p ! i)\<lparr>sta_reorder := (sta_reorder (stations p ! i))[tid := c]\<rparr>],
                        given := given p @ out\<rparr>
              in Some (if res = RTW_FAIL \<and> running then RTW_FAIL else RTW_SUCCESS, p)))
      else
        (case wlanhdr_to_ethhdr (mp_state (adapter p)) f of None \<Rightarrow> None
         | Some g \<Rightarrow> Some (if running then (RTW_SUCCESS, p\<lparr>given := given p @ [Indicated g]\<rparr>) else (RTW_FAIL, p))))"

text \<open>\<^verbatim>\<open>recv_func_posthandle\<close>. When the hand-over refuses the frame it is the frame that came in
  that is freed, whichever frame came out of the reassembly.\<close>

definition recv_func_posthandle ::
    "nat option \<Rightarrow> nat \<times> nat \<Rightarrow> rx_path \<Rightarrow> recv_frame_hdr \<Rightarrow> (rtw_status \<times> rx_path) option" where
  "recv_func_posthandle found ctrl p prframe =
     (case decryptor p prframe of None \<Rightarrow> None
      | Some (p, None) \<Rightarrow> Some (RTW_FAIL, p\<lparr>rx_drop := rx_drop p + 1\<rparr>)
      | Some (p, Some f) \<Rightarrow>
     (case recvframe_chk_defrag p f of None \<Rightarrow> None
      | Some (p, None) \<Rightarrow> Some (RTW_SUCCESS, p\<lparr>rx_drop := rx_drop p + 1\<rparr>)
      | Some (p, Some f) \<Rightarrow>
     (case portctrl found p f of None \<Rightarrow> None
      | Some (p, None) \<Rightarrow> Some (RTW_FAIL, p\<lparr>rx_drop := rx_drop p + 1\<rparr>)
      | Some (p, Some f) \<Rightarrow>
     (case process_recv_indicatepkts ctrl p f of None \<Rightarrow> None
      | Some (RTW_SUCCESS, p) \<Rightarrow> Some (RTW_SUCCESS, p)
      | Some (RTW_FAIL, p) \<Rightarrow>
          Some (RTW_FAIL, (free_frames [prframe] p)\<lparr>rx_drop := rx_drop p + 1\<rparr>)))))"

section \<open>Reassembly inverts fragmentation\<close>

text \<open>What a sender transmits for a payload cut into chunks: the chunk of fragment \<open>n\<close> between a header
  with its IV and an ICV.\<close>

definition frag_parts :: "recv_frame_hdr \<Rightarrow> bytes \<times> bytes \<times> bytes" where
  "frag_parts f =
     (let a = fr_attrib f; d = frame_data f; h = rx_hdrlen a + rx_iv_len a; n = fr_len f - h - rx_icv_len a
      in (take h d, buf_get h n d, drop (h + n) d))"

definition frag_ok :: "u8 \<Rightarrow> recv_frame_hdr \<Rightarrow> bool" where
  "frag_ok n f \<longleftrightarrow> wf_frame f \<and> rx_frag_num (fr_attrib f) = n
     \<and> rx_hdrlen (fr_attrib f) + rx_iv_len (fr_attrib f) < 256
     \<and> rx_hdrlen (fr_attrib f) + rx_iv_len (fr_attrib f) + rx_icv_len (fr_attrib f) \<le> fr_len f"

fun frags_ok :: "u8 \<Rightarrow> recv_frame_hdr list \<Rightarrow> bool" where
  "frags_ok n [] \<longleftrightarrow> True"
| "frags_ok n (f # fs) \<longleftrightarrow> frag_ok n f \<and> frags_ok (n + 1) fs"

abbreviation chunk :: "recv_frame_hdr \<Rightarrow> bytes" where "chunk f \<equiv> fst (snd (frag_parts f))"
abbreviation frag_icv :: "recv_frame_hdr \<Rightarrow> bytes" where "frag_icv f \<equiv> snd (snd (frag_parts f))"

lemma frag_parts_data:
  assumes "frag_ok n f"
  shows "frame_data f = fst (frag_parts f) @ chunk f @ frag_icv f"
    "drop (rx_hdrlen (fr_attrib f) + rx_iv_len (fr_attrib f)) (frame_data f) = chunk f @ frag_icv f"
    "take (fr_len f - rx_icv_len (fr_attrib f)) (frame_data f) = fst (frag_parts f) @ chunk f"
    "length (frag_icv f) = rx_icv_len (fr_attrib f)"
proof -
  define h n d where "h = rx_hdrlen (fr_attrib f) + rx_iv_len (fr_attrib f)"
    and "n = fr_len f - h - rx_icv_len (fr_attrib f)" and "d = frame_data f"
  have l: "length d = fr_len f" "h + n + rx_icv_len (fr_attrib f) = fr_len f"
    using assms by (auto simp: frag_ok_def d_def frame_data_length h_def n_def)
  have fp: "frag_parts f = (take h d, buf_get h n d, drop (h + n) d)"
    by (simp add: frag_parts_def Let_def h_def n_def d_def)
  have s: "drop h d = buf_get h n d @ drop (h + n) d"
    by (metis add.commute append_take_drop_id buf_get_def drop_drop)
  show "drop (rx_hdrlen (fr_attrib f) + rx_iv_len (fr_attrib f)) (frame_data f) = chunk f @ frag_icv f"
    using s by (simp add: fp h_def[symmetric] d_def[symmetric])
  show "frame_data f = fst (frag_parts f) @ chunk f @ frag_icv f"
    using s by (simp add: fp d_def[symmetric]) (metis append_take_drop_id)
  show "take (fr_len f - rx_icv_len (fr_attrib f)) (frame_data f) = fst (frag_parts f) @ chunk f"
  proof -
    have "fr_len f - rx_icv_len (fr_attrib f) = h + n" using l by simp
    then show ?thesis by (simp add: fp d_def[symmetric] take_add buf_get_def)
  qed
  show "length (frag_icv f) = rx_icv_len (fr_attrib f)" using l by (simp add: fp)
qed

text \<open>Appending one fragment.\<close>

definition defrag_append :: "recv_frame_hdr \<Rightarrow> recv_frame_hdr \<Rightarrow> recv_frame_hdr" where
  "defrag_append pr nf =
     (let w = (rx_hdrlen (fr_attrib nf) + rx_iv_len (fr_attrib nf)) mod 256;
          nf' = snd (recvframe_pull nf (int w));
          pr = snd (recvframe_pull_tail pr (rx_icv_len (fr_attrib pr)));
          pr = pr\<lparr>rx_mem := buf_put (rx_tail_off pr) (frame_data nf') (rx_mem pr)\<rparr>;
          pr = snd (recvframe_put pr (fr_len nf'))
      in pr\<lparr>fr_attrib := (fr_attrib pr)\<lparr>rx_icv_len := rx_icv_len (fr_attrib nf)\<rparr>\<rparr>)"

lemma defrag_append:
  assumes wf: "wf_frame pr" and icv: "rx_icv_len (fr_attrib pr) \<le> fr_len pr" and nf: "frag_ok n nf"
    and room: "rx_tail_off pr + fr_len nf \<le> length (rx_mem pr)"
  shows "defrag_loop n pr (nf # q) = defrag_loop (n + 1) (defrag_append pr nf) q"
    "wf_frame (defrag_append pr nf)"
    "frame_data (defrag_append pr nf)
      = take (fr_len pr - rx_icv_len (fr_attrib pr)) (frame_data pr) @ chunk nf @ frag_icv nf"
    "fr_attrib (defrag_append pr nf) = (fr_attrib pr)\<lparr>rx_icv_len := rx_icv_len (fr_attrib nf)\<rparr>"
    "fr_id (defrag_append pr nf) = fr_id pr"
    "rx_tail_off (defrag_append pr nf) \<le> rx_tail_off pr + fr_len nf"
    "length (rx_mem (defrag_append pr nf)) = length (rx_mem pr)"
proof -
  define h where "h = rx_hdrlen (fr_attrib nf) + rx_iv_len (fr_attrib nf)"
  define i where "i = rx_icv_len (fr_attrib pr)"
  have n: "wf_frame nf" "h < 256" "h + rx_icv_len (fr_attrib nf) \<le> fr_len nf" "rx_frag_num (fr_attrib nf) = n"
    using nf by (auto simp: frag_ok_def h_def)
  define d where "d = chunk nf @ frag_icv nf"
  have d: "frame_data (snd (recvframe_pull nf (int h))) = d" "length d = fr_len nf - h"
    using frame_data_pull [OF n(1), of h] frag_parts_data(2) [OF nf] n(3) frame_data_length [OF n(1)]
    by (auto simp: h_def[symmetric] d_def simp flip: length_append) (metis length_drop length_append)
  have pn: "fr_len (snd (recvframe_pull nf (int h))) = fr_len nf - h"
    using n by (auto simp: rxf_simps wf_frame_def)
  define t where "t = rx_tail_off pr - i"
  have w: "rx_data_off pr \<le> t" "t + length d \<le> length (rx_mem pr)" "t + i = rx_tail_off pr"
      "fr_len pr - i = t - rx_data_off pr"
    using wf icv room d(2) by (auto simp: wf_frame_def t_def i_def)
  define g where "g = pr\<lparr>rx_mem := buf_put t d (rx_mem pr), rx_tail_off := t + length d,
      fr_len := fr_len pr - i + length d, fr_attrib := (fr_attrib pr)\<lparr>rx_icv_len := rx_icv_len (fr_attrib nf)\<rparr>\<rparr>"
  have pt: "recvframe_pull_tail pr i = (True, pr\<lparr>rx_tail_off := t, fr_len := fr_len pr - i\<rparr>)"
    using w by (simp add: recvframe_pull_tail_def t_def)
  have eq: "defrag_append pr nf = g"
    using w d(2) n(2) by (simp add: defrag_append_def Let_def h_def[symmetric] i_def[symmetric] d(1) pn pt
        recvframe_put_def len_simps g_def)
  show "defrag_loop n pr (nf # q) = defrag_loop (n + 1) (defrag_append pr nf) q"
    using n(2,4) w d(2)
    by (simp add: Let_def h_def[symmetric] i_def[symmetric] d(1) pn pt eq recvframe_put_def len_simps g_def
        fr_attrib_moves)
  show "wf_frame (defrag_append pr nf)" using w by (auto simp: eq g_def wf_frame_def len_simps)
  show "frame_data (defrag_append pr nf)
      = take (fr_len pr - rx_icv_len (fr_attrib pr)) (frame_data pr) @ chunk nf @ frag_icv nf"
  proof -
    have "frame_data (defrag_append pr nf) = buf_get (rx_data_off pr) (t - rx_data_off pr + length d) (buf_put t d (rx_mem pr))"
      using w by (simp add: eq g_def frame_data_def)
    also have "\<dots> = buf_get (rx_data_off pr) (t - rx_data_off pr) (buf_put t d (rx_mem pr))
        @ buf_get t (length d) (buf_put t d (rx_mem pr))"
      using buf_get_append [of "rx_data_off pr" "t - rx_data_off pr" _ "length d"] w(1) by simp
    also have "\<dots> = buf_get (rx_data_off pr) (t - rx_data_off pr) (rx_mem pr) @ d"
      using w by (simp add: buf_get_put_below buf_get_put_same)
    finally show ?thesis
      using w wf by (simp add: frame_data_def i_def[symmetric] buf_get_def d_def min_absorb1)
  qed
  show "fr_attrib (defrag_append pr nf) = (fr_attrib pr)\<lparr>rx_icv_len := rx_icv_len (fr_attrib nf)\<rparr>"
    "fr_id (defrag_append pr nf) = fr_id pr" by (simp_all add: eq g_def)
  show "rx_tail_off (defrag_append pr nf) \<le> rx_tail_off pr + fr_len nf"
    using w d(2) by (simp add: eq g_def)
  show "length (rx_mem (defrag_append pr nf)) = length (rx_mem pr)" using w by (simp add: eq g_def len_simps)
qed

lemma defrag_loop_ok:
  assumes "wf_frame pr" "rx_icv_len (fr_attrib pr) \<le> fr_len pr" "frags_ok n q" "q \<noteq> []"
    "rx_tail_off pr + sum_list (map fr_len q) \<le> length (rx_mem pr)"
  shows "\<exists>g. defrag_loop n pr q = Some (Some g) \<and> wf_frame g \<and> fr_id g = fr_id pr
    \<and> fr_attrib g = (fr_attrib pr)\<lparr>rx_icv_len := rx_icv_len (fr_attrib (last q))\<rparr>
    \<and> frame_data g = take (fr_len pr - rx_icv_len (fr_attrib pr)) (frame_data pr)
        @ concat (map chunk q) @ frag_icv (last q)"
  using assms
proof (induction q arbitrary: n pr)
  case (Cons nf q)
  have nf: "frag_ok n nf" using Cons.prems by simp
  define pr' where "pr' = defrag_append pr nf"
  have "rx_tail_off pr + fr_len nf \<le> length (rx_mem pr)" using Cons.prems by simp
  note a = defrag_append [OF Cons.prems(1,2) nf this, folded pr'_def]
  note parts = frag_parts_data(4) [OF nf]
  show ?case
  proof (cases "q = []")
    case True
    then show ?thesis using a by simp
  next
    case False
    define B where "B = take (fr_len pr - rx_icv_len (fr_attrib pr)) (frame_data pr) @ chunk nf"
    have B: "frame_data pr' = B @ frag_icv nf" by (simp add: B_def a(3))
    have len': "fr_len pr' = length B + rx_icv_len (fr_attrib nf)"
      using frame_data_length [OF a(2)] unfolding B by (simp add: parts)
    have icv': "rx_icv_len (fr_attrib pr') \<le> fr_len pr'" unfolding len' a(4) by simp
    have "\<exists>g. defrag_loop (n + 1) pr' q = Some (Some g) \<and> wf_frame g \<and> fr_id g = fr_id pr'
      \<and> fr_attrib g = (fr_attrib pr')\<lparr>rx_icv_len := rx_icv_len (fr_attrib (last q))\<rparr>
      \<and> frame_data g = take (fr_len pr' - rx_icv_len (fr_attrib pr')) (frame_data pr')
          @ concat (map chunk q) @ frag_icv (last q)"
      using Cons.prems a(6,7) False by (intro Cons.IH [OF a(2) icv']) simp_all
    moreover have "take (fr_len pr' - rx_icv_len (fr_attrib pr')) (frame_data pr') = B"
      by (simp add: a(4) len' B)
    ultimately show ?thesis using a(1,4,5) False by (simp add: B_def)
  qed
qed simp

lemma defrag_loop_out_of_sequence:
  assumes "wf_frame pr" "rx_icv_len (fr_attrib pr) \<le> fr_len pr" "frags_ok n fs"
    "rx_frag_num (fr_attrib f) \<noteq> n + of_nat (length fs)"
    "rx_tail_off pr + sum_list (map fr_len fs) \<le> length (rx_mem pr)"
  shows "defrag_loop n pr (fs @ f # rest) = Some None"
  using assms
proof (induction fs arbitrary: n pr)
  case (Cons nf q)
  have nf: "frag_ok n nf" using Cons.prems by simp
  define pr' where "pr' = defrag_append pr nf"
  have "rx_tail_off pr + fr_len nf \<le> length (rx_mem pr)" using Cons.prems by simp
  note a = defrag_append [OF Cons.prems(1,2) nf this, folded pr'_def]
  have "rx_icv_len (fr_attrib pr') \<le> fr_len pr'"
    using frame_data_length [OF a(2)] unfolding a(3) by (simp add: a(4) frag_parts_data(4) [OF nf])
  then have "defrag_loop (n + 1) pr' (q @ f # rest) = Some None"
    using Cons.prems a(6,7) by (intro Cons.IH [OF a(2)]) (simp_all add: algebra_simps)
  then show ?case using a(1) by simp
qed simp

section \<open>Properties\<close>

text \<open>C29. Reassembly: the fragments of a payload, numbered from 0, yield one frame with the first
  fragment's header and IV, the whole payload in order and the last fragment's ICV; the other fragments
  are freed. The buffer of the first fragment has to have room, which the code does not check.\<close>

theorem recvframe_defrag_reassembles:
  assumes "frags_ok 0 (f # q)" "q \<noteq> []" "rx_tail_off f + sum_list (map fr_len q) \<le> length (rx_mem f)"
  shows "\<exists>g. recvframe_defrag (f # q) = Some (Some g, q) \<and> wf_frame g \<and> fr_id g = fr_id f
    \<and> frame_data g = fst (frag_parts f) @ concat (map chunk (f # q)) @ frag_icv (last q)
    \<and> rx_icv_len (fr_attrib g) = length (frag_icv (last q))"
proof -
  have f: "frag_ok 0 f" "frags_ok 1 q" using assms(1) by simp_all
  then have w: "wf_frame f" "rx_icv_len (fr_attrib f) \<le> fr_len f" "rx_frag_num (fr_attrib f) = 0"
    by (auto simp: frag_ok_def)
  obtain g where g: "defrag_loop 1 f q = Some (Some g)" "wf_frame g" "fr_id g = fr_id f"
      "fr_attrib g = (fr_attrib f)\<lparr>rx_icv_len := rx_icv_len (fr_attrib (last q))\<rparr>"
      "frame_data g = take (fr_len f - rx_icv_len (fr_attrib f)) (frame_data f)
        @ concat (map chunk q) @ frag_icv (last q)"
    using defrag_loop_ok [OF w(1,2) f(2) assms(2,3)] by blast
  have "\<exists>m. frag_ok m l" if "frags_ok n fs" "l \<in> set fs" for n fs l
    using that by (induction fs arbitrary: n) auto
  then obtain m where "frag_ok m (last q)" using f(2) assms(2) by (metis last_in_set)
  then have "length (frag_icv (last q)) = rx_icv_len (fr_attrib (last q))" by (rule frag_parts_data(4))
  then show ?thesis using g w(3) frag_parts_data(3) [OF f(1)] by (simp add: recvframe_defrag_def)
qed

text \<open>A queue with a fragment out of sequence, or without its first fragment, is dropped whole.\<close>

theorem recvframe_defrag_rejects:
  assumes "frags_ok 0 fs" "rx_frag_num (fr_attrib f) \<noteq> of_nat (length fs)"
    "fs \<noteq> [] \<longrightarrow> rx_tail_off (hd fs) + sum_list (map fr_len (tl fs)) \<le> length (rx_mem (hd fs))"
  shows "recvframe_defrag (fs @ f # rest) = Some (None, fs @ f # rest)"
proof (cases fs)
  case Nil then show ?thesis using assms by (simp add: recvframe_defrag_def)
next
  case (Cons p q)
  then have "frag_ok 0 p" "frags_ok 1 q" using assms(1) by simp_all
  then show ?thesis using assms(2,3) Cons defrag_loop_out_of_sequence [of p 1 q f rest]
    by (simp add: recvframe_defrag_def frag_ok_def add.commute)
qed

text \<open>C34. The Michael check: a TKIP frame from a known station to this one is accepted exactly when the eight
  bytes behind the payload are the Michael code of its addresses, its priority and the payload under the
  station's key. The frame then ends with its ICV where the MIC began, so that the conversion to Ethernet,
  which cuts the ICV, is left with the payload.\<close>

theorem recvframe_chkmic_michael:
  assumes "wf_frame f" "a = fr_attrib f" "rx_encrypt a = TKIP"
    "rtw_get_stainfo (stapriv p) (rx_ta a) = Some i" "\<not> is_multicast_ether_addr (rx_ra a)"
    "key = dot11tkiprxmickey (stations p ! i)" "8 \<le> length key"
    "frame_data f = hb @ payload @ mic @ icv" "length hb = rx_hdrlen a + rx_iv_len a"
    "length mic = 8" "length icv = rx_icv_len a"
  shows "\<exists>p' g. recvframe_chkmic p f =
      Some (if mic = michael key (frame_DA (frame_data f) @ frame_SA (frame_data f) @ [rx_priority a, 0, 0, 0] @ payload)
            then RTW_SUCCESS else RTW_FAIL, p', g)
    \<and> wf_frame g \<and> llc_payload g = payload"
proof -
  define h where "h = rx_hdrlen a + rx_iv_len a"
  define d where "d = frame_data f"
  define code where "code = michael key (frame_DA d @ frame_SA d @ [rx_priority a, 0, 0, 0] @ payload)"
  have len: "fr_len f = h + length payload + 8 + rx_icv_len a"
    using frame_data_length [OF assms(1)] assms(8-11) by (simp add: h_def)
  have pay: "buf_get h (length payload) d = payload" "buf_get (h + length payload) 8 d = mic"
    using assms(8-11) by (simp_all add: d_def h_def buf_get_def)
  have dl: "fr_len f - (h + rx_icv_len a + 8) = length payload" "\<not> fr_len f < h + rx_icv_len a + 8"
    using len by simp_all
  have code: "rtw_seccalctkipmic key d payload (rx_priority a) = code"
    by (simp add: code_def calctkipmic_michael [OF assms(7)])
  define g where "g = snd (recvframe_pull_tail f 8)"
  have "recvframe_pull_tail f 8 = (True, f\<lparr>rx_tail_off := rx_tail_off f - 8, fr_len := fr_len f - 8\<rparr>)"
    using len assms(1) by (auto simp: recvframe_pull_tail_def wf_frame_def)
  then have g: "wf_frame g" "frame_data g = take (fr_len f - 8) d" "fr_attrib g = a" "fr_len g = fr_len f - 8"
    using wf_pull_tail [OF assms(1), of 8] frame_data_pull_tail [OF assms(1), of 8] len assms(2)
    by (simp_all add: g_def d_def)
  have "take (fr_len f - 8 - rx_icv_len a) (take (fr_len f - 8) d) = hb @ payload"
    using assms(8-11) len by (simp add: d_def h_def)
  then have "llc_payload g = payload"
    using assms(3,9) by (simp add: llc_payload_def Let_def g(2-4))
  moreover have "\<exists>p'. recvframe_chkmic p f = Some (if mic = code then RTW_SUCCESS else RTW_FAIL, p', g)"
    using assms(3-6) dl code pay
    by (auto simp: recvframe_chkmic_def Let_def assms(2)[symmetric] h_def[symmetric] d_def[symmetric] g_def[symmetric])
  ultimately show ?thesis using g(1) unfolding code_def d_def by blast
qed

text \<open>TKIP countermeasures: after a first Michael failure, a second one starts them if and only if it
  comes less than 60 seconds later on the wrapping clock, and the window restarts otherwise.\<close>

theorem tkip_countermeasures:
  assumes "last_mic_err_time (securitypriv p) = 0" "\<not> btkip_countermeasure (securitypriv p)"
    "jiffies p = t1" "t1 \<noteq> 0" "p1 = (rtw_handle_tkip_mic_err p)\<lparr>jiffies := t2\<rparr>"
  shows "(btkip_countermeasure (securitypriv (rtw_handle_tkip_mic_err p1)) \<longleftrightarrow> t2 - t1 < 60 * HZ p)
    \<and> \<not> btkip_countermeasure (securitypriv p1)
    \<and> last_mic_err_time (securitypriv (rtw_handle_tkip_mic_err p1)) = (if t2 - t1 < 60 * HZ p then 0 else t2)"
  using assms by (auto simp: rtw_handle_tkip_mic_err_def Let_def)

text \<open>While 802.1X blocks a station only its EAPOL frames pass the port filter; every other frame is
  freed.\<close>

theorem portctrl_blocks:
  assumes "wf_frame f" "a = fr_attrib f" "dot11AuthAlgrthm (securitypriv p) = 2"
    "ieee8021x_blocked (stations p ! i)" "rx_hdrlen a + rx_iv_len a + 8 \<le> fr_len f"
    "t = rx_hdrlen a + rx_iv_len a + 6"
  shows "portctrl (Some i) p f =
    Some (if buf_get t 2 (frame_data f) = [0x88, 0x8e] then (p, Some f)
          else (p\<lparr>freed := freed p @ [fr_id f]\<rparr>, None))"
proof -
  define m where "m = drop (rx_data_off f) (rx_mem f)"
  have l: "t + 2 \<le> length m" "t + 2 \<le> fr_len f" using assms by (auto simp: wf_frame_def m_def)
  have "buf_get t 2 (frame_data f) = buf_get t 2 m"
    using l(2) by (simp add: frame_data_def m_def buf_get_def drop_take add.commute)
  also have "\<dots> = [m ! t, m ! (t + 1)]"
    using l(1) by (intro nth_equalityI) (auto simp: len_simps nth_buf_get less_Suc_eq numeral_2_eq_2)
  finally have b: "buf_get t 2 (frame_data f) = [0x88, 0x8e] \<longleftrightarrow> get_be16 (m ! t) (m ! (t + 1)) = 0x888e"
    using get_be16_inj [of "m ! t" "m ! (t + 1)" "0x88" "0x8e"] by (simp add: get_be16_def [of "0x88" "0x8e"])
  show ?thesis unfolding b
    using assms l(1)
    by (simp add: portctrl_def Let_def LLC_HEADER_SIZE_def assms(2)[symmetric] m_def[symmetric] free_frames_def)
qed

text \<open>Two fragments of one payload, without privacy.\<close>

definition example_frag :: "nat \<Rightarrow> u8 \<Rightarrow> bytes \<Rightarrow> recv_frame_hdr" where
  "example_frag i n body = \<lparr>fr_id = i, fr_attrib = example_rx_attrib\<lparr>rx_encrypt := NO_PRIVACY, rx_iv_len := 0,
       rx_icv_len := 0, rx_privacy := 0, rx_frag_num := n, rx_mfrag := (if n = 0 then 1 else 0)\<rparr>,
     rx_mem = [8, 0] @ replicate 22 0 @ body @ replicate 64 0, rx_data_off = 0,
     rx_tail_off = 24 + length body, fr_len = 24 + length body\<rparr>"

lemma example_frag_ok: "frag_ok n (example_frag i n body)"
  by (simp add: frag_ok_def example_frag_def example_rx_attrib_def wf_frame_def)

theorem recvframe_defrag_reassembles_witness:
  "\<exists>g. recvframe_defrag [example_frag 1 0 (rtw_rfc1042_header @ [8, 0]), example_frag 2 1 [1, 2, 3]]
      = Some (Some g, [example_frag 2 1 [1, 2, 3]])
    \<and> frame_data g = [8, 0] @ replicate 22 0 @ rtw_rfc1042_header @ [8, 0] @ [1, 2, 3]"
proof -
  have "frags_ok 0 [example_frag 1 0 (rtw_rfc1042_header @ [8, 0]), example_frag 2 1 [1, 2, 3]]"
    by (simp add: example_frag_ok)
  from recvframe_defrag_reassembles [OF this] show ?thesis
    by (simp add: example_frag_def example_rx_attrib_def frag_parts_def frame_data_def buf_get_def
        rtw_rfc1042_header_def) blast
qed

theorem recvframe_defrag_rejects_witness:
  "recvframe_defrag ([example_frag 1 0 [1, 2]] @ example_frag 2 2 [3] # [])
     = Some (None, [example_frag 1 0 [1, 2]] @ example_frag 2 2 [3] # [])"
  by (rule recvframe_defrag_rejects)
     (simp_all add: example_frag_ok, simp_all add: example_frag_def example_rx_attrib_def)

text \<open>A station that has sent the first fragment, and a driver that is being stopped when the last one comes.\<close>

definition example_path :: rx_path where
  "example_path = \<lparr>adapter = reorder_adapter\<lparr>bDriverStopped := True\<rparr>,
     securitypriv = \<lparr>dot11PrivacyKeyIndex = 0, dot11DefKey = [], dot11DefKeylen = [], dot118021XGrpKeyid = 0,
       dot118021XGrpKey = [], binstallGrpkey = False, dot11AuthAlgrthm = 0, dot118021XGrprxmickey = [],
       busetkipkey = False, bcheck_grpkey = False, sw_decrypt = False, hw_decrypted = False,
       btkip_countermeasure = False, last_mic_err_time = 0, btkip_countermeasure_time = 0\<rparr>,
     stapriv = \<lparr>sta_buf = [\<lparr>hwaddr = replicate 6 2, sta_state = FW_LINKED, dot118021x_UncstKey = []\<rparr>],
       free_sta_queue = [], sta_hash = replicate 32 [0], asoc_sta_count = 1\<rparr>,
     stations = [\<lparr>defrag_q = [example_frag 1 0 [0xaa, 0xaa, 3, 0, 0, 0, 8, 0]], dot11tkiprxmickey = [],
       ieee8021x_blocked = False, sta_reorder = replicate 16 reorder_init\<rparr>],
     mlme_key_index = 0, ht_option = False, jiffies = 0, HZ = 100, aes_message = [], freed = [], given = [],
     rx_drop = 0\<rparr>"

lemma length_michael: "length (michael key msg) = 8"
  by (simp add: michael_def put_le32_def split: prod.split)

definition mic_key :: bytes where "mic_key = [1, 2, 3, 4, 5, 6, 7, 8]"

definition mic_path :: rx_path where
  "mic_path = example_path\<lparr>stations := [(stations example_path ! 0)\<lparr>dot11tkiprxmickey := mic_key\<rparr>]\<rparr>"

definition mic_payload :: bytes where "mic_payload = rtw_rfc1042_header @ [8, 0, 1, 2]"

definition mic_header :: bytes where "mic_header = [8, 0] @ replicate 30 0"

definition mic_frame :: "bytes \<Rightarrow> recv_frame_hdr" where
  "mic_frame mic = \<lparr>fr_id = 1, fr_attrib = example_rx_attrib\<lparr>rx_encrypt := TKIP, rx_icv_len := 4\<rparr>,
     rx_mem = mic_header @ mic_payload @ mic @ replicate 4 9, rx_data_off = 0,
     rx_tail_off = 46 + length mic, fr_len = 46 + length mic\<rparr>"

lemma mic_frame_data: "frame_data (mic_frame mic) = mic_header @ mic_payload @ mic @ replicate 4 9"
  by (simp add: frame_data_def mic_frame_def buf_get_def mic_header_def mic_payload_def rtw_rfc1042_header_def)

lemma mic_frame_addr:
  "frame_DA (frame_data (mic_frame mic)) @ frame_SA (frame_data (mic_frame mic)) @ [rx_priority example_rx_attrib, 0, 0, 0]
     @ mic_payload = replicate 16 0 @ mic_payload"
  unfolding mic_frame_data mic_header_def
  by (simp add: frame_DA_def frame_SA_def to_ds_def from_ds_def buf_get_def example_rx_attrib_def replicate_pred)

theorem recvframe_chkmic_michael_witness:
  "\<exists>p' g. recvframe_chkmic mic_path (mic_frame (michael mic_key (replicate 16 0 @ mic_payload)))
     = Some (RTW_SUCCESS, p', g) \<and> llc_payload g = mic_payload"
proof -
  define mic where "mic = michael mic_key (replicate 16 0 @ mic_payload)"
  define a where "a = fr_attrib (mic_frame mic)"
  have l: "length mic = 8" by (simp add: mic_def length_michael)
  have a: "rx_encrypt a = TKIP" "rx_ta a = replicate 6 2" "rx_ra a = replicate 6 4"
    "rx_hdrlen a + rx_iv_len a = 32" "rx_icv_len a = 4" "rx_priority a = rx_priority example_rx_attrib"
    by (simp_all add: a_def mic_frame_def example_rx_attrib_def)
  have st: "rtw_get_stainfo (stapriv mic_path) (replicate 6 2) = Some 0" by code_simp
  have k: "dot11tkiprxmickey (stations mic_path ! 0) = mic_key" "8 \<le> length mic_key"
    by (simp_all add: mic_path_def mic_key_def)
  have w: "wf_frame (mic_frame mic)"
    by (simp add: wf_frame_def mic_frame_def mic_header_def mic_payload_def rtw_rfc1042_header_def)
  have m: "\<not> is_multicast_ether_addr (rx_ra a)" by (simp add: a is_multicast_ether_addr_def)
  have st: "rtw_get_stainfo (stapriv mic_path) (rx_ta a) = Some 0" by (simp only: a st)
  have h: "length mic_header = rx_hdrlen a + rx_iv_len a" "length (replicate 4 9) = rx_icv_len a"
    by (simp_all add: a mic_header_def)
  from recvframe_chkmic_michael [OF w a_def a(1) st m k(1)[symmetric] k(2) mic_frame_data h(1) l h(2)]
  show ?thesis unfolding a(6) mic_frame_addr by (simp add: mic_def[symmetric]) blast
qed

theorem tkip_countermeasures_witness:
  "btkip_countermeasure (securitypriv (rtw_handle_tkip_mic_err
     ((rtw_handle_tkip_mic_err (example_path\<lparr>jiffies := - 100\<rparr>))\<lparr>jiffies := 200\<rparr>)))"
  using tkip_countermeasures [of "example_path\<lparr>jiffies := - 100\<rparr>" "- 100"
      "(rtw_handle_tkip_mic_err (example_path\<lparr>jiffies := - 100\<rparr>))\<lparr>jiffies := 200\<rparr>" 200]
  by (simp add: example_path_def)

theorem portctrl_blocks_witness:
  "portctrl (Some 0) (example_path\<lparr>securitypriv := (securitypriv example_path)\<lparr>dot11AuthAlgrthm := 2\<rparr>,
       stations := [(stations example_path ! 0)\<lparr>ieee8021x_blocked := True\<rparr>]\<rparr>)
     (example_frag 5 0 (rtw_rfc1042_header @ [8, 0, 1, 2]))
   = Some (example_path\<lparr>securitypriv := (securitypriv example_path)\<lparr>dot11AuthAlgrthm := 2\<rparr>,
       stations := [(stations example_path ! 0)\<lparr>ieee8021x_blocked := True\<rparr>], freed := [5]\<rparr>, None)"
  by (subst portctrl_blocks [OF _ refl, where t = 30])
     (simp_all add: example_path_def example_frag_def example_rx_attrib_def wf_frame_def rtw_rfc1042_header_def
       frame_data_def buf_get_def)

text \<open>The reassembled frame 1 is lost and the fragment 2, freed by the reassembly, is freed again.\<close>

lemma posthandle_frees_twice:
  "map_option (\<lambda>(res, p). (res, freed p, given p))
     (recv_func_posthandle None (0, 0) example_path (example_frag 2 1 [1, 2, 3]))
   = Some (RTW_FAIL, [2, 2], [])"
  by code_simp

end
