(* ===== verification/StaTable.thy ===== *)
theory StaTable
  imports Reorder
begin

text \<open>
  Allocation and release of stations (\<^verbatim>\<open>core/rtw_sta_mgt.c\<close>), the assignment of association
  identifiers by \<^verbatim>\<open>OnAssocReq\<close> and the access control list. The slots of the station array are
  partitioned into the queue of free ones and the hash lists; the partition is an invariant of every
  operation, and lookup, allocation and release behave like those of a map from addresses to slots.

  A step runs under \<^verbatim>\<open>sta_hash_lock\<close>, so operations are atomic. Frames that wait at a station are
  named by numbers; the ones a release frees are appended to \<open>freed_xmit\<close> and \<open>freed_recv\<close>.
\<close>

section \<open>State\<close>

text \<open>One access category of \<^verbatim>\<open>struct sta_xmit_priv\<close>.\<close>

record tx_servq =
  sta_pending :: "nat list"
  tx_pending :: bool
  qcnt :: int

text \<open>The fields of \<^verbatim>\<open>struct sta_info\<close> beside the address, state and key.\<close>

record sta_slot =
  aid :: nat
  mac_id :: nat
  tid_rxseq :: "u16 list"
  recvreorder_ctrls :: "recv_reorder_ctrl list"
  sleep_q :: "nat list"
  servqs :: "tx_servq list"
  expire_to :: nat
  blocked8021x :: bool
  dot118021XPrivacy :: nat
  tkiprxmickey :: bytes
  tkiptxmickey :: bytes
  dot11txpn :: u64
  dot11rxpn :: u64

text \<open>\<^verbatim>\<open>struct sta_priv\<close> with the accounting of \<^verbatim>\<open>hwxmits\<close> that a release changes. \<open>servqs\<close> and
  \<open>hw_accnt\<close> are in the order VO, VI, BE, BK.\<close>

record sta_table =
  spriv :: sta_priv
  slots :: "sta_slot list"
  sta_aid :: "nat option list"
  sta_dz_bitmap :: u16
  tim_bitmap :: u16
  auth_list :: "nat list"
  auth_list_cnt :: int
  max_num_sta :: nat
  hw_accnt :: "int list"
  freed_xmit :: "nat list"
  freed_recv :: "nat list"

definition init_servq :: tx_servq where
  "init_servq = \<lparr>sta_pending = [], tx_pending = False, qcnt = 0\<rparr>"

text \<open>\<^verbatim>\<open>_rtw_init_stainfo\<close> clears a slot.\<close>

definition init_sta_info :: sta_info where
  "init_sta_info = \<lparr>hwaddr = replicate 6 0, sta_state = 0, dot118021x_UncstKey = replicate 16 0\<rparr>"

definition init_slot :: sta_slot where
  "init_slot = \<lparr>aid = 0, mac_id = 0, tid_rxseq = replicate 16 0,
     recvreorder_ctrls = replicate 16 \<lparr>ctrl_enable = False, indicate_seq = 0, wsize_b = 0,
       pending_recvframe_queue = [], reordering_ctrl_timer = False\<rparr>,
     sleep_q = [], servqs = replicate 4 init_servq, expire_to = 0, blocked8021x = False,
     dot118021XPrivacy = 0, tkiprxmickey = replicate 16 0, tkiptxmickey = replicate 16 0, dot11txpn = 0, dot11rxpn = 0\<rparr>"

definition update_slot :: "nat \<Rightarrow> (sta_slot \<Rightarrow> sta_slot) \<Rightarrow> sta_table \<Rightarrow> sta_table" where
  "update_slot p g t = t\<lparr>slots := (slots t)[p := g (slots t ! p)]\<rparr>"

definition update_sta :: "nat \<Rightarrow> (sta_info \<Rightarrow> sta_info) \<Rightarrow> sta_table \<Rightarrow> sta_table" where
  "update_sta p g t = t\<lparr>spriv := (spriv t)\<lparr>sta_buf := (sta_buf (spriv t))[p := g (sta_buf (spriv t) ! p)]\<rparr>\<rparr>"

section \<open>Operations\<close>

text \<open>\<^verbatim>\<open>_rtw_init_sta_priv\<close>.\<close>

definition init_sta_table :: sta_table where
  "init_sta_table = \<lparr>spriv = \<lparr>sta_buf = replicate NUM_STA init_sta_info, free_sta_queue = [0 ..< NUM_STA],
       sta_hash = replicate NUM_STA [], asoc_sta_count = 0\<rparr>,
     slots = replicate NUM_STA init_slot, sta_aid = replicate NUM_STA None, sta_dz_bitmap = 0, tim_bitmap = 0,
     auth_list = [], auth_list_cnt = 0, max_num_sta = NUM_STA, hw_accnt = [0, 0, 0, 0],
     freed_xmit = [], freed_recv = []\<rparr>"

definition rtw_alloc_stainfo :: "sta_table \<Rightarrow> bytes \<Rightarrow> nat option \<times> sta_table" where
  "rtw_alloc_stainfo t addr =
     (case free_sta_queue (spriv t) of
        [] \<Rightarrow> (None, t)
      | p # free \<Rightarrow>
          (let t = t\<lparr>spriv := (spriv t)\<lparr>free_sta_queue := free\<rparr>\<rparr>;
               t = update_sta p (\<lambda>_. init_sta_info\<lparr>hwaddr := take 6 addr\<rparr>) (update_slot p (\<lambda>_. init_slot) t);
               index = wifi_mac_hash addr in
           if index \<ge> NUM_STA then (None, t)
           else
             (Some p, update_slot p (\<lambda>s. s\<lparr>tid_rxseq := replicate 16 0xffff,
                  recvreorder_ctrls := replicate 16 reorder_init\<rparr>)
                (t\<lparr>spriv := (spriv t)\<lparr>sta_hash := (sta_hash (spriv t))[index := sta_hash (spriv t) ! index @ [p]],
                     asoc_sta_count := asoc_sta_count (spriv t) + 1\<rparr>\<rparr>))))"

text \<open>\<^verbatim>\<open>rtw_free_stainfo\<close>, in the order of the code: the transmit queues, the hash list, the reordering
  queues, the AP lists. An association identifier above 31 ends it before the slot is queued as free.\<close>

definition free_xmit_queues :: "nat \<Rightarrow> sta_table \<Rightarrow> sta_table" where
  "free_xmit_queues p t =
     (let s = slots t ! p in
      update_slot p (\<lambda>s. s\<lparr>sleep_q := [], servqs := replicate (length (servqs s)) init_servq\<rparr>)
        (t\<lparr>freed_xmit := freed_xmit t @ sleep_q s @ concat (map sta_pending (servqs s)),
           hw_accnt := map2 (\<lambda>a q. a - qcnt q) (hw_accnt t) (servqs s)\<rparr>))"

definition unhash :: "nat \<Rightarrow> sta_table \<Rightarrow> sta_table" where
  "unhash p t = t\<lparr>spriv := (spriv t)\<lparr>sta_hash := map (removeAll p) (sta_hash (spriv t)),
     asoc_sta_count := asoc_sta_count (spriv t) - 1\<rparr>\<rparr>"

definition free_reorder_queues :: "nat \<Rightarrow> sta_table \<Rightarrow> sta_table" where
  "free_reorder_queues p t =
     (let cs = recvreorder_ctrls (slots t ! p) in
      update_slot p (\<lambda>s. s\<lparr>recvreorder_ctrls :=
          map (\<lambda>c. c\<lparr>pending_recvframe_queue := [], reordering_ctrl_timer := False\<rparr>) cs\<rparr>)
        (t\<lparr>freed_recv := freed_recv t @ concat (map (\<lambda>c. map fr_id (pending_recvframe_queue c)) cs)\<rparr>))"

definition leave_auth_list :: "nat \<Rightarrow> sta_table \<Rightarrow> sta_table" where
  "leave_auth_list p t =
     (if p \<in> set (auth_list t)
      then t\<lparr>auth_list := removeAll p (auth_list t), auth_list_cnt := auth_list_cnt t - 1\<rparr> else t)"

definition release_aid :: "nat \<Rightarrow> sta_table \<Rightarrow> sta_table" where
  "release_aid p t =
     (let a = aid (slots t ! p);
          t = t\<lparr>sta_dz_bitmap := sta_dz_bitmap t AND NOT (push_bit a 1), tim_bitmap := tim_bitmap t AND NOT (push_bit a 1)\<rparr> in
      if 0 < a \<and> sta_aid t ! (a - 1) = Some p
      then update_slot p (\<lambda>s. s\<lparr>aid := 0\<rparr>) (t\<lparr>sta_aid := (sta_aid t)[a - 1 := None]\<rparr>) else t)"

definition rtw_free_stainfo :: "sta_table \<Rightarrow> nat option \<Rightarrow> rtw_status \<times> sta_table" where
  "rtw_free_stainfo t sta =
     (case sta of None \<Rightarrow> (RTW_SUCCESS, t)
      | Some p \<Rightarrow>
          (let t = update_sta p (\<lambda>s. s\<lparr>sta_state := sta_state s AND NOT FW_LINKED\<rparr>) t;
               t = free_reorder_queues p (unhash p (free_xmit_queues p t));
               t = update_slot p (\<lambda>s. s\<lparr>expire_to := 0\<rparr>) (leave_auth_list p t) in
           if aid (slots t ! p) > 31 then (RTW_FAIL, t)
           else
             (let t = release_aid p t
              in (RTW_SUCCESS, t\<lparr>spriv := (spriv t)\<lparr>free_sta_queue := free_sta_queue (spriv t) @ [p]\<rparr>\<rparr>))))"

text \<open>\<^verbatim>\<open>rtw_free_all_stainfo\<close> walks the hash lists and saves the successor before each release, so it
  visits the stations that were hashed when it started. A count of one means that only the broadcast
  station is left.\<close>

definition rtw_get_bcmc_stainfo :: "sta_table \<Rightarrow> nat option" where
  "rtw_get_bcmc_stainfo t = rtw_get_stainfo (spriv t) bc_addr"

definition rtw_free_all_stainfo :: "sta_table \<Rightarrow> sta_table" where
  "rtw_free_all_stainfo t =
     (if asoc_sta_count (spriv t) = 1 then t
      else foldl (\<lambda>t' p. if rtw_get_bcmc_stainfo t = Some p then t' else snd (rtw_free_stainfo t' (Some p)))
             t (concat (sta_hash (spriv t))))"

text \<open>\<^verbatim>\<open>rtw_init_bcmc_stainfo\<close> reports success whether or not there was a slot.\<close>

definition rtw_init_bcmc_stainfo :: "sta_table \<Rightarrow> rtw_status \<times> sta_table" where
  "rtw_init_bcmc_stainfo t =
     (case rtw_alloc_stainfo t bc_addr of
        (None, t) \<Rightarrow> (RTW_SUCCESS, t)
      | (Some p, t) \<Rightarrow> (RTW_SUCCESS, update_slot p (\<lambda>s. s\<lparr>mac_id := 1\<rparr>) t))"

text \<open>The assignment of an association identifier in \<^verbatim>\<open>OnAssocReq\<close>: the search stops at the first free
  entry, and a full table yields the last identifier. The flag tells whether the request goes on.\<close>

definition first_free_aid :: "nat option list \<Rightarrow> nat" where
  "first_free_aid aids = length (takeWhile (\<lambda>x. x \<noteq> None) aids) + 1"

definition assign_aid :: "nat \<Rightarrow> sta_table \<Rightarrow> bool \<times> sta_table" where
  "assign_aid p t =
     (if 0 < aid (slots t ! p) then (True, t)
      else
        (let a = first_free_aid (sta_aid t); a = (if a > NUM_STA then NUM_STA else a) in
         if a > max_num_sta t then (False, update_slot p (\<lambda>s. s\<lparr>aid := 0\<rparr>) t)
         else (True, update_slot p (\<lambda>s. s\<lparr>aid := a\<rparr>) (t\<lparr>sta_aid := (sta_aid t)[a - 1 := Some p]\<rparr>))))"

text \<open>\<^verbatim>\<open>rtw_joinbss_update_stainfo\<close>: a station joining an access point keeps the identifier that access
  point gave it; the reordering sessions of its own slot and of the broadcast slot start over.\<close>

definition reset_reorder :: "sta_slot \<Rightarrow> sta_slot" where
  "reset_reorder s = s\<lparr>recvreorder_ctrls :=
     map (\<lambda>c. c\<lparr>ctrl_enable := False, indicate_seq := 0xffff, wsize_b := 64\<rparr>) (recvreorder_ctrls s)\<rparr>"

text \<open>The fields of \<^verbatim>\<open>securitypriv\<close> that it reads and resets.\<close>

record join_sec =
  authAlgrthm :: nat
  privacyAlgrthm :: nat
  installGrpkey :: bool
  usetkipkey :: bool
  grpkey_handshake :: bool
  wps_len :: nat

definition dot11AuthAlgrthm_8021X :: nat where "dot11AuthAlgrthm_8021X = 2"

definition join_security :: "nat \<Rightarrow> join_sec \<Rightarrow> sta_table \<Rightarrow> join_sec \<times> sta_table" where
  "join_security p sec t =
     (let (sec, t) =
        (if authAlgrthm sec = dot11AuthAlgrthm_8021X
         then (sec\<lparr>installGrpkey := False, usetkipkey := False, grpkey_handshake := False\<rparr>,
               update_slot p (\<lambda>s. s\<lparr>blocked8021x := True, dot118021XPrivacy := privacyAlgrthm sec,
                   tkiprxmickey := replicate 16 0, tkiptxmickey := replicate 16 0, dot11txpn := 0, dot11rxpn := 0\<rparr>)
                 (update_sta p (\<lambda>s. s\<lparr>dot118021x_UncstKey := replicate 16 0\<rparr>) t))
         else (sec, t))
      in if wps_len sec \<noteq> 0 then (sec\<lparr>wps_len := 0\<rparr>, update_slot p (\<lambda>s. s\<lparr>blocked8021x := True\<rparr>) t)
         else (sec, t))"

definition joinbss_update_stainfo ::
    "bytes \<Rightarrow> nat \<Rightarrow> join_sec \<times> sta_table \<Rightarrow> nat option \<times> join_sec \<times> sta_table" where
  "joinbss_update_stainfo addr join_res = (\<lambda>(sec, t).
     (let (sta, t) = (case rtw_get_stainfo (spriv t) addr of Some p \<Rightarrow> (Some p, t) | None \<Rightarrow> rtw_alloc_stainfo t addr)
      in case sta of None \<Rightarrow> (None, sec, t)
         | Some p \<Rightarrow>
             (let t = update_slot p (\<lambda>s. s\<lparr>aid := join_res, mac_id := 0\<rparr>) t;
                  (sec, t) = join_security p sec t;
                  t = update_slot p reset_reorder t
              in (Some p, sec, case rtw_get_bcmc_stainfo t of None \<Rightarrow> t | Some b \<Rightarrow> update_slot b reset_reorder t))))"

section \<open>Access control\<close>

record wlan_acl_node =
  acl_addr :: bytes
  acl_valid :: bool

text \<open>\<^verbatim>\<open>rtw_access_ctrl\<close>: mode 1 denies the listed stations, mode 2 all others.\<close>

definition rtw_access_ctrl :: "nat \<Rightarrow> wlan_acl_node list \<Rightarrow> bytes \<Rightarrow> bool" where
  "rtw_access_ctrl mode acl mac =
     (let matched = (\<exists>n \<in> set acl. acl_addr n = take 6 mac \<and> acl_valid n)
      in if mode = 1 then \<not> matched else if mode = 2 then matched else True)"

section \<open>The partition of the slots\<close>

definition hashed :: "sta_table \<Rightarrow> nat list" where
  "hashed t = concat (sta_hash (spriv t))"

text \<open>Every slot is either free or in exactly one hash list, the one its address selects.\<close>

definition table_inv :: "sta_table \<Rightarrow> bool" where
  "table_inv t \<longleftrightarrow>
     length (sta_buf (spriv t)) = NUM_STA \<and> length (slots t) = NUM_STA \<and> length (sta_hash (spriv t)) = NUM_STA
   \<and> length (sta_aid t) = NUM_STA
   \<and> mset (free_sta_queue (spriv t)) + mset (hashed t) = mset [0 ..< NUM_STA]
   \<and> (\<forall>i < NUM_STA. \<forall>p \<in> set (sta_hash (spriv t) ! i). wifi_mac_hash (hwaddr (sta_buf (spriv t) ! p)) = i)
   \<and> asoc_sta_count (spriv t) = int (length (hashed t))"

lemma table_invD:
  assumes "table_inv t"
  shows "length (sta_buf (spriv t)) = NUM_STA" "length (slots t) = NUM_STA" "length (sta_hash (spriv t)) = NUM_STA"
    "length (sta_aid t) = NUM_STA" "asoc_sta_count (spriv t) = int (length (hashed t))"
    "mset (free_sta_queue (spriv t)) + mset (hashed t) = mset [0 ..< NUM_STA]"
  using assms by (simp_all add: table_inv_def)

lemma table_inv_slots:
  assumes "table_inv t"
  shows "distinct (free_sta_queue (spriv t) @ hashed t)" "set (free_sta_queue (spriv t) @ hashed t) = {..< NUM_STA}"
proof -
  have m: "mset (free_sta_queue (spriv t) @ hashed t) = mset [0 ..< NUM_STA]"
    using assms by (simp add: table_inv_def)
  show "distinct (free_sta_queue (spriv t) @ hashed t)" using mset_eq_imp_distinct_iff [OF m] by simp
  show "set (free_sta_queue (spriv t) @ hashed t) = {..< NUM_STA}"
    using mset_eq_setD [OF m] by (simp add: atLeast_upt)
qed

lemma wifi_mac_hash_take: "6 \<le> length mac \<Longrightarrow> wifi_mac_hash (take 6 mac) = wifi_mac_hash mac"
  by (simp add: wifi_mac_hash_def)

text \<open>The operations that touch only a slot's own fields, or the frames and the AP lists.\<close>

named_theorems table_frame \<open>what an operation leaves alone\<close>

lemma update_slot_frame [table_frame]:
  "spriv (update_slot p g t) = spriv t" "sta_aid (update_slot p g t) = sta_aid t"
  "length (slots (update_slot p g t)) = length (slots t)"
  by (simp_all add: update_slot_def)

lemma slots_update_slot: "p < length (slots t) \<Longrightarrow> slots (update_slot p g t) ! q = (if q = p then g (slots t ! p) else slots t ! q)"
  by (auto simp: update_slot_def nth_list_update)

lemma free_queues_frame [table_frame]:
  "spriv (free_xmit_queues p t) = spriv t" "sta_aid (free_xmit_queues p t) = sta_aid t"
  "length (slots (free_xmit_queues p t)) = length (slots t)"
  "spriv (free_reorder_queues p t) = spriv t" "sta_aid (free_reorder_queues p t) = sta_aid t"
  "length (slots (free_reorder_queues p t)) = length (slots t)"
  "spriv (leave_auth_list p t) = spriv t" "sta_aid (leave_auth_list p t) = sta_aid t"
  "slots (leave_auth_list p t) = slots t"
  "slots (unhash p t) = slots t" "sta_aid (unhash p t) = sta_aid t"
  "sta_aid (update_sta p h t) = sta_aid t" "slots (update_sta p h t) = slots t"
  "spriv (release_aid p t) = spriv t" "length (slots (release_aid p t)) = length (slots t)"
  "length (sta_aid (release_aid p t)) = length (sta_aid t)"
  by (simp_all add: free_xmit_queues_def free_reorder_queues_def leave_auth_list_def unhash_def update_sta_def
      release_aid_def Let_def table_frame)

lemma update_sta_frame [table_frame]:
  "length (sta_buf (spriv (update_sta p h t))) = length (sta_buf (spriv t))"
  "sta_hash (spriv (update_sta p h t)) = sta_hash (spriv t)"
  "free_sta_queue (spriv (update_sta p h t)) = free_sta_queue (spriv t)"
  "asoc_sta_count (spriv (update_sta p h t)) = asoc_sta_count (spriv t)"
  by (simp_all add: update_sta_def)

lemma init_table_inv: "table_inv init_sta_table"
proof -
  have "concat (replicate n []) = []" for n :: nat by (induction n) auto
  then show ?thesis by (simp add: table_inv_def init_sta_table_def hashed_def)
qed

lemma mset_concat_update:
  "i < length xss \<Longrightarrow> mset (concat (xss[i := xss ! i @ [p]])) = add_mset p (mset (concat xss))"
  by (induction xss arbitrary: i) (auto split: nat.split)

lemma mset_concat_removeAll:
  "distinct (concat xss) \<Longrightarrow> p \<in> set (concat xss) \<Longrightarrow>
   add_mset p (mset (concat (map (removeAll p) xss))) = mset (concat xss)"
proof -
  assume d: "distinct (concat xss)" and p: "p \<in> set (concat xss)"
  have e: "concat (map (removeAll p) xss) = removeAll p (concat xss)" by (induction xss) auto
  show ?thesis unfolding e using d p by (simp add: distinct_remove1_removeAll [symmetric])
qed

text \<open>A station address: six bytes, of one station or the broadcast address.\<close>

definition sta_addr :: "bytes \<Rightarrow> bool" where
  "sta_addr a \<longleftrightarrow> length a = 6 \<and> (\<not> is_multicast_ether_addr a \<or> a = bc_addr)"

abbreviation addr_of :: "sta_table \<Rightarrow> nat \<Rightarrow> bytes" where
  "addr_of t p \<equiv> hwaddr (sta_buf (spriv t) ! p)"

definition table_ok :: "sta_table \<Rightarrow> bool" where
  "table_ok t \<longleftrightarrow> table_inv t \<and> inj_on (addr_of t) (set (hashed t)) \<and> (\<forall>p \<in> set (hashed t). sta_addr (addr_of t p))"

lemma in_hashed: "table_inv t \<Longrightarrow> p \<in> set (hashed t) \<longleftrightarrow> (\<exists>i < NUM_STA. p \<in> set (sta_hash (spriv t) ! i))"
  by (simp add: hashed_def table_inv_def) (metis in_set_conv_nth)

lemma hashed_where:
  "table_inv t \<Longrightarrow> p \<in> set (hashed t) \<longleftrightarrow> p \<in> set (sta_hash (spriv t) ! wifi_mac_hash (addr_of t p))"
  using wifi_mac_hash_less by (auto simp: in_hashed) (auto simp: table_inv_def)

lemma get_addr: "sta_addr a \<Longrightarrow> (if is_multicast_ether_addr a then bc_addr else take 6 a) = a"
  by (auto simp: sta_addr_def)

lemma find_Some_unique:
  assumes "\<And>q. q \<in> set xs \<Longrightarrow> P q \<Longrightarrow> p \<in> set xs \<Longrightarrow> P p \<Longrightarrow> q = p"
  shows "List.find P xs = Some p \<longleftrightarrow> p \<in> set xs \<and> P p"
proof
  assume "List.find P xs = Some p"
  then show "p \<in> set xs \<and> P p" by (auto simp: find_Some_iff)
next
  assume p: "p \<in> set xs \<and> P p"
  then obtain q where q: "List.find P xs = Some q" by (cases "List.find P xs") (auto simp: find_None_iff)
  then have "q \<in> set xs \<and> P q" by (auto simp: find_Some_iff)
  then show "List.find P xs = Some p" using q p assms by blast
qed

lemma get_iff:
  assumes "table_ok t" "sta_addr a"
  shows "rtw_get_stainfo (spriv t) a = Some p \<longleftrightarrow> p \<in> set (hashed t) \<and> addr_of t p = a"
proof -
  have inv: "table_inv t" and inj: "inj_on (addr_of t) (set (hashed t))" using assms by (auto simp: table_ok_def)
  have sub: "set (sta_hash (spriv t) ! wifi_mac_hash a) \<subseteq> set (hashed t)"
    using in_hashed [OF inv] wifi_mac_hash_less by blast
  have "rtw_get_stainfo (spriv t) a = Some p
      \<longleftrightarrow> p \<in> set (sta_hash (spriv t) ! wifi_mac_hash a) \<and> addr_of t p = a"
    unfolding rtw_get_stainfo_def Let_def get_addr [OF assms(2)]
    using inj sub by (intro find_Some_unique) (metis inj_onD subsetD)
  also have "\<dots> \<longleftrightarrow> p \<in> set (hashed t) \<and> addr_of t p = a"
    using hashed_where [OF inv] by metis
  finally show ?thesis .
qed

lemma option_eqI: "(\<And>p. x = Some p \<longleftrightarrow> y = Some p) \<Longrightarrow> x = y"
  by (cases x; cases y) auto

text \<open>Allocation.\<close>

lemma alloc_cases:
  assumes "table_inv t" "rtw_alloc_stainfo t a = (r, t')"
  obtains (none) "free_sta_queue (spriv t) = []" "r = None" "t' = t"
  | (some) p free where "free_sta_queue (spriv t) = p # free" "r = Some p" "p < NUM_STA" "p \<notin> set (hashed t)"
    "sta_buf (spriv t') = (sta_buf (spriv t))[p := init_sta_info\<lparr>hwaddr := take 6 a\<rparr>]"
    "sta_hash (spriv t') = (sta_hash (spriv t))[wifi_mac_hash a := sta_hash (spriv t) ! wifi_mac_hash a @ [p]]"
    "free_sta_queue (spriv t') = free" "asoc_sta_count (spriv t') = asoc_sta_count (spriv t) + 1"
    "length (slots t') = length (slots t)" "sta_aid t' = sta_aid t"
    "slots t' ! p = init_slot\<lparr>tid_rxseq := replicate 16 0xffff, recvreorder_ctrls := replicate 16 reorder_init\<rparr>"
proof (cases "free_sta_queue (spriv t)")
  case Nil
  then have "(None, t) = (r, t')" using assms(2) by (simp add: rtw_alloc_stainfo_def)
  then show thesis by (intro none [OF Nil]) simp_all
next
  case (Cons p free)
  have "p \<in> set (free_sta_queue (spriv t) @ hashed t)" by (simp add: Cons)
  then have "p < NUM_STA" unfolding table_inv_slots(2) [OF assms(1)] by simp
  moreover have "p \<notin> set (hashed t)" using table_inv_slots(1) [OF assms(1)] by (simp add: Cons)
  ultimately have p: "p < NUM_STA" "p \<notin> set (hashed t)" .
  have l: "p < length (slots t)" using p assms(1) by (simp add: table_inv_def)
  have lb: "p < length (sta_buf (spriv t))" using p assms(1) by (simp add: table_inv_def)
  have e: "r = Some p" "t' = update_slot p (\<lambda>s. s\<lparr>tid_rxseq := replicate 16 0xffff,
      recvreorder_ctrls := replicate 16 reorder_init\<rparr>)
    (let u = update_sta p (\<lambda>_. init_sta_info\<lparr>hwaddr := take 6 a\<rparr>) (update_slot p (\<lambda>_. init_slot)
                (t\<lparr>spriv := (spriv t)\<lparr>free_sta_queue := free\<rparr>\<rparr>))
     in u\<lparr>spriv := (spriv u)\<lparr>sta_hash := (sta_hash (spriv u))[wifi_mac_hash a := sta_hash (spriv u) ! wifi_mac_hash a @ [p]],
                     asoc_sta_count := asoc_sta_count (spriv u) + 1\<rparr>\<rparr>)"
    using assms(2) wifi_mac_hash_less [of a] by (simp_all add: rtw_alloc_stainfo_def Let_def Cons)
  show thesis
    by (rule some [OF Cons e(1) p]) (simp_all add: e(2) Let_def update_slot_def update_sta_def l)
qed

lemma alloc_table_inv:
  assumes inv: "table_inv t" and al: "rtw_alloc_stainfo t a = (r, t')" and a: "6 \<le> length a"
  shows "table_inv t'"
  using inv al
proof (cases rule: alloc_cases)
  case none then show ?thesis using inv by simp
next
  case (some p free)
  note D = table_invD [OF inv]
  have i: "wifi_mac_hash a < length (sta_hash (spriv t))" using wifi_mac_hash_less D by simp
  have h: "mset (hashed t') = add_mset p (mset (hashed t))"
    using mset_concat_update [OF i] some by (simp add: hashed_def)
  have b: "wifi_mac_hash (addr_of t' q) = j" if "j < NUM_STA" "q \<in> set (sta_hash (spriv t') ! j)" for j q
  proof (cases "q = p")
    case True
    have "p \<notin> set (sta_hash (spriv t) ! j)" using some(4) in_hashed [OF inv] that(1) by auto
    then have "j = wifi_mac_hash a" using that True some(6) i by (auto simp: nth_list_update split: if_splits)
    then show ?thesis using some D a True by (simp add: wifi_mac_hash_take)
  next
    case False
    then have "q \<in> set (sta_hash (spriv t) ! j)"
      using that some(6) i by (auto simp: nth_list_update split: if_splits)
    then show ?thesis using that(1) inv False some(5) by (simp add: table_inv_def)
  qed
  have "size (mset (hashed t')) = Suc (size (mset (hashed t)))" using h by simp
  then have "length (hashed t') = Suc (length (hashed t))" by simp
  moreover have "mset (free_sta_queue (spriv t')) + mset (hashed t') = mset [0 ..< NUM_STA]"
    using D(6) h some by simp
  ultimately show ?thesis unfolding table_inv_def using D some b by simp
qed

lemma alloc_hashed:
  assumes inv: "table_inv t" and al: "rtw_alloc_stainfo t a = (Some p, t')"
  shows "set (hashed t') = insert p (set (hashed t))" "p \<notin> set (hashed t)" "addr_of t' p = take 6 a"
    "q \<noteq> p \<Longrightarrow> addr_of t' q = addr_of t q"
proof -
  from inv al show "set (hashed t') = insert p (set (hashed t))"
  proof (cases rule: alloc_cases)
    case (some p' free)
    have i: "wifi_mac_hash a < length (sta_hash (spriv t))" using wifi_mac_hash_less table_invD [OF inv] by simp
    then have "set_mset (mset (hashed t')) = set_mset (add_mset p (mset (hashed t)))"
      using mset_concat_update [OF i] some by (simp add: hashed_def)
    then show ?thesis by simp
  qed simp
  from inv al show "p \<notin> set (hashed t)" "addr_of t' p = take 6 a" "q \<noteq> p \<Longrightarrow> addr_of t' q = addr_of t q"
    by (cases rule: alloc_cases; simp add: table_invD [OF inv])+
qed

text \<open>Release.\<close>

definition free_body :: "nat \<Rightarrow> sta_table \<Rightarrow> sta_table" where
  "free_body p t =
     update_slot p (\<lambda>s. s\<lparr>expire_to := 0\<rparr>) (leave_auth_list p (free_reorder_queues p (unhash p
       (free_xmit_queues p (update_sta p (\<lambda>s. s\<lparr>sta_state := sta_state s AND NOT FW_LINKED\<rparr>) t)))))"

lemma free_body_spriv:
  "sta_hash (spriv (free_body p t)) = map (removeAll p) (sta_hash (spriv t))"
  "asoc_sta_count (spriv (free_body p t)) = asoc_sta_count (spriv t) - 1"
  "free_sta_queue (spriv (free_body p t)) = free_sta_queue (spriv t)"
  "length (sta_buf (spriv (free_body p t))) = length (sta_buf (spriv t))"
  "length (slots (free_body p t)) = length (slots t)" "sta_aid (free_body p t) = sta_aid t"
  by (simp_all add: free_body_def table_frame) (simp_all add: unhash_def table_frame)

lemma free_body_addr: "addr_of (free_body p t) q = addr_of t q"
proof -
  have "spriv (free_body p t) = spriv (unhash p (update_sta p (\<lambda>s. s\<lparr>sta_state := sta_state s AND NOT FW_LINKED\<rparr>) t))"
    by (simp add: free_body_def unhash_def table_frame)
  then show ?thesis
    by (cases "p < length (sta_buf (spriv t))") (auto simp: unhash_def update_sta_def nth_list_update list_update_beyond)
qed

lemma free_body_aid: "p < length (slots t) \<Longrightarrow> aid (slots (free_body p t) ! q) = aid (slots t ! q)"
  unfolding free_body_def
  by (simp add: table_frame slots_update_slot free_reorder_queues_def free_xmit_queues_def Let_def update_slot_def
      nth_list_update unhash_def)

lemma free_stainfo_eq:
  assumes "p < length (slots t)"
  shows "rtw_free_stainfo t (Some p) =
    (if aid (slots t ! p) > 31 then (RTW_FAIL, free_body p t)
     else (RTW_SUCCESS, let u = release_aid p (free_body p t) in
       u\<lparr>spriv := (spriv u)\<lparr>free_sta_queue := free_sta_queue (spriv u) @ [p]\<rparr>\<rparr>))"
  using free_body_aid [OF assms, of p] unfolding free_body_def by (simp add: rtw_free_stainfo_def Let_def)

lemma hashed_free:
  assumes "table_inv t" "p \<in> set (hashed t)" "rtw_free_stainfo t (Some p) = (res, t')"
  shows "set (hashed t') = set (hashed t) - {p}" "add_mset p (mset (hashed t')) = mset (hashed t)"
    "addr_of t' q = addr_of t q" "sta_hash (spriv t') = map (removeAll p) (sta_hash (spriv t))"
    "asoc_sta_count (spriv t') = asoc_sta_count (spriv t) - 1"
    "length (sta_buf (spriv t')) = length (sta_buf (spriv t))" "length (slots t') = length (slots t)"
    "length (sta_aid t') = length (sta_aid t)"
    "free_sta_queue (spriv t') = free_sta_queue (spriv t) @ (if aid (slots t ! p) > 31 then [] else [p])"
    "res = (if aid (slots t ! p) > 31 then RTW_FAIL else RTW_SUCCESS)"
proof -
  have "p < NUM_STA"
    using assms(2) table_inv_slots(2) [OF assms(1)] by (metis UnCI lessThan_iff set_append)
  then have l: "p < length (slots t)" using assms(1) by (simp add: table_inv_def)
  have e: "sta_hash (spriv t') = map (removeAll p) (sta_hash (spriv t))
      \<and> asoc_sta_count (spriv t') = asoc_sta_count (spriv t) - 1
      \<and> length (sta_buf (spriv t')) = length (sta_buf (spriv t)) \<and> length (slots t') = length (slots t)
      \<and> length (sta_aid t') = length (sta_aid t) \<and> addr_of t' q = addr_of t q
      \<and> free_sta_queue (spriv t') = free_sta_queue (spriv t) @ (if aid (slots t ! p) > 31 then [] else [p])
      \<and> res = (if aid (slots t ! p) > 31 then RTW_FAIL else RTW_SUCCESS)" for q
    using assms(3) free_body_addr [of p t q] unfolding free_stainfo_eq [OF l] Let_def
    by (auto simp: free_body_spriv table_frame)
  then show "sta_hash (spriv t') = map (removeAll p) (sta_hash (spriv t))" "addr_of t' q = addr_of t q"
    "asoc_sta_count (spriv t') = asoc_sta_count (spriv t) - 1"
    "length (sta_buf (spriv t')) = length (sta_buf (spriv t))" "length (slots t') = length (slots t)"
    "length (sta_aid t') = length (sta_aid t)"
    "free_sta_queue (spriv t') = free_sta_queue (spriv t) @ (if aid (slots t ! p) > 31 then [] else [p])"
    "res = (if aid (slots t ! p) > 31 then RTW_FAIL else RTW_SUCCESS)" by blast+
  have "distinct (concat (sta_hash (spriv t)))" using table_inv_slots(1) [OF assms(1)] by (simp add: hashed_def)
  then show "add_mset p (mset (hashed t')) = mset (hashed t)"
    using mset_concat_removeAll [of "sta_hash (spriv t)" p] assms(2) e by (simp add: hashed_def)
  have "concat (map (removeAll p) xss) = removeAll p (concat xss)" for xss :: "nat list list" by (induction xss) auto
  then show "set (hashed t') = set (hashed t) - {p}" using e by (simp add: hashed_def)
qed

lemma free_table_inv:
  assumes inv: "table_inv t" and p: "p \<in> set (hashed t)" and fr: "rtw_free_stainfo t (Some p) = (res, t')"
    and aid: "aid (slots t ! p) \<le> 31"
  shows "table_inv t'"
proof -
  note D = table_invD [OF inv] and F = hashed_free [OF inv p fr]
  have "mset (free_sta_queue (spriv t')) + mset (hashed t') = mset [0 ..< NUM_STA]"
  proof -
    have "mset (free_sta_queue (spriv t)) + add_mset p (mset (hashed t')) = mset [0 ..< NUM_STA]"
      using D(6) unfolding F(2) .
    then show ?thesis using aid by (simp add: F(9))
  qed
  moreover have "int (length (hashed t')) = asoc_sta_count (spriv t) - 1"
  proof -
    have "size (mset (hashed t)) = Suc (size (mset (hashed t')))" unfolding F(2) [symmetric] by simp
    then show ?thesis using D(5) by simp
  qed
  moreover have "\<forall>i < NUM_STA. \<forall>q \<in> set (sta_hash (spriv t') ! i). wifi_mac_hash (addr_of t' q) = i"
    using inv F(3,4) D(3) by (simp add: table_inv_def)
  ultimately show ?thesis unfolding table_inv_def using D F by simp
qed

lemma alloc_table_ok:
  assumes "table_ok t" "sta_addr a" "rtw_get_stainfo (spriv t) a = None" "rtw_alloc_stainfo t a = (r, t')"
  shows "table_ok t'"
proof (cases r)
  case None
  then have "t' = t" using assms(4) assms(1) by (auto simp: table_ok_def elim: alloc_cases)
  then show ?thesis using assms(1) by simp
next
  case (Some p)
  have inv: "table_inv t" using assms(1) by (simp add: table_ok_def)
  note H = alloc_hashed [OF inv assms(4) [unfolded Some]]
  have l: "length a = 6" using assms(2) by (simp add: sta_addr_def)
  have new: "\<forall>q \<in> set (hashed t). addr_of t q \<noteq> a" using assms(3) get_iff [OF assms(1,2)] by auto
  have old: "\<forall>q \<in> set (hashed t). addr_of t' q = addr_of t q" using H(2,4) by metis
  have "inj_on (addr_of t') (set (hashed t))"
    using assms(1) old inj_on_cong [of "set (hashed t)" "addr_of t'" "addr_of t"] by (simp add: table_ok_def)
  moreover have "addr_of t' p \<notin> addr_of t' ` set (hashed t)" using old new H(3) l by auto
  ultimately have "inj_on (addr_of t') (set (hashed t'))" using H(1,2) by simp
  moreover have "\<forall>q \<in> set (hashed t'). sta_addr (addr_of t' q)"
    using assms(1,2) old H(1,3) l by (simp add: table_ok_def)
  ultimately show ?thesis using alloc_table_inv [OF inv assms(4)] l by (simp add: table_ok_def)
qed

lemma alloc_lookup:
  assumes "table_ok t" "sta_addr a" "rtw_get_stainfo (spriv t) a = None" "rtw_alloc_stainfo t a = (Some p, t')"
    "sta_addr b"
  shows "rtw_get_stainfo (spriv t') b = (if b = a then Some p else rtw_get_stainfo (spriv t) b)"
proof (rule option_eqI)
  fix q
  have inv: "table_inv t" using assms(1) by (simp add: table_ok_def)
  note H = alloc_hashed [OF inv assms(4)]
  have l: "length a = 6" using assms(2) by (simp add: sta_addr_def)
  have new: "\<forall>q \<in> set (hashed t). addr_of t q \<noteq> a" using assms(3) get_iff [OF assms(1,2)] by auto
  show "rtw_get_stainfo (spriv t') b = Some q \<longleftrightarrow> (if b = a then Some p else rtw_get_stainfo (spriv t) b) = Some q"
    unfolding get_iff [OF alloc_table_ok [OF assms(1-4)] assms(5)]
    using H l new get_iff [OF assms(1,5)] by (cases "q = p") auto
qed

lemma free_table_ok:
  assumes "table_ok t" "p \<in> set (hashed t)" "rtw_free_stainfo t (Some p) = (res, t')" "aid (slots t ! p) \<le> 31"
  shows "table_ok t'"
proof -
  have inv: "table_inv t" using assms(1) by (simp add: table_ok_def)
  note H = hashed_free [OF inv assms(2,3)]
  show ?thesis using assms(1) H(1,3) free_table_inv [OF inv assms(2-4)]
    by (auto simp: table_ok_def inj_on_def)
qed

lemma free_lookup:
  assumes "table_ok t" "rtw_get_stainfo (spriv t) a = Some p" "rtw_free_stainfo t (Some p) = (res, t')"
    "aid (slots t ! p) \<le> 31" "sta_addr a" "sta_addr b"
  shows "rtw_get_stainfo (spriv t') b = (if b = a then None else rtw_get_stainfo (spriv t) b)"
proof (rule option_eqI)
  fix q
  have inv: "table_inv t" using assms(1) by (simp add: table_ok_def)
  have p: "p \<in> set (hashed t)" "addr_of t p = a" using get_iff [OF assms(1,5)] assms(2) by auto
  note H = hashed_free [OF inv p(1) assms(3)]
  have inj: "inj_on (addr_of t) (set (hashed t))" using assms(1) by (simp add: table_ok_def)
  show "rtw_get_stainfo (spriv t') b = Some q \<longleftrightarrow> (if b = a then None else rtw_get_stainfo (spriv t) b) = Some q"
    unfolding get_iff [OF free_table_ok [OF assms(1) p(1) assms(3,4)] assms(6)]
    using H(1,3) p inj get_iff [OF assms(1,6)] by (auto dest: inj_onD)
qed

section \<open>The interface of the table\<close>

text \<open>
  What the users of the station table rely on: a store of slots under addresses, in which an allocation
  for a new address and the release of a slot change the lookup of that address alone. \<open>ok\<close> is the
  invariant, \<open>addr\<close> what an address is, \<open>may\<close> the slots a release takes back.
\<close>

locale station_store =
  fixes ok :: "'t \<Rightarrow> bool" and addr :: "'a \<Rightarrow> bool" and lookup :: "'t \<Rightarrow> 'a \<Rightarrow> 'p option"
    and alloc :: "'t \<Rightarrow> 'a \<Rightarrow> 'p option \<times> 't" and release :: "'t \<Rightarrow> 'p \<Rightarrow> 't" and may :: "'t \<Rightarrow> 'p \<Rightarrow> bool"
  assumes alloc_ok: "ok t \<Longrightarrow> addr a \<Longrightarrow> lookup t a = None \<Longrightarrow> ok (snd (alloc t a))"
    and alloc_Some: "ok t \<Longrightarrow> addr a \<Longrightarrow> lookup t a = None \<Longrightarrow> alloc t a = (Some p, t') \<Longrightarrow> addr b \<Longrightarrow>
      lookup t' b = (if b = a then Some p else lookup t b)"
    and alloc_None: "ok t \<Longrightarrow> alloc t a = (None, t') \<Longrightarrow> t' = t"
    and release_ok: "ok t \<Longrightarrow> addr a \<Longrightarrow> lookup t a = Some p \<Longrightarrow> may t p \<Longrightarrow> ok (release t p)"
    and release_lookup: "ok t \<Longrightarrow> addr a \<Longrightarrow> lookup t a = Some p \<Longrightarrow> may t p \<Longrightarrow> addr b \<Longrightarrow>
      lookup (release t p) b = (if b = a then None else lookup t b)"
    and lookup_inj: "ok t \<Longrightarrow> addr a \<Longrightarrow> addr b \<Longrightarrow> lookup t a = Some p \<Longrightarrow> lookup t b = Some p \<Longrightarrow> a = b"
begin

text \<open>A user asks for the slot of an address and makes one if there is none.\<close>

definition get_or_alloc :: "'t \<Rightarrow> 'a \<Rightarrow> 'p option \<times> 't" where
  "get_or_alloc t a = (case lookup t a of Some p \<Rightarrow> (Some p, t) | None \<Rightarrow> alloc t a)"

lemma get_or_alloc_ok: "ok t \<Longrightarrow> addr a \<Longrightarrow> ok (snd (get_or_alloc t a))"
  by (auto simp: get_or_alloc_def alloc_ok split: option.split)

lemma get_or_alloc_lookup:
  assumes "ok t" "addr a" "addr b" "get_or_alloc t a = (Some p, t')"
  shows "lookup t' b = (if b = a then Some p else lookup t b)"
  using assms alloc_Some [OF assms(1,2)] by (auto simp: get_or_alloc_def split: option.splits)

text \<open>Making a slot and giving it back leaves every lookup as it was.\<close>

lemma alloc_release:
  assumes "ok t" "addr a" "lookup t a = None" "alloc t a = (Some p, t')" "may t' p" "addr b"
  shows "lookup (release t' p) b = lookup t b"
proof -
  have ok': "ok t'" using alloc_ok [OF assms(1-3)] assms(4) by simp
  have "lookup t' a = Some p" using alloc_Some [OF assms(1-4,2)] by simp
  then have "lookup (release t' p) b = (if b = a then None else lookup t' b)"
    using release_lookup [OF ok' assms(2) _ assms(5,6)] by simp
  then show ?thesis using alloc_Some [OF assms(1-4,6)] assms(3) by simp
qed

text \<open>Two addresses never share a slot, and releasing one does not take the other's.\<close>

lemma release_other:
  assumes "ok t" "addr a" "addr b" "a \<noteq> b" "lookup t a = Some p" "lookup t b = Some q" "may t p"
  shows "p \<noteq> q \<and> lookup (release t p) b = Some q"
  using assms lookup_inj release_lookup by fastforce

end

interpretation stas: station_store table_ok sta_addr "\<lambda>t. rtw_get_stainfo (spriv t)" rtw_alloc_stainfo
    "\<lambda>t p. snd (rtw_free_stainfo t (Some p))" "\<lambda>t p. aid (slots t ! p) \<le> 31"
proof
  fix t a assume "table_ok t" "sta_addr a" "rtw_get_stainfo (spriv t) a = None"
  then show "table_ok (snd (rtw_alloc_stainfo t a))" using alloc_table_ok by (metis prod.collapse)
next
  fix t a p t' assume "table_ok t" "rtw_alloc_stainfo t a = (None, t')"
  then show "t' = t" by (auto simp: table_ok_def elim: alloc_cases)
next
  fix t a p assume *: "table_ok t" "sta_addr a" "rtw_get_stainfo (spriv t) a = Some p" "aid (slots t ! p) \<le> 31"
  then have "p \<in> set (hashed t)" using get_iff by blast
  with * show "table_ok (snd (rtw_free_stainfo t (Some p)))" using free_table_ok by (metis prod.collapse)
next
  fix t a p b assume "table_ok t" "sta_addr a" "rtw_get_stainfo (spriv t) a = Some p" "aid (slots t ! p) \<le> 31" "sta_addr b"
  then show "rtw_get_stainfo (spriv (snd (rtw_free_stainfo t (Some p)))) b = (if b = a then None else rtw_get_stainfo (spriv t) b)"
    using free_lookup by (metis prod.collapse)
next
  fix t a p t' b assume "table_ok t" "sta_addr a" "rtw_get_stainfo (spriv t) a = None"
    "rtw_alloc_stainfo t a = (Some p, t')" "sta_addr b"
  then show "rtw_get_stainfo (spriv t') b = (if b = a then Some p else rtw_get_stainfo (spriv t) b)"
    by (rule alloc_lookup)
next
  fix t a b p assume "table_ok t" "sta_addr a" "sta_addr b" "rtw_get_stainfo (spriv t) a = Some p"
    "rtw_get_stainfo (spriv t) b = Some p"
  then show "a = b" using get_iff by metis
qed

section \<open>The association identifiers of an access point\<close>

lemma hashed_update_slot [table_frame]: "hashed (update_slot p g t) = hashed t"
  by (simp add: hashed_def table_frame)

lemma table_ok_update_slot: "table_ok (update_slot p g t) = table_ok t"
  by (simp only: table_ok_def table_inv_def table_frame)

text \<open>Identifiers and the table \<open>sta_aid\<close> agree: an entry names a station that is hashed and carries the
  entry's number, and a station with a number has its entry. The broadcast station has none.\<close>

definition aids_ok :: "sta_table \<Rightarrow> bool" where
  "aids_ok t \<longleftrightarrow>
     (\<forall>i < NUM_STA. \<forall>p. sta_aid t ! i = Some p \<longrightarrow> p \<in> set (hashed t) \<and> aid (slots t ! p) = i + 1)
   \<and> (\<forall>p \<in> set (hashed t). aid (slots t ! p) \<le> 31
        \<and> (0 < aid (slots t ! p) \<longrightarrow> sta_aid t ! (aid (slots t ! p) - 1) = Some p))"

definition bcmc_ok :: "sta_table \<Rightarrow> bool" where
  "bcmc_ok t \<longleftrightarrow> (\<exists>b. rtw_get_bcmc_stainfo t = Some b \<and> aid (slots t ! b) = 0)"

lemma hashed_less: "table_inv t \<Longrightarrow> p \<in> set (hashed t) \<Longrightarrow> p < NUM_STA"
  using table_inv_slots(2) by (metis UnCI lessThan_iff set_append)

lemma sta_addr_bc: "sta_addr bc_addr" by (simp add: sta_addr_def bc_addr_def)

lemma get_bcmc_iff:
  "table_ok t \<Longrightarrow> rtw_get_bcmc_stainfo t = Some b \<longleftrightarrow> b \<in> set (hashed t) \<and> addr_of t b = bc_addr"
  unfolding rtw_get_bcmc_stainfo_def by (rule get_iff [OF _ sta_addr_bc])

lemma alloc_aids:
  assumes inv: "table_inv t" and al: "rtw_alloc_stainfo t a = (Some p, t')"
  shows "aid (slots t' ! p) = 0" "q \<noteq> p \<Longrightarrow> aid (slots t' ! q) = aid (slots t ! q)" "sta_aid t' = sta_aid t"
proof -
  from inv al show "aid (slots t' ! p) = 0" "sta_aid t' = sta_aid t"
    by (cases rule: alloc_cases; simp add: init_slot_def)+
  show "aid (slots t' ! q) = aid (slots t ! q)" if "q \<noteq> p"
    using al that wifi_mac_hash_less [of a]
    by (auto simp: rtw_alloc_stainfo_def Let_def update_slot_def update_sta_def split: list.splits)
qed

lemma free_aids:
  assumes inv: "table_inv t" and p: "p \<in> set (hashed t)" and fr: "rtw_free_stainfo t (Some p) = (res, t')"
    and le: "aid (slots t ! p) \<le> 31"
  shows "q \<noteq> p \<Longrightarrow> aid (slots t' ! q) = aid (slots t ! q)"
    "sta_aid t' = (if 0 < aid (slots t ! p) \<and> sta_aid t ! (aid (slots t ! p) - 1) = Some p
       then (sta_aid t)[aid (slots t ! p) - 1 := None] else sta_aid t)"
proof -
  have l: "p < length (slots t)" using hashed_less [OF inv p] table_invD(2) [OF inv] by simp
  have lb: "p < length (slots (free_body p t))" using l by (simp add: free_body_spriv)
  have t': "spriv (release_aid p (free_body p t)) = spriv (free_body p t)"
    "slots t' = slots (release_aid p (free_body p t))" "sta_aid t' = sta_aid (release_aid p (free_body p t))"
    using fr le unfolding free_stainfo_eq [OF l] by (auto simp: Let_def table_frame)
  show "aid (slots t' ! q) = aid (slots t ! q)" if "q \<noteq> p"
    using that l lb free_body_aid [OF l] unfolding t' release_aid_def Let_def
    by (simp add: slots_update_slot update_slot_def)
  show "sta_aid t' = (if 0 < aid (slots t ! p) \<and> sta_aid t ! (aid (slots t ! p) - 1) = Some p
       then (sta_aid t)[aid (slots t ! p) - 1 := None] else sta_aid t)"
    unfolding t' release_aid_def Let_def by (simp add: free_body_aid [OF l] free_body_spriv table_frame)
qed

text \<open>The table of a station that is not the broadcast station: with the broadcast station in one slot and
  no identifier for the new one, at most 30 entries are taken, so the search ends at 31 or before.\<close>

lemma first_free_aid_le:
  assumes ok: "table_ok t" and aids: "aids_ok t" and bc: "rtw_get_bcmc_stainfo t = Some b" "aid (slots t ! b) = 0"
    and p: "p \<in> set (hashed t)" "aid (slots t ! p) = 0" "p \<noteq> b"
  shows "first_free_aid (sta_aid t) \<le> 31" "sta_aid t ! (first_free_aid (sta_aid t) - 1) = None"
proof -
  define k where "k = length (takeWhile (\<lambda>x. x \<noteq> None) (sta_aid t))"
  have inv: "table_inv t" using ok by (simp add: table_ok_def)
  have len: "length (sta_aid t) = NUM_STA" using inv by (simp add: table_inv_def)
  have k: "k \<le> NUM_STA" unfolding k_def len [symmetric] by (rule length_takeWhile_le)
  have taken: "sta_aid t ! i \<noteq> None" if "i < k" for i
    using that nth_mem [of i "takeWhile (\<lambda>x. x \<noteq> None) (sta_aid t)"] set_takeWhileD
    by (metis (mono_tags, lifting) k_def takeWhile_nth)
  let ?f = "\<lambda>i. the (sta_aid t ! i)"
  have ent: "?f i \<in> set (hashed t) \<and> aid (slots t ! ?f i) = i + 1" if "i < k" for i
  proof -
    obtain y where y: "sta_aid t ! i = Some y" using taken \<open>i < k\<close> by blast
    have "i < NUM_STA" using that k by simp
    then show ?thesis using aids y unfolding aids_ok_def by (metis option.sel)
  qed
  have inj: "inj_on ?f {..<k}"
    by (rule inj_onI) (metis ent add_right_cancel lessThan_iff)
  have b: "b \<in> set (hashed t)" using bc(1) get_bcmc_iff [OF ok] by simp
  have sub: "?f ` {..<k} \<subseteq> {..<NUM_STA} - {p, b}"
    using ent hashed_less [OF inv] p(2) bc(2) by fastforce
  have "card {..<k} \<le> card ({..<NUM_STA} - {p, b})"
    using card_inj_on_le [OF inj sub] by simp
  also have "\<dots> = 30" using hashed_less [OF inv p(1)] hashed_less [OF inv b] p(3)
    by (simp add: card_Diff_subset NUM_STA_def)
  finally have k30: "k \<le> 30" by simp
  then show "first_free_aid (sta_aid t) \<le> 31" by (simp add: first_free_aid_def k_def)
  have "k < length (sta_aid t)" using k30 len by (simp add: NUM_STA_def)
  then show "sta_aid t ! (first_free_aid (sta_aid t) - 1) = None"
    using nth_length_takeWhile [of "\<lambda>x. x \<noteq> None" "sta_aid t"] by (simp add: first_free_aid_def k_def)
qed

text \<open>
  What an access point does with the table: it begins with the broadcast station, a frame of an unknown
  station (\<^verbatim>\<open>OnAuth\<close>) allocates one, an association request assigns an identifier, and a station that
  leaves or expires is released. Stations have addresses of their own, none of which is a group address.
\<close>

inductive ap_reach :: "sta_table \<Rightarrow> bool" where
  ap_start: "ap_reach (snd (rtw_init_bcmc_stainfo init_sta_table))"
| ap_auth: "ap_reach t \<Longrightarrow> sta_addr a \<Longrightarrow> a \<noteq> bc_addr \<Longrightarrow> rtw_get_stainfo (spriv t) a = None \<Longrightarrow>
    ap_reach (snd (rtw_alloc_stainfo t a))"
| ap_assoc: "ap_reach t \<Longrightarrow> sta_addr a \<Longrightarrow> a \<noteq> bc_addr \<Longrightarrow> rtw_get_stainfo (spriv t) a = Some p \<Longrightarrow>
    ap_reach (snd (assign_aid p t))"
| ap_leave: "ap_reach t \<Longrightarrow> sta_addr a \<Longrightarrow> a \<noteq> bc_addr \<Longrightarrow> rtw_get_stainfo (spriv t) a = Some p \<Longrightarrow>
    ap_reach (snd (rtw_free_stainfo t (Some p)))"

definition ap_inv :: "sta_table \<Rightarrow> bool" where
  "ap_inv t \<longleftrightarrow> table_ok t \<and> aids_ok t \<and> bcmc_ok t"

lemma init_lookup: "rtw_get_stainfo (spriv init_sta_table) bc_addr = None"
proof -
  have "sta_hash (spriv init_sta_table) ! i = []" if "i < NUM_STA" for i
    using that by (simp add: init_sta_table_def)
  then show ?thesis using wifi_mac_hash_less by (simp add: rtw_get_stainfo_def Let_def)
qed

lemma init_table_ok: "table_ok init_sta_table"
proof -
  have "hashed init_sta_table = []" using concat_replicate_trivial by (simp add: hashed_def init_sta_table_def)
  then show ?thesis using init_table_inv by (simp add: table_ok_def)
qed

lemma aids_ok_I:
  assumes "\<And>i p. i < NUM_STA \<Longrightarrow> sta_aid t ! i = Some p \<Longrightarrow> p \<in> set (hashed t) \<and> aid (slots t ! p) = i + 1"
    "\<And>p. p \<in> set (hashed t) \<Longrightarrow> aid (slots t ! p) \<le> 31"
    "\<And>p. p \<in> set (hashed t) \<Longrightarrow> 0 < aid (slots t ! p) \<Longrightarrow> sta_aid t ! (aid (slots t ! p) - 1) = Some p"
  shows "aids_ok t"
  using assms by (simp add: aids_ok_def)

lemma aids_okD:
  assumes "aids_ok t"
  shows "i < NUM_STA \<Longrightarrow> sta_aid t ! i = Some p \<Longrightarrow> p \<in> set (hashed t) \<and> aid (slots t ! p) = i + 1"
    "p \<in> set (hashed t) \<Longrightarrow> aid (slots t ! p) \<le> 31"
    "p \<in> set (hashed t) \<Longrightarrow> 0 < aid (slots t ! p) \<Longrightarrow> sta_aid t ! (aid (slots t ! p) - 1) = Some p"
  using assms by (simp_all add: aids_ok_def)

text \<open>Every step keeps the invariant.\<close>

lemma ap_inv_start: "ap_inv (snd (rtw_init_bcmc_stainfo init_sta_table))"
proof -
  obtain r t where al: "rtw_alloc_stainfo init_sta_table bc_addr = (r, t)" by (rule prod.exhaust)
  have "free_sta_queue (spriv init_sta_table) \<noteq> []" by (simp add: init_sta_table_def NUM_STA_def)
  then obtain p where r: "r = Some p" using alloc_cases [OF init_table_inv al] by metis
  note al = al [unfolded r]
  let ?u = "update_slot p (\<lambda>s. s\<lparr>mac_id := 1\<rparr>) t"
  have e: "snd (rtw_init_bcmc_stainfo init_sta_table) = ?u" using al by (simp add: rtw_init_bcmc_stainfo_def)
  have ok: "table_ok t" by (rule alloc_table_ok [OF init_table_ok sta_addr_bc init_lookup al])
  then have inv: "table_inv t" by (simp add: table_ok_def)
  note H = alloc_hashed [OF init_table_inv al] and A = alloc_aids [OF init_table_inv al]
  have h: "hashed ?u = hashed t" by (simp only: table_frame)
  have ok': "table_ok ?u" using ok by (simp only: table_ok_update_slot)
  have hs: "set (hashed t) = {p}"
    using H(1) concat_replicate_trivial by (simp add: hashed_def init_sta_table_def)
  have l: "p < length (slots t)" using hashed_less [OF inv] hs table_invD(2) [OF inv] by simp
  have a0: "aid (slots ?u ! p) = 0" using A(1) l by (simp add: slots_update_slot)
  have none: "sta_aid ?u ! i = None" if "i < NUM_STA" for i
    using A(3) that by (simp add: table_frame init_sta_table_def)
  have "aids_ok ?u" by (rule aids_ok_I) (use none hs h a0 in auto)
  moreover have "rtw_get_bcmc_stainfo ?u = Some p"
    using H(3) hs unfolding get_bcmc_iff [OF ok'] h by (simp add: table_frame bc_addr_def)
  ultimately show ?thesis using ok' a0 by (auto simp: e ap_inv_def bcmc_ok_def)
qed

lemma ap_inv_alloc:
  assumes "ap_inv t" "sta_addr a" "a \<noteq> bc_addr" "rtw_get_stainfo (spriv t) a = None"
  shows "ap_inv (snd (rtw_alloc_stainfo t a))"
proof -
  obtain r t' where al: "rtw_alloc_stainfo t a = (r, t')" by (rule prod.exhaust)
  have ok: "table_ok t" and aids: "aids_ok t" and inv: "table_inv t"
    using assms(1) by (auto simp: ap_inv_def table_ok_def)
  show ?thesis
  proof (cases r)
    case None
    then have "t' = t" using stas.alloc_None [OF ok] al by simp
    then show ?thesis using al assms(1) by simp
  next
    case (Some p)
    note al = al [unfolded Some]
    have ok': "table_ok t'" by (rule alloc_table_ok [OF ok assms(2,4) al])
    note H = alloc_hashed [OF inv al] and A = alloc_aids [OF inv al]
    have "aids_ok t'"
    proof (rule aids_ok_I)
      fix i q assume i: "i < NUM_STA" "sta_aid t' ! i = Some q"
      then have q: "q \<in> set (hashed t) \<and> aid (slots t ! q) = i + 1" using aids_okD(1) [OF aids] A(3) by simp
      then have "q \<noteq> p" using H(2) by auto
      then show "q \<in> set (hashed t') \<and> aid (slots t' ! q) = i + 1" using q A(2) H(1) by simp
    next
      fix q assume "q \<in> set (hashed t')"
      then show "aid (slots t' ! q) \<le> 31" using A(1) A(2) [of q] H(1) aids_okD(2) [OF aids, of q] by (cases "q = p") auto
    next
      fix q assume "q \<in> set (hashed t')" "0 < aid (slots t' ! q)"
      then show "sta_aid t' ! (aid (slots t' ! q) - 1) = Some q"
        using A(1) A(2) [of q] H(1) aids_okD(3) [OF aids, of q] A(3) by (cases "q = p") auto
    qed
    moreover obtain b where b: "rtw_get_bcmc_stainfo t = Some b" "aid (slots t ! b) = 0"
      using assms(1) by (auto simp: ap_inv_def bcmc_ok_def)
    then have bh: "b \<in> set (hashed t)" "addr_of t b = bc_addr" using get_bcmc_iff [OF ok] by auto
    then have "b \<noteq> p" using H(2) by auto
    then have "rtw_get_bcmc_stainfo t' = Some b \<and> aid (slots t' ! b) = 0"
      using get_bcmc_iff [OF ok'] bh H(1,4) A(2) b(2) by simp
    ultimately show ?thesis using ok' al by (auto simp: ap_inv_def bcmc_ok_def)
  qed
qed

lemma ap_inv_bcmc:
  assumes "ap_inv t" "sta_addr a" "a \<noteq> bc_addr" "rtw_get_stainfo (spriv t) a = Some p"
  obtains b where "rtw_get_bcmc_stainfo t = Some b" "aid (slots t ! b) = 0" "b \<in> set (hashed t)" "addr_of t b = bc_addr"
    "p \<in> set (hashed t)" "p \<noteq> b"
proof -
  have ok: "table_ok t" using assms(1) by (simp add: ap_inv_def)
  obtain b where b: "rtw_get_bcmc_stainfo t = Some b" "aid (slots t ! b) = 0"
    using assms(1) by (auto simp: ap_inv_def bcmc_ok_def)
  then have "b \<in> set (hashed t)" "addr_of t b = bc_addr" using get_bcmc_iff [OF ok] by auto
  moreover have "p \<in> set (hashed t)" "addr_of t p = a" using get_iff [OF ok assms(2)] assms(4) by auto
  ultimately show thesis using that [OF b] assms(3) by auto
qed

lemma ap_inv_assign:
  assumes "ap_inv t" "sta_addr a" "a \<noteq> bc_addr" "rtw_get_stainfo (spriv t) a = Some p"
  shows "ap_inv (snd (assign_aid p t))"
proof (cases "0 < aid (slots t ! p)")
  case True then show ?thesis using assms(1) by (simp add: assign_aid_def)
next
  case False
  have ok: "table_ok t" and aids: "aids_ok t" and inv: "table_inv t"
    using assms(1) by (auto simp: ap_inv_def table_ok_def)
  obtain b where bc: "rtw_get_bcmc_stainfo t = Some b" "aid (slots t ! b) = 0" and bh: "b \<in> set (hashed t)"
    "addr_of t b = bc_addr" "p \<in> set (hashed t)" "p \<noteq> b" using assms by (rule ap_inv_bcmc)
  have p0: "aid (slots t ! p) = 0" using False by simp
  define k where "k = first_free_aid (sta_aid t)"
  have k: "0 < k" "k \<le> 31" "sta_aid t ! (k - 1) = None"
    using first_free_aid_le [OF ok aids bc bh(3) p0 bh(4)] by (simp_all add: k_def first_free_aid_def)
  have l: "p < length (slots t)" using hashed_less [OF inv bh(3)] table_invD(2) [OF inv] by simp
  have la: "k - 1 < length (sta_aid t)" using k table_invD(4) [OF inv] by (simp add: NUM_STA_def)
  define g :: "sta_slot \<Rightarrow> sta_slot" where "g = (\<lambda>s. s\<lparr>aid := 0\<rparr>)"
  define h :: "sta_slot \<Rightarrow> sta_slot" where "h = (\<lambda>s. s\<lparr>aid := k\<rparr>)"
  have e: "snd (assign_aid p t) = (if k > max_num_sta t then update_slot p g t
      else update_slot p h (t\<lparr>sta_aid := (sta_aid t)[k - 1 := Some p]\<rparr>))"
    using p0 k(2) by (simp add: assign_aid_def Let_def k_def [symmetric] g_def h_def NUM_STA_def)
  have gs: "aid (slots (update_slot p g t) ! q) = aid (slots t ! q)" for q
    using p0 l by (simp add: slots_update_slot g_def)
  have bcmc_eq: "rtw_get_bcmc_stainfo u = rtw_get_bcmc_stainfo t" if "spriv u = spriv t" for u
    using that by (simp add: rtw_get_bcmc_stainfo_def)
  show ?thesis
  proof (cases "k > max_num_sta t")
    case True
    have "ap_inv (update_slot p g t)"
      using assms(1) unfolding ap_inv_def table_ok_update_slot aids_ok_def bcmc_ok_def
      by (simp only: gs table_frame rtw_get_bcmc_stainfo_def simp_thms) blast
    then show ?thesis using True by (simp add: e)
  next
    case kf: False
    define t1 where "t1 = t\<lparr>sta_aid := (sta_aid t)[k - 1 := Some p]\<rparr>"
    define t2 where "t2 = update_slot p h t1"
    have sp: "spriv t2 = spriv t" and hh: "hashed t2 = hashed t" by (simp_all add: t2_def t1_def hashed_def table_frame)
    have "table_ok t1" using ok by (simp add: table_ok_def table_inv_def t1_def hashed_def)
    then have ok2: "table_ok t2" by (simp only: t2_def table_ok_update_slot)
    have s2: "aid (slots t2 ! q) = (if q = p then k else aid (slots t ! q))" for q
      using l by (simp add: t2_def t1_def slots_update_slot h_def)
    have a2: "sta_aid t2 ! i = (if i = k - 1 then Some p else sta_aid t ! i)" if "i < NUM_STA" for i
      using la that by (simp add: t2_def t1_def table_frame nth_list_update)
    have "aids_ok t2"
    proof (rule aids_ok_I)
      fix i q assume i: "i < NUM_STA" "sta_aid t2 ! i = Some q"
      show "q \<in> set (hashed t2) \<and> aid (slots t2 ! q) = i + 1"
      proof (cases "i = k - 1")
        case True then show ?thesis using i a2 [OF i(1)] s2 [of q] bh(3) hh k(1) by simp
      next
        case False
        then have "q \<in> set (hashed t) \<and> aid (slots t ! q) = i + 1" using aids_okD(1) [OF aids i(1)] i(2) a2 [OF i(1)] by simp
        then show ?thesis using p0 s2 [of q] hh by auto
      qed
    next
      fix q assume "q \<in> set (hashed t2)"
      then show "aid (slots t2 ! q) \<le> 31" using aids_okD(2) [OF aids, of q] hh s2 [of q] k(2) by simp
    next
      fix q assume q: "q \<in> set (hashed t2)" "0 < aid (slots t2 ! q)"
      show "sta_aid t2 ! (aid (slots t2 ! q) - 1) = Some q"
      proof (cases "q = p")
        case True then show ?thesis using s2 [of q] a2 [of "k - 1"] k(2) by (simp add: NUM_STA_def)
      next
        case False
        then have "sta_aid t ! (aid (slots t ! q) - 1) = Some q" "aid (slots t ! q) \<le> 31"
          using aids_okD(2,3) [OF aids, of q] q hh s2 [of q] by simp_all
        then show ?thesis using False s2 [of q] a2 [of "aid (slots t ! q) - 1"] k(3) by (auto simp: NUM_STA_def)
      qed
    qed
    moreover have "bcmc_ok t2" using bc bh(4) s2 [of b] bcmc_eq [OF sp] by (auto simp: bcmc_ok_def)
    ultimately have "ap_inv t2" using ok2 by (simp add: ap_inv_def)
    then show ?thesis using kf by (simp add: e t2_def t1_def)
  qed
qed

lemma ap_inv_free:
  assumes "ap_inv t" "sta_addr a" "a \<noteq> bc_addr" "rtw_get_stainfo (spriv t) a = Some p"
  shows "ap_inv (snd (rtw_free_stainfo t (Some p)))" "fst (rtw_free_stainfo t (Some p)) = RTW_SUCCESS"
    "bcmc_ok (snd (rtw_free_stainfo t (Some p)))"
proof -
  obtain r t' where fr: "rtw_free_stainfo t (Some p) = (r, t')" by (rule prod.exhaust)
  have ok: "table_ok t" and aids: "aids_ok t" and inv: "table_inv t"
    using assms(1) by (auto simp: ap_inv_def table_ok_def)
  obtain b where bc: "rtw_get_bcmc_stainfo t = Some b" "aid (slots t ! b) = 0" and bh: "b \<in> set (hashed t)"
    "addr_of t b = bc_addr" "p \<in> set (hashed t)" "p \<noteq> b" using assms by (rule ap_inv_bcmc)
  have le: "aid (slots t ! p) \<le> 31" by (rule aids_okD(2) [OF aids bh(3)])
  note H = hashed_free [OF inv bh(3) fr] and A = free_aids [OF inv bh(3) fr le]
  have ok': "table_ok t'" by (rule free_table_ok [OF ok bh(3) fr le])
  have a2: "sta_aid t' ! i = (if sta_aid t ! i = Some p then None else sta_aid t ! i)" if i: "i < NUM_STA" for i
  proof (cases "sta_aid t ! i = Some p")
    case True
    then have "aid (slots t ! p) = i + 1" using aids_okD(1) [OF aids i] by simp
    then show ?thesis using A(2) True i table_invD(4) [OF inv] by simp
  next
    case False
    then show ?thesis using A(2) by (metis nth_list_update_neq)
  qed
  have "aids_ok t'"
  proof (rule aids_ok_I)
    fix i q assume i: "i < NUM_STA" "sta_aid t' ! i = Some q"
    then have q: "sta_aid t ! i = Some q" "q \<noteq> p" using a2 [OF i(1)] by (auto split: if_splits)
    then have "q \<in> set (hashed t) \<and> aid (slots t ! q) = i + 1" using aids_okD(1) [OF aids i(1)] by simp
    then show "q \<in> set (hashed t') \<and> aid (slots t' ! q) = i + 1" using H(1) A(1) [OF q(2)] q(2) by simp
  next
    fix q assume "q \<in> set (hashed t')"
    then show "aid (slots t' ! q) \<le> 31" using aids_okD(2) [OF aids, of q] H(1) A(1) [of q] by auto
  next
    fix q assume q: "q \<in> set (hashed t')" "0 < aid (slots t' ! q)"
    then have n: "q \<noteq> p" "q \<in> set (hashed t)" using H(1) by auto
    then have "sta_aid t ! (aid (slots t ! q) - 1) = Some q" "aid (slots t ! q) \<le> 31"
      using aids_okD(2,3) [OF aids, of q] q A(1) by simp_all
    then show "sta_aid t' ! (aid (slots t' ! q) - 1) = Some q"
      using n(1) A(1) [OF n(1)] a2 [of "aid (slots t ! q) - 1"] by (auto simp: NUM_STA_def)
  qed
  moreover have "b \<in> set (hashed t')" "addr_of t' b = bc_addr" using H(1) bh H(3) by auto
  then have "rtw_get_bcmc_stainfo t' = Some b \<and> aid (slots t' ! b) = 0"
    using get_bcmc_iff [OF ok'] A(1) bh(4) bc(2) by auto
  ultimately show "ap_inv (snd (rtw_free_stainfo t (Some p)))" "bcmc_ok (snd (rtw_free_stainfo t (Some p)))"
    using ok' fr by (auto simp: ap_inv_def bcmc_ok_def)
  show "fst (rtw_free_stainfo t (Some p)) = RTW_SUCCESS" using H(10) le fr by simp
qed

lemma ap_reach_inv: "ap_reach t \<Longrightarrow> ap_inv t"
  by (induction rule: ap_reach.induct) (simp_all add: ap_inv_start ap_inv_alloc ap_inv_assign ap_inv_free)

text \<open>Releasing all stations, one after the other, leaves the broadcast station.\<close>

lemma free_loop:
  assumes "ap_inv u" "rtw_get_bcmc_stainfo t = Some b" "addr_of u b = bc_addr" "b \<in> set (hashed u)"
    "distinct ps" "set ps \<subseteq> set (hashed u)"
  defines "v \<equiv> foldl (\<lambda>t' p. if rtw_get_bcmc_stainfo t = Some p then t' else snd (rtw_free_stainfo t' (Some p))) u ps"
  shows "ap_inv v \<and> set (hashed v) = set (hashed u) - (set ps - {b})"
  using assms(1,3-6) unfolding v_def
proof (induction ps arbitrary: u)
  case Nil then show ?case by simp
next
  case (Cons p ps)
  show ?case
  proof (cases "p = b")
    case True
    then show ?thesis using Cons.IH [of u] Cons.prems assms(2) by auto
  next
    case False
    have ok: "table_ok u" and inv: "table_inv u" using Cons.prems(1) by (auto simp: ap_inv_def table_ok_def)
    have p: "p \<in> set (hashed u)" using Cons.prems by simp
    have a: "sta_addr (addr_of u p)" using ok p by (simp add: table_ok_def)
    have "inj_on (addr_of u) (set (hashed u))" using ok by (simp add: table_ok_def)
    then have "addr_of u p \<noteq> bc_addr" using inj_onD p Cons.prems(2,3) False by metis
    moreover have "rtw_get_stainfo (spriv u) (addr_of u p) = Some p" using get_iff [OF ok a] p by simp
    ultimately have i: "ap_inv (snd (rtw_free_stainfo u (Some p)))" using ap_inv_free(1) [OF Cons.prems(1) a] by simp
    obtain r u' where fr: "rtw_free_stainfo u (Some p) = (r, u')" by (rule prod.exhaust)
    note H = hashed_free [OF inv p fr]
    have "ap_inv (foldl (\<lambda>t' p. if rtw_get_bcmc_stainfo t = Some p then t' else snd (rtw_free_stainfo t' (Some p))) u' ps)
        \<and> set (hashed (foldl (\<lambda>t' p. if rtw_get_bcmc_stainfo t = Some p then t' else snd (rtw_free_stainfo t' (Some p))) u' ps))
          = set (hashed u') - (set ps - {b})"
      by (rule Cons.IH) (use i fr H(1,3) Cons.prems False in auto)
    then show ?thesis using False fr assms(2) H(1) by auto
  qed
qed

lemma free_all_hashed:
  assumes "ap_inv t"
  shows "ap_inv (rtw_free_all_stainfo t)" "\<exists>b. rtw_get_bcmc_stainfo t = Some b \<and> set (hashed (rtw_free_all_stainfo t)) = {b}"
proof -
  have ok: "table_ok t" and inv: "table_inv t" using assms by (auto simp: ap_inv_def table_ok_def)
  obtain b where b: "rtw_get_bcmc_stainfo t = Some b" using assms by (auto simp: ap_inv_def bcmc_ok_def)
  then have bh: "b \<in> set (hashed t)" "addr_of t b = bc_addr" using get_bcmc_iff [OF ok] by auto
  have "ap_inv (rtw_free_all_stainfo t) \<and> set (hashed (rtw_free_all_stainfo t)) = {b}"
  proof (cases "asoc_sta_count (spriv t) = 1")
    case True
    then have "length (hashed t) = 1" using table_invD(5) [OF inv] by simp
    then obtain x where "hashed t = [x]" by (auto simp: length_Suc_conv)
    then show ?thesis using True bh(1) assms by (simp add: rtw_free_all_stainfo_def)
  next
    case False
    have "distinct (hashed t)" using table_inv_slots(1) [OF inv] by simp
    from free_loop [OF assms b bh(2,1) this subset_refl] show ?thesis
      using False bh(1) by (simp add: rtw_free_all_stainfo_def hashed_def [symmetric]) blast
  qed
  then show "ap_inv (rtw_free_all_stainfo t)" "\<exists>b. rtw_get_bcmc_stainfo t = Some b \<and> set (hashed (rtw_free_all_stainfo t)) = {b}"
    using b by blast+
qed

text \<open>A station whose identifier is above 31 is taken out of the hash lists, but its slot is not queued.\<close>

lemma free_leaks:
  assumes "table_inv t" "p \<in> set (hashed t)" "rtw_free_stainfo t (Some p) = (res, t')" "31 < aid (slots t ! p)"
  shows "res = RTW_FAIL \<and> p \<notin> set (hashed t') \<and> p \<notin> set (free_sta_queue (spriv t'))"
  using hashed_free [OF assms(1-3)] assms(4) table_inv_slots(1) [OF assms(1)] assms(2) by auto

section \<open>Properties\<close>

lemma ap_table_invariant_parts:
  assumes "ap_reach t"
  shows "distinct (free_sta_queue (spriv t) @ hashed t)"
    and "set (free_sta_queue (spriv t) @ hashed t) = {..< NUM_STA}"
    and "inj_on (addr_of t) (set (hashed t))"
    and "\<forall>p \<in> set (hashed t). \<forall>q \<in> set (hashed t). 0 < aid (slots t ! p) \<longrightarrow> aid (slots t ! q) = aid (slots t ! p) \<longrightarrow> p = q"
    and "\<forall>p \<in> set (hashed t). aid (slots t ! p) \<le> 31"
    and "\<exists>b. rtw_get_bcmc_stainfo t = Some b"
    and "\<forall>a p. sta_addr a \<longrightarrow> a \<noteq> bc_addr \<longrightarrow> rtw_get_stainfo (spriv t) a = Some p \<longrightarrow>
      fst (rtw_free_stainfo t (Some p)) = RTW_SUCCESS"
proof -
  have i: "ap_inv t" by (rule ap_reach_inv [OF assms])
  then have ok: "table_ok t" and inv: "table_inv t" and aids: "aids_ok t" by (auto simp: ap_inv_def table_ok_def)
  show "distinct (free_sta_queue (spriv t) @ hashed t)" "set (free_sta_queue (spriv t) @ hashed t) = {..< NUM_STA}"
    by (rule table_inv_slots [OF inv])+
  show "inj_on (addr_of t) (set (hashed t))" using ok by (simp add: table_ok_def)
  show "\<forall>p \<in> set (hashed t). \<forall>q \<in> set (hashed t). 0 < aid (slots t ! p) \<longrightarrow> aid (slots t ! q) = aid (slots t ! p) \<longrightarrow> p = q"
    using aids_okD(3) [OF aids] by (metis option.inject)
  show "\<forall>p \<in> set (hashed t). aid (slots t ! p) \<le> 31" using aids_okD(2) [OF aids] by blast
  show "\<exists>b. rtw_get_bcmc_stainfo t = Some b" using i by (auto simp: ap_inv_def bcmc_ok_def)
  show "\<forall>a p. sta_addr a \<longrightarrow> a \<noteq> bc_addr \<longrightarrow> rtw_get_stainfo (spriv t) a = Some p \<longrightarrow>
      fst (rtw_free_stainfo t (Some p)) = RTW_SUCCESS" using ap_inv_free(2) [OF i] by blast
qed


definition demo_addr :: bytes where "demo_addr = [0x02, 0, 0, 0, 0, 0x11]"

definition demo_table :: sta_table where
  "demo_table = snd (assign_aid 1 (snd (rtw_alloc_stainfo (snd (rtw_init_bcmc_stainfo init_sta_table)) demo_addr)))"

lemma demo_sta_addr: "sta_addr demo_addr" "demo_addr \<noteq> bc_addr" by code_simp+

lemma demo_reach: "ap_reach demo_table"
proof -
  have "rtw_get_stainfo (spriv (snd (rtw_init_bcmc_stainfo init_sta_table))) demo_addr = None" by code_simp
  from ap_auth [OF ap_start demo_sta_addr this]
  have r: "ap_reach (snd (rtw_alloc_stainfo (snd (rtw_init_bcmc_stainfo init_sta_table)) demo_addr))" .
  have "rtw_get_stainfo (spriv (snd (rtw_alloc_stainfo (snd (rtw_init_bcmc_stainfo init_sta_table)) demo_addr))) demo_addr
      = Some 1" by code_simp
  from ap_assoc [OF r demo_sta_addr this] show ?thesis by (simp only: demo_table_def)
qed


text \<open>The stations under their addresses, as a map.\<close>

definition sta_map :: "sta_table \<Rightarrow> bytes \<rightharpoonup> nat" where
  "sta_map t = (\<lambda>a. if sta_addr a then rtw_get_stainfo (spriv t) a else None)"

lemma station_table_is_map_parts:
  assumes "table_ok t" "sta_addr a"
  shows "sta_map t a = None \<Longrightarrow> rtw_alloc_stainfo t a = (Some p, t') \<Longrightarrow>
      table_ok t' \<and> sta_map t' = (sta_map t)(a \<mapsto> p) \<and> p \<notin> ran (sta_map t)"
    and "sta_map t a = None \<Longrightarrow> rtw_alloc_stainfo t a = (None, t') \<Longrightarrow> t' = t \<and> length (hashed t) = NUM_STA"
    and "sta_map t a = Some p \<Longrightarrow> aid (slots t ! p) \<le> 31 \<Longrightarrow> rtw_free_stainfo t (Some p) = (res, t') \<Longrightarrow>
      res = RTW_SUCCESS \<and> table_ok t' \<and> sta_map t' = (sta_map t)(a := None)"
proof -
  have inv: "table_inv t" using assms(1) by (simp add: table_ok_def)
  show "table_ok t' \<and> sta_map t' = (sta_map t)(a \<mapsto> p) \<and> p \<notin> ran (sta_map t)"
    if "sta_map t a = None" "rtw_alloc_stainfo t a = (Some p, t')"
  proof -
    have n: "rtw_get_stainfo (spriv t) a = None" using that(1) assms(2) by (simp add: sta_map_def)
    have "sta_map t' b = ((sta_map t)(a \<mapsto> p)) b" for b
      using stas.alloc_Some [OF assms n that(2), of b] assms(2) by (cases "b = a") (simp_all add: sta_map_def)
    moreover have "table_ok t'" using stas.alloc_ok [OF assms n] that(2) by simp
    moreover have "p \<notin> ran (sta_map t)"
      using alloc_hashed(2) [OF inv that(2)] get_iff [OF assms(1)] by (auto simp: ran_def sta_map_def split: if_splits)
    ultimately show ?thesis by blast
  qed
  show "t' = t \<and> length (hashed t) = NUM_STA" if "sta_map t a = None" "rtw_alloc_stainfo t a = (None, t')"
  proof -
    have "free_sta_queue (spriv t) = []" using alloc_cases [OF inv that(2)] by blast
    then have "size (mset (hashed t)) = NUM_STA" using table_invD(6) [OF inv] by simp
    then show ?thesis using stas.alloc_None [OF assms(1) that(2)] by simp
  qed
  show "res = RTW_SUCCESS \<and> table_ok t' \<and> sta_map t' = (sta_map t)(a := None)"
    if "sta_map t a = Some p" "aid (slots t ! p) \<le> 31" "rtw_free_stainfo t (Some p) = (res, t')"
  proof -
    have n: "rtw_get_stainfo (spriv t) a = Some p" using that(1) assms(2) by (simp add: sta_map_def)
    have "sta_map t' b = ((sta_map t)(a := None)) b" for b
      using stas.release_lookup [OF assms n that(2), of b] that(3) assms(2) by (cases "b = a") (simp_all add: sta_map_def)
    moreover have "table_ok t'" using stas.release_ok [OF assms n that(2)] that(3) by simp
    moreover have "p \<in> set (hashed t)" using get_iff [OF assms] n by blast
    then have "res = RTW_SUCCESS" using hashed_free(10) [OF inv _ that(3)] that(2) by simp
    ultimately show ?thesis by blast
  qed
qed

text \<open>C23. The table implements a map from addresses to slots: allocating a station for a new address
  adds it and its slot (which no other address has), fails only when all 32 slots are taken and then
  changes nothing, and releasing a station whose identifier is at most 31 removes its address. Both keep
  the table well formed.\<close>

theorem station_table_is_map:
  assumes "table_ok t" "sta_addr a"
  shows "(sta_map t a = None \<longrightarrow> rtw_alloc_stainfo t a = (Some p, t') \<longrightarrow> table_ok t' \<and> sta_map t' = (sta_map t)(a \<mapsto> p) \<and> p \<notin> ran (sta_map t))
   \<and> (sta_map t a = None \<longrightarrow> rtw_alloc_stainfo t a = (None, t') \<longrightarrow> t' = t \<and> length (hashed t) = NUM_STA)
   \<and> (sta_map t a = Some p \<longrightarrow> aid (slots t ! p) \<le> 31 \<longrightarrow> rtw_free_stainfo t (Some p) = (res, t') \<longrightarrow> res = RTW_SUCCESS \<and> table_ok t' \<and> sta_map t' = (sta_map t)(a := None))"
  by (rule conjI, (rule impI)+, rule station_table_is_map_parts(1) [OF assms], assumption+,
      rule conjI, (rule impI)+, rule station_table_is_map_parts(2) [OF assms], assumption+,
      (rule impI)+, rule station_table_is_map_parts(3) [OF assms], assumption+)

lemma demo_table_ok: "table_ok demo_table" using ap_reach_inv [OF demo_reach] by (simp add: ap_inv_def)

theorem station_table_is_map_witness:
  "sta_map demo_table demo_addr = Some 1
   \<and> sta_map (snd (rtw_free_stainfo demo_table (Some 1))) = (sta_map demo_table)(demo_addr := None)
   \<and> fst (rtw_free_stainfo demo_table (Some 1)) = RTW_SUCCESS"
proof -
  have s: "sta_map demo_table demo_addr = Some 1" by code_simp
  have a: "aid (slots demo_table ! 1) \<le> 31" by code_simp
  from station_table_is_map [OF demo_table_ok demo_sta_addr(1), THEN conjunct2, THEN conjunct2, THEN mp, THEN mp, THEN mp, OF s a prod.collapse [symmetric]]
  show ?thesis using s by simp
qed

lemma table_ok_update_sta: "(\<And>s. hwaddr (g s) = hwaddr s) \<Longrightarrow> table_ok (update_sta p g t) = table_ok t"
proof -
  assume g: "\<And>s. hwaddr (g s) = hwaddr s"
  have a: "addr_of (update_sta p g t) q = addr_of t q" for q
    by (cases "p < length (sta_buf (spriv t))") (auto simp: update_sta_def nth_list_update list_update_beyond g)
  have h: "hashed (update_sta p g t) = hashed t" by (simp add: hashed_def table_frame)
  show ?thesis unfolding table_ok_def table_inv_def a h by (simp only: table_frame)
qed

lemma join_security_frame:
  "table_ok (snd (join_security p sec t)) = table_ok t" "hashed (snd (join_security p sec t)) = hashed t"
  "length (slots (snd (join_security p sec t))) = length (slots t)"
  "aid (slots (snd (join_security p sec t)) ! q) = aid (slots t ! q)"
proof -
  let ?u = "update_sta p (\<lambda>s. s\<lparr>dot118021x_UncstKey := replicate 16 0\<rparr>) t"
  have u: "table_ok ?u = table_ok t" by (rule table_ok_update_sta) simp
  have h: "hashed ?u = hashed t" by (simp add: hashed_def table_frame)
  have a: "aid (slots (update_slot p g v) ! q) = aid (slots v ! q)" if "\<And>s. aid (g s) = aid s" for g v
    using that by (cases "p < length (slots v)") (auto simp: update_slot_def nth_list_update list_update_beyond)
  show "table_ok (snd (join_security p sec t)) = table_ok t" "hashed (snd (join_security p sec t)) = hashed t"
    "length (slots (snd (join_security p sec t))) = length (slots t)"
    "aid (slots (snd (join_security p sec t)) ! q) = aid (slots t ! q)"
    by (simp_all add: join_security_def Let_def u h a table_ok_update_slot table_frame)
qed

text \<open>A station that joined an access point which gave it an association identifier above 31 (they go to
  2007) is never completely released: \<^verbatim>\<open>rtw_free_stainfo\<close> takes the slot out of the hash lists, reports a
  failure and queues the slot nowhere, so there is one slot less than before.\<close>

theorem joinbss_release_leaks:
  assumes "table_ok t" "sta_addr a" "31 < join_res" "joinbss_update_stainfo a join_res (sec, t) = (Some p, sec', t1)"
    "rtw_free_stainfo t1 (Some p) = (res, t2)"
  shows "res = RTW_FAIL \<and> p \<notin> set (free_sta_queue (spriv t2)) \<and> p \<notin> set (hashed t2)"
proof -
  obtain r t0 where t0: "(case rtw_get_stainfo (spriv t) a of Some p \<Rightarrow> (Some p, t) | None \<Rightarrow> rtw_alloc_stainfo t a) = (r, t0)"
    by (rule prod.exhaust)
  have r: "r = Some p"
    using assms(4) t0 by (auto simp: joinbss_update_stainfo_def Let_def split: option.splits prod.splits)
  have g: "stas.get_or_alloc t a = (Some p, t0)" using t0 r by (simp add: stas.get_or_alloc_def)
  have ok0: "table_ok t0" using stas.get_or_alloc_ok [OF assms(1,2)] g by simp
  then have inv0: "table_inv t0" by (simp add: table_ok_def)
  have "rtw_get_stainfo (spriv t0) a = Some p" using stas.get_or_alloc_lookup [OF assms(1,2,2) g] by simp
  then have p: "p \<in> set (hashed t0)" using get_iff [OF ok0 assms(2)] by auto
  define v where "v = snd (join_security p sec (update_slot p (\<lambda>s. s\<lparr>aid := join_res, mac_id := 0\<rparr>) t0))"
  define u where "u = update_slot p reset_reorder v"
  have t1: "t1 = (case rtw_get_bcmc_stainfo u of None \<Rightarrow> u | Some b \<Rightarrow> update_slot b reset_reorder u)"
    using assms(4) t0 r
    by (simp add: joinbss_update_stainfo_def Let_def u_def v_def split_beta cong: option.case_cong)
  have l: "p < length (slots t0)" using hashed_less [OF inv0 p] table_invD(2) [OF inv0] by simp
  have av: "aid (slots v ! p) = join_res" using l by (simp add: v_def join_security_frame slots_update_slot)
  have lv: "length (slots v) = length (slots t0)" by (simp add: v_def join_security_frame table_frame)
  have okv: "table_ok v" using ok0 by (simp add: v_def join_security_frame table_ok_update_slot)
  have hv: "hashed v = hashed t0" by (simp add: v_def join_security_frame table_frame)
  have keep: "aid (slots (update_slot b reset_reorder w) ! q) = aid (slots w ! q)" for b w q
    by (cases "b < length (slots w)")
      (auto simp: update_slot_def nth_list_update list_update_beyond reset_reorder_def)
  have ok1: "table_ok t1" using okv by (simp add: t1 u_def table_ok_update_slot split: option.split)
  have h1: "hashed t1 = hashed t0" by (simp add: t1 u_def table_frame hv split: option.split)
  have a1: "aid (slots t1 ! p) = join_res" by (simp add: t1 u_def keep av split: option.split)
  have "res = RTW_FAIL \<and> p \<notin> set (hashed t2) \<and> p \<notin> set (free_sta_queue (spriv t2))"
    by (rule free_leaks [OF _ _ assms(5)]) (use ok1 p h1 a1 assms(3) in \<open>auto simp: table_ok_def\<close>)
  then show ?thesis by simp
qed

definition demo_sec :: join_sec where
  "demo_sec = \<lparr>authAlgrthm = 2, privacyAlgrthm = 4, installGrpkey = True, usetkipkey = True, grpkey_handshake = True,
     wps_len = 0\<rparr>"

definition demo_joined :: sta_table where
  "demo_joined = snd (snd (joinbss_update_stainfo demo_addr 100 (demo_sec, init_sta_table)))"

theorem joinbss_release_leaks_witness:
  "fst (rtw_free_stainfo demo_joined (Some 0)) = RTW_FAIL
   \<and> 0 \<notin> set (free_sta_queue (spriv (snd (rtw_free_stainfo demo_joined (Some 0)))))"
proof -
  have "fst (joinbss_update_stainfo demo_addr 100 (demo_sec, init_sta_table)) = Some 0" by code_simp
  then have j: "joinbss_update_stainfo demo_addr 100 (demo_sec, init_sta_table)
      = (Some 0, fst (snd (joinbss_update_stainfo demo_addr 100 (demo_sec, init_sta_table))), demo_joined)"
    unfolding demo_joined_def by (metis prod.collapse)
  from joinbss_release_leaks [OF init_table_ok demo_sta_addr(1) _ j prod.collapse [symmetric]] show ?thesis by simp
qed

end
