(* ===== verification/Ie.thy ===== *)
theory Ie
  imports Prelude "HOL-Library.Monad_Syntax"
begin

text \<open>
  Information elements (\<^verbatim>\<open>core/rtw_ieee80211.c\<close>): the writers, the searches through a series of
  elements, the parser of management frames and the removal of elements.

  A pointer is a position in a byte list, the memory from the start of the elements to the end of what
  may be read. \<open>None\<close> is a read outside of it. Element numbers are those of \<^verbatim>\<open>include/wifi.h\<close>; the
  ones named \<^verbatim>\<open>WLAN_EID_...\<close> come from the kernel's \<^verbatim>\<open>linux/ieee80211.h\<close> and are the numbers
  of IEEE 802.11.
\<close>

section \<open>Reads\<close>

definition rd :: "bytes \<Rightarrow> nat \<Rightarrow> u8 option" where
  "rd b i = (if i < length b then Some (b ! i) else None)"

definition rds :: "bytes \<Rightarrow> nat \<Rightarrow> nat \<Rightarrow> bytes option" where
  "rds b i n = (if i + n \<le> length b then Some (buf_get i n b) else None)"

definition rd_be16 :: "bytes \<Rightarrow> nat \<Rightarrow> nat option" where
  "rd_be16 b i = do { h \<leftarrow> rd b i; l \<leftarrow> rd b (i + 1); Some (256 * unat h + unat l) }"

definition rd_le16 :: "bytes \<Rightarrow> nat \<Rightarrow> nat option" where
  "rd_le16 b i = do { l \<leftarrow> rd b i; h \<leftarrow> rd b (i + 1); Some (256 * unat h + unat l) }"

definition put_le16 :: "u16 \<Rightarrow> bytes" where
  "put_le16 w = [ucast w, ucast (drop_bit 8 w)]"

lemma unat_bytes: "256 * unat (ucast (drop_bit 8 w) :: u8) + unat (ucast w :: u8) = unat (w :: u16)"
proof -
  have "unat (ucast w :: u8) = unat w mod 256" by (simp add: unsigned_ucast_eq take_bit_eq_mod unat_mod_distrib)
  moreover have "unat (ucast (drop_bit 8 w) :: u8) = unat w div 256"
  proof -
    have "unat w < 65536" using unsigned_less [of w] by simp
    then show ?thesis by (simp add: unsigned_ucast_eq unsigned_drop_bit_eq take_bit_eq_mod drop_bit_eq_div unat_mod_distrib unat_div_distrib)
  qed
  ultimately show ?thesis by simp
qed

lemma rd_Some: "rd b i = Some x \<longleftrightarrow> i < length b \<and> x = b ! i"
  by (auto simp: rd_def)

lemma rd_in: "i < length b \<Longrightarrow> rd b i = Some (b ! i)" by (simp add: rd_def)

lemma rds_Some: "rds b i n = Some x \<longleftrightarrow> i + n \<le> length b \<and> x = buf_get i n b"
  by (auto simp: rds_def)

section \<open>Writers\<close>

text \<open>A writer changes the buffer at a position and returns the next position and the new frame length
  (an unsigned int). Length bytes and element numbers are cut to eight bits.\<close>

definition put :: "nat \<Rightarrow> bytes \<Rightarrow> bytes \<Rightarrow> bytes option" where
  "put i bs b = (if i + length bs \<le> length b then Some (buf_put i bs b) else None)"

definition rtw_set_fixed_ie :: "bytes \<Rightarrow> nat \<Rightarrow> nat \<Rightarrow> bytes \<Rightarrow> u32 \<Rightarrow> (bytes \<times> nat \<times> u32) option" where
  "rtw_set_fixed_ie b pbuf len source frlen =
     do { s \<leftarrow> rds source 0 len; b \<leftarrow> put pbuf s b; Some (b, pbuf + len, frlen + of_nat len) }"

definition rtw_set_ie :: "bytes \<Rightarrow> nat \<Rightarrow> nat \<Rightarrow> nat \<Rightarrow> bytes \<Rightarrow> u32 \<Rightarrow> (bytes \<times> nat \<times> u32) option" where
  "rtw_set_ie b pbuf index len source frlen =
     do { b \<leftarrow> put pbuf [of_nat index, of_nat len] b;
          s \<leftarrow> rds source 0 len;
          b \<leftarrow> put (pbuf + 2) s b;
          Some (b, pbuf + len + 2, frlen + (of_nat len + 2)) }"

definition rtw_set_ie_ch_switch :: "bytes \<Rightarrow> nat \<Rightarrow> u32 \<Rightarrow> u8 \<Rightarrow> u8 \<Rightarrow> u8 \<Rightarrow> (bytes \<times> nat \<times> u32) option" where
  "rtw_set_ie_ch_switch b buf buf_len ch_switch_mode new_ch ch_switch_cnt =
     rtw_set_ie b buf 37 3 [ch_switch_mode, new_ch, ch_switch_cnt] buf_len"

definition rtw_set_ie_secondary_ch_offset :: "bytes \<Rightarrow> nat \<Rightarrow> u32 \<Rightarrow> u8 \<Rightarrow> (bytes \<times> nat \<times> u32) option" where
  "rtw_set_ie_secondary_ch_offset b buf buf_len secondary_ch_offset =
     rtw_set_ie b buf 62 1 [secondary_ch_offset] buf_len"

definition rtw_set_ie_mesh_ch_switch_parm ::
    "bytes \<Rightarrow> nat \<Rightarrow> u32 \<Rightarrow> u8 \<Rightarrow> u8 \<Rightarrow> u16 \<Rightarrow> u16 \<Rightarrow> (bytes \<times> nat \<times> u32) option" where
  "rtw_set_ie_mesh_ch_switch_parm b buf buf_len ttl flags reason precedence =
     rtw_set_ie b buf 0x118 6 ([ttl, flags] @ put_le16 reason @ put_le16 precedence) buf_len"

section \<open>Searches\<close>

text \<open>\<^verbatim>\<open>rtw_get_ie\<close>: the limit is tested only after an element has been passed. A result is the position
  and the length byte of the element found; \<open>Some None\<close> is the null pointer.\<close>

declare bind_option_cong [fundef_cong]

function get_ie_loop :: "bytes \<Rightarrow> nat \<Rightarrow> int \<Rightarrow> nat \<Rightarrow> (nat \<times> nat) option option" where
  "get_ie_loop b index limit i =
     do { x \<leftarrow> rd b i;
          l \<leftarrow> rd b (i + 1);
          if unat x = index then Some (Some (i, unat l))
          else
            (let i = i + unat l + 2
             in if int i \<ge> limit then Some None else get_ie_loop b index limit i) }"
  by pat_completeness auto
termination
proof (relation "measure (\<lambda>(b, index, limit, i). nat (limit - int i))")
  fix b index limit i x l y
  assume y: "y = i + unat (l :: u8) + 2" "\<not> int y \<ge> limit"
  have "i < y" unfolding y(1) by simp
  then have "nat (limit - int y) < nat (limit - int i)" using y(2) by linarith
  then show "((b, index, limit, y), b, index, limit, i) \<in> measure (\<lambda>(b, index, limit, i). nat (limit - int i))"
    by simp
qed simp

declare get_ie_loop.simps [simp del]

definition rtw_get_ie :: "bytes \<Rightarrow> nat \<Rightarrow> int \<Rightarrow> (nat \<times> nat) option option" where
  "rtw_get_ie b index limit = (if limit < 1 then Some None else get_ie_loop b index limit 0)"

text \<open>The other searches run the same loop with the limit tested first: an element that \<open>hit\<close>
  recognises ends it. The vendor prefix is compared wherever the element number fits, so also behind the
  end of a short element.\<close>

definition oui_hit :: "u8 \<Rightarrow> bytes option \<Rightarrow> bytes \<Rightarrow> nat \<Rightarrow> bool option" where
  "oui_hit eid oui b cnt =
     do { x \<leftarrow> rd b cnt;
          if x \<noteq> eid then Some False
          else (case oui of None \<Rightarrow> Some True
            | Some oui \<Rightarrow> do { o4 \<leftarrow> rds b (cnt + 2) (length oui); Some (o4 = oui) }) }"

function get_ie_ex_loop :: "bytes \<Rightarrow> nat \<Rightarrow> u8 \<Rightarrow> bytes option \<Rightarrow> nat \<Rightarrow> (nat \<times> nat) option option" where
  "get_ie_ex_loop b in_len eid oui cnt =
     (if cnt < in_len
      then do { h \<leftarrow> oui_hit eid oui b cnt;
                l \<leftarrow> rd b (cnt + 1);
                if h then Some (Some (cnt, unat l + 2)) else get_ie_ex_loop b in_len eid oui (cnt + (unat l + 2)) }
      else Some None)"
  by pat_completeness auto
termination by (relation "measure (\<lambda>(b, in_len, eid, oui, cnt). in_len - cnt)") auto

declare get_ie_ex_loop.simps [simp del]

text \<open>\<^verbatim>\<open>rtw_get_ie_ex\<close> with the copy it makes when the caller passes a buffer.\<close>

definition rtw_get_ie_ex :: "bytes \<Rightarrow> nat \<Rightarrow> u8 \<Rightarrow> bytes option \<Rightarrow> bool \<Rightarrow> (nat \<times> nat \<times> bytes) option option" where
  "rtw_get_ie_ex in_ie in_len eid oui copy =
     do { r \<leftarrow> get_ie_ex_loop in_ie in_len eid oui 0;
          case r of None \<Rightarrow> Some None
          | Some (p, ielen) \<Rightarrow>
              (if copy then do { c \<leftarrow> rds in_ie p ielen; Some (Some (p, ielen, c)) } else Some (Some (p, ielen, []))) }"

definition WPS_OUI :: bytes where "WPS_OUI = [0x00, 0x50, 0xf2, 0x04]"
definition P2P_OUI :: bytes where "P2P_OUI = [0x50, 0x6f, 0x9a, 0x09]"
definition WFD_OUI :: bytes where "WFD_OUI = [0x50, 0x6f, 0x9a, 0x0a]"
definition WPA_OUI :: bytes where "WPA_OUI = [0x00, 0x50, 0xf2, 0x01]"

definition rtw_is_wps_ie :: "bytes \<Rightarrow> (bool \<times> nat) option" where
  "rtw_is_wps_ie b =
     do { h \<leftarrow> oui_hit 0xdd (Some WPS_OUI) b 0;
          if h then do { l \<leftarrow> rd b 1; Some (True, unat l + 2) } else Some (False, 0) }"

definition rtw_get_wps_ie :: "bytes \<Rightarrow> nat \<Rightarrow> bool \<Rightarrow> (nat \<times> nat \<times> bytes) option option" where
  "rtw_get_wps_ie in_ie in_len copy = rtw_get_ie_ex in_ie in_len 0xdd (Some WPS_OUI) copy"

definition MAX_IE_SZ :: nat where "MAX_IE_SZ = 768"

text \<open>\<^verbatim>\<open>rtw_get_p2p_ie\<close> compares the unsigned position with the signed length, so a negative length is a
  very large one; it gives up behind position \<^verbatim>\<open>MAX_IE_SZ\<close> and on a negative length, after one read.\<close>

function get_p2p_ie_loop :: "bytes \<Rightarrow> nat \<Rightarrow> nat \<Rightarrow> (nat \<times> nat) option option" where
  "get_p2p_ie_loop b in_len cnt =
     (if cnt < in_len
      then do { _ \<leftarrow> rd b cnt;
                if cnt > MAX_IE_SZ then Some None
                else
                  do { h \<leftarrow> oui_hit 0xdd (Some P2P_OUI) b cnt;
                       l \<leftarrow> rd b (cnt + 1);
                       if h then Some (Some (cnt, unat l + 2)) else get_p2p_ie_loop b in_len (cnt + (unat l + 2)) } }
      else Some None)"
  by pat_completeness auto
termination by (relation "measure (\<lambda>(b, in_len, cnt). in_len - cnt)") auto

declare get_p2p_ie_loop.simps [simp del]

definition rtw_get_p2p_ie :: "bytes \<Rightarrow> int \<Rightarrow> bool \<Rightarrow> (nat \<times> nat \<times> bytes) option option" where
  "rtw_get_p2p_ie in_ie in_len copy =
     (if in_len < 0 then do { _ \<leftarrow> rd in_ie 0; Some None }
      else
        do { r \<leftarrow> get_p2p_ie_loop in_ie (nat in_len) 0;
             case r of None \<Rightarrow> Some None
             | Some (p, ielen) \<Rightarrow>
                 (if copy then do { c \<leftarrow> rds in_ie p ielen; Some (Some (p, ielen, c)) } else Some (Some (p, ielen, []))) })"

text \<open>\<^verbatim>\<open>rtw_get_wfd_ie\<close> returns the position behind the element, or zero.\<close>

definition rtw_get_wfd_ie :: "bytes \<Rightarrow> int \<Rightarrow> bool \<Rightarrow> (nat \<times> nat \<times> bytes) option" where
  "rtw_get_wfd_ie in_ie in_len copy =
     (if in_len < 0 then Some (0, 0, [])
      else
        do { r \<leftarrow> rtw_get_ie_ex in_ie (nat in_len) 0xdd (Some WFD_OUI) copy;
             case r of None \<Rightarrow> Some (0, 0, []) | Some (p, ielen, c) \<Rightarrow> Some (p + ielen, ielen, c) })"

section \<open>Security elements\<close>

text \<open>\<^verbatim>\<open>rtw_get_wpa_ie\<close> resumes the search behind every vendor element that is not a WPA element of
  version 1.\<close>

lemma get_ie_loop_pos:
  "get_ie_loop b index limit i = Some (Some (p, l)) \<Longrightarrow> i \<le> p \<and> (p = i \<or> int p < limit) \<and> l < 256 \<and> p + 1 < length b"
proof (induction b index limit i rule: get_ie_loop.induct)
  case (1 b index limit i)
  from "1.prems" obtain x l' where r: "rd b i = Some x" "rd b (i + 1) = Some l'" by (subst (asm) get_ie_loop.simps) (auto simp: bind_eq_Some_conv rd_Some)
  have b: "unat l' < 256" using unsigned_less [of l'] by simp
  show ?case
  proof (cases "unat x = index")
    case True
    then have "p = i \<and> l = unat l'" using "1.prems" r by (subst (asm) get_ie_loop.simps) (auto simp: rd_def)
    then show ?thesis using b r by (simp add: rd_Some)
  next
    case False
    let ?y = "i + unat l' + 2"
    have n: "\<not> limit \<le> int ?y \<and> get_ie_loop b index limit ?y = Some (Some (p, l))"
      using "1.prems" r False by (subst (asm) get_ie_loop.simps) (auto simp: Let_def rd_def split: if_splits)
    then have "?y \<le> p \<and> (p = ?y \<or> int p < limit) \<and> l < 256 \<and> p + 1 < length b" using "1.IH" [of x l', OF _ _ False refl] r by simp
    then show ?thesis using n by linarith
  qed
qed

lemma rtw_get_ie_pos: "rtw_get_ie b index limit = Some (Some (p, l)) \<Longrightarrow> int p < limit \<and> l < 256"
  using get_ie_loop_pos [of b index limit 0 p l] by (auto simp: rtw_get_ie_def split: if_splits)

function get_wpa_ie_loop :: "bytes \<Rightarrow> int \<Rightarrow> nat \<Rightarrow> int \<Rightarrow> (nat \<times> nat) option option" where
  "get_wpa_ie_loop b limit pos limit_new =
     (case rtw_get_ie (drop pos b) 0xdd limit_new of
        None \<Rightarrow> None
      | Some None \<Rightarrow> Some None
      | Some (Some (p, len)) \<Rightarrow>
          (case do { oui \<leftarrow> rds b (pos + p + 2) 4;
                     if oui \<noteq> WPA_OUI then Some False else do { v \<leftarrow> rd_le16 b (pos + p + 6); Some (v = 1) } } of
             None \<Rightarrow> None
           | Some True \<Rightarrow> Some (Some (pos + p, len))
           | Some False \<Rightarrow>
               (if limit - int (pos + p) - 2 - int len \<le> 0 then Some None
                else get_wpa_ie_loop b limit (pos + p + (2 + len)) (limit - int (pos + p) - 2 - int len))))"
  by pat_completeness auto
termination by (relation "measure (\<lambda>(b, limit, pos, limit_new). nat (limit - int pos))") auto

declare get_wpa_ie_loop.simps [simp del]

definition rtw_get_wpa_ie :: "bytes \<Rightarrow> int \<Rightarrow> (nat \<times> nat) option option" where
  "rtw_get_wpa_ie pie limit = get_wpa_ie_loop pie limit 0 limit"

definition rtw_get_wpa2_ie :: "bytes \<Rightarrow> int \<Rightarrow> (nat \<times> nat) option option" where
  "rtw_get_wpa2_ie pie limit = rtw_get_ie pie 0x30 limit"

text \<open>\<^verbatim>\<open>rtw_get_sec_ie\<close>: the lengths, and on request copies, of the last RSN and the last WPA element
  behind the fixed fields. The state is what the four pointers refer to.\<close>

record sec_out =
  out_rsn_ie :: bytes
  out_rsn_len :: nat
  out_wpa_ie :: bytes
  out_wpa_len :: nat

function get_sec_ie_loop :: "bytes \<Rightarrow> nat \<Rightarrow> bool \<Rightarrow> nat \<Rightarrow> sec_out \<Rightarrow> sec_out option" where
  "get_sec_ie_loop b in_len copy cnt st =
     (if cnt < in_len
      then do { wpa \<leftarrow> oui_hit 0xdd (Some WPA_OUI) b cnt;
                authmode \<leftarrow> rd b cnt;
                l \<leftarrow> rd b (cnt + 1);
                c \<leftarrow> (if copy \<and> (wpa \<or> authmode = 0x30) then rds b cnt (unat l + 2) else Some []);
                let st = (if wpa then (if copy then st\<lparr>out_wpa_ie := c\<rparr> else st)\<lparr>out_wpa_len := unat l + 2\<rparr>
                          else if authmode = 0x30 then (if copy then st\<lparr>out_rsn_ie := c\<rparr> else st)\<lparr>out_rsn_len := unat l + 2\<rparr>
                          else st);
                get_sec_ie_loop b in_len copy (cnt + (unat l + 2)) st }
      else Some st)"
  by pat_completeness auto
termination by (relation "measure (\<lambda>(b, in_len, copy, cnt, st). in_len - cnt)") auto

declare get_sec_ie_loop.simps [simp del]

definition rtw_get_sec_ie :: "bytes \<Rightarrow> nat \<Rightarrow> bool \<Rightarrow> sec_out \<Rightarrow> (nat \<times> sec_out) option" where
  "rtw_get_sec_ie in_ie in_len copy st =
     do { st \<leftarrow> get_sec_ie_loop in_ie in_len copy 12 st; Some (out_rsn_len st + out_wpa_len st, st) }"

text \<open>Cipher suites, as the bits \<^verbatim>\<open>WPA_CIPHER_...\<close>.\<close>

definition WPA_CIPHER_NONE :: u32 where "WPA_CIPHER_NONE = 1"
definition WPA_CIPHER_WEP40 :: u32 where "WPA_CIPHER_WEP40 = 2"
definition WPA_CIPHER_WEP104 :: u32 where "WPA_CIPHER_WEP104 = 4"
definition WPA_CIPHER_TKIP :: u32 where "WPA_CIPHER_TKIP = 8"
definition WPA_CIPHER_CCMP :: u32 where "WPA_CIPHER_CCMP = 16"

definition rtw_get_wpa_cipher_suite :: "bytes \<Rightarrow> u32" where
  "rtw_get_wpa_cipher_suite s =
     (if s = [0x00, 0x50, 0xf2, 0] then WPA_CIPHER_NONE
      else if s = [0x00, 0x50, 0xf2, 1] then WPA_CIPHER_WEP40
      else if s = [0x00, 0x50, 0xf2, 2] then WPA_CIPHER_TKIP
      else if s = [0x00, 0x50, 0xf2, 4] then WPA_CIPHER_CCMP
      else if s = [0x00, 0x50, 0xf2, 5] then WPA_CIPHER_WEP104
      else 0)"

definition rtw_get_wpa2_cipher_suite :: "bytes \<Rightarrow> u32" where
  "rtw_get_wpa2_cipher_suite s =
     (if s = [0x00, 0x0f, 0xac, 0] then WPA_CIPHER_NONE
      else if s = [0x00, 0x0f, 0xac, 1] then WPA_CIPHER_WEP40
      else if s = [0x00, 0x0f, 0xac, 2] then WPA_CIPHER_TKIP
      else if s = [0x00, 0x0f, 0xac, 4] then WPA_CIPHER_CCMP
      else if s = [0x00, 0x0f, 0xac, 5] then WPA_CIPHER_WEP104
      else 0)"

text \<open>What the parsers write through their pointers; \<open>is_8021x\<close> is only looked for on request.\<close>

record sec_ie =
  group_cipher :: u32
  pairwise_cipher :: u32
  is_8021x :: bool

fun pairwise_loop :: "(bytes \<Rightarrow> u32) \<Rightarrow> bytes \<Rightarrow> nat \<Rightarrow> nat \<Rightarrow> u32 \<Rightarrow> u32 option" where
  "pairwise_loop suite b pos 0 acc = Some acc"
| "pairwise_loop suite b pos (Suc n) acc =
     do { s \<leftarrow> rds b pos 4; pairwise_loop suite b (pos + 4) n (acc OR suite s) }"

text \<open>The parts both parsers share: the group cipher, the pairwise ciphers and the key management. \<open>Inl\<close> is
  the failing return, \<open>Inr\<close> goes on with a position and the number of bytes left (an int).\<close>

definition parse_group ::
    "(bytes \<Rightarrow> u32) \<Rightarrow> bytes \<Rightarrow> nat \<Rightarrow> int \<Rightarrow> sec_ie \<Rightarrow> (sec_ie + nat \<times> int \<times> sec_ie) option" where
  "parse_group suite b pos left r =
     (if left \<ge> 4 then do { s \<leftarrow> rds b pos 4; Some (Inr (pos + 4, left - 4, r\<lparr>group_cipher := suite s\<rparr>)) }
      else if left > 0 then Some (Inl r)
      else Some (Inr (pos, left, r)))"

definition parse_pairwise ::
    "(bytes \<Rightarrow> u32) \<Rightarrow> bytes \<Rightarrow> nat \<Rightarrow> int \<Rightarrow> sec_ie \<Rightarrow> (sec_ie + nat \<times> int \<times> sec_ie) option" where
  "parse_pairwise suite b pos left r =
     (if left \<ge> 2
      then do { count \<leftarrow> rd_le16 b pos;
                if count = 0 \<or> left - 2 < int count * 4 then Some (Inl r)
                else do { c \<leftarrow> pairwise_loop suite b (pos + 2) count (pairwise_cipher r);
                          Some (Inr (pos + 2 + 4 * count, left - 2 - 4 * int count, r\<lparr>pairwise_cipher := c\<rparr>)) } }
      else if left = 1 then Some (Inl r)
      else Some (Inr (pos, left, r)))"

definition parse_akm :: "bytes \<Rightarrow> bool \<Rightarrow> bytes \<Rightarrow> nat \<Rightarrow> int \<Rightarrow> sec_ie \<Rightarrow> (rtw_status \<times> sec_ie) option" where
  "parse_akm suite_1x want_8021x b pos left r =
     (if want_8021x \<and> left \<ge> 6
      then do { s \<leftarrow> rds b (pos + 2) 4; Some (RTW_SUCCESS, if s = suite_1x then r\<lparr>is_8021x := True\<rparr> else r) }
      else Some (RTW_SUCCESS, r))"

definition parse_ciphers ::
    "(bytes \<Rightarrow> u32) \<Rightarrow> bytes \<Rightarrow> bytes \<Rightarrow> nat \<Rightarrow> int \<Rightarrow> bool \<Rightarrow> sec_ie \<Rightarrow> (rtw_status \<times> sec_ie) option" where
  "parse_ciphers suite suite_1x b pos left want_8021x r =
     do { g \<leftarrow> parse_group suite b pos left r;
          case g of Inl r \<Rightarrow> Some (RTW_FAIL, r)
          | Inr (pos, left, r) \<Rightarrow>
              do { p \<leftarrow> parse_pairwise suite b pos left r;
                   case p of Inl r \<Rightarrow> Some (RTW_FAIL, r)
                   | Inr (pos, left, r) \<Rightarrow> parse_akm suite_1x want_8021x b pos left r } }"

definition rtw_parse_wpa_ie :: "bytes \<Rightarrow> int \<Rightarrow> bool \<Rightarrow> sec_ie \<Rightarrow> (rtw_status \<times> sec_ie) option" where
  "rtw_parse_wpa_ie wpa_ie wpa_ie_len want_8021x r =
     (if wpa_ie_len \<le> 0 then Some (RTW_FAIL, r)
      else
        do { i \<leftarrow> rd wpa_ie 0;
             ok \<leftarrow> (if i \<noteq> 0xdd then Some False
                    else do { l \<leftarrow> rd wpa_ie 1;
                              if l \<noteq> of_int (wpa_ie_len - 2) then Some False
                              else do { o4 \<leftarrow> rds wpa_ie 2 4; Some (o4 = WPA_OUI) } });
             if \<not> ok then Some (RTW_FAIL, r)
             else parse_ciphers rtw_get_wpa_cipher_suite [0x00, 0x50, 0xf2, 1] wpa_ie 8 (wpa_ie_len - 8) want_8021x r })"

definition rtw_parse_wpa2_ie :: "bytes \<Rightarrow> int \<Rightarrow> bool \<Rightarrow> sec_ie \<Rightarrow> (rtw_status \<times> sec_ie) option" where
  "rtw_parse_wpa2_ie rsn_ie rsn_ie_len want_8021x r =
     (if rsn_ie_len \<le> 0 then Some (RTW_FAIL, r)
      else
        do { i \<leftarrow> rd rsn_ie 0;
             ok \<leftarrow> (if i \<noteq> 0x30 then Some False
                    else do { l \<leftarrow> rd rsn_ie 1; Some (l = of_int (rsn_ie_len - 2)) });
             if \<not> ok then Some (RTW_FAIL, r)
             else parse_ciphers rtw_get_wpa2_cipher_suite [0x00, 0x0f, 0xac, 1] rsn_ie 4 (rsn_ie_len - 4) want_8021x r })"

section \<open>Attributes\<close>

text \<open>
  The attributes of WPS, P2P and WFD elements. The length of a WPS or P2P attribute is kept in sixteen
  bits, where adding the header may wrap to zero; the search then stays where it is. So the searches are
  partial: \<open>None\<close> is a search that does not return, \<open>Fault\<close> one that reads outside the memory.
\<close>

datatype 'a access = Fault | Done 'a

text \<open>The loop of both searches: \<open>rid\<close> and \<open>rlen\<close> read the identifier and the length field at a position,
  \<open>hdr\<close> is the size of the two.\<close>

partial_function (option) get_attr_loop ::
    "(bytes \<Rightarrow> nat \<Rightarrow> nat option) \<Rightarrow> (bytes \<Rightarrow> nat \<Rightarrow> nat option) \<Rightarrow> nat \<Rightarrow> bytes \<Rightarrow> nat \<Rightarrow> nat \<Rightarrow> nat
     \<Rightarrow> (nat \<times> nat) option access option" where
  "get_attr_loop rid rlen hdr b ielen target i =
     (if i < ielen
      then (case rid b i of None \<Rightarrow> Some Fault
        | Some attr_id \<Rightarrow>
            (case rlen b i of None \<Rightarrow> Some Fault
             | Some attr_data_len \<Rightarrow>
                 (if attr_id = target then Some (Done (Some (i, (attr_data_len + hdr) mod 2 ^ 16)))
                  else get_attr_loop rid rlen hdr b ielen target (i + (attr_data_len + hdr) mod 2 ^ 16))))
      else Some (Done None))"

text \<open>WPS: identifier and length are two bytes each, high byte first.\<close>

definition wps_id :: "bytes \<Rightarrow> nat \<Rightarrow> nat option" where "wps_id b i = rd_be16 b i"
definition wps_len :: "bytes \<Rightarrow> nat \<Rightarrow> nat option" where "wps_len b i = rd_be16 b (i + 2)"

definition rtw_get_wps_attr :: "bytes \<Rightarrow> nat \<Rightarrow> nat \<Rightarrow> (nat \<times> nat) option access option" where
  "rtw_get_wps_attr ie ielen target =
     (case oui_hit 0xdd (Some WPS_OUI) ie 0 of
        None \<Rightarrow> Some Fault
      | Some False \<Rightarrow> Some (Done None)
      | Some True \<Rightarrow> get_attr_loop wps_id wps_len 4 ie ielen target 6)"

text \<open>The content of an attribute: position, length (an unsigned int) and the copy. A length whose header
  wrapped gives a content length near \<^verbatim>\<open>2^32\<close>.\<close>

definition attr_content :: "nat \<Rightarrow> bytes \<Rightarrow> bool \<Rightarrow> (nat \<times> nat) option access \<Rightarrow> (nat \<times> nat \<times> bytes) option access" where
  "attr_content hdr ie copy r =
     (case r of Fault \<Rightarrow> Fault
      | Done None \<Rightarrow> Done None
      | Done (Some (p, attr_len)) \<Rightarrow>
          (if attr_len = 0 then Done None
           else
             (let n = nat ((int attr_len - int hdr) mod 2 ^ 32)
              in if copy
                 then (case rds ie (p + hdr) n of None \<Rightarrow> Fault | Some c \<Rightarrow> Done (Some (p + hdr, n, c)))
                 else Done (Some (p + hdr, n, [])))))"

definition rtw_get_wps_attr_content :: "bytes \<Rightarrow> nat \<Rightarrow> nat \<Rightarrow> bool \<Rightarrow> (nat \<times> nat \<times> bytes) option access option" where
  "rtw_get_wps_attr_content ie ielen target copy =
     map_option (attr_content 4 ie copy) (rtw_get_wps_attr ie ielen target)"

text \<open>P2P: the identifier is one byte, the length two with the low byte first.\<close>

definition p2p_id :: "bytes \<Rightarrow> nat \<Rightarrow> nat option" where "p2p_id b i = map_option unat (rd b i)"
definition p2p_len :: "bytes \<Rightarrow> nat \<Rightarrow> nat option" where "p2p_len b i = rd_le16 b (i + 1)"

definition rtw_get_p2p_attr :: "bytes \<Rightarrow> nat \<Rightarrow> nat \<Rightarrow> (nat \<times> nat) option access option" where
  "rtw_get_p2p_attr ie ielen target =
     (case oui_hit 0xdd (Some P2P_OUI) ie 0 of
        None \<Rightarrow> Some Fault
      | Some False \<Rightarrow> Some (Done None)
      | Some True \<Rightarrow> get_attr_loop p2p_id p2p_len 3 ie ielen target 6)"

definition rtw_get_p2p_attr_content :: "bytes \<Rightarrow> nat \<Rightarrow> nat \<Rightarrow> bool \<Rightarrow> (nat \<times> nat \<times> bytes) option access option" where
  "rtw_get_p2p_attr_content ie ielen target copy =
     map_option (attr_content 3 ie copy) (rtw_get_p2p_attr ie ielen target)"

text \<open>\<^verbatim>\<open>rtw_set_p2p_attr_content\<close>: the buffer and the length written.\<close>

definition rtw_set_p2p_attr_content :: "bytes \<Rightarrow> nat \<Rightarrow> u8 \<Rightarrow> u16 \<Rightarrow> bytes option \<Rightarrow> (bytes \<times> nat) option" where
  "rtw_set_p2p_attr_content b pbuf attr_id attr_len pdata =
     do { b \<leftarrow> put pbuf (attr_id # put_le16 attr_len) b;
          b \<leftarrow> (case pdata of None \<Rightarrow> Some b
                | Some d \<Rightarrow> do { s \<leftarrow> rds d 0 (unat attr_len); put (pbuf + 3) s b });
          Some (b, unat attr_len + 3) }"

text \<open>The WFD search adds in an int, which does not wrap, so it ends. The content of the attribute found.\<close>

function get_wfd_attr_loop :: "bytes \<Rightarrow> nat \<Rightarrow> nat \<Rightarrow> nat \<Rightarrow> (nat \<times> nat) option option" where
  "get_wfd_attr_loop b ielen target cnt =
     (if cnt < ielen
      then do { attrlen \<leftarrow> rd_be16 b (cnt + 1);
                attr_id \<leftarrow> rd b cnt;
                if unat attr_id = target then Some (Some (cnt + 3, attrlen))
                else get_wfd_attr_loop b ielen target (cnt + (attrlen + 3)) }
      else Some None)"
  by pat_completeness auto
termination by (relation "measure (\<lambda>(b, ielen, target, cnt). ielen - cnt)") auto

declare get_wfd_attr_loop.simps [simp del]

definition rtw_get_wfd_attr_content :: "bytes \<Rightarrow> nat \<Rightarrow> nat \<Rightarrow> bool \<Rightarrow> (nat \<times> bytes) option option" where
  "rtw_get_wfd_attr_content ie ielen target copy =
     do { h \<leftarrow> oui_hit 0xdd (Some WFD_OUI) ie 0;
          if \<not> h then Some None
          else
            do { r \<leftarrow> get_wfd_attr_loop ie ielen target 6;
                 case r of None \<Rightarrow> Some None
                 | Some (p, n) \<Rightarrow> (if copy then do { c \<leftarrow> rds ie p n; Some (Some (n, c)) } else Some (Some (n, []))) } }"

section \<open>Removal\<close>

lemma get_ie_ex_loop_pos:
  "get_ie_ex_loop b in_len eid oui cnt = Some (Some (p, l)) \<Longrightarrow> cnt \<le> p \<and> p < in_len \<and> 2 \<le> l \<and> l < 258 \<and> p + 1 < length b"
proof (induction b in_len eid oui cnt rule: get_ie_ex_loop.induct)
  case (1 b in_len eid oui cnt)
  from "1.prems" obtain h l' where r: "cnt < in_len" "oui_hit eid oui b cnt = Some h" "rd b (cnt + 1) = Some l'"
    by (subst (asm) get_ie_ex_loop.simps) (auto simp: bind_eq_Some_conv split: if_splits)
  have b: "unat l' < 256" using unsigned_less [of l'] by simp
  show ?case
  proof (cases h)
    case True
    then have "p = cnt \<and> l = unat l' + 2" using "1.prems" r by (subst (asm) get_ie_ex_loop.simps) (auto simp: rd_def)
    then show ?thesis using b r by (simp add: rd_Some)
  next
    case False
    let ?y = "cnt + (unat l' + 2)"
    have "get_ie_ex_loop b in_len eid oui ?y = Some (Some (p, l))"
      using "1.prems" r False by (subst (asm) get_ie_ex_loop.simps) (auto simp: rd_def)
    then have "?y \<le> p \<and> p < in_len \<and> 2 \<le> l \<and> l < 258 \<and> p + 1 < length b"
      using "1.IH" [of h l', OF r(1) _ _ False] r by simp
    then show ?thesis by linarith
  qed
qed

lemma remain_len_less:
  assumes "p < n" "2 \<le> l" "l < 258" "nat ((int n - int (p + l)) mod 2 ^ 32) \<le> MAX_IE_SZ"
  shows "nat ((int n - int (p + l)) mod 2 ^ 32) < n"
proof (cases "p + l \<le> n")
  case True
  have "(int n - int (p + l)) mod 2 ^ 32 \<le> int n - int (p + l)" using True by (intro zmod_le_nonneg_dividend) simp
  then show ?thesis using assms(2) True by linarith
next
  case False
  have "(int n - int (p + l)) mod 2 ^ 32 = (int n - int (p + l) + 2 ^ 32) mod 2 ^ 32" by simp
  also have "\<dots> = int n - int (p + l) + 2 ^ 32" using False assms by (intro mod_pos_pos_trivial) auto
  finally show ?thesis using assms by (simp add: MAX_IE_SZ_def)
qed

text \<open>\<^verbatim>\<open>rtw_ies_remove_ie\<close> moves the remainder through a local array of \<^verbatim>\<open>MAX_IE_SZ\<close> bytes; more, and an
  element that ends behind the series (the unsigned remainder wraps), overruns it.\<close>

function remove_loop :: "u8 \<Rightarrow> bytes option \<Rightarrow> nat \<Rightarrow> nat \<Rightarrow> rtw_status \<Rightarrow> bytes \<times> nat \<Rightarrow> (rtw_status \<times> bytes \<times> nat) option" where
  "remove_loop eid oui start search_len ret st =
     (case get_ie_ex_loop (drop start (fst st)) search_len eid oui 0 of
        None \<Rightarrow> None
      | Some None \<Rightarrow> Some (ret, st)
      | Some (Some (p, ielen)) \<Rightarrow>
          (let remain_len = nat ((int search_len - int (p + ielen)) mod 2 ^ 32) in
           if remain_len > MAX_IE_SZ then None
           else
             (case rds (fst st) (start + p + ielen) remain_len of None \<Rightarrow> None
              | Some buf \<Rightarrow>
                  remove_loop eid oui (start + p) remain_len RTW_SUCCESS
                    (buf_put (start + p) buf (fst st), snd st - ielen))))"
  by pat_completeness auto

termination
proof (relation "measure (\<lambda>(eid, oui, start, search_len, ret, st). search_len)")
  fix eid oui start search_len ret and st :: "bytes \<times> nat" and x y p ielen remain_len buf
  assume "get_ie_ex_loop (drop start (fst st)) search_len eid oui 0 = Some x" "x = Some y" "(p, ielen) = y"
    and r: "remain_len = nat ((int search_len - int (p + ielen)) mod 2 ^ 32)" "\<not> remain_len > MAX_IE_SZ"
  then have "p < search_len \<and> 2 \<le> ielen \<and> ielen < 258" using get_ie_ex_loop_pos by fast
  then have "remain_len < search_len" using remain_len_less [of p search_len ielen] r by simp
  then show "((eid, oui, start + p, remain_len, RTW_SUCCESS, buf_put (start + p) buf (fst st), snd st - ielen),
      eid, oui, start, search_len, ret, st) \<in> measure (\<lambda>(eid, oui, start, search_len, ret, st). search_len)" by simp
qed simp

declare remove_loop.simps [simp del]

definition rtw_ies_remove_ie :: "bytes \<Rightarrow> nat \<Rightarrow> nat \<Rightarrow> u8 \<Rightarrow> bytes option \<Rightarrow> (rtw_status \<times> bytes \<times> nat) option" where
  "rtw_ies_remove_ie ies ies_len offset eid oui =
     (if ies_len \<le> offset then Some (RTW_FAIL, ies, ies_len)
      else remove_loop eid oui offset (ies_len - offset) RTW_FAIL (ies, ies_len))"

section \<open>The parser of management frames\<close>

text \<open>\<^verbatim>\<open>struct rtw_ieee802_11_elems\<close> has a pointer and a length for each of its elements: here the position and
  length of the body, under the name of the element; a null pointer is an element without entry.\<close>

datatype elem_name =
  E_SSID | E_SUPP_RATES | E_FH_PARAMS | E_DS_PARAMS | E_CF_PARAMS | E_TIM | E_IBSS_PARAMS | E_CHALLENGE
  | E_ERP_INFO | E_EXT_SUPP_RATES | E_WPA | E_RSN | E_WME | E_WME_TSPEC | E_WPS | E_POWER_CAP
  | E_SUPP_CHANNELS | E_MDIE | E_FTIE | E_TIMEOUT_INT | E_HT_CAPABILITIES | E_HT_OPERATION | E_VENDOR_HT_CAP

type_synonym elems = "elem_name \<rightharpoonup> nat \<times> nat"

datatype ParseRes = ParseOK | ParseUnknown | ParseFailed

definition OUI_MICROSOFT :: u32 where "OUI_MICROSOFT = 0x0050f2"
definition OUI_BROADCOM :: u32 where "OUI_BROADCOM = 0x00904c"

definition get_be24 :: "bytes \<Rightarrow> u32" where
  "get_be24 a = push_bit 16 (ucast (a ! 0)) OR push_bit 8 (ucast (a ! 1)) OR ucast (a ! 2)"

text \<open>\<^verbatim>\<open>rtw_ieee802_11_parse_vendor_specific\<close>: the field it sets, if the element is one it knows.\<close>

definition parse_vendor_specific :: "bytes \<Rightarrow> nat \<Rightarrow> nat \<Rightarrow> elem_name option option" where
  "parse_vendor_specific b pos elen =
     (if elen < 4 then Some None
      else
        do { o3 \<leftarrow> rds b pos 3;
             t \<leftarrow> rd b (pos + 3);
             if get_be24 o3 = OUI_MICROSOFT then
               (if t = 1 then Some (Some E_WPA)
                else if t = 2 then
                  (if elen < 5 then Some None
                   else do { u \<leftarrow> rd b (pos + 4);
                             Some (if u = 0 \<or> u = 1 then Some E_WME else if u = 2 then Some E_WME_TSPEC else None) })
                else Some (if t = 4 then Some E_WPS else None))
             else if get_be24 o3 = OUI_BROADCOM then Some (if t = 0x33 then Some E_VENDOR_HT_CAP else None)
             else Some None })"

text \<open>The \<^verbatim>\<open>switch\<close> over the element number.\<close>

definition known_elems :: "(u8 \<times> elem_name) list" where
  "known_elems =
    [(0, E_SSID), (1, E_SUPP_RATES), (2, E_FH_PARAMS), (3, E_DS_PARAMS), (4, E_CF_PARAMS), (5, E_TIM),
     (6, E_IBSS_PARAMS), (16, E_CHALLENGE), (33, E_POWER_CAP), (36, E_SUPP_CHANNELS), (42, E_ERP_INFO), (45, E_HT_CAPABILITIES),
     (48, E_RSN), (50, E_EXT_SUPP_RATES), (54, E_MDIE), (55, E_FTIE), (56, E_TIMEOUT_INT), (61, E_HT_OPERATION)]"

definition parse_elem :: "bytes \<Rightarrow> u8 \<Rightarrow> nat \<Rightarrow> nat \<Rightarrow> elem_name option option" where
  "parse_elem b i pos elen =
     (if i = 221 then parse_vendor_specific b pos elen else Some (map_of known_elems i))"

function parse_elems_loop ::
    "bytes \<Rightarrow> nat \<Rightarrow> nat \<Rightarrow> bool \<Rightarrow> elems \<Rightarrow> (ParseRes \<times> elems) option" where
  "parse_elems_loop b pos left unknown e =
     (if left \<ge> 2
      then do { i \<leftarrow> rd b pos;
                elen \<leftarrow> rd b (pos + 1);
                if unat elen > left - 2 then Some (ParseFailed, e)
                else do { r \<leftarrow> parse_elem b i (pos + 2) (unat elen);
                          parse_elems_loop b (pos + 2 + unat elen) (left - 2 - unat elen) (unknown \<or> r = None)
                            (case r of None \<Rightarrow> e | Some f \<Rightarrow> e(f \<mapsto> (pos + 2, unat elen))) } }
      else Some (if left \<noteq> 0 then ParseFailed else if unknown then ParseUnknown else ParseOK, e))"
  by pat_completeness auto
termination by (relation "measure (\<lambda>(b, pos, left, unknown, e). left)") auto

declare parse_elems_loop.simps [simp del]

definition rtw_ieee802_11_parse_elems :: "bytes \<Rightarrow> nat \<Rightarrow> (ParseRes \<times> elems) option" where
  "rtw_ieee802_11_parse_elems start len = parse_elems_loop start 0 len False Map.empty"

section \<open>Rates and the beacon template\<close>

text \<open>Rate sets end at a zero byte; a set without one is read to the end of the memory.\<close>

definition is_cck_rate :: "u8 \<Rightarrow> bool" where
  "is_cck_rate r \<longleftrightarrow> (let v = r AND 0x7f in v = 2 \<or> v = 4 \<or> v = 11 \<or> v = 22)"

fun rtw_is_cckrates_included :: "bytes \<Rightarrow> bool option" where
  "rtw_is_cckrates_included [] = None"
| "rtw_is_cckrates_included (r # rs) =
     (if r = 0 then Some False else if is_cck_rate r then Some True else rtw_is_cckrates_included rs)"

fun rtw_is_cckratesonly_included :: "bytes \<Rightarrow> bool option" where
  "rtw_is_cckratesonly_included [] = None"
| "rtw_is_cckratesonly_included (r # rs) =
     (if r = 0 then Some True else if \<not> is_cck_rate r then Some False else rtw_is_cckratesonly_included rs)"

definition WIRELESS_INVALID :: nat where "WIRELESS_INVALID = 0"
definition WIRELESS_11B :: nat where "WIRELESS_11B = 1"
definition WIRELESS_11G :: nat where "WIRELESS_11G = 2"
definition WIRELESS_11A :: nat where "WIRELESS_11A = 4"
definition WIRELESS_11BG :: nat where "WIRELESS_11BG = 3"
definition WIRELESS_11ABGN :: nat where "WIRELESS_11ABGN = 31"
definition WIRELESS_11A_5N :: nat where "WIRELESS_11A_5N = 20"
definition WIRELESS_11BG_24N :: nat where "WIRELESS_11BG_24N = 11"

definition rtw_check_network_type :: "bytes \<Rightarrow> int \<Rightarrow> nat option" where
  "rtw_check_network_type rate channel =
     (if channel > 14
      then do { c \<leftarrow> rtw_is_cckrates_included rate; Some (if c then WIRELESS_INVALID else WIRELESS_11A) }
      else do { only \<leftarrow> rtw_is_cckratesonly_included rate;
                if only then Some WIRELESS_11B
                else do { c \<leftarrow> rtw_is_cckrates_included rate; Some (if c then WIRELESS_11BG else WIRELESS_11G) } })"

definition WIFI_CCKRATES :: bytes where "WIFI_CCKRATES = [0x82, 0x84, 0x8b, 0x96]"
definition WIFI_OFDMRATES :: bytes where "WIFI_OFDMRATES = [0x0c, 0x12, 0x18, 0x24, 0x30, 0x48, 0x60, 0x6c]"

definition rtw_set_supported_rate :: "nat \<Rightarrow> bytes" where
  "rtw_set_supported_rate mode =
     (let z = replicate 16 0 in
      if mode = 1 then buf_put 0 WIFI_CCKRATES z
      else if mode \<in> {2, 4, 16, 20} then buf_put 0 WIFI_OFDMRATES z
      else if mode \<in> {3, 10, 8, 11} then buf_put 4 WIFI_OFDMRATES (buf_put 0 WIFI_CCKRATES z)
      else z)"

fun rateset_len_loop :: "nat \<Rightarrow> bytes \<Rightarrow> nat option" where
  "rateset_len_loop i [] = None"
| "rateset_len_loop i (r # rs) = (if r = 0 then Some i else if i > 12 then Some i else rateset_len_loop (Suc i) rs)"

definition rtw_get_rateset_len :: "bytes \<Rightarrow> nat option" where
  "rtw_get_rateset_len rateset = rateset_len_loop 0 rateset"

definition rtw_get_bit_value_from_ieee_value :: "u8 \<Rightarrow> u32" where
  "rtw_get_bit_value_from_ieee_value v =
     (case List.find (\<lambda>i. [2, 4, 11, 22, 12, 18, 24, 36, 48, 72, 96, 108] ! i = v) [0 ..< 12] of
        Some i \<Rightarrow> push_bit i 1 | None \<Rightarrow> 0)"

text \<open>The fields of \<^verbatim>\<open>dev_network\<close> from which \<^verbatim>\<open>rtw_generate_ie\<close> makes the elements of an ad-hoc network's
  beacon. The processor stores words with the low byte first.\<close>

record dev_network =
  ssid_length :: nat
  ssid :: bytes
  net_privacy :: bool
  beacon_period :: u32
  atim_window :: u32
  ds_config :: u32
  supported_rates :: bytes
  ies :: bytes

definition rtw_generate_ie :: "bool \<Rightarrow> nat \<Rightarrow> dev_network \<Rightarrow> (u32 \<times> dev_network) option" where
  "rtw_generate_ie preamble_short wireless_mode n =
     do { ie \<leftarrow> put 8 (put_le16 (ucast (beacon_period n))) (ies n);
          ie \<leftarrow> put 10 (put_le16 (2 OR (if preamble_short then 0x20 else 0) OR (if net_privacy n then 0x10 else 0))) ie;
          (ie, p, sz) \<leftarrow> rtw_set_ie ie 12 0 (ssid_length n) (ssid n) 12;
          let mode = (if wireless_mode = WIRELESS_11ABGN
                      then (if ds_config n > 14 then WIRELESS_11A_5N else WIRELESS_11BG_24N) else wireless_mode);
          let rates = rtw_set_supported_rate mode;
          rateLen \<leftarrow> rtw_get_rateset_len rates;
          (ie, p, sz) \<leftarrow> rtw_set_ie ie p 1 (if rateLen > 8 then 8 else rateLen) rates sz;
          (ie, p, sz) \<leftarrow> rtw_set_ie ie p 3 1 (put_le32 (ds_config n)) sz;
          (ie, p, sz) \<leftarrow> rtw_set_ie ie p 6 2 (put_le32 (atim_window n)) sz;
          (ie, p, sz) \<leftarrow> (if rateLen > 8 then rtw_set_ie ie p 50 (rateLen - 8) (drop 8 rates) sz else Some (ie, p, sz));
          Some (sz, n\<lparr>supported_rates := rates, ies := ie\<rparr>) }"

section \<open>Configured addresses\<close>

definition key_char2num :: "u8 \<Rightarrow> u8" where
  "key_char2num ch =
     (if 0x30 \<le> ch \<and> ch \<le> 0x39 then ch - 0x30
      else if 0x61 \<le> ch \<and> ch \<le> 0x66 then ch - 0x61 + 10
      else if 0x41 \<le> ch \<and> ch \<le> 0x46 then ch - 0x41 + 10
      else 0xff)"

definition str_2char2num :: "u8 \<Rightarrow> u8 \<Rightarrow> u8" where
  "str_2char2num hch lch = key_char2num hch * 10 + key_char2num lch"

definition key_2char2num :: "u8 \<Rightarrow> u8 \<Rightarrow> u8" where
  "key_2char2num hch lch = push_bit 4 (key_char2num hch) OR key_char2num lch"

definition convert_ip_addr :: "u8 \<Rightarrow> u8 \<Rightarrow> u8 \<Rightarrow> u8" where
  "convert_ip_addr hch mch lch = key_char2num hch * 100 + key_char2num mch * 10 + key_char2num lch"

text \<open>\<^verbatim>\<open>rtw_macaddr_cfg\<close>: the address in the module parameter (two digits and a separator per byte), or the one
  read from the efuse; the broadcast and the zero address are replaced.\<close>

definition rtw_macaddr_cfg :: "bytes option \<Rightarrow> bytes \<Rightarrow> bytes option" where
  "rtw_macaddr_cfg initmac mac_addr =
     do { mac \<leftarrow> (case initmac of
            Some s \<Rightarrow> (if 17 \<le> length s then Some (map (\<lambda>jj. key_2char2num (s ! (3 * jj)) (s ! (3 * jj + 1))) [0 ..< 6]) else None)
          | None \<Rightarrow> Some mac_addr);
          Some (if mac = replicate 6 0xff \<or> mac = replicate 6 0 then [0x00, 0xe0, 0x4c, 0x87, 0x00, 0x00] else mac) }"

end
