(* ===== verification/IeSearch.thy ===== *)
theory IeSearch
  imports Ie
begin

text \<open>
  What the searches of \<^verbatim>\<open>core/rtw_ieee80211.c\<close> find: on a series of elements the first that matches, on
  arbitrary bytes a position inside the limit; the removal of elements as a filter; the searches for
  attributes, which end exactly when no attribute of a wrapping length is met.
\<close>

section \<open>Series of elements\<close>

type_synonym ie = "u8 \<times> bytes"

definition enc_ie :: "ie \<Rightarrow> bytes" where
  "enc_ie e = fst e # of_nat (length (snd e)) # snd e"

definition enc_ies :: "ie list \<Rightarrow> bytes" where
  "enc_ies es = concat (map enc_ie es)"

definition ie_ok :: "ie \<Rightarrow> bool" where
  "ie_ok e \<longleftrightarrow> length (snd e) \<le> 255"

text \<open>The position and length of the first element that matches, counted from \<open>i\<close>.\<close>

fun ie_pos :: "(ie \<Rightarrow> bool) \<Rightarrow> ie list \<Rightarrow> nat \<Rightarrow> (nat \<times> nat) option" where
  "ie_pos P [] i = None"
| "ie_pos P (e # es) i = (if P e then Some (i, length (snd e)) else ie_pos P es (i + length (snd e) + 2))"

lemma enc_ies_Nil [simp]: "enc_ies [] = []" by (simp add: enc_ies_def)

lemma enc_ies_Cons [simp]: "enc_ies (e # es) = enc_ie e @ enc_ies es" by (simp add: enc_ies_def)

lemma enc_ies_append [simp]: "enc_ies (es @ fs) = enc_ies es @ enc_ies fs" by (simp add: enc_ies_def)

lemma length_enc_ie [simp, len_simps]: "length (enc_ie e) = length (snd e) + 2" by (simp add: enc_ie_def)

lemma enc_ies_pos: "es \<noteq> [] \<Longrightarrow> 0 < length (enc_ies es)" by (cases es) auto

text \<open>Reading the head of an element that stands at the current position.\<close>

lemma rd_at: "rd (pre @ x # post) (length pre) = Some x" by (simp add: rd_def)

lemma rd_enc:
  assumes "b = pre @ enc_ie e @ post"
  shows "rd b (length pre) = Some (fst e)" "rd b (length pre + 1) = Some (of_nat (length (snd e)))"
  using assms by (simp_all add: enc_ie_def nth_append rd_def)

lemma rds_enc: "b = pre @ xs @ post \<Longrightarrow> n = length xs \<Longrightarrow> rds b (length pre) n = Some xs"
  by (simp add: rds_def buf_get_def)

lemma unat_len: "ie_ok e \<Longrightarrow> unat (of_nat (length (snd e)) :: u8) = length (snd e)"
  by (simp add: ie_ok_def unsigned_of_nat take_bit_nat_eq_self)

text \<open>\<^verbatim>\<open>rtw_get_ie\<close> on a series.\<close>

lemma get_ie_loop_enc:
  assumes "es \<noteq> []" "\<forall>e \<in> set es. ie_ok e"
  shows "get_ie_loop (pre @ enc_ies es @ post) index (int (length pre + length (enc_ies es))) (length pre)
    = Some (ie_pos (\<lambda>e. unat (fst e) = index) es (length pre))"
  using assms
proof (induction es arbitrary: pre)
  case (Cons e es)
  let ?b = "pre @ enc_ies (e # es) @ post"
  have b: "?b = pre @ enc_ie e @ enc_ies es @ post" "?b = (pre @ enc_ie e) @ enc_ies es @ post" by simp_all
  note r = rd_enc [OF b(1)] and u = unat_len [of e]
  show ?case
  proof (cases "unat (fst e) = index \<or> es = []")
    case True
    then show ?thesis using r u Cons.prems
      by (subst get_ie_loop.simps) (auto simp: Let_def)
  next
    case False
    have p: "length pre + length (snd e) + 2 = length (pre @ enc_ie e)" by simp
    have "get_ie_loop ?b index (int (length pre + length (enc_ies (e # es)))) (length pre)
      = get_ie_loop ?b index (int (length (pre @ enc_ie e) + length (enc_ies es))) (length (pre @ enc_ie e))"
      using False r u Cons.prems enc_ies_pos [of es] by (subst get_ie_loop.simps) (simp add: Let_def p add.assoc)
    also have "\<dots> = Some (ie_pos (\<lambda>e. unat (fst e) = index) es (length (pre @ enc_ie e)))"
      unfolding b(2) using Cons.IH [of "pre @ enc_ie e"] Cons.prems False by simp
    finally show ?thesis using False by (simp add: add.assoc)
  qed
qed simp

text \<open>The searches with the limit tested first; the prefix of the element's body is compared.\<close>

definition oui_match :: "u8 \<Rightarrow> bytes option \<Rightarrow> ie \<Rightarrow> bool" where
  "oui_match eid oui e \<longleftrightarrow> fst e = eid \<and> (case oui of None \<Rightarrow> True | Some p \<Rightarrow> take (length p) (snd e) = p)"

text \<open>Elements with the number searched for are long enough to hold the prefix.\<close>

definition oui_fits :: "u8 \<Rightarrow> bytes option \<Rightarrow> ie \<Rightarrow> bool" where
  "oui_fits eid oui e \<longleftrightarrow> ie_ok e \<and> (fst e = eid \<longrightarrow> (case oui of None \<Rightarrow> True | Some p \<Rightarrow> length p \<le> length (snd e)))"

lemma oui_hit_enc:
  assumes "b = pre @ enc_ie e @ post" "oui_fits eid oui e"
  shows "oui_hit eid oui b (length pre) = Some (oui_match eid oui e)"
proof (cases "fst e = eid")
  case True
  show ?thesis
  proof (cases oui)
    case (Some p)
    have l: "length p \<le> length (snd e)" using assms(2) True Some by (simp add: oui_fits_def)
    have "b = (pre @ [fst e, of_nat (length (snd e))]) @ take (length p) (snd e) @ drop (length p) (snd e) @ post"
      using assms(1) by (simp add: enc_ie_def)
    from rds_enc [OF this, of "length p"] l
    have "rds b (length pre + 2) (length p) = Some (take (length p) (snd e))" by simp
    then show ?thesis using rd_enc(1) [OF assms(1)] True Some by (simp add: oui_hit_def oui_match_def)
  qed (use rd_enc(1) [OF assms(1)] True in \<open>simp add: oui_hit_def oui_match_def\<close>)
next
  case False
  then show ?thesis using rd_enc(1) [OF assms(1)] by (simp add: oui_hit_def oui_match_def)
qed

lemma get_ie_ex_loop_enc:
  assumes "\<forall>e \<in> set es. oui_fits eid oui e"
  shows "get_ie_ex_loop (pre @ enc_ies es @ post) (length pre + length (enc_ies es)) eid oui (length pre)
    = Some (map_option (\<lambda>(p, l). (p, l + 2)) (ie_pos (oui_match eid oui) es (length pre)))"
  using assms
proof (induction es arbitrary: pre)
  case Nil then show ?case by (subst get_ie_ex_loop.simps) simp
next
  case (Cons e es)
  let ?b = "pre @ enc_ies (e # es) @ post"
  have b: "?b = pre @ enc_ie e @ enc_ies es @ post" "?b = (pre @ enc_ie e) @ enc_ies es @ post" by simp_all
  have f: "oui_fits eid oui e" using Cons.prems by simp
  note r = rd_enc(2) [OF b(1)] and u = unat_len [of e] and h = oui_hit_enc [OF b(1) f]
  have ok: "ie_ok e" using f by (simp add: oui_fits_def)
  show ?case
  proof (cases "oui_match eid oui e")
    case True
    then show ?thesis using r u h ok by (subst get_ie_ex_loop.simps) simp
  next
    case False
    have "get_ie_ex_loop ?b (length pre + length (enc_ies (e # es))) eid oui (length pre)
      = get_ie_ex_loop ?b (length (pre @ enc_ie e) + length (enc_ies es)) eid oui (length (pre @ enc_ie e))"
      using False r u h ok by (subst get_ie_ex_loop.simps) (simp add: add.assoc)
    also have "\<dots> = Some (map_option (\<lambda>(p, l). (p, l + 2)) (ie_pos (oui_match eid oui) es (length (pre @ enc_ie e))))"
      unfolding b(2) using Cons.IH [of "pre @ enc_ie e"] Cons.prems by simp
    finally show ?thesis using False by (simp add: add.assoc)
  qed
qed

text \<open>On arbitrary bytes the search ends within the memory when one byte behind the limit may be read.\<close>

lemma get_ie_loop_total:
  assumes "int i < limit" "limit < int (length b)"
  shows "get_ie_loop b index limit i \<noteq> None"
  using assms
proof (induction b index limit i rule: get_ie_loop.induct)
  case (1 b index limit i)
  have r: "rd b i = Some (b ! i)" "rd b (i + 1) = Some (b ! (i + 1))" using "1.prems" by (simp_all add: rd_def)
  show ?case
  proof (cases "unat (b ! i) = index \<or> limit \<le> int (i + unat (b ! (i + 1)) + 2)")
    case True
    then show ?thesis using r by (subst get_ie_loop.simps) (auto simp: Let_def)
  next
    case False
    then have "get_ie_loop b index limit (i + unat (b ! (i + 1)) + 2) \<noteq> None"
      using "1.IH" [of "b ! i" "b ! (i + 1)", OF _ _ _ refl] r "1.prems" by simp
    then show ?thesis using False r by (subst get_ie_loop.simps) (simp add: Let_def)
  qed
qed

section \<open>Removal\<close>

lemma ie_pos_split:
  "ie_pos P es i = Some (p, l) \<Longrightarrow> \<exists>xs e ys. es = xs @ e # ys \<and> (\<forall>x \<in> set xs. \<not> P x) \<and> P e
     \<and> p = i + length (enc_ies xs) \<and> l = length (snd e)"
proof (induction es arbitrary: i)
  case (Cons e es)
  show ?case
  proof (cases "P e")
    case True
    then show ?thesis using Cons.prems by (intro exI [of _ "[]"]) auto
  next
    case False
    then obtain xs f ys where "es = xs @ f # ys" "\<forall>x \<in> set xs. \<not> P x" "P f"
      "p = i + length (snd e) + 2 + length (enc_ies xs)" "l = length (snd f)"
      using Cons.IH [of "i + length (snd e) + 2"] Cons.prems by auto
    then show ?thesis using False by (intro exI [of _ "e # xs"]) auto
  qed
qed simp

lemma ie_pos_None: "ie_pos P es i = None \<longleftrightarrow> (\<forall>e \<in> set es. \<not> P e)"
  by (induction es arbitrary: i) auto

lemma buf_put_at:
  assumes "b = pre @ mid @ xs @ post" "length mid = k"
  shows "\<exists>junk. buf_put (length pre) xs b = pre @ xs @ junk \<and> length junk = k + length post"
proof -
  have "drop (length pre + length xs) b = drop (length xs) (mid @ xs @ post)" using assms(1) by simp
  moreover have "length (drop (length xs) (mid @ xs @ post)) = k + length post" using assms(2) by simp
  ultimately show ?thesis using assms(1) by (simp add: buf_put_def)
qed

lemma remove_loop_found:
  assumes "get_ie_ex_loop (drop start b) n eid oui 0 = Some (Some (p, l))"
    "nat ((int n - int (p + l)) mod 2 ^ 32) = r" "r \<le> MAX_IE_SZ" "rds b (start + p + l) r = Some buf"
  shows "remove_loop eid oui start n ret (b, m)
    = remove_loop eid oui (start + p) r RTW_SUCCESS (buf_put (start + p) buf b, m - l)"
  by (subst remove_loop.simps) (use assms(1,2,4) assms(3) [folded not_less] in
    \<open>simp only: fst_conv snd_conv option.case prod.case Let_def if_False\<close>)

lemma remove_loop_enc:
  assumes "\<forall>e \<in> set es. oui_fits eid oui e" "length (enc_ies es) \<le> MAX_IE_SZ" "length pre + length (enc_ies es) \<le> n"
  shows "\<exists>junk. remove_loop eid oui (length pre) (length (enc_ies es)) ret (pre @ enc_ies es @ post, n)
    = Some (if \<exists>e \<in> set es. oui_match eid oui e then RTW_SUCCESS else ret,
        pre @ enc_ies (filter (\<lambda>e. \<not> oui_match eid oui e) es) @ junk,
        n - (length (enc_ies es) - length (enc_ies (filter (\<lambda>e. \<not> oui_match eid oui e) es))))
    \<and> length (enc_ies (filter (\<lambda>e. \<not> oui_match eid oui e) es)) + length junk = length (enc_ies es) + length post"
  using assms
proof (induction "length es" arbitrary: es pre post ret n rule: less_induct)
  case less
  let ?b = "pre @ enc_ies es @ post"
  let ?P = "oui_match eid oui"
  have g: "get_ie_ex_loop (drop (length pre) ?b) (length (enc_ies es)) eid oui 0
      = Some (map_option (\<lambda>(p, l). (p, l + 2)) (ie_pos ?P es 0))"
    using get_ie_ex_loop_enc [OF less.prems(1), of "[]" post] by simp
  show ?case
  proof (cases "ie_pos ?P es 0")
    case None
    then have n: "\<forall>e \<in> set es. \<not> ?P e" by (simp add: ie_pos_None)
    then have "filter (\<lambda>e. \<not> ?P e) es = es" by (simp add: filter_id_conv)
    then show ?thesis using g None n by (subst remove_loop.simps) auto
  next
    case (Some r)
    then obtain p l where r: "ie_pos ?P es 0 = Some (p, l)" by (cases r) auto
    from ie_pos_split [OF r] obtain xs e ys where s: "es = xs @ e # ys" "\<forall>x \<in> set xs. \<not> ?P x" "?P e"
      "p = length (enc_ies xs)" "l = length (snd e)" by auto
    have sz: "length (enc_ies es) = p + (l + 2) + length (enc_ies ys)" using s by simp
    have rem: "nat ((int (length (enc_ies es)) - int (p + (l + 2))) mod 2 ^ 32) = length (enc_ies ys)"
      using less.prems(2) unfolding sz by (simp add: MAX_IE_SZ_def)
    have b: "?b = (pre @ enc_ies xs) @ enc_ie e @ enc_ies ys @ post" using s(1) by simp
    have "?b = (pre @ enc_ies xs @ enc_ie e) @ enc_ies ys @ post" using s(1) by simp
    from rds_enc [OF this refl]
    have rd: "rds ?b (length pre + p + (l + 2)) (length (enc_ies ys)) = Some (enc_ies ys)" using s by (simp add: add.assoc)
    obtain j1 where j1: "buf_put (length (pre @ enc_ies xs)) (enc_ies ys) ?b = (pre @ enc_ies xs) @ enc_ies ys @ j1"
      "length j1 = l + 2 + length post" using buf_put_at [OF b, of "l + 2"] s(5) by auto
    have ys: "length ys < length es" "\<forall>e \<in> set ys. oui_fits eid oui e" "length (enc_ies ys) \<le> MAX_IE_SZ"
      "length (pre @ enc_ies xs) + length (enc_ies ys) \<le> n - (l + 2)"
      using less.prems s(1) s(4,5) by auto
    have step: "remove_loop eid oui (length pre) (length (enc_ies es)) ret (?b, n)
      = remove_loop eid oui (length (pre @ enc_ies xs)) (length (enc_ies ys)) RTW_SUCCESS
          ((pre @ enc_ies xs) @ enc_ies ys @ j1, n - (l + 2))"
    proof -
      have "get_ie_ex_loop (drop (length pre) ?b) (length (enc_ies es)) eid oui 0 = Some (Some (p, l + 2))"
        unfolding g r by simp
      from remove_loop_found [OF this rem ys(3) rd] j1(1) show ?thesis by (simp add: s(4))
    qed
    from less.hyps [OF ys, of RTW_SUCCESS j1] obtain junk where
      "remove_loop eid oui (length (pre @ enc_ies xs)) (length (enc_ies ys)) RTW_SUCCESS
          ((pre @ enc_ies xs) @ enc_ies ys @ j1, n - (l + 2))
        = Some (RTW_SUCCESS, (pre @ enc_ies xs) @ enc_ies (filter (\<lambda>e. \<not> ?P e) ys) @ junk,
            n - (l + 2) - (length (enc_ies ys) - length (enc_ies (filter (\<lambda>e. \<not> ?P e) ys))))"
      "length (enc_ies (filter (\<lambda>e. \<not> ?P e) ys)) + length junk = length (enc_ies ys) + length j1" by auto
    moreover have "filter (\<lambda>e. \<not> ?P e) es = xs @ filter (\<lambda>e. \<not> ?P e) ys" using s by (simp add: filter_id_conv)
    moreover have "length (enc_ies (filter (\<lambda>e. \<not> ?P e) ys)) \<le> length (enc_ies ys)" by (induction ys) auto
    ultimately show ?thesis using step s sz j1(2) by (intro exI [of _ junk]) auto
  qed
qed

section \<open>Attributes\<close>

text \<open>The positions the search for an attribute comes to.\<close>

inductive attr_visits ::
    "(bytes \<Rightarrow> nat \<Rightarrow> nat option) \<Rightarrow> (bytes \<Rightarrow> nat \<Rightarrow> nat option) \<Rightarrow> nat \<Rightarrow> bytes \<Rightarrow> nat \<Rightarrow> nat \<Rightarrow> nat \<Rightarrow> nat \<Rightarrow> bool"
  for rid rlen hdr b n target where
  visit_here: "i < n \<Longrightarrow> attr_visits rid rlen hdr b n target i i"
| visit_next: "i < n \<Longrightarrow> rid b i = Some a \<Longrightarrow> a \<noteq> target \<Longrightarrow> rlen b i = Some len \<Longrightarrow>
    attr_visits rid rlen hdr b n target (i + (len + hdr) mod 2 ^ 16) j \<Longrightarrow> attr_visits rid rlen hdr b n target i j"

text \<open>An attribute whose length and header add up to 65536 holds the search at its place.\<close>

definition attr_stuck ::
    "(bytes \<Rightarrow> nat \<Rightarrow> nat option) \<Rightarrow> (bytes \<Rightarrow> nat \<Rightarrow> nat option) \<Rightarrow> nat \<Rightarrow> bytes \<Rightarrow> nat \<Rightarrow> nat \<Rightarrow> bool" where
  "attr_stuck rid rlen hdr b target i \<longleftrightarrow>
     (\<exists>a. rid b i = Some a \<and> a \<noteq> target) \<and> rlen b i = Some (2 ^ 16 - hdr)"

lemma attr_returns_not_stuck:
  assumes "get_attr_loop rid rlen hdr b n target i = Some r" "i < n" "0 < hdr" "hdr < 2 ^ 16"
  shows "\<not> attr_stuck rid rlen hdr b target i"
proof -
  have "i < n \<longrightarrow> 0 < hdr \<longrightarrow> hdr < 2 ^ 16 \<longrightarrow> \<not> attr_stuck rid rlen hdr b target i"
  proof (rule get_attr_loop.raw_induct [of "\<lambda>rid rlen hdr b n target i r.
        i < n \<longrightarrow> 0 < hdr \<longrightarrow> hdr < 2 ^ 16 \<longrightarrow> \<not> attr_stuck rid rlen hdr b target i", OF _ assms(1)])
    fix f and rid rlen :: "bytes \<Rightarrow> nat \<Rightarrow> nat option" and hdr and b :: bytes and n target i r
    assume IH: "\<And>rid rlen hdr b n target i y. f rid rlen hdr b n target i = Some y \<Longrightarrow>
        i < n \<longrightarrow> 0 < hdr \<longrightarrow> hdr < 2 ^ 16 \<longrightarrow> \<not> attr_stuck rid rlen hdr b target i"
      and r: "(if i < n then case rid b i of None \<Rightarrow> Some Fault
          | Some attr_id \<Rightarrow> (case rlen b i of None \<Rightarrow> Some Fault
             | Some attr_data_len \<Rightarrow> (if attr_id = target then Some (Done (Some (i, (attr_data_len + hdr) mod 2 ^ 16)))
                 else f rid rlen hdr b n target (i + (attr_data_len + hdr) mod 2 ^ 16))) else Some (Done None)) = Some r"
    show "i < n \<longrightarrow> 0 < hdr \<longrightarrow> hdr < 2 ^ 16 \<longrightarrow> \<not> attr_stuck rid rlen hdr b target i"
    proof (intro impI notI)
      assume a: "i < n" "0 < hdr" "hdr < 2 ^ 16" and s: "attr_stuck rid rlen hdr b target i"
      then have "f rid rlen hdr b n target i = Some r" using r by (auto simp: attr_stuck_def)
      from IH [OF this] show False using a s by blast
    qed
  qed
  then show ?thesis using assms(2-4) by blast
qed

lemma attr_returns_visits:
  "attr_visits rid rlen hdr b n target i j \<Longrightarrow> get_attr_loop rid rlen hdr b n target i = Some r \<Longrightarrow>
   0 < hdr \<Longrightarrow> hdr < 2 ^ 16 \<Longrightarrow> \<not> attr_stuck rid rlen hdr b target j"
proof (induction rule: attr_visits.induct)
  case (visit_here i) then show ?case using attr_returns_not_stuck by blast
next
  case (visit_next i a len j)
  have "get_attr_loop rid rlen hdr b n target (i + (len + hdr) mod 2 ^ 16) = Some r"
    using visit_next.prems(1) visit_next.hyps(1-4) by (subst (asm) get_attr_loop.simps) simp
  then show ?case using visit_next.IH visit_next.prems by blast
qed

lemma attr_len_pos:
  "len < 2 ^ 16 \<Longrightarrow> 0 < hdr \<Longrightarrow> hdr < 2 ^ 16 \<Longrightarrow> len \<noteq> 2 ^ 16 - hdr \<Longrightarrow> 0 < (len + hdr :: nat) mod 2 ^ 16"
proof (cases "len + hdr < 2 ^ 16")
  case False
  assume "len < 2 ^ 16" "0 < hdr" "hdr < 2 ^ 16" "len \<noteq> 2 ^ 16 - hdr"
  then have "(len + hdr) mod 2 ^ 16 = len + hdr - 2 ^ 16 \<and> len + hdr \<noteq> 2 ^ 16" using False by (simp add: mod_if)
  then show ?thesis using False by linarith
qed simp

lemma attr_returns:
  assumes "\<forall>j. attr_visits rid rlen hdr b n target i j \<longrightarrow> \<not> attr_stuck rid rlen hdr b target j" "0 < hdr" "hdr < 2 ^ 16"
    "\<And>i. i < n \<Longrightarrow> rid b i \<noteq> None" "\<And>i. i < n \<Longrightarrow> rlen b i \<noteq> None" "\<And>i v. rlen b i = Some v \<Longrightarrow> v < 2 ^ 16"
  shows "\<exists>r. get_attr_loop rid rlen hdr b n target i = Some (Done r) \<and> (\<forall>p l. r = Some (p, l) \<longrightarrow> p < n)"
  using assms(1)
proof (induction "n - i" arbitrary: i rule: less_induct)
  case less
  show ?case
  proof (cases "i < n")
    case False then show ?thesis by (subst get_attr_loop.simps) simp
  next
    case True
    then obtain a len where r: "rid b i = Some a" "rlen b i = Some len" using assms(4,5) by blast
    show ?thesis
    proof (cases "a = target")
      case True
      then show ?thesis using r \<open>i < n\<close> by (subst get_attr_loop.simps) simp
    next
      case ne: False
      let ?k = "i + (len + hdr) mod 2 ^ 16"
      have "\<not> attr_stuck rid rlen hdr b target i" using less.prems visit_here [OF True] by blast
      then have "len \<noteq> 2 ^ 16 - hdr" using r ne by (simp add: attr_stuck_def)
      then have "0 < (len + hdr) mod 2 ^ 16" by (rule attr_len_pos [OF assms(6) [OF r(2)] assms(2,3)])
      then have lt: "n - ?k < n - i" using True by linarith
      have "\<forall>j. attr_visits rid rlen hdr b n target ?k j \<longrightarrow> \<not> attr_stuck rid rlen hdr b target j"
        using less.prems visit_next [of i n rid b a target rlen len hdr, OF True r(1) ne r(2)] by blast
      from less.hyps [OF lt this] show ?thesis using r ne True by (subst get_attr_loop.simps) simp
    qed
  qed
qed

lemma rd_16_less: "rd_be16 b i = Some v \<Longrightarrow> v < 2 ^ 16" "rd_le16 b i = Some v \<Longrightarrow> v < 2 ^ 16"
proof -
  have u: "unat x < 256" for x :: u8 using unsigned_less [of x] by simp
  have *: "256 * unat h + unat l < 2 ^ 16" for h l :: u8 using u [of h] u [of l] by simp
  show "rd_be16 b i = Some v \<Longrightarrow> v < 2 ^ 16" "rd_le16 b i = Some v \<Longrightarrow> v < 2 ^ 16"
    using * by (auto simp: rd_be16_def rd_le16_def bind_eq_Some_conv)
qed

lemma rd_16_total: "i + 1 < length b \<Longrightarrow> rd_be16 b i \<noteq> None" "i + 1 < length b \<Longrightarrow> rd_le16 b i \<noteq> None"
  by (simp_all add: rd_be16_def rd_le16_def rd_def)

lemma attr_loop_iff:
  assumes "0 < hdr" "hdr < 2 ^ 16" "\<And>i. i < n \<Longrightarrow> rid b i \<noteq> None" "\<And>i. i < n \<Longrightarrow> rlen b i \<noteq> None"
    "\<And>i v. rlen b i = Some v \<Longrightarrow> v < 2 ^ 16"
  shows "(get_attr_loop rid rlen hdr b n target i = None \<longleftrightarrow>
      (\<exists>j. attr_visits rid rlen hdr b n target i j \<and> attr_stuck rid rlen hdr b target j))
    \<and> (\<forall>r. get_attr_loop rid rlen hdr b n target i = Some r \<longrightarrow> (\<exists>x. r = Done x \<and> (\<forall>p l. x = Some (p, l) \<longrightarrow> p < n)))"
proof (cases "\<exists>j. attr_visits rid rlen hdr b n target i j \<and> attr_stuck rid rlen hdr b target j")
  case True
  then obtain j where j: "attr_visits rid rlen hdr b n target i j" "attr_stuck rid rlen hdr b target j" by blast
  have "get_attr_loop rid rlen hdr b n target i = None"
    using attr_returns_visits [OF j(1) _ assms(1,2)] j(2) by (cases "get_attr_loop rid rlen hdr b n target i") auto
  then show ?thesis using True by simp
next
  case False
  then have "\<forall>j. attr_visits rid rlen hdr b n target i j \<longrightarrow> \<not> attr_stuck rid rlen hdr b target j" by blast
  then have "\<exists>r. get_attr_loop rid rlen hdr b n target i = Some (Done r) \<and> (\<forall>p l. r = Some (p, l) \<longrightarrow> p < n)"
    using assms by (intro attr_returns) blast+
  then obtain r where "get_attr_loop rid rlen hdr b n target i = Some (Done r)" "\<forall>p l. r = Some (p, l) \<longrightarrow> p < n" by blast
  then show ?thesis using False by auto
qed

section \<open>Properties\<close>

lemma rtw_get_ie_first_parts:
  shows "\<forall>e \<in> set es. ie_ok e \<Longrightarrow>
      rtw_get_ie (enc_ies es @ post) index (int (length (enc_ies es))) = Some (ie_pos (\<lambda>e. unat (fst e) = index) es 0)"
    and "limit < int (length b) \<Longrightarrow>
      \<exists>r. rtw_get_ie b index limit = Some r \<and> (\<forall>p l. r = Some (p, l) \<longrightarrow> int p < limit \<and> l < 256)"
proof -
  show "rtw_get_ie (enc_ies es @ post) index (int (length (enc_ies es))) = Some (ie_pos (\<lambda>e. unat (fst e) = index) es 0)"
    if "\<forall>e \<in> set es. ie_ok e"
  proof (cases "es = []")
    case False
    then show ?thesis using get_ie_loop_enc [OF False that, of "[]" post index] enc_ies_pos [OF False]
      by (simp add: rtw_get_ie_def)
  qed (simp add: rtw_get_ie_def)
  show "\<exists>r. rtw_get_ie b index limit = Some r \<and> (\<forall>p l. r = Some (p, l) \<longrightarrow> int p < limit \<and> l < 256)"
    if "limit < int (length b)"
  proof (cases "limit < 1")
    case False
    then have "get_ie_loop b index limit 0 \<noteq> None" using get_ie_loop_total [of 0 limit b index] that by simp
    then obtain r where "rtw_get_ie b index limit = Some r" using False by (auto simp: rtw_get_ie_def)
    then show ?thesis using rtw_get_ie_pos by blast
  qed (simp add: rtw_get_ie_def)
qed

text \<open>\<^verbatim>\<open>rtw_get_ie\<close> finds the first element with the number asked for in a series of elements that fills the
  limit, and returns its position and length, or the null pointer when there is none. On arbitrary bytes, of
  which one behind the limit may be read, it ends without leaving the memory, at a position below the limit.\<close>

theorem rtw_get_ie_first:
  "((\<forall>e \<in> set es. ie_ok e) \<longrightarrow> rtw_get_ie (enc_ies es @ post) index (int (length (enc_ies es))) = Some (ie_pos (\<lambda>e. unat (fst e) = index) es 0))
   \<and> (limit < int (length b) \<longrightarrow> (\<exists>r. rtw_get_ie b index limit = Some r \<and> (\<forall>p l. r = Some (p, l) \<longrightarrow> int p < limit \<and> l < 256)))"
  by (rule conjI, (rule impI)+, rule rtw_get_ie_first_parts(1), assumption+,
      (rule impI)+, rule rtw_get_ie_first_parts(2), assumption+)

theorem rtw_get_ie_first_witness:
  "rtw_get_ie (enc_ies [(0, [0x61, 0x62]), (3, [6]), (5, [0, 1, 0, 0])] @ [0]) 3 13 = Some (Some (4, 1))
   \<and> (\<exists>r. rtw_get_ie [1, 200, 7, 0] 9 3 = Some r)"
proof -
  have l: "int (length (enc_ies [(0, [0x61, 0x62]), (3, [6]), (5, [0, 1, 0, 0])])) = 13" by simp
  have "ie_pos (\<lambda>e. unat (fst e) = 3) [(0, [0x61, 0x62]), (3, [6]), (5, [0, 1, 0, 0])] 0 = Some (4, 1)" by simp
  with rtw_get_ie_first [THEN conjunct1, of "[(0, [0x61, 0x62]), (3, [6]), (5, [0, 1, 0, 0])]" "[0]" 3] l
    rtw_get_ie_first [THEN conjunct2, of 3 "[1, 200, 7, 0]" 9]
  show ?thesis by (auto simp: ie_ok_def)
qed

text \<open>C26. \<^verbatim>\<open>rtw_ies_remove_ie\<close> removes exactly the elements with the given number and vendor prefix: what remains
  is the series without them, in order, and the new length is its length; the result tells whether there was
  one. This holds when every element with that number can hold the prefix and the series fits into the
  function's local array.\<close>

theorem rtw_ies_remove_ie_filters:
  assumes "\<forall>e \<in> set es. oui_fits eid oui e" "length (enc_ies es) \<le> MAX_IE_SZ"
  shows "\<exists>junk. rtw_ies_remove_ie (fixed @ enc_ies es @ post) (length fixed + length (enc_ies es)) (length fixed) eid oui
    = Some (if \<exists>e \<in> set es. oui_match eid oui e then RTW_SUCCESS else RTW_FAIL,
        fixed @ enc_ies (filter (\<lambda>e. \<not> oui_match eid oui e) es) @ junk,
        length fixed + length (enc_ies (filter (\<lambda>e. \<not> oui_match eid oui e) es)))"
proof (cases "es = []")
  case False
  have "length (enc_ies (filter (\<lambda>e. \<not> oui_match eid oui e) es)) \<le> length (enc_ies es)" by (induction es) auto
  then show ?thesis using remove_loop_enc [OF assms order_refl, of fixed RTW_FAIL post] enc_ies_pos [OF False]
    by (auto simp: rtw_ies_remove_ie_def)
qed (auto simp: rtw_ies_remove_ie_def)

theorem rtw_ies_remove_ie_filters_witness:
  "\<exists>junk. rtw_ies_remove_ie (replicate 12 0 @ enc_ies [(0, [0x61]), (0xdd, P2P_OUI @ [2, 2]), (1, [0x82])] @ []) 26 12 0xdd (Some P2P_OUI)
    = Some (RTW_SUCCESS, replicate 12 0 @ enc_ies [(0, [0x61]), (1, [0x82])] @ junk, 18)"
proof -
  let ?es = "[(0, [0x61]), (0xdd, P2P_OUI @ [2, 2]), (1, [0x82])] :: ie list"
  have f: "\<forall>e \<in> set ?es. oui_fits 0xdd (Some P2P_OUI) e" by code_simp
  have l: "length (enc_ies ?es) = 14" "14 \<le> MAX_IE_SZ" "\<exists>e \<in> set ?es. oui_match 0xdd (Some P2P_OUI) e"
    "filter (\<lambda>e. \<not> oui_match 0xdd (Some P2P_OUI) e) ?es = [(0, [0x61]), (1, [0x82])]"
    "length (enc_ies [(0, [0x61]), (1, [0x82])]) = 6" by code_simp+
  from rtw_ies_remove_ie_filters [OF f, of "replicate 12 0" "[]", unfolded l(1), OF l(2)]
  show ?thesis unfolding if_P [OF l(3)] l(4,5) by simp
qed

lemma attr_search_returns_iff_parts:
  shows "6 \<le> length ie \<Longrightarrow> n + 3 \<le> length ie \<Longrightarrow>
      (rtw_get_wps_attr ie n target = None \<longleftrightarrow>
        oui_hit 0xdd (Some WPS_OUI) ie 0 = Some True \<and>
        (\<exists>j. attr_visits wps_id wps_len 4 ie n target 6 j \<and> attr_stuck wps_id wps_len 4 ie target j))
      \<and> (\<forall>r. rtw_get_wps_attr ie n target = Some r \<longrightarrow> (\<exists>x. r = Done x \<and> (\<forall>p l. x = Some (p, l) \<longrightarrow> p < n)))"
    and "6 \<le> length ie \<Longrightarrow> n + 2 \<le> length ie \<Longrightarrow>
      (rtw_get_p2p_attr ie n target = None \<longleftrightarrow>
        oui_hit 0xdd (Some P2P_OUI) ie 0 = Some True \<and>
        (\<exists>j. attr_visits p2p_id p2p_len 3 ie n target 6 j \<and> attr_stuck p2p_id p2p_len 3 ie target j))
      \<and> (\<forall>r. rtw_get_p2p_attr ie n target = Some r \<longrightarrow> (\<exists>x. r = Done x \<and> (\<forall>p l. x = Some (p, l) \<longrightarrow> p < n)))"
proof -
  have h: "\<exists>h. oui_hit 0xdd (Some p) ie 0 = Some h" if "6 \<le> length ie" "length p = 4" for p
    using that by (auto simp: oui_hit_def rd_def rds_def)
  show "(rtw_get_wps_attr ie n target = None \<longleftrightarrow>
        oui_hit 0xdd (Some WPS_OUI) ie 0 = Some True \<and>
        (\<exists>j. attr_visits wps_id wps_len 4 ie n target 6 j \<and> attr_stuck wps_id wps_len 4 ie target j))
      \<and> (\<forall>r. rtw_get_wps_attr ie n target = Some r \<longrightarrow> (\<exists>x. r = Done x \<and> (\<forall>p l. x = Some (p, l) \<longrightarrow> p < n)))"
    if l: "6 \<le> length ie" "n + 3 \<le> length ie"
  proof -
    obtain h where h: "oui_hit 0xdd (Some WPS_OUI) ie 0 = Some h" using h [OF l(1), of WPS_OUI] by (auto simp: WPS_OUI_def)
    have "wps_id ie i \<noteq> None" "wps_len ie i \<noteq> None" if "i < n" for i
      using that l(2) rd_16_total by (simp_all add: wps_id_def wps_len_def)
    then have "(get_attr_loop wps_id wps_len 4 ie n target 6 = None \<longleftrightarrow>
        (\<exists>j. attr_visits wps_id wps_len 4 ie n target 6 j \<and> attr_stuck wps_id wps_len 4 ie target j))
      \<and> (\<forall>r. get_attr_loop wps_id wps_len 4 ie n target 6 = Some r \<longrightarrow>
            (\<exists>x. r = Done x \<and> (\<forall>p l. x = Some (p, l) \<longrightarrow> p < n)))"
      by (intro attr_loop_iff) (auto simp: wps_len_def dest: rd_16_less)
    then show ?thesis using h by (cases h) (simp_all add: rtw_get_wps_attr_def)
  qed
  show "(rtw_get_p2p_attr ie n target = None \<longleftrightarrow>
        oui_hit 0xdd (Some P2P_OUI) ie 0 = Some True \<and>
        (\<exists>j. attr_visits p2p_id p2p_len 3 ie n target 6 j \<and> attr_stuck p2p_id p2p_len 3 ie target j))
      \<and> (\<forall>r. rtw_get_p2p_attr ie n target = Some r \<longrightarrow> (\<exists>x. r = Done x \<and> (\<forall>p l. x = Some (p, l) \<longrightarrow> p < n)))"
    if l: "6 \<le> length ie" "n + 2 \<le> length ie"
  proof -
    obtain h where h: "oui_hit 0xdd (Some P2P_OUI) ie 0 = Some h" using h [OF l(1), of P2P_OUI] by (auto simp: P2P_OUI_def)
    have "p2p_id ie i \<noteq> None" "p2p_len ie i \<noteq> None" if "i < n" for i
      using that l(2) rd_16_total by (simp_all add: p2p_id_def p2p_len_def rd_def)
    then have "(get_attr_loop p2p_id p2p_len 3 ie n target 6 = None \<longleftrightarrow>
        (\<exists>j. attr_visits p2p_id p2p_len 3 ie n target 6 j \<and> attr_stuck p2p_id p2p_len 3 ie target j))
      \<and> (\<forall>r. get_attr_loop p2p_id p2p_len 3 ie n target 6 = Some r \<longrightarrow>
            (\<exists>x. r = Done x \<and> (\<forall>p l. x = Some (p, l) \<longrightarrow> p < n)))"
      by (intro attr_loop_iff) (auto simp: p2p_len_def dest: rd_16_less)
    then show ?thesis using h by (cases h) (simp_all add: rtw_get_p2p_attr_def)
  qed
qed

text \<open>C21. The searches for a WPS or P2P attribute return unless they come to another attribute whose length field
  makes the sixteen-bit attribute length zero (65532 for WPS, 65533 for P2P); then they never return. When
  they return, they have stayed in the memory and the attribute found starts inside the element.\<close>

theorem attr_search_returns_iff:
  "(6 \<le> length ie \<longrightarrow> n + 3 \<le> length ie \<longrightarrow> (rtw_get_wps_attr ie n target = None \<longleftrightarrow>
        oui_hit 0xdd (Some WPS_OUI) ie 0 = Some True \<and>
        (\<exists>j. attr_visits wps_id wps_len 4 ie n target 6 j \<and> attr_stuck wps_id wps_len 4 ie target j))
      \<and> (\<forall>r. rtw_get_wps_attr ie n target = Some r \<longrightarrow> (\<exists>x. r = Done x \<and> (\<forall>p l. x = Some (p, l) \<longrightarrow> p < n))))
   \<and> (6 \<le> length ie \<longrightarrow> n + 2 \<le> length ie \<longrightarrow> (rtw_get_p2p_attr ie n target = None \<longleftrightarrow>
        oui_hit 0xdd (Some P2P_OUI) ie 0 = Some True \<and>
        (\<exists>j. attr_visits p2p_id p2p_len 3 ie n target 6 j \<and> attr_stuck p2p_id p2p_len 3 ie target j))
      \<and> (\<forall>r. rtw_get_p2p_attr ie n target = Some r \<longrightarrow> (\<exists>x. r = Done x \<and> (\<forall>p l. x = Some (p, l) \<longrightarrow> p < n))))"
  by (rule conjI, (rule impI)+, rule attr_search_returns_iff_parts(1), assumption+,
      (rule impI)+, rule attr_search_returns_iff_parts(2), assumption+)

definition demo_wps_ie :: bytes where
  "demo_wps_ie = [0xdd, 8] @ WPS_OUI @ [0x10, 0x4a, 0xff, 0xfc, 0, 0, 0]"

theorem attr_search_returns_iff_witness:
  "rtw_get_wps_attr demo_wps_ie 10 0x1041 = None \<and> rtw_get_wps_attr demo_wps_ie 10 0x104a \<noteq> None"
proof -
  have l: "6 \<le> length demo_wps_ie" "10 + 3 \<le> length demo_wps_ie" by (simp_all add: demo_wps_ie_def WPS_OUI_def)
  have h: "oui_hit 0xdd (Some WPS_OUI) demo_wps_ie 0 = Some True" by code_simp
  have v: "attr_visits wps_id wps_len 4 demo_wps_ie 10 0x1041 6 6" by (rule visit_here) simp
  have i: "wps_id demo_wps_ie 6 = Some 0x104a" "wps_len demo_wps_ie 6 = Some 0xfffc"
    by (simp_all add: wps_id_def wps_len_def rd_be16_def rd_def demo_wps_ie_def WPS_OUI_def)
  then have s: "attr_stuck wps_id wps_len 4 demo_wps_ie 0x1041 6" by (simp add: attr_stuck_def)
  have "\<not> (attr_visits wps_id wps_len 4 demo_wps_ie 10 0x104a 6 j \<and> attr_stuck wps_id wps_len 4 demo_wps_ie 0x104a j)" (is "\<not> (?v \<and> _)") for j
  proof
    assume *: "attr_visits wps_id wps_len 4 demo_wps_ie 10 0x104a 6 j \<and> attr_stuck wps_id wps_len 4 demo_wps_ie 0x104a j"
    then have ?v by blast
    then have "j = 6" by (cases rule: attr_visits.cases) (use i in simp_all)
    then show False using * i by (simp add: attr_stuck_def)
  qed
  with attr_search_returns_iff [where target = "0x1041", THEN conjunct1, THEN mp, THEN mp, OF l]
    attr_search_returns_iff [where target = "0x104a", THEN conjunct1, THEN mp, THEN mp, OF l] h v s show ?thesis by blast
qed

end
