(* ===== verification/IeParse.thy ===== *)
theory IeParse
  imports IeSearch
begin

text \<open>
  The parser of management frames accepts exactly the series of elements and records where they stand; the
  parsers of the WPA and RSN elements read back what such an element says; the beacon template is a series
  of elements.
\<close>

section \<open>The parser of management frames\<close>

lemma parse_elem_total: "pos + elen \<le> length b \<Longrightarrow> \<exists>r. parse_elem b j pos elen = Some r"
  by (auto simp: parse_elem_def parse_vendor_specific_def rd_def rds_def)

lemma enc_ies_head:
  assumes "x # y # rest = enc_ies es" "\<forall>e \<in> set es. ie_ok e"
  shows "\<exists>e es'. es = e # es' \<and> fst e = x \<and> unat y = length (snd e) \<and> rest = snd e @ enc_ies es'"
proof (cases es)
  case (Cons e es')
  then have "x = fst e" "y = of_nat (length (snd e))" "rest = snd e @ enc_ies es'"
    using assms(1) by (simp_all add: enc_ie_def)
  moreover have "unat (of_nat (length (snd e)) :: u8) = length (snd e)" using assms(2) Cons by (simp add: unat_len)
  ultimately show ?thesis using Cons by auto
qed (use assms in simp)

lemma buf_get_step: "i < length b \<Longrightarrow> buf_get i (Suc n) b = b ! i # buf_get (Suc i) n b"
  by (simp add: buf_get_def Cons_nth_drop_Suc [symmetric])

text \<open>On arbitrary bytes the parser ends within the memory, and it fails exactly when they are not a series of
  elements; every body it records lies in the bytes given.\<close>

lemma parse_elems_loop_result:
  assumes "pos + left \<le> length b" "\<forall>f p l. e f = Some (p, l) \<longrightarrow> p + l \<le> m" "pos + left = m"
  shows "\<exists>r e'. parse_elems_loop b pos left unknown e = Some (r, e')
    \<and> (\<forall>f p l. e' f = Some (p, l) \<longrightarrow> p + l \<le> m)
    \<and> (r \<noteq> ParseFailed \<longleftrightarrow> (\<exists>es. (\<forall>x \<in> set es. ie_ok x) \<and> buf_get pos left b = enc_ies es))"
  using assms
proof (induction b pos left unknown e rule: parse_elems_loop.induct)
  case (1 b pos left unknown e)
  show ?case
  proof (cases "2 \<le> left")
    case False
    have "(\<exists>es. (\<forall>x \<in> set es. ie_ok x) \<and> buf_get pos left b = enc_ies es) \<longleftrightarrow> left = 0"
    proof
      assume "\<exists>es. (\<forall>x \<in> set es. ie_ok x) \<and> buf_get pos left b = enc_ies es"
      then obtain es where "buf_get pos left b = enc_ies es" by blast
      then have "length (enc_ies es) = left" using "1.prems"(1) by (metis length_buf_get)
      then show "left = 0" using False by (cases es) auto
    qed (auto simp: buf_get_def intro: exI [of _ "[]"])
    then show ?thesis using False "1.prems"(2) by (subst parse_elems_loop.simps) auto
  next
    case True
    define n where "n = unat (b ! (pos + 1))"
    have n: "n < 256" unfolding n_def using unsigned_less [of "b ! (pos + 1)"] by simp
    have r: "rd b pos = Some (b ! pos)" "rd b (pos + 1) = Some (b ! (pos + 1))"
      using True "1.prems"(1) by (simp_all add: rd_def)
    obtain left' where l': "left = Suc (Suc left')" using True by (metis add_2_eq_Suc le_Suc_ex)
    have g: "buf_get pos left b = b ! pos # b ! (pos + 1) # buf_get (pos + 2) (left - 2) b"
      using "1.prems"(1) unfolding l' by (simp add: buf_get_step)
    have gl: "length (buf_get (pos + 2) (left - 2) b) = left - 2" using True "1.prems"(1) by (simp add: len_simps)
    show ?thesis
    proof (cases "n > left - 2")
      case big: True
      have "\<not> (\<exists>es. (\<forall>x \<in> set es. ie_ok x) \<and> buf_get pos left b = enc_ies es)"
      proof
        assume "\<exists>es. (\<forall>x \<in> set es. ie_ok x) \<and> buf_get pos left b = enc_ies es"
        then obtain es where es: "\<forall>x \<in> set es. ie_ok x" "buf_get pos left b = enc_ies es" by blast
        obtain e es' where
          "unat (b ! (pos + 1)) = length (snd e)" "buf_get (pos + 2) (left - 2) b = snd e @ enc_ies es'"
          using enc_ies_head [OF es(2) [unfolded g] es(1)] by auto
        then have "n \<le> left - 2" unfolding n_def using gl by (metis length_append le_add1)
        then show False using big by simp
      qed
      moreover have "parse_elems_loop b pos left unknown e = Some (ParseFailed, e)"
        using True r big by (subst parse_elems_loop.simps) (simp add: n_def)
      ultimately show ?thesis using "1.prems"(2) by auto
    next
      case small: False
      obtain k where k: "parse_elem b (b ! pos) (pos + 2) n = Some k"
      proof -
        have "pos + 2 + n \<le> length b" using small True "1.prems"(1) by linarith
        then show thesis using parse_elem_total [of "pos + 2" n b "b ! pos"] that by blast
      qed
      define e1 where "e1 = (case k of None \<Rightarrow> e | Some f \<Rightarrow> e(f \<mapsto> (pos + 2, n)))"
      have step: "parse_elems_loop b pos left unknown e
        = parse_elems_loop b (pos + 2 + n) (left - 2 - n) (unknown \<or> k = None) e1"
        using True r small k by (subst parse_elems_loop.simps) (simp add: n_def e1_def cong: option.case_cong)
      have p: "pos + 2 + n + (left - 2 - n) = pos + left" using True small by simp
      have e1: "\<forall>f p l. e1 f = Some (p, l) \<longrightarrow> p + l \<le> m"
        using "1.prems"(2,3) p by (auto simp: e1_def split: option.splits)
      have IH: "\<exists>r e'. parse_elems_loop b (pos + 2 + n) (left - 2 - n) (unknown \<or> k = None) e1 = Some (r, e')
        \<and> (\<forall>f p l. e' f = Some (p, l) \<longrightarrow> p + l \<le> m)
        \<and> (r \<noteq> ParseFailed \<longleftrightarrow> (\<exists>es. (\<forall>x \<in> set es. ie_ok x) \<and> buf_get (pos + 2 + n) (left - 2 - n) b = enc_ies es))"
        unfolding n_def e1_def
        by (rule "1.IH" [OF True]) (use r small k e1 p "1.prems"(1,3) in \<open>simp_all add: n_def e1_def cong: option.case_cong\<close>)
      have s: "buf_get (pos + 2) (left - 2) b = buf_get (pos + 2) n b @ buf_get (pos + 2 + n) (left - 2 - n) b"
      proof -
        have "n + (left - 2 - n) = left - 2" using small by linarith
        then show ?thesis using buf_get_append [of "pos + 2" n b "left - 2 - n"] by (simp only:)
      qed
      have ln: "length (buf_get (pos + 2) n b) = n" using small True "1.prems"(1) by (simp add: len_simps)
      have "(\<exists>es. (\<forall>x \<in> set es. ie_ok x) \<and> buf_get (pos + 2 + n) (left - 2 - n) b = enc_ies es)
        \<longleftrightarrow> (\<exists>es. (\<forall>x \<in> set es. ie_ok x) \<and> buf_get pos left b = enc_ies es)" (is "?A \<longleftrightarrow> ?B")
      proof
        assume ?A
        then obtain es where es: "\<forall>x \<in> set es. ie_ok x" "buf_get (pos + 2 + n) (left - 2 - n) b = enc_ies es" by blast
        have "b ! (pos + 1) = of_nat n" by (simp add: n_def)
        then have "buf_get pos left b = enc_ies ((b ! pos, buf_get (pos + 2) n b) # es)"
          unfolding g s es(2) using ln by (simp add: enc_ie_def)
        moreover have "ie_ok (b ! pos, buf_get (pos + 2) n b)" using n ln by (simp add: ie_ok_def)
        ultimately show ?B using es(1) by (metis set_ConsD)
      next
        assume ?B
        then obtain es where es: "\<forall>x \<in> set es. ie_ok x" "buf_get pos left b = enc_ies es" by blast
        obtain e es' where *: "es = e # es'"
          "unat (b ! (pos + 1)) = length (snd e)" "buf_get (pos + 2) (left - 2) b = snd e @ enc_ies es'"
          using enc_ies_head [OF es(2) [unfolded g] es(1)] by auto
        then have "buf_get (pos + 2 + n) (left - 2 - n) b = enc_ies es'"
          using s ln by (simp add: n_def)
        then show ?A using es(1) *(1) by auto
      qed
      then show ?thesis using IH unfolding step by simp
    qed
  qed
qed

text \<open>On a series the last element of every number is recorded.\<close>

fun ie_last :: "u8 \<Rightarrow> ie list \<Rightarrow> nat \<Rightarrow> (nat \<times> nat) option \<Rightarrow> (nat \<times> nat) option" where
  "ie_last i [] pos acc = acc"
| "ie_last i (e # es) pos acc =
     ie_last i es (pos + length (snd e) + 2) (if fst e = i then Some (pos + 2, length (snd e)) else acc)"

lemma parse_elem_other:
  assumes "(i, f) \<in> set known_elems" "parse_elem b j pos elen = Some (Some f)"
  shows "j = i"
proof (cases "j = 221")
  case True
  then have "f \<in> {E_WPA, E_WME, E_WME_TSPEC, E_WPS, E_VENDOR_HT_CAP}"
    using assms(2) by (auto simp: parse_elem_def parse_vendor_specific_def bind_eq_Some_conv split: if_splits)
  then show ?thesis using assms(1) by (auto simp: known_elems_def)
next
  case False
  then have "(j, f) \<in> set known_elems" using assms(2) by (auto simp: parse_elem_def dest: map_of_SomeD)
  then show ?thesis using assms(1) by (auto simp: known_elems_def)
qed

lemma known_elems_distinct: "distinct (map fst known_elems)" "221 \<notin> set (map fst known_elems)"
  by (simp_all add: known_elems_def)

lemma parse_elems_loop_enc:
  assumes "(i, f) \<in> set known_elems" "\<forall>x \<in> set es. ie_ok x"
    "parse_elems_loop (pre @ enc_ies es @ post) (length pre) (length (enc_ies es)) unknown e = Some (r, e')"
  shows "e' f = ie_last i es (length pre) (e f)"
  using assms(2,3)
proof (induction es arbitrary: pre unknown e)
  case Nil
  then show ?case by (subst (asm) parse_elems_loop.simps) simp
next
  case (Cons x es)
  let ?b = "pre @ enc_ies (x # es) @ post"
  have b: "?b = pre @ enc_ie x @ enc_ies es @ post" "?b = (pre @ enc_ie x) @ enc_ies es @ post" by simp_all
  note rr = rd_enc [OF b(1)] and u = unat_len [of x]
  obtain k where k: "parse_elem ?b (fst x) (length pre + 2) (length (snd x)) = Some k"
    using parse_elem_total [of "length pre + 2" "length (snd x)" ?b] by auto
  define e1 where "e1 = (case k of None \<Rightarrow> e | Some g \<Rightarrow> e(g \<mapsto> (length pre + 2, length (snd x))))"
  have "parse_elems_loop ?b (length pre) (length (enc_ies (x # es))) unknown e
    = parse_elems_loop ?b (length (pre @ enc_ie x)) (length (enc_ies es)) (unknown \<or> k = None) e1"
    using rr u k Cons.prems(1) by (subst parse_elems_loop.simps) (simp add: e1_def cong: option.case_cong)
  then have "e' f = ie_last i es (length (pre @ enc_ie x)) (e1 f)"
    using Cons.IH [of "pre @ enc_ie x"] Cons.prems unfolding b(2) by simp
  moreover have "e1 f = (if fst x = i then Some (length pre + 2, length (snd x)) else e f)"
  proof (cases "fst x = i")
    case True
    then have "k = Some f" using k assms(1) known_elems_distinct
      by (auto simp: parse_elem_def image_iff split: if_splits)
    then show ?thesis using True by (simp add: e1_def)
  next
    case False
    then have "k \<noteq> Some f" using parse_elem_other [OF assms(1)] k by blast
    then show ?thesis using False by (auto simp: e1_def split: option.split)
  qed
  ultimately show ?case by (simp add: add.assoc)
qed

section \<open>Security elements\<close>

text \<open>The body of an RSN or WPA element: version 1, group cipher, pairwise ciphers, one key management suite.\<close>

definition suites_body :: "bytes \<Rightarrow> bytes list \<Rightarrow> bytes \<Rightarrow> bytes" where
  "suites_body g ps akm = g @ put_le16 (of_nat (length ps)) @ concat ps @ put_le16 1 @ akm"

definition rsn_element :: "bytes \<Rightarrow> bytes list \<Rightarrow> bytes \<Rightarrow> ie" where
  "rsn_element g ps akm = (0x30, put_le16 1 @ suites_body g ps akm)"

definition wpa_element :: "bytes \<Rightarrow> bytes list \<Rightarrow> bytes \<Rightarrow> ie" where
  "wpa_element g ps akm = (0xdd, WPA_OUI @ put_le16 1 @ suites_body g ps akm)"

definition suites_of :: "(bytes \<Rightarrow> u32) \<Rightarrow> bytes list \<Rightarrow> u32 \<Rightarrow> u32" where
  "suites_of suite ps acc = foldl (\<lambda>a s. a OR suite s) acc ps"

lemma length_put_le16 [simp, len_simps]: "length (put_le16 w) = 2" by (simp add: put_le16_def)

lemma rd_le16_put: "rd_le16 (pre @ put_le16 w @ post) (length pre) = Some (unat w)"
  using unat_bytes [of w] by (simp add: rd_le16_def rd_def put_le16_def nth_append)

lemma length_concat4: "\<forall>s \<in> set ps. length s = 4 \<Longrightarrow> length (concat ps) = 4 * length ps"
  by (induction ps) auto

lemma pairwise_loop_enc:
  assumes "\<forall>s \<in> set ps. length s = 4"
  shows "pairwise_loop suite (pre @ concat ps @ post) (length pre) (length ps) acc = Some (suites_of suite ps acc)"
  using assms
proof (induction ps arbitrary: pre acc)
  case (Cons s ps)
  have b: "pre @ concat (s # ps) @ post = pre @ s @ concat ps @ post"
    "pre @ concat (s # ps) @ post = (pre @ s) @ concat ps @ post" by simp_all
  have "rds (pre @ concat (s # ps) @ post) (length pre) 4 = Some s" using rds_enc [OF b(1)] Cons.prems by simp
  then show ?case using Cons.IH [of "pre @ s" "acc OR suite s"] Cons.prems by (simp add: suites_of_def)
qed (simp add: suites_of_def)

lemma parse_ciphers_enc:
  assumes "length g = 4" "\<forall>s \<in> set ps. length s = 4" "length akm = 4" "ps \<noteq> []" "length ps < 2 ^ 16"
  shows "parse_ciphers suite suite_1x (pre @ suites_body g ps akm @ post) (length pre)
      (int (length (suites_body g ps akm))) want r
    = Some (RTW_SUCCESS, r\<lparr>group_cipher := suite g, pairwise_cipher := suites_of suite ps (pairwise_cipher r),
        is_8021x := is_8021x r \<or> want \<and> akm = suite_1x\<rparr>)"
proof -
  let ?b = "pre @ suites_body g ps akm @ post"
  have len: "length (suites_body g ps akm) = 4 + (2 + (4 * length ps + 6))"
    using assms by (simp add: suites_body_def length_concat4)
  have g: "rds ?b (length pre) 4 = Some g"
    using rds_enc [of ?b pre g "put_le16 (of_nat (length ps)) @ concat ps @ put_le16 1 @ akm @ post" 4] assms(1)
    by (simp add: suites_body_def)
  have u: "unat (of_nat (length ps) :: u16) = length ps" using assms(5) by (simp add: unsigned_of_nat take_bit_nat_eq_self)
  have c: "rd_le16 ?b (length pre + 4) = Some (length ps)"
    using rd_le16_put [of "pre @ g" "of_nat (length ps)" "concat ps @ put_le16 1 @ akm @ post"] assms(1) u
    by (simp add: suites_body_def)
  have p: "pairwise_loop suite ?b (length pre + 4 + 2) (length ps) a = Some (suites_of suite ps a)" for a
    using pairwise_loop_enc [OF assms(2), of suite "pre @ g @ put_le16 (of_nat (length ps))" "put_le16 1 @ akm @ post" a] assms(1)
    by (simp add: suites_body_def add_ac)
  have s: "rds ?b (length pre + 4 + 2 + 4 * length ps + 2) 4 = Some akm"
    using rds_enc [of ?b "pre @ g @ put_le16 (of_nat (length ps)) @ concat ps @ put_le16 1" akm post 4] assms
    by (simp add: suites_body_def length_concat4 add_ac)
  show ?thesis unfolding parse_ciphers_def len parse_group_def parse_pairwise_def parse_akm_def
    using g c p s assms(4) by (simp add: add.assoc)
qed

lemma pairwise_loop_total: "pos + 4 * n \<le> length b \<Longrightarrow> pairwise_loop suite b pos n acc \<noteq> None"
proof (induction n arbitrary: pos acc)
  case (Suc n)
  then obtain s where "rds b pos 4 = Some s" by (auto simp: rds_def)
  then show ?case using Suc by simp
qed simp

lemma parse_group_total:
  assumes "int pos + left \<le> int (length b)"
  shows "\<exists>g. parse_group suite b pos left r = Some g
    \<and> (\<forall>pos' left' r'. g = Inr (pos', left', r') \<longrightarrow> int pos' + left' \<le> int (length b))"
  using assms by (auto simp: parse_group_def rds_def)

lemma parse_pairwise_total:
  assumes "int pos + left \<le> int (length b)"
  shows "\<exists>g. parse_pairwise suite b pos left r = Some g
    \<and> (\<forall>pos' left' r'. g = Inr (pos', left', r') \<longrightarrow> int pos' + left' \<le> int (length b))"
proof (cases "left \<ge> 2")
  case True
  then have "rd_le16 b pos \<noteq> None" using assms by (intro rd_16_total(2)) linarith
  then obtain count where c: "rd_le16 b pos = Some count" by blast
  show ?thesis
  proof (cases "count = 0 \<or> left - 2 < int count * 4")
    case False
    then have "pairwise_loop suite b (pos + 2) count (pairwise_cipher r) \<noteq> None"
      using assms by (intro pairwise_loop_total) linarith
    then obtain x where "pairwise_loop suite b (pos + 2) count (pairwise_cipher r) = Some x" by blast
    then show ?thesis using True c False assms by (simp add: parse_pairwise_def)
  qed (use True c in \<open>simp add: parse_pairwise_def\<close>)
qed (use assms in \<open>simp add: parse_pairwise_def\<close>)

lemma parse_ciphers_total:
  assumes "int pos + left \<le> int (length b)"
  shows "\<exists>x. parse_ciphers suite suite_1x b pos left want r = Some x"
proof -
  obtain g where g: "parse_group suite b pos left r = Some g"
    "\<forall>pos' left' r'. g = Inr (pos', left', r') \<longrightarrow> int pos' + left' \<le> int (length b)"
    using parse_group_total [OF assms] by blast
  show ?thesis
  proof (cases g)
    case (Inr s)
    obtain p l r1 where s: "s = (p, l, r1)" by (rule prod_cases3)
    then have "int p + l \<le> int (length b)" using g(2) Inr by simp
    then obtain q where q: "parse_pairwise suite b p l r1 = Some q"
      "\<forall>pos' left' r'. q = Inr (pos', left', r') \<longrightarrow> int pos' + left' \<le> int (length b)"
      using parse_pairwise_total by blast
    have "\<exists>x. parse_akm suite_1x want b p' l' r' = Some x" if "q = Inr (p', l', r')" for p' l' r'
      using q(2) that by (auto simp: parse_akm_def rds_def)
    then show ?thesis using g(1) q(1) Inr s by (cases q) (auto simp: parse_ciphers_def)
  qed (use g(1) in \<open>simp add: parse_ciphers_def\<close>)
qed

section \<open>The beacon template\<close>

lemma rtw_set_ie_enc:
  assumes "len + 2 \<le> length post" "len \<le> length src" "p = length pre"
  shows "rtw_set_ie (pre @ post) p index len src frlen
    = Some (pre @ enc_ie (of_nat index, take len src) @ drop (len + 2) post, p + len + 2, frlen + (of_nat len + 2))"
proof -
  let ?b = "pre @ post"
  have l: "length pre + (len + 2) \<le> length ?b" using assms by simp
  have p: "put p [of_nat index, of_nat len] ?b = Some (buf_put p [of_nat index, of_nat len] ?b)"
    using l assms(3) by (simp add: put_def)
  have s: "rds src 0 len = Some (take len src)" using assms(2) by (simp add: rds_def buf_get_def)
  have "buf_put (p + 2) (take len src) (buf_put p [of_nat index, of_nat len] ?b)
    = buf_put p ([of_nat index, of_nat len] @ take len src) ?b"
    using buf_put_append [of p "[of_nat index, of_nat len] :: bytes" "take len src" ?b] l assms(2,3) by simp
  also have "\<dots> = pre @ enc_ie (of_nat index, take len src) @ drop (len + 2) post"
    using assms by (simp add: buf_put_def enc_ie_def min_absorb2)
  finally show ?thesis using p s l assms(2,3) by (simp add: rtw_set_ie_def put_def len_simps)
qed

lemma rtw_set_ie_at:
  assumes "len + 2 \<le> length post" "len \<le> length src"
  shows "rtw_set_ie (pre @ post) (length pre) index len src (of_nat (length pre))
    = Some ((pre @ enc_ie (of_nat index, take len src)) @ drop (len + 2) post,
        length (pre @ enc_ie (of_nat index, take len src)), of_nat (length (pre @ enc_ie (of_nat index, take len src))))"
  using rtw_set_ie_enc [OF assms refl] assms(2) by (simp add: add_ac)

lemma length_supported_rate [len_simps]: "length (rtw_set_supported_rate mode) = 16"
  by (simp add: rtw_set_supported_rate_def Let_def len_simps WIFI_CCKRATES_def WIFI_OFDMRATES_def)

lemma supported_rate_len:
  obtains k where "rtw_get_rateset_len (rtw_set_supported_rate mode) = Some k" "k \<le> 12" "length (rtw_set_supported_rate mode) = 16"
proof -
  have "rtw_get_rateset_len (replicate 16 0) = Some 0" "rtw_get_rateset_len (buf_put 0 WIFI_CCKRATES (replicate 16 0)) = Some 4"
    "rtw_get_rateset_len (buf_put 0 WIFI_OFDMRATES (replicate 16 0)) = Some 8"
    "rtw_get_rateset_len (buf_put 4 WIFI_OFDMRATES (buf_put 0 WIFI_CCKRATES (replicate 16 0))) = Some 12" by code_simp+
  then have "\<exists>k. rtw_get_rateset_len (rtw_set_supported_rate mode) = Some k \<and> k \<le> 12"
    by (simp add: rtw_set_supported_rate_def Let_def)
  then show thesis using that length_supported_rate by blast
qed

lemma parse_elems_loop_known:
  assumes "\<forall>x \<in> set es. ie_ok x \<and> fst x \<noteq> 221 \<and> fst x \<in> fst ` set known_elems"
    "parse_elems_loop (pre @ enc_ies es @ post) (length pre) (length (enc_ies es)) False e = Some (r, e')"
  shows "r = ParseOK"
  using assms
proof (induction es arbitrary: pre e)
  case Nil then show ?case by (subst (asm) parse_elems_loop.simps) simp
next
  case (Cons x es)
  let ?b = "pre @ enc_ies (x # es) @ post"
  have b: "?b = pre @ enc_ie x @ enc_ies es @ post" "?b = (pre @ enc_ie x) @ enc_ies es @ post" by simp_all
  note rr = rd_enc [OF b(1)] and u = unat_len [of x]
  obtain f where "map_of known_elems (fst x) = Some f"
    using Cons.prems(1) by (metis (no_types, lifting) list.set_intros(1) map_of_eq_None_iff not_None_eq)
  then have k: "parse_elem ?b (fst x) (length pre + 2) (length (snd x)) = Some (Some f)"
    using Cons.prems(1) by (simp add: parse_elem_def)
  have "parse_elems_loop ?b (length pre) (length (enc_ies (x # es))) False e
    = parse_elems_loop ?b (length (pre @ enc_ie x)) (length (enc_ies es)) False (e(f \<mapsto> (length pre + 2, length (snd x))))"
    using rr u k Cons.prems(1) by (subst parse_elems_loop.simps) simp
  then show ?case using Cons.IH [of "pre @ enc_ie x"] Cons.prems unfolding b(2) by simp
qed

text \<open>The elements of the template.\<close>

definition beacon_elements :: "nat \<Rightarrow> dev_network \<Rightarrow> ie list" where
  "beacon_elements wireless_mode n =
     (let mode = (if wireless_mode = WIRELESS_11ABGN
                  then (if ds_config n > 14 then WIRELESS_11A_5N else WIRELESS_11BG_24N) else wireless_mode);
          rates = rtw_set_supported_rate mode;
          k = the (rtw_get_rateset_len rates)
      in [(0, take (ssid_length n) (ssid n)), (1, take (min k 8) rates), (3, [ucast (ds_config n)]),
          (6, take 2 (put_le32 (atim_window n)))] @ (if k > 8 then [(50, take (k - 8) (drop 8 rates))] else []))"

lemma rtw_generate_ie_enc:
  assumes "length (ies n) = MAX_IE_SZ" "length (ssid n) = 32" "ssid_length n \<le> 32"
  shows "\<exists>sz n' fixed rest. rtw_generate_ie short mode n = Some (sz, n') \<and> length fixed = 12
    \<and> ies n' = fixed @ enc_ies (beacon_elements mode n) @ rest
    \<and> unat sz = 12 + length (enc_ies (beacon_elements mode n))"
proof -
  define cap :: u16 where "cap = 2 OR (if short then 0x20 else 0) OR (if net_privacy n then 0x10 else 0)"
  define m where "m = (if mode = WIRELESS_11ABGN then (if ds_config n > 14 then WIRELESS_11A_5N else WIRELESS_11BG_24N) else mode)"
  define rates where "rates = rtw_set_supported_rate m"
  obtain k where k: "rtw_get_rateset_len rates = Some k" "k \<le> 12" "length rates = 16"
    unfolding rates_def by (rule supported_rate_len)
  define b2 where "b2 = buf_put 10 (put_le16 cap) (buf_put 8 (put_le16 (ucast (beacon_period n))) (ies n))"
  have b2: "put 8 (put_le16 (ucast (beacon_period n))) (ies n) = Some (buf_put 8 (put_le16 (ucast (beacon_period n))) (ies n))"
    "put 10 (put_le16 cap) (buf_put 8 (put_le16 (ucast (beacon_period n))) (ies n)) = Some b2" "length b2 = 768"
    using assms(1) by (simp_all add: put_def b2_def len_simps MAX_IE_SZ_def)
  define fx where "fx = take 12 b2"
  define r0 where "r0 = drop 12 b2"
  have s0: "b2 = fx @ r0" "length fx = 12" "length r0 = 756" by (simp_all add: fx_def r0_def b2(3))
  define j where "j = (if k > 8 then 8 else k)"
  have j: "j = min k 8" "j \<le> 8" by (simp_all add: j_def)
  define p1 where "p1 = fx @ enc_ie (0, take (ssid_length n) (ssid n))"
  define r1 where "r1 = drop (ssid_length n + 2) r0"
  define p2 where "p2 = p1 @ enc_ie (1, take j rates)"
  define r2 where "r2 = drop (j + 2) r1"
  define p3 where "p3 = p2 @ enc_ie (3, [ucast (ds_config n)])"
  define r3 where "r3 = drop (1 + 2) r2"
  define p4 where "p4 = p3 @ enc_ie (6, take 2 (put_le32 (atim_window n)))"
  define r4 where "r4 = drop 4 r3"
  define p5 where "p5 = p4 @ enc_ie (50, take (k - 8) (drop 8 rates))"
  define r5 where "r5 = drop (k - 8 + 2) r4"
  have lr: "length r1 \<ge> 700" "length r2 \<ge> 650" "length r3 \<ge> 600" "length r4 \<ge> 500"
    using s0(3) assms(3) j(2) by (simp_all add: r1_def r2_def r3_def r4_def)
  have t1: "rtw_set_ie b2 12 0 (ssid_length n) (ssid n) 12 = Some (p1 @ r1, length p1, of_nat (length p1))"
    using rtw_set_ie_at [of "ssid_length n" r0 "ssid n" fx 0] s0 assms(2,3) by (simp add: p1_def r1_def)
  have t2: "rtw_set_ie (p1 @ r1) (length p1) 1 j rates (of_nat (length p1)) = Some (p2 @ r2, length p2, of_nat (length p2))"
    using rtw_set_ie_at [of j r1 rates p1 1] lr j k(3) by (simp add: p2_def r2_def)
  have "take 1 (put_le32 (ds_config n)) = [ucast (ds_config n)]" by (simp add: put_le32_def)
  then have t3: "rtw_set_ie (p2 @ r2) (length p2) 3 1 (put_le32 (ds_config n)) (of_nat (length p2))
      = Some (p3 @ r3, length p3, of_nat (length p3))"
    using rtw_set_ie_at [of 1 r2 "put_le32 (ds_config n)" p2 3] lr by (simp add: p3_def r3_def len_simps)
  have t4: "rtw_set_ie (p3 @ r3) (length p3) 6 2 (put_le32 (atim_window n)) (of_nat (length p3))
      = Some (p4 @ r4, length p4, of_nat (length p4))"
    using rtw_set_ie_at [of 2 r3 "put_le32 (atim_window n)" p3 6] lr by (simp add: p4_def r4_def len_simps)
  have t5: "rtw_set_ie (p4 @ r4) (length p4) 50 (k - 8) (drop 8 rates) (of_nat (length p4))
      = Some (p5 @ r5, length p5, of_nat (length p5))"
    using rtw_set_ie_at [of "k - 8" r4 "drop 8 rates" p4 50] lr k by (simp add: p5_def r5_def)
  have be: "beacon_elements mode n = [(0, take (ssid_length n) (ssid n)), (1, take j rates), (3, [ucast (ds_config n)]),
      (6, take 2 (put_le32 (atim_window n)))] @ (if k > 8 then [(50, take (k - 8) (drop 8 rates))] else [])"
    using k(1) unfolding beacon_elements_def m_def [symmetric] Let_def rates_def [symmetric] j(1) by simp
  define pe where "pe = (if k > 8 then p5 else p4)"
  define re where "re = (if k > 8 then r5 else r4)"
  have g: "rtw_generate_ie short mode n
      = Some (of_nat (length pe), n\<lparr>supported_rates := rates, ies := pe @ re\<rparr>)"
    unfolding rtw_generate_ie_def m_def [symmetric] cap_def [symmetric] b2(1) Let_def rates_def [symmetric]
    by (simp add: b2(2) t1 t2 t3 t4 t5 k(1) j_def [symmetric] pe_def re_def del: One_nat_def)
  have pe: "pe = fx @ enc_ies (beacon_elements mode n)"
    unfolding pe_def be by (simp add: p1_def p2_def p3_def p4_def p5_def)
  have "length (enc_ies (beacon_elements mode n)) \<le> 100"
    using assms(2,3) j k by (simp add: be len_simps)
  then have "length pe < 2 ^ 32" using pe s0(2) by simp
  then have "unat (of_nat (length pe) :: u32) = length pe" by (simp add: unsigned_of_nat take_bit_nat_eq_self)
  then have "unat (of_nat (length pe) :: u32) = 12 + length (enc_ies (beacon_elements mode n))" using pe s0(2) by simp
  then show ?thesis using g pe s0(2) by (intro exI conjI) (assumption | simp)+
qed

section \<open>Properties\<close>

lemma parse_elems_correct_parts:
  shows "len \<le> length b \<Longrightarrow> \<exists>r e. rtw_ieee802_11_parse_elems b len = Some (r, e)
      \<and> (r \<noteq> ParseFailed \<longleftrightarrow> (\<exists>es. (\<forall>x \<in> set es. ie_ok x) \<and> take len b = enc_ies es))
      \<and> (\<forall>f p l. e f = Some (p, l) \<longrightarrow> p + l \<le> len)"
    and "\<forall>x \<in> set es. ie_ok x \<Longrightarrow> rtw_ieee802_11_parse_elems (enc_ies es @ post) (length (enc_ies es)) = Some (r, e) \<Longrightarrow>
      (i, f) \<in> set known_elems \<Longrightarrow> e f = ie_last i es 0 None"
proof -
  show "\<exists>r e. rtw_ieee802_11_parse_elems b len = Some (r, e)
      \<and> (r \<noteq> ParseFailed \<longleftrightarrow> (\<exists>es. (\<forall>x \<in> set es. ie_ok x) \<and> take len b = enc_ies es))
      \<and> (\<forall>f p l. e f = Some (p, l) \<longrightarrow> p + l \<le> len)" if "len \<le> length b"
    using parse_elems_loop_result [of 0 len b Map.empty len False] that
    by (auto simp: rtw_ieee802_11_parse_elems_def buf_get_def)
  show "e f = ie_last i es 0 None" if "\<forall>x \<in> set es. ie_ok x" "(i, f) \<in> set known_elems"
    "rtw_ieee802_11_parse_elems (enc_ies es @ post) (length (enc_ies es)) = Some (r, e)"
    using parse_elems_loop_enc [OF that(2,1), of "[]" post False Map.empty r e] that(3)
    by (simp add: rtw_ieee802_11_parse_elems_def)
qed

text \<open>C12. \<^verbatim>\<open>rtw_ieee802_11_parse_elems\<close> stays within the bytes it is given, whatever they are: it reports a failure
  exactly when they are not a series of elements, and every body it records lies inside them. For a series
  it records the last element of each known number.\<close>

theorem parse_elems_correct:
  "(len \<le> length b \<longrightarrow> (\<exists>r e. rtw_ieee802_11_parse_elems b len = Some (r, e)
      \<and> (r \<noteq> ParseFailed \<longleftrightarrow> (\<exists>es. (\<forall>x \<in> set es. ie_ok x) \<and> take len b = enc_ies es))
      \<and> (\<forall>f p l. e f = Some (p, l) \<longrightarrow> p + l \<le> len)))
   \<and> ((\<forall>x \<in> set es. ie_ok x) \<longrightarrow> rtw_ieee802_11_parse_elems (enc_ies es @ post) (length (enc_ies es)) = Some (r, e) \<longrightarrow> (i, f) \<in> set known_elems \<longrightarrow> e f = ie_last i es 0 None)"
  by (rule conjI, (rule impI)+, rule parse_elems_correct_parts(1), assumption+,
      (rule impI)+, rule parse_elems_correct_parts(2), assumption+)

theorem parse_elems_correct_witness:
  "(\<exists>r e. rtw_ieee802_11_parse_elems [0, 1, 0x61, 3, 9, 6] 6 = Some (r, e) \<and> (\<forall>f p l. e f = Some (p, l) \<longrightarrow> p + l \<le> 6))
   \<and> ie_last 3 [(0, [0x61]), (3, [6]), (3, [11])] 0 None = Some (8, 1)
   \<and> snd (the (rtw_ieee802_11_parse_elems (enc_ies [(0, [0x61]), (3, [6]), (3, [11])] @ [7]) 9)) E_DS_PARAMS = Some (8, 1)"
proof -
  let ?es = "[(0, [0x61]), (3, [6]), (3, [11])] :: ie list"
  have l: "length (enc_ies ?es) = 9" by simp
  obtain r e where p: "rtw_ieee802_11_parse_elems (enc_ies ?es @ [7]) (length (enc_ies ?es)) = Some (r, e)"
    using parse_elems_correct [THEN conjunct1, of "length (enc_ies ?es)" "enc_ies ?es @ [7]"] by auto
  have k: "(3, E_DS_PARAMS) \<in> set known_elems" by (simp add: known_elems_def)
  have i: "ie_last 3 ?es 0 None = Some (8, 1)" by simp
  have "e E_DS_PARAMS = Some (8, 1)" using parse_elems_correct [THEN conjunct2, THEN mp, THEN mp, THEN mp, OF _ p k] i by (simp add: ie_ok_def)
  then show ?thesis using parse_elems_correct [THEN conjunct1, of 6 "[0, 1, 0x61, 3, 9, 6]"] p i unfolding l by auto
qed

lemma security_elements_roundtrip_parts:
  shows "length g = 4 \<Longrightarrow> \<forall>s \<in> set ps. length s = 4 \<Longrightarrow> length akm = 4 \<Longrightarrow> ps \<noteq> [] \<Longrightarrow> ie_ok (rsn_element g ps akm) \<Longrightarrow>
      rtw_parse_wpa2_ie (enc_ie (rsn_element g ps akm) @ post) (int (length (enc_ie (rsn_element g ps akm)))) want r
      = Some (RTW_SUCCESS, r\<lparr>group_cipher := rtw_get_wpa2_cipher_suite g,
          pairwise_cipher := suites_of rtw_get_wpa2_cipher_suite ps (pairwise_cipher r),
          is_8021x := is_8021x r \<or> want \<and> akm = [0x00, 0x0f, 0xac, 1]\<rparr>)"
    and "length g = 4 \<Longrightarrow> \<forall>s \<in> set ps. length s = 4 \<Longrightarrow> length akm = 4 \<Longrightarrow> ps \<noteq> [] \<Longrightarrow> ie_ok (wpa_element g ps akm) \<Longrightarrow>
      rtw_parse_wpa_ie (enc_ie (wpa_element g ps akm) @ post) (int (length (enc_ie (wpa_element g ps akm)))) want r
      = Some (RTW_SUCCESS, r\<lparr>group_cipher := rtw_get_wpa_cipher_suite g,
          pairwise_cipher := suites_of rtw_get_wpa_cipher_suite ps (pairwise_cipher r),
          is_8021x := is_8021x r \<or> want \<and> akm = [0x00, 0x50, 0xf2, 1]\<rparr>)"
    and "2 \<le> length b \<Longrightarrow> len \<le> int (length b) \<Longrightarrow> rtw_parse_wpa2_ie b len want r \<noteq> None"
    and "6 \<le> length b \<Longrightarrow> len \<le> int (length b) \<Longrightarrow> rtw_parse_wpa_ie b len want r \<noteq> None"
proof -
  have few: "length ps < 2 ^ 16" if "\<forall>s \<in> set ps. length s = 4" "length g = 4" "length akm = 4" "length (suites_body g ps akm) \<le> 255"
    using that by (simp add: suites_body_def length_concat4)
  show "rtw_parse_wpa2_ie (enc_ie (rsn_element g ps akm) @ post) (int (length (enc_ie (rsn_element g ps akm)))) want r
      = Some (RTW_SUCCESS, r\<lparr>group_cipher := rtw_get_wpa2_cipher_suite g,
          pairwise_cipher := suites_of rtw_get_wpa2_cipher_suite ps (pairwise_cipher r),
          is_8021x := is_8021x r \<or> want \<and> akm = [0x00, 0x0f, 0xac, 1]\<rparr>)"
    if a: "length g = 4" "\<forall>s \<in> set ps. length s = 4" "length akm = 4" "ps \<noteq> []" and ok: "ie_ok (rsn_element g ps akm)"
  proof -
    let ?b = "enc_ie (rsn_element g ps akm) @ post"
    define hd4 :: bytes where "hd4 = [0x30, of_nat (length (suites_body g ps akm) + 2)] @ put_le16 1"
    have b: "?b = hd4 @ suites_body g ps akm @ post" "length hd4 = 4"
      by (simp_all add: hd4_def rsn_element_def enc_ie_def)
    have len: "int (length (enc_ie (rsn_element g ps akm))) = 4 + int (length (suites_body g ps akm))"
      by (simp add: rsn_element_def)
    have r: "rd ?b 0 = Some 0x30" "rd ?b 1 = Some (of_nat (length (suites_body g ps akm) + 2))"
      by (simp_all add: rd_def rsn_element_def enc_ie_def)
    have "length (suites_body g ps akm) \<le> 255" using ok by (simp add: ie_ok_def rsn_element_def)
    from parse_ciphers_enc [OF a few [OF a(2,1,3) this], of rtw_get_wpa2_cipher_suite "[0x00, 0x0f, 0xac, 1]" hd4 post want r]
    show ?thesis using r unfolding rtw_parse_wpa2_ie_def len b(1) by (simp add: b(2))
  qed
  show "rtw_parse_wpa_ie (enc_ie (wpa_element g ps akm) @ post) (int (length (enc_ie (wpa_element g ps akm)))) want r
      = Some (RTW_SUCCESS, r\<lparr>group_cipher := rtw_get_wpa_cipher_suite g,
          pairwise_cipher := suites_of rtw_get_wpa_cipher_suite ps (pairwise_cipher r),
          is_8021x := is_8021x r \<or> want \<and> akm = [0x00, 0x50, 0xf2, 1]\<rparr>)"
    if a: "length g = 4" "\<forall>s \<in> set ps. length s = 4" "length akm = 4" "ps \<noteq> []" and ok: "ie_ok (wpa_element g ps akm)"
  proof -
    let ?b = "enc_ie (wpa_element g ps akm) @ post"
    define hd8 :: bytes where "hd8 = [0xdd, of_nat (length (suites_body g ps akm) + 6)] @ WPA_OUI @ put_le16 1"
    have w: "length WPA_OUI = 4" by (simp add: WPA_OUI_def)
    have b: "?b = hd8 @ suites_body g ps akm @ post" "length hd8 = 8"
      by (simp_all add: hd8_def wpa_element_def enc_ie_def w)
    have len: "int (length (enc_ie (wpa_element g ps akm))) = 8 + int (length (suites_body g ps akm))"
      by (simp add: wpa_element_def w)
    have r: "rd ?b 0 = Some 0xdd" "rd ?b 1 = Some (of_nat (length (suites_body g ps akm) + 6))"
      by (simp_all add: rd_def wpa_element_def enc_ie_def w)
    have "?b = [0xdd, of_nat (length (suites_body g ps akm) + 6)] @ WPA_OUI @ put_le16 1 @ suites_body g ps akm @ post"
      by (simp add: wpa_element_def enc_ie_def w)
    from rds_enc [OF this w [symmetric]] have o4: "rds ?b 2 4 = Some WPA_OUI" by (simp add: numeral_2_eq_2)
    have "length (suites_body g ps akm) \<le> 255" using ok by (simp add: ie_ok_def wpa_element_def)
    from parse_ciphers_enc [OF a few [OF a(2,1,3) this], of rtw_get_wpa_cipher_suite "[0x00, 0x50, 0xf2, 1]" hd8 post want r]
    show ?thesis using r o4 unfolding rtw_parse_wpa_ie_def len b(1) by (simp add: b(2))
  qed
  show "rtw_parse_wpa2_ie b len want r \<noteq> None" if "2 \<le> length b" "len \<le> int (length b)"
  proof -
    have "rd b 0 = Some (b ! 0)" "rd b 1 = Some (b ! 1)" using that(1) by (auto simp: rd_def)
    moreover have "int 4 + (len - 4) \<le> int (length b)" using that(2) by simp
    from parse_ciphers_total [OF this] obtain x where
      "parse_ciphers rtw_get_wpa2_cipher_suite [0x00, 0x0f, 0xac, 1] b 4 (len - 4) want r = Some x" by blast
    ultimately show ?thesis by (simp add: rtw_parse_wpa2_ie_def del: One_nat_def)
  qed
  show "rtw_parse_wpa_ie b len want r \<noteq> None" if "6 \<le> length b" "len \<le> int (length b)"
  proof -
    have "rd b 0 = Some (b ! 0)" "rd b 1 = Some (b ! 1)" "rds b 2 4 = Some (buf_get 2 4 b)"
      using that(1) by (auto simp: rd_def rds_def)
    moreover have "int 8 + (len - 8) \<le> int (length b)" using that(2) by simp
    from parse_ciphers_total [OF this] obtain x where
      "parse_ciphers rtw_get_wpa_cipher_suite [0x00, 0x50, 0xf2, 1] b 8 (len - 8) want r = Some x" by blast
    ultimately show ?thesis by (simp add: rtw_parse_wpa_ie_def del: One_nat_def)
  qed
qed

text \<open>C28. The parsers of the two security elements read back what an element of version 1 says: its group
  cipher, all its pairwise ciphers, and whether its key management is 802.1X. On arbitrary bytes they never
  read behind the length they are given (the WPA parser needs the six bytes of its prefix).\<close>

theorem security_elements_roundtrip:
  "(length g = 4 \<longrightarrow> (\<forall>s \<in> set ps. length s = 4) \<longrightarrow> length akm = 4 \<longrightarrow> ps \<noteq> [] \<longrightarrow> ie_ok (rsn_element g ps akm) \<longrightarrow> rtw_parse_wpa2_ie (enc_ie (rsn_element g ps akm) @ post) (int (length (enc_ie (rsn_element g ps akm)))) want r
      = Some (RTW_SUCCESS, r\<lparr>group_cipher := rtw_get_wpa2_cipher_suite g,
          pairwise_cipher := suites_of rtw_get_wpa2_cipher_suite ps (pairwise_cipher r),
          is_8021x := is_8021x r \<or> want \<and> akm = [0x00, 0x0f, 0xac, 1]\<rparr>))
   \<and> (length g = 4 \<longrightarrow> (\<forall>s \<in> set ps. length s = 4) \<longrightarrow> length akm = 4 \<longrightarrow> ps \<noteq> [] \<longrightarrow> ie_ok (wpa_element g ps akm) \<longrightarrow> rtw_parse_wpa_ie (enc_ie (wpa_element g ps akm) @ post) (int (length (enc_ie (wpa_element g ps akm)))) want r
      = Some (RTW_SUCCESS, r\<lparr>group_cipher := rtw_get_wpa_cipher_suite g,
          pairwise_cipher := suites_of rtw_get_wpa_cipher_suite ps (pairwise_cipher r),
          is_8021x := is_8021x r \<or> want \<and> akm = [0x00, 0x50, 0xf2, 1]\<rparr>))
   \<and> (2 \<le> length b \<longrightarrow> len \<le> int (length b) \<longrightarrow> rtw_parse_wpa2_ie b len want r \<noteq> None)
   \<and> (6 \<le> length b \<longrightarrow> len \<le> int (length b) \<longrightarrow> rtw_parse_wpa_ie b len want r \<noteq> None)"
  by (rule conjI, (rule impI)+, rule security_elements_roundtrip_parts(1), assumption+,
      rule conjI, (rule impI)+, rule security_elements_roundtrip_parts(2), assumption+,
      rule conjI, (rule impI)+, rule security_elements_roundtrip_parts(3), assumption+,
      (rule impI)+, rule security_elements_roundtrip_parts(4), assumption+)

definition demo_sec_ie :: sec_ie where
  "demo_sec_ie = \<lparr>group_cipher = 0, pairwise_cipher = 0, is_8021x = False\<rparr>"

theorem security_elements_roundtrip_witness:
  "rtw_parse_wpa2_ie (enc_ie (rsn_element [0, 0x0f, 0xac, 2] [[0, 0x0f, 0xac, 4], [0, 0x0f, 0xac, 2]] [0, 0x0f, 0xac, 1]) @ [])
     24 True demo_sec_ie
   = Some (RTW_SUCCESS, \<lparr>group_cipher = WPA_CIPHER_TKIP, pairwise_cipher = 24, is_8021x = True\<rparr>)
   \<and> rtw_parse_wpa2_ie [0x30, 0x7f] 2 True demo_sec_ie \<noteq> None"
proof -
  let ?ps = "[[0, 0x0f, 0xac, 4], [0, 0x0f, 0xac, 2]] :: bytes list"
  have ok: "ie_ok (rsn_element [0, 0x0f, 0xac, 2] ?ps [0, 0x0f, 0xac, 1])"
    by (simp add: ie_ok_def rsn_element_def suites_body_def)
  have l: "int (length (enc_ie (rsn_element [0, 0x0f, 0xac, 2] ?ps [0, 0x0f, 0xac, 1]))) = 24"
    by (simp add: rsn_element_def suites_body_def)
  have v: "rtw_get_wpa2_cipher_suite [0, 0x0f, 0xac, 2] = WPA_CIPHER_TKIP"
    "suites_of rtw_get_wpa2_cipher_suite ?ps 0 = 24" by code_simp+
  from security_elements_roundtrip [THEN conjunct1, THEN mp, THEN mp, THEN mp, THEN mp, THEN mp, OF _ _ _ _ ok, of "[]" True demo_sec_ie, unfolded l v(1)]
    security_elements_roundtrip [THEN conjunct2, THEN conjunct2, THEN conjunct1, of "[0x30, 0x7f]" 2 True demo_sec_ie]
  show ?thesis by (simp add: demo_sec_ie_def v(2))
qed

text \<open>C39. The beacon template that \<^verbatim>\<open>rtw_generate_ie\<close> writes for an ad-hoc network consists of twelve fixed bytes and
  a series of elements, its returned size is their length, and the driver's own parser accepts the series
  and finds the network name, the rates, the channel and the beacon window at their places.\<close>

theorem rtw_generate_ie_parses:
  assumes "length (ies n) = MAX_IE_SZ" "length (ssid n) = 32" "ssid_length n \<le> 32"
  shows "\<exists>sz n' e. rtw_generate_ie short mode n = Some (sz, n')
    \<and> unat sz = 12 + length (enc_ies (beacon_elements mode n))
    \<and> take (unat sz - 12) (drop 12 (ies n')) = enc_ies (beacon_elements mode n)
    \<and> rtw_ieee802_11_parse_elems (drop 12 (ies n')) (unat sz - 12) = Some (ParseOK, e)
    \<and> e E_SSID = Some (2, ssid_length n)
    \<and> (\<forall>i f. (i, f) \<in> set known_elems \<longrightarrow> e f = ie_last i (beacon_elements mode n) 0 None)"
proof -
  from rtw_generate_ie_enc [OF assms, of short mode] obtain sz n' fixed rest where
    g: "rtw_generate_ie short mode n = Some (sz, n')" "length fixed = 12"
      "ies n' = fixed @ enc_ies (beacon_elements mode n) @ rest" "unat sz = 12 + length (enc_ies (beacon_elements mode n))"
    by blast
  let ?es = "beacon_elements mode n"
  have mem: "\<forall>x \<in> set ?es. ie_ok x \<and> fst x \<noteq> 221 \<and> fst x \<in> fst ` set known_elems"
    using assms by (auto simp: beacon_elements_def Let_def ie_ok_def known_elems_def len_simps min_le_iff_disj)
  then have ok: "\<forall>x \<in> set ?es. ie_ok x" by blast
  have d: "drop 12 (ies n') = enc_ies ?es @ rest" "unat sz - 12 = length (enc_ies ?es)" using g by simp_all
  obtain r e where p: "rtw_ieee802_11_parse_elems (enc_ies ?es @ rest) (length (enc_ies ?es)) = Some (r, e)"
    using parse_elems_loop_result [of 0 "length (enc_ies ?es)" "enc_ies ?es @ rest" Map.empty "length (enc_ies ?es)" False]
    by (auto simp: rtw_ieee802_11_parse_elems_def)
  then have r: "r = ParseOK" using parse_elems_loop_known [OF mem, of "[]" rest Map.empty r e] by (simp add: rtw_ieee802_11_parse_elems_def)
  have f: "e f = ie_last i ?es 0 None" if "(i, f) \<in> set known_elems" for i f
    using parse_elems_loop_enc [OF that ok, of "[]" rest False Map.empty r e] p by (simp add: rtw_ieee802_11_parse_elems_def)
  have "(0, E_SSID) \<in> set known_elems" by (simp add: known_elems_def)
  from f [OF this] have "e E_SSID = Some (2, ssid_length n)" using assms(2,3) by (simp add: beacon_elements_def Let_def)
  then show ?thesis using g(1,4) p r f unfolding d by (intro exI [of _ sz] exI [of _ n'] exI [of _ e]) (auto simp: d)
qed

definition demo_network :: dev_network where
  "demo_network = \<lparr>ssid_length = 3, ssid = [0x61, 0x62, 0x63] @ replicate 29 0, net_privacy = True, beacon_period = 100,
     atim_window = 0, ds_config = 6, supported_rates = replicate 16 0, ies = replicate 768 0\<rparr>"

theorem rtw_generate_ie_parses_witness:
  "\<exists>sz n' e. rtw_generate_ie True 31 demo_network = Some (sz, n')
    \<and> rtw_ieee802_11_parse_elems (drop 12 (ies n')) (unat sz - 12) = Some (ParseOK, e) \<and> e E_SSID = Some (2, 3)"
proof -
  have "length (ies demo_network) = MAX_IE_SZ" "length (ssid demo_network) = 32" "ssid_length demo_network \<le> 32"
    "ssid_length demo_network = 3" by (simp_all add: demo_network_def MAX_IE_SZ_def)
  with rtw_generate_ie_parses [of demo_network True 31] show ?thesis by auto
qed

end
