(* ===== verification/Beacon.thy ===== *)
theory Beacon
  imports IeParse
begin

text \<open>
  The beacon of an access point (\<^verbatim>\<open>core/rtw_ap.c\<close>): the traffic indication map, the insertion, removal
  and update of elements in place. The memory is \<^verbatim>\<open>IEs\<close> of the network, twelve fixed bytes and the
  elements; with it goes \<^verbatim>\<open>IELength\<close>. \<open>None\<close> is an access outside the memory or through a pointer
  that was never set. Allocations of the backup copy succeed.
\<close>

section \<open>The memory of the beacon\<close>

type_synonym bcn = "bytes \<times> nat"

definition FIXED_IE_LENGTH :: nat where "FIXED_IE_LENGTH = 12"

text \<open>Replacing the bytes between two positions: the rest behind the second is kept in a backup, the new
  bytes are written at the first and the rest behind them. Its length is unsigned.\<close>

definition splice_ie :: "nat \<Rightarrow> nat \<Rightarrow> bytes \<Rightarrow> bcn \<Rightarrow> bcn option" where
  "splice_ie dst rest new = (\<lambda>(b, ielength).
     (let remainder_ielen = nat ((int ielength - int rest) mod 2 ^ 32) in
      do { backup \<leftarrow> rds b rest remainder_ielen;
           b \<leftarrow> put dst new b;
           b \<leftarrow> put (dst + length new) backup b;
           Some (b, dst + length new + remainder_ielen) }))"

section \<open>The traffic indication map\<close>

text \<open>The element \<^verbatim>\<open>update_BCNTIM\<close> writes: count, period, bitmap control and one or two bytes of the map.\<close>

definition tim_element :: "u16 \<Rightarrow> ie" where
  "tim_element tim =
     (let ctrl = (if tim AND 1 \<noteq> 0 then 1 else 0) in
      if tim AND 0xff00 \<noteq> 0 \<and> tim AND 0x00fc \<noteq> 0
      then (5, [0, 1, ctrl, ucast tim, ucast (drop_bit 8 tim)])
      else (5, [0, 1, ctrl, ucast tim]))"

text \<open>Without an element to replace it goes behind the name, the rates and the three bytes of the channel.\<close>

definition tim_offset :: "bcn \<Rightarrow> nat option" where
  "tim_offset = (\<lambda>(b, ielength).
     do { s \<leftarrow> rtw_get_ie (drop 12 b) 0 (int ielength - 12);
          r \<leftarrow> rtw_get_ie (drop 12 b) 1 (int ielength - 12);
          Some (12 + (case s of None \<Rightarrow> 0 | Some (_, l) \<Rightarrow> l + 2) + (case r of None \<Rightarrow> 0 | Some (_, l) \<Rightarrow> l + 2) + 3) })"

definition update_BCNTIM :: "u16 \<Rightarrow> bcn \<Rightarrow> bcn option" where
  "update_BCNTIM tim = (\<lambda>(b, ielength).
     do { r \<leftarrow> rtw_get_ie (drop 12 b) 5 (int ielength - 12);
          (dst, rest) \<leftarrow> (case r of
              Some (p, l) \<Rightarrow> if l > 0 then Some (12 + p, 12 + p + (l + 2))
                             else do { p \<leftarrow> tim_offset (b, ielength); Some (p, p) }
            | None \<Rightarrow> do { p \<leftarrow> tim_offset (b, ielength); Some (p, p) });
          splice_ie dst rest (enc_ie (tim_element tim)) (b, ielength) })"

section \<open>Insertion and removal\<close>

text \<open>\<^verbatim>\<open>rtw_add_bcn_ie\<close> looks for the element with the number or the last one before the first larger
  number. The result is where that element is and whether its number matched; nothing when there was none,
  and the pointer is then not set.\<close>

function add_bcn_loop :: "bytes \<Rightarrow> nat \<Rightarrow> u8 \<Rightarrow> nat \<Rightarrow> (nat \<times> nat) option \<Rightarrow> ((nat \<times> nat) option \<times> bool) option" where
  "add_bcn_loop b ielength index i prev =
     (if i < ielength
      then do { x \<leftarrow> rd b i;
                if x > index then Some (prev, False)
                else
                  do { l \<leftarrow> rd b (i + 1);
                       if x = index then Some (Some (i, unat l), True)
                       else add_bcn_loop b ielength index (i + (unat l + 2)) (Some (i, unat l)) } }
      else Some (prev, False))"
  by pat_completeness auto
termination by (relation "measure (\<lambda>(b, ielength, index, i, prev). ielength - i)") auto

declare add_bcn_loop.simps [simp del]

definition rtw_add_bcn_ie :: "u8 \<Rightarrow> bytes \<Rightarrow> bcn \<Rightarrow> bcn option" where
  "rtw_add_bcn_ie index data = (\<lambda>(b, ielength).
     do { (r, bmatch) \<leftarrow> add_bcn_loop b ielength index 12 None;
          case r of None \<Rightarrow> None
          | Some (p, l) \<Rightarrow>
              (if l = 0 then None
               else splice_ie (if bmatch then p else p + (l + 2)) (p + (l + 2)) (index # of_nat (length data) # data) (b, ielength)) })"

definition rtw_remove_bcn_ie :: "u8 \<Rightarrow> bcn \<Rightarrow> bcn option" where
  "rtw_remove_bcn_ie index = (\<lambda>(b, ielength).
     do { r \<leftarrow> rtw_get_ie (drop 12 b) (unat index) (int ielength - 12);
          case r of None \<Rightarrow> None
          | Some (p, l) \<Rightarrow> (if l = 0 then None else splice_ie (12 + p) (12 + p + (l + 2)) [] (b, ielength)) })"

section \<open>Updates of single elements\<close>

text \<open>\<^verbatim>\<open>update_bcn_erpinfo_ie\<close>; the second result is the byte that \<^verbatim>\<open>ERP_IE_handler\<close> takes over.\<close>

definition erp_info :: "int \<Rightarrow> int \<Rightarrow> u8 \<Rightarrow> u8" where
  "erp_info num_sta_non_erp num_sta_no_short_preamble d =
     (let d = (if num_sta_non_erp = 1 then d OR 3 else d AND NOT 3)
      in if num_sta_no_short_preamble > 0 then d OR 4 else d AND NOT 4)"

definition update_bcn_erpinfo_ie :: "bool \<Rightarrow> int \<Rightarrow> int \<Rightarrow> bcn \<Rightarrow> (bcn \<times> u8 option) option" where
  "update_bcn_erpinfo_ie erp_enable num_sta_non_erp num_sta_no_short_preamble = (\<lambda>(b, ielength).
     (if \<not> erp_enable then Some ((b, ielength), None)
      else
        do { r \<leftarrow> rtw_get_ie (drop 12 b) 42 (int ielength - 12);
             case r of None \<Rightarrow> Some ((b, ielength), None)
             | Some (p, l) \<Rightarrow>
                 (if l = 0 then Some ((b, ielength), None)
                  else
                    do { d \<leftarrow> rd b (12 + p + 2);
                         let d' = erp_info num_sta_non_erp num_sta_no_short_preamble d;
                         b \<leftarrow> put (12 + p + 2) [d'] b;
                         Some ((b, ielength), if l > 1 then None else Some d') }) }))"

text \<open>\<^verbatim>\<open>update_bcn_wps_ie\<close> replaces the WPS element by the one the user passed, if the result fits.\<close>

definition update_bcn_wps_ie :: "bytes option \<Rightarrow> bcn \<Rightarrow> bcn option" where
  "update_bcn_wps_ie wps_beacon_ie = (\<lambda>(b, ielength).
     do { r \<leftarrow> rtw_get_wps_ie (drop 12 b) (nat ((int ielength - 12) mod 2 ^ 32)) False;
          case r of None \<Rightarrow> Some (b, ielength)
          | Some (p, l, _) \<Rightarrow>
              (case wps_beacon_ie of None \<Rightarrow> Some (b, ielength)
               | Some src \<Rightarrow>
                   do { n \<leftarrow> rd src 1;
                        if 12 + p + (unat n + 2) + nat ((int ielength - int (12 + p + l)) mod 2 ^ 32) \<le> MAX_IE_SZ
                        then do { new \<leftarrow> rds src 0 (unat n + 2); splice_ie (12 + p) (12 + p + l) new (b, ielength) }
                        else Some (b, ielength) }) })"

text \<open>The part of \<^verbatim>\<open>update_beacon\<close> that changes the memory: the map, the ERP and the WPS element; the other
  handlers are empty.\<close>

record ap_bcn =
  bcn :: bcn
  bstart_bss :: bool
  erp_enable :: bool
  erp_ie :: u8
  wps_beacon_ie :: "bytes option"
  update_bcn :: bool

definition update_beacon :: "u8 \<Rightarrow> bytes \<Rightarrow> u16 \<Rightarrow> int \<Rightarrow> int \<Rightarrow> ap_bcn \<Rightarrow> ap_bcn option" where
  "update_beacon ie_id oui tim non_erp no_short_preamble s =
     (if \<not> bstart_bss s then Some s
      else
        do { s \<leftarrow> (if ie_id = 5 then do { x \<leftarrow> update_BCNTIM tim (bcn s); Some (s\<lparr>bcn := x\<rparr>) }
                   else if ie_id = 42 then
                     do { (x, d) \<leftarrow> update_bcn_erpinfo_ie (erp_enable s) non_erp no_short_preamble (bcn s);
                          Some (s\<lparr>bcn := x, erp_ie := (case d of None \<Rightarrow> erp_ie s | Some d \<Rightarrow> d)\<rparr>) }
                   else if ie_id = 221 \<and> take 4 oui = WPS_OUI then
                     do { x \<leftarrow> update_bcn_wps_ie (wps_beacon_ie s) (bcn s); Some (s\<lparr>bcn := x\<rparr>) }
                   else Some s);
             Some (s\<lparr>update_bcn := True\<rparr>) })"

section \<open>Replacing within a series\<close>

lemma put_at: "put (length pre) xs (pre @ mid @ post) = Some (pre @ xs @ post)" if "length xs = length mid" for pre
  using that by (simp add: put_def buf_put_def)

lemma splice_ie_enc:
  assumes "b = pre @ old @ rest @ post" "n = length (pre @ old @ rest)" "length new \<le> length old + length post"
    "n < 2 ^ 32" "d = length pre" "r = length (pre @ old)"
  shows "\<exists>junk. splice_ie d r new (b, n) = Some (pre @ new @ rest @ junk, length pre + length new + length rest)
    \<and> length junk = length old + length post - length new"
proof -
  have rem: "nat ((int n - int r) mod 2 ^ 32) = length rest" using assms by simp
  have bk: "rds b r (length rest) = Some rest" using rds_enc [of b "pre @ old" rest post] assms by simp
  have p1: "put d new b = Some (buf_put d new b)" using assms by (simp add: put_def)
  have len: "length b = length pre + length old + length rest + length post" using assms(1) by simp
  have "buf_put (d + length new) rest (buf_put d new b) = buf_put d (new @ rest) b"
    using assms(3,5) len by (intro buf_put_append) simp
  moreover have "buf_put d (new @ rest) b = pre @ new @ rest @ drop (d + length (new @ rest)) b"
    using assms(1,5) by (simp add: buf_put_def)
  moreover have "put (d + length new) rest (buf_put d new b) = Some (buf_put (d + length new) rest (buf_put d new b))"
    using assms(3,5) len by (simp add: put_def len_simps)
  ultimately have "splice_ie d r new (b, n)
    = Some (pre @ new @ rest @ drop (d + length (new @ rest)) b, length pre + length new + length rest)"
    using rem bk p1 assms(5) by (simp add: splice_ie_def Let_def)
  then show ?thesis using len assms(5) by (intro exI [of _ "drop (d + length (new @ rest)) b"]) simp
qed

text \<open>\<^verbatim>\<open>rtw_get_ie\<close> on the elements behind the fixed fields.\<close>

lemma get_ie_bcn:
  assumes "length fx = 12" "\<forall>e \<in> set es. ie_ok e"
  shows "rtw_get_ie (drop 12 (fx @ enc_ies es @ post)) i (int (12 + length (enc_ies es)) - 12)
    = Some (ie_pos (\<lambda>e. unat (fst e) = i) es 0)"
proof (cases "es = []")
  case False
  then show ?thesis using get_ie_loop_enc [OF False assms(2), of "[]" post i] enc_ies_pos [OF False] assms(1)
    by (simp add: rtw_get_ie_def)
qed (simp add: rtw_get_ie_def)

lemma ie_pos_skip: "\<forall>x \<in> set xs. \<not> P x \<Longrightarrow> P e \<Longrightarrow> ie_pos P (xs @ e # ys) i = Some (i + length (enc_ies xs), length (snd e))"
  by (induction xs arbitrary: i) (auto simp: add_ac)

text \<open>What a station reads in the map (IEEE 802.11): the control byte holds half the number of bytes left out
  at the beginning, here none, and bit \<open>aid\<close> of the bytes behind it stands for station \<open>aid\<close>.\<close>

definition tim_announces :: "bytes \<Rightarrow> nat \<Rightarrow> bool" where
  "tim_announces body aid \<longleftrightarrow> 3 + aid div 8 < length body \<and> bit (body ! (3 + aid div 8)) (aid mod 8)"

lemma high_bits: "bit tim aid \<Longrightarrow> 8 \<le> aid \<Longrightarrow> tim AND 0xff00 \<noteq> (0 :: u16)"
proof -
  assume a: "bit tim aid" "8 \<le> aid"
  then have "aid < 16" using bit_imp_le_length [of tim aid] by simp
  with a(2) have "aid = 8 \<or> aid = 9 \<or> aid = 10 \<or> aid = 11 \<or> aid = 12 \<or> aid = 13 \<or> aid = 14 \<or> aid = 15" by linarith
  then have "bit (tim AND 0xff00) aid" using a(1) by (auto simp: bit_simps)
  then show ?thesis by auto
qed

lemma tim_announces_iff:
  assumes "0 < aid" "aid < 16"
  shows "tim_announces (snd (tim_element tim)) aid \<longleftrightarrow> bit tim aid \<and> (aid < 8 \<or> tim AND 0x00fc \<noteq> 0)"
proof (cases "aid < 8")
  case True
  then show ?thesis by (auto simp: tim_announces_def tim_element_def Let_def bit_simps)
next
  case False
  then have "aid div 8 = 1" "aid mod 8 = aid - 8" "aid - 8 < 8" "8 + (aid - 8) = aid" using assms(2) by (auto simp: le_mod_geq)
  then show ?thesis using False high_bits [of tim aid]
    by (auto simp: tim_announces_def tim_element_def Let_def bit_simps)
qed

lemma length_tim_element: "length (snd (tim_element tim)) \<in> {4, 5}" "fst (tim_element tim) = 5"
  by (simp_all add: tim_element_def Let_def)

lemma unat_eq_5: "unat (x :: u8) = 5 \<longleftrightarrow> x = 5"
  by (simp add: word_unat_eq_iff)

lemma update_BCNTIM_replace:
  assumes "length fx = 12" "\<forall>e \<in> set (xs @ (5, t) # ys). ie_ok e" "\<forall>x \<in> set xs. fst x \<noteq> 5" "t \<noteq> []"
    "7 \<le> length post" "length (enc_ies (xs @ (5, t) # ys)) < 2 ^ 16"
  shows "\<exists>junk. update_BCNTIM tim (fx @ enc_ies (xs @ (5, t) # ys) @ post, 12 + length (enc_ies (xs @ (5, t) # ys)))
    = Some (fx @ enc_ies (xs @ tim_element tim # ys) @ junk, 12 + length (enc_ies (xs @ tim_element tim # ys)))"
proof -
  let ?b = "fx @ enc_ies (xs @ (5, t) # ys) @ post" and ?n = "12 + length (enc_ies (xs @ (5, t) # ys))"
  have "ie_pos (\<lambda>e. unat (fst e) = 5) (xs @ (5, t) # ys) 0 = Some (length (enc_ies xs), length t)"
    using ie_pos_skip [of xs "\<lambda>e. unat (fst e) = 5" "(5, t)" ys 0] assms(3) by (auto simp: unat_eq_5)
  with get_ie_bcn [OF assms(1,2), of post 5]
  have g: "rtw_get_ie (drop 12 ?b) 5 (int ?n - 12) = Some (Some (length (enc_ies xs), length t))" by simp
  have "\<exists>junk. splice_ie (12 + length (enc_ies xs)) (12 + length (enc_ies xs) + (length t + 2)) (enc_ie (tim_element tim)) (?b, ?n)
      = Some ((fx @ enc_ies xs) @ enc_ie (tim_element tim) @ enc_ies ys @ junk,
          length (fx @ enc_ies xs) + length (enc_ie (tim_element tim)) + length (enc_ies ys))
    \<and> length junk = length (enc_ie (5, t)) + length post - length (enc_ie (tim_element tim))"
    using length_tim_element [of tim] assms(1,5,6) by (intro splice_ie_enc) (auto simp: enc_ie_def)
  then show ?thesis using g assms(1,4) by (auto simp: update_BCNTIM_def add_ac)
qed

lemma update_BCNTIM_insert:
  assumes "length fx = 12" "\<forall>e \<in> set ((0, sid) # (1, rates) # (3, [ch]) # ys). ie_ok e" "\<forall>x \<in> set ys. fst x \<noteq> 5"
    "7 \<le> length post" "length (enc_ies ((0, sid) # (1, rates) # (3, [ch]) # ys)) < 2 ^ 16"
  shows "\<exists>junk. update_BCNTIM tim (fx @ enc_ies ((0, sid) # (1, rates) # (3, [ch]) # ys) @ post,
      12 + length (enc_ies ((0, sid) # (1, rates) # (3, [ch]) # ys)))
    = Some (fx @ enc_ies ((0, sid) # (1, rates) # (3, [ch]) # tim_element tim # ys) @ junk,
        12 + length (enc_ies ((0, sid) # (1, rates) # (3, [ch]) # tim_element tim # ys)))"
proof -
  let ?es = "(0, sid) # (1, rates) # (3, [ch]) # ys"
  let ?b = "fx @ enc_ies ?es @ post" and ?n = "12 + length (enc_ies ?es)"
  note g = get_ie_bcn [OF assms(1,2), of post]
  have g5: "rtw_get_ie (drop 12 ?b) 5 (int ?n - 12) = Some None"
    using g [of 5] assms(3) by (simp add: ie_pos_None unat_eq_5)
  have g0: "rtw_get_ie (drop 12 ?b) 0 (int ?n - 12) = Some (Some (0, length sid))" using g [of 0] by simp
  have g1: "rtw_get_ie (drop 12 ?b) 1 (int ?n - 12) = Some (Some (length sid + 2, length rates))" using g [of 1] by simp
  define d where "d = 12 + (length sid + 2) + (length rates + 2) + 3"
  have o: "tim_offset (?b, ?n) = Some d" using g0 g1 by (simp add: tim_offset_def d_def del: One_nat_def)
  have "\<exists>junk. splice_ie d d (enc_ie (tim_element tim)) (?b, ?n)
      = Some ((fx @ enc_ies [(0, sid), (1, rates), (3, [ch])]) @ enc_ie (tim_element tim) @ enc_ies ys @ junk,
          length (fx @ enc_ies [(0, sid), (1, rates), (3, [ch])]) + length (enc_ie (tim_element tim)) + length (enc_ies ys))
    \<and> length junk = length ([] :: bytes) + length post - length (enc_ie (tim_element tim))"
    using length_tim_element [of tim] assms(1,4,5) by (intro splice_ie_enc) (auto simp: d_def)
  then show ?thesis using g5 o assms(1) by (auto simp: update_BCNTIM_def add_ac)
qed

text \<open>Insertion into a series whose numbers grow.\<close>

lemma add_bcn_loop_below:
  assumes "\<forall>x \<in> set xs. ie_ok x \<and> fst x < index"
  shows "add_bcn_loop (pre @ enc_ies xs @ post) n index (length pre) prev
      = (if length pre + length (enc_ies xs) \<le> n then
           add_bcn_loop (pre @ enc_ies xs @ post) n index (length pre + length (enc_ies xs))
             (if xs = [] then prev else Some (length pre + length (enc_ies (butlast xs)), length (snd (last xs))))
         else add_bcn_loop (pre @ enc_ies xs @ post) n index (length pre) prev)"
  using assms
proof (induction xs arbitrary: pre prev)
  case (Cons x xs)
  let ?b = "pre @ enc_ies (x # xs) @ post"
  have b: "?b = pre @ enc_ie x @ enc_ies xs @ post" "?b = (pre @ enc_ie x) @ enc_ies xs @ post" by simp_all
  note r = rd_enc [OF b(1)] and u = unat_len [of x]
  show ?case
  proof (cases "length pre + length (enc_ies (x # xs)) \<le> n")
    case True
    have "add_bcn_loop ?b n index (length pre) prev
      = add_bcn_loop ?b n index (length (pre @ enc_ie x)) (Some (length pre, length (snd x)))"
      using r u Cons.prems True by (subst add_bcn_loop.simps) auto
    also have "\<dots> = add_bcn_loop ?b n index (length (pre @ enc_ie x) + length (enc_ies xs))
        (if xs = [] then Some (length pre, length (snd x))
         else Some (length (pre @ enc_ie x) + length (enc_ies (butlast xs)), length (snd (last xs))))"
      unfolding b(2) using Cons.IH [of "pre @ enc_ie x"] Cons.prems True by simp
    finally show ?thesis using True by (simp add: add.assoc)
  qed simp
qed simp

lemma add_bcn_insert:
  assumes "length fx = 12" "\<forall>x \<in> set xs. ie_ok x \<and> fst x < index" "xs \<noteq> []" "snd (last xs) \<noteq> []"
    "\<forall>y \<in> set ys. ie_ok y \<and> index < fst y" "length data \<le> 255" "length data + 2 \<le> length post"
    "length (enc_ies (xs @ ys)) < 2 ^ 16"
  shows "\<exists>junk. rtw_add_bcn_ie index data (fx @ enc_ies (xs @ ys) @ post, 12 + length (enc_ies (xs @ ys)))
    = Some (fx @ enc_ies (xs @ (index, data) # ys) @ junk, 12 + length (enc_ies (xs @ (index, data) # ys)))"
proof -
  let ?b = "fx @ enc_ies (xs @ ys) @ post" and ?n = "12 + length (enc_ies (xs @ ys))"
  let ?p = "12 + length (enc_ies (butlast xs))" and ?l = "length (snd (last xs))"
  have xs: "xs = butlast xs @ [last xs]" using assms(3) by simp
  have len: "length (enc_ies xs) = length (enc_ies (butlast xs)) + (?l + 2)"
    by (subst xs) (simp only: enc_ies_append length_append, simp)
  have "add_bcn_loop (fx @ enc_ies xs @ enc_ies ys @ post) ?n index (length fx) None
    = add_bcn_loop (fx @ enc_ies xs @ enc_ies ys @ post) ?n index (length fx + length (enc_ies xs)) (Some (?p, ?l))"
    using add_bcn_loop_below [OF assms(2), of fx "enc_ies ys @ post" ?n None] assms(1,3) by simp
  also have "\<dots> = Some (Some (?p, ?l), False)"
  proof (cases ys)
    case (Cons y ys')
    have b: "fx @ enc_ies xs @ enc_ies ys @ post = (fx @ enc_ies xs) @ enc_ie y @ enc_ies ys' @ post" using Cons by simp
    show ?thesis using rd_enc(1) [OF b] assms(1,5) Cons by (subst add_bcn_loop.simps) (simp add: add_ac)
  qed (use assms(1) in \<open>subst add_bcn_loop.simps, simp\<close>)
  finally have loop: "add_bcn_loop ?b ?n index 12 None = Some (Some (?p, ?l), False)" using assms(1) by simp
  have pos: "?p + (?l + 2) = length (fx @ enc_ies xs)" using assms(1) len by simp
  have "\<exists>junk. splice_ie (?p + (?l + 2)) (?p + (?l + 2)) (enc_ie (index, data)) (?b, ?n)
      = Some ((fx @ enc_ies xs) @ enc_ie (index, data) @ enc_ies ys @ junk,
          length (fx @ enc_ies xs) + length (enc_ie (index, data)) + length (enc_ies ys))
    \<and> length junk = length ([] :: bytes) + length post - length (enc_ie (index, data))"
    unfolding pos using assms(1,7,8) by (intro splice_ie_enc) auto
  moreover have "rtw_add_bcn_ie index data (?b, ?n)
    = splice_ie (?p + (?l + 2)) (?p + (?l + 2)) (enc_ie (index, data)) (?b, ?n)"
    using loop assms(4) by (simp add: rtw_add_bcn_ie_def enc_ie_def)
  ultimately show ?thesis using assms(1) by (auto simp: add_ac)
qed

lemma remove_bcn_found:
  assumes "length fx = 12" "\<forall>e \<in> set (xs @ (index, data) # ys). ie_ok e" "\<forall>x \<in> set xs. fst x \<noteq> index" "data \<noteq> []"
    "length (enc_ies (xs @ (index, data) # ys)) < 2 ^ 16"
  shows "\<exists>junk. rtw_remove_bcn_ie index (fx @ enc_ies (xs @ (index, data) # ys) @ post, 12 + length (enc_ies (xs @ (index, data) # ys)))
    = Some (fx @ enc_ies (xs @ ys) @ junk, 12 + length (enc_ies (xs @ ys)))"
proof -
  let ?es = "xs @ (index, data) # ys"
  let ?b = "fx @ enc_ies ?es @ post" and ?n = "12 + length (enc_ies ?es)"
  have "ie_pos (\<lambda>e. unat (fst e) = unat index) ?es 0 = Some (length (enc_ies xs), length data)"
    using ie_pos_skip [of xs "\<lambda>e. unat (fst e) = unat index" "(index, data)" ys 0] assms(3) by (auto simp: word_unat_eq_iff [symmetric])
  with get_ie_bcn [OF assms(1,2), of post "unat index"]
  have g: "rtw_get_ie (drop 12 ?b) (unat index) (int ?n - 12) = Some (Some (length (enc_ies xs), length data))" by simp
  have "\<exists>junk. splice_ie (12 + length (enc_ies xs)) (12 + length (enc_ies xs) + (length data + 2)) [] (?b, ?n)
      = Some ((fx @ enc_ies xs) @ [] @ enc_ies ys @ junk, length (fx @ enc_ies xs) + length ([] :: bytes) + length (enc_ies ys))
    \<and> length junk = length (enc_ie (index, data)) + length post - length ([] :: bytes)"
    using assms(1,5) by (intro splice_ie_enc) auto
  then show ?thesis using g assms(1,4) by (auto simp: rtw_remove_bcn_ie_def add_ac)
qed

section \<open>Properties\<close>

lemma update_BCNTIM_correct_parts:
  shows "length fx = 12 \<Longrightarrow> \<forall>e \<in> set (xs @ (5, t) # ys). ie_ok e \<Longrightarrow> \<forall>x \<in> set xs. fst x \<noteq> 5 \<Longrightarrow> t \<noteq> [] \<Longrightarrow>
      7 \<le> length post \<Longrightarrow> length (enc_ies (xs @ (5, t) # ys)) < 2 ^ 16 \<Longrightarrow>
      \<exists>junk. update_BCNTIM tim (fx @ enc_ies (xs @ (5, t) # ys) @ post, 12 + length (enc_ies (xs @ (5, t) # ys)))
        = Some (fx @ enc_ies (xs @ tim_element tim # ys) @ junk, 12 + length (enc_ies (xs @ tim_element tim # ys)))"
    and "length fx = 12 \<Longrightarrow> \<forall>e \<in> set ((0, sid) # (1, rates) # (3, [ch]) # ys). ie_ok e \<Longrightarrow> \<forall>x \<in> set ys. fst x \<noteq> 5 \<Longrightarrow>
      7 \<le> length post \<Longrightarrow> length (enc_ies ((0, sid) # (1, rates) # (3, [ch]) # ys)) < 2 ^ 16 \<Longrightarrow>
      \<exists>junk. update_BCNTIM tim (fx @ enc_ies ((0, sid) # (1, rates) # (3, [ch]) # ys) @ post,
          12 + length (enc_ies ((0, sid) # (1, rates) # (3, [ch]) # ys)))
        = Some (fx @ enc_ies ((0, sid) # (1, rates) # (3, [ch]) # tim_element tim # ys) @ junk,
            12 + length (enc_ies ((0, sid) # (1, rates) # (3, [ch]) # tim_element tim # ys)))"
    and "0 < aid \<Longrightarrow> aid < 16 \<Longrightarrow>
      tim_announces (snd (tim_element tim)) aid \<longleftrightarrow> bit tim aid \<and> (aid < 8 \<or> tim AND 0x00fc \<noteq> 0)"
  by (rule update_BCNTIM_replace update_BCNTIM_insert tim_announces_iff; assumption)+

text \<open>C38. \<^verbatim>\<open>update_BCNTIM\<close> keeps the beacon a series of elements: it replaces the traffic indication map in
  place, or inserts it behind name, rates and channel, and changes nothing else. The new map announces
  buffered frames for a station with association identifier up to 7 exactly when its bit is set; for 8 to 15
  it does so only if besides the bit of one of the stations 2 to 7 is set.\<close>

theorem update_BCNTIM_correct:
  "(length fx = 12 \<longrightarrow> (\<forall>e \<in> set (xs @ (5, t) # ys). ie_ok e) \<longrightarrow> (\<forall>x \<in> set xs. fst x \<noteq> 5) \<longrightarrow> t \<noteq> [] \<longrightarrow> 7 \<le> length post \<longrightarrow> length (enc_ies (xs @ (5, t) # ys)) < 2 ^ 16 \<longrightarrow> (\<exists>junk. update_BCNTIM tim (fx @ enc_ies (xs @ (5, t) # ys) @ post, 12 + length (enc_ies (xs @ (5, t) # ys)))
        = Some (fx @ enc_ies (xs @ tim_element tim # ys) @ junk, 12 + length (enc_ies (xs @ tim_element tim # ys)))))
   \<and> (length fx = 12 \<longrightarrow> (\<forall>e \<in> set ((0, sid) # (1, rates) # (3, [ch]) # ys). ie_ok e) \<longrightarrow> (\<forall>x \<in> set ys. fst x \<noteq> 5) \<longrightarrow> 7 \<le> length post \<longrightarrow> length (enc_ies ((0, sid) # (1, rates) # (3, [ch]) # ys)) < 2 ^ 16 \<longrightarrow> (\<exists>junk. update_BCNTIM tim (fx @ enc_ies ((0, sid) # (1, rates) # (3, [ch]) # ys) @ post,
          12 + length (enc_ies ((0, sid) # (1, rates) # (3, [ch]) # ys)))
        = Some (fx @ enc_ies ((0, sid) # (1, rates) # (3, [ch]) # tim_element tim # ys) @ junk,
            12 + length (enc_ies ((0, sid) # (1, rates) # (3, [ch]) # tim_element tim # ys)))))
   \<and> (0 < aid \<longrightarrow> aid < 16 \<longrightarrow> tim_announces (snd (tim_element tim)) aid \<longleftrightarrow> bit tim aid \<and> (aid < 8 \<or> tim AND 0x00fc \<noteq> 0))"
  by (rule conjI, (rule impI)+, rule update_BCNTIM_correct_parts(1), assumption+,
      rule conjI, (rule impI)+, rule update_BCNTIM_correct_parts(2), assumption+,
      (rule impI)+, rule update_BCNTIM_correct_parts(3), assumption+)

theorem update_BCNTIM_correct_witness:
  "(\<exists>junk. update_BCNTIM 0x0100 (replicate 12 0 @ enc_ies [(0, [0x61]), (1, [0x82]), (3, [6])] @ replicate 9 0, 21)
     = Some (replicate 12 0 @ enc_ies [(0, [0x61]), (1, [0x82]), (3, [6]), (5, [0, 1, 0, 0])] @ junk, 27))
   \<and> \<not> tim_announces (snd (tim_element 0x0100)) 8 \<and> tim_announces (snd (tim_element 0x0104)) 8"
proof -
  have t: "tim_element 0x0100 = (5, [0, 1, 0, 0])" by code_simp
  have "\<not> tim_announces (snd (tim_element 0x0100)) 8" "tim_announces (snd (tim_element 0x0104)) 8"
    using update_BCNTIM_correct [THEN conjunct2, THEN conjunct2, of 8 "0x0100"]
      update_BCNTIM_correct [THEN conjunct2, THEN conjunct2, of 8 "0x0104"] by simp_all
  with update_BCNTIM_correct [THEN conjunct2, THEN conjunct1, of "replicate 12 0" "[0x61]" "[0x82]" 6 "[]" "replicate 9 0" "0x0100"]
  show ?thesis unfolding t by (simp add: ie_ok_def)
qed

text \<open>In a series of elements with growing numbers \<^verbatim>\<open>rtw_add_bcn_ie\<close> inserts a new element at its place and
  \<^verbatim>\<open>rtw_remove_bcn_ie\<close> takes it out again, leaving the series it was. The element before the place must
  not be empty.\<close>

theorem add_remove_bcn_ie:
  assumes "length fx = 12" "\<forall>x \<in> set xs. ie_ok x \<and> fst x < index" "xs \<noteq> []" "snd (last xs) \<noteq> []"
    "\<forall>y \<in> set ys. ie_ok y \<and> index < fst y" "data \<noteq> []" "length data \<le> 255" "length data + 2 \<le> length post"
    "length (enc_ies (xs @ ys)) + 257 < 2 ^ 16"
  shows "\<exists>s junk. rtw_add_bcn_ie index data (fx @ enc_ies (xs @ ys) @ post, 12 + length (enc_ies (xs @ ys))) = Some s
    \<and> (\<exists>j. s = (fx @ enc_ies (xs @ (index, data) # ys) @ j, 12 + length (enc_ies (xs @ (index, data) # ys))))
    \<and> rtw_remove_bcn_ie index s = Some (fx @ enc_ies (xs @ ys) @ junk, 12 + length (enc_ies (xs @ ys)))"
proof -
  have "length (enc_ies (xs @ ys)) < 2 ^ 16" using assms(9) by simp
  from add_bcn_insert [OF assms(1-5,7,8) this] obtain j where
    a: "rtw_add_bcn_ie index data (fx @ enc_ies (xs @ ys) @ post, 12 + length (enc_ies (xs @ ys)))
      = Some (fx @ enc_ies (xs @ (index, data) # ys) @ j, 12 + length (enc_ies (xs @ (index, data) # ys)))" by blast
  have "\<forall>e \<in> set (xs @ (index, data) # ys). ie_ok e" "\<forall>x \<in> set xs. fst x \<noteq> index"
    "length (enc_ies (xs @ (index, data) # ys)) < 2 ^ 16"
    using assms(2,5,7,9) by (auto simp: ie_ok_def)
  from remove_bcn_found [OF assms(1) this(1,2) assms(6) this(3), of j] a show ?thesis by blast
qed

theorem add_remove_bcn_ie_witness:
  "\<exists>s junk. rtw_add_bcn_ie 42 [4] (replicate 12 0 @ enc_ies ([(0, [0x61]), (1, [0x82])] @ [(50, [0x6c])]) @ replicate 9 0, 21) = Some s
    \<and> (\<exists>j. s = (replicate 12 0 @ enc_ies ([(0, [0x61]), (1, [0x82])] @ [(42, [4]), (50, [0x6c])]) @ j, 24))
    \<and> rtw_remove_bcn_ie 42 s = Some (replicate 12 0 @ enc_ies ([(0, [0x61]), (1, [0x82])] @ [(50, [0x6c])]) @ junk, 21)"
proof -
  have "length (enc_ies ([(0, [0x61]), (1, [0x82])] @ [(50, [0x6c])])) = 9"
    "length (enc_ies ([(0, [0x61]), (1, [0x82])] @ (42, [4]) # [(50, [0x6c])])) = 12" by simp_all
  with add_remove_bcn_ie [of "replicate 12 0" "[(0, [0x61]), (1, [0x82])]" 42 "[(50, [0x6c])]" "[4]" "replicate 9 0"]
  show ?thesis by (simp add: ie_ok_def del: enc_ies_Cons enc_ies_append)
qed

end
