(* ===== verification/ApCap.thy ===== *)
theory ApCap
  imports Beacon Sta
begin

text \<open>
  What an access point counts of its stations (\<^verbatim>\<open>core/rtw_ap.c\<close>): stations without short preamble,
  without ERP, without short slot time, without HT, without greenfield and with 20 MHz only; the HT operation
  mode, the protection of the basic service set in the beacon and the virtual carrier sense of each station
  (\<^verbatim>\<open>VCS_update\<close> of \<^verbatim>\<open>core/rtw_wlan_util.c\<close>). The result is \<open>None\<close> where an update of the beacon
  leaves its memory.
\<close>

section \<open>State\<close>

definition WLAN_STA_SHORT_PREAMBLE :: u32 where "WLAN_STA_SHORT_PREAMBLE = push_bit 7 1"
definition WLAN_STA_WME :: u32 where "WLAN_STA_WME = push_bit 9 1"
definition WLAN_STA_HT :: u32 where "WLAN_STA_HT = push_bit 11 1"
definition WLAN_STA_NONERP :: u32 where "WLAN_STA_NONERP = push_bit 31 1"

text \<open>The constants of the kernel's \<^verbatim>\<open>linux/ieee80211.h\<close>.\<close>

definition WLAN_CAPABILITY_SHORT_SLOT_TIME :: u16 where "WLAN_CAPABILITY_SHORT_SLOT_TIME = push_bit 10 1"
definition IEEE80211_HT_CAP_SUP_WIDTH_20_40 :: u16 where "IEEE80211_HT_CAP_SUP_WIDTH_20_40 = 0x0002"
definition IEEE80211_HT_CAP_GRN_FLD :: u16 where "IEEE80211_HT_CAP_GRN_FLD = 0x0010"

definition OP_MODE_PURE :: u16 where "OP_MODE_PURE = 0"
definition OP_MODE_MAY_BE_LEGACY_STAS :: u16 where "OP_MODE_MAY_BE_LEGACY_STAS = 1"
definition OP_MODE_20MHZ_HT_STA_ASSOCED :: u16 where "OP_MODE_20MHZ_HT_STA_ASSOCED = 2"
definition OP_MODE_MIXED :: u16 where "OP_MODE_MIXED = 3"
definition HT_INFO_OPERATION_MODE_OP_MODE_MASK :: u16 where "HT_INFO_OPERATION_MODE_OP_MODE_MASK = 3"
definition HT_INFO_OPERATION_MODE_NON_GF_DEVS_PRESENT :: u16 where "HT_INFO_OPERATION_MODE_NON_GF_DEVS_PRESENT = push_bit 2 1"
definition HT_INFO_OPERATION_MODE_NON_HT_STA_PRESENT :: u16 where "HT_INFO_OPERATION_MODE_NON_HT_STA_PRESENT = push_bit 4 1"

text \<open>The fields of \<^verbatim>\<open>struct sta_info\<close> that describe what a station can do.\<close>

record cap_sta =
  flags :: u32
  capability :: u16
  ht_cap_info :: u16
  no_short_preamble_set :: bool
  nonerp_set :: bool
  no_short_slot_time_set :: bool
  no_ht_set :: bool
  no_ht_gf_set :: bool
  ht_20mhz_set :: bool
  rtsen :: bool
  cts2self :: bool

text \<open>The fields of \<^verbatim>\<open>struct mlme_priv\<close>, \<^verbatim>\<open>mlme_ext_priv\<close> and \<^verbatim>\<open>registry_priv\<close>, with the beacon.\<close>

record ap_caps =
  num_sta_no_short_preamble :: int
  num_sta_non_erp :: int
  num_sta_no_short_slot_time :: int
  num_sta_no_ht :: int
  num_sta_ht_no_gf :: int
  num_sta_ht_20mhz :: int
  olbc_ht :: bool
  ht_op_mode :: u16
  ap_ht_option :: bool
  ap_ht_cap_info :: u16
  cur_wireless_mode :: nat
  vrtl_carrier_sense :: nat
  vcs_type :: nat
  apb :: ap_bcn

definition init_cap_sta :: cap_sta where
  "init_cap_sta = \<lparr>flags = 0, capability = 0, ht_cap_info = 0, no_short_preamble_set = False, nonerp_set = False,
     no_short_slot_time_set = False, no_ht_set = False, no_ht_gf_set = False, ht_20mhz_set = False,
     rtsen = False, cts2self = False\<rparr>"

section \<open>Operations\<close>

text \<open>\<^verbatim>\<open>update_beacon\<close> for the elements that the changes of capabilities concern; none of them is the
  traffic indication map or a vendor element.\<close>

definition ap_update_beacon :: "u8 \<Rightarrow> ap_caps \<Rightarrow> ap_caps option" where
  "ap_update_beacon ie_id c =
     map_option (\<lambda>b. c\<lparr>apb := b\<rparr>)
       (update_beacon ie_id [] 0 (num_sta_non_erp c) (num_sta_no_short_preamble c) (apb c))"

text \<open>\<^verbatim>\<open>rtw_ht_operation_update\<close> returns how many parts of the mode it changed.\<close>

definition ht_mode_flag :: "u16 \<Rightarrow> bool \<Rightarrow> u16 \<times> nat \<Rightarrow> u16 \<times> nat" where
  "ht_mode_flag f present = (\<lambda>(m, n).
     (if m AND f = 0 \<and> present then (m OR f, n + 1)
      else if m AND f \<noteq> 0 \<and> \<not> present then (m AND NOT f, n + 1) else (m, n)))"

definition rtw_ht_operation_update :: "ap_caps \<Rightarrow> nat \<times> ap_caps" where
  "rtw_ht_operation_update c =
     (if ap_ht_option c then (0, c)
      else
        (let (m, n) = ht_mode_flag HT_INFO_OPERATION_MODE_NON_GF_DEVS_PRESENT (num_sta_ht_no_gf c \<noteq> 0) (ht_op_mode c, 0);
             (m, n) = ht_mode_flag HT_INFO_OPERATION_MODE_NON_HT_STA_PRESENT (num_sta_no_ht c \<noteq> 0 \<or> olbc_ht c) (m, n);
             new_op_mode =
               (if num_sta_no_ht c \<noteq> 0 \<or> m AND HT_INFO_OPERATION_MODE_NON_GF_DEVS_PRESENT \<noteq> 0 then OP_MODE_MIXED
                else if ap_ht_cap_info c AND IEEE80211_HT_CAP_SUP_WIDTH_20_40 \<noteq> 0 \<and> num_sta_ht_20mhz c \<noteq> 0
                then OP_MODE_20MHZ_HT_STA_ASSOCED
                else if olbc_ht c then OP_MODE_MAY_BE_LEGACY_STAS else OP_MODE_PURE);
             (m, n) = (if m AND HT_INFO_OPERATION_MODE_OP_MODE_MASK \<noteq> new_op_mode
                       then (m AND NOT HT_INFO_OPERATION_MODE_OP_MODE_MASK OR new_op_mode, n + 1) else (m, n))
         in (n, c\<lparr>ht_op_mode := m\<rparr>)))"

definition ht_update_beacon :: "ap_caps \<Rightarrow> ap_caps option" where
  "ht_update_beacon c =
     (case rtw_ht_operation_update c of
        (n, c) \<Rightarrow> if n > 0 then do { c \<leftarrow> ap_update_beacon 45 c; ap_update_beacon 61 c } else Some c)"

text \<open>\<^verbatim>\<open>VCS_update\<close>.\<close>

definition VCS_update :: "ap_caps \<Rightarrow> 'a cap_sta_scheme \<Rightarrow> 'a cap_sta_scheme" where
  "VCS_update c s =
     (if vrtl_carrier_sense c = 0 then s\<lparr>rtsen := False, cts2self := False\<rparr>
      else if vrtl_carrier_sense c = 1 then
        (if vcs_type c = 1 then s\<lparr>rtsen := True, cts2self := False\<rparr> else s\<lparr>rtsen := False, cts2self := True\<rparr>)
      else if erp_enable (apb c) \<and> erp_ie (apb c) AND 2 \<noteq> 0 then
        (if vcs_type c = 1 then s\<lparr>rtsen := True, cts2self := False\<rparr> else s\<lparr>rtsen := False, cts2self := True\<rparr>)
      else s\<lparr>rtsen := False, cts2self := False\<rparr>)"

definition associated_clients_update :: "ap_caps \<Rightarrow> bool \<Rightarrow> nat list \<Rightarrow> 'a cap_sta_scheme list \<Rightarrow> 'a cap_sta_scheme list" where
  "associated_clients_update c updated asoc stas =
     (if updated then fold (\<lambda>p stas. stas[p := VCS_update c (stas ! p)]) asoc stas else stas)"

text \<open>The parts of \<^verbatim>\<open>bss_cap_update_on_sta_join\<close>; the flag is \<^verbatim>\<open>beacon_updated\<close>.\<close>

definition preamble_join :: "ap_caps \<times> 'a cap_sta_scheme \<times> bool \<Rightarrow> (ap_caps \<times> 'a cap_sta_scheme \<times> bool) option" where
  "preamble_join = (\<lambda>(c, s, u).
     (if flags s AND WLAN_STA_SHORT_PREAMBLE = 0 then
        (if \<not> no_short_preamble_set s then
           (let s = s\<lparr>no_short_preamble_set := True\<rparr>;
                c = c\<lparr>num_sta_no_short_preamble := num_sta_no_short_preamble c + 1\<rparr> in
            if cur_wireless_mode c > WIRELESS_11B \<and> num_sta_no_short_preamble c = 1
            then do { c \<leftarrow> ap_update_beacon 0xff c; Some (c, s, True) } else Some (c, s, u))
         else Some (c, s, u))
      else
        (if no_short_preamble_set s then
           (let s = s\<lparr>no_short_preamble_set := False\<rparr>;
                c = c\<lparr>num_sta_no_short_preamble := num_sta_no_short_preamble c - 1\<rparr> in
            if cur_wireless_mode c > WIRELESS_11B \<and> num_sta_no_short_preamble c = 0
            then do { c \<leftarrow> ap_update_beacon 0xff c; Some (c, s, True) } else Some (c, s, u))
         else Some (c, s, u))))"

definition nonerp_join :: "ap_caps \<times> 'a cap_sta_scheme \<times> bool \<Rightarrow> (ap_caps \<times> 'a cap_sta_scheme \<times> bool) option" where
  "nonerp_join = (\<lambda>(c, s, u).
     (if flags s AND WLAN_STA_NONERP \<noteq> 0 then
        (if \<not> nonerp_set s then
           (let s = s\<lparr>nonerp_set := True\<rparr>; c = c\<lparr>num_sta_non_erp := num_sta_non_erp c + 1\<rparr> in
            if num_sta_non_erp c = 1 then do { c \<leftarrow> ap_update_beacon 42 c; Some (c, s, True) } else Some (c, s, u))
         else Some (c, s, u))
      else
        (if nonerp_set s then
           (let s = s\<lparr>nonerp_set := False\<rparr>; c = c\<lparr>num_sta_non_erp := num_sta_non_erp c - 1\<rparr> in
            if num_sta_non_erp c = 0 then do { c \<leftarrow> ap_update_beacon 42 c; Some (c, s, True) } else Some (c, s, u))
         else Some (c, s, u))))"

definition slot_join :: "ap_caps \<times> 'a cap_sta_scheme \<times> bool \<Rightarrow> (ap_caps \<times> 'a cap_sta_scheme \<times> bool) option" where
  "slot_join = (\<lambda>(c, s, u).
     (if capability s AND WLAN_CAPABILITY_SHORT_SLOT_TIME = 0 then
        (if \<not> no_short_slot_time_set s then
           (let s = s\<lparr>no_short_slot_time_set := True\<rparr>;
                c = c\<lparr>num_sta_no_short_slot_time := num_sta_no_short_slot_time c + 1\<rparr> in
            if cur_wireless_mode c > WIRELESS_11B \<and> num_sta_no_short_slot_time c = 1
            then do { c \<leftarrow> ap_update_beacon 0xff c; Some (c, s, True) } else Some (c, s, u))
         else Some (c, s, u))
      else
        (if no_short_slot_time_set s then
           (let s = s\<lparr>no_short_slot_time_set := False\<rparr>;
                c = c\<lparr>num_sta_no_short_slot_time := num_sta_no_short_slot_time c - 1\<rparr> in
            if cur_wireless_mode c > WIRELESS_11B \<and> num_sta_no_short_slot_time c = 0
            then do { c \<leftarrow> ap_update_beacon 0xff c; Some (c, s, True) } else Some (c, s, u))
         else Some (c, s, u))))"

definition ht_join :: "ap_caps \<times> 'a cap_sta_scheme \<Rightarrow> ap_caps \<times> 'a cap_sta_scheme" where
  "ht_join = (\<lambda>(c, s).
     (if flags s AND WLAN_STA_HT \<noteq> 0 then
        (let (c, s) = (if no_ht_set s then (c\<lparr>num_sta_no_ht := num_sta_no_ht c - 1\<rparr>, s\<lparr>no_ht_set := False\<rparr>) else (c, s));
             (c, s) = (if ht_cap_info s AND IEEE80211_HT_CAP_GRN_FLD = 0 \<and> \<not> no_ht_gf_set s
                       then (c\<lparr>num_sta_ht_no_gf := num_sta_ht_no_gf c + 1\<rparr>, s\<lparr>no_ht_gf_set := True\<rparr>) else (c, s))
         in if ht_cap_info s AND IEEE80211_HT_CAP_SUP_WIDTH_20_40 = 0 \<and> \<not> ht_20mhz_set s
            then (c\<lparr>num_sta_ht_20mhz := num_sta_ht_20mhz c + 1\<rparr>, s\<lparr>ht_20mhz_set := True\<rparr>) else (c, s))
      else if \<not> no_ht_set s then (c\<lparr>num_sta_no_ht := num_sta_no_ht c + 1\<rparr>, s\<lparr>no_ht_set := True\<rparr>) else (c, s)))"

text \<open>\<^verbatim>\<open>bss_cap_update_on_sta_join\<close> for the station in slot \<open>p\<close>; \<open>asoc\<close> is the list of the
  associated stations.\<close>

definition bss_cap_update_on_sta_join ::
    "nat \<Rightarrow> nat list \<Rightarrow> ap_caps \<times> 'a cap_sta_scheme list \<Rightarrow> (ap_caps \<times> 'a cap_sta_scheme list) option" where
  "bss_cap_update_on_sta_join p asoc = (\<lambda>(c, stas).
     do { x \<leftarrow> preamble_join (c, stas ! p, False);
          x \<leftarrow> nonerp_join x;
          (c, s, u) \<leftarrow> slot_join x;
          let (c, s) = ht_join (c, s);
          c \<leftarrow> ht_update_beacon c;
          Some (c, associated_clients_update c u asoc (stas[p := s])) })"

text \<open>\<^verbatim>\<open>bss_cap_update_on_sta_leave\<close>; its caller updates the other stations.\<close>

definition preamble_leave :: "ap_caps \<times> 'a cap_sta_scheme \<times> bool \<Rightarrow> (ap_caps \<times> 'a cap_sta_scheme \<times> bool) option" where
  "preamble_leave = (\<lambda>(c, s, u).
     (if no_short_preamble_set s then
        (let s = s\<lparr>no_short_preamble_set := False\<rparr>;
             c = c\<lparr>num_sta_no_short_preamble := num_sta_no_short_preamble c - 1\<rparr> in
         if cur_wireless_mode c > WIRELESS_11B \<and> num_sta_no_short_preamble c = 0
         then do { c \<leftarrow> ap_update_beacon 0xff c; Some (c, s, True) } else Some (c, s, u))
      else Some (c, s, u)))"

definition nonerp_leave :: "ap_caps \<times> 'a cap_sta_scheme \<times> bool \<Rightarrow> (ap_caps \<times> 'a cap_sta_scheme \<times> bool) option" where
  "nonerp_leave = (\<lambda>(c, s, u).
     (if nonerp_set s then
        (let s = s\<lparr>nonerp_set := False\<rparr>; c = c\<lparr>num_sta_non_erp := num_sta_non_erp c - 1\<rparr> in
         if num_sta_non_erp c = 0 then do { c \<leftarrow> ap_update_beacon 42 c; Some (c, s, True) } else Some (c, s, u))
      else Some (c, s, u)))"

definition slot_leave :: "ap_caps \<times> 'a cap_sta_scheme \<times> bool \<Rightarrow> (ap_caps \<times> 'a cap_sta_scheme \<times> bool) option" where
  "slot_leave = (\<lambda>(c, s, u).
     (if no_short_slot_time_set s then
        (let s = s\<lparr>no_short_slot_time_set := False\<rparr>;
             c = c\<lparr>num_sta_no_short_slot_time := num_sta_no_short_slot_time c - 1\<rparr> in
         if cur_wireless_mode c > WIRELESS_11B \<and> num_sta_no_short_slot_time c = 0
         then do { c \<leftarrow> ap_update_beacon 0xff c; Some (c, s, True) } else Some (c, s, u))
      else Some (c, s, u)))"

definition ht_leave :: "ap_caps \<times> 'a cap_sta_scheme \<Rightarrow> ap_caps \<times> 'a cap_sta_scheme" where
  "ht_leave = (\<lambda>(c, s).
     (let (c, s) = (if no_ht_gf_set s then (c\<lparr>num_sta_ht_no_gf := num_sta_ht_no_gf c - 1\<rparr>, s\<lparr>no_ht_gf_set := False\<rparr>) else (c, s));
          (c, s) = (if no_ht_set s then (c\<lparr>num_sta_no_ht := num_sta_no_ht c - 1\<rparr>, s\<lparr>no_ht_set := False\<rparr>) else (c, s))
      in if ht_20mhz_set s then (c\<lparr>num_sta_ht_20mhz := num_sta_ht_20mhz c - 1\<rparr>, s\<lparr>ht_20mhz_set := False\<rparr>) else (c, s)))"

definition bss_cap_update_on_sta_leave ::
    "nat \<Rightarrow> ap_caps \<times> 'a cap_sta_scheme list \<Rightarrow> (bool \<times> ap_caps \<times> 'a cap_sta_scheme list) option" where
  "bss_cap_update_on_sta_leave p = (\<lambda>(c, stas).
     do { x \<leftarrow> preamble_leave (c, stas ! p, False);
          x \<leftarrow> nonerp_leave x;
          (c, s, u) \<leftarrow> slot_leave x;
          let (c, s) = ht_leave (c, s);
          c \<leftarrow> ht_update_beacon c;
          Some (u, c, stas[p := s]) })"

text \<open>What \<^verbatim>\<open>start_ap_mode\<close> does to these fields.\<close>

definition start_ap_caps :: "ap_caps \<Rightarrow> ap_caps" where
  "start_ap_caps c = c\<lparr>num_sta_non_erp := 0, num_sta_no_short_slot_time := 0, num_sta_no_short_preamble := 0,
     num_sta_ht_no_gf := 0, num_sta_no_ht := 0, num_sta_ht_20mhz := 0, olbc_ht := False, ht_op_mode := 0,
     apb := (apb c)\<lparr>update_bcn := False, bstart_bss := False, wps_beacon_ie := None\<rparr>\<rparr>"

section \<open>The beacon\<close>

text \<open>A beacon that is a series of elements with one ERP element of a single byte \<open>d\<close>, which the driver
  has taken over.\<close>

definition bcn_ok :: "ap_bcn \<Rightarrow> u8 \<Rightarrow> bool" where
  "bcn_ok b d \<longleftrightarrow> bstart_bss b \<and> erp_enable b \<and> erp_ie b = d
     \<and> (\<exists>fx xs ys post. bcn b = (fx @ enc_ies (xs @ (42, [d]) # ys) @ post, 12 + length (enc_ies (xs @ (42, [d]) # ys)))
          \<and> length fx = 12 \<and> (\<forall>e \<in> set (xs @ (42, [d]) # ys). ie_ok e) \<and> (\<forall>x \<in> set xs. fst x \<noteq> 42))"

lemma unat_eq_42: "unat (x :: u8) = 42 \<longleftrightarrow> x = 42"
  by (simp add: word_unat_eq_iff)

lemma bcn_ok_erp: "bcn_ok b d \<Longrightarrow> erp_ie b = d" by (simp add: bcn_ok_def)

lemma bcn_ok_frame: "bcn_ok (b\<lparr>update_bcn := u\<rparr>) d = bcn_ok b d" by (simp add: bcn_ok_def)

lemma update_beacon_other:
  assumes "ie \<in> {0xff, 45, 61}" "bcn_ok b d"
  shows "\<exists>b'. update_beacon ie [] tim n m b = Some b' \<and> bcn_ok b' d"
  using assms by (auto simp: update_beacon_def bcn_ok_frame)

lemma update_beacon_erp:
  assumes "bcn_ok b d"
  shows "\<exists>b'. update_beacon 42 [] tim n m b = Some b' \<and> bcn_ok b' (erp_info n m d)"
proof -
  obtain fx xs ys post where b: "bcn b = (fx @ enc_ies (xs @ (42, [d]) # ys) @ post, 12 + length (enc_ies (xs @ (42, [d]) # ys)))"
    "length fx = 12" "\<forall>e \<in> set (xs @ (42, [d]) # ys). ie_ok e" "\<forall>x \<in> set xs. fst x \<noteq> 42"
    and s: "bstart_bss b" "erp_enable b" using assms by (auto simp: bcn_ok_def)
  let ?es = "xs @ (42, [d]) # ys" and ?p = "fx @ enc_ies xs @ [42, 1]" and ?q = "enc_ies ys @ post"
  have m: "fx @ enc_ies ?es @ post = ?p @ [d] @ ?q" by (simp add: enc_ie_def)
  have "unat (fst x) \<noteq> 42" if "x \<in> set xs" for x
    using b(4) that by (metis unat_eq_42)
  then have "ie_pos (\<lambda>e. unat (fst e) = 42) ?es 0 = Some (length (enc_ies xs), length [d])"
    using ie_pos_skip [of xs "\<lambda>e. unat (fst e) = 42" "(42, [d])" ys 0] by simp
  with get_ie_bcn [OF b(2,3), of post 42] have g: "rtw_get_ie (drop 12 (fx @ enc_ies ?es @ post)) 42 (int (12 + length (enc_ies ?es)) - 12)
      = Some (Some (length (enc_ies xs), 1))" by simp
  have pos: "length ?p = 14 + length (enc_ies xs)" using b(2) by simp
  have rd: "rd (fx @ enc_ies ?es @ post) (14 + length (enc_ies xs)) = Some d"
    unfolding m pos [symmetric] using rd_at [of ?p d ?q] by (simp only: append_Cons append_Nil)
  have pt: "put (14 + length (enc_ies xs)) [d'] (fx @ enc_ies ?es @ post) = Some (fx @ enc_ies (xs @ (42, [d']) # ys) @ post)" for d'
    unfolding m pos [symmetric] by (subst put_at) (simp_all add: enc_ie_def)
  have "update_bcn_erpinfo_ie True n m (bcn b)
    = Some ((fx @ enc_ies (xs @ (42, [erp_info n m d]) # ys) @ post, 12 + length (enc_ies ?es)), Some (erp_info n m d))"
    unfolding b(1) update_bcn_erpinfo_ie_def prod.case g by (simp add: rd pt Let_def del: enc_ies_append enc_ies_Cons)
  then show ?thesis using s b by (force simp: update_beacon_def bcn_ok_def ie_ok_def)
qed

section \<open>Counting\<close>

text \<open>The beacon announces non-ERP stations and protection exactly while one is counted.\<close>

definition caps_ok :: "ap_caps \<Rightarrow> bool" where
  "caps_ok c \<longleftrightarrow> 0 \<le> num_sta_non_erp c \<and> bcn_ok (apb c) (erp_ie (apb c))
     \<and> bit (erp_ie (apb c)) 0 = (0 < num_sta_non_erp c) \<and> bit (erp_ie (apb c)) 1 = (0 < num_sta_non_erp c)"

text \<open>What a counter holds besides the one station stays the same.\<close>

definition counted :: "ap_caps \<Rightarrow> 'a cap_sta_scheme \<Rightarrow> ap_caps \<Rightarrow> 'a cap_sta_scheme \<Rightarrow> bool" where
  "counted c s c' s' \<longleftrightarrow>
     num_sta_no_short_preamble c' - of_bool (no_short_preamble_set s') = num_sta_no_short_preamble c - of_bool (no_short_preamble_set s)
   \<and> num_sta_non_erp c' - of_bool (nonerp_set s') = num_sta_non_erp c - of_bool (nonerp_set s)
   \<and> num_sta_no_short_slot_time c' - of_bool (no_short_slot_time_set s') = num_sta_no_short_slot_time c - of_bool (no_short_slot_time_set s)
   \<and> num_sta_no_ht c' - of_bool (no_ht_set s') = num_sta_no_ht c - of_bool (no_ht_set s)
   \<and> num_sta_ht_no_gf c' - of_bool (no_ht_gf_set s') = num_sta_ht_no_gf c - of_bool (no_ht_gf_set s)
   \<and> num_sta_ht_20mhz c' - of_bool (ht_20mhz_set s') = num_sta_ht_20mhz c - of_bool (ht_20mhz_set s)"

lemma counted_trans: "counted c s c' s' \<Longrightarrow> counted c' s' c'' s'' \<Longrightarrow> counted c s c'' s''"
  by (simp add: counted_def)

text \<open>A step on the capabilities: nothing but counters, mode and beacon changes, and without a notice the
  protection stays.\<close>

definition cap_step :: "ap_caps \<Rightarrow> bool \<Rightarrow> ap_caps \<Rightarrow> bool \<Rightarrow> bool" where
  "cap_step c u c' u' \<longleftrightarrow> caps_ok c' \<and> vrtl_carrier_sense c' = vrtl_carrier_sense c \<and> vcs_type c' = vcs_type c
     \<and> (\<not> u' \<longrightarrow> \<not> u \<and> bit (erp_ie (apb c')) 1 = bit (erp_ie (apb c)) 1)"

lemma cap_step_trans: "cap_step c u c' u' \<Longrightarrow> cap_step c' u' c'' u'' \<Longrightarrow> cap_step c u c'' u''"
  by (auto simp: cap_step_def)

lemma bcn_update_other:
  assumes "caps_ok c" "ie \<in> {0xff, 45, 61}"
  obtains b where "ap_update_beacon ie c = Some (c\<lparr>apb := b\<rparr>)" "caps_ok (c\<lparr>apb := b\<rparr>)" "erp_ie b = erp_ie (apb c)"
proof -
  from update_beacon_other [OF assms(2), of "apb c" "erp_ie (apb c)" 0 "num_sta_non_erp c" "num_sta_no_short_preamble c"] assms(1)
  obtain b where "update_beacon ie [] 0 (num_sta_non_erp c) (num_sta_no_short_preamble c) (apb c) = Some b" "bcn_ok b (erp_ie (apb c))"
    by (auto simp: caps_ok_def)
  moreover from this(2) have "erp_ie b = erp_ie (apb c)" by (rule bcn_ok_erp)
  ultimately show ?thesis using assms(1) by (intro that [of b]) (simp_all add: ap_update_beacon_def caps_ok_def)
qed

lemma bcn_update_erp:
  assumes "bcn_ok (apb c) d" "num_sta_non_erp c \<in> {0, 1}"
  obtains b where "ap_update_beacon 42 c = Some (c\<lparr>apb := b\<rparr>)" "caps_ok (c\<lparr>apb := b\<rparr>)"
proof -
  from update_beacon_erp [OF assms(1), of 0 "num_sta_non_erp c" "num_sta_no_short_preamble c"] obtain b where
    b: "update_beacon 42 [] 0 (num_sta_non_erp c) (num_sta_no_short_preamble c) (apb c) = Some b"
      "bcn_ok b (erp_info (num_sta_non_erp c) (num_sta_no_short_preamble c) d)" by blast
  from bcn_ok_erp [OF b(2)] have "erp_ie b = erp_info (num_sta_non_erp c) (num_sta_no_short_preamble c) d" .
  then show ?thesis using b assms(2)
    by (intro that [of b]) (auto simp: ap_update_beacon_def caps_ok_def erp_info_def Let_def bit_simps)
qed

text \<open>The notice that ends every change of a counter.\<close>

lemma notice_other:
  assumes "caps_ok c" "ie \<in> {0xff, 45, 61}"
  obtains b u' where "(if P then do { c \<leftarrow> ap_update_beacon ie c; Some (c, s, True) } else Some (c, s, u)) = Some (c\<lparr>apb := b\<rparr>, s, u')"
    "caps_ok (c\<lparr>apb := b\<rparr>)" "erp_ie b = erp_ie (apb c)" "\<not> u' \<longrightarrow> \<not> u"
proof (cases P)
  case True
  then show ?thesis using bcn_update_other [OF assms] that by (metis bind.bind_lunit)
next
  case False
  have "c\<lparr>apb := apb c\<rparr> = c" by simp
  then show ?thesis using False assms that [of "apb c" u] by simp
qed

lemma preamble_join_step:
  fixes s :: "'a cap_sta_scheme"
  assumes "caps_ok c"
  defines "w \<equiv> flags s AND WLAN_STA_SHORT_PREAMBLE = 0"
  obtains c' u' where "preamble_join (c, s, u) = Some (c', s\<lparr>no_short_preamble_set := w\<rparr>, u')"
    "counted c s c' (s\<lparr>no_short_preamble_set := w\<rparr>)" "cap_step c u c' u'"
proof (cases "no_short_preamble_set s = w")
  case True
  then have "s\<lparr>no_short_preamble_set := w\<rparr> = s" by simp
  with True show ?thesis using that [of c u] assms(1) by (auto simp: preamble_join_def w_def counted_def cap_step_def)
next
  case False
  define c1 where "c1 = c\<lparr>num_sta_no_short_preamble := num_sta_no_short_preamble c + (if w then 1 else -1)\<rparr>"
  have c1: "caps_ok c1" using assms(1) by (simp add: c1_def caps_ok_def)
  have eq: "preamble_join (c, s, u) = (if cur_wireless_mode c1 > WIRELESS_11B \<and> num_sta_no_short_preamble c1 = (if w then 1 else 0)
      then do { c \<leftarrow> ap_update_beacon 0xff c1; Some (c, s\<lparr>no_short_preamble_set := w\<rparr>, True) }
      else Some (c1, s\<lparr>no_short_preamble_set := w\<rparr>, u))"
    using False by (cases w) (simp_all add: preamble_join_def w_def c1_def Let_def)
  obtain b u' where "preamble_join (c, s, u) = Some (c1\<lparr>apb := b\<rparr>, s\<lparr>no_short_preamble_set := w\<rparr>, u')"
    "caps_ok (c1\<lparr>apb := b\<rparr>)" "erp_ie b = erp_ie (apb c1)" "\<not> u' \<longrightarrow> \<not> u"
    unfolding eq by (rule notice_other [OF c1]) blast
  then show ?thesis using that False by (cases w) (simp_all add: counted_def cap_step_def c1_def)
qed

lemma slot_join_step:
  fixes s :: "'a cap_sta_scheme"
  assumes "caps_ok c"
  defines "w \<equiv> capability s AND WLAN_CAPABILITY_SHORT_SLOT_TIME = 0"
  obtains c' u' where "slot_join (c, s, u) = Some (c', s\<lparr>no_short_slot_time_set := w\<rparr>, u')"
    "counted c s c' (s\<lparr>no_short_slot_time_set := w\<rparr>)" "cap_step c u c' u'"
proof (cases "no_short_slot_time_set s = w")
  case True
  then have "s\<lparr>no_short_slot_time_set := w\<rparr> = s" by simp
  with True show ?thesis using that [of c u] assms(1) by (auto simp: slot_join_def w_def counted_def cap_step_def)
next
  case False
  define c1 where "c1 = c\<lparr>num_sta_no_short_slot_time := num_sta_no_short_slot_time c + (if w then 1 else -1)\<rparr>"
  have c1: "caps_ok c1" using assms(1) by (simp add: c1_def caps_ok_def)
  have eq: "slot_join (c, s, u) = (if cur_wireless_mode c1 > WIRELESS_11B \<and> num_sta_no_short_slot_time c1 = (if w then 1 else 0)
      then do { c \<leftarrow> ap_update_beacon 0xff c1; Some (c, s\<lparr>no_short_slot_time_set := w\<rparr>, True) }
      else Some (c1, s\<lparr>no_short_slot_time_set := w\<rparr>, u))"
    using False by (cases w) (simp_all add: slot_join_def w_def c1_def Let_def)
  obtain b u' where "slot_join (c, s, u) = Some (c1\<lparr>apb := b\<rparr>, s\<lparr>no_short_slot_time_set := w\<rparr>, u')"
    "caps_ok (c1\<lparr>apb := b\<rparr>)" "erp_ie b = erp_ie (apb c1)" "\<not> u' \<longrightarrow> \<not> u"
    unfolding eq by (rule notice_other [OF c1]) blast
  then show ?thesis using that False by (cases w) (simp_all add: counted_def cap_step_def c1_def)
qed

lemma preamble_leave_step:
  fixes s :: "'a cap_sta_scheme"
  assumes "caps_ok c"
  defines "w \<equiv> False"
  obtains c' u' where "preamble_leave (c, s, u) = Some (c', s\<lparr>no_short_preamble_set := w\<rparr>, u')"
    "counted c s c' (s\<lparr>no_short_preamble_set := w\<rparr>)" "cap_step c u c' u'"
proof (cases "no_short_preamble_set s = w")
  case True
  then have "s\<lparr>no_short_preamble_set := w\<rparr> = s" by simp
  with True show ?thesis using that [of c u] assms(1) by (auto simp: preamble_leave_def w_def counted_def cap_step_def)
next
  case False
  define c1 where "c1 = c\<lparr>num_sta_no_short_preamble := num_sta_no_short_preamble c + (if w then 1 else -1)\<rparr>"
  have c1: "caps_ok c1" using assms(1) by (simp add: c1_def caps_ok_def)
  have eq: "preamble_leave (c, s, u) = (if cur_wireless_mode c1 > WIRELESS_11B \<and> num_sta_no_short_preamble c1 = (if w then 1 else 0)
      then do { c \<leftarrow> ap_update_beacon 0xff c1; Some (c, s\<lparr>no_short_preamble_set := w\<rparr>, True) }
      else Some (c1, s\<lparr>no_short_preamble_set := w\<rparr>, u))"
    using False by (cases w) (simp_all add: preamble_leave_def w_def c1_def Let_def)
  obtain b u' where "preamble_leave (c, s, u) = Some (c1\<lparr>apb := b\<rparr>, s\<lparr>no_short_preamble_set := w\<rparr>, u')"
    "caps_ok (c1\<lparr>apb := b\<rparr>)" "erp_ie b = erp_ie (apb c1)" "\<not> u' \<longrightarrow> \<not> u"
    unfolding eq by (rule notice_other [OF c1]) blast
  then show ?thesis using that False by (cases w) (simp_all add: counted_def cap_step_def c1_def)
qed

lemma slot_leave_step:
  fixes s :: "'a cap_sta_scheme"
  assumes "caps_ok c"
  defines "w \<equiv> False"
  obtains c' u' where "slot_leave (c, s, u) = Some (c', s\<lparr>no_short_slot_time_set := w\<rparr>, u')"
    "counted c s c' (s\<lparr>no_short_slot_time_set := w\<rparr>)" "cap_step c u c' u'"
proof (cases "no_short_slot_time_set s = w")
  case True
  then have "s\<lparr>no_short_slot_time_set := w\<rparr> = s" by simp
  with True show ?thesis using that [of c u] assms(1) by (auto simp: slot_leave_def w_def counted_def cap_step_def)
next
  case False
  define c1 where "c1 = c\<lparr>num_sta_no_short_slot_time := num_sta_no_short_slot_time c + (if w then 1 else -1)\<rparr>"
  have c1: "caps_ok c1" using assms(1) by (simp add: c1_def caps_ok_def)
  have eq: "slot_leave (c, s, u) = (if cur_wireless_mode c1 > WIRELESS_11B \<and> num_sta_no_short_slot_time c1 = (if w then 1 else 0)
      then do { c \<leftarrow> ap_update_beacon 0xff c1; Some (c, s\<lparr>no_short_slot_time_set := w\<rparr>, True) }
      else Some (c1, s\<lparr>no_short_slot_time_set := w\<rparr>, u))"
    using False by (cases w) (simp_all add: slot_leave_def w_def c1_def Let_def)
  obtain b u' where "slot_leave (c, s, u) = Some (c1\<lparr>apb := b\<rparr>, s\<lparr>no_short_slot_time_set := w\<rparr>, u')"
    "caps_ok (c1\<lparr>apb := b\<rparr>)" "erp_ie b = erp_ie (apb c1)" "\<not> u' \<longrightarrow> \<not> u"
    unfolding eq by (rule notice_other [OF c1]) blast
  then show ?thesis using that False by (cases w) (simp_all add: counted_def cap_step_def c1_def)
qed

lemma notice_erp:
  assumes "bcn_ok (apb c) (erp_ie (apb c))" "w \<longrightarrow> 0 < num_sta_non_erp c" "0 \<le> num_sta_non_erp c"
    "num_sta_non_erp c \<noteq> of_bool w \<longrightarrow> caps_ok c"
  obtains b u' where "(if num_sta_non_erp c = (if w then 1 else 0)
      then do { c \<leftarrow> ap_update_beacon 42 c; Some (c, s, True) } else Some (c, s, u)) = Some (c\<lparr>apb := b\<rparr>, s, u')"
    "caps_ok (c\<lparr>apb := b\<rparr>)" "\<not> u' \<longrightarrow> \<not> u \<and> bit (erp_ie b) 1 = bit (erp_ie (apb c)) 1"
proof (cases "num_sta_non_erp c = (if w then 1 else 0)")
  case True
  then have "num_sta_non_erp c \<in> {0, 1}" by simp
  with True show ?thesis using bcn_update_erp [OF assms(1)] that by (metis bind.bind_lunit)
next
  case False
  have "c\<lparr>apb := apb c\<rparr> = c" by simp
  then show ?thesis using False assms(4) that [of "apb c" u] by (cases w) simp_all
qed

lemma nonerp_join_step:
  fixes s :: "'a cap_sta_scheme"
  assumes "caps_ok c" "nonerp_set s \<longrightarrow> 0 < num_sta_non_erp c"
  defines "w \<equiv> (flags s AND WLAN_STA_NONERP \<noteq> 0)"
  obtains c' u' where "nonerp_join (c, s, u) = Some (c', s\<lparr>nonerp_set := w\<rparr>, u')"
    "counted c s c' (s\<lparr>nonerp_set := w\<rparr>)" "cap_step c u c' u'"
proof (cases "nonerp_set s = w")
  case True
  then have "s\<lparr>nonerp_set := w\<rparr> = s" by simp
  with True show ?thesis using that [of c u] assms(1) by (auto simp: nonerp_join_def w_def counted_def cap_step_def)
next
  case False
  define c1 where "c1 = c\<lparr>num_sta_non_erp := num_sta_non_erp c + (if w then 1 else -1)\<rparr>"
  have eq: "nonerp_join (c, s, u) = (if num_sta_non_erp c1 = (if w then 1 else 0)
      then do { c \<leftarrow> ap_update_beacon 42 c1; Some (c, s\<lparr>nonerp_set := w\<rparr>, True) }
      else Some (c1, s\<lparr>nonerp_set := w\<rparr>, u))"
    using False by (cases w) (simp_all add: nonerp_join_def w_def c1_def Let_def)
  have n0: "0 \<le> num_sta_non_erp c" "bcn_ok (apb c) (erp_ie (apb c))" using assms(1) by (simp_all only: caps_ok_def)
  have n: "bcn_ok (apb c1) (erp_ie (apb c1))" "w \<longrightarrow> 0 < num_sta_non_erp c1" "0 \<le> num_sta_non_erp c1"
    using n0 assms(2) False by (cases w; simp add: c1_def)+
  have k: "num_sta_non_erp c1 \<noteq> of_bool w \<longrightarrow> caps_ok c1"
  proof
    assume "num_sta_non_erp c1 \<noteq> of_bool w"
    then have "(0 < num_sta_non_erp c1) = (0 < num_sta_non_erp c)"
      using n0 assms(2) False by (cases w) (auto simp: c1_def)
    moreover have "apb c1 = apb c" by (simp add: c1_def)
    ultimately show "caps_ok c1" using assms(1) n(1,3) unfolding caps_ok_def by (simp only:)
  qed
  obtain b u' where "nonerp_join (c, s, u) = Some (c1\<lparr>apb := b\<rparr>, s\<lparr>nonerp_set := w\<rparr>, u')"
    "caps_ok (c1\<lparr>apb := b\<rparr>)" "\<not> u' \<longrightarrow> \<not> u \<and> bit (erp_ie b) 1 = bit (erp_ie (apb c1)) 1"
    unfolding eq by (rule notice_erp [OF n(1,2,3) k]) blast
  then show ?thesis using that False by (cases w) (simp_all add: counted_def cap_step_def c1_def)
qed

lemma nonerp_leave_step:
  fixes s :: "'a cap_sta_scheme"
  assumes "caps_ok c" "nonerp_set s \<longrightarrow> 0 < num_sta_non_erp c"
  defines "w \<equiv> False"
  obtains c' u' where "nonerp_leave (c, s, u) = Some (c', s\<lparr>nonerp_set := w\<rparr>, u')"
    "counted c s c' (s\<lparr>nonerp_set := w\<rparr>)" "cap_step c u c' u'"
proof (cases "nonerp_set s = w")
  case True
  then have "s\<lparr>nonerp_set := w\<rparr> = s" by simp
  with True show ?thesis using that [of c u] assms(1) by (auto simp: nonerp_leave_def w_def counted_def cap_step_def)
next
  case False
  define c1 where "c1 = c\<lparr>num_sta_non_erp := num_sta_non_erp c + (if w then 1 else -1)\<rparr>"
  have eq: "nonerp_leave (c, s, u) = (if num_sta_non_erp c1 = (if w then 1 else 0)
      then do { c \<leftarrow> ap_update_beacon 42 c1; Some (c, s\<lparr>nonerp_set := w\<rparr>, True) }
      else Some (c1, s\<lparr>nonerp_set := w\<rparr>, u))"
    using False by (cases w) (simp_all add: nonerp_leave_def w_def c1_def Let_def)
  have n0: "0 \<le> num_sta_non_erp c" "bcn_ok (apb c) (erp_ie (apb c))" using assms(1) by (simp_all only: caps_ok_def)
  have n: "bcn_ok (apb c1) (erp_ie (apb c1))" "w \<longrightarrow> 0 < num_sta_non_erp c1" "0 \<le> num_sta_non_erp c1"
    using n0 assms(2) False by (cases w; simp add: c1_def)+
  have k: "num_sta_non_erp c1 \<noteq> of_bool w \<longrightarrow> caps_ok c1"
  proof
    assume "num_sta_non_erp c1 \<noteq> of_bool w"
    then have "(0 < num_sta_non_erp c1) = (0 < num_sta_non_erp c)"
      using n0 assms(2) False by (cases w) (auto simp: c1_def)
    moreover have "apb c1 = apb c" by (simp add: c1_def)
    ultimately show "caps_ok c1" using assms(1) n(1,3) unfolding caps_ok_def by (simp only:)
  qed
  obtain b u' where "nonerp_leave (c, s, u) = Some (c1\<lparr>apb := b\<rparr>, s\<lparr>nonerp_set := w\<rparr>, u')"
    "caps_ok (c1\<lparr>apb := b\<rparr>)" "\<not> u' \<longrightarrow> \<not> u \<and> bit (erp_ie b) 1 = bit (erp_ie (apb c1)) 1"
    unfolding eq by (rule notice_erp [OF n(1,2,3) k]) blast
  then show ?thesis using that False by (cases w) (simp_all add: counted_def cap_step_def c1_def)
qed


lemma caps_ok_frame:
  "caps_ok (c\<lparr>num_sta_no_ht := k\<rparr>) = caps_ok c" "caps_ok (c\<lparr>num_sta_ht_no_gf := k\<rparr>) = caps_ok c"
  "caps_ok (c\<lparr>num_sta_ht_20mhz := k\<rparr>) = caps_ok c" "caps_ok (c\<lparr>ht_op_mode := m\<rparr>) = caps_ok c"
  by (simp_all add: caps_ok_def)

lemma ht_join_step:
  fixes s :: "'a cap_sta_scheme"
  assumes "caps_ok c"
  obtains c' g t where "ht_join (c, s) = (c', s\<lparr>no_ht_set := (flags s AND WLAN_STA_HT = 0), no_ht_gf_set := g, ht_20mhz_set := t\<rparr>)"
    "counted c s c' (s\<lparr>no_ht_set := (flags s AND WLAN_STA_HT = 0), no_ht_gf_set := g, ht_20mhz_set := t\<rparr>)" "cap_step c u c' u"
proof (cases "flags s AND WLAN_STA_HT = 0")
  case True
  then show ?thesis using assms
    by (cases "no_ht_set s"; intro that [where c' = "c\<lparr>num_sta_no_ht := num_sta_no_ht c + of_bool (\<not> no_ht_set s)\<rparr>"
        and g = "no_ht_gf_set s" and t = "ht_20mhz_set s"])
      (simp_all add: ht_join_def counted_def cap_step_def caps_ok_frame)
next
  case False
  define g where "g \<longleftrightarrow> ht_cap_info s AND IEEE80211_HT_CAP_GRN_FLD = 0 \<and> \<not> no_ht_gf_set s"
  define t where "t \<longleftrightarrow> ht_cap_info s AND IEEE80211_HT_CAP_SUP_WIDTH_20_40 = 0 \<and> \<not> ht_20mhz_set s"
  define c' where "c' = c\<lparr>num_sta_no_ht := num_sta_no_ht c - of_bool (no_ht_set s), num_sta_ht_no_gf := num_sta_ht_no_gf c + of_bool g,
    num_sta_ht_20mhz := num_sta_ht_20mhz c + of_bool t\<rparr>"
  have "ht_join (c, s) = (c', s\<lparr>no_ht_set := False, no_ht_gf_set := no_ht_gf_set s \<or> g, ht_20mhz_set := ht_20mhz_set s \<or> t\<rparr>)"
    using False by (cases "no_ht_set s"; cases g; cases t) (simp_all add: ht_join_def c'_def g_def [symmetric] t_def [symmetric])
  moreover have "counted c s c' (s\<lparr>no_ht_set := False, no_ht_gf_set := no_ht_gf_set s \<or> g, ht_20mhz_set := ht_20mhz_set s \<or> t\<rparr>)"
    by (simp add: counted_def c'_def) (simp add: g_def t_def)
  moreover have "cap_step c u c' u" using assms by (simp add: cap_step_def c'_def caps_ok_frame)
  ultimately show ?thesis using that False by simp
qed

lemma ht_leave_step:
  fixes s :: "'a cap_sta_scheme"
  assumes "caps_ok c"
  obtains c' where "ht_leave (c, s) = (c', s\<lparr>no_ht_gf_set := False, no_ht_set := False, ht_20mhz_set := False\<rparr>)"
    "counted c s c' (s\<lparr>no_ht_gf_set := False, no_ht_set := False, ht_20mhz_set := False\<rparr>)" "cap_step c u c' u"
proof
  let ?c = "c\<lparr>num_sta_ht_no_gf := num_sta_ht_no_gf c - of_bool (no_ht_gf_set s), num_sta_no_ht := num_sta_no_ht c - of_bool (no_ht_set s),
    num_sta_ht_20mhz := num_sta_ht_20mhz c - of_bool (ht_20mhz_set s)\<rparr>"
  show "ht_leave (c, s) = (?c, s\<lparr>no_ht_gf_set := False, no_ht_set := False, ht_20mhz_set := False\<rparr>)"
    by (cases "no_ht_gf_set s"; cases "no_ht_set s"; cases "ht_20mhz_set s") (simp_all add: ht_leave_def)
  show "counted c s ?c (s\<lparr>no_ht_gf_set := False, no_ht_set := False, ht_20mhz_set := False\<rparr>)" by (simp add: counted_def)
  show "cap_step c u ?c u" using assms by (simp add: cap_step_def caps_ok_frame)
qed

lemma ht_update_beacon_step:
  assumes "caps_ok c"
  obtains c' where "ht_update_beacon c = Some c'" "counted c s c' s" "cap_step c u c' u"
proof -
  obtain n m where m: "rtw_ht_operation_update c = (n, c\<lparr>ht_op_mode := m\<rparr>)"
  proof (cases "ap_ht_option c")
    case True
    have "c\<lparr>ht_op_mode := ht_op_mode c\<rparr> = c" by simp
    with True show ?thesis using that [of 0 "ht_op_mode c"] by (simp add: rtw_ht_operation_update_def)
  qed (auto simp: rtw_ht_operation_update_def Let_def split_beta intro: that)
  let ?c = "c\<lparr>ht_op_mode := m\<rparr>"
  have c: "caps_ok ?c" using assms by (simp add: caps_ok_def)
  obtain b where b: "ap_update_beacon 45 ?c = Some (?c\<lparr>apb := b\<rparr>)" "caps_ok (?c\<lparr>apb := b\<rparr>)" "erp_ie b = erp_ie (apb ?c)"
    by (rule bcn_update_other [OF c, of 45]) auto
  obtain b' where b': "ap_update_beacon 61 (?c\<lparr>apb := b\<rparr>) = Some (?c\<lparr>apb := b, apb := b'\<rparr>)" "caps_ok (?c\<lparr>apb := b, apb := b'\<rparr>)"
    "erp_ie b' = erp_ie (apb (?c\<lparr>apb := b\<rparr>))"
    by (rule bcn_update_other [OF b(2), of 61]) auto
  have "cap_step c u ?c u" using c by (simp add: cap_step_def)
  moreover have "cap_step c u (?c\<lparr>apb := b, apb := b'\<rparr>) u" using b'(2,3) b(3) by (simp add: cap_step_def)
  ultimately show ?thesis
    using that m b(1) b'(1) by (cases "n > 0") (simp_all add: ht_update_beacon_def counted_def)
qed

section \<open>Virtual carrier sense\<close>

lemma VCS_frame [simp]:
  "flags (VCS_update c s) = flags s" "nonerp_set (VCS_update c s) = nonerp_set s"
  "no_short_preamble_set (VCS_update c s) = no_short_preamble_set s"
  "no_short_slot_time_set (VCS_update c s) = no_short_slot_time_set s" "no_ht_set (VCS_update c s) = no_ht_set s"
  "no_ht_gf_set (VCS_update c s) = no_ht_gf_set s" "ht_20mhz_set (VCS_update c s) = ht_20mhz_set s"
  by (simp_all add: VCS_update_def)

lemma VCS_idem [simp]: "VCS_update c (VCS_update c s) = VCS_update c s"
  by (simp add: VCS_update_def)

lemma and_2_bit: "x AND 2 \<noteq> 0 \<longleftrightarrow> bit (x :: u8) 1"
  by (metis and_exp_eq_0_iff_not_bit power_one_right)

lemma caps_ok_enable: "caps_ok c \<Longrightarrow> erp_enable (apb c)" by (simp add: caps_ok_def bcn_ok_def)

lemma VCS_unchanged:
  assumes "cap_step c u c' False" "caps_ok c"
  shows "VCS_update c' s = VCS_update c s"
proof -
  have "caps_ok c'" "vrtl_carrier_sense c' = vrtl_carrier_sense c" "vcs_type c' = vcs_type c"
    "bit (erp_ie (apb c')) 1 = bit (erp_ie (apb c)) 1" using assms(1) by (simp_all only: cap_step_def simp_thms)
  with caps_ok_enable [OF assms(2)] caps_ok_enable [of c'] show ?thesis by (simp add: VCS_update_def and_2_bit)
qed

lemma length_clients [simp]: "length (associated_clients_update c u asoc st) = length st"
proof -
  have "length (fold (\<lambda>p stas. stas[p := VCS_update c (stas ! p)]) asoc st) = length st"
    by (induction asoc arbitrary: st) auto
  then show ?thesis by (simp add: associated_clients_update_def)
qed

lemma nth_clients:
  assumes "q < length st"
  shows "associated_clients_update c u asoc st ! q = (if u \<and> q \<in> set asoc then VCS_update c (st ! q) else st ! q)"
proof -
  have "fold (\<lambda>p stas. stas[p := VCS_update c (stas ! p)]) asoc st ! q = (if q \<in> set asoc then VCS_update c (st ! q) else st ! q)"
    using assms
  proof (induction asoc arbitrary: st)
    case (Cons a asoc)
    then show ?case by (cases "q = a") auto
  qed simp
  then show ?thesis by (simp add: associated_clients_update_def)
qed

section \<open>The stations of an access point\<close>

record ap_net =
  caps :: ap_caps
  cap_stas :: "cap_sta list"
  asoc_list :: "nat list"

text \<open>A station in slot \<open>p\<close> associates, or associates again: the end of \<^verbatim>\<open>OnAssocReq\<close>, with
  \<^verbatim>\<open>VCS_update\<close> from \<^verbatim>\<open>update_sta_info_apmode\<close>. It leaves by a frame or the user (\<^verbatim>\<open>OnDeAuth\<close>,
  \<^verbatim>\<open>OnDisassoc\<close>, \<^verbatim>\<open>ap_free_sta\<close>). \<^verbatim>\<open>OnAuth\<close> takes a station that authenticates again off the
  list of the associated ones and leaves its capabilities counted.\<close>

definition sta_assoc :: "nat \<Rightarrow> u32 \<Rightarrow> u16 \<Rightarrow> u16 \<Rightarrow> ap_net \<Rightarrow> ap_net option" where
  "sta_assoc p f cap htc n =
     (let s = (cap_stas n ! p)\<lparr>flags := f, capability := cap, ht_cap_info := htc\<rparr>;
          asoc' = (if p \<in> set (asoc_list n) then asoc_list n else asoc_list n @ [p]) in
      do { (c, st) \<leftarrow> bss_cap_update_on_sta_join p asoc' (caps n, (cap_stas n)[p := s]);
           Some \<lparr>caps = c, cap_stas = st[p := VCS_update c (st ! p)], asoc_list = asoc'\<rparr> })"

definition sta_leave :: "nat \<Rightarrow> ap_net \<Rightarrow> ap_net option" where
  "sta_leave p n =
     (if p \<in> set (asoc_list n) then
        (let asoc' = removeAll p (asoc_list n) in
         do { (u, c, st) \<leftarrow> bss_cap_update_on_sta_leave p (caps n, cap_stas n);
              Some \<lparr>caps = c, cap_stas = associated_clients_update c u asoc' st, asoc_list = asoc'\<rparr> })
      else Some n)"

definition sta_reauth :: "nat \<Rightarrow> ap_net \<Rightarrow> ap_net" where
  "sta_reauth p n = n\<lparr>asoc_list := removeAll p (asoc_list n)\<rparr>"

definition counts_nothing :: "'a cap_sta_scheme \<Rightarrow> bool" where
  "counts_nothing s \<longleftrightarrow> \<not> no_short_preamble_set s \<and> \<not> nonerp_set s \<and> \<not> no_short_slot_time_set s \<and> \<not> no_ht_set s
     \<and> \<not> no_ht_gf_set s \<and> \<not> ht_20mhz_set s"

definition count_of :: "(cap_sta \<Rightarrow> bool) \<Rightarrow> cap_sta list \<Rightarrow> int" where
  "count_of f xs = int (card {p. p < length xs \<and> f (xs ! p)})"

definition net_ok :: "ap_net \<Rightarrow> bool" where
  "net_ok n \<longleftrightarrow> length (cap_stas n) = NUM_STA \<and> set (asoc_list n) \<subseteq> {..< NUM_STA} \<and> caps_ok (caps n)
   \<and> num_sta_no_short_preamble (caps n) = count_of no_short_preamble_set (cap_stas n)
   \<and> num_sta_non_erp (caps n) = count_of nonerp_set (cap_stas n)
   \<and> num_sta_no_short_slot_time (caps n) = count_of no_short_slot_time_set (cap_stas n)
   \<and> num_sta_no_ht (caps n) = count_of no_ht_set (cap_stas n)
   \<and> num_sta_ht_no_gf (caps n) = count_of no_ht_gf_set (cap_stas n)
   \<and> num_sta_ht_20mhz (caps n) = count_of ht_20mhz_set (cap_stas n)
   \<and> (\<forall>p \<in> set (asoc_list n). VCS_update (caps n) (cap_stas n ! p) = cap_stas n ! p)"

lemma count_of_update:
  assumes "p < length xs"
  shows "count_of f (xs[p := y]) - of_bool (f y) = count_of f xs - of_bool (f (xs ! p))"
proof -
  let ?S = "{q. q < length xs \<and> f (xs ! q)}" and ?R = "{q. q < length xs \<and> q \<noteq> p \<and> f (xs ! q)}"
  have "{q. q < length (xs[p := y]) \<and> f (xs[p := y] ! q)} = (if f y then insert p ?R else ?R)"
    using assms by (auto simp: nth_list_update)
  then have "count_of f (xs[p := y]) = int (card ?R) + of_bool (f y)" by (simp add: count_of_def)
  moreover have "?S = (if f (xs ! p) then insert p ?R else ?R)" using assms by auto
  then have "count_of f xs = int (card ?R) + of_bool (f (xs ! p))" by (simp add: count_of_def)
  ultimately show ?thesis by simp
qed

lemma count_of_pos: "0 < count_of f xs \<longleftrightarrow> (\<exists>p < length xs. f (xs ! p))"
  by (auto simp: count_of_def card_gt_0_iff)

lemma count_of_cong:
  assumes "length ys = length xs" "\<And>q. q < length xs \<Longrightarrow> f (ys ! q) = f (xs ! q)"
  shows "count_of f ys = count_of f xs"
proof -
  have "{q. q < length ys \<and> f (ys ! q)} = {q. q < length xs \<and> f (xs ! q)}" using assms by auto
  then show ?thesis by (simp add: count_of_def)
qed

text \<open>Joining and leaving as wholes.\<close>

lemma sta_join_step:
  fixes st :: "'a cap_sta_scheme list"
  assumes "caps_ok c" "nonerp_set (st ! p) \<longrightarrow> 0 < num_sta_non_erp c"
  obtains c' s' u where
    "bss_cap_update_on_sta_join p asoc (c, st) = Some (c', associated_clients_update c' u asoc (st[p := s']))"
    "counted c (st ! p) c' s'" "cap_step c False c' u"
    "flags s' = flags (st ! p)" "nonerp_set s' = (flags (st ! p) AND WLAN_STA_NONERP \<noteq> 0)"
    "no_short_preamble_set s' = (flags (st ! p) AND WLAN_STA_SHORT_PREAMBLE = 0)"
    "no_short_slot_time_set s' = (capability (st ! p) AND WLAN_CAPABILITY_SHORT_SLOT_TIME = 0)"
    "no_ht_set s' = (flags (st ! p) AND WLAN_STA_HT = 0)"
proof -
  let ?s = "st ! p"
  obtain c1 u1 where 1: "preamble_join (c, ?s, False) = Some (c1, ?s\<lparr>no_short_preamble_set := flags ?s AND WLAN_STA_SHORT_PREAMBLE = 0\<rparr>, u1)"
    "counted c ?s c1 (?s\<lparr>no_short_preamble_set := flags ?s AND WLAN_STA_SHORT_PREAMBLE = 0\<rparr>)" "cap_step c False c1 u1"
    by (rule preamble_join_step [OF assms(1)]) blast
  define s1 where "s1 = ?s\<lparr>no_short_preamble_set := flags ?s AND WLAN_STA_SHORT_PREAMBLE = 0\<rparr>"
  have k1: "caps_ok c1" using 1(3) by (simp add: cap_step_def)
  have n1: "nonerp_set s1 \<longrightarrow> 0 < num_sta_non_erp c1" using 1(2) assms(2) by (simp add: counted_def s1_def)
  obtain c2 u2 where 2: "nonerp_join (c1, s1, u1) = Some (c2, s1\<lparr>nonerp_set := flags s1 AND WLAN_STA_NONERP \<noteq> 0\<rparr>, u2)"
    "counted c1 s1 c2 (s1\<lparr>nonerp_set := flags s1 AND WLAN_STA_NONERP \<noteq> 0\<rparr>)" "cap_step c1 u1 c2 u2"
    by (rule nonerp_join_step [OF k1 n1]) blast
  define s2 where "s2 = s1\<lparr>nonerp_set := flags s1 AND WLAN_STA_NONERP \<noteq> 0\<rparr>"
  have k2: "caps_ok c2" using 2(3) by (simp add: cap_step_def)
  obtain c3 u3 where 3: "slot_join (c2, s2, u2)
      = Some (c3, s2\<lparr>no_short_slot_time_set := capability s2 AND WLAN_CAPABILITY_SHORT_SLOT_TIME = 0\<rparr>, u3)"
    "counted c2 s2 c3 (s2\<lparr>no_short_slot_time_set := capability s2 AND WLAN_CAPABILITY_SHORT_SLOT_TIME = 0\<rparr>)" "cap_step c2 u2 c3 u3"
    by (rule slot_join_step [OF k2]) blast
  define s3 where "s3 = s2\<lparr>no_short_slot_time_set := capability s2 AND WLAN_CAPABILITY_SHORT_SLOT_TIME = 0\<rparr>"
  have k3: "caps_ok c3" using 3(3) by (simp add: cap_step_def)
  obtain c4 g t where 4: "ht_join (c3, s3) = (c4, s3\<lparr>no_ht_set := flags s3 AND WLAN_STA_HT = 0, no_ht_gf_set := g, ht_20mhz_set := t\<rparr>)"
    "counted c3 s3 c4 (s3\<lparr>no_ht_set := flags s3 AND WLAN_STA_HT = 0, no_ht_gf_set := g, ht_20mhz_set := t\<rparr>)" "cap_step c3 u3 c4 u3"
    by (rule ht_join_step [OF k3]) blast
  define s4 where "s4 = s3\<lparr>no_ht_set := flags s3 AND WLAN_STA_HT = 0, no_ht_gf_set := g, ht_20mhz_set := t\<rparr>"
  have k4: "caps_ok c4" using 4(3) by (simp add: cap_step_def)
  obtain c5 where 5: "ht_update_beacon c4 = Some c5" "counted c4 s4 c5 s4" "cap_step c4 u3 c5 u3"
    by (rule ht_update_beacon_step [OF k4]) blast
  note folds = s1_def [symmetric] s2_def [symmetric] s3_def [symmetric] s4_def [symmetric]
  show ?thesis
  proof (rule that [of c5 u3 s4])
    show "bss_cap_update_on_sta_join p asoc (c, st) = Some (c5, associated_clients_update c5 u3 asoc (st[p := s4]))"
      using 1(1) 2(1) 3(1) 4(1) 5(1) unfolding folds by (simp add: bss_cap_update_on_sta_join_def)
    show "counted c ?s c5 s4" using 1(2) 2(2) 3(2) 4(2) 5(2) unfolding folds by (blast intro: counted_trans)
    show "cap_step c False c5 u3" using 1(3) 2(3) 3(3) 4(3) 5(3) by (blast intro: cap_step_trans)
  qed (simp_all add: s4_def s3_def s2_def s1_def)
qed

lemma sta_leave_step:
  fixes st :: "'a cap_sta_scheme list"
  assumes "caps_ok c" "nonerp_set (st ! p) \<longrightarrow> 0 < num_sta_non_erp c"
  obtains c' s' u where "bss_cap_update_on_sta_leave p (c, st) = Some (u, c', st[p := s'])"
    "counted c (st ! p) c' s'" "cap_step c False c' u" "counts_nothing s'"
proof -
  let ?s = "st ! p"
  obtain c1 u1 where 1: "preamble_leave (c, ?s, False) = Some (c1, ?s\<lparr>no_short_preamble_set := False\<rparr>, u1)"
    "counted c ?s c1 (?s\<lparr>no_short_preamble_set := False\<rparr>)" "cap_step c False c1 u1"
    by (rule preamble_leave_step [OF assms(1)]) blast
  define s1 where "s1 = ?s\<lparr>no_short_preamble_set := False\<rparr>"
  have k1: "caps_ok c1" using 1(3) by (simp add: cap_step_def)
  have n1: "nonerp_set s1 \<longrightarrow> 0 < num_sta_non_erp c1" using 1(2) assms(2) by (simp add: counted_def s1_def)
  obtain c2 u2 where 2: "nonerp_leave (c1, s1, u1) = Some (c2, s1\<lparr>nonerp_set := False\<rparr>, u2)"
    "counted c1 s1 c2 (s1\<lparr>nonerp_set := False\<rparr>)" "cap_step c1 u1 c2 u2"
    by (rule nonerp_leave_step [OF k1 n1]) blast
  define s2 where "s2 = s1\<lparr>nonerp_set := False\<rparr>"
  have k2: "caps_ok c2" using 2(3) by (simp add: cap_step_def)
  obtain c3 u3 where 3: "slot_leave (c2, s2, u2) = Some (c3, s2\<lparr>no_short_slot_time_set := False\<rparr>, u3)"
    "counted c2 s2 c3 (s2\<lparr>no_short_slot_time_set := False\<rparr>)" "cap_step c2 u2 c3 u3"
    by (rule slot_leave_step [OF k2]) blast
  define s3 where "s3 = s2\<lparr>no_short_slot_time_set := False\<rparr>"
  have k3: "caps_ok c3" using 3(3) by (simp add: cap_step_def)
  obtain c4 where 4: "ht_leave (c3, s3) = (c4, s3\<lparr>no_ht_gf_set := False, no_ht_set := False, ht_20mhz_set := False\<rparr>)"
    "counted c3 s3 c4 (s3\<lparr>no_ht_gf_set := False, no_ht_set := False, ht_20mhz_set := False\<rparr>)" "cap_step c3 u3 c4 u3"
    by (rule ht_leave_step [OF k3]) blast
  define s4 where "s4 = s3\<lparr>no_ht_gf_set := False, no_ht_set := False, ht_20mhz_set := False\<rparr>"
  have k4: "caps_ok c4" using 4(3) by (simp add: cap_step_def)
  obtain c5 where 5: "ht_update_beacon c4 = Some c5" "counted c4 s4 c5 s4" "cap_step c4 u3 c5 u3"
    by (rule ht_update_beacon_step [OF k4]) blast
  note folds = s1_def [symmetric] s2_def [symmetric] s3_def [symmetric] s4_def [symmetric]
  show ?thesis
  proof (rule that [of u3 c5 s4])
    show "bss_cap_update_on_sta_leave p (c, st) = Some (u3, c5, st[p := s4])"
      using 1(1) 2(1) 3(1) 4(1) 5(1) unfolding folds by (simp add: bss_cap_update_on_sta_leave_def)
    show "counted c ?s c5 s4" using 1(2) 2(2) 3(2) 4(2) 5(2) unfolding folds by (blast intro: counted_trans)
    show "cap_step c False c5 u3" using 1(3) 2(3) 3(3) 4(3) 5(3) by (blast intro: cap_step_trans)
  qed (simp add: s4_def s3_def s2_def s1_def counts_nothing_def)
qed

lemma count_of_replace:
  assumes "length ys = length xs" "p < length xs" "f (ys ! p) = f y" "\<And>q. q < length xs \<Longrightarrow> q \<noteq> p \<Longrightarrow> f (ys ! q) = f (xs ! q)"
    "a' - of_bool (f y) = a - of_bool (f (xs ! p))" "a = count_of f xs"
  shows "a' = count_of f ys"
proof -
  have "count_of f ys = count_of f (xs[p := y])"
    by (rule count_of_cong) (use assms in \<open>auto simp: nth_list_update\<close>)
  then show ?thesis using count_of_update [OF assms(2), of f y] assms(5,6) by simp
qed

lemma VCS_nonerp_pos:
  assumes "net_ok n" "p < NUM_STA"
  shows "nonerp_set (cap_stas n ! p) \<longrightarrow> 0 < num_sta_non_erp (caps n)"
  using assms by (auto simp: net_ok_def count_of_pos)

text \<open>The invariant after a step that replaced one station, with a list of stations that were updated.\<close>

lemma net_ok_replace:
  assumes n: "net_ok n" and p: "p < NUM_STA" and "counted (caps n) (cap_stas n ! p) c' s'" and step: "cap_step (caps n) False c' u"
    and "set asoc' \<subseteq> {..< NUM_STA}" and st: "\<And>q. q < NUM_STA \<Longrightarrow> q \<noteq> p \<Longrightarrow> st ! q = (if u \<and> q \<in> set asoc' then VCS_update c' (cap_stas n ! q) else cap_stas n ! q)"
    and sp: "st ! p = VCS_update c' s' \<or> st ! p = s' \<and> p \<notin> set asoc'"
    and len: "length st = NUM_STA" and sub: "set asoc' \<subseteq> insert p (set (asoc_list n))"
  shows "net_ok \<lparr>caps = c', cap_stas = st, asoc_list = asoc'\<rparr>"
proof -
  let ?xs = "cap_stas n"
  have l: "length ?xs = NUM_STA" using n by (simp add: net_ok_def)
  have r: "a' = count_of f st"
    if "a' - of_bool (f s') = a - of_bool (f (?xs ! p))" "a = count_of f ?xs" "\<And>c s. f (VCS_update c s) = f s" for a a' f
    by (rule count_of_replace [of st ?xs p f s' a' a]) (use that st sp l len p in auto)
  have v: "VCS_update c' (st ! q) = st ! q" if q: "q \<in> set asoc'" for q
  proof -
    have qn: "q < NUM_STA" using q assms(5) by auto
    show ?thesis
    proof (cases "q = p \<or> u")
      case True
      then show ?thesis using st [OF qn] sp q by (cases "q = p") auto
    next
      case False
      then have "q \<in> set (asoc_list n)" using q sub by auto
      then have "VCS_update (caps n) (?xs ! q) = ?xs ! q" using n by (simp add: net_ok_def)
      moreover have "VCS_update c' (?xs ! q) = VCS_update (caps n) (?xs ! q)"
        by (rule VCS_unchanged) (use step n False in \<open>simp_all add: net_ok_def\<close>)
      ultimately show ?thesis using st [OF qn] False by simp
    qed
  qed
  have k: "caps_ok c'" using step by (simp add: cap_step_def)
  note c = assms(3) [unfolded counted_def]
  show ?thesis
    unfolding net_ok_def
    using len assms(5) k v n [unfolded net_ok_def] c r [of _ no_short_preamble_set] r [of _ nonerp_set] r [of _ no_short_slot_time_set]
      r [of _ no_ht_set] r [of _ no_ht_gf_set] r [of _ ht_20mhz_set] by (simp del: VCS_frame) (simp add: VCS_frame)
qed

lemma sta_assoc_ok:
  assumes n: "net_ok n" and p: "p < NUM_STA"
  shows "\<exists>n'. sta_assoc p f cap htc n = Some n' \<and> net_ok n' \<and> set (asoc_list n') = insert p (set (asoc_list n))
    \<and> nonerp_set (cap_stas n' ! p) = (f AND WLAN_STA_NONERP \<noteq> 0)
    \<and> (\<forall>q < NUM_STA. q \<noteq> p \<longrightarrow> nonerp_set (cap_stas n' ! q) = nonerp_set (cap_stas n ! q))"
proof -
  define s where "s = (cap_stas n ! p)\<lparr>flags := f, capability := cap, ht_cap_info := htc\<rparr>"
  define asl where "asl = (if p \<in> set (asoc_list n) then asoc_list n else asoc_list n @ [p])"
  have l: "length (cap_stas n) = NUM_STA" "set (asoc_list n) \<subseteq> {..< NUM_STA}" and k: "caps_ok (caps n)"
    using n by (simp_all add: net_ok_def)
  let ?st = "(cap_stas n)[p := s]"
  have sp: "?st ! p = s" using p l by simp
  have pos: "nonerp_set (?st ! p) \<longrightarrow> 0 < num_sta_non_erp (caps n)"
    using VCS_nonerp_pos [OF n p] unfolding sp by (simp add: s_def)
  obtain c' s' u where j: "bss_cap_update_on_sta_join p asl (caps n, ?st) = Some (c', associated_clients_update c' u asl (?st[p := s']))"
    "counted (caps n) s c' s'" "cap_step (caps n) False c' u" "nonerp_set s' = (flags s AND WLAN_STA_NONERP \<noteq> 0)"
    by (rule sta_join_step [of "caps n" ?st p asl, OF k pos]) (unfold sp, blast)
  let ?y = "associated_clients_update c' u asl (?st[p := s'])"
  have y: "?y ! q = (if u \<and> q \<in> set asl then VCS_update c' (if q = p then s' else cap_stas n ! q)
      else if q = p then s' else cap_stas n ! q)" if "q < NUM_STA" for q
    using nth_clients [of q "?st[p := s']" c' u asl] that l by (auto simp: nth_list_update)
  have eq: "sta_assoc p f cap htc n = Some \<lparr>caps = c', cap_stas = ?y[p := VCS_update c' (?y ! p)], asoc_list = asl\<rparr>"
    using j(1) by (simp add: sta_assoc_def s_def [symmetric] asl_def [symmetric] Let_def)
  have cnt: "counted (caps n) (cap_stas n ! p) c' s'" using j(2) by (simp add: counted_def s_def)
  have yp: "VCS_update c' (?y ! p) = VCS_update c' s'" using y [OF p] by simp
  have "net_ok \<lparr>caps = c', cap_stas = ?y[p := VCS_update c' (?y ! p)], asoc_list = asl\<rparr>"
    by (rule net_ok_replace [OF n p cnt j(3)]) (use l p y yp in \<open>auto simp: asl_def nth_list_update\<close>)
  moreover have "set asl = insert p (set (asoc_list n))" by (auto simp: asl_def)
  ultimately show ?thesis
    using eq j(4) y yp l p by (simp add: s_def)
qed

lemma sta_leave_ok:
  assumes n: "net_ok n" and p: "p < NUM_STA"
  shows "\<exists>n'. sta_leave p n = Some n' \<and> net_ok n' \<and> set (asoc_list n') = set (asoc_list n) - {p}
    \<and> (p \<in> set (asoc_list n) \<longrightarrow> counts_nothing (cap_stas n' ! p))
    \<and> (\<forall>q < NUM_STA. q \<noteq> p \<longrightarrow> nonerp_set (cap_stas n' ! q) = nonerp_set (cap_stas n ! q))"
proof (cases "p \<in> set (asoc_list n)")
  case True
  define asl where "asl = removeAll p (asoc_list n)"
  have l: "length (cap_stas n) = NUM_STA" "set (asoc_list n) \<subseteq> {..< NUM_STA}" and k: "caps_ok (caps n)"
    using n by (simp_all add: net_ok_def)
  obtain c' s' u where j: "bss_cap_update_on_sta_leave p (caps n, cap_stas n) = Some (u, c', (cap_stas n)[p := s'])"
    "counted (caps n) (cap_stas n ! p) c' s'" "cap_step (caps n) False c' u" "counts_nothing s'"
    by (rule sta_leave_step [OF k VCS_nonerp_pos [OF n p]]) blast
  let ?y = "associated_clients_update c' u asl ((cap_stas n)[p := s'])"
  have y: "?y ! q = (if u \<and> q \<in> set asl then VCS_update c' (cap_stas n ! q) else if q = p then s' else cap_stas n ! q)"
    if "q < NUM_STA" for q
    using nth_clients [of q "(cap_stas n)[p := s']" c' u asl] that l by (auto simp: nth_list_update asl_def)
  have eq: "sta_leave p n = Some \<lparr>caps = c', cap_stas = ?y, asoc_list = asl\<rparr>"
    using True j(1) by (simp add: sta_leave_def asl_def [symmetric] Let_def)
  have "net_ok \<lparr>caps = c', cap_stas = ?y, asoc_list = asl\<rparr>"
    by (rule net_ok_replace [OF n p j(2,3)]) (use l p y in \<open>auto simp: asl_def\<close>)
  then show ?thesis using True eq j(4) y p by (auto simp: asl_def)
qed (use n in \<open>simp add: sta_leave_def\<close>)

lemma sta_reauth_ok: "net_ok n \<Longrightarrow> net_ok (sta_reauth p n)"
  by (auto simp: net_ok_def sta_reauth_def)

text \<open>An access point that has started sends a beacon that announces neither non-ERP stations nor
  protection; its stations associate, leave and authenticate again.\<close>

inductive net_reach :: "ap_net \<Rightarrow> bool" where
  net_start: "bcn_ok b d \<Longrightarrow> \<not> bit d 0 \<Longrightarrow> \<not> bit d 1 \<Longrightarrow>
    net_reach \<lparr>caps = (start_ap_caps c)\<lparr>apb := b\<rparr>, cap_stas = replicate NUM_STA init_cap_sta, asoc_list = []\<rparr>"
| net_assoc: "net_reach n \<Longrightarrow> p < NUM_STA \<Longrightarrow> sta_assoc p f cap htc n = Some n' \<Longrightarrow> net_reach n'"
| net_leave: "net_reach n \<Longrightarrow> p < NUM_STA \<Longrightarrow> sta_leave p n = Some n' \<Longrightarrow> net_reach n'"
| net_reauth: "net_reach n \<Longrightarrow> p < NUM_STA \<Longrightarrow> net_reach (sta_reauth p n)"

inductive_cases net_reachE: "net_reach n"

lemma net_start_ok:
  assumes "bcn_ok b d" "\<not> bit d 0" "\<not> bit d 1"
  shows "net_ok \<lparr>caps = (start_ap_caps c)\<lparr>apb := b\<rparr>, cap_stas = replicate NUM_STA init_cap_sta, asoc_list = []\<rparr>"
proof -
  have z: "count_of f (replicate NUM_STA init_cap_sta) = 0" if "\<not> f init_cap_sta" for f
    using count_of_pos [of f "replicate NUM_STA init_cap_sta"] that by (auto simp: count_of_def)
  have e: "erp_ie b = d" by (rule bcn_ok_erp [OF assms(1)])
  have i: "\<not> no_short_preamble_set init_cap_sta" "\<not> nonerp_set init_cap_sta" "\<not> no_short_slot_time_set init_cap_sta"
    "\<not> no_ht_set init_cap_sta" "\<not> no_ht_gf_set init_cap_sta" "\<not> ht_20mhz_set init_cap_sta"
    by (simp_all add: init_cap_sta_def)
  show ?thesis
    unfolding net_ok_def caps_ok_def ap_net.simps start_ap_caps_def ap_caps.simps
    using assms i by (simp add: z e)
qed

lemma net_reach_ok: "net_reach n \<Longrightarrow> net_ok n"
proof (induction rule: net_reach.induct)
  case (net_start b d c)
  then show ?case by (rule net_start_ok)
next
  case (net_assoc n p f cap htc n')
  then show ?case using sta_assoc_ok [of n p f cap htc] by auto
next
  case (net_leave n p n')
  then show ?case using sta_leave_ok [of n p] by auto
qed (rule sta_reauth_ok)

lemma VCS_auto:
  assumes "caps_ok c" "vrtl_carrier_sense c = 2" "VCS_update c s = s"
  shows "(rtsen s \<or> cts2self s) = (0 < num_sta_non_erp c)"
proof -
  have "bit (erp_ie (apb c)) 1 = (0 < num_sta_non_erp c)" using assms(1) by (simp add: caps_ok_def)
  then have "(rtsen (VCS_update c s) \<or> cts2self (VCS_update c s)) = (0 < num_sta_non_erp c)"
    using assms(2) caps_ok_enable [OF assms(1)] by (simp add: VCS_update_def and_2_bit)
  then show ?thesis by (simp add: assms(3))
qed

section \<open>Properties\<close>


definition demo_bcn :: ap_bcn where
  "demo_bcn = \<lparr>bcn = (replicate 12 0 @ [0, 1, 0x61, 42, 1, 0, 50, 1, 0x6c], 21), bstart_bss = True, erp_enable = True, erp_ie = 0,
     wps_beacon_ie = None, update_bcn = False\<rparr>"

definition demo_caps :: ap_caps where
  "demo_caps = start_ap_caps \<lparr>num_sta_no_short_preamble = 7, num_sta_non_erp = 7, num_sta_no_short_slot_time = 7, num_sta_no_ht = 7,
     num_sta_ht_no_gf = 7, num_sta_ht_20mhz = 7, olbc_ht = True, ht_op_mode = 3, ap_ht_option = True, ap_ht_cap_info = 0,
     cur_wireless_mode = 3, vrtl_carrier_sense = 2, vcs_type = 1, apb = demo_bcn\<rparr>\<lparr>apb := demo_bcn\<rparr>"

definition demo_net :: ap_net where
  "demo_net = \<lparr>caps = demo_caps, cap_stas = replicate NUM_STA init_cap_sta, asoc_list = []\<rparr>"

lemma demo_net_reach: "net_reach demo_net"
proof -
  have "bcn_ok demo_bcn 0"
    unfolding bcn_ok_def
    by (intro conjI exI [of _ "replicate 12 0"] exI [of _ "[(0, [0x61])]"] exI [of _ "[(50, [0x6c])]"] exI [of _ "[]"])
      (simp_all add: demo_bcn_def ie_ok_def enc_ie_def)
  from net_start [OF this] show ?thesis unfolding demo_net_def demo_caps_def by simp
qed


end
