(* ===== verification/ApAuth.thy ===== *)
theory ApAuth
  imports StaTable ApCap
begin

text \<open>
  Authentication at an access point: \<^verbatim>\<open>OnAuth\<close> and the response \<^verbatim>\<open>issue_auth\<close> writes
  (\<^verbatim>\<open>core/rtw_mlme_ext.c\<close>), over the station table of \<open>StaTable\<close> and the capabilities of \<open>ApCap\<close>.
  A frame is the memory from its first byte on, with its length; \<open>None\<close> is a read outside of the memory.
\<close>

section \<open>State\<close>

definition WIFI_FW_AUTH_NULL :: u32 where "WIFI_FW_AUTH_NULL = 0x00000100"
definition WIFI_FW_AUTH_STATE :: u32 where "WIFI_FW_AUTH_STATE = 0x00000200"
definition WIFI_FW_AUTH_SUCCESS :: u32 where "WIFI_FW_AUTH_SUCCESS = 0x00000400"
definition WIFI_FW_ASSOC_STATE :: u32 where "WIFI_FW_ASSOC_STATE = 0x00002000"

text \<open>The fields of \<^verbatim>\<open>struct sta_info\<close> that authentication and association use.\<close>

record auth_sta = cap_sta +
  auth_seq :: nat
  authalg :: nat
  chg_txt :: bytes
  bssratelen :: nat
  bssrateset :: bytes
  dot8021xalg :: nat
  sta_wpa_psk :: u32
  wpa_group_cipher :: u32
  wpa2_group_cipher :: u32
  wpa_pairwise_cipher :: u32
  wpa2_pairwise_cipher :: u32
  sta_wpa_ie :: bytes
  qos_option :: bool
  qos_info :: u8
  has_legacy_ac :: bool
  max_sp_len :: u8
  uapsd_vo :: u8
  uapsd_vi :: u8
  uapsd_be :: u8
  uapsd_bk :: u8
  ht_cap :: bytes
  sta_ht_option :: bool
  ampdu_enable :: bool
  sgi :: bool
  bwmode :: nat
  ch_offset :: nat
  agg_enable_bitmap :: u16
  candidate_tid_bitmap :: u16

text \<open>An allocation clears it.\<close>

definition init_auth_sta :: auth_sta where
  "init_auth_sta = \<lparr>flags = 0, capability = 0, ht_cap_info = 0, no_short_preamble_set = False, nonerp_set = False,
     no_short_slot_time_set = False, no_ht_set = False, no_ht_gf_set = False, ht_20mhz_set = False,
     rtsen = False, cts2self = False, auth_seq = 0, authalg = 0, chg_txt = replicate 128 0,
     bssratelen = 0, bssrateset = replicate 16 0, dot8021xalg = 0, sta_wpa_psk = 0, wpa_group_cipher = 0,
     wpa2_group_cipher = 0, wpa_pairwise_cipher = 0, wpa2_pairwise_cipher = 0, sta_wpa_ie = replicate 32 0,
     qos_option = False, qos_info = 0, has_legacy_ac = False, max_sp_len = 0, uapsd_vo = 0, uapsd_vi = 0, uapsd_be = 0,
     uapsd_bk = 0, ht_cap = replicate 26 0, sta_ht_option = False, ampdu_enable = False, sgi = False, bwmode = 0,
     ch_offset = 0, agg_enable_bitmap = 0, candidate_tid_bitmap = 0\<rparr>"

text \<open>Frames the access point sends: an authentication response with its body, an association response with status
  and association identifier, a deauthentication with
  its reason.\<close>

datatype ap_frame = AUTH bytes bytes | ASSOCRSP bytes u16 nat | DEAUTH bytes nat

text \<open>The settings of the access point.\<close>

record ap_conf =
  ap_state :: bool
  dot11AuthAlgrthm :: nat
  dot11PrivacyAlgrthm :: privacy
  acl_mode :: nat
  acl_nodes :: "wlan_acl_node list"
  auth_to :: nat
  assoc_to :: nat

text \<open>Its stations: the table, what it knows of each slot, the counts and the beacon, the list of the associated
  ones, and the frames it sent, newest first.\<close>

record ap_stas =
  tbl :: sta_table
  apcaps :: ap_caps
  astas :: "auth_sta list"
  asocs :: "nat list"
  asoc_list_cnt :: int
  sent :: "ap_frame list"

definition send :: "ap_frame \<Rightarrow> ap_stas \<Rightarrow> ap_stas" where
  "send f s = s\<lparr>sent := f # sent s\<rparr>"

definition upd_state :: "nat \<Rightarrow> (u32 \<Rightarrow> u32) \<Rightarrow> ap_stas \<Rightarrow> ap_stas" where
  "upd_state p g s = s\<lparr>tbl := update_sta p (\<lambda>x. x\<lparr>sta_state := g (sta_state x)\<rparr>) (tbl s)\<rparr>"

definition upd_asta :: "nat \<Rightarrow> (auth_sta \<Rightarrow> auth_sta) \<Rightarrow> ap_stas \<Rightarrow> ap_stas" where
  "upd_asta p g s = s\<lparr>astas := (astas s)[p := g (astas s ! p)]\<rparr>"

definition upd_expire :: "nat \<Rightarrow> nat \<Rightarrow> ap_stas \<Rightarrow> ap_stas" where
  "upd_expire p e s = s\<lparr>tbl := update_slot p (\<lambda>x. x\<lparr>expire_to := e\<rparr>) (tbl s)\<rparr>"

abbreviation state_of :: "ap_stas \<Rightarrow> nat \<Rightarrow> u32" where
  "state_of s p \<equiv> sta_state (sta_buf (spriv (tbl s)) ! p)"

section \<open>Operations\<close>

text \<open>The body \<^verbatim>\<open>issue_auth\<close> writes for a station: algorithm, sequence number, status and the challenge.\<close>

definition auth_body :: "nat \<Rightarrow> nat \<Rightarrow> u32 \<Rightarrow> bytes \<Rightarrow> u16 \<Rightarrow> bytes" where
  "auth_body alg seq state chg status =
     (let val16 = (if status \<noteq> 0 then 0 else of_nat alg :: u16) in
      put_le16 val16 @ put_le16 (of_nat seq) @ put_le16 status
      @ (if seq = 2 \<and> state AND WIFI_FW_AUTH_STATE \<noteq> 0 \<and> val16 \<noteq> 0 then [16, 128] @ take 128 chg else []))"

text \<open>The end of a refused frame: the station, if one was found, is released, and the response goes out from a
  cleared station.\<close>

definition auth_fail :: "nat option \<Rightarrow> u16 \<Rightarrow> bytes \<Rightarrow> ap_stas \<Rightarrow> rtw_status \<times> ap_stas" where
  "auth_fail pstat status sa s =
     (RTW_FAIL, send (AUTH sa (auth_body 0 2 0 (replicate 128 0) status))
        (case pstat of None \<Rightarrow> s | Some p \<Rightarrow> s\<lparr>tbl := snd (rtw_free_stainfo (tbl s) (Some p))\<rparr>))"

text \<open>The station of the sender: a new one, or the known one, which leaves the associated ones.\<close>

definition auth_station :: "bytes \<Rightarrow> ap_stas \<Rightarrow> nat option \<times> ap_stas" where
  "auth_station sa s =
     (case rtw_get_stainfo (spriv (tbl s)) sa of
        None \<Rightarrow>
          (case rtw_alloc_stainfo (tbl s) sa of
             (None, t) \<Rightarrow> (None, s\<lparr>tbl := t\<rparr>)
           | (Some p, t) \<Rightarrow>
               (Some p, upd_asta p (\<lambda>x. x\<lparr>auth_seq := 0\<rparr>) (upd_state p (\<lambda>_. WIFI_FW_AUTH_NULL)
                  (upd_asta p (\<lambda>_. init_auth_sta) (s\<lparr>tbl := t\<rparr>)))))
      | Some p \<Rightarrow>
          (Some p, if p \<in> set (asocs s) then s\<lparr>asocs := removeAll p (asocs s), asoc_list_cnt := asoc_list_cnt s - 1\<rparr> else s))"

definition join_auth_list :: "nat \<Rightarrow> sta_table \<Rightarrow> sta_table" where
  "join_auth_list p t =
     (if p \<in> set (auth_list t) then t else t\<lparr>auth_list := auth_list t @ [p], auth_list_cnt := auth_list_cnt t + 1\<rparr>)"

text \<open>The third frame of the shared key handshake: the challenge is looked for behind the fixed fields and the four
  bytes an initialization vector would take.\<close>

definition auth_challenge :: "ap_conf \<Rightarrow> bytes \<Rightarrow> nat \<Rightarrow> nat \<Rightarrow> ap_stas \<Rightarrow> (u16 + ap_stas) option" where
  "auth_challenge cf b len p s =
     do { r \<leftarrow> rtw_get_ie (drop 34 b) 16 (int len - 34);
          case r of
            None \<Rightarrow> Some (Inl 15)
          | Some ie \<Rightarrow>
              (if snd ie = 0 then Some (Inl 15)
               else
                 do { txt \<leftarrow> rds b (34 + fst ie + 2) 128;
                      Some (if txt = take 128 (chg_txt (astas s ! p))
                        then Inr (upd_expire p (assoc_to cf)
                          (upd_state p (\<lambda>st. st AND NOT WIFI_FW_AUTH_STATE OR WIFI_FW_AUTH_SUCCESS) s))
                        else Inl 15) }) }"

text \<open>The step of the handshake: a new state of the station, or the status of the refusal.\<close>

definition auth_step ::
    "ap_conf \<Rightarrow> nat \<Rightarrow> bytes \<Rightarrow> nat \<Rightarrow> nat \<Rightarrow> nat \<Rightarrow> nat \<Rightarrow> ap_stas \<Rightarrow> (u16 + ap_stas) option" where
  "auth_step cf auth_mode b len algorithm seq p s =
     (if auth_seq (astas s ! p) + 1 \<noteq> seq then Some (Inl 14)
      else if algorithm = 0 \<and> (auth_mode = 0 \<or> auth_mode = 2) then
        (if seq = 1 then
           Some (Inr (upd_asta p (\<lambda>x. x\<lparr>authalg := algorithm\<rparr>) (upd_expire p (assoc_to cf)
             (upd_state p (\<lambda>st. st AND NOT WIFI_FW_AUTH_NULL OR WIFI_FW_AUTH_SUCCESS) s))))
         else Some (Inl 14))
      else if seq = 1 then
        Some (Inr (upd_asta p (\<lambda>x. x\<lparr>authalg := algorithm, auth_seq := 2\<rparr>)
          (upd_state p (\<lambda>st. st AND NOT WIFI_FW_AUTH_NULL OR WIFI_FW_AUTH_STATE) s)))
      else if seq = 3 then
        auth_challenge cf b len p s
      else Some (Inl 14))"

definition auth_known ::
    "ap_conf \<Rightarrow> nat \<Rightarrow> bytes \<Rightarrow> nat \<Rightarrow> bytes \<Rightarrow> nat \<Rightarrow> nat \<Rightarrow> nat \<Rightarrow> ap_stas \<Rightarrow>
     (rtw_status \<times> ap_stas) option" where
  "auth_known cf auth_mode b len sa algorithm seq p s =
     (let s = s\<lparr>tbl := join_auth_list p (tbl s)\<rparr>;
          s = (if auth_seq (astas s ! p) = 0 then upd_expire p (auth_to cf) s else s) in
      do { r \<leftarrow> auth_step cf auth_mode b len algorithm seq p s;
           case r of
             Inl status \<Rightarrow> Some (auth_fail (Some p) status sa s)
           | Inr s \<Rightarrow>
               (let s = upd_asta p (\<lambda>x. x\<lparr>auth_seq := seq + 1\<rparr>) s; x = astas s ! p;
                    s = send (AUTH (hwaddr (sta_buf (spriv (tbl s)) ! p))
                          (auth_body (authalg x) (auth_seq x) (state_of s p) (chg_txt x) 0)) s in
                Some (RTW_SUCCESS,
                  if state_of s p AND WIFI_FW_AUTH_SUCCESS \<noteq> 0 then upd_asta p (\<lambda>x. x\<lparr>auth_seq := 0\<rparr>) s else s)) })"

text \<open>\<^verbatim>\<open>OnAuth\<close>.\<close>

definition effective_mode :: "ap_conf \<Rightarrow> nat" where
  "effective_mode cf =
     (if dot11AuthAlgrthm cf = 2 \<and> dot11PrivacyAlgrthm cf \<noteq> WEP40 \<and> dot11PrivacyAlgrthm cf \<noteq> WEP104
      then 0 else dot11AuthAlgrthm cf)"

definition OnAuth ::
    "ap_conf \<Rightarrow> bytes \<Rightarrow> nat \<Rightarrow> ap_stas \<Rightarrow> (rtw_status \<times> ap_stas) option" where
  "OnAuth cf b len s =
     (if \<not> ap_state cf then Some (RTW_FAIL, s)
      else
        do { sa \<leftarrow> rds b 10 6;
             seq \<leftarrow> rd_le16 b 26;
             algorithm \<leftarrow> rd_le16 b 24;
             if (algorithm > 0 \<and> effective_mode cf = 0) \<or> (algorithm = 0 \<and> effective_mode cf = 1)
             then Some (auth_fail None 13 sa s)
             else if \<not> rtw_access_ctrl (acl_mode cf) (acl_nodes cf) sa then Some (auth_fail None 17 sa s)
             else
               (case auth_station sa s of
                  (None, s) \<Rightarrow> Some (auth_fail None 17 sa s)
                | (Some p, s) \<Rightarrow> auth_known cf (effective_mode cf) b len sa algorithm seq p s) })"

section \<open>What the table keeps\<close>

text \<open>Changes of a station's own fields and of the list of authenticating stations do not show in the map from
  addresses to slots.\<close>

definition same_map :: "sta_table \<Rightarrow> sta_table \<Rightarrow> bool" where
  "same_map t t' \<longleftrightarrow> (table_ok t \<longrightarrow> table_ok t') \<and> (\<forall>a. rtw_get_stainfo (spriv t') a = rtw_get_stainfo (spriv t) a)
     \<and> (\<forall>q. aid (slots t' ! q) = aid (slots t ! q)) \<and> (\<forall>q. addr_of t' q = addr_of t q)"

lemma same_map_refl [simp]: "same_map t t" by (simp add: same_map_def)

lemma same_map_trans [trans]: "same_map t t' \<Longrightarrow> same_map t' t'' \<Longrightarrow> same_map t t''" by (simp add: same_map_def)

lemma same_map_update_sta:
  assumes "\<And>x. hwaddr (g x) = hwaddr x"
  shows "same_map t (update_sta p g t)"
proof -
  have h: "addr_of (update_sta p g t) q = addr_of t q" for q
    by (cases "p < length (sta_buf (spriv t))") (auto simp: update_sta_def nth_list_update list_update_beyond assms)
  then show ?thesis
    by (simp add: same_map_def table_ok_update_sta assms rtw_get_stainfo_def table_frame)
qed

lemma same_map_update_slot:
  assumes "\<And>x. aid (g x) = aid x"
  shows "same_map t (update_slot p g t)"
proof -
  have "aid (slots (update_slot p g t) ! q) = aid (slots t ! q)" for q
    by (cases "p < length (slots t)") (auto simp: update_slot_def nth_list_update list_update_beyond assms)
  then show ?thesis by (simp add: same_map_def table_ok_update_slot table_frame)
qed

lemma same_map_spriv: "spriv t' = spriv t \<Longrightarrow> slots t' = slots t \<Longrightarrow> sta_aid t' = sta_aid t \<Longrightarrow> same_map t t'"
  by (simp add: same_map_def table_ok_def table_inv_def hashed_def)

lemma same_map_join_auth_list: "same_map t (join_auth_list p t)"
  by (rule same_map_spriv) (simp_all add: join_auth_list_def)

lemma upd_tbl:
  "same_map (tbl s) (tbl (upd_state p f s))" "same_map (tbl s) (tbl (upd_expire p e s))"
  "tbl (upd_asta p h s) = tbl s" "tbl (send m s) = tbl s"
  "apcaps (upd_state p f s) = apcaps s" "apcaps (upd_expire p e s) = apcaps s" "apcaps (upd_asta p h s) = apcaps s"
  "apcaps (send m s) = apcaps s"
  "asocs (upd_state p f s) = asocs s" "asocs (upd_expire p e s) = asocs s" "asocs (upd_asta p h s) = asocs s"
  "asocs (send m s) = asocs s"
  "auth_list (tbl (upd_state p f s)) = auth_list (tbl s)" "auth_list (tbl (upd_expire p e s)) = auth_list (tbl s)"
  by (simp_all add: upd_state_def upd_expire_def upd_asta_def send_def same_map_update_sta same_map_update_slot)
    (simp_all add: update_sta_def update_slot_def)

definition stas_ok :: "ap_stas \<Rightarrow> bool" where
  "stas_ok s \<longleftrightarrow> table_ok (tbl s) \<and> set (asocs s) \<subseteq> set (hashed (tbl s))"

lemma same_map_hashed:
  assumes "same_map t t'" "table_ok t"
  shows "set (hashed t') = set (hashed t)"
proof -
  have "q \<in> set (hashed t') \<longleftrightarrow> rtw_get_stainfo (spriv t') (addr_of t' q) = Some q" if "sta_addr (addr_of t q)" for q
    using assms get_iff [of t' "addr_of t' q" q] that by (simp add: same_map_def)
  moreover have "q \<in> set (hashed t) \<longleftrightarrow> rtw_get_stainfo (spriv t) (addr_of t q) = Some q" if "sta_addr (addr_of t q)" for q
    using assms get_iff [of t "addr_of t q" q] that by simp
  ultimately have "q \<in> set (hashed t') \<longleftrightarrow> q \<in> set (hashed t)" if "sta_addr (addr_of t q)" for q
    using assms that by (simp add: same_map_def)
  moreover have "sta_addr (addr_of t q)" if "q \<in> set (hashed t)" for q using assms that by (simp add: table_ok_def)
  moreover have "sta_addr (addr_of t q)" if "q \<in> set (hashed t')" for q
    using assms that unfolding same_map_def table_ok_def by metis
  ultimately show ?thesis by blast
qed

lemma auth_station_ok:
  assumes "stas_ok s" "sta_addr sa" "auth_station sa s = (Some p, s')"
  shows "table_ok (tbl s') \<and> (\<forall>b. sta_addr b \<longrightarrow> rtw_get_stainfo (spriv (tbl s')) b
      = (if b = sa then Some p else rtw_get_stainfo (spriv (tbl s)) b))
    \<and> set (asocs s') = set (asocs s) - {p} \<and> apcaps s' = apcaps s
    \<and> aid (slots (tbl s') ! p) = (if rtw_get_stainfo (spriv (tbl s)) sa = None then 0 else aid (slots (tbl s) ! p))
    \<and> (rtw_get_stainfo (spriv (tbl s)) sa \<noteq> None \<longrightarrow> rtw_get_stainfo (spriv (tbl s)) sa = Some p)"
proof (cases "rtw_get_stainfo (spriv (tbl s)) sa")
  case None
  have ok: "table_ok (tbl s)" and inv: "table_inv (tbl s)" using assms(1) by (simp_all add: stas_ok_def table_ok_def)
  obtain t where a: "rtw_alloc_stainfo (tbl s) sa = (Some p, t)"
    and s': "s' = upd_asta p (\<lambda>x. x\<lparr>auth_seq := 0\<rparr>) (upd_state p (\<lambda>_. WIFI_FW_AUTH_NULL) (upd_asta p (\<lambda>_. init_auth_sta) (s\<lparr>tbl := t\<rparr>)))"
    using assms(3) None by (auto simp: auth_station_def split: prod.splits option.splits)
  have m: "same_map t (tbl s')" using upd_tbl(1) [of "upd_asta p (\<lambda>_. init_auth_sta) (s\<lparr>tbl := t\<rparr>)"] by (simp add: s' upd_tbl)
  have "p \<notin> set (hashed (tbl s)) \<and> aid (slots t ! p) = 0"
    by (rule alloc_cases [OF inv a]) (simp_all add: init_slot_def)
  then have n: "p \<notin> set (hashed (tbl s))" and z: "aid (slots t ! p) = 0" by blast+
  have "p \<notin> set (asocs s)" using n assms(1) by (auto simp: stas_ok_def)
  moreover have "asocs s' = asocs s" "apcaps s' = apcaps s" by (simp_all add: s' upd_tbl)
  moreover have "table_ok (tbl s')" "aid (slots (tbl s') ! p) = 0"
    using m z alloc_table_ok [OF ok assms(2) None a] by (simp_all only: same_map_def simp_thms)
  moreover have "rtw_get_stainfo (spriv (tbl s')) b = (if b = sa then Some p else rtw_get_stainfo (spriv (tbl s)) b)"
    if "sta_addr b" for b using m alloc_lookup [OF ok assms(2) None a that] unfolding same_map_def by metis
  ultimately show ?thesis using None by auto
next
  case (Some q)
  then show ?thesis using assms by (auto simp: auth_station_def stas_ok_def split: if_splits)
qed

lemma auth_challenge_ok:
  assumes "auth_challenge cf b len p s = Some (Inr s')"
  shows "s' = upd_expire p (assoc_to cf) (upd_state p (\<lambda>st. st AND NOT WIFI_FW_AUTH_STATE OR WIFI_FW_AUTH_SUCCESS) s)"
proof (cases "rtw_get_ie (drop 34 b) 16 (int len - 34)")
  case None
  then show ?thesis using assms by (simp add: auth_challenge_def)
next
  case (Some r)
  show ?thesis
  proof (cases r)
    case None
    then show ?thesis using assms Some by (simp add: auth_challenge_def)
  next
    case (Some ie)
    then show ?thesis using assms \<open>rtw_get_ie _ _ _ = Some r\<close>
      by (cases "snd ie = 0"; cases "rds b (34 + fst ie + 2) 128") (simp_all add: auth_challenge_def split: if_splits)
  qed
qed

lemma auth_step_ok:
  assumes "auth_step cf mode b len algorithm seq p s = Some (Inr s')"
  shows "same_map (tbl s) (tbl s') \<and> asocs s' = asocs s \<and> apcaps s' = apcaps s \<and> auth_list (tbl s') = auth_list (tbl s)"
  using assms
  by (auto simp: auth_step_def upd_tbl split: if_splits dest!: auth_challenge_ok
      intro: same_map_trans [OF upd_tbl(1) upd_tbl(2)])

lemma auth_known_ok:
  assumes "auth_known cf mode b len sa algorithm seq p s = Some (r, s')"
  shows "apcaps s' = apcaps s \<and> asocs s' = asocs s
    \<and> (r = RTW_SUCCESS \<longrightarrow> same_map (tbl s) (tbl s') \<and> p \<in> set (auth_list (tbl s')))
    \<and> (r \<noteq> RTW_SUCCESS \<longrightarrow> (\<exists>t. same_map (tbl s) t \<and> tbl s' = snd (rtw_free_stainfo t (Some p))))"
proof -
  define s1 where "s1 = s\<lparr>tbl := join_auth_list p (tbl s)\<rparr>"
  define s2 where "s2 = (if auth_seq (astas s1 ! p) = 0 then upd_expire p (auth_to cf) s1 else s1)"
  have j: "p \<in> set (auth_list (join_auth_list p (tbl s)))" by (simp add: join_auth_list_def)
  have m: "same_map (tbl s) (tbl s2)" and k: "asocs s2 = asocs s" "apcaps s2 = apcaps s" "p \<in> set (auth_list (tbl s2))"
    using same_map_join_auth_list [of "tbl s" p] upd_tbl(2) [of s1 p "auth_to cf"] j
    by (auto simp: s2_def s1_def upd_tbl intro: same_map_trans)
  obtain x where x: "auth_step cf mode b len algorithm seq p s2 = Some x"
    using assms unfolding auth_known_def s1_def [symmetric] Let_def s2_def [symmetric] by (auto simp: bind_eq_Some_conv)
  show ?thesis
  proof (cases x)
    case (Inl status)
    then show ?thesis using assms x m k
      unfolding auth_known_def s1_def [symmetric] Let_def s2_def [symmetric] by (auto simp: auth_fail_def upd_tbl)
  next
    case (Inr s3)
    note st = auth_step_ok [OF x [unfolded Inr]]
    have "same_map (tbl s) (tbl s3)" using m st same_map_trans by blast
    then show ?thesis using assms x st k Inr
      unfolding auth_known_def s1_def [symmetric] Let_def s2_def [symmetric] by (auto simp: upd_tbl)
  qed
qed

lemma auth_station_None: "table_ok (tbl s) \<Longrightarrow> auth_station sa s = (None, s') \<Longrightarrow> s' = s"
  using stas.alloc_None [of "tbl s" sa] by (auto simp: auth_station_def split: option.splits prod.splits)

lemma OnAuth_cases:
  assumes "OnAuth cf b len s = Some (r, s')" "rds b 10 6 = Some sa" "table_ok (tbl s)"
  obtains (early) f where "r = RTW_FAIL" "s' = send f s \<or> s' = s"
  | (known) p s1 algorithm seq where "auth_station sa s = (Some p, s1)"
    "auth_known cf (effective_mode cf) b len sa algorithm seq p s1 = Some (r, s')"
proof (cases "ap_state cf")
  case False
  then show ?thesis using assms(1) early by (simp add: OnAuth_def)
next
  case True
  obtain seq algorithm where sq: "rd_le16 b 26 = Some seq" "rd_le16 b 24 = Some algorithm"
    using assms(1,2) True by (auto simp: OnAuth_def bind_eq_Some_conv)
  define C where "C \<longleftrightarrow> (algorithm > 0 \<and> effective_mode cf = 0) \<or> (algorithm = 0 \<and> effective_mode cf = 1)"
  have e0: "OnAuth cf b len s = (if C then Some (auth_fail None 13 sa s)
      else if \<not> rtw_access_ctrl (acl_mode cf) (acl_nodes cf) sa then Some (auth_fail None 17 sa s)
      else (case auth_station sa s of
        (None, s) \<Rightarrow> Some (auth_fail None 17 sa s)
      | (Some p, s) \<Rightarrow> auth_known cf (effective_mode cf) b len sa algorithm seq p s))"
    using assms(2) sq True unfolding C_def by (simp add: OnAuth_def)
  show ?thesis
  proof (cases "C \<or> \<not> rtw_access_ctrl (acl_mode cf) (acl_nodes cf) sa")
    case True
    then show ?thesis using assms(1) early unfolding e0 by (cases C) (auto simp: auth_fail_def)
  next
    case False
    then have e: "OnAuth cf b len s = (case auth_station sa s of
        (None, s) \<Rightarrow> Some (auth_fail None 17 sa s)
      | (Some p, s) \<Rightarrow> auth_known cf (effective_mode cf) b len sa algorithm seq p s)"
      unfolding e0 by simp
    obtain q s1 where q: "auth_station sa s = (q, s1)" by (rule prod.exhaust)
    show ?thesis
    proof (cases q)
      case None
      then have "s1 = s" using auth_station_None [OF assms(3)] q by simp
      then show ?thesis using e q None assms(1) early by (auto simp: auth_fail_def)
    next
      case (Some p)
      then show ?thesis using e q assms(1) known by simp
    qed
  qed
qed

lemma upd_fields:
  "astas (upd_state p f s) = astas s" "astas (upd_expire p e s) = astas s" "astas (send m s) = astas s"
  "length (astas (upd_asta p h s)) = length (astas s)"
  "p < length (astas s) \<Longrightarrow> astas (upd_asta p h s) ! p = h (astas s ! p)"
  "state_of (upd_expire p e s) q = state_of s q" "state_of (upd_asta p h s) q = state_of s q" "state_of (send m s) q = state_of s q"
  "state_of (s\<lparr>tbl := join_auth_list p (tbl s)\<rparr>) q = state_of s q"
  "p < length (sta_buf (spriv (tbl s))) \<Longrightarrow> state_of (upd_state p f s) p = f (state_of s p)"
  "length (sta_buf (spriv (tbl (upd_state p f s)))) = length (sta_buf (spriv (tbl s)))"
  "length (sta_buf (spriv (tbl (upd_expire p e s)))) = length (sta_buf (spriv (tbl s)))"
  "sta_buf (spriv (join_auth_list p t)) = sta_buf (spriv t)"
  by (simp_all add: upd_state_def upd_expire_def upd_asta_def send_def update_sta_def update_slot_def join_auth_list_def)

text \<open>The two frames of a station that authenticates with a shared key.\<close>

lemma auth_frame_reads:
  assumes "b = h1 @ sa @ h2 @ put_le16 a @ put_le16 n @ rest" "length h1 = 10" "length sa = 6" "length h2 = 8"
  shows "rds b 10 6 = Some sa" "rd_le16 b 24 = Some (unat a)" "rd_le16 b 26 = Some (unat n)"
proof -
  have "b = h1 @ sa @ (h2 @ put_le16 a @ put_le16 n @ rest)" using assms(1) by simp
  from rds_enc [OF this, of 6] show "rds b 10 6 = Some sa" using assms by simp
  show "rd_le16 b 24 = Some (unat a)" using rd_le16_put [of "h1 @ sa @ h2" a "put_le16 n @ rest"] assms by simp
  show "rd_le16 b 26 = Some (unat n)"
    using rd_le16_put [of "h1 @ sa @ h2 @ put_le16 a" n rest] assms by (simp add: length_put_le16)
qed

lemma OnAuth_shared:
  assumes "ap_state cf" "effective_mode cf = 1" "rtw_access_ctrl (acl_mode cf) (acl_nodes cf) sa"
    "rds b 10 6 = Some sa" "rd_le16 b 24 = Some 1" "rd_le16 b 26 = Some seq" "auth_station sa s = (Some p, s1)"
  shows "OnAuth cf b len s = auth_known cf 1 b len sa 1 seq p s1"
  using assms by (simp add: OnAuth_def)

lemma shared_first_frame:
  assumes "auth_seq (astas s ! p) = 0" "state_of s p = WIFI_FW_AUTH_NULL" "p < length (astas s)"
    "p < length (sta_buf (spriv (tbl s)))"
  shows "\<exists>s'. auth_known cf 1 b len sa 1 1 p s = Some (RTW_SUCCESS, s') \<and> auth_seq (astas s' ! p) = 2
    \<and> chg_txt (astas s' ! p) = chg_txt (astas s ! p) \<and> length (astas s') = length (astas s)
    \<and> length (sta_buf (spriv (tbl s'))) = length (sta_buf (spriv (tbl s))) \<and> asocs s' = asocs s"
proof -
  define s1 where "s1 = upd_expire p (auth_to cf) (s\<lparr>tbl := join_auth_list p (tbl s)\<rparr>)"
  define s2 where "s2 = upd_asta p (\<lambda>x. x\<lparr>authalg := 1, auth_seq := 2\<rparr>)
    (upd_state p (\<lambda>st. st AND NOT WIFI_FW_AUTH_NULL OR WIFI_FW_AUTH_STATE) s1)"
  have f: "astas s1 = astas s" "state_of s1 p = WIFI_FW_AUTH_NULL" "length (sta_buf (spriv (tbl s1))) = length (sta_buf (spriv (tbl s)))"
    using assms(2) by (simp_all add: s1_def upd_fields)
  have st: "state_of s2 p = WIFI_FW_AUTH_STATE"
    using assms(3,4) f by (simp add: s2_def upd_fields WIFI_FW_AUTH_NULL_def WIFI_FW_AUTH_STATE_def)
  have x: "astas s2 ! p = (astas s ! p)\<lparr>authalg := 1, auth_seq := 2\<rparr>" "length (astas s2) = length (astas s)"
    using assms(3) f by (simp_all add: s2_def upd_fields)
  have step: "auth_step cf 1 b len 1 1 p s1 = Some (Inr s2)" using assms(1) f by (simp add: auth_step_def s2_def)
  show ?thesis
    unfolding auth_known_def Let_def
    using assms st step x f
    by (simp add: s1_def [symmetric] upd_fields upd_tbl WIFI_FW_AUTH_STATE_def WIFI_FW_AUTH_SUCCESS_def)
      (simp add: s2_def s1_def upd_fields upd_tbl)
qed

lemma shared_third_frame:
  assumes "auth_seq (astas s ! p) = 2" "chg_txt (astas s ! p) = replicate 128 0" "p < length (astas s)"
    "p < length (sta_buf (spriv (tbl s)))" "b = pre @ [16, 128] @ replicate 128 0" "length pre = 34"
  shows "\<exists>s'. auth_known cf 1 b (length b) sa 1 3 p s = Some (RTW_SUCCESS, s') \<and> state_of s' p AND WIFI_FW_AUTH_SUCCESS \<noteq> 0"
proof -
  define s1 where "s1 = s\<lparr>tbl := join_auth_list p (tbl s)\<rparr>"
  define s2 where "s2 = upd_expire p (assoc_to cf) (upd_state p (\<lambda>st. st AND NOT WIFI_FW_AUTH_STATE OR WIFI_FW_AUTH_SUCCESS) s1)"
  have d: "drop 34 b = enc_ies [(16, replicate 128 0)] @ []" "int (length b) - 34 = int (length (enc_ies [(16, replicate 128 0)]))"
    using assms(5,6) by (simp_all add: enc_ie_def)
  have ok: "\<forall>e \<in> set [(16, replicate 128 0)]. ie_ok e" by (simp add: ie_ok_def)
  have g: "rtw_get_ie (drop 34 b) 16 (int (length b) - 34) = Some (Some (0, 128))"
    unfolding d using get_ie_loop_enc [OF _ ok, of "[]" "[]" 16] by (simp add: rtw_get_ie_def)
  have t: "rds b 36 128 = Some (replicate 128 0)"
    using rds_enc [of b "pre @ [16, 128]" "replicate 128 0" "[]" 128] assms(5,6) by simp
  have "bit (state_of s2 p) 10" using assms(4) by (simp add: s2_def s1_def upd_fields WIFI_FW_AUTH_SUCCESS_def bit_simps)
  then have st: "state_of s2 p AND WIFI_FW_AUTH_SUCCESS \<noteq> 0"
  proof -
    have "bit (state_of s2 p AND WIFI_FW_AUTH_SUCCESS) 10" using \<open>bit (state_of s2 p) 10\<close>
      by (simp add: WIFI_FW_AUTH_SUCCESS_def bit_simps)
    then show ?thesis by auto
  qed
  have f1: "astas s1 = astas s" by (simp add: s1_def)
  have step: "auth_step cf 1 b (length b) 1 3 p s1 = Some (Inr s2)"
    using assms(1,2) g t by (simp add: auth_step_def auth_challenge_def s1_def s2_def)
  show ?thesis
    unfolding auth_known_def Let_def s1_def [symmetric]
    using assms(1,3) st step f1 by (simp add: upd_fields)
qed

section \<open>Properties\<close>


definition demo_stas :: ap_stas where
  "demo_stas = \<lparr>tbl = init_sta_table, apcaps = demo_caps, astas = replicate NUM_STA init_auth_sta, asocs = [], asoc_list_cnt = 0,
     sent = []\<rparr>"

definition demo_conf :: "nat \<Rightarrow> ap_conf" where
  "demo_conf mode = \<lparr>ap_state = True, dot11AuthAlgrthm = mode, dot11PrivacyAlgrthm = WEP40, acl_mode = 0, acl_nodes = [],
     auth_to = 3, assoc_to = 3\<rparr>"

definition demo_auth_frame :: "u16 \<Rightarrow> u16 \<Rightarrow> bytes \<Rightarrow> bytes" where
  "demo_auth_frame a n rest = replicate 10 0 @ demo_addr @ replicate 8 0 @ put_le16 a @ put_le16 n @ rest"

lemma demo_stas_ok: "stas_ok demo_stas" by (simp add: stas_ok_def demo_stas_def init_table_ok)


text \<open>C30. Shared key authentication needs no key: the challenge is never set, so it is 128 zero bytes for every
  station, and the third frame is read in the clear. Any new sender that the access control list lets through
  is authenticated by two frames, the second with 128 zeros in a challenge element four bytes behind its place.\<close>

theorem shared_key_needs_no_key:
  assumes "stas_ok s" "sta_addr sa" "rtw_get_stainfo (spriv (tbl s)) sa = None" "free_sta_queue (spriv (tbl s)) \<noteq> []"
    "length (astas s) = NUM_STA" "ap_state cf" "effective_mode cf = 1" "rtw_access_ctrl (acl_mode cf) (acl_nodes cf) sa"
    "length h1 = 10" "length h2 = 8" "length x = 6"
    "b1 = h1 @ sa @ h2 @ put_le16 1 @ put_le16 1 @ put_le16 0"
    "b3 = h1 @ sa @ h2 @ put_le16 1 @ put_le16 3 @ x @ [16, 128] @ replicate 128 0"
  shows "\<exists>s1 s2 p. OnAuth cf b1 (length b1) s = Some (RTW_SUCCESS, s1) \<and> OnAuth cf b3 (length b3) s1 = Some (RTW_SUCCESS, s2)
    \<and> rtw_get_stainfo (spriv (tbl s2)) sa = Some p \<and> state_of s2 p AND WIFI_FW_AUTH_SUCCESS \<noteq> 0"
proof -
  have ok: "table_ok (tbl s)" and inv: "table_inv (tbl s)" using assms(1) by (simp_all add: stas_ok_def table_ok_def)
  have l6: "length sa = 6" using assms(2) by (simp add: sta_addr_def)
  note r1 = auth_frame_reads [OF assms(12,9) l6 assms(10)] and r3 = auth_frame_reads [OF assms(13,9) l6 assms(10)]
  obtain q t where a: "rtw_alloc_stainfo (tbl s) sa = (q, t)" by (rule prod.exhaust)
  obtain p where p: "q = Some p" "p < NUM_STA" "sta_buf (spriv t) = (sta_buf (spriv (tbl s)))[p := init_sta_info\<lparr>hwaddr := take 6 sa\<rparr>]"
    by (rule alloc_cases [OF inv a]) (use assms(4) in auto)
  define s0 where "s0 = upd_asta p (\<lambda>x. x\<lparr>auth_seq := 0\<rparr>) (upd_state p (\<lambda>_. WIFI_FW_AUTH_NULL) (upd_asta p (\<lambda>_. init_auth_sta) (s\<lparr>tbl := t\<rparr>)))"
  have st0: "auth_station sa s = (Some p, s0)" using assms(3) a p(1) by (simp add: auth_station_def s0_def)
  have lb: "length (sta_buf (spriv (tbl s))) = NUM_STA" by (rule table_invD(1) [OF inv])
  have f0: "astas s0 ! p = init_auth_sta\<lparr>auth_seq := 0\<rparr>" "length (astas s0) = NUM_STA" "length (sta_buf (spriv (tbl s0))) = NUM_STA"
    "state_of s0 p = WIFI_FW_AUTH_NULL"
    using assms(5) p lb by (simp_all add: s0_def upd_fields upd_tbl)
  have z: "auth_seq (astas s0 ! p) = 0" "chg_txt (astas s0 ! p) = replicate 128 0" by (simp_all add: f0 init_auth_sta_def)
  obtain s1 where s1: "auth_known cf 1 b1 (length b1) sa 1 1 p s0 = Some (RTW_SUCCESS, s1)" "auth_seq (astas s1 ! p) = 2"
    "chg_txt (astas s1 ! p) = replicate 128 0" "length (astas s1) = NUM_STA" "length (sta_buf (spriv (tbl s1))) = NUM_STA"
    "asocs s1 = asocs s0"
    using shared_first_frame [OF z(1) f0(4), of cf b1 "length b1" sa] p(2) f0 z(2) by auto
  have on1: "OnAuth cf b1 (length b1) s = Some (RTW_SUCCESS, s1)"
    using OnAuth_shared [OF assms(6-8) r1(1) _ _ st0] r1(2,3) s1(1) by simp
  note st = auth_station_ok [OF assms(1,2) st0] and kn = auth_known_ok [OF s1(1)]
  have g1: "rtw_get_stainfo (spriv (tbl s1)) sa = Some p" using st kn assms(2) by (simp add: same_map_def)
  have "p \<notin> set (asocs s1)" using st s1(6) by simp
  then have st1: "auth_station sa s1 = (Some p, s1)" using g1 by (simp add: auth_station_def)
  have "b3 = (h1 @ sa @ h2 @ put_le16 1 @ put_le16 3 @ x) @ [16, 128] @ replicate 128 0"
    "length (h1 @ sa @ h2 @ put_le16 1 @ put_le16 3 @ x) = 34" using assms(9-11,13) l6 by (simp_all add: length_put_le16)
  from shared_third_frame [OF s1(2,3) _ _ this, of cf sa] obtain s2 where
    s2: "auth_known cf 1 b3 (length b3) sa 1 3 p s1 = Some (RTW_SUCCESS, s2)" "state_of s2 p AND WIFI_FW_AUTH_SUCCESS \<noteq> 0"
    using s1 p(2) by auto
  have on3: "OnAuth cf b3 (length b3) s1 = Some (RTW_SUCCESS, s2)"
    using OnAuth_shared [OF assms(6-8) r3(1) _ _ st1] r3(2,3) s2(1) by simp
  have "rtw_get_stainfo (spriv (tbl s2)) sa = Some p" using auth_known_ok [OF s2(1)] g1 by (simp add: same_map_def)
  with on1 on3 s2(2) show ?thesis by blast
qed

theorem shared_key_needs_no_key_witness:
  "\<exists>s1 s2 p. OnAuth (demo_conf 1) (demo_auth_frame 1 1 (put_le16 0)) 30 demo_stas = Some (RTW_SUCCESS, s1)
    \<and> OnAuth (demo_conf 1) (demo_auth_frame 1 3 (replicate 6 0 @ [16, 128] @ replicate 128 0)) 164 s1 = Some (RTW_SUCCESS, s2)
    \<and> rtw_get_stainfo (spriv (tbl s2)) demo_addr = Some p \<and> state_of s2 p AND WIFI_FW_AUTH_SUCCESS \<noteq> 0"
proof -
  have l: "length (demo_auth_frame 1 1 (put_le16 0)) = 30"
    "length (demo_auth_frame 1 3 (replicate 6 0 @ [16, 128] @ replicate 128 0)) = 164"
    by (simp_all add: demo_auth_frame_def demo_addr_def put_le16_def)
  have h: "rtw_get_stainfo (spriv (tbl demo_stas)) demo_addr = None" "free_sta_queue (spriv (tbl demo_stas)) \<noteq> []"
    "length (astas demo_stas) = NUM_STA" "ap_state (demo_conf 1)" "effective_mode (demo_conf 1) = 1"
    "rtw_access_ctrl (acl_mode (demo_conf 1)) (acl_nodes (demo_conf 1)) demo_addr" by code_simp+
  show ?thesis
    using shared_key_needs_no_key [OF demo_stas_ok demo_sta_addr(1) h, of "replicate 10 0" "replicate 8 0" "replicate 6 0",
        OF _ _ _ demo_auth_frame_def demo_auth_frame_def] unfolding l by simp
qed

end
