(* ===== verification/ApAssoc.thy ===== *)
theory ApAssoc
  imports ApAuth
begin

text \<open>
  Association at an access point: \<^verbatim>\<open>OnAssocReq\<close> (\<^verbatim>\<open>core/rtw_mlme_ext.c\<close>) with what it calls in
  \<^verbatim>\<open>core/rtw_ap.c\<close>, for an access point that is not the owner of a P2P group. The request is parsed by
  the functions of \<open>Ie\<close>, the identifier comes from \<open>StaTable\<close>, the counters and the beacon from \<open>ApCap\<close>.
  \<open>None\<close> is an access outside of the frame or of a local array, or a search that does not return.
\<close>

section \<open>Settings\<close>

definition WLAN_STA_WPS :: u32 where "WLAN_STA_WPS = push_bit 12 1"
definition WLAN_STA_MAYBE_WPS :: u32 where "WLAN_STA_MAYBE_WPS = push_bit 13 1"
definition WLAN_CAPABILITY_SHORT_PREAMBLE :: u16 where "WLAN_CAPABILITY_SHORT_PREAMBLE = push_bit 5 1"

record assoc_conf = ap_conf +
  cur_ssid :: bytes
  sec_wpa_psk :: u32
  sec_wpa_group_cipher :: u32
  sec_wpa2_group_cipher :: u32
  sec_wpa_pairwise_cipher :: u32
  sec_wpa2_pairwise_cipher :: u32
  conf_wps_beacon_ie :: "bytes option"
  ap_qos_option :: bool
  ap_ampdu_enable :: bool
  cur_bwmode :: nat
  cur_ch_offset :: nat
  ap_expire_to :: nat

section \<open>The parts of a request\<close>

text \<open>A part changes what is known of the station and yields a status; the next one runs if that is zero.\<close>

type_synonym part = "(auth_sta \<times> u16) option"

definition and_then :: "part \<Rightarrow> (auth_sta \<Rightarrow> part) \<Rightarrow> part" where
  "and_then m f = do { (x, status) \<leftarrow> m; if status = 0 then f x else Some (x, status) }"

text \<open>In the following \<open>b\<close> is the memory from the first element on and \<open>left\<close> the bytes of the frame in it.\<close>

definition assoc_ssid :: "bytes \<Rightarrow> bytes \<Rightarrow> nat \<Rightarrow> auth_sta \<Rightarrow> part" where
  "assoc_ssid cur b left x =
     do { r \<leftarrow> rtw_get_ie b 0 (int left);
          case r of None \<Rightarrow> Some (x, 1)
          | Some (p, ie_len) \<Rightarrow>
              (if ie_len = 0 then Some (x, 1)
               else do { s \<leftarrow> rds b (p + 2) (length cur);
                         Some (x, if s \<noteq> cur \<or> ie_len \<noteq> length cur then 1 else 0) }) }"

text \<open>The rates go through a local array of 16 bytes.\<close>

definition UpdateBrateTblForSoftAP :: "bytes \<Rightarrow> nat \<Rightarrow> bytes" where
  "UpdateBrateTblForSoftAP rs n = map (\<lambda>r. if is_cck_rate r then r OR 0x80 else r) (take n rs) @ drop n rs"

definition assoc_rates :: "bytes \<Rightarrow> nat \<Rightarrow> auth_sta \<Rightarrow> part" where
  "assoc_rates b left x =
     do { r \<leftarrow> rtw_get_ie b 1 (int left);
          case r of None \<Rightarrow> Some (x, 1)
          | Some (p, ie_len) \<Rightarrow>
              do { rates \<leftarrow> (if ie_len \<le> 16 then rds b (p + 2) ie_len else None);
                   e \<leftarrow> rtw_get_ie b 50 (int left);
                   rates \<leftarrow> (case e of None \<Rightarrow> Some rates
                     | Some (q, n) \<Rightarrow>
                         (if length rates \<le> 16
                          then (if length rates + n \<le> 16 then map_option ((@) rates) (rds b (q + 2) n) else None)
                          else Some rates));
                   Some (x\<lparr>bssratelen := length rates,
                     bssrateset := UpdateBrateTblForSoftAP (rates @ drop (length rates) (bssrateset x)) (length rates)\<rparr>, 0) } }"

text \<open>The security element that counts, and what it asks for.\<close>

definition assoc_wpa_ie :: "assoc_conf \<Rightarrow> elems \<Rightarrow> (nat \<times> nat) option" where
  "assoc_wpa_ie cf e =
     (if sec_wpa_psk cf AND 2 \<noteq> 0 \<and> e E_RSN \<noteq> None then e E_RSN
      else if sec_wpa_psk cf AND 1 \<noteq> 0 \<and> e E_WPA \<noteq> None then e E_WPA else None)"

definition no_ciphers :: sec_ie where "no_ciphers = \<lparr>group_cipher = 0, pairwise_cipher = 0, is_8021x = False\<rparr>"

definition assoc_security :: "assoc_conf \<Rightarrow> elems \<Rightarrow> bytes \<Rightarrow> auth_sta \<Rightarrow> part" where
  "assoc_security cf e b x =
     (let x = x\<lparr>dot8021xalg := 0, sta_wpa_psk := 0, wpa_group_cipher := 0, wpa2_group_cipher := 0,
            wpa_pairwise_cipher := 0, wpa2_pairwise_cipher := 0, sta_wpa_ie := replicate 32 0\<rparr> in
      case (if sec_wpa_psk cf AND 2 \<noteq> 0 then e E_RSN else None) of
        Some (p, l) \<Rightarrow>
          do { (ok, s) \<leftarrow> rtw_parse_wpa2_ie (drop (p - 2) b) (int l + 2) False no_ciphers;
               if ok = RTW_SUCCESS then
                 (let g = group_cipher s AND sec_wpa2_group_cipher cf; k = pairwise_cipher s AND sec_wpa2_pairwise_cipher cf in
                  Some (x\<lparr>dot8021xalg := 1, sta_wpa_psk := sta_wpa_psk x OR 2, wpa2_group_cipher := g, wpa2_pairwise_cipher := k\<rparr>,
                    if k = 0 then 19 else if g = 0 then 18 else 0))
               else Some (x, 40) }
      | None \<Rightarrow>
          (case (if sec_wpa_psk cf AND 1 \<noteq> 0 then e E_WPA else None) of
             Some (p, l) \<Rightarrow>
               do { (ok, s) \<leftarrow> rtw_parse_wpa_ie (drop (p - 2) b) (int l + 2) False no_ciphers;
                    if ok = RTW_SUCCESS then
                      (let g = group_cipher s AND sec_wpa_group_cipher cf; k = pairwise_cipher s AND sec_wpa_pairwise_cipher cf in
                       Some (x\<lparr>dot8021xalg := 1, sta_wpa_psk := sta_wpa_psk x OR 1, wpa_group_cipher := g, wpa_pairwise_cipher := k\<rparr>,
                         if k = 0 then 42 else if g = 0 then 41 else 0))
                    else Some (x, 40) }
           | None \<Rightarrow> Some (x, 0)))"

text \<open>WPS. The selected registrar goes into a single byte.\<close>

definition selected_registrar :: "bytes \<Rightarrow> bool option" where
  "selected_registrar ie =
     (case rtw_get_wps_attr_content ie (length ie) 0x1041 True of
        Some (Done None) \<Rightarrow> Some False
      | Some (Done (Some (_, n, c))) \<Rightarrow> (if n \<le> 1 then Some (n = 1 \<and> c ! 0 \<noteq> 0) else None)
      | _ \<Rightarrow> None)"

definition assoc_wps :: "assoc_conf \<Rightarrow> elems \<Rightarrow> bytes \<Rightarrow> auth_sta \<Rightarrow> part" where
  "assoc_wps cf e b x =
     (let x = x\<lparr>flags := flags x AND NOT (WLAN_STA_WPS OR WLAN_STA_MAYBE_WPS)\<rparr> in
      case assoc_wpa_ie cf e of
        None \<Rightarrow>
          (let x = x\<lparr>flags := flags x OR (if e E_WPS \<noteq> None then WLAN_STA_WPS else WLAN_STA_MAYBE_WPS)\<rparr> in
           if sec_wpa_psk cf \<noteq> 0 then
             (case conf_wps_beacon_ie cf of None \<Rightarrow> Some (x, 0)
              | Some ie \<Rightarrow> do { sel \<leftarrow> selected_registrar ie; Some (x, if sel then 0 else 17) })
           else Some (x, 0))
      | Some (p, l) \<Rightarrow>
          (if e E_WPS \<noteq> None then Some (x\<lparr>flags := flags x OR WLAN_STA_WPS\<rparr>, 0)
           else
             do { c \<leftarrow> rds b (p - 2) (min 32 (l + 2));
                  Some (x\<lparr>sta_wpa_ie := c @ drop (length c) (sta_wpa_ie x)\<rparr>, 0) }))"

text \<open>WMM: the search goes on behind each vendor element with the limit it started with.\<close>

definition WMM_IE :: bytes where "WMM_IE = [0x00, 0x50, 0xf2, 0x02, 0x00, 0x01]"

function wmm_loop :: "bytes \<Rightarrow> nat \<Rightarrow> nat \<Rightarrow> nat option option" where
  "wmm_loop b left p =
     (case rtw_get_ie (drop p b) 221 (int left) of
        None \<Rightarrow> None
      | Some None \<Rightarrow> Some None
      | Some (Some (i, ie_len)) \<Rightarrow>
          (case rds b (p + i + 2) 6 of None \<Rightarrow> None
           | Some m \<Rightarrow> (if m = WMM_IE then Some (Some (p + i)) else wmm_loop b left (p + i + ie_len + 2))))"
  by pat_completeness auto
termination
  by (relation "measure (\<lambda>(b, left, p). length b - p)") (auto simp: rds_Some)

declare wmm_loop.simps [simp del]

definition assoc_wmm :: "assoc_conf \<Rightarrow> bytes \<Rightarrow> nat \<Rightarrow> auth_sta \<Rightarrow> part" where
  "assoc_wmm cf b left x =
     (let x = x\<lparr>flags := flags x AND NOT WLAN_STA_WME, qos_option := False, qos_info := 0, has_legacy_ac := True,
            uapsd_vo := 0, uapsd_vi := 0, uapsd_be := 0, uapsd_bk := 0\<rparr> in
      if \<not> ap_qos_option cf then Some (x, 0)
      else
        do { r \<leftarrow> wmm_loop b left 0;
             case r of None \<Rightarrow> Some (x, 0)
             | Some p \<Rightarrow>
                 do { q \<leftarrow> rd b (p + 8);
                      let x = x\<lparr>flags := flags x OR WLAN_STA_WME, qos_option := True, qos_info := q,
                        max_sp_len := drop_bit 5 q AND 3, has_legacy_ac := (q AND 0xf \<noteq> 0xf)\<rparr>;
                      let u = (\<lambda>i. if bit q i then 3 else 0);
                      Some (if q AND 0xf \<noteq> 0
                        then x\<lparr>uapsd_vo := u 0, uapsd_vi := u 1, uapsd_bk := u 2, uapsd_be := u 3\<rparr> else x, 0) } })"

text \<open>HT capabilities, ERP and the preamble.\<close>

definition assoc_ht :: "bool \<Rightarrow> elems \<Rightarrow> bytes \<Rightarrow> auth_sta \<Rightarrow> part" where
  "assoc_ht ht_option e b x =
     (let x = x\<lparr>ht_cap := replicate 26 0, ht_cap_info := 0\<rparr> in
      do { x \<leftarrow> (case e E_HT_CAPABILITIES of
              Some (p, l) \<Rightarrow>
                (if l \<ge> 26 then
                   do { c \<leftarrow> rds b p 26; i \<leftarrow> rd_le16 b p;
                        Some (x\<lparr>flags := flags x OR WLAN_STA_HT OR WLAN_STA_WME, ht_cap := c, ht_cap_info := of_nat i\<rparr>) }
                 else Some (x\<lparr>flags := flags x AND NOT WLAN_STA_HT\<rparr>))
            | None \<Rightarrow> Some (x\<lparr>flags := flags x AND NOT WLAN_STA_HT\<rparr>));
           Some (x, if \<not> ht_option \<and> flags x AND WLAN_STA_HT \<noteq> 0 then 1 else 0) })"

definition assoc_erp :: "auth_sta \<Rightarrow> part" where
  "assoc_erp x =
     (let f = flags x OR WLAN_STA_NONERP;
          f = (if \<exists>r \<in> set (take (bssratelen x) (bssrateset x)). r AND 0x7f > 22 then f AND NOT WLAN_STA_NONERP else f);
          f = (if capability x AND WLAN_CAPABILITY_SHORT_PREAMBLE \<noteq> 0 then f OR WLAN_STA_SHORT_PREAMBLE
               else f AND NOT WLAN_STA_SHORT_PREAMBLE)
      in Some (x\<lparr>flags := f\<rparr>, 0))"

text \<open>All of them, in the order of the code.\<close>

definition assoc_parse :: "assoc_conf \<Rightarrow> bool \<Rightarrow> bytes \<Rightarrow> nat \<Rightarrow> auth_sta \<Rightarrow> part" where
  "assoc_parse cf ht_option b left x =
     do { (r, e) \<leftarrow> rtw_ieee802_11_parse_elems b left;
          if r = ParseFailed \<or> e E_SSID = None then Some (x, 1)
          else
            and_then (and_then (and_then (and_then (and_then (and_then (assoc_ssid (cur_ssid cf) b left x)
              (assoc_rates b left)) (assoc_security cf e b)) (assoc_wps cf e b)) (assoc_wmm cf b left))
              (assoc_ht ht_option e b)) assoc_erp }"

section \<open>Joining\<close>

text \<open>\<^verbatim>\<open>send_delba\<close> to the station as recipient ends its reordering sessions; the frames that tell it are left out.\<close>

definition end_reorder :: "sta_slot \<Rightarrow> sta_slot" where
  "end_reorder x = x\<lparr>recvreorder_ctrls :=
     map (\<lambda>c. if ctrl_enable c then c\<lparr>ctrl_enable := False, indicate_seq := 0xffff\<rparr> else c) (recvreorder_ctrls x)\<rparr>"

text \<open>\<^verbatim>\<open>sta_info_update\<close> and \<^verbatim>\<open>update_sta_info_apmode\<close> for the station in slot \<open>p\<close>.\<close>

definition sta_info_update :: "assoc_conf \<Rightarrow> ap_caps \<Rightarrow> auth_sta \<Rightarrow> auth_sta" where
  "sta_info_update cf c x =
     (let x = x\<lparr>qos_option := flags x AND WLAN_STA_WME \<noteq> 0\<rparr>;
          x = (if \<not> ap_qos_option cf then x\<lparr>qos_option := False\<rparr> else x);
          x = (if flags x AND WLAN_STA_HT \<noteq> 0 then x\<lparr>sta_ht_option := True, qos_option := True\<rparr> else x\<lparr>sta_ht_option := False\<rparr>);
          x = (if \<not> ap_ht_option c then x\<lparr>sta_ht_option := False\<rparr> else x);
          x = VCS_update c x;
          both = ht_cap_info x AND ap_ht_cap_info c;
          x = (if sta_ht_option x then
                 (let x = x\<lparr>ampdu_enable := ap_ampdu_enable cf\<rparr>;
                      x = (if both AND 0x0060 \<noteq> 0 then x\<lparr>sgi := True\<rparr> else x);
                      x = (if both AND IEEE80211_HT_CAP_SUP_WIDTH_20_40 \<noteq> 0
                           then x\<lparr>bwmode := cur_bwmode cf, ch_offset := cur_ch_offset cf\<rparr> else x)
                  in x\<lparr>qos_option := True\<rparr>)
               else x\<lparr>ampdu_enable := False, sgi := False, bwmode := 0, ch_offset := 0\<rparr>)
      in x\<lparr>agg_enable_bitmap := 0, candidate_tid_bitmap := 0\<rparr>)"

definition update_sta_table :: "assoc_conf \<Rightarrow> nat \<Rightarrow> sta_table \<Rightarrow> sta_table" where
  "update_sta_table cf p t =
     update_sta p (\<lambda>y. y\<lparr>sta_state := sta_state y OR FW_LINKED\<rparr>)
       (update_slot p (\<lambda>y. end_reorder (y\<lparr>mac_id := aid y + 1, blocked8021x := (dot11AuthAlgrthm cf = 2)\<rparr>)) t)"

text \<open>The station leaves the authenticating ones and is one of the associated ones.\<close>

definition join_lists :: "assoc_conf \<Rightarrow> nat \<Rightarrow> ap_stas \<Rightarrow> ap_stas" where
  "join_lists cf p s =
     (let s = upd_state p (\<lambda>st. st AND NOT WIFI_FW_ASSOC_STATE OR WIFI_FW_ASSOC_SUCCESS) s;
          s = s\<lparr>tbl := leave_auth_list p (tbl s)\<rparr> in
      if p \<in> set (asocs s) then s
      else (upd_expire p (ap_expire_to cf) s)\<lparr>asocs := asocs s @ [p], asoc_list_cnt := asoc_list_cnt s + 1\<rparr>)"

definition assoc_join :: "assoc_conf \<Rightarrow> nat \<Rightarrow> ap_stas \<Rightarrow> ap_stas option" where
  "assoc_join cf p s =
     (let s = join_lists cf p s in
      do { (c, st) \<leftarrow> bss_cap_update_on_sta_join p (asocs s) (apcaps s, astas s);
           let s = upd_asta p (sta_info_update cf c) (s\<lparr>apcaps := c, astas := st\<rparr>);
           Some (s\<lparr>tbl := update_sta_table cf p (tbl s)\<rparr>) })"

text \<open>\<^verbatim>\<open>OnAssocReq\<close>: \<open>reassoc\<close> tells a reassociation request. The response holds status and identifier.\<close>

definition ie_offset :: "bool \<Rightarrow> nat" where "ie_offset reassoc = (if reassoc then 10 else 4)"

definition assoc_fail :: "nat \<Rightarrow> u16 \<Rightarrow> ap_stas \<Rightarrow> rtw_status \<times> ap_stas" where
  "assoc_fail p status s =
     (let s = s\<lparr>tbl := update_slot p (\<lambda>y. y\<lparr>aid := 0\<rparr>) (tbl s)\<rparr>
      in (RTW_FAIL, send (ASSOCRSP (hwaddr (sta_buf (spriv (tbl s)) ! p)) status 0) s))"

definition assoc_begin :: "nat \<Rightarrow> nat \<Rightarrow> ap_stas \<Rightarrow> ap_stas" where
  "assoc_begin p capab_info s =
     upd_asta p (\<lambda>x. x\<lparr>capability := of_nat capab_info\<rparr>)
       (upd_state p (\<lambda>st. (if st AND WIFI_FW_AUTH_SUCCESS = 0 then st AND NOT WIFI_FW_ASSOC_SUCCESS
                     else st AND NOT WIFI_FW_AUTH_SUCCESS) OR WIFI_FW_ASSOC_STATE) s)"

definition assoc_end :: "assoc_conf \<Rightarrow> nat \<Rightarrow> ap_stas \<Rightarrow> (rtw_status \<times> ap_stas) option" where
  "assoc_end cf p s =
     (case assign_aid p (tbl s) of
        (False, t) \<Rightarrow> Some (assoc_fail p 17 (s\<lparr>tbl := t\<rparr>))
      | (True, t) \<Rightarrow>
          do { s \<leftarrow> assoc_join cf p (s\<lparr>tbl := t\<rparr>);
               Some (RTW_SUCCESS, send (ASSOCRSP (hwaddr (sta_buf (spriv (tbl s)) ! p)) 0 (aid (slots (tbl s) ! p))) s) })"

definition assoc_station :: "assoc_conf \<Rightarrow> bool \<Rightarrow> bytes \<Rightarrow> nat \<Rightarrow> nat \<Rightarrow> ap_stas \<Rightarrow> (rtw_status \<times> ap_stas) option" where
  "assoc_station cf reassoc b pkt_len p s =
     do { capab_info \<leftarrow> rd_le16 b 24;
          _ \<leftarrow> rd_le16 b 26;
          let s = assoc_begin p capab_info s;
          (x, status) \<leftarrow> assoc_parse cf (ap_ht_option (apcaps s)) (drop (24 + ie_offset reassoc) b)
            (pkt_len - (24 + ie_offset reassoc)) (astas s ! p);
          let s = upd_asta p (\<lambda>_. x) s;
          if status \<noteq> 0 then Some (assoc_fail p status s) else assoc_end cf p s }"

definition OnAssocReq :: "assoc_conf \<Rightarrow> bool \<Rightarrow> bytes \<Rightarrow> nat \<Rightarrow> ap_stas \<Rightarrow> (rtw_status \<times> ap_stas) option" where
  "OnAssocReq cf reassoc b pkt_len s =
     (if \<not> ap_state cf \<or> pkt_len < 24 + ie_offset reassoc then Some (RTW_FAIL, s)
      else
        do { sa \<leftarrow> rds b 10 6;
             case rtw_get_stainfo (spriv (tbl s)) sa of
               None \<Rightarrow> Some (RTW_FAIL, send (DEAUTH sa 6) s)
             | Some p \<Rightarrow>
                 (if state_of s p AND WIFI_FW_AUTH_SUCCESS = 0 \<and> state_of s p AND WIFI_FW_ASSOC_SUCCESS = 0
                  then Some (RTW_FAIL, send (DEAUTH sa 6) s)
                  else assoc_station cf reassoc b pkt_len p s) })"

section \<open>What the parts establish\<close>

lemma and_then_0:
  assumes "and_then m f = Some (y, 0)"
  obtains x where "m = Some (x, 0)" "f x = Some (y, 0)"
  using assms by (cases m) (auto simp: and_then_def split: if_splits)

text \<open>The security of a station that may join: the ciphers of its element are among those of the access point, or it
  has no element that counts and the access point runs open, knows no WPS, or has a selected registrar.\<close>

definition sec_fits :: "assoc_conf \<Rightarrow> auth_sta \<Rightarrow> bool" where
  "sec_fits cf x \<longleftrightarrow>
     sta_wpa_psk x = 2 \<and> sec_wpa_psk cf AND 2 \<noteq> 0 \<and> wpa2_group_cipher x \<noteq> 0 \<and> wpa2_pairwise_cipher x \<noteq> 0
     \<or> sta_wpa_psk x = 1 \<and> sec_wpa_psk cf AND 1 \<noteq> 0 \<and> wpa_group_cipher x \<noteq> 0 \<and> wpa_pairwise_cipher x \<noteq> 0
     \<or> sta_wpa_psk x = 0 \<and> (sec_wpa_psk cf = 0 \<or> conf_wps_beacon_ie cf = None
         \<or> (\<exists>ie. conf_wps_beacon_ie cf = Some ie \<and> selected_registrar ie = Some True))"

text \<open>What a part leaves alone.\<close>

definition same_sec :: "auth_sta \<Rightarrow> auth_sta \<Rightarrow> bool" where
  "same_sec x y \<longleftrightarrow> sta_wpa_psk y = sta_wpa_psk x \<and> wpa_group_cipher y = wpa_group_cipher x
     \<and> wpa2_group_cipher y = wpa2_group_cipher x \<and> wpa_pairwise_cipher y = wpa_pairwise_cipher x
     \<and> wpa2_pairwise_cipher y = wpa2_pairwise_cipher x"

lemma same_sec_fits: "same_sec x y \<Longrightarrow> sec_fits cf y = sec_fits cf x"
  by (simp add: same_sec_def sec_fits_def)

lemma same_sec_trans: "same_sec x y \<Longrightarrow> same_sec y z \<Longrightarrow> same_sec x z"
  by (simp add: same_sec_def)

lemma assoc_security_ok:
  assumes "assoc_security cf e b x = Some (y, 0)"
  shows "sta_wpa_psk y = 2 \<and> sec_wpa_psk cf AND 2 \<noteq> 0 \<and> wpa2_group_cipher y \<noteq> 0 \<and> wpa2_pairwise_cipher y \<noteq> 0
    \<or> sta_wpa_psk y = 1 \<and> sec_wpa_psk cf AND 1 \<noteq> 0 \<and> wpa_group_cipher y \<noteq> 0 \<and> wpa_pairwise_cipher y \<noteq> 0
    \<or> sta_wpa_psk y = 0 \<and> assoc_wpa_ie cf e = None"
proof (cases "if sec_wpa_psk cf AND 2 \<noteq> 0 then e E_RSN else None")
  case (Some q)
  obtain p l where q: "q = (p, l)" by (rule prod.exhaust)
  show ?thesis
  proof (cases "rtw_parse_wpa2_ie (drop (p - 2) b) (int l + 2) False no_ciphers")
    case None
    then show ?thesis using assms Some q by (simp add: assoc_security_def)
  next
    case r: (Some r)
    obtain ok s where "r = (ok, s)" by (rule prod.exhaust)
    then show ?thesis using assms Some q r
      by (cases "ok = RTW_SUCCESS") (auto simp: assoc_security_def Let_def split: if_splits)
  qed
next
  case n: None
  show ?thesis
  proof (cases "if sec_wpa_psk cf AND 1 \<noteq> 0 then e E_WPA else None")
    case (Some q)
    obtain p l where q: "q = (p, l)" by (rule prod.exhaust)
    show ?thesis
    proof (cases "rtw_parse_wpa_ie (drop (p - 2) b) (int l + 2) False no_ciphers")
      case None
      then show ?thesis using assms n Some q by (simp add: assoc_security_def)
    next
      case r: (Some r)
      obtain ok s where "r = (ok, s)" by (rule prod.exhaust)
      then show ?thesis using assms n Some q r
        by (cases "ok = RTW_SUCCESS") (auto simp: assoc_security_def Let_def split: if_splits)
    qed
  next
    case None
    then show ?thesis using assms n by (auto simp: assoc_security_def assoc_wpa_ie_def Let_def split: if_splits)
  qed
qed

lemma assoc_wps_ok:
  assumes "assoc_wps cf e b x = Some (y, 0)"
  shows "same_sec x y \<and> (assoc_wpa_ie cf e = None \<longrightarrow> sec_wpa_psk cf = 0 \<or> conf_wps_beacon_ie cf = None
         \<or> (\<exists>ie. conf_wps_beacon_ie cf = Some ie \<and> selected_registrar ie = Some True))"
proof (cases "assoc_wpa_ie cf e")
  case None
  show ?thesis
  proof (cases "conf_wps_beacon_ie cf")
    case None
    then show ?thesis using assms \<open>assoc_wpa_ie cf e = None\<close> by (auto simp: assoc_wps_def same_sec_def Let_def split: if_splits)
  next
    case (Some ie)
    then show ?thesis using assms None
      by (cases "selected_registrar ie") (auto simp: assoc_wps_def same_sec_def Let_def split: if_splits)
  qed
next
  case (Some q)
  obtain p l where q: "q = (p, l)" by (rule prod.exhaust)
  show ?thesis using assms Some q
    by (cases "rds b (p - 2) (min 32 (l + 2))") (auto simp: assoc_wps_def same_sec_def Let_def split: if_splits)
qed

lemma assoc_wmm_ok:
  assumes "assoc_wmm cf b left x = Some (y, st)"
  shows "same_sec x y"
proof (cases "wmm_loop b left 0")
  case None
  then show ?thesis using assms by (auto simp: assoc_wmm_def same_sec_def Let_def split: if_splits)
next
  case (Some r)
  show ?thesis
  proof (cases r)
    case None
    then show ?thesis using assms Some by (auto simp: assoc_wmm_def same_sec_def Let_def split: if_splits)
  next
    case (Some p)
    then show ?thesis using assms \<open>wmm_loop b left 0 = Some r\<close>
      by (cases "rd b (p + 8)") (auto simp: assoc_wmm_def same_sec_def Let_def split: if_splits)
  qed
qed

lemma assoc_ht_ok:
  assumes "assoc_ht ht e b x = Some (y, 0)"
  shows "same_sec x y \<and> (flags y AND WLAN_STA_HT \<noteq> 0 \<longrightarrow> ht)"
proof (cases "e E_HT_CAPABILITIES")
  case None
  then show ?thesis using assms by (auto simp: assoc_ht_def same_sec_def Let_def split: if_splits)
next
  case (Some q)
  obtain p l where q: "q = (p, l)" by (rule prod.exhaust)
  show ?thesis
  proof (cases "26 \<le> l")
    case False
    then show ?thesis using assms Some q by (auto simp: assoc_ht_def same_sec_def Let_def split: if_splits)
  next
    case True
    then show ?thesis using assms Some q
      by (cases "rds b p 26"; cases "rd_le16 b p") (auto simp: assoc_ht_def same_sec_def Let_def split: if_splits)
  qed
qed

lemma not_and_bit: "m \<noteq> n \<Longrightarrow> (f AND NOT (push_bit m 1)) AND push_bit n 1 = (f AND push_bit n 1 :: u32)"
  "m \<noteq> n \<Longrightarrow> (f OR push_bit m 1) AND push_bit n 1 = (f AND push_bit n 1 :: u32)"
  by (rule bit_word_eqI; auto simp: bit_simps)+

lemma erp_flags:
  "(f OR WLAN_STA_NONERP) AND WLAN_STA_HT = f AND WLAN_STA_HT"
  "(f AND NOT WLAN_STA_NONERP) AND WLAN_STA_HT = f AND WLAN_STA_HT"
  "(f OR WLAN_STA_SHORT_PREAMBLE) AND WLAN_STA_HT = f AND WLAN_STA_HT"
  "(f AND NOT WLAN_STA_SHORT_PREAMBLE) AND WLAN_STA_HT = f AND WLAN_STA_HT"
  unfolding WLAN_STA_NONERP_def WLAN_STA_HT_def WLAN_STA_SHORT_PREAMBLE_def by (rule not_and_bit; simp)+

lemma assoc_erp_ok:
  assumes "assoc_erp x = Some (y, 0)"
  shows "same_sec x y \<and> flags y AND WLAN_STA_HT = flags x AND WLAN_STA_HT"
  using assms by (auto simp: assoc_erp_def same_sec_def Let_def erp_flags)

lemma assoc_parse_ok:
  assumes "assoc_parse cf ht b left x = Some (y, 0)"
  shows "sec_fits cf y \<and> (flags y AND WLAN_STA_HT \<noteq> 0 \<longrightarrow> ht)"
proof -
  obtain r e where re: "rtw_ieee802_11_parse_elems b left = Some (r, e)"
    using assms by (cases "rtw_ieee802_11_parse_elems b left") (auto simp: assoc_parse_def)
  have a: "and_then (and_then (and_then (and_then (and_then (and_then (assoc_ssid (cur_ssid cf) b left x)
              (assoc_rates b left)) (assoc_security cf e b)) (assoc_wps cf e b)) (assoc_wmm cf b left))
              (assoc_ht ht e b)) assoc_erp = Some (y, 0)"
    using assms re by (auto simp: assoc_parse_def split: if_splits)
  obtain x5 where x5: "and_then (and_then (and_then (and_then (and_then (assoc_ssid (cur_ssid cf) b left x)
              (assoc_rates b left)) (assoc_security cf e b)) (assoc_wps cf e b)) (assoc_wmm cf b left))
              (assoc_ht ht e b) = Some (x5, 0)" "assoc_erp x5 = Some (y, 0)" by (rule and_then_0 [OF a])
  obtain x4 where x4: "and_then (and_then (and_then (and_then (assoc_ssid (cur_ssid cf) b left x)
              (assoc_rates b left)) (assoc_security cf e b)) (assoc_wps cf e b)) (assoc_wmm cf b left) = Some (x4, 0)"
    "assoc_ht ht e b x4 = Some (x5, 0)" by (rule and_then_0 [OF x5(1)])
  obtain x3 where x3: "and_then (and_then (and_then (assoc_ssid (cur_ssid cf) b left x)
              (assoc_rates b left)) (assoc_security cf e b)) (assoc_wps cf e b) = Some (x3, 0)"
    "assoc_wmm cf b left x3 = Some (x4, 0)" by (rule and_then_0 [OF x4(1)])
  obtain x2 where x2: "and_then (and_then (assoc_ssid (cur_ssid cf) b left x) (assoc_rates b left)) (assoc_security cf e b) = Some (x2, 0)"
    "assoc_wps cf e b x2 = Some (x3, 0)" by (rule and_then_0 [OF x3(1)])
  obtain x1 where x1: "assoc_security cf e b x1 = Some (x2, 0)" by (rule and_then_0 [OF x2(1)])
  note w = assoc_wps_ok [OF x2(2)] and h = assoc_ht_ok [OF x4(2)] and p = assoc_erp_ok [OF x5(2)]
  have "sec_fits cf x2" using assoc_security_ok [OF x1] w by (auto simp: sec_fits_def)
  moreover have "same_sec x2 y"
    using w assoc_wmm_ok [OF x3(2)] h p same_sec_trans by blast
  ultimately show ?thesis using same_sec_fits h p by metis
qed

text \<open>The update of the counters changes nothing else of a station.\<close>

definition same_rest :: "'a cap_sta_scheme \<Rightarrow> 'a cap_sta_scheme \<Rightarrow> bool" where
  "same_rest x y \<longleftrightarrow> cap_sta.more y = cap_sta.more x \<and> flags y = flags x"

lemma same_rest_sec: "same_rest x y \<Longrightarrow> same_sec x y"
  by (cases x; cases y) (simp add: same_rest_def same_sec_def)

lemma notice_rest: "ap_update_beacon ie c \<bind> (\<lambda>c. Some (c, y, True)) = Some (c', s', u') \<Longrightarrow> s' = y"
  by (cases "ap_update_beacon ie c") auto

lemma preamble_join_rest: "preamble_join (c, s, u) = Some (c', s', u') \<Longrightarrow> same_rest s s'"
  by (auto simp: preamble_join_def Let_def same_rest_def split: if_splits dest!: notice_rest)

lemma nonerp_join_rest: "nonerp_join (c, s, u) = Some (c', s', u') \<Longrightarrow> same_rest s s'"
  by (auto simp: nonerp_join_def Let_def same_rest_def split: if_splits dest!: notice_rest)

lemma slot_join_rest: "slot_join (c, s, u) = Some (c', s', u') \<Longrightarrow> same_rest s s'"
  by (auto simp: slot_join_def Let_def same_rest_def split: if_splits dest!: notice_rest)

lemma ht_join_rest: "same_rest s (snd (ht_join (c, s)))"
  by (simp add: ht_join_def Let_def same_rest_def)

lemma VCS_rest: "same_rest s (VCS_update c s)"
  by (simp add: same_rest_def VCS_update_def)

lemma join_rest:
  assumes "bss_cap_update_on_sta_join p asoc (c, st) = Some (c', st')" "p < length st"
  shows "length st' = length st \<and> same_rest (st ! p) (st' ! p)"
proof -
  obtain c1 s1 u1 where 1: "preamble_join (c, st ! p, False) = Some (c1, s1, u1)"
    using assms(1) by (cases "preamble_join (c, st ! p, False)") (auto simp: bss_cap_update_on_sta_join_def)
  obtain c2 s2 u2 where 2: "nonerp_join (c1, s1, u1) = Some (c2, s2, u2)"
    using assms(1) 1 by (cases "nonerp_join (c1, s1, u1)") (auto simp: bss_cap_update_on_sta_join_def)
  obtain c3 s3 u3 where 3: "slot_join (c2, s2, u2) = Some (c3, s3, u3)"
    using assms(1) 1 2 by (cases "slot_join (c2, s2, u2)") (auto simp: bss_cap_update_on_sta_join_def)
  obtain c4 s4 where 4: "ht_join (c3, s3) = (c4, s4)" by (rule prod.exhaust)
  have "st' = associated_clients_update c' u3 asoc (st[p := s4])"
    using assms(1) 1 2 3 4 by (cases "ht_update_beacon c4") (auto simp: bss_cap_update_on_sta_join_def)
  moreover have "same_rest (st ! p) s4"
    using preamble_join_rest [OF 1] nonerp_join_rest [OF 2] slot_join_rest [OF 3] ht_join_rest [of s3 c3] 4
    by (simp add: same_rest_def)
  ultimately show ?thesis using assms(2) VCS_rest [of s4 c'] by (simp add: nth_clients same_rest_def)
qed

lemma sta_info_update_rest: "same_sec x (sta_info_update cf c x) \<and> flags (sta_info_update cf c x) = flags x"
proof -
  have v: "same_sec y (VCS_update c y) \<and> flags (VCS_update c y) = flags y" for y :: auth_sta
    using same_rest_sec [OF VCS_rest] by simp
  show ?thesis
    unfolding sta_info_update_def Let_def using v by (simp add: same_sec_def)
qed

text \<open>The association identifier.\<close>

lemma assign_aid_ok:
  assumes "table_ok t" "p < length (slots t)" "assign_aid p t = (True, t')"
  shows "table_ok t' \<and> spriv t' = spriv t \<and> auth_list t' = auth_list t \<and> 0 < aid (slots t' ! p)
    \<and> length (slots t') = length (slots t) \<and> (aid (slots t ! p) = 0 \<longrightarrow> sta_aid t' ! (aid (slots t' ! p) - 1) = Some p)"
proof (cases "0 < aid (slots t ! p)")
  case True
  then show ?thesis using assms by (simp add: assign_aid_def)
next
  case False
  define a where "a = (if first_free_aid (sta_aid t) > NUM_STA then NUM_STA else first_free_aid (sta_aid t))"
  have t': "t' = update_slot p (\<lambda>s. s\<lparr>aid := a\<rparr>) (t\<lparr>sta_aid := (sta_aid t)[a - 1 := Some p]\<rparr>)"
    using assms(3) False by (simp add: assign_aid_def Let_def a_def split: if_splits)
  have a: "0 < a" "a \<le> NUM_STA" by (auto simp: a_def first_free_aid_def NUM_STA_def)
  have len: "length (sta_aid t) = NUM_STA" using assms(1) by (simp add: table_ok_def table_inv_def)
  have "table_ok t'" using assms(1) unfolding t' table_ok_update_slot
    by (simp add: table_ok_def table_inv_def hashed_def)
  then show ?thesis using assms(2) a len by (simp add: t' slots_update_slot table_frame) (simp add: update_slot_def)
qed

lemma same_map_update_sta_table: "same_map t (update_sta_table cf p t)"
  unfolding update_sta_table_def
  by (rule same_map_trans [OF same_map_update_slot same_map_update_sta]) (simp_all add: end_reorder_def)

lemma same_map_leave: "same_map t (leave_auth_list p t)"
  by (rule same_map_spriv) (simp_all add: leave_auth_list_def)

lemma sta_aid_upd:
  "sta_aid (tbl (upd_state p f s)) = sta_aid (tbl s)" "sta_aid (tbl (upd_expire p e s)) = sta_aid (tbl s)"
  "sta_aid (update_sta_table cf p t) = sta_aid t" "sta_aid (leave_auth_list p t) = sta_aid t"
  by (simp_all add: upd_state_def upd_expire_def update_sta_table_def update_sta_def update_slot_def leave_auth_list_def)

lemma OnAssocReq_cases:
  assumes "OnAssocReq cf reassoc b n s = Some (r, s')" "rds b 10 6 = Some sa"
  obtains (early) f where "r = RTW_FAIL" "s' = send f s \<or> s' = s"
  | (station) p where "rtw_get_stainfo (spriv (tbl s)) sa = Some p"
    "state_of s p AND WIFI_FW_AUTH_SUCCESS \<noteq> 0 \<or> state_of s p AND WIFI_FW_ASSOC_SUCCESS \<noteq> 0"
    "assoc_station cf reassoc b n p s = Some (r, s')"
proof (cases "\<not> ap_state cf \<or> n < 24 + ie_offset reassoc")
  case True
  then show ?thesis using assms(1) early by (simp add: OnAssocReq_def)
next
  case False
  show ?thesis
  proof (cases "rtw_get_stainfo (spriv (tbl s)) sa")
    case None
    then show ?thesis using assms False early [of "DEAUTH sa 6"] by (simp add: OnAssocReq_def)
  next
    case (Some p)
    then show ?thesis using assms False early [of "DEAUTH sa 6"] station [of p]
      by (cases "state_of s p AND WIFI_FW_AUTH_SUCCESS = 0 \<and> state_of s p AND WIFI_FW_ASSOC_SUCCESS = 0")
        (auto simp: OnAssocReq_def)
  qed
qed

lemma assoc_station_cases:
  assumes "assoc_station cf reassoc b n p s = Some (r, s')"
  obtains capab x status where
    "assoc_parse cf (ap_ht_option (apcaps s)) (drop (24 + ie_offset reassoc) b) (n - (24 + ie_offset reassoc))
       (astas (assoc_begin p capab s) ! p) = Some (x, status)"
    "(if status \<noteq> 0 then Some (assoc_fail p status (upd_asta p (\<lambda>_. x) (assoc_begin p capab s)))
      else assoc_end cf p (upd_asta p (\<lambda>_. x) (assoc_begin p capab s))) = Some (r, s')"
proof -
  obtain capab where c: "rd_le16 b 24 = Some capab" using assms by (cases "rd_le16 b 24") (auto simp: assoc_station_def)
  obtain li where l: "rd_le16 b 26 = Some li" using assms c by (cases "rd_le16 b 26") (auto simp: assoc_station_def)
  have h: "apcaps (assoc_begin p capab s) = apcaps s" by (simp add: assoc_begin_def upd_tbl)
  obtain x status where "assoc_parse cf (ap_ht_option (apcaps s)) (drop (24 + ie_offset reassoc) b) (n - (24 + ie_offset reassoc))
       (astas (assoc_begin p capab s) ! p) = Some (x, status)"
    using assms c l h
    by (cases "assoc_parse cf (ap_ht_option (apcaps s)) (drop (24 + ie_offset reassoc) b) (n - (24 + ie_offset reassoc))
       (astas (assoc_begin p capab s) ! p)") (auto simp: assoc_station_def Let_def)
  then show ?thesis using assms c l h that by (simp add: assoc_station_def Let_def)
qed

lemma assoc_begin_ok:
  "same_map (tbl s) (tbl (assoc_begin p k s))" "sta_aid (tbl (assoc_begin p k s)) = sta_aid (tbl s)"
  "asocs (assoc_begin p k s) = asocs s" "apcaps (assoc_begin p k s) = apcaps s" "sent (assoc_begin p k s) = sent s"
  "length (astas (assoc_begin p k s)) = length (astas s)" "auth_list (tbl (assoc_begin p k s)) = auth_list (tbl s)"
  by (simp_all add: assoc_begin_def upd_tbl upd_fields sta_aid_upd) (simp add: upd_asta_def upd_state_def)

text \<open>The lists and the state of a station that joins.\<close>

lemma join_lists_ok:
  assumes "p < length (sta_buf (spriv (tbl s)))"
  shows "same_map (tbl s) (tbl (join_lists cf p s)) \<and> sta_aid (tbl (join_lists cf p s)) = sta_aid (tbl s)
    \<and> set (asocs (join_lists cf p s)) = insert p (set (asocs s)) \<and> p \<notin> set (auth_list (tbl (join_lists cf p s)))
    \<and> astas (join_lists cf p s) = astas s \<and> apcaps (join_lists cf p s) = apcaps s \<and> sent (join_lists cf p s) = sent s
    \<and> bit (state_of (join_lists cf p s) p) 14 \<and> length (sta_buf (spriv (tbl (join_lists cf p s)))) = length (sta_buf (spriv (tbl s)))"
proof -
  define s1 where "s1 = upd_state p (\<lambda>st. st AND NOT WIFI_FW_ASSOC_STATE OR WIFI_FW_ASSOC_SUCCESS) s"
  define s2 where "s2 = s1\<lparr>tbl := leave_auth_list p (tbl s1)\<rparr>"
  have e: "join_lists cf p s = (if p \<in> set (asocs s2) then s2
      else (upd_expire p (ap_expire_to cf) s2)\<lparr>asocs := asocs s2 @ [p], asoc_list_cnt := asoc_list_cnt s2 + 1\<rparr>)"
    by (simp add: join_lists_def Let_def s1_def s2_def)
  have st: "bit (state_of s1 p) 14" using assms by (simp add: s1_def upd_fields WIFI_FW_ASSOC_SUCCESS_def bit_simps)
  have sp: "spriv (tbl s2) = spriv (tbl s1)" by (simp add: s2_def table_frame)
  have m: "same_map (tbl s) (tbl s2)"
    using same_map_trans [OF upd_tbl(1) same_map_leave] by (simp add: s1_def s2_def)
  have m': "same_map (tbl s) (tbl (upd_expire p k s2))" for k using same_map_trans [OF m upd_tbl(2)] .
  have f: "sta_aid (tbl s2) = sta_aid (tbl s)" "asocs s2 = asocs s" "astas s2 = astas s" "apcaps s2 = apcaps s" "sent s2 = sent s"
    "p \<notin> set (auth_list (tbl s2))" "length (sta_buf (spriv (tbl s2))) = length (sta_buf (spriv (tbl s)))" "bit (state_of s2 p) 14"
    using st by (simp_all add: s2_def sp sta_aid_upd table_frame) (simp_all add: s1_def upd_tbl upd_fields sta_aid_upd leave_auth_list_def upd_state_def update_sta_def)
  have g: "sent (upd_expire p k s2) = sent s2" for k by (simp add: upd_expire_def)
  show ?thesis unfolding e using m m' f g by (simp add: upd_tbl upd_fields sta_aid_upd insert_absorb)
qed

lemma assoc_fail_tbl:
  "tbl (snd (assoc_fail p status s)) = update_slot p (\<lambda>y. y\<lparr>aid := 0\<rparr>) (tbl s)" "fst (assoc_fail p status s) = RTW_FAIL"
  by (simp_all add: assoc_fail_def send_def Let_def)

lemma state_update_sta_table:
  "p < length (sta_buf (spriv t)) \<Longrightarrow>
   sta_state (sta_buf (spriv (update_sta_table cf p t)) ! p) = sta_state (sta_buf (spriv t) ! p) OR FW_LINKED"
  by (simp add: update_sta_table_def update_sta_def update_slot_def)

lemma auth_list_update_sta_table: "auth_list (update_sta_table cf p t) = auth_list t"
  by (simp add: update_sta_table_def update_sta_def update_slot_def)

lemma assoc_end_ok:
  assumes "assoc_end cf p s = Some (RTW_SUCCESS, s')" "stas_ok s" "p \<in> set (hashed (tbl s))" "p < length (astas s)"
  shows "stas_ok s' \<and> (\<forall>a. rtw_get_stainfo (spriv (tbl s')) a = rtw_get_stainfo (spriv (tbl s)) a)
    \<and> (aid (slots (tbl s) ! p) = 0 \<longrightarrow> sta_aid (tbl s') ! (aid (slots (tbl s') ! p) - 1) = Some p)
    \<and> 0 < aid (slots (tbl s') ! p) \<and> sent s' = ASSOCRSP (addr_of (tbl s') p) 0 (aid (slots (tbl s') ! p)) # sent s
    \<and> addr_of (tbl s') p = addr_of (tbl s) p \<and> bit (state_of s' p) 14
    \<and> p \<in> set (asocs s') \<and> p \<notin> set (auth_list (tbl s')) \<and> same_sec (astas s ! p) (astas s' ! p)
    \<and> flags (astas s' ! p) = flags (astas s ! p)"
proof -
  have ok: "table_ok (tbl s)" and inv: "table_inv (tbl s)" and sub: "set (asocs s) \<subseteq> set (hashed (tbl s))"
    using assms(2) by (simp_all add: stas_ok_def table_ok_def)
  have p32: "p < NUM_STA" by (rule hashed_less [OF inv assms(3)])
  obtain g t where a: "assign_aid p (tbl s) = (g, t)" by (rule prod.exhaust)
  have g: "g" using assms(1) a by (cases g) (auto simp: assoc_end_def assoc_fail_def)
  note t = assign_aid_ok [OF ok _ a [unfolded eq_True [THEN iffD2, OF g]]]
  have T: "table_ok t \<and> spriv t = spriv (tbl s) \<and> auth_list t = auth_list (tbl s) \<and> 0 < aid (slots t ! p)
    \<and> length (slots t) = length (slots (tbl s)) \<and> (aid (slots (tbl s) ! p) = 0 \<longrightarrow> sta_aid t ! (aid (slots t ! p) - 1) = Some p)"
    by (rule t) (use p32 table_invD(2) [OF inv] in simp)
  define s1 where "s1 = join_lists cf p (s\<lparr>tbl := t\<rparr>)"
  have lb: "p < length (sta_buf (spriv (tbl (s\<lparr>tbl := t\<rparr>))))" using T p32 table_invD(1) [OF inv] by simp
  note J = join_lists_ok [OF lb, of cf, folded s1_def]
  obtain c st where j: "bss_cap_update_on_sta_join p (asocs s1) (apcaps s1, astas s1) = Some (c, st)"
    using assms(1) a g by (cases "bss_cap_update_on_sta_join p (asocs s1) (apcaps s1, astas s1)")
      (auto simp: assoc_end_def assoc_join_def Let_def s1_def)
  define s2 where "s2 = upd_asta p (sta_info_update cf c) (s1\<lparr>apcaps := c, astas := st\<rparr>)"
  define s3 where "s3 = s2\<lparr>tbl := update_sta_table cf p (tbl s2)\<rparr>"
  have s': "s' = send (ASSOCRSP (addr_of (tbl s3) p) 0 (aid (slots (tbl s3) ! p))) s3"
    using assms(1) a g j unfolding s3_def s2_def by (simp add: assoc_end_def assoc_join_def Let_def s1_def)
  have R: "length st = length (astas s) \<and> same_rest (astas s ! p) (st ! p)"
    using join_rest [OF j] J assms(4) by simp
  have e: "tbl s2 = tbl s1" "asocs s2 = asocs s1" "sent s2 = sent s1" "astas s2 ! p = sta_info_update cf c (st ! p)"
    using R assms(4) by (simp_all add: s2_def upd_asta_def)
  have t3: "tbl s3 = update_sta_table cf p (tbl s1)" "asocs s3 = asocs s1" "sent s3 = sent s" "astas s3 = astas s2"
    using e J by (simp_all add: s3_def)
  have m: "same_map t (tbl s3)" using J same_map_trans [OF _ same_map_update_sta_table] by (simp add: t3)
  have look: "rtw_get_stainfo (spriv (tbl s3)) b = rtw_get_stainfo (spriv (tbl s)) b" for b
    using m T by (simp add: same_map_def)
  have ad: "addr_of (tbl s3) q = addr_of (tbl s) q" for q using m T by (simp add: same_map_def)
  have ai: "aid (slots (tbl s3) ! p) = aid (slots t ! p)" using m by (simp add: same_map_def)
  have hs: "set (hashed (tbl s3)) = set (hashed (tbl s))" using same_map_hashed [OF m] T by (simp add: hashed_def)
  have "table_ok (tbl s3)" using m T by (simp add: same_map_def)
  moreover have "set (asocs s3) \<subseteq> set (hashed (tbl s3))" using J sub assms(3) hs by (simp add: t3)
  moreover have "bit (state_of s3 p) 14" using J lb by (simp add: t3 state_update_sta_table bit_simps)
  moreover have "sta_aid (tbl s3) = sta_aid t" using J by (simp add: t3 sta_aid_upd)
  moreover have "p \<notin> set (auth_list (tbl s3))" "p \<in> set (asocs s3)" using J by (simp_all add: t3 auth_list_update_sta_table)
  moreover have "same_sec (astas s ! p) (astas s3 ! p) \<and> flags (astas s3 ! p) = flags (astas s ! p)"
    using R sta_info_update_rest [of "st ! p" cf c] same_rest_sec [of "astas s ! p" "st ! p"] e(4) t3(4) same_sec_trans
    by (auto simp: same_rest_def)
  ultimately show ?thesis using look ad ai T t3(3) unfolding s' stas_ok_def by (simp add: upd_tbl upd_fields) (simp add: send_def)
qed

text \<open>A request that parses is accepted if there is an identifier for it and the beacon is in order.\<close>

lemma OnAssocReq_eq:
  assumes "ap_state cf" "24 + ie_offset reassoc \<le> n" "rds b 10 6 = Some sa" "rtw_get_stainfo (spriv (tbl s)) sa = Some p"
    "state_of s p AND WIFI_FW_AUTH_SUCCESS \<noteq> 0 \<or> state_of s p AND WIFI_FW_ASSOC_SUCCESS \<noteq> 0"
    "rd_le16 b 24 = Some capab" "rd_le16 b 26 = Some li" "p < length (astas s)"
    "assoc_parse cf (ap_ht_option (apcaps s)) (drop (24 + ie_offset reassoc) b) (n - (24 + ie_offset reassoc))
       ((astas s ! p)\<lparr>capability := of_nat capab\<rparr>) = Some (x, status)"
  shows "OnAssocReq cf reassoc b n s =
    (if status \<noteq> 0 then Some (assoc_fail p status (upd_asta p (\<lambda>_. x) (assoc_begin p capab s)))
     else assoc_end cf p (upd_asta p (\<lambda>_. x) (assoc_begin p capab s)))"
proof -
  have "astas (assoc_begin p capab s) ! p = (astas s ! p)\<lparr>capability := of_nat capab\<rparr>" "apcaps (assoc_begin p capab s) = apcaps s"
    using assms(8) by (simp_all add: assoc_begin_def upd_fields upd_tbl)
  then show ?thesis using assms by (auto simp: OnAssocReq_def assoc_station_def Let_def)
qed

lemma assign_aid_frame:
  "spriv (snd (assign_aid p t)) = spriv t" "fst (assign_aid p (tbl (assoc_begin q k s))) = fst (assign_aid p (tbl s))"
  by (simp_all add: assign_aid_def Let_def table_frame)
    (simp add: assoc_begin_def upd_asta_def upd_state_def update_sta_def)

lemma assoc_end_some:
  assumes "fst (assign_aid p (tbl s))" "caps_ok (apcaps s)" "nonerp_set (astas s ! p) \<longrightarrow> 0 < num_sta_non_erp (apcaps s)"
    "p < length (sta_buf (spriv (tbl s)))"
  shows "\<exists>s'. assoc_end cf p s = Some (RTW_SUCCESS, s')"
proof -
  obtain t where t: "assign_aid p (tbl s) = (True, t)" using assms(1) by (cases "assign_aid p (tbl s)") simp
  have "p < length (sta_buf (spriv (tbl (s\<lparr>tbl := t\<rparr>))))" using assms(4) t assign_aid_frame(1) [of p "tbl s"] by simp
  note J = join_lists_ok [OF this, of cf]
  obtain c st where "bss_cap_update_on_sta_join p (asocs (join_lists cf p (s\<lparr>tbl := t\<rparr>)))
      (apcaps (join_lists cf p (s\<lparr>tbl := t\<rparr>)), astas (join_lists cf p (s\<lparr>tbl := t\<rparr>))) = Some (c, st)"
    by (rule sta_join_step [of "apcaps s" "astas s" p "asocs (join_lists cf p (s\<lparr>tbl := t\<rparr>))"])
      (use assms J in simp_all)
  then show ?thesis using t by (simp add: assoc_end_def assoc_join_def Let_def)
qed

section \<open>Properties\<close>


definition demo_assoc_conf :: assoc_conf where
  "demo_assoc_conf = \<lparr>ap_state = True, dot11AuthAlgrthm = 2, dot11PrivacyAlgrthm = AES, acl_mode = 0, acl_nodes = [],
     auth_to = 3, assoc_to = 3, cur_ssid = [0x61, 0x62], sec_wpa_psk = 2, sec_wpa_group_cipher = 0, sec_wpa2_group_cipher = 16,
     sec_wpa_pairwise_cipher = 0, sec_wpa2_pairwise_cipher = 16, conf_wps_beacon_ie = None, ap_qos_option = True,
     ap_ampdu_enable = True, cur_bwmode = 0, cur_ch_offset = 0, ap_expire_to = 60\<rparr>"

definition demo_assoc_frame :: "bytes \<Rightarrow> bytes" where
  "demo_assoc_frame nm = replicate 10 0 @ demo_addr @ replicate 8 0 @ put_le16 0x0421 @ put_le16 1
     @ [0, 2] @ nm @ [1, 4, 0x02, 0x04, 0x0b, 0x16]
     @ [48, 20, 1, 0, 0x00, 0x0f, 0xac, 4, 1, 0, 0x00, 0x0f, 0xac, 4, 1, 0, 0x00, 0x0f, 0xac, 2, 0, 0]"

definition demo_member :: "u32 \<Rightarrow> sta_table \<Rightarrow> ap_stas" where
  "demo_member st t = demo_stas\<lparr>tbl := update_sta 1 (\<lambda>x. x\<lparr>sta_state := st\<rparr>) t\<rparr>"

definition demo_known :: sta_table where
  "demo_known = snd (rtw_alloc_stainfo (snd (rtw_init_bcmc_stainfo init_sta_table)) demo_addr)"

lemma demo_member_ok: "table_ok t \<Longrightarrow> stas_ok (demo_member st t)"
  by (simp add: stas_ok_def demo_member_def demo_stas_def table_ok_update_sta)

lemma demo_known_ok: "table_ok demo_known"
proof -
  have "rtw_get_stainfo (spriv (snd (rtw_init_bcmc_stainfo init_sta_table))) demo_addr = None" by code_simp
  from ap_auth [OF ap_start demo_sta_addr this] show ?thesis by (auto simp: demo_known_def dest!: ap_reach_inv simp: ap_inv_def)
qed

lemma demo_member_stas:
  "apcaps (demo_member st t) = demo_caps" "length (astas (demo_member st t)) = NUM_STA"
  "1 < length (astas (demo_member st t))" "astas (demo_member st t) ! 1 = init_auth_sta"
  by (simp_all add: demo_member_def demo_stas_def NUM_STA_def)


text \<open>A refused request of a station that has an association identifier loses that identifier: the station's
  number is cleared while its entry in \<open>sta_aid\<close> stays, and the release of the station, which
  succeeds and frees the slot, does not clear it either. The entry names a free slot from then on.\<close>

theorem refused_request_loses_aid:
  assumes "stas_ok s" "ap_state cf" "24 + ie_offset reassoc \<le> n" "rds b 10 6 = Some sa" "sta_addr sa"
    "rtw_get_stainfo (spriv (tbl s)) sa = Some p" "state_of s p AND WIFI_FW_ASSOC_SUCCESS \<noteq> 0"
    "0 < aid (slots (tbl s) ! p)" "sta_aid (tbl s) ! (aid (slots (tbl s) ! p) - 1) = Some p"
    "OnAssocReq cf reassoc b n s = Some (RTW_FAIL, s')" "rtw_free_stainfo (tbl s') (Some p) = (r, t)"
  shows "aid (slots (tbl s') ! p) = 0 \<and> sta_aid (tbl s') ! (aid (slots (tbl s) ! p) - 1) = Some p
    \<and> r = RTW_SUCCESS \<and> p \<in> set (free_sta_queue (spriv t)) \<and> sta_aid t ! (aid (slots (tbl s) ! p) - 1) = Some p"
proof -
  have ok: "table_ok (tbl s)" using assms(1) by (simp add: stas_ok_def)
  have p: "p \<in> set (hashed (tbl s))" using get_iff [OF ok assms(5), of p] assms(6) by simp
  have e: "assoc_station cf reassoc b n p s = Some (RTW_FAIL, s')" using assms(2,3,4,6,7,10) by (simp add: OnAssocReq_def)
  obtain capab x status where
    e: "(if status \<noteq> 0 then Some (assoc_fail p status (upd_asta p (\<lambda>_. x) (assoc_begin p capab s)))
      else assoc_end cf p (upd_asta p (\<lambda>_. x) (assoc_begin p capab s))) = Some (RTW_FAIL, s')"
    by (rule assoc_station_cases [OF e])
  define u where "u = upd_asta p (\<lambda>_. x) (assoc_begin p capab s)"
  note B = assoc_begin_ok [where p = p and k = capab and s = s]
  have m: "same_map (tbl s) (tbl u)" and sa: "sta_aid (tbl u) = sta_aid (tbl s)" using B by (simp_all add: u_def upd_tbl)
  have ua: "aid (slots (tbl u) ! p) = aid (slots (tbl s) ! p)" using m by (simp add: same_map_def)
  have "status \<noteq> 0"
  proof
    assume "status = 0"
    then have "assoc_end cf p u = Some (RTW_FAIL, s')" using e by (simp add: u_def)
    moreover have "assign_aid p (tbl u) = (True, tbl u)" using ua assms(8) by (simp add: assign_aid_def)
    ultimately show False by (cases "assoc_join cf p u") (auto simp: assoc_end_def)
  qed
  then have s': "tbl s' = update_slot p (\<lambda>y. y\<lparr>aid := 0\<rparr>) (tbl u)"
    using e assoc_fail_tbl(1) [of p status u] by (metis option.inject snd_conv u_def)
  have uk: "table_ok (tbl u)" using m ok by (simp add: same_map_def)
  have tk: "table_ok (tbl s')" unfolding s' table_ok_update_slot by (rule uk)
  then have inv: "table_inv (tbl s')" by (simp add: table_ok_def)
  have ph: "p \<in> set (hashed (tbl s'))" using same_map_hashed [OF m ok] p by (simp add: s' table_frame)
  have "p < length (slots (tbl u))" using hashed_less [OF inv ph] table_invD(2) [OF inv] by (simp add: s' table_frame)
  then have z: "aid (slots (tbl s') ! p) = 0" by (simp add: s' slots_update_slot)
  have sa': "sta_aid (tbl s') = sta_aid (tbl s)" by (simp add: s' sa table_frame)
  note F = hashed_free [OF inv ph assms(11)]
  show ?thesis using z sa' F(9,10) free_aids(2) [OF inv ph assms(11)] assms(9) by simp
qed

theorem refused_request_loses_aid_witness:
  "\<exists>s'. OnAssocReq demo_assoc_conf False (demo_assoc_frame [0x61, 0x63]) 60 (demo_member WIFI_FW_ASSOC_SUCCESS demo_table) = Some (RTW_FAIL, s')
    \<and> sta_aid (snd (rtw_free_stainfo (tbl s') (Some 1))) ! 0 = Some 1
    \<and> 1 \<in> set (free_sta_queue (spriv (snd (rtw_free_stainfo (tbl s') (Some 1)))))"
proof -
  let ?s = "demo_member WIFI_FW_ASSOC_SUCCESS demo_table" and ?b = "demo_assoc_frame [0x61, 0x63]"
  have h: "ap_state demo_assoc_conf" "24 + ie_offset False \<le> 60" by code_simp+
  have g: "rds ?b 10 6 = Some demo_addr" "rd_le16 ?b 24 = Some 0x0421" "rd_le16 ?b 26 = Some 1" by code_simp+
  have k: "rtw_get_stainfo (spriv (tbl ?s)) demo_addr = Some 1" "state_of ?s 1 AND WIFI_FW_ASSOC_SUCCESS \<noteq> 0"
    "0 < aid (slots (tbl ?s) ! 1)" "sta_aid (tbl ?s) ! (aid (slots (tbl ?s) ! 1) - 1) = Some 1" by code_simp+
  have a: "aid (slots (tbl ?s) ! 1) = 1" by code_simp
  have "map_option snd (assoc_parse demo_assoc_conf (ap_ht_option demo_caps) (drop 28 ?b) 32 (init_auth_sta\<lparr>capability := 0x0421\<rparr>)) = Some 1"
    by code_simp
  then obtain x where x: "assoc_parse demo_assoc_conf (ap_ht_option demo_caps) (drop 28 ?b) 32 (init_auth_sta\<lparr>capability := 0x0421\<rparr>) = Some (x, 1)"
    by auto
  obtain s' where s': "OnAssocReq demo_assoc_conf False ?b 60 ?s = Some (RTW_FAIL, s')"
    using OnAssocReq_eq [OF h g(1) k(1) disjI2 [OF k(2)] g(2,3), of x 1] x demo_member_stas [of WIFI_FW_ASSOC_SUCCESS demo_table]
    by (auto simp: ie_offset_def assoc_fail_def Let_def)
  from refused_request_loses_aid [OF demo_member_ok [OF demo_table_ok] h g(1) demo_sta_addr(1) k s' prod.collapse [symmetric]] s'
  show ?thesis unfolding a by auto
qed

end
