(* ===== verification/RxValid.thy ===== *)
theory RxValid
  imports RxPath Ie
begin

text \<open>
  The checks a received frame passes before \<open>RxPath\<close> handles it (\<^verbatim>\<open>validate_recv_frame\<close>,
  \<^verbatim>\<open>validate_recv_data_frame\<close> and the three functions for the directions of a data frame in
  \<^verbatim>\<open>core/rtw_recv.c\<close>), and \<^verbatim>\<open>recv_func\<close>, which composes both. What a frame makes the driver do
  elsewhere (power saving, deauthentication, statistics, management frames) is recorded as a list of calls.
  \<open>None\<close> is a read behind the memory of the frame.
\<close>

section \<open>State\<close>

definition WIFI_STATION_STATE :: u32 where "WIFI_STATION_STATE = 0x00000008"
definition WIFI_AP_STATE :: u32 where "WIFI_AP_STATE = 0x00000010"
definition WIFI_ADHOC_STATE :: u32 where "WIFI_ADHOC_STATE = 0x00000020"
definition WIFI_ADHOC_MASTER_STATE :: u32 where "WIFI_ADHOC_MASTER_STATE = 0x00000040"
definition FW_UNDER_LINKING :: u32 where "FW_UNDER_LINKING = 0x00000080"
definition WIFI_MP_STATE :: u32 where "WIFI_MP_STATE = 0x00010000"

definition check_fwstate :: "u32 \<Rightarrow> u32 \<Rightarrow> bool" where
  "check_fwstate fw_state state \<longleftrightarrow> fw_state AND state \<noteq> 0"

text \<open>The attributes a frame gets on top of those the data path uses.\<close>

record rx_check_attrib = rx_full_attrib +
  rx_bssid :: bytes
  to_fr_ds :: nat
  rx_pw_save :: bool
  rx_mdata :: bool
  rx_order :: bool

text \<open>Calls to other parts, in the order they are made: the power management bit and the trigger of a
  station, a deauthentication with reason 7, the count of a frame without data, and the dispatch of the
  other two types of frames.\<close>

datatype rx_call = ProcessPwrbit bytes bool | ProcessWmmps bytes u8 | IssueDeauth bytes nat | CountRxStats nat
  | RecvMgnt recv_frame_hdr | RecvCtrl

datatype rx_ret = RxSuccess | RxFail | RxHandled

record rx_net =
  path :: rx_path
  fw_state :: u32
  cur_bssid :: bytes
  myhwaddr :: bytes
  sec_privacy :: privacy
  sec_grp_privacy :: privacy
  sta_privacy :: "privacy list"
  rxcache :: "u16 list list"
  bIsAnyNonBEPkts :: bool
  uc_swdec_pending_queue :: "((nat \<times> nat) \<times> recv_frame_hdr) list"
  rx_pkts :: nat
  calls :: "rx_call list"

definition call :: "rx_call \<Rightarrow> rx_net \<Rightarrow> rx_net" where
  "call c n = n\<lparr>calls := calls n @ [c]\<rparr>"

section \<open>The header\<close>

definition frame_ctl :: "bytes \<Rightarrow> u16" where "frame_ctl p = get_le16 (p ! 0) (p ! 1)"

definition get_tofr_ds :: "bytes \<Rightarrow> nat" where
  "get_tofr_ds p = (if bit (frame_ctl p) 8 then 2 else 0) + (if bit (frame_ctl p) 9 then 1 else 0)"

definition get_da :: "bytes \<Rightarrow> bytes option" where
  "get_da p = rds p (if get_tofr_ds p \<le> 1 then 4 else 16) 6"

definition get_sa :: "bytes \<Rightarrow> bytes option" where
  "get_sa p = rds p (if get_tofr_ds p = 0 then 10 else if get_tofr_ds p = 1 then 16
     else if get_tofr_ds p = 2 then 10 else 24) 6"

definition get_hdr_bssid :: "bytes \<Rightarrow> bytes option" where
  "get_hdr_bssid p = rds p (if get_tofr_ds p = 0 then 16 else if get_tofr_ds p = 1 then 10 else 4) 6"

section \<open>The directions of a data frame\<close>

text \<open>Each yields the result, the station, the state and the attributes.\<close>

type_synonym dir_result = "(rx_ret \<times> nat option \<times> rx_net \<times> rx_check_attrib) option"

abbreviation stas_of :: "rx_net \<Rightarrow> sta_priv" where "stas_of n \<equiv> stapriv (path n)"

definition zero_addr :: bytes where "zero_addr = replicate 6 0"

text \<open>The addresses as the manufacturing test mode takes them.\<close>

definition mp_addrs :: "bytes \<Rightarrow> rx_check_attrib \<Rightarrow> rx_check_attrib option" where
  "mp_addrs p a =
     do { a1 \<leftarrow> rds p 4 6; a2 \<leftarrow> rds p 10 6; a3 \<leftarrow> rds p 16 6;
          Some (a\<lparr>rx_dst := a1, rx_src := a2, rx_bssid := a3, rx_ra := a1, rx_ta := a2\<rparr>) }"

text \<open>The end of \<^verbatim>\<open>sta2sta_data_frame\<close>: a missing address finds no station.\<close>

definition sta2sta_find :: "bool \<Rightarrow> bytes option \<Rightarrow> rx_ret \<Rightarrow> rx_net \<Rightarrow> rx_check_attrib \<Rightarrow> dir_result" where
  "sta2sta_find bmcast sta_addr ret n a =
     (let psta = (if bmcast then rtw_get_stainfo (stas_of n) bc_addr
                  else case sta_addr of None \<Rightarrow> None | Some s \<Rightarrow> rtw_get_stainfo (stas_of n) s) in
      Some (if psta = None then RxFail else ret, psta, n, a))"

definition sta2sta_data_frame :: "bytes \<Rightarrow> rx_net \<Rightarrow> rx_check_attrib \<Rightarrow> dir_result" where
  "sta2sta_data_frame p n a =
     (let bmcast = is_multicast_ether_addr (rx_dst a); st = fw_state n in
      if check_fwstate st WIFI_ADHOC_STATE \<or> check_fwstate st WIFI_ADHOC_MASTER_STATE then
        (if myhwaddr n = rx_src a then Some (RxFail, None, n, a)
         else if myhwaddr n \<noteq> rx_dst a \<and> \<not> bmcast then Some (RxFail, None, n, a)
         else if rx_bssid a = zero_addr \<or> cur_bssid n = zero_addr \<or> rx_bssid a \<noteq> cur_bssid n
         then Some (RxFail, None, n, a)
         else sta2sta_find bmcast (Some (rx_src a)) RxSuccess n a)
      else if check_fwstate st WIFI_STATION_STATE then
        (if rx_bssid a \<noteq> rx_src a then Some (RxFail, None, n, a)
         else sta2sta_find bmcast (Some (rx_bssid a)) RxSuccess n a)
      else if check_fwstate st WIFI_AP_STATE then
        (if bmcast then
           (if \<not> is_multicast_ether_addr (rx_bssid a) then Some (RxFail, None, n, a)
            else sta2sta_find bmcast None RxSuccess n a)
         else if rx_bssid a \<noteq> rx_dst a then Some (RxFail, None, n, a)
         else sta2sta_find bmcast (Some (rx_src a)) RxSuccess n a)
      else if check_fwstate st WIFI_MP_STATE then
        do { a \<leftarrow> mp_addrs p a; sta2sta_find bmcast (Some (cur_bssid n)) RxSuccess n a }
      else sta2sta_find bmcast None RxFail n a)"

definition ap2sta_data_frame :: "bytes \<Rightarrow> rx_net \<Rightarrow> rx_check_attrib \<Rightarrow> dir_result" where
  "ap2sta_data_frame p n a =
     (let bmcast = is_multicast_ether_addr (rx_dst a); st = fw_state n in
      if check_fwstate st WIFI_STATION_STATE \<and> (check_fwstate st FW_LINKED \<or> check_fwstate st FW_UNDER_LINKING) then
        (if myhwaddr n = rx_src a then Some (RxFail, None, n, a)
         else if myhwaddr n \<noteq> rx_dst a \<and> \<not> bmcast then Some (RxFail, None, n, a)
         else if rx_bssid a = zero_addr \<or> cur_bssid n = zero_addr \<or> rx_bssid a \<noteq> cur_bssid n
         then Some (RxFail, None, if bmcast then n else call (IssueDeauth (rx_bssid a) 7) n, a)
         else
           (case rtw_get_stainfo (stas_of n) (if bmcast then bc_addr else rx_bssid a) of
              None \<Rightarrow> Some (RxFail, None, n, a)
            | Some i \<Rightarrow>
                (if bit (frame_ctl p) 6 then Some (RxHandled, Some i, call (CountRxStats i) n, a)
                 else Some (RxSuccess, Some i, n, a))))
      else if check_fwstate st WIFI_MP_STATE \<and> check_fwstate st FW_LINKED then
        do { a \<leftarrow> mp_addrs p a;
             let a = a\<lparr>rx_bssid := cur_bssid n\<rparr>;
             Some (case rtw_get_stainfo (stas_of n) (rx_bssid a) of
                 None \<Rightarrow> (RxFail, None, n, a) | Some i \<Rightarrow> (RxSuccess, Some i, n, a)) }
      else if check_fwstate st WIFI_AP_STATE then Some (RxHandled, None, n, a)
      else
        Some (RxFail, None,
          if myhwaddr n = rx_dst a \<and> \<not> bmcast \<and> rtw_get_stainfo (stas_of n) (rx_bssid a) = None
          then call (IssueDeauth (rx_bssid a) 7) n else n, a))"

definition WIFI_QOS_DATA_TYPE :: u16 where "WIFI_QOS_DATA_TYPE = 0x88"

definition sta2ap_data_frame :: "bytes \<Rightarrow> rx_net \<Rightarrow> rx_check_attrib \<Rightarrow> dir_result" where
  "sta2ap_data_frame p n a =
     (if check_fwstate (fw_state n) WIFI_AP_STATE then
        (if rx_bssid a \<noteq> cur_bssid n then Some (RxFail, None, n, a)
         else
           (case rtw_get_stainfo (stas_of n) (rx_src a) of
              None \<Rightarrow> Some (RxHandled, None, call (IssueDeauth (rx_src a) 7) n, a)
            | Some i \<Rightarrow>
                (let n = call (ProcessPwrbit (rx_src a) (bit (frame_ctl p) 12)) n;
                     n = (if GetFrameSubType p AND WIFI_QOS_DATA_TYPE = WIFI_QOS_DATA_TYPE
                          then call (ProcessWmmps (rx_src a) (rx_priority a)) n else n) in
                 if bit (frame_ctl p) 6 then Some (RxHandled, Some i, call (CountRxStats i) n, a)
                 else Some (RxSuccess, Some i, n, a))))
      else if rx_ra a \<noteq> myhwaddr n then Some (RxHandled, None, n, a)
      else Some (RxHandled, None, call (IssueDeauth (rx_src a) 7) n, a))"

section \<open>Validation\<close>

text \<open>\<^verbatim>\<open>GET_ENCRY_ALGO\<close> leaves the algorithm alone for an unknown kind of authentication.\<close>

definition GET_ENCRY_ALGO :: "nat \<Rightarrow> privacy \<Rightarrow> privacy \<Rightarrow> privacy \<Rightarrow> bool \<Rightarrow> privacy \<Rightarrow> privacy" where
  "GET_ENCRY_ALGO auth alg grp sta bmcst old =
     (if auth = 0 \<or> auth = 1 \<or> auth = 3 then alg else if auth = 2 then (if bmcst then grp else sta) else old)"

text \<open>The addresses, then the direction.\<close>

definition rx_direction :: "bytes \<Rightarrow> rx_net \<Rightarrow> rx_check_attrib \<Rightarrow> dir_result" where
  "rx_direction p n a =
     do { pda \<leftarrow> get_da p; psa \<leftarrow> get_sa p; pbssid \<leftarrow> get_hdr_bssid p;
          let a = a\<lparr>rx_dst := pda, rx_src := psa, rx_bssid := pbssid\<rparr>;
          if to_fr_ds a = 0 then sta2sta_data_frame p n (a\<lparr>rx_ra := pda, rx_ta := psa\<rparr>)
          else if to_fr_ds a = 1 then ap2sta_data_frame p n (a\<lparr>rx_ra := pda, rx_ta := pbssid\<rparr>)
          else if to_fr_ds a = 2 then sta2ap_data_frame p n (a\<lparr>rx_ra := pbssid, rx_ta := psa\<rparr>)
          else if to_fr_ds a = 3 then
            do { a1 \<leftarrow> rds p 4 6; a2 \<leftarrow> rds p 10 6; Some (RxFail, None, n, a\<lparr>rx_ra := a1, rx_ta := a2\<rparr>) }
          else Some (RxFail, None, n, a) }"

text \<open>The QoS control field.\<close>

definition rx_qc :: "bytes \<Rightarrow> rx_net \<Rightarrow> rx_check_attrib \<Rightarrow> (rx_net \<times> rx_check_attrib) option" where
  "rx_qc p n a =
     (let a = a\<lparr>rx_amsdu := 0, rx_ack_policy := 0\<rparr> in
      do { (n, a) \<leftarrow>
             (if rx_qos a = 1 then
                do { l \<leftarrow> rd p 24; _ \<leftarrow> rd p 25;
                     let a = a\<lparr>rx_priority := l AND 0xf, rx_ack_policy := drop_bit 5 l AND 3, rx_amsdu := drop_bit 7 l AND 1,
                       rx_hdrlen := (if to_fr_ds a = 3 then 32 else 26)\<rparr>;
                     Some (if rx_priority a \<noteq> 0 \<and> rx_priority a \<noteq> 3 then n\<lparr>bIsAnyNonBEPkts := True\<rparr> else n, a) }
              else Some (n, a\<lparr>rx_priority := 0, rx_hdrlen := (if to_fr_ds a = 3 then 30 else 24)\<rparr>));
           Some (n, if rx_order a then a\<lparr>rx_hdrlen := rx_hdrlen a + 4\<rparr> else a) })"

definition rx_security :: "nat \<Rightarrow> rx_net \<Rightarrow> rx_check_attrib \<Rightarrow> rx_check_attrib" where
  "rx_security i n a =
     (if rx_privacy a \<noteq> 0 then
        (let e = GET_ENCRY_ALGO (dot11AuthAlgrthm (securitypriv (path n))) (sec_privacy n) (sec_grp_privacy n)
                   (sta_privacy n ! i) (is_multicast_ether_addr (rx_ra a)) (rx_encrypt a);
             (iv, icv) = SET_ICE_IV_LEN e
         in a\<lparr>rx_encrypt := e, rx_iv_len := iv, rx_icv_len := icv\<rparr>)
      else a\<lparr>rx_encrypt := NO_PRIVACY, rx_iv_len := 0, rx_icv_len := 0\<rparr>)"

text \<open>\<^verbatim>\<open>validate_recv_data_frame\<close>; the station is the one whose reorder control the frame gets, with
  its traffic class.\<close>

definition validate_recv_data_frame ::
    "bytes \<Rightarrow> rx_net \<Rightarrow> rx_check_attrib \<Rightarrow> (rx_ret \<times> (nat \<times> nat) option \<times> rx_net \<times> rx_check_attrib) option" where
  "validate_recv_data_frame p n a =
     do { (ret, psta, n, a) \<leftarrow> rx_direction p n a;
          case psta of
            None \<Rightarrow> Some (if ret = RxHandled then RxHandled else RxFail, None, n, a)
          | Some i \<Rightarrow>
              (if ret \<noteq> RxSuccess then Some (ret, None, n, a)
               else
                 do { (n, a) \<leftarrow> rx_qc p n a;
                      let ctrl = (i, unat (rx_priority a));
                      let (res, cache) = recv_decache (rx_full_attrib.truncate a) (rxcache n ! i);
                      let n = n\<lparr>rxcache := (rxcache n)[i := cache]\<rparr>;
                      Some (if res = RTW_FAIL then (RxFail, None, n, a)
                        else (RxSuccess, Some ctrl, n, rx_security i n a)) }) }"

text \<open>\<^verbatim>\<open>validate_recv_mgnt_frame\<close> reassembles and dispatches.\<close>

definition validate_recv_mgnt_frame :: "rx_net \<Rightarrow> recv_frame_hdr \<Rightarrow> rx_net option" where
  "validate_recv_mgnt_frame n f =
     do { (p, r) \<leftarrow> recvframe_chk_defrag (path n) f;
          let n = n\<lparr>path := p\<rparr>;
          Some (case r of None \<Rightarrow> n | Some g \<Rightarrow> call (RecvMgnt g) n) }"

text \<open>\<^verbatim>\<open>validate_recv_frame\<close>: only data frames may succeed.\<close>

definition rx_fields :: "bytes \<Rightarrow> rx_check_attrib \<Rightarrow> rx_check_attrib option" where
  "rx_fields p a =
     do { s \<leftarrow> rd_le16 p 22;
          let fc = frame_ctl p;
          Some (a\<lparr>to_fr_ds := get_tofr_ds p, rx_frag_num := of_nat s AND 0xf, rx_seq_num := drop_bit 4 (of_nat s),
            rx_pw_save := bit fc 12, rx_mfrag := of_bool (bit fc 10), rx_mdata := bit fc 13,
            rx_privacy := of_bool (bit fc 14), rx_order := bit fc 15\<rparr>) }"

definition with_attrib :: "rx_check_attrib \<Rightarrow> recv_frame_hdr \<Rightarrow> recv_frame_hdr" where
  "with_attrib a f = f\<lparr>fr_attrib := rx_full_attrib.truncate a\<rparr>"

definition validate_recv_frame ::
    "rx_net \<Rightarrow> recv_frame_hdr \<Rightarrow> rx_check_attrib \<Rightarrow> (rx_ret \<times> (nat \<times> nat) option \<times> rx_net \<times> rx_check_attrib) option" where
  "validate_recv_frame n f a =
     (let p = drop (rx_data_off f) (rx_mem f) in
      do { v \<leftarrow> rd p 0; _ \<leftarrow> rd p 1;
          if v AND 3 \<noteq> 0 then Some (RxFail, None, n, a)
          else
            do { a \<leftarrow> rx_fields p a;
                 if GetFrameType p = 0 then
                   do { n \<leftarrow> validate_recv_mgnt_frame n (with_attrib a f); Some (RxFail, None, n, a) }
                 else if GetFrameType p = 4 then Some (RxFail, None, call RecvCtrl n, a)
                 else if GetFrameType p = WIFI_DATA_TYPE then
                   do { (ret, ctrl, n, a) \<leftarrow>
                          validate_recv_data_frame p n (a\<lparr>rx_qos := (if bit (frame_ctl p) 7 then 1 else 0)\<rparr>);
                        Some (ret, ctrl,
                          if ret = RxFail then n\<lparr>path := (path n)\<lparr>rx_drop := rx_drop (path n) + 1\<rparr>\<rparr> else n, a) }
                 else Some (RxFail, None, n, a) } })"

section \<open>From the device to the network stack\<close>

text \<open>\<^verbatim>\<open>recv_func_prehandle\<close> frees a frame that does not pass; so it does with every management
  frame, whether or not the fragment queue holds it.\<close>

definition recv_func_prehandle ::
    "rx_net \<Rightarrow> recv_frame_hdr \<Rightarrow> rx_check_attrib \<Rightarrow> (rx_ret \<times> ((nat \<times> nat) \<times> recv_frame_hdr) option \<times> rx_net) option" where
  "recv_func_prehandle n f a =
     do { (ret, ctrl, n, a) \<leftarrow> validate_recv_frame n f a;
          Some (case (ret, ctrl) of (RxSuccess, Some c) \<Rightarrow> (ret, Some (c, with_attrib a f), n)
            | _ \<Rightarrow> (ret, None, n\<lparr>path := free_frames [f] (path n)\<rparr>)) }"

text \<open>\<^verbatim>\<open>recv_func\<close>. Unicast frames that need a key in software wait until there is one. \<open>found\<close> is
  the station \<^verbatim>\<open>portctrl\<close> hits upon, as in \<open>RxPath\<close>.\<close>

definition is_wep_enc :: "privacy \<Rightarrow> bool" where "is_wep_enc e \<longleftrightarrow> e = WEP40 \<or> e = WEP104"

fun posthandle_all :: "nat option \<Rightarrow> ((nat \<times> nat) \<times> recv_frame_hdr) list \<Rightarrow> rx_path \<Rightarrow> rx_path option" where
  "posthandle_all found [] p = Some p"
| "posthandle_all found ((c, f) # q) p =
     do { (_, p) \<leftarrow> recv_func_posthandle found c p f; posthandle_all found q p }"

definition waits_for_key :: "rx_net \<Rightarrow> recv_frame_hdr \<Rightarrow> bool" where
  "waits_for_key n f \<longleftrightarrow>
     (let a = fr_attrib f; sec = securitypriv (path n) in
      check_fwstate (fw_state n) WIFI_STATION_STATE \<and> \<not> is_multicast_ether_addr (rx_ra a) \<and> rx_encrypt a \<noteq> NO_PRIVACY
      \<and> (rx_bdecrypted a = 0 \<or> sw_decrypt sec) \<and> \<not> is_wep_enc (sec_privacy n) \<and> \<not> busetkipkey sec)"

definition recv_func :: "nat option \<Rightarrow> rx_net \<Rightarrow> recv_frame_hdr \<Rightarrow> rx_check_attrib \<Rightarrow> (rx_ret \<times> rx_net) option" where
  "recv_func found n f a =
     do { n \<leftarrow> (if check_fwstate (fw_state n) WIFI_STATION_STATE \<and> busetkipkey (securitypriv (path n)) then
                  do { p \<leftarrow> posthandle_all found (uc_swdec_pending_queue n) (path n);
                       Some (n\<lparr>path := p, uc_swdec_pending_queue := []\<rparr>) }
                else Some n);
          (ret, r, n) \<leftarrow> recv_func_prehandle n f a;
          case r of
            None \<Rightarrow> Some (ret, n)
          | Some (c, f) \<Rightarrow>
              (if waits_for_key n f
               then Some (RxSuccess, n\<lparr>uc_swdec_pending_queue := uc_swdec_pending_queue n @ [(c, f)]\<rparr>)
               else
                 do { (res, p) \<leftarrow> recv_func_posthandle found c (path n) f;
                      Some (if res = RTW_FAIL then RxFail else RxSuccess, n\<lparr>path := p\<rparr>) }) }"

text \<open>\<^verbatim>\<open>rtw_recv_entry\<close> counts what was not dropped.\<close>

definition rtw_recv_entry :: "nat option \<Rightarrow> rx_net \<Rightarrow> recv_frame_hdr \<Rightarrow> rx_check_attrib \<Rightarrow> (rx_ret \<times> rx_net) option" where
  "rtw_recv_entry found n f a =
     do { (ret, n) \<leftarrow> recv_func found n f a;
          Some (ret, if ret = RxFail then n else n\<lparr>rx_pkts := rx_pkts n + 1\<rparr>) }"

end
