(* ===== verification/RxFilter.thy ===== *)
theory RxFilter
  imports RxValid
begin

text \<open>
  Which data frames pass the checks of \<open>RxValid\<close>: for a station of an infrastructure network those of its own
  access point; frames without protection pass whatever the security settings are.
\<close>

section \<open>What the directions leave alone\<close>

definition keeps :: "rx_net \<Rightarrow> rx_check_attrib \<Rightarrow> dir_result \<Rightarrow> bool" where
  "keeps n a x \<longleftrightarrow> (\<forall>r ps n' a'. x = Some (r, ps, n', a') \<longrightarrow> path n' = path n \<and> rx_privacy a' = rx_privacy a)"

named_theorems keep "the directions keep the data path and the privacy of the frame"

lemma keeps_none [keep]: "keeps n a None" by (simp add: keeps_def)

lemma keeps_some [keep]:
  "path n' = path n \<Longrightarrow> rx_privacy a' = rx_privacy a \<Longrightarrow> keeps n a (Some (r, ps, n', a'))"
  by (simp add: keeps_def)

lemma keeps_if [keep]: "(b \<Longrightarrow> keeps n a x) \<Longrightarrow> (\<not> b \<Longrightarrow> keeps n a y) \<Longrightarrow> keeps n a (if b then x else y)"
  by simp

lemma keeps_option [keep]:
  "(z = None \<Longrightarrow> keeps n a x) \<Longrightarrow> (\<And>i. z = Some i \<Longrightarrow> keeps n a (y i)) \<Longrightarrow> keeps n a (case z of None \<Rightarrow> x | Some i \<Rightarrow> y i)"
  by (cases z) simp_all

lemma keeps_bind [keep]: "(\<And>v. z = Some v \<Longrightarrow> keeps n a (y v)) \<Longrightarrow> keeps n a (Option.bind z y)"
  by (cases z) (simp_all add: keeps_none)

lemma keeps_attrib:
  assumes "rx_privacy a = rx_privacy b" "keeps n a x"
  shows "keeps n b x"
  using assms(2) unfolding keeps_def assms(1) .

lemma call_fields [simp]: "path (call c n) = path n" "fw_state (call c n) = fw_state n" "rxcache (call c n) = rxcache n"
  by (simp_all add: call_def)

lemma mp_addrs_privacy: "mp_addrs p a = Some a' \<Longrightarrow> rx_privacy a' = rx_privacy a"
  by (auto simp: mp_addrs_def bind_eq_Some_conv)

lemma sta2sta_find_keeps [keep]: "keeps n a (sta2sta_find b s ret n a)"
  unfolding sta2sta_find_def Let_def by (intro keep refl)

lemma sta2sta_keeps [keep]: "keeps n a (sta2sta_data_frame p n a)"
  unfolding sta2sta_data_frame_def Let_def
  by (intro keep refl; rule keeps_attrib [OF mp_addrs_privacy], assumption, rule sta2sta_find_keeps)

lemma ap2sta_keeps [keep]: "keeps n a (ap2sta_data_frame p n a)"
  unfolding ap2sta_data_frame_def Let_def
  by (intro keep refl) (simp_all add: keeps_def mp_addrs_privacy split: option.splits)

lemma sta2ap_keeps [keep]: "keeps n a (sta2ap_data_frame p n a)"
  unfolding sta2ap_data_frame_def Let_def
  by (intro keep refl) (simp_all add: call_def)

lemma direction_keeps: "keeps n a (rx_direction p n a)"
  unfolding rx_direction_def Let_def
  apply (intro keeps_bind keeps_if keeps_none)
      apply (rule keeps_attrib [OF _ sta2sta_keeps], simp)
     apply (rule keeps_attrib [OF _ ap2sta_keeps], simp)
    apply (rule keeps_attrib [OF _ sta2ap_keeps], simp)
   apply (rule keeps_some; simp)+
  done

lemmas direction_inv = direction_keeps [unfolded keeps_def, rule_format]

lemma qc_keeps:
  "case rx_qc p n a of None \<Rightarrow> True | Some (n', a') \<Rightarrow> path n' = path n \<and> rx_privacy a' = rx_privacy a"
  by (cases "rx_qos a = 1"; cases "rx_order a"; cases "rd p 24"; cases "rd p 25") (simp_all add: rx_qc_def)

lemma qc_inv: "rx_qc p n a = Some (n', a') \<Longrightarrow> path n' = path n \<and> rx_privacy a' = rx_privacy a"
  using qc_keeps [where p = p and n = n and a = a] by simp

lemma fields_privacy: "rx_fields p a = Some a' \<Longrightarrow> rx_privacy a' = of_bool (bit (frame_ctl p) 14) \<and> to_fr_ds a' = get_tofr_ds p"
  by (auto simp: rx_fields_def Let_def bind_eq_Some_conv)

text \<open>The steps of an accepted frame.\<close>

lemma validate_steps:
  assumes "validate_recv_frame n f a = Some (RxSuccess, Some (i, tid), n', a')" "p = drop (rx_data_off f) (rx_mem f)"
  shows "\<exists>a1 n2 a2 n3 a3. rx_fields p a = Some a1
     \<and> rx_direction p n (a1\<lparr>rx_qos := (if bit (frame_ctl p) 7 then 1 else 0)\<rparr>) = Some (RxSuccess, Some i, n2, a2)
     \<and> rx_qc p n2 a2 = Some (n3, a3) \<and> path n' = path n3 \<and> a' = rx_security i n' a3"
proof -
  obtain a1 where f: "rx_fields p a = Some a1"
    and v: "validate_recv_data_frame p n (a1\<lparr>rx_qos := (if bit (frame_ctl p) 7 then 1 else 0)\<rparr>) = Some (RxSuccess, Some (i, tid), n', a')"
    using assms(1) unfolding validate_recv_frame_def assms(2) [symmetric] Let_def
    by (auto simp: bind_eq_Some_conv split: if_splits)
  obtain r ps n2 a2 where d: "rx_direction p n (a1\<lparr>rx_qos := (if bit (frame_ctl p) 7 then 1 else 0)\<rparr>) = Some (r, ps, n2, a2)"
    using v by (auto simp: validate_recv_data_frame_def bind_eq_Some_conv)
  have rp: "r = RxSuccess \<and> ps = Some i"
    using v d by (auto simp: validate_recv_data_frame_def bind_eq_Some_conv Let_def split_beta split: option.splits if_splits)
  then obtain n3 a3 where q: "rx_qc p n2 a2 = Some (n3, a3)"
    using v d by (auto simp: validate_recv_data_frame_def bind_eq_Some_conv)
  have "path n' = path n3 \<and> a' = rx_security i n' a3"
    using v d q rp by (auto simp: validate_recv_data_frame_def Let_def split_beta split: if_splits)
  with f d rp q show ?thesis by blast
qed

section \<open>Properties\<close>


text \<open>C22. A station of an infrastructure network hears its own access point only: a data frame from a
  distribution system that \<^verbatim>\<open>validate_recv_frame\<close> accepts carries the BSSID of the network the station
  belongs to, is addressed to the station or to a group, has not been sent by the station itself, and is accounted to the
  entry of the access point, or of the group.\<close>

theorem station_hears_its_bss:
  assumes "check_fwstate (fw_state n) WIFI_STATION_STATE" "check_fwstate (fw_state n) FW_LINKED"
    and "p = drop (rx_data_off f) (rx_mem f)" "get_tofr_ds p = 1"
    and "validate_recv_frame n f a = Some (RxSuccess, Some (i, tid), n', a')"
  shows "\<exists>da sa. get_da p = Some da \<and> get_sa p = Some sa \<and> get_hdr_bssid p = Some (cur_bssid n) \<and> sa \<noteq> myhwaddr n
     \<and> (da = myhwaddr n \<or> is_multicast_ether_addr da)
     \<and> rtw_get_stainfo (stas_of n) (if is_multicast_ether_addr da then bc_addr else cur_bssid n) = Some i"
proof -
  obtain a1 n2 a2 where s: "rx_fields p a = Some a1"
     "rx_direction p n (a1\<lparr>rx_qos := (if bit (frame_ctl p) 7 then 1 else 0)\<rparr>) = Some (RxSuccess, Some i, n2, a2)"
    using validate_steps [OF assms(5,3)] by blast
  have t: "to_fr_ds a1 = 1" using fields_privacy [OF s(1)] assms(4) by simp
  obtain da sa bss where g: "get_da p = Some da" "get_sa p = Some sa" "get_hdr_bssid p = Some bss"
    using s(2) by (auto simp: rx_direction_def bind_eq_Some_conv)
  define b where "b = a1\<lparr>rx_qos := (if bit (frame_ctl p) 7 then 1 else 0), rx_dst := da, rx_src := sa, rx_bssid := bss, rx_ra := da, rx_ta := bss\<rparr>"
  have b: "rx_dst b = da" "rx_src b = sa" "rx_bssid b = bss" by (simp_all add: b_def)
  have "ap2sta_data_frame p n b = Some (RxSuccess, Some i, n2, a2)"
    using s(2) t g by (simp add: rx_direction_def Let_def b_def)
  then have "sa \<noteq> myhwaddr n \<and> (da = myhwaddr n \<or> is_multicast_ether_addr da) \<and> bss = cur_bssid n
      \<and> rtw_get_stainfo (stas_of n) (if is_multicast_ether_addr da then bc_addr else bss) = Some i"
    using assms(1,2) b by (auto simp: ap2sta_data_frame_def Let_def split: if_splits option.splits)
  then show ?thesis using g by blast
qed

text \<open>A station that is protected by CCMP, and a frame in plain text from its access point.\<close>

definition example_table :: "bytes \<Rightarrow> sta_priv" where
  "example_table mac = \<lparr>sta_buf = [\<lparr>hwaddr = mac, sta_state = FW_LINKED, dot118021x_UncstKey = replicate 16 3\<rparr>],
     free_sta_queue = [], sta_hash = replicate 32 [0], asoc_sta_count = 1\<rparr>"

definition example_sec :: rx_sec where
  "example_sec = (securitypriv example_path)\<lparr>dot11AuthAlgrthm := 2, busetkipkey := True\<rparr>"

definition rx_example_frame :: "bytes \<Rightarrow> recv_frame_hdr" where
  "rx_example_frame bs = \<lparr>fr_id = 1, fr_attrib = example_rx_attrib, rx_mem = bs, rx_data_off = 0, rx_tail_off = length bs,
     fr_len = length bs\<rparr>"

definition rx_example_attrib :: rx_check_attrib where
  "rx_example_attrib = \<lparr>rx_hdrlen = 0, rx_iv_len = 0, rx_encrypt = NO_PRIVACY, rx_ta = [], rx_ra = [], rx_key_index = 0,
     rx_icv_len = 0, rx_seq_num = 0, rx_frag_num = 0, rx_mfrag = 0, rx_priority = 0, rx_privacy = 0, rx_bdecrypted = 0,
     rx_amsdu = 0, rx_qos = 0, rx_ack_policy = 0, rx_eth_type = 0, rx_dst = [], rx_src = [], rx_bssid = [], to_fr_ds = 0,
     rx_pw_save = False, rx_mdata = False, rx_order = False\<rparr>"

definition rx_example_station :: rx_net where
  "rx_example_station = \<lparr>path = example_path\<lparr>securitypriv := example_sec, stapriv := example_table (replicate 6 4)\<rparr>,
     fw_state = 0x9, cur_bssid = replicate 6 4, myhwaddr = replicate 6 2, sec_privacy = AES, sec_grp_privacy = AES,
     sta_privacy = [AES], rxcache = [replicate 16 0], bIsAnyNonBEPkts = False, uc_swdec_pending_queue = [], rx_pkts = 0, calls = []\<rparr>"

definition rx_example_plain :: bytes where
  "rx_example_plain = [0x08, 0x02, 0, 0] @ replicate 6 2 @ replicate 6 4 @ replicate 6 6 @ [0x10, 0]
     @ [0xaa, 0xaa, 3, 0, 0, 0, 8, 0, 0x45, 0]"

lemma rx_example_accepted:
  "\<exists>n' a'. validate_recv_frame rx_example_station (rx_example_frame rx_example_plain) rx_example_attrib
     = Some (RxSuccess, Some (0, 0), n', a')"
proof -
  have "map_option (\<lambda>(r, c, _). (r, c)) (validate_recv_frame rx_example_station (rx_example_frame rx_example_plain) rx_example_attrib)
     = Some (RxSuccess, Some (0, 0))" by code_simp
  then show ?thesis by auto
qed


theorem station_hears_its_bss_witness:
  "get_hdr_bssid rx_example_plain = Some (cur_bssid rx_example_station)
     \<and> rtw_get_stainfo (stas_of rx_example_station) (cur_bssid rx_example_station) = Some 0"
proof -
  obtain n' a' where v: "validate_recv_frame rx_example_station (rx_example_frame rx_example_plain) rx_example_attrib
     = Some (RxSuccess, Some (0, 0), n', a')" using rx_example_accepted by blast
  have h: "check_fwstate (fw_state rx_example_station) WIFI_STATION_STATE" "check_fwstate (fw_state rx_example_station) FW_LINKED"
    "rx_example_plain = drop (rx_data_off (rx_example_frame rx_example_plain)) (rx_mem (rx_example_frame rx_example_plain))"
    "get_tofr_ds rx_example_plain = 1" "map_option is_multicast_ether_addr (get_da rx_example_plain) = Some False"
    by code_simp+
  show ?thesis using station_hears_its_bss [OF h(1-4) v] h(5) by auto
qed

end
