(* ===== verification/TxPath.thy ===== *)
theory TxPath
  imports RxValid
begin

text \<open>
  The transmission of a data frame (\<^verbatim>\<open>core/rtw_xmit.c\<close>): the attributes of an Ethernet packet
  (\<^verbatim>\<open>update_attrib\<close>), the 802.11 header (\<^verbatim>\<open>rtw_make_wlanhdr\<close>) and the fragments, the Michael code
  and the software encryption (\<^verbatim>\<open>rtw_xmitframe_coalesce\<close>).

  A packet is the byte list of the socket buffer. The transmit buffer is a list of bytes with the address
  it starts at; \<open>None\<close> is an access outside of the buffer, or of a packet that is too short.
\<close>

section \<open>State\<close>

text \<open>\<^verbatim>\<open>struct pkt_attrib\<close> beside the fields of the ciphers.\<close>

record tx_attrib = pkt_attrib +
  pkt_dst :: bytes
  pkt_src :: bytes
  ether_type :: u16
  pkt_subtype :: u16
  pkt_priority :: nat
  pktlen :: nat
  pkt_hdrlen :: nat
  seqnum :: u16
  pkt_iv :: bytes
  pkt_icv :: bytes
  key_idx :: u8
  bswenc :: bool
  dhcp_pkt :: bool
  pkt_qos_en :: bool
  pkt_ht_en :: bool
  pkt_ampdu_en :: bool
  pkt_ack_policy :: u16
  pkt_eosp :: bool
  pkt_mdata :: bool
  pkt_triggered :: bool
  pkt_mac_id :: nat
  pkt_raid :: nat
  pkt_bwmode :: nat
  pkt_ch_offset :: nat
  pkt_sgi :: bool
  pkt_retry_ctrl :: bool
  pkt_pctrl :: bool
  vcs_mode :: nat

text \<open>What transmission needs of a station.\<close>

record tx_sta =
  txpn :: u64
  txseq_tid :: "u16 list"
  txmickey :: bytes
  tx_blocked :: bool
  tx_privacy :: privacy
  tx_qos_option :: bool
  tx_ht_option :: bool
  tx_ampdu_enable :: bool
  tx_agg_bitmap :: u16
  BA_starting_seqctrl :: "u16 list"
  tx_mac_id :: nat
  tx_raid :: nat
  tx_bwmode :: nat
  tx_ch_offset :: nat
  tx_sgi :: bool
  tx_rtsen :: bool
  tx_cts2self :: bool

text \<open>The adapter: \<^verbatim>\<open>mlme_priv\<close>, \<^verbatim>\<open>security_priv\<close>, the stations and the registry settings.\<close>

record tx_net =
  tx_fw_state :: u32
  tx_bssid :: bytes
  tx_sec :: rx_sec
  tx_alg :: privacy
  tx_grp_alg :: privacy
  tx_grp_mickey :: "bytes list"
  sw_encrypt :: bool
  tx_stapriv :: sta_priv
  tx_stas :: "tx_sta list"
  qos_on :: bool
  acm_mask :: u8
  frag_thr :: nat
  tx_wireless_mode :: nat
  wifi_spec :: bool
  rts_thresh :: nat
  ap_atheros :: bool
  tx_cur_bwmode :: nat
  HT_protection :: nat

text \<open>What \<^verbatim>\<open>update_attrib\<close> makes other parts do: no scan for three seconds, and leaving power save.\<close>

datatype tx_event = ScanDeny | LpsSpecialPacket

definition upd_tx_sta :: "nat \<Rightarrow> (tx_sta \<Rightarrow> tx_sta) \<Rightarrow> tx_net \<Rightarrow> tx_net" where
  "upd_tx_sta i g n = n\<lparr>tx_stas := (tx_stas n)[i := g (tx_stas n ! i)]\<rparr>"

section \<open>Attributes\<close>

text \<open>\<^verbatim>\<open>_rtw_pktfile_read\<close>: what is read, and the place behind it.\<close>

definition pktfile_read :: "bytes \<Rightarrow> nat \<Rightarrow> nat \<Rightarrow> bytes \<times> nat" where
  "pktfile_read pkt pos rlen = (let n = min rlen (length pkt - pos) in (buf_get pos n pkt, pos + n))"

definition attrib_addrs :: "tx_net \<Rightarrow> bytes \<Rightarrow> tx_attrib \<Rightarrow> tx_attrib option" where
  "attrib_addrs n pkt a =
     do { h \<leftarrow> rds pkt 0 14;
          let a = a\<lparr>ether_type := get_be16 (h ! 12) (h ! 13), pkt_dst := buf_get 0 6 h, pkt_src := buf_get 6 6 h,
            pkt_pctrl := False\<rparr>;
          let st = tx_fw_state n;
          let a = (if check_fwstate st WIFI_ADHOC_STATE \<or> check_fwstate st WIFI_ADHOC_MASTER_STATE
              then a\<lparr>pkt_ra := pkt_dst a, pkt_ta := pkt_src a\<rparr>
            else if check_fwstate st WIFI_STATION_STATE then a\<lparr>pkt_ra := tx_bssid n, pkt_ta := pkt_src a\<rparr>
            else if check_fwstate st WIFI_AP_STATE then a\<lparr>pkt_ra := pkt_dst a, pkt_ta := tx_bssid n\<rparr>
            else a);
          Some (a\<lparr>pktlen := length pkt - 14\<rparr>) }"

text \<open>A DHCP packet by its ports, in an IP packet that is long enough.\<close>

definition attrib_special :: "bytes \<Rightarrow> tx_attrib \<Rightarrow> tx_event list \<times> tx_attrib" where
  "attrib_special pkt a =
     (let tmp = buf_get 14 24 pkt;
          a = (if ether_type a = 0x0800 then
                 a\<lparr>dhcp_pkt := (length pkt - 38 > 282 \<and> (tmp ! 21 = 68 \<and> tmp ! 23 = 67 \<or> tmp ! 21 = 67 \<and> tmp ! 23 = 68))\<rparr>
               else a)
      in ((if ether_type a = 0x888e \<or> dhcp_pkt a then [ScanDeny] else [])
          @ (if ether_type a = 0x0806 \<or> ether_type a = 0x888e \<or> dhcp_pkt a then [LpsSpecialPacket] else []), a))"

definition attrib_sta :: "tx_net \<Rightarrow> tx_attrib \<Rightarrow> nat option" where
  "attrib_sta n a =
     (if is_multicast_ether_addr (pkt_ra a) then rtw_get_stainfo (tx_stapriv n) bc_addr
      else
        (case rtw_get_stainfo (tx_stapriv n) (pkt_ra a) of None \<Rightarrow> None
         | Some i \<Rightarrow> (if check_fwstate (tx_fw_state n) WIFI_AP_STATE
                        \<and> sta_state (sta_buf (tx_stapriv n) ! i) AND FW_LINKED = 0 then None else Some i)))"

definition set_qos :: "bytes \<Rightarrow> tx_attrib \<Rightarrow> tx_attrib option" where
  "set_qos pkt a =
     do { up \<leftarrow> (if ether_type a = 0x0800 then map_option (\<lambda>tos. unat (drop_bit 5 tos)) (rd pkt 15)
                else Some (if ether_type a = 0x888e then 7 else 0));
          Some (a\<lparr>pkt_priority := up, hdrlen := 26, pkt_subtype := WIFI_QOS_DATA_TYPE\<rparr>) }"

definition qos_acm :: "u8 \<Rightarrow> nat \<Rightarrow> nat" where
  "qos_acm m priority =
     (if priority = 0 \<or> priority = 3 then (if bit m 1 then 1 else priority)
      else if priority = 4 \<or> priority = 5 then (if bit m 2 then 0 else priority)
      else if priority = 6 \<or> priority = 7 then (if bit m 3 then 5 else priority)
      else priority)"

definition attrib_qos :: "tx_net \<Rightarrow> bytes \<Rightarrow> nat \<Rightarrow> tx_attrib \<Rightarrow> tx_attrib option" where
  "attrib_qos n pkt i a =
     (let a = a\<lparr>pkt_ack_policy := 0, pkt_hdrlen := 14, hdrlen := 24, pkt_subtype := WIFI_DATA_TYPE, pkt_priority := 0\<rparr> in
      if check_fwstate (tx_fw_state n) (WIFI_AP_STATE OR WIFI_ADHOC_STATE OR WIFI_ADHOC_MASTER_STATE) then
        (if tx_qos_option (tx_stas n ! i) then set_qos pkt a else Some a)
      else if qos_on n then
        do { a \<leftarrow> set_qos pkt a;
             Some (if acm_mask n \<noteq> 0 then a\<lparr>pkt_priority := qos_acm (acm_mask n) (pkt_priority a)\<rparr> else a) }
      else Some a)"

text \<open>The cipher with its key index, and the lengths of its IV and integrity value.\<close>

definition attrib_cipher :: "tx_net \<Rightarrow> nat \<Rightarrow> tx_attrib \<Rightarrow> tx_attrib" where
  "attrib_cipher n i a =
     (let s = tx_stas n ! i; sec = tx_sec n; auth = dot11AuthAlgrthm sec; bmcast = is_multicast_ether_addr (pkt_ra a) in
      if tx_blocked s then a\<lparr>encrypt := NO_PRIVACY\<rparr>
      else a\<lparr>encrypt := GET_ENCRY_ALGO auth (tx_alg n) (tx_grp_alg n) (tx_privacy s) bmcast (encrypt a),
        key_idx := (if auth = 0 \<or> auth = 1 \<or> auth = 3 then of_nat (dot11PrivacyKeyIndex sec)
          else if auth = 2 \<and> bmcast then of_nat (dot118021XGrpKeyid sec) else 0)\<rparr>)"

definition cipher_lens :: "privacy \<Rightarrow> nat \<times> nat" where
  "cipher_lens e = (if e = WEP40 \<or> e = WEP104 then (4, 4) else if e = TKIP then (8, 4)
     else if e = AES then (8, 8) else (0, 0))"

text \<open>\<open>None\<close> is the refusal of the packet.\<close>

definition attrib_security :: "tx_net \<Rightarrow> nat \<Rightarrow> tx_attrib \<Rightarrow> tx_attrib option" where
  "attrib_security n i a =
     (let e = encrypt (attrib_cipher n i a) in
      if tx_blocked (tx_stas n ! i) \<and> ether_type a \<noteq> 0x888e \<and> \<not> check_fwstate (tx_fw_state n) WIFI_MP_STATE then None
      else if e = TKIP \<and> \<not> busetkipkey (tx_sec n) then None
      else Some ((attrib_cipher n i a)\<lparr>iv_len := fst (cipher_lens e), icv_len := snd (cipher_lens e),
             bswenc := (e \<noteq> NO_PRIVACY \<and> (sw_encrypt n \<or> \<not> hw_decrypted (tx_sec n)))\<rparr>))"

definition update_attrib_phy_info :: "tx_sta \<Rightarrow> tx_attrib \<Rightarrow> tx_attrib" where
  "update_attrib_phy_info s a = a\<lparr>pkt_mdata := False, pkt_eosp := False, pkt_triggered := False, pkt_qos_en := tx_qos_option s,
     pkt_raid := tx_raid s, pkt_ht_en := tx_ht_option s, pkt_bwmode := tx_bwmode s, pkt_ch_offset := tx_ch_offset s,
     pkt_sgi := tx_sgi s, pkt_ampdu_en := False, pkt_retry_ctrl := False\<rparr>"

text \<open>\<^verbatim>\<open>update_attrib\<close>: the events, and the attributes unless the packet is refused.\<close>

definition update_attrib :: "tx_net \<Rightarrow> bytes \<Rightarrow> tx_attrib \<Rightarrow> (tx_event list \<times> tx_attrib option) option" where
  "update_attrib n pkt a =
     do { a \<leftarrow> attrib_addrs n pkt a;
          let (ev, a) = attrib_special pkt a;
          case attrib_sta n a of
            None \<Rightarrow> Some (ev, None)
          | Some i \<Rightarrow>
              do { a \<leftarrow> attrib_qos n pkt i (a\<lparr>pkt_mac_id := tx_mac_id (tx_stas n ! i), psta := Some i\<rparr>);
                   Some (ev, map_option (update_attrib_phy_info (tx_stas n ! i)) (attrib_security n i a)) } }"

section \<open>The 802.11 header\<close>

definition or16 :: "nat \<Rightarrow> u16 \<Rightarrow> bytes \<Rightarrow> bytes" where
  "or16 i v h = buf_put i (put_le16 (get_le16 (h ! i) (h ! (i + 1)) OR v)) h"

definition SetSeqNum :: "u16 \<Rightarrow> bytes \<Rightarrow> bytes" where
  "SetSeqNum num h = buf_put 22 (put_le16 (get_le16 (h ! 22) (h ! 23) AND 0xf OR (0xfff0 AND push_bit 4 num))) h"

text \<open>The station of a frame.\<close>

definition tx_station :: "tx_net \<Rightarrow> tx_attrib \<Rightarrow> nat option" where
  "tx_station n a =
     (case psta a of Some i \<Rightarrow> Some i | None \<Rightarrow> rtw_get_stainfo (tx_stapriv n)
        (if is_multicast_ether_addr (pkt_ra a) then bc_addr else pkt_ra a))"

definition tx_linked :: "tx_net \<Rightarrow> nat \<Rightarrow> bool" where
  "tx_linked n i \<longleftrightarrow> sta_state (sta_buf (tx_stapriv n) ! i) AND FW_LINKED \<noteq> 0"

text \<open>Direction and addresses, with the QoS option; \<open>None\<close> for a state in which nothing is sent.\<close>

definition wlan_addrs :: "tx_net \<Rightarrow> nat \<Rightarrow> tx_attrib \<Rightarrow> bytes \<Rightarrow> (bytes \<times> bool) option" where
  "wlan_addrs n i a h =
     (let st = tx_fw_state n; addrs = (\<lambda>x y z h. buf_put 16 z (buf_put 10 y (buf_put 4 x h))) in
      if check_fwstate st WIFI_STATION_STATE
      then Some (addrs (tx_bssid n) (pkt_src a) (pkt_dst a) (or16 0 0x0100 h), qos_on n)
      else if check_fwstate st WIFI_AP_STATE
      then Some (addrs (pkt_dst a) (tx_bssid n) (pkt_src a) (or16 0 0x0200 h), tx_qos_option (tx_stas n ! i))
      else if check_fwstate st WIFI_ADHOC_STATE \<or> check_fwstate st WIFI_ADHOC_MASTER_STATE
      then Some (addrs (pkt_dst a) (pkt_src a) (tx_bssid n) h, tx_qos_option (tx_stas n ! i))
      else None)"

text \<open>Whether the frame may go into an aggregate, from the sequence number the block ack session starts at.\<close>

definition tx_ampdu :: "tx_sta \<Rightarrow> tx_attrib \<Rightarrow> tx_sta \<times> tx_attrib" where
  "tx_ampdu s a =
     (let p = pkt_priority a mod 16;
          a = (if pkt_ht_en a \<and> tx_ampdu_enable s \<and> bit (tx_agg_bitmap s) (pkt_priority a) then a\<lparr>pkt_ampdu_en := True\<rparr> else a);
          tx_seq = BA_starting_seqctrl s ! p in
      if \<not> pkt_ampdu_en a then (s, a)
      else if SN_LESS (seqnum a) tx_seq then (s, a\<lparr>pkt_ampdu_en := False\<rparr>)
      else if seqnum a = tx_seq
      then (s\<lparr>BA_starting_seqctrl := (BA_starting_seqctrl s)[p := (tx_seq + 1) AND 0xfff]\<rparr>, a)
      else (s\<lparr>BA_starting_seqctrl := (BA_starting_seqctrl s)[p := (seqnum a + 1) AND 0xfff]\<rparr>, a))"

definition tx_sequence :: "nat \<Rightarrow> tx_net \<Rightarrow> tx_attrib \<Rightarrow> tx_net \<times> tx_attrib" where
  "tx_sequence i n a =
     (let s = tx_stas n ! i; sq = (txseq_tid s ! pkt_priority a + 1) AND 0xfff;
          s = s\<lparr>txseq_tid := (txseq_tid s)[pkt_priority a := sq]\<rparr>;
          (s, a) = tx_ampdu s (a\<lparr>seqnum := sq\<rparr>)
      in (upd_tx_sta i (\<lambda>_. s) n, a))"

text \<open>\<^verbatim>\<open>rtw_make_wlanhdr\<close>: the 64 bytes it writes, or \<open>None\<close> for \<^verbatim>\<open>_FAIL\<close>.\<close>

definition rtw_make_wlanhdr :: "tx_net \<Rightarrow> tx_attrib \<Rightarrow> (tx_net \<times> tx_attrib \<times> bytes) option" where
  "rtw_make_wlanhdr n a =
     (case tx_station n a of None \<Rightarrow> None
      | Some i \<Rightarrow>
          (if \<not> tx_linked n i then None
           else
             (let h = or16 0 (pkt_subtype a) (replicate 64 0) in
              if pkt_subtype a AND WIFI_DATA_TYPE = 0 then Some (n, a, h)
              else
                do { (h, qos) \<leftarrow> wlan_addrs n i a h;
                     let h = (if pkt_mdata a then or16 0 0x2000 h else h);
                     let h = (if encrypt a \<noteq> NO_PRIVACY then or16 0 0x4000 h else h);
                     let h = (if qos then or16 (hdrlen a - 2)
                        ((if pkt_priority a \<noteq> 0 then of_nat (pkt_priority a) AND 0xf else 0) OR (if pkt_eosp a then 0x10 else 0)
                          OR push_bit 5 (pkt_ack_policy a AND 3)) h else h);
                     let (n, a) = tx_sequence i n a;
                     Some (n, a, SetSeqNum (seqnum a) h) })))"

section \<open>Fragments\<close>

text \<open>\<^verbatim>\<open>rtw_put_snap\<close>.\<close>

definition rtw_put_snap :: "u16 \<Rightarrow> bytes" where
  "rtw_put_snap h_proto =
     (if h_proto = 0x8137 \<or> h_proto = 0x80f3 then rtw_bridge_tunnel_header else rtw_rfc1042_header) @ be16 h_proto"

text \<open>The initialization vectors.\<close>

definition WEP_IV :: "u64 \<Rightarrow> u8 \<Rightarrow> bytes \<times> u64" where
  "WEP_IV pn keyidx =
     ([TSC pn 0, TSC pn 1, TSC pn 2, push_bit 6 (keyidx AND 3)], if pn = 0xffffff then 0 else pn + 1)"

definition AES_IV :: "u64 \<Rightarrow> u8 \<Rightarrow> bytes \<times> u64" where
  "AES_IV pn keyidx =
     ([TSC pn 0, TSC pn 1, 0, 0x20 OR push_bit 6 (keyidx AND 3), TSC pn 2, TSC pn 3, TSC pn 4, TSC pn 5],
      if pn = 0xffffffffffff then 0 else pn + 1)"

definition tx_iv :: "bool \<Rightarrow> tx_attrib \<Rightarrow> u64 \<Rightarrow> tx_attrib \<times> u64" where
  "tx_iv bmcst a pn =
     (let k = (if bmcst then key_idx a else 0); old = pkt_iv a in
      if encrypt a = WEP40 \<or> encrypt a = WEP104 then
        (let (iv, pn) = WEP_IV pn (key_idx a) in (a\<lparr>pkt_iv := iv @ drop 4 old\<rparr>, pn))
      else if encrypt a = TKIP then (let (iv, pn) = TKIP_IV pn k in (a\<lparr>pkt_iv := iv @ drop 8 old\<rparr>, pn))
      else if encrypt a = AES then (let (iv, pn) = AES_IV pn k in (a\<lparr>pkt_iv := iv @ drop 8 old\<rparr>, pn))
      else (a, pn))"

text \<open>The first 16 bits of a header in the buffer: the bit \<^verbatim>\<open>_MORE_FRAG_\<close> is set, and cleared in the last fragment.\<close>

definition set_mfrag :: "nat \<Rightarrow> bool \<Rightarrow> bytes \<Rightarrow> bytes option" where
  "set_mfrag p mf b =
     do { h \<leftarrow> rds b p 2;
          let fc = get_le16 (h ! 0) (h ! 1);
          put p (put_le16 (if mf then fc OR 0x0400 else fc AND NOT 0x0400)) b }"

text \<open>One turn of the loop, up to the integrity value: the header is at \<open>mem_start\<close>, and \<open>pos\<close> is the place in the packet.
  A negative length becomes a huge unsigned one, so the rest of the packet is read. The result holds the
  bytes read, the place behind them and the end of the fragment.\<close>

record tx_turn =
  turn_attrib :: tx_attrib
  turn_pn :: u64
  turn_buf :: bytes
  turn_llc :: nat
  turn_mem_sz :: nat
  turn_pos :: nat
  turn_end :: nat

definition icv_space :: "tx_attrib \<Rightarrow> nat" where
  "icv_space a = (if icv_len a > 0 \<and> bswenc a then icv_len a else 0)"

definition mpdu_room :: "nat \<Rightarrow> tx_attrib \<Rightarrow> nat \<Rightarrow> int" where
  "mpdu_room frag_len a llc = int frag_len - 4 - int (hdrlen a) - int (iv_len a) - int llc - int (icv_space a)"

definition frag_turn ::
    "nat \<Rightarrow> bool \<Rightarrow> bytes \<Rightarrow> nat \<Rightarrow> nat \<Rightarrow> nat \<Rightarrow> tx_attrib \<Rightarrow> u64 \<Rightarrow> bytes \<Rightarrow> tx_turn option" where
  "frag_turn frag_len bmcst pkt frg_inx mem_start pos a pn b =
     do { b \<leftarrow> set_mfrag mem_start True b;
          let pframe = mem_start + hdrlen a;
          let (a, pn) = (if iv_len a \<noteq> 0 then tx_iv bmcst a pn else (a, pn));
          b \<leftarrow> put pframe (take (iv_len a) (pkt_iv a)) b;
          let pframe = pframe + iv_len a;
          let snap = (if frg_inx = 0 then rtw_put_snap (ether_type a) else []);
          b \<leftarrow> put pframe snap b;
          let pframe = pframe + length snap;
          let room = mpdu_room frag_len a (length snap);
          let (d, pos) = pktfile_read pkt pos
            (if bmcst then pktlen a else if room < 0 then length pkt else nat room);
          b \<leftarrow> put pframe d b;
          let pframe = pframe + length d;
          b \<leftarrow> put pframe (take (icv_space a) (pkt_icv a)) b;
          Some \<lparr>turn_attrib = a, turn_pn = pn, turn_buf = b, turn_llc = length snap, turn_mem_sz = length d,
            turn_pos = pos, turn_end = pframe + icv_space a\<rparr> }"

lemma set_mfrag_length: "set_mfrag p mf b = Some b' \<Longrightarrow> length b' = length b \<and> p + 2 \<le> length b"
  by (auto simp: set_mfrag_def Let_def put_def rds_Some len_simps bind_eq_Some_conv put_le16_def split: if_splits)

lemma put_length: "put i bs b = Some b' \<Longrightarrow> length b' = length b"
  by (auto simp: put_def len_simps split: if_splits)

lemma frag_turn_length:
  assumes "frag_turn frag_len bmcst pkt frg_inx mem_start pos a pn b = Some t"
  shows "length (turn_buf t) = length b \<and> mem_start + 2 \<le> length b \<and> mem_start \<le> turn_end t"
  using assms
  by (auto simp: frag_turn_def Let_def bind_eq_Some_conv split_beta dest!: put_length set_mfrag_length)

function frag_turns ::
    "nat \<Rightarrow> nat \<Rightarrow> bool \<Rightarrow> bytes \<Rightarrow> nat \<Rightarrow> nat \<Rightarrow> nat \<Rightarrow> tx_attrib \<Rightarrow> u64 \<Rightarrow> bytes \<Rightarrow> (tx_attrib \<times> u64 \<times> bytes) option" where
  "frag_turns frag_len base bmcst pkt frg_inx mem_start pos a pn b =
     (case frag_turn frag_len bmcst pkt frg_inx mem_start pos a pn b of None \<Rightarrow> None
      | Some t \<Rightarrow>
          (let a = turn_attrib t in
           if bmcst \<or> turn_pos t = length pkt then
             (case set_mfrag mem_start False (turn_buf t) of None \<Rightarrow> None
              | Some b \<Rightarrow>
                 Some (a\<lparr>nr_frags := frg_inx + 1,
                   last_txcmdsz := hdrlen a + iv_len a + (if frg_inx = 0 then turn_llc t else 0)
                     + (if bswenc a then icv_len a else 0) + turn_mem_sz t\<rparr>, turn_pn t, b))
           else
             (let next_start = RND4 (base + turn_end t) - base + TXDESC_OFFSET in
              case rds (turn_buf t) TXDESC_OFFSET (hdrlen a) of None \<Rightarrow> None
              | Some h \<Rightarrow>
                  (case put next_start h (turn_buf t) of None \<Rightarrow> None
                   | Some b \<Rightarrow> frag_turns frag_len base bmcst pkt (frg_inx + 1) next_start (turn_pos t) a (turn_pn t) b))))"
  by pat_completeness auto
termination
proof (relation "measure (\<lambda>(frag_len, base, bmcst, pkt, frg_inx, mem_start, pos, a, pn, b). length b - mem_start)", goal_cases)
  case 1
  then show ?case by simp
next
  case (2 frag_len base bmcst pkt frg_inx mem_start pos a pn b t x xa h y)
  have "length y = length b" "mem_start + 2 \<le> length b" "mem_start \<le> turn_end t"
    using frag_turn_length [OF 2(1)] put_length [OF 2(6)] by auto
  moreover have "turn_end t \<le> RND4 (base + turn_end t) - base" using RND4_bounds(1) [of "base + turn_end t"] by simp
  ultimately show ?case using 2(4) by (simp add: TXDESC_OFFSET_def)
qed

declare frag_turns.simps [simp del]


section \<open>The Michael code\<close>

text \<open>The fragments as \<^verbatim>\<open>xmitframe_addmic\<close> finds them: every address is rounded up to a multiple of
  four, and the payload of each but the last ends where \<^verbatim>\<open>frag_len\<close> says. \<open>None\<close> is a
  negative length or a read behind the buffer. The result also holds the place behind the payload.\<close>

fun addmic_frags ::
    "nat \<Rightarrow> nat \<Rightarrow> tx_attrib \<Rightarrow> bytes \<Rightarrow> nat \<Rightarrow> nat \<Rightarrow> mic_data \<Rightarrow> (mic_data \<times> nat) option" where
  "addmic_frags frag_len base a b payload 0 s = Some (s, payload)"
| "addmic_frags frag_len base a b payload (Suc left) s =
     (let payload = RND4 (base + payload) - base + hdrlen a + iv_len a;
          sz = (if left = 0 then last_txcmdsz a else frag_len);
          rest = hdrlen a + iv_len a + (if bswenc a then icv_len a else 0) in
      if sz < rest then None
      else
        do { d \<leftarrow> rds b payload (sz - rest);
             addmic_frags frag_len base a b (payload + (sz - rest) + (if left = 0 then 0 else icv_len a)) left
               (rtw_secmicappend s d) })"

text \<open>\<^verbatim>\<open>xmitframe_addmic\<close>; the inner \<open>None\<close> is \<^verbatim>\<open>_FAIL\<close>.\<close>

definition xmitframe_addmic :: "tx_net \<Rightarrow> nat \<Rightarrow> tx_attrib \<Rightarrow> bytes \<Rightarrow> (tx_attrib \<times> bytes) option option" where
  "xmitframe_addmic n base a b =
     (case (case psta a of Some i \<Rightarrow> Some i | None \<Rightarrow> rtw_get_stainfo (tx_stapriv n) (pkt_ra a)) of None \<Rightarrow> Some None
      | Some i \<Rightarrow>
          (if \<not> tx_linked n i then Some None
           else if encrypt a \<noteq> TKIP then Some (Some (a, b))
           else
             (let key = (if is_multicast_ether_addr (pkt_ra a) then tx_grp_mickey n ! dot118021XGrpKeyid (tx_sec n)
                         else txmickey (tx_stas n ! i)) in
              if key = replicate 16 0 then Some None
              else
                do { h \<leftarrow> rds b TXDESC_OFFSET 30;
                     let s = rtw_secmicsetkey mic_data0 key;
                     let s = rtw_secmicappend s (frame_DA h);
                     let s = rtw_secmicappend s (frame_SA h);
                     let s = rtw_secmicappend s [if pkt_qos_en a then of_nat (pkt_priority a) else 0, 0, 0, 0];
                     (s, payload) \<leftarrow> addmic_frags (frag_thr n) base a b TXDESC_OFFSET (nr_frags a) s;
                     b \<leftarrow> put payload (fst (rtw_secgetmic s)) b;
                     Some (Some (a\<lparr>last_txcmdsz := last_txcmdsz a + 8\<rparr>, b)) })))"

section \<open>Encryption and protection\<close>

definition tx_frame :: "nat \<Rightarrow> tx_attrib \<Rightarrow> bytes \<Rightarrow> xmit_frame" where
  "tx_frame base a b = \<lparr>attrib = pkt_attrib.truncate a, buf_addr = Some b, buf_base = base\<rparr>"

text \<open>\<^verbatim>\<open>xmitframe_swencrypt\<close> takes no notice of what the ciphers return.\<close>

definition xmitframe_swencrypt :: "tx_net \<Rightarrow> nat \<Rightarrow> tx_attrib \<Rightarrow> bytes \<Rightarrow> bytes option" where
  "xmitframe_swencrypt n base a b =
     (let f = tx_frame base a b; sec = security_priv.truncate (tx_sec n); frame = (\<lambda>f. the (buf_addr f)) in
      if \<not> bswenc a then Some b
      else if encrypt a = WEP40 \<or> encrypt a = WEP104 then map_option frame (rtw_wep_encrypt sec (frag_thr n) f)
      else if encrypt a = TKIP then map_option (frame \<circ> snd) (rtw_tkip_encrypt sec (tx_stapriv n) (frag_thr n) f)
      else if encrypt a = AES then map_option (frame \<circ> snd) (rtw_aes_encrypt sec (tx_stapriv n) (frag_thr n) f)
      else Some b)"

text \<open>\<^verbatim>\<open>update_attrib_vcs_info\<close> with \<^verbatim>\<open>NONE_VCS\<close> 0, \<^verbatim>\<open>RTS_CTS\<close> 1 and \<^verbatim>\<open>CTS_TO_SELF\<close> 2.\<close>

definition vcs_of_sta :: "tx_sta \<Rightarrow> nat" where
  "vcs_of_sta s = (if tx_rtsen s then 1 else if tx_cts2self s then 2 else 0)"

definition update_attrib_vcs_info :: "tx_net \<Rightarrow> tx_attrib \<Rightarrow> tx_attrib" where
  "update_attrib_vcs_info n a =
     (case (case psta a of Some i \<Rightarrow> Some i | None \<Rightarrow> rtw_get_stainfo (tx_stapriv n) (pkt_ra a)) of None \<Rightarrow> a
      | Some i \<Rightarrow>
          (if \<not> tx_linked n i then a
           else
             (let s = tx_stas n ! i; sz = (if nr_frags a \<noteq> 1 then frag_thr n else last_txcmdsz a) in
              a\<lparr>vcs_mode :=
                (if tx_wireless_mode n < 8 \<or> wifi_spec n then (if sz > rts_thresh n then 1 else vcs_of_sta s)
                 else if ap_atheros n \<and> pkt_ampdu_en a \<and> tx_alg n = AES then 2
                 else if tx_rtsen s \<or> tx_cts2self s then vcs_of_sta s
                 else if pkt_ht_en a \<and> (tx_cur_bwmode n \<noteq> 0 \<and> (HT_protection n = 2 \<or> HT_protection n = 3)
                   \<or> tx_cur_bwmode n = 0 \<and> HT_protection n = 3) then 1
                 else if sz > rts_thresh n then 1
                 else if pkt_ampdu_en a then 1 else 0)\<rparr>)))"

section \<open>Coalescing\<close>

text \<open>\<^verbatim>\<open>rtw_xmitframe_coalesce\<close> for the buffer \<open>b\<close> at address \<open>base\<close>. The inner
  \<open>None\<close> is \<^verbatim>\<open>_FAIL\<close>.\<close>

definition rtw_xmitframe_coalesce ::
    "tx_net \<Rightarrow> bytes \<Rightarrow> nat \<Rightarrow> tx_attrib \<Rightarrow> bytes \<Rightarrow> (tx_net \<times> (tx_attrib \<times> bytes) option) option" where
  "rtw_xmitframe_coalesce n pkt base a b =
     (let bmcst = is_multicast_ether_addr (pkt_ra a) in
      case (case psta a of Some i \<Rightarrow> Some i | None \<Rightarrow> rtw_get_stainfo (tx_stapriv n) (pkt_ra a)) of None \<Rightarrow> Some (n, None)
      | Some i \<Rightarrow>
          (if \<not> tx_linked n i then Some (n, None)
           else
             (case rtw_make_wlanhdr n a of None \<Rightarrow> Some (n, None)
              | Some (n, a, h) \<Rightarrow>
                  do { b \<leftarrow> put TXDESC_OFFSET h b;
                       (a, pn, b) \<leftarrow> frag_turns (frag_thr n) base bmcst pkt 0 TXDESC_OFFSET (min (pkt_hdrlen a) (length pkt))
                         a (txpn (tx_stas n ! i)) b;
                       let n = upd_tx_sta i (txpn_update (\<lambda>_. pn)) n;
                       r \<leftarrow> xmitframe_addmic n base a b;
                       case r of None \<Rightarrow> Some (n, None)
                       | Some (a, b) \<Rightarrow>
                           do { b \<leftarrow> xmitframe_swencrypt n base a b;
                                Some (n, Some (if bmcst then a\<lparr>vcs_mode := 0\<rparr> else update_attrib_vcs_info n a, b)) } })))"

text \<open>\<^verbatim>\<open>rtw_calculate_wlan_pkt_size_by_attribue\<close>.\<close>

definition rtw_calculate_wlan_pkt_size_by_attribue :: "tx_attrib \<Rightarrow> nat" where
  "rtw_calculate_wlan_pkt_size_by_attribue a =
     hdrlen a + iv_len a + 8 + pktlen a + (if encrypt a = TKIP then 8 else 0) + (if bswenc a then icv_len a else 0)"

end
