(* ===== verification/TxStation.thy ===== *)
theory TxStation
  imports TxPath
begin

text \<open>
  What \<open>TxPath\<close> makes of a packet that a station sends in one fragment: the attributes, the bytes of the
  frame before the software seals it, and the sealing.
\<close>

section \<open>The attributes of a packet of a station\<close>

text \<open>A station, no access point and no member of an ad-hoc network.\<close>

definition is_station :: "u32 \<Rightarrow> bool" where
  "is_station st \<longleftrightarrow> check_fwstate st WIFI_STATION_STATE \<and> \<not> check_fwstate st WIFI_ADHOC_STATE
     \<and> \<not> check_fwstate st WIFI_ADHOC_MASTER_STATE \<and> \<not> check_fwstate st WIFI_AP_STATE"

lemma station_states:
  assumes "is_station st"
  shows "check_fwstate st WIFI_STATION_STATE" "\<not> check_fwstate st WIFI_ADHOC_STATE"
    "\<not> check_fwstate st WIFI_ADHOC_MASTER_STATE" "\<not> check_fwstate st WIFI_AP_STATE"
    "\<not> check_fwstate st (WIFI_AP_STATE OR WIFI_ADHOC_STATE OR WIFI_ADHOC_MASTER_STATE)"
proof -
  show b: "check_fwstate st WIFI_STATION_STATE" "\<not> check_fwstate st WIFI_ADHOC_STATE"
    "\<not> check_fwstate st WIFI_ADHOC_MASTER_STATE" "\<not> check_fwstate st WIFI_AP_STATE"
    using assms by (simp_all add: is_station_def)
  show "\<not> check_fwstate st (WIFI_AP_STATE OR WIFI_ADHOC_STATE OR WIFI_ADHOC_MASTER_STATE)"
    using b(2-4) by (simp add: check_fwstate_def bit.conj_disj_distrib)
qed

lemma qos_acm_bound: "p < 8 \<Longrightarrow> qos_acm m p < 8"
  by (simp add: qos_acm_def)

text \<open>An Ethernet packet.\<close>

definition eth_packet :: "bytes \<Rightarrow> bytes \<Rightarrow> u16 \<Rightarrow> bytes \<Rightarrow> bytes" where
  "eth_packet dst src ty data = dst @ src @ be16 ty @ data"

lemma attrib_addrs_station:
  assumes "is_station (tx_fw_state n)" "length dst = 6" "length src = 6"
  shows "attrib_addrs n (eth_packet dst src ty data) a =
    Some (a\<lparr>ether_type := ty, pkt_dst := dst, pkt_src := src, pkt_pctrl := False, pkt_ra := tx_bssid n, pkt_ta := src,
      pktlen := length data\<rparr>)"
proof -
  have h: "buf_get 0 14 (eth_packet dst src ty data) = dst @ src @ be16 ty"
    using assms(2,3) by (simp add: eth_packet_def buf_get_def be16_def)
  have t: "get_be16 ((dst @ src @ be16 ty) ! 12) ((dst @ src @ be16 ty) ! 13) = ty"
    using assms(2,3) get_be16_be16 [of ty] by (simp add: nth_append be16_def)
  have l: "length (eth_packet dst src ty data) = 14 + length data"
    using assms(2,3) by (simp add: eth_packet_def be16_def)
  show ?thesis
    using assms station_states [OF assms(1)]
    by (simp add: attrib_addrs_def rds_def h t l Let_def) (simp add: buf_get_def)
qed

text \<open>What the attributes of a packet of a station are, unless it is refused.\<close>

definition station_attrib :: "tx_net \<Rightarrow> nat \<Rightarrow> bytes \<Rightarrow> bytes \<Rightarrow> u16 \<Rightarrow> nat \<Rightarrow> tx_attrib \<Rightarrow> bool" where
  "station_attrib n i dst src ty len a \<longleftrightarrow>
     psta a = Some i \<and> pkt_ra a = tx_bssid n \<and> pkt_ta a = src \<and> pkt_dst a = dst \<and> pkt_src a = src
     \<and> ether_type a = ty \<and> pktlen a = len \<and> pkt_hdrlen a = 14
     \<and> hdrlen a = (if qos_on n then 26 else 24) \<and> pkt_subtype a = (if qos_on n then WIFI_QOS_DATA_TYPE else WIFI_DATA_TYPE)
     \<and> pkt_priority a < 8 \<and> (qos_on n \<or> pkt_priority a = 0) \<and> pkt_ack_policy a = 0
     \<and> \<not> pkt_mdata a \<and> \<not> pkt_eosp a \<and> \<not> pkt_ampdu_en a \<and> pkt_qos_en a = tx_qos_option (tx_stas n ! i)
     \<and> (iv_len a, icv_len a) = cipher_lens (encrypt a)
     \<and> (bswenc a \<longleftrightarrow> encrypt a \<noteq> NO_PRIVACY \<and> (sw_encrypt n \<or> \<not> hw_decrypted (tx_sec n)))
     \<and> (let auth = dot11AuthAlgrthm (tx_sec n) in \<not> tx_blocked (tx_stas n ! i) \<and> (auth = 0 \<or> auth = 1 \<or> auth = 3) \<longrightarrow>
         encrypt a = tx_alg n \<and> key_idx a = of_nat (dot11PrivacyKeyIndex (tx_sec n)))"

lemma attrib_security_spec:
  assumes "attrib_security n i a = Some a'" "\<not> is_multicast_ether_addr (pkt_ra a)"
  shows "\<exists>e k iv icv sw. a' = a\<lparr>encrypt := e, key_idx := k, iv_len := iv, icv_len := icv, bswenc := sw\<rparr>
     \<and> (iv, icv) = cipher_lens e \<and> (sw \<longleftrightarrow> e \<noteq> NO_PRIVACY \<and> (sw_encrypt n \<or> \<not> hw_decrypted (tx_sec n)))
     \<and> (let auth = dot11AuthAlgrthm (tx_sec n) in \<not> tx_blocked (tx_stas n ! i) \<and> (auth = 0 \<or> auth = 1 \<or> auth = 3) \<longrightarrow>
         e = tx_alg n \<and> k = of_nat (dot11PrivacyKeyIndex (tx_sec n)))"
proof -
  define auth where "auth = dot11AuthAlgrthm (tx_sec n)"
  define e where "e = (if tx_blocked (tx_stas n ! i) then NO_PRIVACY else GET_ENCRY_ALGO auth
      (tx_alg n) (tx_grp_alg n) (tx_privacy (tx_stas n ! i)) False (encrypt a))"
  define k where "k = (if tx_blocked (tx_stas n ! i) then key_idx a
      else if auth = 0 \<or> auth = 1 \<or> auth = 3 then of_nat (dot11PrivacyKeyIndex (tx_sec n)) else 0)"
  have c: "attrib_cipher n i a = a\<lparr>encrypt := e, key_idx := k\<rparr>"
    using assms(2) by (simp add: attrib_cipher_def Let_def e_def k_def auth_def)
  have ek: "\<not> tx_blocked (tx_stas n ! i) \<and> (auth = 0 \<or> auth = 1 \<or> auth = 3) \<longrightarrow>
      e = tx_alg n \<and> k = of_nat (dot11PrivacyKeyIndex (tx_sec n))"
    by (auto simp: e_def k_def GET_ENCRY_ALGO_def)
  from c have enc: "encrypt (attrib_cipher n i a) = e" by simp
  have "a' = (attrib_cipher n i a)\<lparr>iv_len := fst (cipher_lens e), icv_len := snd (cipher_lens e),
             bswenc := (e \<noteq> NO_PRIVACY \<and> (sw_encrypt n \<or> \<not> hw_decrypted (tx_sec n)))\<rparr>"
    using assms(1) unfolding attrib_security_def enc Let_def by (simp only: option.inject option.distinct False_implies_equals simp_thms split: if_splits)
  then show ?thesis unfolding c Let_def auth_def [symmetric] using ek
    by (intro exI [of _ e] exI [of _ k] exI [of _ "fst (cipher_lens e)"] exI [of _ "snd (cipher_lens e)"] exI) simp
qed

lemma attrib_qos_station:
  assumes "is_station (tx_fw_state n)" "attrib_qos n pkt i a = Some a'"
  shows "\<exists>p. a' = a\<lparr>pkt_ack_policy := 0, pkt_hdrlen := 14, hdrlen := (if qos_on n then 26 else 24),
      pkt_subtype := (if qos_on n then WIFI_QOS_DATA_TYPE else WIFI_DATA_TYPE), pkt_priority := p\<rparr>
      \<and> p < 8 \<and> (qos_on n \<or> p = 0)"
proof -
  have up: "unat (drop_bit 5 (b :: u8)) < 8" for b
    using unsigned_less [of b, where 'a = nat] by (simp add: unat_drop_bit_eq drop_bit_eq_div [where 'a = nat])
  show ?thesis
  proof (cases "qos_on n")
    case False
    with assms station_states(5) [OF assms(1)] show ?thesis by (auto simp: attrib_qos_def Let_def)
  next
    case True
    define a1 where "a1 = a\<lparr>pkt_ack_policy := 0, pkt_hdrlen := 14, hdrlen := 24, pkt_subtype := WIFI_DATA_TYPE, pkt_priority := 0\<rparr>"
    obtain a2 where q: "set_qos pkt a1 = Some a2" and
      a': "a' = (if acm_mask n \<noteq> 0 then a2\<lparr>pkt_priority := qos_acm (acm_mask n) (pkt_priority a2)\<rparr> else a2)"
      using assms True station_states(5) [OF assms(1)]
      by (auto simp: attrib_qos_def Let_def a1_def[symmetric] bind_eq_Some_conv)
    obtain up where "a2 = a1\<lparr>pkt_priority := up, hdrlen := 26, pkt_subtype := WIFI_QOS_DATA_TYPE\<rparr>" "up < 8"
      using q by (auto simp: set_qos_def bind_eq_Some_conv up split: if_splits)
    then have "a' = a\<lparr>pkt_ack_policy := 0, pkt_hdrlen := 14, hdrlen := 26, pkt_subtype := WIFI_QOS_DATA_TYPE,
        pkt_priority := (if acm_mask n \<noteq> 0 then qos_acm (acm_mask n) up else up)\<rparr>"
      using a' by (simp add: a1_def)
    with True \<open>up < 8\<close> qos_acm_bound [of up "acm_mask n"] show ?thesis
      by (intro exI [of _ "if acm_mask n \<noteq> 0 then qos_acm (acm_mask n) up else up"]) simp
  qed
qed

lemma update_attrib_station:
  assumes st: "is_station (tx_fw_state n)" and len: "length dst = 6" "length src = 6"
    and bss: "\<not> is_multicast_ether_addr (tx_bssid n)" "rtw_get_stainfo (tx_stapriv n) (tx_bssid n) = Some i"
    and u: "update_attrib n (eth_packet dst src ty data) a0 = Some (ev, Some a)"
  shows "station_attrib n i dst src ty (length data) a"
proof -
  define pkt where "pkt = eth_packet dst src ty data"
  define a1 where "a1 = a0\<lparr>ether_type := ty, pkt_dst := dst, pkt_src := src, pkt_pctrl := False, pkt_ra := tx_bssid n,
    pkt_ta := src, pktlen := length data\<rparr>"
  obtain d where a2: "snd (attrib_special pkt a1) = a1\<lparr>dhcp_pkt := d\<rparr>"
    by (cases "ether_type a1 = 0x0800")
       (auto simp: attrib_special_def Let_def intro!: that [of "dhcp_pkt a1"])
  have sta: "attrib_sta n (a1\<lparr>dhcp_pkt := d\<rparr>) = Some i"
    using bss station_states(4) [OF st] by (simp add: attrib_sta_def a1_def)
  define a3 where "a3 = a1\<lparr>dhcp_pkt := d, pkt_mac_id := tx_mac_id (tx_stas n ! i), psta := Some i\<rparr>"
  obtain a4 a5 where q: "attrib_qos n pkt i a3 = Some a4" and s: "attrib_security n i a4 = Some a5"
    and a: "a = update_attrib_phy_info (tx_stas n ! i) a5"
    using u attrib_addrs_station [OF st len, of ty data a0] a2 sta
    unfolding update_attrib_def pkt_def[symmetric] a1_def[symmetric]
    by (auto simp: split_beta Let_def bind_eq_Some_conv a3_def split: option.splits)
  from attrib_qos_station [OF st q] obtain p where a4: "a4 = a3\<lparr>pkt_ack_policy := 0, pkt_hdrlen := 14, hdrlen := (if qos_on n then 26 else 24),
      pkt_subtype := (if qos_on n then WIFI_QOS_DATA_TYPE else WIFI_DATA_TYPE), pkt_priority := p\<rparr>" "p < 8" "qos_on n \<or> p = 0" by blast
  have ra: "\<not> is_multicast_ether_addr (pkt_ra a4)" using bss by (simp add: a4(1) a3_def a1_def)
  show ?thesis
    using attrib_security_spec [OF s ra] a4(2,3)
    by (elim exE conjE) (simp add: station_attrib_def a update_attrib_phy_info_def a4(1) a3_def a1_def)
qed

section \<open>The header of a station's frame\<close>

definition station_hdr :: "bool \<Rightarrow> bool \<Rightarrow> nat \<Rightarrow> u16 \<Rightarrow> bytes \<Rightarrow> bytes \<Rightarrow> bytes \<Rightarrow> bytes" where
  "station_hdr qos enc prio sq bssid src dst =
     [if qos then 0x88 else 0x08, if enc then 0x41 else 0x01, 0, 0] @ bssid @ src @ dst
     @ put_le16 (0xfff0 AND push_bit 4 sq) @ (if qos then [of_nat prio, 0] else [])"

lemma length_station_hdr [len_simps]:
  "length bssid = 6 \<Longrightarrow> length src = 6 \<Longrightarrow> length dst = 6 \<Longrightarrow>
   length (station_hdr qos enc prio sq bssid src dst) = (if qos then 26 else 24)"
  by (simp add: station_hdr_def put_le16_def)

lemma take_buf_put_inside:
  "off + length bs \<le> m \<Longrightarrow> m \<le> length b \<Longrightarrow> take m (buf_put off bs b) = buf_put off bs (take m b)"
  by (cases "m = off") (simp_all add: buf_put_def drop_take)

lemma list6: "length xs = 6 \<Longrightarrow> \<exists>a b c d e f. xs = [a, b, c, d, e, f]"
  by (auto simp: eval_nat_numeral length_Suc_conv)

lemma nat_below8: "p < 8 \<Longrightarrow> (p :: nat) = 0 \<or> p = 1 \<or> p = 2 \<or> p = 3 \<or> p = 4 \<or> p = 5 \<or> p = 6 \<or> p = 7"
  by linarith

lemma small_prio: "p < 8 \<Longrightarrow> put_le16 (of_nat p AND 0xf) = [of_nat p, 0]"
  by (drule nat_below8) (elim disjE; simp add: put_le16_def)

lemma length_or16 [len_simps]: "i + 2 \<le> length h \<Longrightarrow> length (or16 i v h) = length h"
  by (simp add: or16_def len_simps put_le16_def)

lemma take_or16: "i + 2 \<le> m \<Longrightarrow> m \<le> length h \<Longrightarrow> take m (or16 i v h) = or16 i v (take m h)"
  by (simp add: or16_def put_le16_def take_buf_put_inside)

lemma take_SetSeqNum: "24 \<le> m \<Longrightarrow> m \<le> length h \<Longrightarrow> take m (SetSeqNum v h) = SetSeqNum v (take m h)"
  by (simp add: SetSeqNum_def put_le16_def take_buf_put_inside)

text \<open>The writes of \<^verbatim>\<open>rtw_make_wlanhdr\<close>, for a header of 26 bytes.\<close>

definition hdr_writes :: "bool \<Rightarrow> bool \<Rightarrow> nat \<Rightarrow> u16 \<Rightarrow> bytes \<Rightarrow> bytes \<Rightarrow> bytes \<Rightarrow> bytes \<Rightarrow> bytes" where
  "hdr_writes qos enc prio sq bssid src dst h =
     (let h = or16 0 (if qos then WIFI_QOS_DATA_TYPE else WIFI_DATA_TYPE) h;
          h = buf_put 16 dst (buf_put 10 src (buf_put 4 bssid (or16 0 0x0100 h)));
          h = (if enc then or16 0 0x4000 h else h);
          h = (if qos then or16 24 (of_nat prio AND 0xf) h else h)
      in SetSeqNum sq h)"

lemma buf_put_head: "off = length p \<Longrightarrow> length bs = length x \<Longrightarrow> buf_put off bs (p @ x @ r) = p @ bs @ r"
  by (simp add: buf_put_def)

lemma or16_tail: "off = length p \<Longrightarrow> or16 off v (p @ [x, y] @ r) = p @ put_le16 (get_le16 x y OR v) @ r"
  unfolding or16_def by (subst buf_put_head) (simp_all add: put_le16_def nth_append)

lemma or16_head: "or16 0 v ([x, y] @ r) = put_le16 (get_le16 x y OR v) @ r"
  using or16_tail [of 0 "[]"] by simp

lemma get_le16_put: "get_le16 (ucast w) (ucast (drop_bit 8 w)) = w"
  by (rule bit_word_eqI) (auto simp: get_le16_def bit_simps)

lemma or16_put: "or16 0 v (put_le16 w @ r) = put_le16 (w OR v) @ r"
  using or16_head [of v "ucast w" "ucast (drop_bit 8 w)" r] by (simp add: put_le16_def get_le16_put)

lemma hdr_writes_zero:
  assumes "length bssid = 6" "length src = 6" "length dst = 6" "prio < 8"
  shows "hdr_writes qos enc prio sq bssid src dst (replicate 26 0)
    = station_hdr qos enc prio sq bssid src dst @ (if qos then [] else [0, 0])"
proof -
  define Z :: bytes where "Z = replicate 6 0"
  have lZ: "length Z = 6" by (simp add: Z_def)
  define fc0 fc1 fc2 :: u16 where "fc0 = (if qos then 0x88 else 0x08)" and "fc1 = fc0 OR 0x0100"
    and "fc2 = (if enc then fc1 OR 0x4000 else fc1)"
  define qc :: bytes where "qc = (if qos then [of_nat prio, 0] else [0, 0])"
  have r: "replicate 26 (0 :: u8) = [0, 0] @ [0, 0] @ Z @ Z @ Z @ [0, 0] @ [0, 0]"
    by (simp add: Z_def numeral_eq_Suc)
  have fc: "get_le16 0 0 OR (if qos then WIFI_QOS_DATA_TYPE else WIFI_DATA_TYPE) = fc0"
    by (simp add: fc0_def get_le16_def WIFI_QOS_DATA_TYPE_def WIFI_DATA_TYPE_def)
  have s1: "or16 0 (if qos then WIFI_QOS_DATA_TYPE else WIFI_DATA_TYPE) (replicate 26 0)
      = put_le16 fc0 @ [0, 0] @ Z @ Z @ Z @ [0, 0] @ [0, 0]"
    unfolding r or16_head fc ..
  have s2: "or16 0 0x0100 (put_le16 fc0 @ [0, 0] @ Z @ Z @ Z @ [0, 0] @ [0, 0])
      = put_le16 fc1 @ [0, 0] @ Z @ Z @ Z @ [0, 0] @ [0, 0]"
    unfolding or16_put fc1_def ..
  have s3: "buf_put 4 bssid (put_le16 fc1 @ [0, 0] @ Z @ Z @ Z @ [0, 0] @ [0, 0])
      = put_le16 fc1 @ [0, 0] @ bssid @ Z @ Z @ [0, 0] @ [0, 0]"
    using buf_put_head [of 4 "put_le16 fc1 @ [0, 0]" bssid Z] assms(1) lZ by (simp add: put_le16_def)
  have s4: "buf_put 10 src (put_le16 fc1 @ [0, 0] @ bssid @ Z @ Z @ [0, 0] @ [0, 0])
      = put_le16 fc1 @ [0, 0] @ bssid @ src @ Z @ [0, 0] @ [0, 0]"
    using buf_put_head [of 10 "put_le16 fc1 @ [0, 0] @ bssid" src Z] assms(1,2) lZ by (simp add: put_le16_def)
  have s5: "buf_put 16 dst (put_le16 fc1 @ [0, 0] @ bssid @ src @ Z @ [0, 0] @ [0, 0])
      = put_le16 fc1 @ [0, 0] @ bssid @ src @ dst @ [0, 0] @ [0, 0]"
    using buf_put_head [of 16 "put_le16 fc1 @ [0, 0] @ bssid @ src" dst Z] assms(1-3) lZ by (simp add: put_le16_def)
  have s6: "(if enc then or16 0 0x4000 (put_le16 fc1 @ rest) else put_le16 fc1 @ rest) = put_le16 fc2 @ rest" for rest
    by (simp add: or16_put fc2_def)
  define h6 where "h6 = put_le16 fc2 @ [0, 0] @ bssid @ src @ dst"
  have l6: "length h6 = 22" using assms(1-3) by (simp add: h6_def put_le16_def)
  have s7: "(if qos then or16 24 (of_nat prio AND 0xf) (h6 @ [0, 0] @ [0, 0]) else h6 @ [0, 0] @ [0, 0]) = h6 @ [0, 0] @ qc"
    using or16_tail [of 24 "h6 @ [0, 0]" "of_nat prio AND 0xf" 0 0 "[]"] l6 small_prio [OF assms(4)]
    by (simp add: qc_def get_le16_def)
  have s8: "SetSeqNum sq (h6 @ [0, 0] @ qc) = h6 @ put_le16 (0xfff0 AND push_bit 4 sq) @ qc"
    using buf_put_head [of 22 h6 "put_le16 (0xfff0 AND push_bit 4 sq)" "[0, 0]" qc] l6
    by (simp add: SetSeqNum_def nth_append put_le16_def get_le16_def)
  have fold: "put_le16 fc2 @ [0, 0] @ bssid @ src @ dst @ [0, 0] @ [0, 0] = h6 @ [0, 0] @ [0, 0]"
    by (simp only: h6_def append_assoc)
  have fc2: "put_le16 fc2 = [if qos then 0x88 else 0x08, if enc then 0x41 else 0x01]"
    by (cases qos; cases enc) (simp_all add: fc2_def fc1_def fc0_def put_le16_def)
  show ?thesis
    unfolding hdr_writes_def Let_def s1 s2 s3 s4 s5 s6 fold s7 s8
    unfolding h6_def station_hdr_def qc_def fc2 by simp
qed

lemma tx_ampdu_spec: "\<exists>bas x. tx_ampdu s a = (s\<lparr>BA_starting_seqctrl := bas\<rparr>, a\<lparr>pkt_ampdu_en := x\<rparr>)"
proof -
  define x where "x = (pkt_ht_en a \<and> tx_ampdu_enable s \<and> bit (tx_agg_bitmap s) (pkt_priority a) \<or> pkt_ampdu_en a)"
  have a: "(if pkt_ht_en a \<and> tx_ampdu_enable s \<and> bit (tx_agg_bitmap s) (pkt_priority a) then a\<lparr>pkt_ampdu_en := True\<rparr> else a)
      = a\<lparr>pkt_ampdu_en := x\<rparr>"
  proof (cases "pkt_ht_en a \<and> tx_ampdu_enable s \<and> bit (tx_agg_bitmap s) (pkt_priority a)")
    case False
    then have "x = pkt_ampdu_en a" by (auto simp: x_def)
    with False show ?thesis by (subst if_not_P) simp_all
  qed (simp add: x_def)
  show ?thesis
  proof (cases "x \<and> \<not> SN_LESS (seqnum a) (BA_starting_seqctrl s ! (pkt_priority a mod 16))")
    case True
    then show ?thesis
      unfolding tx_ampdu_def Let_def a
      by (intro exI [of _ "(BA_starting_seqctrl s)[pkt_priority a mod 16 :=
            if seqnum a = BA_starting_seqctrl s ! (pkt_priority a mod 16)
            then (BA_starting_seqctrl s ! (pkt_priority a mod 16) + 1) AND 0xfff else (seqnum a + 1) AND 0xfff]"] exI [of _ x])
         simp
  next
    case False
    then show ?thesis
      unfolding tx_ampdu_def Let_def a
      by (intro exI [of _ "BA_starting_seqctrl s"] exI [of _ False]) auto
  qed
qed

lemma make_wlanhdr_station:
  assumes st: "is_station (tx_fw_state n)" and a: "station_attrib n i dst src ty len a" and lk: "tx_linked n i"
    and len: "length (tx_bssid n) = 6" "length src = 6" "length dst = 6"
    and sq: "sq = (txseq_tid (tx_stas n ! i) ! pkt_priority a + 1) AND 0xfff"
  shows "\<exists>bas x h. rtw_make_wlanhdr n a = Some (upd_tx_sta i (\<lambda>s. (tx_stas n ! i)
        \<lparr>txseq_tid := (txseq_tid (tx_stas n ! i))[pkt_priority a := sq], BA_starting_seqctrl := bas\<rparr>) n,
        a\<lparr>seqnum := sq, pkt_ampdu_en := x\<rparr>, h) \<and> length h = 64
     \<and> take (hdrlen a) h = station_hdr (qos_on n) (encrypt a \<noteq> NO_PRIVACY) (pkt_priority a) sq (tx_bssid n) src dst"
proof -
  define s1 where "s1 = (tx_stas n ! i)\<lparr>txseq_tid := (txseq_tid (tx_stas n ! i))[pkt_priority a := sq]\<rparr>"
  obtain bas x where amp: "tx_ampdu s1 (a\<lparr>seqnum := sq\<rparr>) = (s1\<lparr>BA_starting_seqctrl := bas\<rparr>, a\<lparr>seqnum := sq, pkt_ampdu_en := x\<rparr>)"
    using tx_ampdu_spec by blast
  define st0 :: bytes where "st0 = or16 0 (pkt_subtype a) (replicate 64 0)"
  define h1 where "h1 = buf_put 16 dst (buf_put 10 src (buf_put 4 (tx_bssid n) (or16 0 0x0100 st0)))"
  define h2 where "h2 = (if encrypt a \<noteq> NO_PRIVACY then or16 0 0x4000 h1 else h1)"
  define h3 where "h3 = (if qos_on n then or16 24 (of_nat (pkt_priority a) AND 0xf) h2 else h2)"
  define h where "h = SetSeqNum sq h3"
  note f = a [unfolded station_attrib_def]
  have sub: "pkt_subtype a AND WIFI_DATA_TYPE \<noteq> 0"
    using f by (auto simp: WIFI_QOS_DATA_TYPE_def WIFI_DATA_TYPE_def)
  have qc: "((if pkt_priority a \<noteq> 0 then of_nat (pkt_priority a) AND 0xf else 0) OR (if pkt_eosp a then 0x10 else 0)
      OR push_bit 5 (pkt_ack_policy a AND 3)) = (of_nat (pkt_priority a) AND 0xf :: u16)" using f by simp
  have l0: "length st0 = 64" by (simp add: st0_def len_simps)
  have l1: "length h1 = 64" using l0 len by (simp add: h1_def len_simps)
  have l2: "length h2 = 64" using l1 by (simp add: h2_def len_simps)
  have l3: "length h3 = 64" using l2 by (simp add: h3_def len_simps)
  have l: "length h = 64" using l3 by (simp add: h_def SetSeqNum_def len_simps put_le16_def)
  have sub': "pkt_subtype a = (if qos_on n then WIFI_QOS_DATA_TYPE else WIFI_DATA_TYPE)" using f by blast
  have "take 26 h = hdr_writes (qos_on n) (encrypt a \<noteq> NO_PRIVACY) (pkt_priority a) sq (tx_bssid n) src dst (replicate 26 0)"
    unfolding hdr_writes_def Let_def sub' [symmetric]
    using l3 l2 l1 l0 len
    by (simp add: h_def h3_def h2_def h1_def st0_def take_SetSeqNum take_or16 take_buf_put_inside len_simps)
  then have "take 26 h = station_hdr (qos_on n) (encrypt a \<noteq> NO_PRIVACY) (pkt_priority a) sq (tx_bssid n) src dst
      @ (if qos_on n then [] else [0, 0])"
    using hdr_writes_zero [OF len(1,2,3)] f by simp
  then have "take (hdrlen a) (take 26 h) = station_hdr (qos_on n) (encrypt a \<noteq> NO_PRIVACY) (pkt_priority a) sq (tx_bssid n) src dst"
    using f len by (auto simp: len_simps)
  moreover have "hdrlen a \<le> 26" using f by auto
  ultimately have th: "take (hdrlen a) h = station_hdr (qos_on n) (encrypt a \<noteq> NO_PRIVACY) (pkt_priority a) sq (tx_bssid n) src dst"
    by (simp add: min_absorb1)
  have seq: "tx_sequence i n a = (upd_tx_sta i (\<lambda>_. s1\<lparr>BA_starting_seqctrl := bas\<rparr>) n, a\<lparr>seqnum := sq, pkt_ampdu_en := x\<rparr>)"
    by (simp add: tx_sequence_def Let_def sq [symmetric] s1_def [symmetric] amp)
  have adr: "wlan_addrs n i a st0 = Some (h1, qos_on n)"
    using f station_states(1) [OF st] by (simp add: wlan_addrs_def h1_def)
  have "rtw_make_wlanhdr n a = Some (upd_tx_sta i (\<lambda>_. s1\<lparr>BA_starting_seqctrl := bas\<rparr>) n, a\<lparr>seqnum := sq, pkt_ampdu_en := x\<rparr>, h)"
  proof -
    have "tx_station n a = Some i" "\<not> pkt_mdata a" "qos_on n \<Longrightarrow> hdrlen a - 2 = 24" using f by (auto simp: tx_station_def)
    then show ?thesis
      unfolding rtw_make_wlanhdr_def st0_def [symmetric] Let_def qc
      using lk sub adr seq by (simp add: h_def h3_def h2_def)
  qed
  with th l show ?thesis unfolding s1_def by (intro exI conjI) (auto simp: upd_tx_sta_def)
qed

section \<open>A frame in one fragment\<close>

lemma put_le16_get: "put_le16 (get_le16 x y) = [x, y]"
  by (auto simp: put_le16_def get_le16_def intro!: bit_word_eqI) (auto simp: bit_simps dest: bit_u8_bound)

lemma set_clear_bit: "\<not> bit w k \<Longrightarrow> (w OR push_bit k 1) AND NOT (push_bit k 1) = (w :: u16)"
  by (rule bit_word_eqI) (auto simp: bit_simps bit_1_iff)

lemma mfrag_clear: "\<not> bit w 10 \<Longrightarrow> (w OR 0x0400) AND NOT 0x0400 = (w :: u16)"
  using set_clear_bit [of w 10] by simp

lemma length_put_snap [len_simps]: "length (rtw_put_snap ty) = 8"
  by (simp add: rtw_put_snap_def rtw_bridge_tunnel_header_def rtw_rfc1042_header_def be16_def)

text \<open>The IV of the frame.\<close>

definition tx_frame_iv :: "bool \<Rightarrow> tx_attrib \<Rightarrow> u64 \<Rightarrow> bytes" where
  "tx_frame_iv bmcst a pn = (if iv_len a = 0 then [] else take (iv_len a) (pkt_iv (fst (tx_iv bmcst a pn))))"

lemma put_ok: "i + length bs \<le> length b \<Longrightarrow> put i bs b = Some (buf_put i bs b)"
  by (simp add: put_def)

lemma tx_iv_spec: "\<exists>iv pn'. tx_iv bmcst a pn = (a\<lparr>pkt_iv := iv\<rparr>, pn')"
proof -
  have "fst (tx_iv bmcst a pn) = a\<lparr>pkt_iv := pkt_iv (fst (tx_iv bmcst a pn))\<rparr>"
    by (simp add: tx_iv_def Let_def split_beta)
  then show ?thesis by (metis prod.collapse)
qed

lemma length_tx_frame_iv:
  assumes "(iv_len a, icv_len a) = cipher_lens (encrypt a)"
  shows "length (tx_frame_iv bmcst a pn) = iv_len a"
  using assms
  by (auto simp: tx_frame_iv_def tx_iv_def cipher_lens_def Let_def split_beta WEP_IV_def TKIP_IV_def AES_IV_def split: if_splits)

lemma set_mfrag_ok: "p + 2 \<le> length b \<Longrightarrow> set_mfrag p mf b = Some (buf_put p (put_le16
     (if mf then get_le16 (b ! p) (b ! (p + 1)) OR 0x0400 else get_le16 (b ! p) (b ! (p + 1)) AND NOT 0x0400)) b)"
  by (simp add: set_mfrag_def rds_def Let_def nth_buf_get put_def put_le16_def)

lemma frag_turn_single:
  assumes pkt: "pkt = eth_packet dst src ty data" "length dst = 6" "length src = 6" "ether_type a = ty"
    and il: "(iv_len a, icv_len a) = cipher_lens (encrypt a)" "length (pkt_icv a) = 8"
    and room: "hdrlen a + iv_len a + 8 + length data + icv_space a + 4 \<le> frag_len"
    and buf: "40 + hdrlen a + iv_len a + 8 + length data + icv_space a \<le> length b" "2 \<le> hdrlen a"
    and body: "body = tx_frame_iv False a pn @ rtw_put_snap ty @ data @ take (icv_space a) (pkt_icv a)"
  shows "\<exists>iv pn' e. frag_turn frag_len False pkt 0 40 14 a pn b =
      Some \<lparr>turn_attrib = a\<lparr>pkt_iv := iv\<rparr>, turn_pn = pn', turn_buf = buf_put (40 + hdrlen a) body
         (buf_put 40 (put_le16 (get_le16 (b ! 40) (b ! 41) OR 0x0400)) b), turn_llc = 8, turn_mem_sz = length data,
         turn_pos = length pkt, turn_end = e\<rparr> \<and> (iv_len a = 0 \<longrightarrow> iv = pkt_iv a)"
proof -
  obtain iv pn' where ivp: "(if iv_len a \<noteq> 0 then tx_iv False a pn else (a, pn)) = (a\<lparr>pkt_iv := iv\<rparr>, pn')"
    "iv_len a = 0 \<longrightarrow> iv = pkt_iv a" "take (iv_len a) iv = tx_frame_iv False a pn"
  proof (cases "iv_len a = 0")
    case True
    then show ?thesis using that [of "pkt_iv a" pn] by (simp add: tx_frame_iv_def)
  next
    case False
    obtain iv pn' where "tx_iv False a pn = (a\<lparr>pkt_iv := iv\<rparr>, pn')" using tx_iv_spec by blast
    with False show ?thesis using that [of iv pn'] by (simp add: tx_frame_iv_def)
  qed
  let ?iv = "tx_frame_iv False a pn" and ?icv = "take (icv_space a) (pkt_icv a)"
  define b1 where "b1 = buf_put 40 (put_le16 (get_le16 (b ! 40) (b ! 41) OR 0x0400)) b"
  have l1: "length b1 = length b" using buf by (simp add: b1_def len_simps put_le16_def)
  have li: "length ?iv = iv_len a" by (rule length_tx_frame_iv [OF il(1)])
  have lc: "length ?icv = icv_space a"
    using il by (auto simp: icv_space_def cipher_lens_def split: if_splits)
  have m: "set_mfrag 40 True b = Some b1" using buf by (simp add: set_mfrag_ok b1_def)
  have lp: "length pkt = 14 + length data" using pkt by (simp add: eth_packet_def be16_def)
  have rd: "pktfile_read pkt 14 (nat (mpdu_room frag_len a 8)) = (data, length pkt)"
  proof -
    have "length data \<le> nat (mpdu_room frag_len a 8)" using room by (simp add: mpdu_room_def)
    then have "min (nat (mpdu_room frag_len a 8)) (length pkt - 14) = length data" using lp by simp
    moreover have "buf_get 14 (length data) pkt = data"
      using pkt by (simp add: eth_packet_def be16_def buf_get_def)
    ultimately show ?thesis using lp by (simp add: pktfile_read_def)
  qed
  have rm: "0 \<le> mpdu_room frag_len a 8" using room by (simp add: mpdu_room_def)
  have isp: "icv_space (a\<lparr>pkt_iv := iv\<rparr>) = icv_space a" "mpdu_room frag_len (a\<lparr>pkt_iv := iv\<rparr>) k = mpdu_room frag_len a k" for k
    by (simp_all add: icv_space_def mpdu_room_def)
  let ?h = "40 + hdrlen a"
  have p1: "put ?h ?iv b1 = Some (buf_put ?h ?iv b1)" using buf l1 li by (intro put_ok) simp
  have p2: "put (?h + iv_len a) (rtw_put_snap ty) (buf_put ?h ?iv b1) = Some (buf_put ?h (?iv @ rtw_put_snap ty) b1)"
    using buf l1 li buf_put_append [of ?h ?iv "rtw_put_snap ty" b1] by (subst put_ok) (simp_all add: len_simps)
  have p3: "put (?h + iv_len a + 8) data (buf_put ?h (?iv @ rtw_put_snap ty) b1) = Some (buf_put ?h (?iv @ rtw_put_snap ty @ data) b1)"
    using buf l1 li buf_put_append [of ?h "?iv @ rtw_put_snap ty" data b1] by (subst put_ok) (simp_all add: len_simps add_ac)
  have p4: "put (?h + iv_len a + 8 + length data) ?icv (buf_put ?h (?iv @ rtw_put_snap ty @ data) b1) = Some (buf_put ?h body b1)"
    using buf l1 li lc buf_put_append [of ?h "?iv @ rtw_put_snap ty @ data" ?icv b1]
    by (subst put_ok) (simp_all add: len_simps add_ac body)
  have fields: "iv_len (a\<lparr>pkt_iv := iv\<rparr>) = iv_len a" "pkt_iv (a\<lparr>pkt_iv := iv\<rparr>) = iv" "pkt_icv (a\<lparr>pkt_iv := iv\<rparr>) = pkt_icv a"
    "ether_type (a\<lparr>pkt_iv := iv\<rparr>) = ty" using pkt(4) by simp_all
  have nroom: "\<not> mpdu_room frag_len a 8 < 0" using rm by simp
  show ?thesis
    unfolding b1_def [symmetric]
    by (intro exI [of _ iv] exI [of _ pn'] exI conjI ivp(2))
       (simp only: frag_turn_def Let_def m bind.bind_lunit ivp(1,3) prod.case fields isp p1 p2 p3 p4 rd nroom length_put_snap
         if_True if_False simp_thms refl)
qed

lemma buf_put_put_above:
  assumes "o1 + length xs \<le> o2" "o2 + length ys \<le> length b"
  shows "buf_put o1 xs (buf_put o2 ys b) = buf_put o2 ys (buf_put o1 xs b)"
  using assms by (intro nth_equalityI) (auto simp: len_simps nth_buf_put)

lemma frag_single:
  assumes pkt: "pkt = eth_packet dst src ty data" "length dst = 6" "length src = 6" "ether_type a = ty"
    and il: "(iv_len a, icv_len a) = cipher_lens (encrypt a)" "length (pkt_icv a) = 8"
    and room: "hdrlen a + iv_len a + 8 + length data + icv_space a + 4 \<le> frag_len"
    and buf: "40 + hdrlen a + iv_len a + 8 + length data + icv_space a \<le> length b" "2 \<le> hdrlen a"
    and nofrag: "\<not> bit (get_le16 (b ! 40) (b ! 41)) 10"
    and body: "body = tx_frame_iv False a pn @ rtw_put_snap ty @ data @ take (icv_space a) (pkt_icv a)"
  shows "\<exists>iv pn'. frag_turns frag_len base False pkt 0 40 14 a pn b =
      Some (a\<lparr>pkt_iv := iv, nr_frags := 1,
          last_txcmdsz := hdrlen a + iv_len a + 8 + (if bswenc a then icv_len a else 0) + length data\<rparr>, pn',
        buf_put (40 + hdrlen a) body b)"
proof -
  define fc where "fc = get_le16 (b ! 40) (b ! 41)"
  define b1 where "b1 = buf_put 40 (put_le16 (fc OR 0x0400)) b"
  let ?h = "40 + hdrlen a"
  have lb: "length body = iv_len a + 8 + length data + icv_space a"
    using il length_tx_frame_iv [OF il(1), of False pn]
    by (auto simp: body len_simps icv_space_def cipher_lens_def split: if_splits)
  have l1: "length b1 = length b" using buf by (simp add: b1_def len_simps put_le16_def)
  obtain iv pn' e where t: "frag_turn frag_len False pkt 0 40 14 a pn b =
      Some \<lparr>turn_attrib = a\<lparr>pkt_iv := iv\<rparr>, turn_pn = pn', turn_buf = buf_put ?h body b1, turn_llc = 8, turn_mem_sz = length data,
         turn_pos = length pkt, turn_end = e\<rparr>" "iv_len a = 0 \<longrightarrow> iv = pkt_iv a"
    using frag_turn_single [OF pkt il room buf body, folded fc_def, folded b1_def]
    by (elim exE conjE) (rule that)
  have n: "buf_put ?h body b1 ! 40 = put_le16 (fc OR 0x0400) ! 0" "buf_put ?h body b1 ! 41 = put_le16 (fc OR 0x0400) ! 1"
    using buf l1 lb by (simp_all add: b1_def nth_buf_put put_le16_def len_simps)
  have g: "get_le16 (buf_put ?h body b1 ! 40) (buf_put ?h body b1 ! 41) = fc OR 0x0400"
    unfolding n by (simp only: put_le16_def nth_Cons_0 nth_Cons_Suc One_nat_def get_le16_put)
  have "put_le16 fc = buf_get 40 2 b"
    using buf put_le16_get [of "b ! 40" "b ! 41"]
    by (intro nth_equalityI) (auto simp: fc_def len_simps nth_buf_get less_Suc_eq numeral_2_eq_2)
  then have cl: "buf_put 40 (put_le16 fc) (buf_put ?h body b1) = buf_put ?h body b"
    using buf lb l1 buf_put_put_above [of 40 "put_le16 fc" ?h body b1]
    by (simp add: b1_def put_le16_def buf_put_put len_simps buf_put_get_same)
  have "set_mfrag 40 False (buf_put ?h body b1) = Some (buf_put ?h body b)"
    using buf l1 lb g mfrag_clear nofrag cl
    by (subst set_mfrag_ok) (simp_all add: len_simps fc_def [symmetric])
  then show ?thesis
    by (intro exI [of _ iv] exI [of _ pn'])
       (simp add: frag_turns.simps [of frag_len base False pkt 0 40 14 a pn b] t(1) Let_def)
qed

section \<open>The Michael code and the ciphers on one fragment\<close>

lemma RND4_fixed: "x mod 4 = 0 \<Longrightarrow> RND4 x = x"
  using RND4_bounds [of x] by presburger

lemma addmic_none: "encrypt a \<noteq> TKIP \<Longrightarrow> psta a = Some i \<Longrightarrow> tx_linked n i \<Longrightarrow> xmitframe_addmic n base a b = Some (Some (a, b))"
  by (simp add: xmitframe_addmic_def)

lemma addmic_single:
  assumes a: "encrypt a = TKIP" "bswenc a" "nr_frags a = 1" "(iv_len a, icv_len a) = cipher_lens TKIP" "psta a = Some i"
      "\<not> is_multicast_ether_addr (pkt_ra a)" "tx_linked n i"
    and key: "key = txmickey (tx_stas n ! i)" "key \<noteq> replicate 16 0" "8 \<le> length key"
    and sz: "last_txcmdsz a = hdrlen a + 8 + k + 4" "base mod 4 = 0"
    and buf: "40 + hdrlen a + 8 + k + 12 \<le> length b" "22 \<le> hdrlen a"
    and h: "h = buf_get 40 30 b" and d: "d = buf_get (40 + hdrlen a + 8) k b"
  shows "xmitframe_addmic n base a b = Some (Some (a\<lparr>last_txcmdsz := last_txcmdsz a + 8\<rparr>,
     buf_put (40 + hdrlen a + 8 + k)
       (michael key (frame_DA h @ frame_SA h @ [if pkt_qos_en a then of_nat (pkt_priority a) else 0, 0, 0, 0] @ d)) b))"
proof -
  define pri :: u8 where "pri = (if pkt_qos_en a then of_nat (pkt_priority a) else 0)"
  define s0 where "s0 = rtw_secmicappend (rtw_secmicappend (rtw_secmicappend (rtw_secmicsetkey mic_data0 key) (frame_DA h))
    (frame_SA h)) [pri, 0, 0, 0]"
  have iv: "iv_len a = 8" "icv_len a = 4" using a(4) by (simp_all add: cipher_lens_def)
  have "(base + 40) mod 4 = 0" using sz(2) by presburger
  then have r: "RND4 (base + 40) - base = 40" using RND4_fixed [of "base + 40"] by simp
  have "addmic_frags (frag_thr n) base a b 40 1 s0 = Some (rtw_secmicappend s0 d, 40 + hdrlen a + 8 + k)"
    using buf by (simp add: r iv sz(1) a(2) rds_def d Let_def)
  moreover have "fst (rtw_secgetmic (rtw_secmicappend s0 d))
      = michael key (frame_DA h @ frame_SA h @ [pri, 0, 0, 0] @ d)"
    using getmic_message [OF key(3), of "frame_DA h @ frame_SA h @ [pri, 0, 0, 0] @ d"]
    by (simp only: s0_def mic_state_def append_assoc append_append)
  moreover have "length (michael key m) = 8" for m by (rule length_michael)
  ultimately show ?thesis
    using a key(2) buf unfolding xmitframe_addmic_def s0_def pri_def [symmetric] TXDESC_OFFSET_def
    by (simp add: key(1) [symmetric] rds_def h put_ok)
qed

lemma frag_loop_single:
  "nr_frags a = 1 \<Longrightarrow> frag_payload a (last_txcmdsz a) = Some k \<Longrightarrow>
   frag_loop seal a frag_len base 0 p buf = map_option (\<lambda>q. take p buf @ q) (seal k (drop p buf))"
  by (simp add: frag_loop.simps split: option.splits)

text \<open>A fragment that the software seals in the buffer: what goes on the air, and what the receiver's cipher
  makes of it, which is the plain fragment but for the last bytes.\<close>

definition plain_but_icv :: "nat \<Rightarrow> bytes \<Rightarrow> bytes \<Rightarrow> bool" where
  "plain_but_icv icv p q \<longleftrightarrow> length q = length p \<and> take (length p - icv) q = take (length p - icv) p"

lemma with_icv_plain: "off + 4 \<le> length p \<Longrightarrow> plain_but_icv 4 p (with_icv off p)"
  by (simp add: plain_but_icv_def with_icv_def len_simps buf_simps)

lemma rc4_seal_frame:
  assumes "rc4_seal key off n p = Some f"
  shows "length f = length p" "take off f = take off p"
  using assms by (auto simp: rc4_seal_eq len_simps buf_simps split: if_splits)

lemma wep_air:
  assumes k: "wep_rc4key sec (dot11PrivacyKeyIndex sec) hl p = Some key" "wep_rc4key sec' idx hl p = Some key"
    and len: "length p = k + (4 + hl + 4)"
  shows "\<exists>f q. wep_encrypt_frag sec hl 4 k p = Some f \<and> length f = length p \<and> take (4 + hl) f = take (4 + hl) p
     \<and> wep_decrypt_frag sec' idx hl 4 f = Some (q, True) \<and> plain_but_icv 4 p q"
proof -
  obtain f where f: "rc4_seal key (4 + hl) k p = Some f" using len by (simp add: rc4_seal_eq)
  have "wep_rc4key sec' idx hl f = Some key"
    using f k(2) by (auto simp: rc4_seal_eq wep_rc4key_put len_simps split: if_splits)
  then have "wep_decrypt_frag sec' idx hl 4 f = Some (with_icv (4 + hl) p, True)"
    using rc4_open_seal [OF f] len by (simp add: wep_decrypt_frag_def)
  with f k(1) rc4_seal_frame [OF f] len with_icv_plain [of "4 + hl" p] show ?thesis
    by (intro exI [of _ f] exI [of _ "with_icv (4 + hl) p"]) (simp add: wep_encrypt_frag_def)
qed

lemma tkip_air:
  assumes len: "length p = k + (8 + hl + 4)"
  shows "\<exists>f q. tkip_encrypt_frag key adr hl 8 k p = Some f \<and> length f = length p \<and> take (8 + hl) f = take (8 + hl) p
     \<and> tkip_decrypt_frag key adr hl 8 f = Some (q, True) \<and> plain_but_icv 4 p q"
proof -
  obtain f where f: "rc4_seal (tkip_rc4key key adr (buf_get hl 8 p)) (8 + hl) k p = Some f"
    using len by (simp add: rc4_seal_eq)
  then have "buf_get hl 8 f = buf_get hl 8 p" "length f = length p"
    by (auto simp: rc4_seal_eq buf_simps len_simps split: if_splits)
  then have "tkip_decrypt_frag key adr hl 8 f = Some (with_icv (8 + hl) p, True)"
    using rc4_open_seal [OF f] len by (simp add: tkip_decrypt_frag_def)
  with f rc4_seal_frame [OF f] len with_icv_plain [of "8 + hl" p] show ?thesis
    by (intro exI [of _ f] exI [of _ "with_icv (8 + hl) p"]) (simp add: tkip_encrypt_frag_def)
qed

lemma aes_air:
  assumes len: "length p = hl + 8 + k + 8" and ok: "ccmp_header_ok hl p"
    and m: "length p \<le> MAX_MSG_SIZE" "length message = MAX_MSG_SIZE"
  shows "\<exists>f q m'. aes_cipher key hl p k = Some f \<and> length f = length p \<and> take (hl + 8) f = take (hl + 8) p
     \<and> aes_decipher key hl f (k + 8) message = Some (RTW_SUCCESS, q, m') \<and> plain_but_icv 8 p q"
proof -
  define s where "s = (let (b0, blk, aad) = ccmp_params hl k p; (c, t) = ccm_encrypt (aes128k128d key) b0 blk aad (buf_get (hl + 8) k p) in c @ t)"
  have ls: "length s = k + 8"
    using len by (simp add: s_def split_beta Let_def ccm_encrypt_def aes.ctr_mode_length len_simps
        aes.enc_length aes.ccm_mic_length)
  have f: "aes_cipher key hl p k = Some (buf_put (hl + 8) s p)"
    using aes_cipher_ccm [OF ok, of k key] len by (simp add: s_def)
  obtain m' where d: "aes_decipher key hl (buf_put (hl + 8) s p) (k + 8) message = Some (RTW_SUCCESS, ccmp_opened key hl p, m')"
    using aes_decipher_cipher [OF f len ok m] by blast
  have "length (snd (ccm_encrypt E b0 blk aad x)) = 8" if "E = aes128k128d key" for E b0 blk aad x
    using that by (simp add: ccm_encrypt_def Let_def len_simps aes.enc_length aes.ccm_mic_length aes.ctr_mode_length)
  then have "plain_but_icv 8 p (ccmp_opened key hl p)"
    using len by (simp add: plain_but_icv_def ccmp_opened_def Let_def split_beta len_simps buf_simps)
  with f d ls len show ?thesis
    by (intro exI [of _ "buf_put (hl + 8) s p"] exI [of _ "ccmp_opened key hl p"] exI [of _ m'])
       (simp add: len_simps buf_simps)
qed

lemma splice: "off \<le> length b \<Longrightarrow> off + length f \<le> length b \<Longrightarrow> take off b @ f @ drop (length f) (drop off b) = buf_put off f b"
  by (simp add: buf_put_def add.commute)

lemma truncate_fields [simp]:
  "hdrlen (pkt_attrib.truncate a) = hdrlen a" "iv_len (pkt_attrib.truncate a) = iv_len a"
  "icv_len (pkt_attrib.truncate a) = icv_len a" "last_txcmdsz (pkt_attrib.truncate a) = last_txcmdsz a"
  "nr_frags (pkt_attrib.truncate a) = nr_frags a" "encrypt (pkt_attrib.truncate a) = encrypt a"
  "pkt_ta (pkt_attrib.truncate a) = pkt_ta a" "pkt_ra (pkt_attrib.truncate a) = pkt_ra a"
  "psta (pkt_attrib.truncate a) = psta a"
  by (simp_all add: pkt_attrib.truncate_def)

lemma swencrypt_wep:
  assumes a: "bswenc a" "encrypt a = WEP40 \<or> encrypt a = WEP104" "nr_frags a = 1" "iv_len a = 4" "icv_len a = 4"
    and sz: "last_txcmdsz a = hdrlen a + 4 + k + 4" "40 + last_txcmdsz a \<le> length b"
    and key: "wep_rc4key (security_priv.truncate (tx_sec n)) (dot11PrivacyKeyIndex (tx_sec n)) (hdrlen a) (drop 40 b) = Some key"
  shows "\<exists>f. xmitframe_swencrypt n base a b = Some (buf_put 40 f b)
    \<and> wep_encrypt_frag (security_priv.truncate (tx_sec n)) (hdrlen a) 4 k (buf_get 40 (last_txcmdsz a) b) = Some f"
proof -
  let ?sec = "security_priv.truncate (tx_sec n)"
  have ki: "dot11PrivacyKeyIndex ?sec = dot11PrivacyKeyIndex (tx_sec n)" by (simp add: security_priv.truncate_def)
  have l: "4 + hdrlen a + k + 4 \<le> length b - 40" and l40: "40 \<le> length b" using sz by linarith+
  obtain p where p: "wep_encrypt_frag ?sec (hdrlen a) 4 k (drop 40 b) = Some p"
    using key l ki by (simp add: wep_encrypt_frag_def rc4_seal_eq)
  have ovh: "k + (4 + hdrlen a + 4) = last_txcmdsz a" using sz by simp
  obtain f where f: "wep_encrypt_frag ?sec (hdrlen a) 4 k (buf_get 40 (last_txcmdsz a) b) = Some f" "take 40 b @ p = buf_put 40 f b"
    by (rule wep.seal_splice [OF p TrueI l40, unfolded ovh])
  have "frag_payload (pkt_attrib.truncate a) (last_txcmdsz a) = Some k" using a sz by (simp add: frag_payload_def)
  then have "frag_loop (wep_encrypt_frag ?sec (hdrlen a) 4) (pkt_attrib.truncate a) (frag_thr n) base 0 40 b = Some (take 40 b @ p)"
    using a(3) p by (simp add: frag_loop_single)
  then show ?thesis
    using a f by (intro exI [of _ f]) (auto simp: xmitframe_swencrypt_def rtw_wep_encrypt_def tx_frame_def Let_def TXDESC_OFFSET_def)
qed

lemma swencrypt_tkip:
  assumes a: "bswenc a" "encrypt a = TKIP" "nr_frags a = 1" "iv_len a = 8" "icv_len a = 4"
    and sz: "last_txcmdsz a = hdrlen a + 8 + k + 4" "40 + last_txcmdsz a \<le> length b"
    and key: "xmit_key (security_priv.truncate (tx_sec n)) (tx_stapriv n) (pkt_attrib.truncate a) = Some (Inr key)"
  shows "\<exists>f. xmitframe_swencrypt n base a b = Some (buf_put 40 f b)
    \<and> tkip_encrypt_frag key (pkt_ta a) (hdrlen a) 8 k (buf_get 40 (last_txcmdsz a) b) = Some f"
proof -
  have l: "8 + hdrlen a + k + 4 \<le> length b - 40" and l40: "40 \<le> length b" using sz by linarith+
  obtain p where p: "tkip_encrypt_frag key (pkt_ta a) (hdrlen a) 8 k (drop 40 b) = Some p"
    using l by (simp add: tkip_encrypt_frag_def rc4_seal_eq)
  have ovh: "k + (8 + hdrlen a + 4) = last_txcmdsz a" using sz by simp
  obtain f where f: "tkip_encrypt_frag key (pkt_ta a) (hdrlen a) 8 k (buf_get 40 (last_txcmdsz a) b) = Some f" "take 40 b @ p = buf_put 40 f b"
    by (rule tkip.seal_splice [OF p TrueI l40, unfolded ovh])
  have "frag_payload (pkt_attrib.truncate a) (last_txcmdsz a) = Some k" using a sz by (simp add: frag_payload_def)
  then have "frag_loop (tkip_encrypt_frag key (pkt_ta a) (hdrlen a) 8) (pkt_attrib.truncate a) (frag_thr n) base 0 40 b = Some (take 40 b @ p)"
    using a(3) p by (simp add: frag_loop_single)
  then show ?thesis
    using a f key by (intro exI [of _ f]) (auto simp: xmitframe_swencrypt_def rtw_tkip_encrypt_def tx_frame_def Let_def TXDESC_OFFSET_def)
qed

lemma swencrypt_aes:
  assumes a: "bswenc a" "encrypt a = AES" "nr_frags a = 1" "iv_len a = 8" "icv_len a = 8"
    and sz: "last_txcmdsz a = hdrlen a + 8 + k + 8" "40 + last_txcmdsz a \<le> length b" "last_txcmdsz a \<le> MAX_MSG_SIZE"
    and key: "xmit_key (security_priv.truncate (tx_sec n)) (tx_stapriv n) (pkt_attrib.truncate a) = Some (Inr key)"
    and ok: "ccmp_header_ok (hdrlen a) (buf_get 40 (last_txcmdsz a) b)"
  shows "\<exists>f. xmitframe_swencrypt n base a b = Some (buf_put 40 f b)
    \<and> aes_cipher key (hdrlen a) (buf_get 40 (last_txcmdsz a) b) k = Some f"
proof -
  have g: "buf_get 40 (last_txcmdsz a) b = take (last_txcmdsz a) (drop 40 b)" by (simp add: buf_get_def)
  have "2 \<le> last_txcmdsz a" using sz by simp
  then have "ccmp_header_ok (hdrlen a) (drop 40 b)" using ok unfolding g by (simp add: ccmp_header_take)
  then obtain p where p: "aes_cipher key (hdrlen a) (drop 40 b) k = Some p"
    using aes_cipher_ccm [of "hdrlen a" "drop 40 b" k key] sz by simp
  have ovh: "k + (hdrlen a + 8 + 8) = last_txcmdsz a" using sz by simp
  have good: "ccmp_header_ok (hdrlen a) (buf_get 40 (k + (hdrlen a + 8 + 8)) b)
      \<and> length (buf_get 40 (k + (hdrlen a + 8 + 8)) b) \<le> MAX_MSG_SIZE"
    unfolding ovh using ok sz by (simp add: len_simps)
  obtain f where f: "aes_cipher key (hdrlen a) (buf_get 40 (last_txcmdsz a) b) k = Some f" "take 40 b @ p = buf_put 40 f b"
    using ccmp.seal_splice [OF p good] sz unfolding ovh by force
  have "frag_payload (pkt_attrib.truncate a) (last_txcmdsz a) = Some k" using a sz by (simp add: frag_payload_def)
  then have "frag_loop (\<lambda>n p. aes_cipher key (hdrlen a) p n) (pkt_attrib.truncate a) (frag_thr n) base 0 40 b = Some (take 40 b @ p)"
    using a(3) p by (simp add: frag_loop_single)
  then show ?thesis
    using a f key by (intro exI [of _ f]) (auto simp: xmitframe_swencrypt_def rtw_aes_encrypt_def tx_frame_def Let_def TXDESC_OFFSET_def)
qed

section \<open>The frame of a station\<close>

lemma station_hdr_nth:
  "station_hdr qos enc prio sq bssid src dst ! 0 = (if qos then 0x88 else 0x08)"
  "station_hdr qos enc prio sq bssid src dst ! 1 = (if enc then 0x41 else 0x01)"
  by (simp_all add: station_hdr_def)

lemma station_hdr_addr:
  assumes "length bssid = 6" "length src = 6" "length dst = 6" "take 24 x = take 24 (station_hdr qos enc prio sq bssid src dst)"
  shows "frame_DA x = dst" "frame_SA x = src" "buf_get 4 6 x = bssid"
proof -
  let ?H = "station_hdr qos enc prio sq bssid src dst"
  have g: "buf_get k 6 x = buf_get k 6 ?H" if "k + 6 \<le> 24" for k
    using that arg_cong [OF assms(4), of "buf_get k 6"] by (simp add: buf_get_take)
  have "x ! 1 = ?H ! 1" using arg_cong [OF assms(4), of "\<lambda>l. l ! 1"] by simp
  then have "x ! 1 = (if enc then 0x41 else 0x01)" by (simp only: station_hdr_nth)
  then have "to_ds x" "\<not> from_ds x" by (auto simp: to_ds_def from_ds_def)
  moreover have "buf_get 4 6 ?H = bssid" "buf_get 10 6 ?H = src" "buf_get 16 6 ?H = dst"
    using assms(1-3) by (simp_all add: station_hdr_def buf_get_def put_le16_def)
  ultimately show "frame_DA x = dst" "frame_SA x = src" "buf_get 4 6 x = bssid"
    using g [of 4] g [of 10] g [of 16] by (simp_all add: frame_DA_def frame_SA_def)
qed

text \<open>The LLC payload of a packet, and the code a sender with a Michael key appends to it.\<close>

definition tx_llc :: "u16 \<Rightarrow> bytes \<Rightarrow> bytes" where "tx_llc ty data = rtw_put_snap ty @ data"

definition tx_mic :: "tx_net \<Rightarrow> nat \<Rightarrow> bytes \<Rightarrow> bytes \<Rightarrow> tx_attrib \<Rightarrow> bytes \<Rightarrow> bytes" where
  "tx_mic n i dst src a llc =
     (if encrypt a = TKIP
      then michael (txmickey (tx_stas n ! i)) (dst @ src @ [if pkt_qos_en a then of_nat (pkt_priority a) else 0, 0, 0, 0] @ llc)
      else [])"

text \<open>The frame before sealing, and what sealing it in the buffer means.\<close>

definition station_plain :: "tx_net \<Rightarrow> nat \<Rightarrow> bytes \<Rightarrow> bytes \<Rightarrow> u16 \<Rightarrow> bytes \<Rightarrow> tx_attrib \<Rightarrow> bytes \<Rightarrow> bytes" where
  "station_plain n i dst src ty data a room =
     station_hdr (qos_on n) (encrypt a \<noteq> NO_PRIVACY) (pkt_priority a)
       ((txseq_tid (tx_stas n ! i) ! pkt_priority a + 1) AND 0xfff) (tx_bssid n) src dst
     @ tx_frame_iv False a (txpn (tx_stas n ! i)) @ tx_llc ty data @ tx_mic n i dst src a (tx_llc ty data) @ room"

definition sealed_frame :: "tx_net \<Rightarrow> nat \<Rightarrow> tx_attrib \<Rightarrow> nat \<Rightarrow> bytes \<Rightarrow> bytes \<Rightarrow> bool" where
  "sealed_frame n i a k p f \<longleftrightarrow>
     (let key = dot118021x_UncstKey (sta_buf (tx_stapriv n) ! i) in
      encrypt a = NO_PRIVACY \<and> f = p
      \<or> (encrypt a = WEP40 \<or> encrypt a = WEP104) \<and> wep_encrypt_frag (security_priv.truncate (tx_sec n)) (hdrlen a) 4 k p = Some f
      \<or> encrypt a = TKIP \<and> tkip_encrypt_frag key (pkt_ta a) (hdrlen a) 8 k p = Some f
      \<or> encrypt a = AES \<and> aes_cipher key (hdrlen a) p k = Some f)"

lemma buf_get_written:
  assumes "off + m \<le> length b" "length body = l" "off + m + l \<le> length b"
  shows "buf_get off (m + l) (buf_put (off + m) body b) = buf_get off m b @ body"
  using assms buf_get_append [of off m "buf_put (off + m) body b" l] by (simp add: buf_simps)

lemma buf_get_head: "off + length h \<le> length b \<Longrightarrow> m \<le> length h \<Longrightarrow> buf_get off m (buf_put off h b) = take m h"
  by (simp add: buf_get_def buf_put_def)

lemma tx_frame_iv_cong:
  "tx_frame_iv bmcst (a\<lparr>seqnum := s, pkt_ampdu_en := x\<rparr>) pn = tx_frame_iv bmcst a pn"
  by (simp add: tx_frame_iv_def tx_iv_def Let_def split_beta)

lemma vcs_info_spec: "\<exists>v. update_attrib_vcs_info n a = a\<lparr>vcs_mode := v\<rparr>"
proof (cases "case psta a of Some i \<Rightarrow> Some i | None \<Rightarrow> rtw_get_stainfo (tx_stapriv n) (pkt_ra a)")
  case None
  then show ?thesis by (intro exI [of _ "vcs_mode a"]) (simp add: update_attrib_vcs_info_def)
next
  case (Some i)
  show ?thesis
  proof (cases "tx_linked n i")
    case True
    show ?thesis unfolding update_attrib_vcs_info_def Some option.case Let_def using True by (simp only: simp_thms if_False) blast
  next
    case False
    then show ?thesis using Some by (intro exI [of _ "vcs_mode a"]) (simp add: update_attrib_vcs_info_def)
  qed
qed

lemma length_tx_llc [len_simps]: "length (tx_llc ty data) = 8 + length data"
  by (simp add: tx_llc_def len_simps)

lemma length_tx_mic [len_simps]: "length (tx_mic n i dst src a llc) = (if encrypt a = TKIP then 8 else 0)"
  by (simp add: tx_mic_def length_michael)

lemma coalesce_plain:
  assumes st: "is_station (tx_fw_state n)" and a: "station_attrib n i dst src ty (length data) a" and lk: "tx_linked n i"
    and i: "i < length (tx_stas n)"
    and len: "length (tx_bssid n) = 6" "length src = 6" "length dst = 6" "\<not> is_multicast_ether_addr (tx_bssid n)"
    and icv: "length (pkt_icv a) = 8"
    and fits: "hdrlen a + iv_len a + 8 + length data + icv_len a + 4 \<le> frag_thr n"
    and buf: "104 + iv_len a + 8 + length data + 8 + icv_len a \<le> length b" "base mod 4 = 0"
    and sw: "bswenc a \<longleftrightarrow> encrypt a \<noteq> NO_PRIVACY"
    and key: "encrypt a = TKIP \<Longrightarrow> 8 \<le> length (txmickey (tx_stas n ! i)) \<and> txmickey (tx_stas n ! i) \<noteq> replicate 16 0"
  shows "\<exists>n1 sq x iv room b2.
      rtw_xmitframe_coalesce n (eth_packet dst src ty data) base a b =
        (let p = station_plain n i dst src ty data a room;
             a2 = a\<lparr>seqnum := sq, pkt_ampdu_en := x, pkt_iv := iv, nr_frags := 1, last_txcmdsz := length p\<rparr> in
         map_option (\<lambda>b. (n1, Some (update_attrib_vcs_info n1 a2, b))) (xmitframe_swencrypt n1 base a2 b2))
      \<and> length room = icv_len a \<and> length b2 = length b
      \<and> buf_get 40 (length (station_plain n i dst src ty data a room)) b2 = station_plain n i dst src ty data a room
      \<and> tx_sec n1 = tx_sec n \<and> tx_stapriv n1 = tx_stapriv n \<and> frag_thr n1 = frag_thr n"
proof -
  let ?pkt = "eth_packet dst src ty data" and ?s = "tx_stas n ! i"
  note f = a [unfolded station_attrib_def]
  define sq where "sq = (txseq_tid ?s ! pkt_priority a + 1) AND 0xfff"
  define H where "H = station_hdr (qos_on n) (encrypt a \<noteq> NO_PRIVACY) (pkt_priority a) sq (tx_bssid n) src dst"
  obtain bas x h where mk: "rtw_make_wlanhdr n a = Some (upd_tx_sta i (\<lambda>s. ?s\<lparr>txseq_tid := (txseq_tid ?s)[pkt_priority a := sq],
        BA_starting_seqctrl := bas\<rparr>) n, a\<lparr>seqnum := sq, pkt_ampdu_en := x\<rparr>, h)" "length h = 64" "take (hdrlen a) h = H"
    using make_wlanhdr_station [OF st a lk len(1-3) sq_def] unfolding H_def by blast
  define s1 where "s1 = ?s\<lparr>txseq_tid := (txseq_tid ?s)[pkt_priority a := sq], BA_starting_seqctrl := bas\<rparr>"
  define n0 where "n0 = upd_tx_sta i (\<lambda>s. s1) n"
  define a1 where "a1 = a\<lparr>seqnum := sq, pkt_ampdu_en := x\<rparr>"
  define pn where "pn = txpn ?s"
  have sta: "tx_stas n0 ! i = s1" using i by (simp add: n0_def upd_tx_sta_def)
  have n0: "tx_sec n0 = tx_sec n" "tx_stapriv n0 = tx_stapriv n" "frag_thr n0 = frag_thr n" by (simp_all add: n0_def upd_tx_sta_def)
  have mc: "\<not> is_multicast_ether_addr (pkt_ra a)" using f len(4) by simp
  have hl: "hdrlen a \<le> 26" "24 \<le> hdrlen a" using f by auto
  have il: "(iv_len a, icv_len a) = cipher_lens (encrypt a)" using f by blast
  have isp: "icv_space a = icv_len a" using sw il by (auto simp: icv_space_def cipher_lens_def)
  define b0 where "b0 = buf_put 40 h b"
  have lb0: "length b0 = length b" using buf mk(2) by (simp add: b0_def len_simps)
  have put0: "put TXDESC_OFFSET h b = Some b0" using buf mk(2) by (simp add: b0_def put_ok TXDESC_OFFSET_def)
  have hd0: "buf_get 40 (hdrlen a) b0 = H" using buf mk(2,3) hl by (simp add: b0_def buf_get_head)
  have lH: "length H = hdrlen a" using len f by (auto simp: H_def len_simps)
  have hn: "b0 ! 40 = H ! 0" "b0 ! 41 = H ! 1"
    using nth_buf_get [of 0 "hdrlen a" 40 b0] nth_buf_get [of 1 "hdrlen a" 40 b0] hl lb0 buf by (simp_all add: hd0)
  have nofrag: "\<not> bit (get_le16 (b0 ! 40) (b0 ! 41)) 10"
    unfolding hn H_def station_hdr_nth by (simp add: get_le16_def)
  define iv0 where "iv0 = tx_frame_iv False a pn"
  have liv: "length iv0 = iv_len a" using length_tx_frame_iv [OF il] by (simp add: iv0_def)
  define body where "body = tx_frame_iv False a1 pn @ rtw_put_snap ty @ data @ take (icv_space a1) (pkt_icv a1)"
  have a1: "encrypt a1 = encrypt a" "hdrlen a1 = hdrlen a" "iv_len a1 = iv_len a" "icv_len a1 = icv_len a" "bswenc a1 = bswenc a"
    "ether_type a1 = ty" "pkt_icv a1 = pkt_icv a" "icv_space a1 = icv_space a" "psta a1 = Some i" "pkt_ra a1 = pkt_ra a"
    "pkt_qos_en a1 = pkt_qos_en a" "pkt_priority a1 = pkt_priority a" "pkt_hdrlen a1 = 14"
    using f by (simp_all add: a1_def icv_space_def)
  have il1: "(iv_len a1, icv_len a1) = cipher_lens (encrypt a1)" using il by (simp add: a1)
  obtain iv pn' where ft: "frag_turns (frag_thr n) base False ?pkt 0 40 14 a1 pn b0 =
      Some (a1\<lparr>pkt_iv := iv, nr_frags := 1,
          last_txcmdsz := hdrlen a1 + iv_len a1 + 8 + (if bswenc a1 then icv_len a1 else 0) + length data\<rparr>, pn',
        buf_put (40 + hdrlen a1) body b0)"
    using frag_single [OF refl len(3,2) a1(6) il1 _ _ _ _ nofrag body_def, of "frag_thr n" base] icv fits buf hl isp lb0
    unfolding a1 by auto
  define room0 where "room0 = take (icv_len a) (pkt_icv a)"
  have body: "body = iv0 @ tx_llc ty data @ room0"
  proof -
    have "tx_frame_iv False a1 pn = iv0" by (simp add: iv0_def a1_def tx_frame_iv_cong)
    then show ?thesis by (simp add: body_def a1(7,8) isp room0_def tx_llc_def)
  qed
  have lroom: "length room0 = icv_len a" using il icv by (auto simp: room0_def cipher_lens_def split: if_splits)
  have lbody: "length body = iv_len a + 8 + length data + icv_len a" by (simp add: body liv lroom len_simps)
  define b1 where "b1 = buf_put (40 + hdrlen a) body b0"
  have lb1: "length b1 = length b" using buf lbody lb0 hl by (simp add: b1_def len_simps)
  define sz where "sz = hdrlen a + iv_len a + 8 + icv_len a + length data"
  have air1: "buf_get 40 sz b1 = H @ body"
    using buf_get_written [of 40 "hdrlen a" b0 body "length body"] buf lbody hl lb0 by (simp add: sz_def b1_def hd0 add_ac)
  have icvsz: "(if bswenc a then icv_len a else 0) = icv_len a" using sw il by (auto simp: cipher_lens_def)
  define a2 where "a2 = a1\<lparr>pkt_iv := iv, nr_frags := 1, last_txcmdsz := sz\<rparr>"
  have ft': "frag_turns (frag_thr n0) base False ?pkt 0 TXDESC_OFFSET (min (pkt_hdrlen a1) (length ?pkt)) a1 (txpn (tx_stas n0 ! i)) b0
      = Some (a2, pn', b1)"
  proof -
    have "min (pkt_hdrlen a1) (length ?pkt) = 14" using a1(13) len by (simp add: eth_packet_def be16_def)
    moreover have "txpn (tx_stas n0 ! i) = pn" by (simp add: sta s1_def pn_def)
    moreover have "hdrlen a1 + iv_len a1 + 8 + (if bswenc a1 then icv_len a1 else 0) + length data = sz"
      unfolding a1 icvsz sz_def by simp
    ultimately show ?thesis using ft unfolding n0 TXDESC_OFFSET_def a2_def b1_def a1(2) by simp
  qed
  define n1 where "n1 = upd_tx_sta i (txpn_update (\<lambda>_. pn')) n0"
  have n1: "tx_sec n1 = tx_sec n" "tx_stapriv n1 = tx_stapriv n" "frag_thr n1 = frag_thr n"
    "txmickey (tx_stas n1 ! i) = txmickey ?s" "tx_linked n1 i" "tx_linked n i"
    using n0 i lk by (simp_all add: n1_def upd_tx_sta_def n0_def s1_def tx_linked_def)
  have plain: "station_plain n i dst src ty data a room = H @ iv0 @ tx_llc ty data @ tx_mic n i dst src a (tx_llc ty data) @ room" for room
    by (simp add: station_plain_def H_def sq_def iv0_def pn_def)
  have am: "\<exists>room b2. xmitframe_addmic n1 base a2 b1 = Some (Some (a2\<lparr>last_txcmdsz := length (station_plain n i dst src ty data a room)\<rparr>, b2))
      \<and> length room = icv_len a \<and> length b2 = length b
      \<and> buf_get 40 (length (station_plain n i dst src ty data a room)) b2 = station_plain n i dst src ty data a room"
  proof (cases "encrypt a = TKIP")
    case False
    then have mic: "tx_mic n i dst src a (tx_llc ty data) = []" by (simp add: tx_mic_def)
    have pl: "H @ body = station_plain n i dst src ty data a room0" unfolding plain mic by (simp add: body)
    have "length (H @ body) = sz" using lH lbody by (simp add: sz_def)
    moreover have "xmitframe_addmic n1 base a2 b1 = Some (Some (a2, b1))"
      using False n1 a1 by (intro addmic_none) (simp_all add: a2_def)
    ultimately show ?thesis
      using air1 lroom lb1 unfolding pl
      by (intro exI [of _ room0] exI [of _ b1]) (simp add: a2_def)
  next
    case True
    define k where "k = 8 + length data"
    define m where "m = hdrlen a + 8 + k"
    have il8: "iv_len a = 8" "icv_len a = 4" using il True by (simp_all add: cipher_lens_def)
    have inner: "buf_get (40 + o2) l b1 = buf_get o2 l (H @ body)" if "o2 + l \<le> sz" for o2 l
      unfolding air1 [symmetric] using that by (simp add: buf_get_def drop_take min_absorb1 add.commute)
    have d: "tx_llc ty data = buf_get (40 + hdrlen a + 8) k b1"
      using inner [of "hdrlen a + 8" k] lH liv il8 by (simp add: k_def sz_def body buf_get_def len_simps add.assoc)
    have "take 24 (buf_get 40 30 b1) = take 24 H"
      using inner [of 0 24] lH hl by (simp add: buf_get_def sz_def min_absorb1)
    then have adr: "frame_DA (buf_get 40 30 b1) = dst" "frame_SA (buf_get 40 30 b1) = src"
      using station_hdr_addr [OF len(1-3), of "buf_get 40 30 b1"] unfolding H_def by blast+
    define mic where "mic = tx_mic n i dst src a (tx_llc ty data)"
    have lm: "length mic = 8" using True by (simp add: mic_def len_simps)
    define b2 where "b2 = buf_put (40 + m) mic b1"
    define room where "room = buf_get (40 + m + 8) 4 b2"
    have lb2: "length b2 = length b" using buf hl lb1 lm il8 by (simp add: b2_def m_def k_def len_simps)
    have room: "length room = 4" using buf hl lb2 il8 by (simp add: room_def m_def k_def len_simps)
    have mc1: "\<not> is_multicast_ether_addr (pkt_ra a2)" using mc a1 by (simp add: a2_def)
    have key1: "txmickey (tx_stas n1 ! i) \<noteq> replicate 16 0" "8 \<le> length (txmickey (tx_stas n1 ! i))" using key [OF True] n1 by simp_all
    have "xmitframe_addmic n1 base a2 b1 = Some (Some (a2\<lparr>last_txcmdsz := last_txcmdsz a2 + 8\<rparr>, buf_put (40 + hdrlen a2 + 8 + k)
       (michael (txmickey (tx_stas n1 ! i)) (frame_DA (buf_get 40 30 b1) @ frame_SA (buf_get 40 30 b1)
          @ [if pkt_qos_en a2 then of_nat (pkt_priority a2) else 0, 0, 0, 0] @ tx_llc ty data)) b1))"
      using True sw buf(1) hl lb1 a1 n1(5) il8 d
      by (intro addmic_single [OF _ _ _ _ _ mc1 n1(5) refl key1 _ buf(2) _ _ refl])
         (simp_all add: a2_def sz_def k_def cipher_lens_def)
    then have am: "xmitframe_addmic n1 base a2 b1 = Some (Some (a2\<lparr>last_txcmdsz := sz + 8\<rparr>, b2))"
      unfolding adr n1(4) using True a1 by (simp add: a2_def b2_def m_def mic_def tx_mic_def add.assoc)
    have "buf_get 40 m b1 = H @ iv0 @ tx_llc ty data"
      using inner [of 0 m] lH liv il8 by (simp add: m_def k_def sz_def body buf_get_def len_simps)
    then have "buf_get 40 (m + 8) b2 = H @ iv0 @ tx_llc ty data @ mic"
      using buf_get_written [of 40 m b1 mic 8] buf hl lb1 lm il8 by (simp add: b2_def m_def k_def)
    then have "buf_get 40 (m + 8 + 4) b2 = station_plain n i dst src ty data a room"
      using buf_get_append [of 40 "m + 8" b2 4] by (simp add: plain mic_def room_def add.assoc)
    moreover have "length (station_plain n i dst src ty data a room) = sz + 8" "m + 8 + 4 = sz + 8"
      using lH liv lm room il8 by (simp_all add: plain mic_def [symmetric] len_simps sz_def m_def k_def)
    ultimately show ?thesis using am room lb2 il8 by (intro exI [of _ room] exI [of _ b2]) simp
  qed
  then obtain room b2 where am: "xmitframe_addmic n1 base a2 b1 = Some (Some (a2\<lparr>last_txcmdsz := length (station_plain n i dst src ty data a room)\<rparr>, b2))"
      "length room = icv_len a" "length b2 = length b"
      "buf_get 40 (length (station_plain n i dst src ty data a room)) b2 = station_plain n i dst src ty data a room" by blast
  have "rtw_xmitframe_coalesce n ?pkt base a b =
      map_option (\<lambda>b. (n1, Some (update_attrib_vcs_info n1 (a2\<lparr>last_txcmdsz := length (station_plain n i dst src ty data a room)\<rparr>), b)))
        (xmitframe_swencrypt n1 base (a2\<lparr>last_txcmdsz := length (station_plain n i dst src ty data a room)\<rparr>) b2)"
    using f mc lk mk(1) put0 ft' am(1)
    unfolding rtw_xmitframe_coalesce_def s1_def [symmetric] n0_def [symmetric] a1_def [symmetric] Let_def
    by (simp add: n1_def [symmetric] map_conv_bind_option comp_def)
  then show ?thesis
    using am(2-4) n1 unfolding a2_def a1_def Let_def
    by (intro exI [of _ n1] exI [of _ sq] exI [of _ x] exI [of _ iv] exI [of _ room] exI [of _ b2]) simp
qed

lemma station_hdr_ccmp:
  assumes "take 2 p = take 2 (station_hdr qos enc prio sq bssid src dst)" "hl = (if qos then 26 else 24)"
  shows "ccmp_header_ok hl p"
proof -
  have "p ! 0 = station_hdr qos enc prio sq bssid src dst ! 0" "p ! 1 = station_hdr qos enc prio sq bssid src dst ! 1"
    using arg_cong [OF assms(1), of "\<lambda>l. l ! 0"] arg_cong [OF assms(1), of "\<lambda>l. l ! 1"] by simp_all
  then show ?thesis
    unfolding station_hdr_nth using assms(2)
    by (cases qos; cases enc)
       (simp_all add: ccmp_header_ok_def ccmp_hdrlen_def ccmp_qc_def GetFrameType_def GetFrameSubType_def Let_def get_le16_def
         WIFI_DATA_CFACK_def WIFI_DATA_CFPOLL_def WIFI_DATA_CFACKPOLL_def WLAN_HDR_A3_QOS_LEN_def)
qed

lemma length_station_plain:
  assumes "station_attrib n i dst src ty (length data) a" "length (tx_bssid n) = 6" "length src = 6" "length dst = 6"
    and "length room = icv_len a"
  shows "length (station_plain n i dst src ty data a room)
    = hdrlen a + iv_len a + (8 + length data + (if encrypt a = TKIP then 8 else 0)) + icv_len a"
proof -
  have "(iv_len a, icv_len a) = cipher_lens (encrypt a)" "hdrlen a = (if qos_on n then 26 else 24)"
    using assms(1) by (simp_all add: station_attrib_def)
  then show ?thesis
    using assms(2-) length_tx_frame_iv [of a False "txpn (tx_stas n ! i)"] by (simp add: station_plain_def len_simps)
qed

text \<open>The keys a station needs for the cipher of its packet.\<close>

definition tx_keys_ok :: "tx_net \<Rightarrow> nat \<Rightarrow> tx_attrib \<Rightarrow> nat \<Rightarrow> bool" where
  "tx_keys_ok n i a sz \<longleftrightarrow>
     (case encrypt a of
        NO_PRIVACY \<Rightarrow> True
      | TKIP \<Rightarrow> 8 \<le> length (txmickey (tx_stas n ! i)) \<and> txmickey (tx_stas n ! i) \<noteq> replicate 16 0
      | AES \<Rightarrow> sz \<le> MAX_MSG_SIZE
      | e \<Rightarrow> (e = WEP40 \<or> e = WEP104) \<and> dot11PrivacyKeyIndex (tx_sec n) < 4
             \<and> dot11DefKeylen (tx_sec n) ! dot11PrivacyKeyIndex (tx_sec n) \<le> 13)"

lemma coalesce_station:
  assumes st: "is_station (tx_fw_state n)" and a: "station_attrib n i dst src ty (length data) a" and lk: "tx_linked n i"
    and i: "i < length (tx_stas n)"
    and len: "length (tx_bssid n) = 6" "length src = 6" "length dst = 6" "\<not> is_multicast_ether_addr (tx_bssid n)"
    and icv: "length (pkt_icv a) = 8"
    and fits: "hdrlen a + iv_len a + 8 + length data + icv_len a + 4 \<le> frag_thr n"
    and buf: "104 + iv_len a + 8 + length data + 8 + icv_len a \<le> length b" "base mod 4 = 0"
    and sw: "bswenc a \<longleftrightarrow> encrypt a \<noteq> NO_PRIVACY"
    and k: "k = 8 + length data + (if encrypt a = TKIP then 8 else 0)" and sz: "sz = hdrlen a + iv_len a + k + icv_len a"
    and key: "tx_keys_ok n i a sz"
  shows "\<exists>n' a' b' room f. rtw_xmitframe_coalesce n (eth_packet dst src ty data) base a b = Some (n', Some (a', b'))
     \<and> nr_frags a' = 1 \<and> last_txcmdsz a' = sz \<and> buf_get 40 sz b' = f \<and> length f = sz
     \<and> length room = icv_len a \<and> length (station_plain n i dst src ty data a room) = sz
     \<and> sealed_frame n i a k (station_plain n i dst src ty data a room) f"
proof -
  obtain n1 sq x iv room b2 where co: "rtw_xmitframe_coalesce n (eth_packet dst src ty data) base a b =
        (let p = station_plain n i dst src ty data a room;
             a2 = a\<lparr>seqnum := sq, pkt_ampdu_en := x, pkt_iv := iv, nr_frags := 1, last_txcmdsz := length p\<rparr> in
         map_option (\<lambda>b. (n1, Some (update_attrib_vcs_info n1 a2, b))) (xmitframe_swencrypt n1 base a2 b2))"
    "length room = icv_len a" "length b2 = length b"
    "buf_get 40 (length (station_plain n i dst src ty data a room)) b2 = station_plain n i dst src ty data a room"
    "tx_sec n1 = tx_sec n" "tx_stapriv n1 = tx_stapriv n" "frag_thr n1 = frag_thr n"
    using coalesce_plain [OF st a lk i len icv fits buf sw] key by (force simp: tx_keys_ok_def)
  define p where "p = station_plain n i dst src ty data a room"
  define a2 where "a2 = a\<lparr>seqnum := sq, pkt_ampdu_en := x, pkt_iv := iv, nr_frags := 1, last_txcmdsz := sz\<rparr>"
  have lp: "length p = sz" using length_station_plain [OF a len(1-3) co(2)] by (simp add: p_def sz k)
  note f = a [unfolded station_attrib_def]
  have il: "(iv_len a, icv_len a) = cipher_lens (encrypt a)" using f by blast
  have a2: "bswenc a2 = bswenc a" "encrypt a2 = encrypt a" "nr_frags a2 = 1" "iv_len a2 = iv_len a" "icv_len a2 = icv_len a"
    "last_txcmdsz a2 = sz" "hdrlen a2 = hdrlen a" "pkt_ta a2 = pkt_ta a" "psta a2 = Some i" "pkt_ra a2 = pkt_ra a"
    using f by (simp_all add: a2_def)
  have hl: "hdrlen a \<le> 26" "24 \<le> hdrlen a" using f by auto
  have room40: "40 + sz \<le> length b2" using buf hl co(3) by (simp add: sz k)
  have p: "buf_get 40 sz b2 = p" using co(4) lp by (simp add: p_def)
  have xk: "xmit_key (security_priv.truncate (tx_sec n1)) (tx_stapriv n1) (pkt_attrib.truncate a2)
      = Some (Inr (dot118021x_UncstKey (sta_buf (tx_stapriv n) ! i)))"
    using f lk len(4) by (simp add: xmit_key_def a2 co tx_linked_def Let_def)
  have "\<exists>f. xmitframe_swencrypt n1 base a2 b2 = Some (buf_put 40 f b2) \<and> length f = sz \<and> sealed_frame n i a k p f"
  proof -
    consider (NO) "encrypt a = NO_PRIVACY" | (WEP) "encrypt a = WEP40 \<or> encrypt a = WEP104" | (TKIP) "encrypt a = TKIP"
      | (AES) "encrypt a = AES"
      using key by (cases "encrypt a") (auto simp: tx_keys_ok_def)
    then show ?thesis
    proof cases
      case NO
      have "buf_put 40 p b2 = b2" using buf_put_get_same [OF room40] by (simp add: p)
      with NO sw a2 lp show ?thesis by (intro exI [of _ p]) (simp add: xmitframe_swencrypt_def sealed_frame_def)
    next
      case WEP
      then have il4: "iv_len a = 4" "icv_len a = 4" using il by (auto simp: cipher_lens_def)
      have "\<exists>key. wep_rc4key (security_priv.truncate (tx_sec n1)) (dot11PrivacyKeyIndex (tx_sec n1)) (hdrlen a2) (drop 40 b2) = Some key"
        using WEP key room40 hl by (auto simp: wep_rc4key_def tx_keys_ok_def security_priv.truncate_def co sz k a2)
      then obtain rk where rk: "wep_rc4key (security_priv.truncate (tx_sec n1)) (dot11PrivacyKeyIndex (tx_sec n1)) (hdrlen a2)
          (drop 40 b2) = Some rk" ..
      obtain g where g: "xmitframe_swencrypt n1 base a2 b2 = Some (buf_put 40 g b2)"
        "wep_encrypt_frag (security_priv.truncate (tx_sec n1)) (hdrlen a2) 4 k (buf_get 40 (last_txcmdsz a2) b2) = Some g"
        using swencrypt_wep [OF _ _ _ _ _ _ _ rk, of k base] WEP sw il4 room40 by (auto simp: a2 sz)
      have "length g = sz"
        using g(2) lp rc4_seal_frame(1) by (auto simp: wep_encrypt_frag_def a2 p split: option.splits)
      with g WEP show ?thesis by (intro exI [of _ g]) (simp add: sealed_frame_def a2 p co)
    next
      case TKIP
      then have il8: "iv_len a = 8" "icv_len a = 4" using il by (auto simp: cipher_lens_def)
      obtain g where g: "xmitframe_swencrypt n1 base a2 b2 = Some (buf_put 40 g b2)"
        "tkip_encrypt_frag (dot118021x_UncstKey (sta_buf (tx_stapriv n) ! i)) (pkt_ta a2) (hdrlen a2) 8 k
           (buf_get 40 (last_txcmdsz a2) b2) = Some g"
        using swencrypt_tkip [OF _ _ _ _ _ _ _ xk, of k b2 base] TKIP sw il8 room40 by (auto simp: a2 sz)
      have "length g = sz"
        using g(2) lp rc4_seal_frame(1) by (auto simp: tkip_encrypt_frag_def a2 p split: if_splits)
      with g TKIP show ?thesis by (intro exI [of _ g]) (simp add: sealed_frame_def a2 p co)
    next
      case AES
      then have il8: "iv_len a = 8" "icv_len a = 8" using il by (auto simp: cipher_lens_def)
      have mx: "sz \<le> MAX_MSG_SIZE" using key AES by (simp add: tx_keys_ok_def)
      have "take 2 p = take 2 (station_hdr (qos_on n) True (pkt_priority a) ((txseq_tid (tx_stas n ! i) ! pkt_priority a + 1) AND 0xfff)
          (tx_bssid n) src dst)"
        using AES by (simp add: p_def station_plain_def station_hdr_def)
      then have ok: "ccmp_header_ok (hdrlen a) p" by (rule station_hdr_ccmp) (use f in simp)
      then have ok': "ccmp_header_ok (hdrlen a2) (buf_get 40 (last_txcmdsz a2) b2)" by (simp only: a2 p)
      obtain g where g: "xmitframe_swencrypt n1 base a2 b2 = Some (buf_put 40 g b2)"
        "aes_cipher (dot118021x_UncstKey (sta_buf (tx_stapriv n) ! i)) (hdrlen a2) (buf_get 40 (last_txcmdsz a2) b2) k = Some g"
        using swencrypt_aes [OF _ _ _ _ _ _ _ _ xk ok', of k base] AES sw il8 room40 mx by (auto simp: a2 sz)
      have g': "aes_cipher (dot118021x_UncstKey (sta_buf (tx_stapriv n) ! i)) (hdrlen a) p k = Some g" using g(2) by (simp only: a2 p)
      then have "length g = sz"
        using aes_air [OF _ ok, of k "replicate MAX_MSG_SIZE 0" "dot118021x_UncstKey (sta_buf (tx_stapriv n) ! i)"]
          lp mx il8 by (auto simp: sz)
      with g(1) g' AES show ?thesis by (intro exI [of _ g]) (simp add: sealed_frame_def)
    qed
  qed
  then obtain g where g: "xmitframe_swencrypt n1 base a2 b2 = Some (buf_put 40 g b2)" "length g = sz" "sealed_frame n i a k p g" by blast
  obtain v where v: "update_attrib_vcs_info n1 a2 = a2\<lparr>vcs_mode := v\<rparr>" using vcs_info_spec by blast
  have "rtw_xmitframe_coalesce n (eth_packet dst src ty data) base a b = Some (n1, Some (a2\<lparr>vcs_mode := v\<rparr>, buf_put 40 g b2))"
    using co(1) g(1) v lp unfolding p_def [symmetric] Let_def by (simp add: a2_def)
  moreover have "buf_get 40 sz (buf_put 40 g b2) = g" using g(2) room40 by (simp add: buf_simps)
  ultimately show ?thesis
    using g(2,3) lp co(2) unfolding p_def
    by (intro exI [of _ n1] exI [of _ "a2\<lparr>vcs_mode := v\<rparr>"] exI [of _ "buf_put 40 g b2"] exI [of _ room] exI [of _ g]) (simp add: a2_def)
qed

end
