(* ===== verification/TxRx.thy ===== *)
theory TxRx
  imports TxStation RxFilter
begin

text \<open>
  A packet from the network stack of a station to the network stack of its access point: what
  \<open>TxStation\<close> sends is what \<open>RxValid\<close> and \<open>RxPath\<close> accept, decrypt and convert back.
\<close>

section \<open>The header at the receiver\<close>

definition station_fc :: "bool \<Rightarrow> bool \<Rightarrow> u16" where
  "station_fc qos enc = (if qos then (if enc then 0x4188 else 0x0188) else (if enc then 0x4108 else 0x0108))"

lemma station_fc_bits:
  "bit (station_fc qos enc) 8" "\<not> bit (station_fc qos enc) 9" "\<not> bit (station_fc qos enc) 10" "\<not> bit (station_fc qos enc) 6"
  "bit (station_fc qos enc) 14 = enc" "\<not> bit (station_fc qos enc) 15" "bit (station_fc qos enc) 7 = qos"
  "\<not> bit (station_fc qos enc) 12" "\<not> bit (station_fc qos enc) 13"
  by (simp_all add: station_fc_def)

lemma station_hdr_reads:
  assumes len: "length bssid = 6" "length src = 6" "length dst = 6" "prio < 8"
    and p: "take hl p = station_hdr qos enc prio sq bssid src dst" "hl = (if qos then 26 else 24)" "26 \<le> length p"
  shows "frame_ctl p = station_fc qos enc" "rd p 0 = Some (if qos then 0x88 else 0x08)" "rd p 1 = Some (if enc then 0x41 else 0x01)"
    "rds p 4 6 = Some bssid" "rds p 10 6 = Some src" "rds p 16 6 = Some dst"
    "rd_le16 p 22 = Some (unat (0xfff0 AND push_bit 4 sq :: u16))"
    "qos \<Longrightarrow> rd p 24 = Some (of_nat prio)" "rd p 25 = Some (p ! 25)"
proof -
  let ?H = "station_hdr qos enc prio sq bssid src dst"
  have lH: "length ?H = hl" using len p(2) by (simp add: len_simps)
  have n: "p ! x = ?H ! x" if "x < hl" for x using that arg_cong [OF p(1), of "\<lambda>l. l ! x"] by simp
  have g: "buf_get x k p = buf_get x k ?H" if "x + k \<le> hl" for x k
    using that arg_cong [OF p(1), of "buf_get x k"] by (simp add: buf_get_take)
  have hl: "24 \<le> hl" using p(2) by simp
  have h01: "p ! 0 = (if qos then 0x88 else 0x08)" "p ! 1 = (if enc then 0x41 else 0x01)"
    using n [of 0] n [of 1] hl unfolding station_hdr_nth by simp_all
  then show "frame_ctl p = station_fc qos enc"
    unfolding frame_ctl_def h01 by (cases qos; cases enc) (simp_all add: station_fc_def get_le16_def)
  show "rd p 0 = Some (if qos then 0x88 else 0x08)" "rd p 1 = Some (if enc then 0x41 else 0x01)"
    using h01 p(3) by (auto simp: rd_def)
  show "rds p 4 6 = Some bssid" "rds p 10 6 = Some src" "rds p 16 6 = Some dst"
    using g [of 4 6] g [of 10 6] g [of 16 6] hl p(3) len
    by (simp_all add: rds_def) (simp_all add: station_hdr_def buf_get_def put_le16_def)
  have "p ! 22 = ucast (0xfff0 AND push_bit 4 sq :: u16)" "p ! 23 = ucast (drop_bit 8 (0xfff0 AND push_bit 4 sq :: u16))"
    using n [of 22] n [of 23] hl len by (simp_all add: station_hdr_def nth_append put_le16_def)
  then show "rd_le16 p 22 = Some (unat (0xfff0 AND push_bit 4 sq :: u16))"
    using unat_bytes [of "0xfff0 AND push_bit 4 sq"] p(3) by (simp add: rd_le16_def rd_def)
  show "qos \<Longrightarrow> rd p 24 = Some (of_nat prio)"
    using n [of 24] p len by (simp add: rd_def station_hdr_def nth_append put_le16_def)
  show "rd p 25 = Some (p ! 25)" using p(3) by (simp add: rd_def)
qed

lemma station_frame_types:
  assumes "frame_ctl p = station_fc qos enc"
  shows "get_tofr_ds p = 2" "GetFrameType p = 8" "GetFrameSubType p = (if qos then 0x88 else 0x08)"
proof -
  show "get_tofr_ds p = 2" using assms station_fc_bits [of qos enc] by (simp add: get_tofr_ds_def)
  show "GetFrameType p = 8" "GetFrameSubType p = (if qos then 0x88 else 0x08)"
    using assms unfolding GetFrameType_def GetFrameSubType_def frame_ctl_def
    by (cases qos; cases enc; simp add: station_fc_def)+
qed

section \<open>Validation at the access point\<close>

text \<open>What the attributes of the frame are then.\<close>

definition ap_attrib :: "nat \<Rightarrow> privacy \<Rightarrow> nat \<Rightarrow> bytes \<Rightarrow> bytes \<Rightarrow> bytes \<Rightarrow> rx_check_attrib \<Rightarrow> rx_check_attrib \<Rightarrow> bool" where
  "ap_attrib hl e prio bssid src dst a0 a \<longleftrightarrow>
     rx_hdrlen a = hl \<and> rx_encrypt a = e \<and> rx_dst a = dst \<and> rx_src a = src \<and> rx_ra a = bssid \<and> rx_ta a = src
     \<and> rx_priority a = of_nat prio \<and> rx_mfrag a = 0 \<and> rx_frag_num a = 0 \<and> rx_amsdu a = 0
     \<and> rx_bdecrypted a = rx_bdecrypted a0 \<and> rx_privacy a = (if e = NO_PRIVACY then 0 else 1)
     \<and> (rx_iv_len a, rx_icv_len a) = (if e = NO_PRIVACY then (0, 0) else SET_ICE_IV_LEN e)"

text \<open>The part of the access point that hears a station in slot \<open>j\<close>.\<close>

definition ap_hears :: "rx_net \<Rightarrow> nat \<Rightarrow> bytes \<Rightarrow> bytes \<Rightarrow> privacy \<Rightarrow> bool" where
  "ap_hears m j bssid src e \<longleftrightarrow>
     check_fwstate (fw_state m) WIFI_AP_STATE \<and> \<not> check_fwstate (fw_state m) WIFI_STATION_STATE
     \<and> cur_bssid m = bssid \<and> rtw_get_stainfo (stas_of m) src = Some j
     \<and> (e \<noteq> NO_PRIVACY \<longrightarrow> (\<forall>old. GET_ENCRY_ALGO (dot11AuthAlgrthm (securitypriv (path m))) (sec_privacy m) (sec_grp_privacy m)
          (sta_privacy m ! j) False old = e))"

lemma drop_push_bits: "push_bit k (drop_bit k (push_bit k u AND w)) = push_bit k u AND (w :: u16)"
  by (rule bit_word_eqI) (auto simp: bit_simps)

lemma low_bits_clear: "ucast (push_bit k u AND w :: u16) AND (mask k :: u8) = 0"
  by (rule bit_word_eqI) (auto simp: bit_simps)

lemma seq_ctrl_station: "push_bit 4 (drop_bit 4 (0xfff0 AND w :: u16)) = 0xfff0 AND w"
  using drop_push_bits [of 4 "0xfff" w] by simp

lemma frag_station: "of_nat (unat (0xfff0 AND w :: u16)) AND 0xf = (0 :: u8)"
  using low_bits_clear [of 4 "0xfff" w] by (simp add: mask_eq_exp_minus_1)

lemma rx_fields_station:
  assumes "frame_ctl p = station_fc qos enc" "rd_le16 p 22 = Some (unat (0xfff0 AND w :: u16))"
  shows "rx_fields p a = Some (a\<lparr>to_fr_ds := 2, rx_frag_num := 0, rx_seq_num := drop_bit 4 (0xfff0 AND w), rx_pw_save := False,
      rx_mfrag := 0, rx_mdata := False, rx_privacy := of_bool enc, rx_order := False\<rparr>)"
  using station_frame_types(1) [OF assms(1)] assms(2) frag_station [of w] station_fc_bits [of qos enc]
  by (simp add: rx_fields_def assms(1))

lemma rx_direction_station:
  assumes reads: "frame_ctl p = station_fc qos enc" "rds p 4 6 = Some bssid" "rds p 10 6 = Some src" "rds p 16 6 = Some dst"
    and ap: "ap_hears m j bssid src e" and a: "to_fr_ds a = 2"
  shows "\<exists>cs. rx_direction p m a = Some (RxSuccess, Some j, m\<lparr>calls := cs\<rparr>,
     a\<lparr>rx_dst := dst, rx_src := src, rx_bssid := bssid, rx_ra := bssid, rx_ta := src\<rparr>)"
proof -
  let ?a = "a\<lparr>rx_dst := dst, rx_src := src, rx_bssid := bssid, rx_ra := bssid, rx_ta := src\<rparr>"
  have g: "get_da p = Some dst" "get_sa p = Some src" "get_hdr_bssid p = Some bssid"
    using reads station_frame_types(1) [OF reads(1)] by (simp_all add: get_da_def get_sa_def get_hdr_bssid_def)
  have "\<exists>cs. sta2ap_data_frame p m ?a = Some (RxSuccess, Some j, m\<lparr>calls := cs\<rparr>, ?a)"
    using ap reads(1) station_fc_bits [of qos enc]
    by (auto simp: sta2ap_data_frame_def ap_hears_def call_def Let_def)
  then show ?thesis using a g by (simp add: rx_direction_def Let_def)
qed

lemma rx_qc_station:
  assumes "rx_order a = False" "to_fr_ds a = 2" "prio < 8" "qos \<or> prio = 0" "rx_qos a = (if qos then 1 else 0)"
    and "qos \<Longrightarrow> rd p 24 = Some (of_nat prio)" "rd p 25 \<noteq> None"
  shows "\<exists>x. rx_qc p m a = Some (m\<lparr>bIsAnyNonBEPkts := x\<rparr>,
     a\<lparr>rx_amsdu := 0, rx_ack_policy := 0, rx_priority := of_nat prio, rx_hdrlen := (if qos then 26 else 24)\<rparr>)"
proof -
  have same: "m = m\<lparr>bIsAnyNonBEPkts := bIsAnyNonBEPkts m\<rparr>" by simp
  show ?thesis
  proof (cases qos)
    case True
    have q: "(of_nat prio :: u8) AND 0xf = of_nat prio" "drop_bit 5 (of_nat prio :: u8) = 0" "drop_bit 7 (of_nat prio :: u8) = 0"
      using nat_below8 [OF assms(3)] by (elim disjE; simp)+
    show ?thesis
      using assms True q
      by (intro exI [of _ "of_nat prio \<noteq> (0 :: u8) \<and> of_nat prio \<noteq> (3 :: u8) \<or> bIsAnyNonBEPkts m"])
         (auto simp: rx_qc_def Let_def)
  next
    case False
    then show ?thesis using assms by (intro exI [of _ "bIsAnyNonBEPkts m"]) (simp add: rx_qc_def Let_def)
  qed
qed

lemma ap_validate:
  assumes len: "length bssid = 6" "length src = 6" "length dst = 6" "prio < 8" "qos \<or> prio = 0"
    and p: "take hl p = station_hdr qos (e \<noteq> NO_PRIVACY) prio sq bssid src dst" "hl = (if qos then 26 else 24)" "26 \<le> length p"
    and g: "p = drop (rx_data_off g) (rx_mem g)"
    and ap: "ap_hears m j bssid src e"
    and mc: "\<not> is_multicast_ether_addr bssid"
    and new: "rxcache m ! j ! prio \<noteq> 0xfff0 AND push_bit 4 sq"
  shows "\<exists>m' a. validate_recv_frame m g a0 = Some (RxSuccess, Some (j, prio), m', a) \<and> path m' = path m \<and> fw_state m' = fw_state m
     \<and> uc_swdec_pending_queue m' = uc_swdec_pending_queue m \<and> rx_pkts m' = rx_pkts m \<and> ap_attrib hl e prio bssid src dst a0 a"
proof -
  let ?enc = "e \<noteq> NO_PRIVACY"
  define w where "w = (0xfff0 AND push_bit 4 sq :: u16)"
  note r = station_hdr_reads [OF len(1-4) p]
  note ft = station_frame_types [OF r(1)]
  define a1 where "a1 = a0\<lparr>to_fr_ds := 2, rx_frag_num := 0, rx_seq_num := drop_bit 4 w, rx_pw_save := False,
      rx_mfrag := 0, rx_mdata := False, rx_privacy := of_bool ?enc, rx_order := False, rx_qos := (if qos then 1 else 0)\<rparr>"
  define a2 where "a2 = a1\<lparr>rx_dst := dst, rx_src := src, rx_bssid := bssid, rx_ra := bssid, rx_ta := src\<rparr>"
  define a3 where "a3 = a2\<lparr>rx_amsdu := 0, rx_ack_policy := 0, rx_priority := of_nat prio, rx_hdrlen := hl\<rparr>"
  have f: "rx_fields p a0 = Some (a0\<lparr>to_fr_ds := 2, rx_frag_num := 0, rx_seq_num := drop_bit 4 w, rx_pw_save := False,
      rx_mfrag := 0, rx_mdata := False, rx_privacy := of_bool ?enc, rx_order := False\<rparr>)"
    using rx_fields_station [OF r(1,7)] by (simp add: w_def)
  obtain cs where d: "rx_direction p m a1 = Some (RxSuccess, Some j, m\<lparr>calls := cs\<rparr>, a2)"
    using rx_direction_station [OF r(1,4-6) ap, of a1] by (auto simp: a1_def a2_def)
  obtain x where q: "rx_qc p (m\<lparr>calls := cs\<rparr>) a2 = Some (m\<lparr>calls := cs, bIsAnyNonBEPkts := x\<rparr>, a3)"
    using rx_qc_station [OF _ _ len(4,5), of a2 p "m\<lparr>calls := cs\<rparr>"] r(8,9) p(2) by (auto simp: a2_def a1_def a3_def)
  have tid: "unat (rx_priority (rx_full_attrib.truncate a3)) = prio"
    using len(4) by (simp add: rx_full_attrib.truncate_def a3_def unat_of_nat)
  have sc: "seq_ctrl (rx_full_attrib.truncate a3) = w"
    using seq_ctrl_station [of "push_bit 4 sq"] by (simp add: seq_ctrl_def rx_full_attrib.truncate_def a3_def a2_def a1_def w_def)
  have dec: "recv_decache (rx_full_attrib.truncate a3) (rxcache m ! j) = (RTW_SUCCESS, (rxcache m ! j)[prio := w])"
    using new len(4) by (simp add: recv_decache_def tid sc w_def)
  have tid': "unat (rx_priority a3) = prio" using tid by (simp add: rx_full_attrib.truncate_def)
  define m3 where "m3 = m\<lparr>calls := cs, bIsAnyNonBEPkts := x, rxcache := (rxcache m)[j := (rxcache m ! j)[prio := w]]\<rparr>"
  define a4 where "a4 = rx_security j m3 a3"
  have v: "validate_recv_data_frame p m a1 = Some (RxSuccess, Some (j, prio), m3, a4)"
    by (simp add: validate_recv_data_frame_def d q dec Let_def m3_def a4_def tid')
  have "ap_attrib hl e prio bssid src dst a0 a4"
  proof (cases "e = NO_PRIVACY")
    case True
    then show ?thesis by (simp add: a4_def rx_security_def a3_def a2_def a1_def ap_attrib_def)
  next
    case False
    have "GET_ENCRY_ALGO (dot11AuthAlgrthm (securitypriv (path m3))) (sec_privacy m3) (sec_grp_privacy m3) (sta_privacy m3 ! j)
        (is_multicast_ether_addr (rx_ra a3)) old = e" for old
      using ap False mc by (simp add: ap_hears_def m3_def a3_def a2_def)
    then show ?thesis
      using False by (simp add: a4_def rx_security_def Let_def split_beta a3_def a2_def a1_def ap_attrib_def)
  qed
  moreover have "validate_recv_frame m g a0 = Some (RxSuccess, Some (j, prio), m3, a4)"
    using v f r(2,3) ft(2) r(1) station_fc_bits [of qos ?enc]
    by (simp add: validate_recv_frame_def g [symmetric] Let_def a1_def WIFI_DATA_TYPE_def)
  ultimately show ?thesis by (intro exI [of _ m3] exI [of _ a4]) (simp add: m3_def)
qed

section \<open>Decryption at the access point\<close>

lemma frame_data_with_data:
  assumes "wf_frame g" "length q = fr_len g"
  shows "frame_data (with_data g q) = q" "wf_frame (with_data g q)"
  using assms by (auto simp: wf_frame_def frame_data_def with_data_def buf_simps len_simps)

lemma with_data_fields [simp]:
  "fr_attrib (with_data g q) = fr_attrib g" "fr_id (with_data g q) = fr_id g" "fr_len (with_data g q) = fr_len g"
  "rx_data_off (with_data g q) = rx_data_off g"
  by (simp_all add: with_data_def)

lemma cipher_view_fields:
  "rx_data (cipher_view g) = frame_data g" "rx_hdrlen (rx_attrib (cipher_view g)) = rx_hdrlen (fr_attrib g)"
  "rx_iv_len (rx_attrib (cipher_view g)) = rx_iv_len (fr_attrib g)" "rx_encrypt (rx_attrib (cipher_view g)) = rx_encrypt (fr_attrib g)"
  "rx_ta (rx_attrib (cipher_view g)) = rx_ta (fr_attrib g)" "rx_ra (rx_attrib (cipher_view g)) = rx_ra (fr_attrib g)"
  "rx_key_index (rx_attrib (cipher_view g)) = rx_key_index (fr_attrib g)"
  by (simp_all add: cipher_view_def rx_pkt_attrib.truncate_def)

text \<open>What a receiver in software needs for a sealed frame.\<close>

definition rx_keys_agree :: "tx_net \<Rightarrow> nat \<Rightarrow> tx_attrib \<Rightarrow> rx_path \<Rightarrow> nat \<Rightarrow> bool" where
  "rx_keys_agree n i a p j \<longleftrightarrow>
     (let same = (dot118021x_UncstKey (sta_buf (stapriv p) ! j) = dot118021x_UncstKey (sta_buf (tx_stapriv n) ! i));
          k = dot11PrivacyKeyIndex (tx_sec n) in
      case encrypt a of
        NO_PRIVACY \<Rightarrow> True
      | TKIP \<Rightarrow> same \<and> dot11tkiprxmickey (stations p ! j) = txmickey (tx_stas n ! i) \<and> (pkt_qos_en a \<or> pkt_priority a = 0)
      | AES \<Rightarrow> same \<and> length (aes_message p) = MAX_MSG_SIZE
      | _ \<Rightarrow> key_idx a = of_nat k \<and> dot11DefKey (securitypriv p) ! k = dot11DefKey (tx_sec n) ! k
             \<and> dot11DefKeylen (securitypriv p) ! k = dot11DefKeylen (tx_sec n) ! k)"

text \<open>The changes that decryption makes to the receiver.\<close>

definition decrypted_path :: "rx_path \<Rightarrow> rx_path \<Rightarrow> bool" where
  "decrypted_path p p' \<longleftrightarrow> (\<exists>x msg. p' = p\<lparr>securitypriv := (securitypriv p)\<lparr>hw_decrypted := x\<rparr>, aes_message := msg\<rparr>)"

lemma decrypted_path_refl: "decrypted_path p p"
  unfolding decrypted_path_def by (intro exI [of _ "hw_decrypted (securitypriv p)"] exI [of _ "aes_message p"]) simp

definition key_indexed :: "recv_frame_hdr \<Rightarrow> nat \<Rightarrow> recv_frame_hdr" where
  "key_indexed g ki = g\<lparr>fr_attrib := (fr_attrib g)\<lparr>rx_key_index := ki\<rparr>\<rparr>"

lemma key_indexed_fields:
  "frame_data (key_indexed g ki) = frame_data g" "wf_frame (key_indexed g ki) = wf_frame g" "fr_len (key_indexed g ki) = fr_len g"
  "rx_key_index (fr_attrib (key_indexed g ki)) = ki" "rx_hdrlen (fr_attrib (key_indexed g ki)) = rx_hdrlen (fr_attrib g)"
  "rx_iv_len (fr_attrib (key_indexed g ki)) = rx_iv_len (fr_attrib g)" "rx_encrypt (fr_attrib (key_indexed g ki)) = rx_encrypt (fr_attrib g)"
  "rx_ta (fr_attrib (key_indexed g ki)) = rx_ta (fr_attrib g)" "rx_ra (fr_attrib (key_indexed g ki)) = rx_ra (fr_attrib g)"
  "fr_id (key_indexed g ki) = fr_id g"
  by (simp_all add: key_indexed_def frame_data_def wf_frame_def)

lemma two_bits: "unat ((x :: u8) AND 3) < 4"
proof -
  have "x AND 3 = take_bit 2 x" by (simp add: take_bit_eq_mask mask_eq_exp_minus_1)
  then show ?thesis using take_bit_nat_less_exp [of 2 "unat x"] by (simp add: unsigned_take_bit_eq)
qed

lemma decryptor_wep:
  assumes g: "wf_frame g" "rx_hdrlen (fr_attrib g) + 3 < fr_len g" "rx_bdecrypted (fr_attrib g) = 0"
    and e: "rx_encrypt (fr_attrib g) = WEP40 \<or> rx_encrypt (fr_attrib g) = WEP104" "rx_iv_len (fr_attrib g) = 4"
    and k: "k = unat (drop_bit 6 (frame_data g ! (rx_hdrlen (fr_attrib g) + 3)) AND 3)"
    and d: "wep_decrypt_frag (security_priv.truncate (securitypriv p)) k (rx_hdrlen (fr_attrib g)) 4 (frame_data g) = Some (q, ok)"
  shows "decryptor p g = Some (p\<lparr>securitypriv := (securitypriv p)\<lparr>hw_decrypted := False\<rparr>\<rparr>, Some (with_data (key_indexed g k) q))"
proof -
  have "k < 4" unfolding k by (rule two_bits)
  then have k4: "\<not> WEP_KEYS < k" by (simp add: WEP_KEYS_def)
  show ?thesis
    using g e d k4 frame_data_length [OF g(1)]
    by (auto simp: decryptor_def Let_def k [symmetric] key_indexed_def [symmetric] rtw_wep_decrypt_def cipher_view_fields key_indexed_fields)
qed

lemma decryptor_tkip:
  assumes g: "wf_frame g" "rx_hdrlen (fr_attrib g) + 3 < fr_len g" "rx_bdecrypted (fr_attrib g) = 0"
    and e: "rx_encrypt (fr_attrib g) = TKIP" "rx_iv_len (fr_attrib g) = 8" "\<not> is_multicast_ether_addr (rx_ra (fr_attrib g))"
    and k: "k = unat (drop_bit 6 (frame_data g ! (rx_hdrlen (fr_attrib g) + 3)) AND 3)"
    and j: "rtw_get_stainfo (stapriv p) (rx_ta (fr_attrib g)) = Some j"
    and d: "tkip_decrypt_frag (dot118021x_UncstKey (sta_buf (stapriv p) ! j)) (rx_ta (fr_attrib g)) (rx_hdrlen (fr_attrib g)) 8 (frame_data g)
      = Some (q, True)"
  shows "decryptor p g = Some (p\<lparr>securitypriv := (securitypriv p)\<lparr>hw_decrypted := False\<rparr>\<rparr>, Some (with_data (key_indexed g k) q))"
proof -
  have "k < 4" unfolding k by (rule two_bits)
  then have k4: "\<not> WEP_KEYS < k" by (simp add: WEP_KEYS_def)
  have same: "p\<lparr>securitypriv := s, aes_message := aes_message p\<rparr> = p\<lparr>securitypriv := s\<rparr>" for s by simp
  show ?thesis
    using g e d k4 j frame_data_length [OF g(1)]
    by (simp add: decryptor_def Let_def k [symmetric] key_indexed_def [symmetric] rtw_tkip_decrypt_def tkip_recv_key_def cipher_view_fields
        key_indexed_fields same)
qed

lemma decryptor_aes:
  assumes g: "wf_frame g" "rx_hdrlen (fr_attrib g) + 8 \<le> fr_len g" "rx_bdecrypted (fr_attrib g) = 0"
    and e: "rx_encrypt (fr_attrib g) = AES" "rx_iv_len (fr_attrib g) = 8" "\<not> is_multicast_ether_addr (rx_ra (fr_attrib g))"
    and k: "k = unat (drop_bit 6 (frame_data g ! (rx_hdrlen (fr_attrib g) + 3)) AND 3)"
    and j: "rtw_get_stainfo (stapriv p) (rx_ta (fr_attrib g)) = Some j"
    and d: "aes_decipher (dot118021x_UncstKey (sta_buf (stapriv p) ! j)) (rx_hdrlen (fr_attrib g)) (frame_data g)
      (fr_len g - rx_hdrlen (fr_attrib g) - 8) (aes_message p) = Some (RTW_SUCCESS, q, m')"
  shows "decryptor p g = Some (p\<lparr>securitypriv := (securitypriv p)\<lparr>hw_decrypted := False\<rparr>, aes_message := m'\<rparr>,
     Some (with_data (key_indexed g k) q))"
proof -
  have "k < 4" unfolding k by (rule two_bits)
  then have k4: "\<not> WEP_KEYS < k" by (simp add: WEP_KEYS_def)
  show ?thesis
    using g e d k4 j frame_data_length [OF g(1)]
    by (simp add: decryptor_def Let_def k [symmetric] key_indexed_def [symmetric] rtw_aes_decrypt_def aes_recv_key_def cipher_view_fields
        key_indexed_fields)
qed

text \<open>All ciphers at once: a frame whose header and IV are plain, as sealing leaves them.\<close>

lemma ap_decrypts:
  assumes sealed: "sealed_frame n i a k P f" and keys: "tx_keys_ok n i a sz" "rx_keys_agree n i a p j"
    and lens: "(iv_len a, icv_len a) = cipher_lens (encrypt a)" "length P = hdrlen a + iv_len a + k + icv_len a" "sz = length P"
      "24 \<le> hdrlen a" "4 \<le> k"
    and iv: "buf_get (hdrlen a) (iv_len a) P = tx_frame_iv False a pn" and ok: "encrypt a = AES \<Longrightarrow> ccmp_header_ok (hdrlen a) P"
    and g: "wf_frame g" "frame_data g = f" "A = fr_attrib g" "rx_bdecrypted A = 0"
    and A: "rx_hdrlen A = hdrlen a" "rx_encrypt A = encrypt a" "rx_ta A = pkt_ta a" "\<not> is_multicast_ether_addr (rx_ra A)"
      "rx_iv_len A = iv_len a"
    and j: "rtw_get_stainfo (stapriv p) (pkt_ta a) = Some j"
  shows "\<exists>p' g' ki. decryptor p g = Some (p', Some g') \<and> decrypted_path p p' \<and> wf_frame g' \<and> fr_len g' = length P
     \<and> plain_but_icv (icv_len a) P (frame_data g') \<and> fr_attrib g' = A\<lparr>rx_key_index := ki\<rparr> \<and> fr_id g' = fr_id g"
proof -
  note G = A [unfolded g(3)] g(4) [unfolded g(3)]
  have lg: "length f = fr_len g" using frame_data_length [OF g(1)] g(2) by simp
  have dp: "decrypted_path p (p\<lparr>securitypriv := (securitypriv p)\<lparr>hw_decrypted := False\<rparr>\<rparr>)"
    unfolding decrypted_path_def by (intro exI [of _ False] exI [of _ "aes_message p"]) simp
  have fin: "?thesis" if "decryptor p g = Some (p', Some (with_data (key_indexed g ki) q))" "decrypted_path p p'" "length f = length P"
    "plain_but_icv (icv_len a) P q" for p' ki q
  proof -
    have l: "length q = fr_len (key_indexed g ki)" "wf_frame (key_indexed g ki)"
      using that(3,4) lg g(1) by (simp_all add: plain_but_icv_def key_indexed_fields)
    have "frame_data (with_data (key_indexed g ki) q) = q" "wf_frame (with_data (key_indexed g ki) q)"
      using frame_data_with_data [OF l(2,1)] by simp_all
    then show ?thesis
      using that l lg g
      by (intro exI [of _ p'] exI [of _ "with_data (key_indexed g ki) q"] exI [of _ ki])
        (simp add: key_indexed_fields, simp add: key_indexed_def)
  qed
  consider (NO) "encrypt a = NO_PRIVACY" | (WEP) "encrypt a = WEP40 \<or> encrypt a = WEP104" | (TKIP) "encrypt a = TKIP"
    | (AES) "encrypt a = AES" using sealed by (auto simp: sealed_frame_def Let_def)
  then show ?thesis
  proof cases
    case NO
    have same: "A\<lparr>rx_key_index := rx_key_index A\<rparr> = A" by simp
    have fP: "f = P" using sealed NO by (simp add: sealed_frame_def Let_def)
    have "decryptor p g = Some (p, Some g)" using NO A(2) by (simp add: decryptor_def Let_def g(3) [symmetric])
    then show ?thesis
      using decrypted_path_refl g lg same by (intro exI [of _ p] exI [of _ g] exI [of _ "rx_key_index A"]) (simp add: fP plain_but_icv_def)
  next
    case WEP
    let ?sec = "security_priv.truncate (tx_sec n)" and ?k = "dot11PrivacyKeyIndex (tx_sec n)"
    have il: "iv_len a = 4" "icv_len a = 4" using lens(1) WEP by (auto simp: cipher_lens_def)
    have wk: "?k < 4" "dot11DefKeylen (tx_sec n) ! ?k \<le> 13" "key_idx a = of_nat ?k"
      "dot11DefKey (securitypriv p) ! ?k = dot11DefKey (tx_sec n) ! ?k" "dot11DefKeylen (securitypriv p) ! ?k = dot11DefKeylen (tx_sec n) ! ?k"
      using WEP keys by (auto simp: tx_keys_ok_def rx_keys_agree_def Let_def)
    obtain rk where rk: "wep_rc4key ?sec (dot11PrivacyKeyIndex ?sec) (hdrlen a) P = Some rk"
      "wep_rc4key (security_priv.truncate (securitypriv p)) ?k (hdrlen a) P = Some rk"
      using wk lens(2) il by (simp add: wep_rc4key_def security_priv.truncate_def)
    have lP: "length P = k + (4 + hdrlen a + 4)" using lens(2) il by simp
    obtain f' q where air: "wep_encrypt_frag ?sec (hdrlen a) 4 k P = Some f'" "length f' = length P"
      "take (4 + hdrlen a) f' = take (4 + hdrlen a) P"
      "wep_decrypt_frag (security_priv.truncate (securitypriv p)) ?k (hdrlen a) 4 f' = Some (q, True)" "plain_but_icv 4 P q"
      using wep_air [OF rk lP] by blast
    have f': "f' = f" using sealed WEP air(1) by (auto simp: sealed_frame_def Let_def)
    have "f ! (hdrlen a + 3) = P ! (hdrlen a + 3)"
      using arg_cong [OF air(3), of "\<lambda>l. l ! (hdrlen a + 3)"] unfolding f' by simp
    also have "\<dots> = tx_frame_iv False a pn ! 3"
      using nth_buf_get [of 3 "iv_len a" "hdrlen a" P] lP il iv by simp
    also have "\<dots> = push_bit 6 (of_nat ?k AND 3)"
      using WEP il wk(3) by (auto simp: tx_frame_iv_def tx_iv_def WEP_IV_def Let_def)
    finally have b: "f ! (hdrlen a + 3) = push_bit 6 (of_nat ?k AND 3)" .
    have "?k = 0 \<or> ?k = 1 \<or> ?k = 2 \<or> ?k = 3" using wk(1) by linarith
    then have ki: "?k = unat (drop_bit 6 (frame_data g ! (rx_hdrlen (fr_attrib g) + 3)) AND 3)"
      unfolding g(2) g(3) [symmetric] A(1) b by (elim disjE) simp_all
    have "decryptor p g = Some (p\<lparr>securitypriv := (securitypriv p)\<lparr>hw_decrypted := False\<rparr>\<rparr>, Some (with_data (key_indexed g ?k) q))"
    proof (rule decryptor_wep [OF g(1) _ _ _ _ ki, where ok = True])
      show "rx_hdrlen (fr_attrib g) + 3 < fr_len g" using G(1) lg lP air(2) f' by simp
      show "wep_decrypt_frag (security_priv.truncate (securitypriv p)) ?k (rx_hdrlen (fr_attrib g)) 4 (frame_data g) = Some (q, True)"
        using air(4) f' g(2) G(1) by simp
    qed (use G WEP il in simp_all)
    from fin [OF this dp] air(2,5) il f' show ?thesis by simp
  next
    case TKIP
    then have il: "iv_len a = 8" "icv_len a = 4" using lens(1) by (auto simp: cipher_lens_def)
    have lP: "length P = k + (8 + hdrlen a + 4)" using lens(2) il by simp
    define key where "key = dot118021x_UncstKey (sta_buf (stapriv p) ! j)"
    have same: "dot118021x_UncstKey (sta_buf (tx_stapriv n) ! i) = key"
      using keys(2) TKIP by (simp add: rx_keys_agree_def Let_def key_def)
    obtain q where air: "length f = length P" "tkip_decrypt_frag key (pkt_ta a) (hdrlen a) 8 f = Some (q, True)" "plain_but_icv 4 P q"
      using tkip_air [OF lP, of key "pkt_ta a"] sealed TKIP by (auto simp: sealed_frame_def Let_def same)
    have "decryptor p g = Some (p\<lparr>securitypriv := (securitypriv p)\<lparr>hw_decrypted := False\<rparr>\<rparr>,
        Some (with_data (key_indexed g (unat (drop_bit 6 (frame_data g ! (rx_hdrlen (fr_attrib g) + 3)) AND 3))) q))"
      using TKIP il lg lP air j g(2) by (intro decryptor_tkip [OF g(1) _ _ _ _ _ refl, where j = j]) (simp_all add: key_def G)
    from fin [OF this dp] air(1,3) il show ?thesis by simp
  next
    case AES
    then have il: "iv_len a = 8" "icv_len a = 8" using lens(1) by (auto simp: cipher_lens_def)
    have lP: "length P = hdrlen a + 8 + k + 8" using lens(2) il by simp
    define key where "key = dot118021x_UncstKey (sta_buf (stapriv p) ! j)"
    have same: "dot118021x_UncstKey (sta_buf (tx_stapriv n) ! i) = key" and msg: "length (aes_message p) = MAX_MSG_SIZE"
      and mx: "length P \<le> MAX_MSG_SIZE"
      using keys AES lens(3) by (simp_all add: rx_keys_agree_def tx_keys_ok_def Let_def key_def)
    obtain q m' where air: "length f = length P" "aes_decipher key (hdrlen a) f (k + 8) (aes_message p) = Some (RTW_SUCCESS, q, m')"
      "plain_but_icv 8 P q"
      using aes_air [OF lP ok [OF AES] mx msg, of key] sealed AES by (auto simp: sealed_frame_def Let_def same)
    have k8: "fr_len g - (hdrlen a + 8) = k + 8" using lg lP air(1) by simp
    have "decryptor p g = Some (p\<lparr>securitypriv := (securitypriv p)\<lparr>hw_decrypted := False\<rparr>, aes_message := m'\<rparr>,
        Some (with_data (key_indexed g (unat (drop_bit 6 (frame_data g ! (rx_hdrlen (fr_attrib g) + 3)) AND 3))) q))"
      using AES il lg lP air(1,3) air(2) [folded k8] j g(2) by (intro decryptor_aes [OF g(1) _ _ _ _ _ refl, where j = j]) (simp_all add: key_def G)
    moreover have "decrypted_path p (p\<lparr>securitypriv := (securitypriv p)\<lparr>hw_decrypted := False\<rparr>, aes_message := m'\<rparr>)"
      unfolding decrypted_path_def by blast
    ultimately show ?thesis by (rule fin) (use air(1,3) il in simp_all)
  qed
qed

section \<open>Delivery\<close>

lemma be16_inj: "be16 v = be16 w \<longleftrightarrow> v = w"
  by (metis get_be16_be16)

lemma snap_strip_tx: "snap_strip (tx_llc ty data)"
proof (cases "ty = 0x8137 \<or> ty = 0x80f3")
  case True
  then show ?thesis
    by (simp add: snap_strip_def tx_llc_def rtw_put_snap_def rtw_bridge_tunnel_header_def SNAP_SIZE_def)
next
  case False
  then have "be16 ty \<noteq> be16 0x8137" "be16 ty \<noteq> be16 0x80f3" by (simp_all only: be16_inj) simp_all
  moreover have "be16 0x8137 = SNAP_ETH_TYPE_IPX" "be16 0x80f3 = SNAP_ETH_TYPE_APPLETALK_AARP"
    by (simp_all add: be16_def SNAP_ETH_TYPE_IPX_def SNAP_ETH_TYPE_APPLETALK_AARP_def)
  moreover have "buf_get 6 2 (tx_llc ty data) = be16 ty"
    using False by (simp add: tx_llc_def rtw_put_snap_def rtw_rfc1042_header_def buf_get_def be16_def)
  ultimately show ?thesis
    using False by (simp add: snap_strip_def tx_llc_def rtw_put_snap_def rtw_rfc1042_header_def SNAP_SIZE_def)
qed

lemma eth_frame_tx: "eth_frame dst src (tx_llc ty data) = eth_packet dst src ty data"
proof -
  have "drop 6 (tx_llc ty data) = be16 ty @ data"
    by (simp add: tx_llc_def rtw_put_snap_def rtw_rfc1042_header_def rtw_bridge_tunnel_header_def)
  then show ?thesis by (simp add: eth_frame_def snap_strip_tx SNAP_SIZE_def eth_packet_def)
qed

text \<open>The Michael check accepts what the sender appended, and cuts it off.\<close>

lemma chkmic_station:
  assumes e: "rx_encrypt (fr_attrib g) = TKIP" "rx_iv_len (fr_attrib g) = 8" "rx_icv_len (fr_attrib g) = 4"
      "\<not> is_multicast_ether_addr (rx_ra (fr_attrib g))" "rx_priority (fr_attrib g) = of_nat prio"
    and j: "rtw_get_stainfo (stapriv p) (rx_ta (fr_attrib g)) = Some j" "dot11tkiprxmickey (stations p ! j) = key" "8 \<le> length key"
    and H: "H = station_hdr qos enc prio sq bssid src dst" "rx_hdrlen (fr_attrib g) = length H" "length bssid = 6" "length src = 6" "length dst = 6"
    and d: "take (fr_len g - 4) (frame_data g) = H @ iv @ llc @ mic" "length iv = 8" "length mic = 8"
      "fr_len g = length H + 8 + length llc + 8 + 4" "wf_frame g"
    and mic: "mic = michael key (dst @ src @ [of_nat prio, 0, 0, 0] @ llc)"
  shows "recvframe_chkmic p g = Some (RTW_SUCCESS, p, snd (recvframe_pull_tail g 8))"
proof -
  let ?D = "frame_data g" and ?h = "length H + 8"
  have lH: "24 \<le> length H" using H by (simp add: len_simps)
  have inner: "buf_get x l ?D = buf_get x l (H @ iv @ llc @ mic)" if "x + l \<le> fr_len g - 4" for x l
    unfolding d(1) [symmetric] using that by (simp add: buf_get_take)
  have g1: "buf_get ?h (length llc) ?D = llc" using inner [of ?h "length llc"] d by (simp add: buf_get_def)
  have g2: "buf_get (?h + length llc) 8 ?D = mic" using inner [of "?h + length llc" 8] d by (simp add: buf_get_def)
  have "take 24 ?D = take 24 (take (fr_len g - 4) ?D)" using lH d(4) by (simp add: min_absorb1)
  also have "\<dots> = take 24 H" unfolding d(1) using lH by simp
  finally have adr: "frame_DA ?D = dst" "frame_SA ?D = src"
    using station_hdr_addr [OF H(3-5), of ?D] unfolding H(1) by blast+
  have "rtw_seccalctkipmic key ?D llc (of_nat prio) = mic"
    using calctkipmic_michael [OF j(3), of ?D llc "of_nat prio"] by (simp add: adr mic)
  then show ?thesis
    using e j H(2) d(4) g1 g2 by (simp add: recvframe_chkmic_def Let_def add.assoc)
qed

lemma pull_tail_spec:
  assumes "wf_frame g" "n \<le> fr_len g"
  shows "fr_len (snd (recvframe_pull_tail g n)) = fr_len g - n" "wf_frame (snd (recvframe_pull_tail g n))"
    "frame_data (snd (recvframe_pull_tail g n)) = take (fr_len g - n) (frame_data g)"
  using assms wf_pull_tail frame_data_pull_tail [OF assms]
  by (auto simp: recvframe_pull_tail_def wf_frame_def)

text \<open>The rest of the receive path, for an open port and without a reordering window.\<close>

definition ap_forwards :: "nat option \<Rightarrow> rx_path \<Rightarrow> bool" where
  "ap_forwards found p \<longleftrightarrow> \<not> ht_option p \<and> \<not> mp_state (adapter p) \<and> \<not> bDriverStopped (adapter p) \<and> \<not> bSurpriseRemoved (adapter p)
     \<and> (case found of None \<Rightarrow> True | Some i \<Rightarrow> \<not> ieee8021x_blocked (stations p ! i))"

lemma ap_delivers:
  assumes dec: "decryptor p g0 = Some (p1, Some g)" and p1: "decrypted_path p p1" and fw: "ap_forwards found p"
    and A: "A = fr_attrib g" "rx_mfrag A = 0" "rx_frag_num A = 0" "\<not> is_multicast_ether_addr (rx_ra A)" "rx_priority A = of_nat prio"
      "rx_dst A = dst" "rx_src A = src" "rx_privacy A = (if rx_encrypt A = NO_PRIVACY then 0 else 1)"
      "rx_iv_len A = length iv" "rx_encrypt A = NO_PRIVACY \<longrightarrow> rx_icv_len A = 0" "rx_encrypt A = TKIP \<longrightarrow> length iv = 8 \<and> rx_icv_len A = 4"
    and j: "rtw_get_stainfo (stapriv p) (rx_ta A) = Some j" "rx_encrypt A = TKIP \<longrightarrow> 8 \<le> length (dot11tkiprxmickey (stations p ! j))"
    and H: "H = station_hdr qos enc prio sq bssid src dst" "rx_hdrlen A = length H" "length bssid = 6" "length src = 6" "length dst = 6"
    and d: "take (fr_len g - rx_icv_len A) (frame_data g) = H @ iv @ tx_llc ty data @ mic" "wf_frame g"
      "fr_len g = length H + length iv + length (tx_llc ty data) + length mic + rx_icv_len A"
    and mic: "mic = (if rx_encrypt A = TKIP then michael (dot11tkiprxmickey (stations p ! j)) (dst @ src @ [of_nat prio, 0, 0, 0] @ tx_llc ty data)
       else [])"
  shows "\<exists>p' gg. recv_func_posthandle found ctrl p g0 = Some (RTW_SUCCESS, p') \<and> given p' = given p @ [Indicated gg]
     \<and> frame_data gg = eth_packet dst src ty data"
proof -
  obtain x msg where P1: "p1 = p\<lparr>securitypriv := (securitypriv p)\<lparr>hw_decrypted := x\<rparr>, aes_message := msg\<rparr>"
    using p1 by (auto simp: decrypted_path_def)
  have same: "stapriv p1 = stapriv p" "stations p1 = stations p" "adapter p1 = adapter p" "ht_option p1 = ht_option p" "given p1 = given p"
    by (simp_all add: P1)
  define llc where "llc = tx_llc ty data"
  have lH: "24 \<le> length H" using H by (simp add: len_simps)
  have ll: "8 \<le> length llc" by (simp add: llc_def len_simps)
  define g2 where "g2 = (if rx_encrypt A = TKIP then snd (recvframe_pull_tail g 8) else g)"
  have lm: "length mic = (if rx_encrypt A = TKIP then 8 else 0)" by (simp add: mic length_michael)
  have q: "chk_defrag_queue p1 g = Some (p1, Some g)"
    using A(2,3) j(1) by (simp add: chk_defrag_queue_def Let_def A(1) [symmetric] defrag_sta_def same)
  have cd: "recvframe_chk_defrag p1 g = Some (p1, Some g2)"
  proof (cases "rx_encrypt A = TKIP")
    case True
    have "recvframe_chkmic p1 g = Some (RTW_SUCCESS, p1, snd (recvframe_pull_tail g 8))"
    proof (rule chkmic_station [OF _ _ _ _ _ _ refl _ H(1) _ H(3-5), where iv = iv and llc = llc and mic = mic and j = j])
      show "mic = michael (dot11tkiprxmickey (stations p1 ! j)) (dst @ src @ [of_nat prio, 0, 0, 0] @ llc)"
        using True by (simp add: mic same llc_def)
    qed (use True A(4,5,9,11) j H(2) d lm in \<open>simp_all add: A(1) [symmetric] same llc_def\<close>)
    then show ?thesis using True A(8) by (simp add: recvframe_chk_defrag_def q g2_def A(1) [symmetric])
  next
    case False
    then have "recvframe_chkmic p1 g = Some (RTW_SUCCESS, p1, g)" by (simp add: recvframe_chkmic_def A(1) [symmetric])
    then show ?thesis using False by (simp add: recvframe_chk_defrag_def q g2_def)
  qed
  have g2: "fr_attrib g2 = A \<and> wf_frame g2 \<and> fr_len g2 = length H + length iv + length llc + rx_icv_len A
    \<and> take (fr_len g2 - rx_icv_len A) (frame_data g2) = H @ iv @ llc"
  proof (cases "rx_encrypt A = TKIP")
    case True
    let ?n = "length (H @ iv @ llc)"
    have fl: "fr_len g = ?n + 8 + rx_icv_len A" using d(3) lm True by (simp add: llc_def)
    have pt: "fr_len g2 = ?n + rx_icv_len A" "wf_frame g2" "frame_data g2 = take (?n + rx_icv_len A) (frame_data g)"
      using pull_tail_spec [OF d(2), of 8] True fl by (simp_all add: g2_def add.assoc)
    have "take ?n (frame_data g) = take ?n (take (?n + 8) (frame_data g))" by (simp add: min_absorb1)
    also have "\<dots> = H @ iv @ llc" using d(1) by (simp add: fl llc_def)
    finally show ?thesis using pt True by (simp add: g2_def fr_attrib_moves A(1) min_absorb1)
  next
    case False
    then show ?thesis using d lm by (simp add: g2_def A(1) [symmetric] llc_def)
  qed
  then have g2: "fr_attrib g2 = A" "wf_frame g2" "fr_len g2 = length H + length iv + length llc + rx_icv_len A"
    "take (fr_len g2 - rx_icv_len A) (frame_data g2) = H @ iv @ llc" by blast+
  have pc: "portctrl found p1 g2 = Some (p1, Some g2)"
    using fw by (auto simp: portctrl_def Let_def ap_forwards_def same split: option.splits)
  have icv: "rx_icv_len A = (if rx_encrypt A \<noteq> NO_PRIVACY then rx_icv_len A else 0)" using A(10) by simp
  have lp: "llc_payload g2 = llc"
    using g2(4) H(2) A(9) icv by (simp add: llc_payload_def Let_def g2(1) icv [symmetric])
  obtain gg where gg: "wlanhdr_to_ethhdr False g2 = Some gg" "frame_data gg = eth_frame dst src llc"
    using wlanhdr_to_ethhdr_ok [OF g2(2) g2(1) [symmetric] icv] lH ll H g2(3) A(6,7,9) lp by auto
  have "process_recv_indicatepkts ctrl p1 g2 = Some (RTW_SUCCESS, p1\<lparr>given := given p @ [Indicated gg]\<rparr>)"
    using fw gg(1) by (simp add: process_recv_indicatepkts_def split_beta ap_forwards_def same)
  then have "recv_func_posthandle found ctrl p g0 = Some (RTW_SUCCESS, p1\<lparr>given := given p @ [Indicated gg]\<rparr>)"
    by (simp add: recv_func_posthandle_def dec cd pc)
  with gg(2) show ?thesis by (intro exI [of _ "p1\<lparr>given := given p @ [Indicated gg]\<rparr>"] exI [of _ gg]) (simp add: llc_def eth_frame_tx)
qed

section \<open>From stack to stack\<close>

text \<open>A station linked with its access point in slot \<open>i\<close>, and the size of the frame of a packet.\<close>

definition station_link :: "tx_net \<Rightarrow> nat \<Rightarrow> bool" where
  "station_link n i \<longleftrightarrow> is_station (tx_fw_state n) \<and> tx_linked n i \<and> i < length (tx_stas n) \<and> length (tx_bssid n) = 6
     \<and> \<not> is_multicast_ether_addr (tx_bssid n) \<and> rtw_get_stainfo (tx_stapriv n) (tx_bssid n) = Some i"

definition sealed_size :: "tx_attrib \<Rightarrow> nat \<Rightarrow> nat" where
  "sealed_size a len = hdrlen a + iv_len a + (8 + len + (if encrypt a = TKIP then 8 else 0)) + icv_len a"

lemma cipher_lens_le: "(iv, icv) = cipher_lens e \<Longrightarrow> iv \<le> 8 \<and> icv \<le> 8"
  by (auto simp: cipher_lens_def split: if_splits)

lemma sealed_prefix:
  assumes "sealed_frame n i a k P f" "(iv_len a, icv_len a) = cipher_lens (encrypt a)"
    and "length P = hdrlen a + iv_len a + k + icv_len a" "encrypt a = AES \<Longrightarrow> ccmp_header_ok (hdrlen a) P"
  shows "take (hdrlen a + iv_len a) f = take (hdrlen a + iv_len a) P"
proof -
  consider (NO) "encrypt a = NO_PRIVACY" "f = P"
    | (WEP) "encrypt a = WEP40 \<or> encrypt a = WEP104" "wep_encrypt_frag (security_priv.truncate (tx_sec n)) (hdrlen a) 4 k P = Some f"
    | (TKIP) "encrypt a = TKIP" "tkip_encrypt_frag (dot118021x_UncstKey (sta_buf (tx_stapriv n) ! i)) (pkt_ta a) (hdrlen a) 8 k P = Some f"
    | (AES) "encrypt a = AES" "aes_cipher (dot118021x_UncstKey (sta_buf (tx_stapriv n) ! i)) (hdrlen a) P k = Some f"
    using assms(1) by (auto simp: sealed_frame_def Let_def)
  then show ?thesis
  proof cases
    case WEP
    then have "iv_len a = 4" using assms(2) by (auto simp: cipher_lens_def)
    with WEP(2) rc4_seal_frame(2) [of _ "4 + hdrlen a" k P f] show ?thesis
      by (auto simp: wep_encrypt_frag_def add.commute split: option.splits)
  next
    case TKIP
    then have "iv_len a = 8" using assms(2) by (auto simp: cipher_lens_def)
    with TKIP(2) rc4_seal_frame(2) [of _ "8 + hdrlen a" k P f] show ?thesis
      by (auto simp: tkip_encrypt_frag_def add.commute split: if_splits)
  next
    case AES
    then have "iv_len a = 8" "icv_len a = 8" using assms(2) by (auto simp: cipher_lens_def)
    moreover have "\<exists>s. f = buf_put (hdrlen a + 8) s P"
      using AES(2) aes_cipher_ccm [OF assms(4) [OF AES(1)], of k] assms(3) calculation by auto
    ultimately show ?thesis using assms(3) by (auto simp: buf_simps)
  qed simp
qed

lemma ap_receives:
  assumes link: "station_link n i" and len: "length src = 6" "length dst = 6"
    and a: "station_attrib n i dst src ty (length data) a" and keys: "tx_keys_ok n i a sz"
    and k: "k = 8 + length data + (if encrypt a = TKIP then 8 else 0)" and sz: "sz = hdrlen a + iv_len a + k + icv_len a"
    and Peq: "P = station_plain n i dst src ty data a room" and lP: "length P = sz" and room: "length room = icv_len a"
    and air: "length air = sz" and seal: "sealed_frame n i a k P air"
    and ap: "ap_hears m j (tx_bssid n) src (encrypt a)" "rx_keys_agree n i a (path m) j" "ap_forwards found (path m)"
    and new: "rxcache m ! j ! pkt_priority a \<noteq> 0xfff0 AND push_bit 4 ((txseq_tid (tx_stas n ! i) ! pkt_priority a + 1) AND 0xfff)"
    and g: "wf_frame g" and fd: "frame_data g = air" and ra: "rx_bdecrypted ra = 0"
  shows "\<exists>m' d. recv_func found m g ra = Some (RxSuccess, m') \<and> given (path m') = given (path m) @ [Indicated d]
     \<and> frame_data d = eth_packet dst src ty data"
proof -
  note l = link [unfolded station_link_def]
  note f = a [unfolded station_attrib_def]
  have il: "(iv_len a, icv_len a) = cipher_lens (encrypt a)" using f by blast
  have hl: "hdrlen a \<le> 26" "24 \<le> hdrlen a" using f by auto
  define sq where "sq = (txseq_tid (tx_stas n ! i) ! pkt_priority a + 1) AND 0xfff"
  define pn where "pn = txpn (tx_stas n ! i)"
  define H where "H = station_hdr (qos_on n) (encrypt a \<noteq> NO_PRIVACY) (pkt_priority a) sq (tx_bssid n) src dst"
  define iv where "iv = tx_frame_iv False a pn"
  define mic where "mic = tx_mic n i dst src a (tx_llc ty data)"
  have P: "P = H @ iv @ tx_llc ty data @ mic @ room"
    by (simp add: Peq station_plain_def H_def sq_def iv_def pn_def mic_def)
  have lH: "length H = hdrlen a" using l len f by (auto simp: H_def len_simps)
  have liv: "length iv = iv_len a" by (simp add: iv_def length_tx_frame_iv [OF il])
  have lm: "length mic = (if encrypt a = TKIP then 8 else 0)" by (simp add: mic_def len_simps)
  have lg: "fr_len g = sz" using frame_data_length [OF g] fd by (simp add: air)
  have lP: "length P = hdrlen a + iv_len a + k + icv_len a" "sz = length P" using lP sz by simp_all
  have ok: "ccmp_header_ok (hdrlen a) P" if "encrypt a = AES"
  proof -
    have "take 2 P = take 2 H" using lH hl by (simp add: P)
    then show ?thesis unfolding H_def by (rule station_hdr_ccmp) (use f in simp)
  qed
  have pre: "take (hdrlen a + iv_len a) air = take (hdrlen a + iv_len a) P" by (rule sealed_prefix [OF seal il lP(1) ok])
  define p where "p = drop (rx_data_off g) (rx_mem g)"
  have pair: "take sz p = air" using fd lg by (simp add: p_def frame_data_def buf_get_def)
  have "take (hdrlen a) p = take (hdrlen a) (take (hdrlen a + iv_len a) (take sz p))" using lP by (simp add: min_def)
  also have "\<dots> = H" unfolding pair pre using lH by (simp add: P)
  finally have tp: "take (hdrlen a) p = H" .
  have sz32: "32 \<le> sz" using hl by (simp add: sz k)
  have lp: "26 \<le> length p" using pair air sz32 by (metis length_take min.bounded_iff order_trans numeral_le_iff semiring_norm)
  have hq: "hdrlen a = (if qos_on n then 26 else 24)" using f by blast
  obtain m1 A where v: "validate_recv_frame m g ra = Some (RxSuccess, Some (j, pkt_priority a), m1, A)" "path m1 = path m"
    "fw_state m1 = fw_state m" "ap_attrib (hdrlen a) (encrypt a) (pkt_priority a) (tx_bssid n) src dst ra A"
    using ap_validate [OF _ len _ _ tp [unfolded H_def] hq lp p_def ap(1), of ra] l f new by (auto simp: sq_def)
  define g1 where "g1 = with_attrib A g"
  define A1 where "A1 = rx_full_attrib.truncate A"
  have g1: "wf_frame g1" "frame_data g1 = air" "A1 = fr_attrib g1" using g fd by (simp_all add: g1_def with_attrib_def A1_def wf_frame_def frame_data_def)
  have A1: "rx_hdrlen A1 = hdrlen a" "rx_encrypt A1 = encrypt a" "rx_dst A1 = dst" "rx_src A1 = src" "rx_ra A1 = tx_bssid n"
    "rx_ta A1 = src" "rx_priority A1 = of_nat (pkt_priority a)" "rx_mfrag A1 = 0" "rx_frag_num A1 = 0" "rx_bdecrypted A1 = 0"
    "rx_privacy A1 = (if encrypt a = NO_PRIVACY then 0 else 1)"
    "(rx_iv_len A1, rx_icv_len A1) = (if encrypt a = NO_PRIVACY then (0, 0) else SET_ICE_IV_LEN (encrypt a))"
    using v(4) ra by (simp_all add: ap_attrib_def A1_def rx_full_attrib.truncate_def)
  have enc: "encrypt a \<in> {NO_PRIVACY, WEP40, WEP104, TKIP, AES}" using seal by (auto simp: sealed_frame_def Let_def)
  then have lens: "rx_iv_len A1 = iv_len a" "rx_icv_len A1 = icv_len a"
    using A1(12) il by (auto simp: SET_ICE_IV_LEN_def cipher_lens_def)
  have sta: "rtw_get_stainfo (stapriv (path m)) src = Some j" using ap(1) by (simp add: ap_hears_def)
  have ivP: "buf_get (hdrlen a) (iv_len a) P = tx_frame_iv False a pn" using lH liv by (simp add: P buf_get_def iv_def)
  obtain p' g' ki where dc: "decryptor (path m) g1 = Some (p', Some g')" "decrypted_path (path m) p'" "wf_frame g'" "fr_len g' = length P"
    "plain_but_icv (icv_len a) P (frame_data g')" "fr_attrib g' = A1\<lparr>rx_key_index := ki\<rparr>" "fr_id g' = fr_id g1"
    using ap_decrypts [OF seal keys ap(2) il lP(1,2) hl(2) _ ivP ok g1 A1(10,1,2)] A1 lens f l sta by (auto simp: k)
  define B where "B = A1\<lparr>rx_key_index := ki\<rparr>"
  have B: "B = fr_attrib g'" "rx_hdrlen B = length H" "rx_encrypt B = encrypt a" "rx_dst B = dst" "rx_src B = src"
    "\<not> is_multicast_ether_addr (rx_ra B)" "rx_ta B = src" "rx_priority B = of_nat (pkt_priority a)" "rx_mfrag B = 0"
    "rx_frag_num B = 0" "rx_privacy B = (if rx_encrypt B = NO_PRIVACY then 0 else 1)" "rx_iv_len B = length iv" "rx_icv_len B = icv_len a"
    using A1 lens l lH liv dc(6) by (simp_all add: B_def)
  have body: "take (fr_len g' - rx_icv_len B) (frame_data g') = H @ iv @ tx_llc ty data @ mic"
    using dc(4,5) room by (simp add: plain_but_icv_def B(13) P)
  have mk: "mic = (if rx_encrypt B = TKIP then michael (dot11tkiprxmickey (stations (path m) ! j))
      (dst @ src @ [of_nat (pkt_priority a), 0, 0, 0] @ tx_llc ty data) else [])"
    using ap(2) by (auto simp: mic_def tx_mic_def B(3) rx_keys_agree_def Let_def)
  have mklen: "rx_encrypt B = TKIP \<longrightarrow> 8 \<le> length (dot11tkiprxmickey (stations (path m) ! j))"
    using ap(2) keys by (auto simp: B(3) rx_keys_agree_def tx_keys_ok_def Let_def)
  have no: "rx_encrypt B = NO_PRIVACY \<longrightarrow> rx_icv_len B = 0" "rx_encrypt B = TKIP \<longrightarrow> length iv = 8 \<and> rx_icv_len B = 4"
    using il by (auto simp: B(3,13) liv cipher_lens_def)
  have fl: "fr_len g' = length H + length iv + length (tx_llc ty data) + length mic + rx_icv_len B"
    using dc(4) room by (simp add: P B(13))
  have st: "rtw_get_stainfo (stapriv (path m)) (rx_ta B) = Some j" using sta B(7) by simp
  obtain p2 d where ph: "recv_func_posthandle found (j, pkt_priority a) (path m) g1 = Some (RTW_SUCCESS, p2)"
    "given p2 = given (path m) @ [Indicated d]" "frame_data d = eth_packet dst src ty data"
    using ap_delivers [OF dc(1,2) ap(3) B(1,9,10,6,8,4,5,11,12) no st mklen H_def B(2) _ len body dc(3) fl mk, of "(j, pkt_priority a)"] l by auto
  have nst: "\<not> check_fwstate (fw_state m) WIFI_STATION_STATE" using ap(1) by (simp add: ap_hears_def)
  have "recv_func found m g ra = Some (RxSuccess, m1\<lparr>path := p2\<rparr>)"
    using ph(1) by (simp add: recv_func_def nst recv_func_prehandle_def v(1-3) g1_def [symmetric] waits_for_key_def)
  with ph(2,3) show ?thesis by (intro exI [of _ "m1\<lparr>path := p2\<rparr>"] exI [of _ d]) simp
qed

text \<open>C2. A packet that a station sends in one fragment reaches the network stack of its access point unchanged:
  with enough room in the transmit buffer, \<^verbatim>\<open>rtw_xmitframe_coalesce\<close> succeeds for the attributes that
  \<^verbatim>\<open>update_attrib\<close> gives the packet, and whatever frame of the access point holds the bytes it put in
  the buffer, \<^verbatim>\<open>recv_func\<close> hands up exactly the Ethernet packet: in plain text, with WEP, with TKIP and its
  Michael code, and with CCMP, whether QoS is used or not.\<close>

theorem station_packet_reaches_ap:
  assumes link: "station_link n i" and len: "length src = 6" "length dst = 6"
    and upd: "update_attrib n (eth_packet dst src ty data) a0 = Some (ev, Some a)"
    and icv: "length (pkt_icv a) = 8" and fits: "length data + 54 \<le> frag_thr n" and buf: "length data + 136 \<le> length b" "base mod 4 = 0"
    and sw: "sw_encrypt n \<or> \<not> hw_decrypted (tx_sec n)" and keys: "tx_keys_ok n i a (sealed_size a (length data))"
    and ap: "ap_hears m j (tx_bssid n) src (encrypt a)" "rx_keys_agree n i a (path m) j" "ap_forwards found (path m)"
    and new: "rxcache m ! j ! pkt_priority a \<noteq> 0xfff0 AND push_bit 4 ((txseq_tid (tx_stas n ! i) ! pkt_priority a + 1) AND 0xfff)"
  shows "\<exists>n' a' b'. rtw_xmitframe_coalesce n (eth_packet dst src ty data) base a b = Some (n', Some (a', b')) \<and> nr_frags a' = 1
     \<and> (\<forall>g ra. wf_frame g \<longrightarrow> frame_data g = buf_get TXDESC_OFFSET (last_txcmdsz a') b' \<longrightarrow> rx_bdecrypted ra = 0 \<longrightarrow>
          (\<exists>m' d. recv_func found m g ra = Some (RxSuccess, m') \<and> given (path m') = given (path m) @ [Indicated d]
             \<and> frame_data d = eth_packet dst src ty data))"
proof -
  note l = link [unfolded station_link_def]
  have a: "station_attrib n i dst src ty (length data) a" using l len upd by (intro update_attrib_station) blast+
  note f = a [unfolded station_attrib_def]
  have il: "(iv_len a, icv_len a) = cipher_lens (encrypt a)" using f by blast
  define k sz where "k = 8 + length data + (if encrypt a = TKIP then 8 else 0)" and "sz = hdrlen a + iv_len a + k + icv_len a"
  have hl: "hdrlen a \<le> 26" "24 \<le> hdrlen a" using f by auto
  have keys': "tx_keys_ok n i a sz" using keys by (simp add: sealed_size_def sz_def k_def)
  have bsw: "bswenc a \<longleftrightarrow> encrypt a \<noteq> NO_PRIVACY" using f sw by simp
  obtain n' a' b' room air where co: "rtw_xmitframe_coalesce n (eth_packet dst src ty data) base a b = Some (n', Some (a', b'))"
      "nr_frags a' = 1" "last_txcmdsz a' = sz" "buf_get 40 sz b' = air" "length air = sz" "length room = icv_len a"
      "length (station_plain n i dst src ty data a room) = sz" "sealed_frame n i a k (station_plain n i dst src ty data a room) air"
    using coalesce_station [OF _ a _ _ _ len _ icv _ _ buf(2) bsw k_def sz_def keys', of b] l cipher_lens_le [OF il] fits buf hl by auto
  have "\<exists>m' d. recv_func found m g ra = Some (RxSuccess, m') \<and> given (path m') = given (path m) @ [Indicated d]
        \<and> frame_data d = eth_packet dst src ty data"
    if "wf_frame g" "frame_data g = buf_get TXDESC_OFFSET (last_txcmdsz a') b'" "rx_bdecrypted ra = 0" for g and ra :: rx_check_attrib
    using that(2) co(3,4)
    by (intro ap_receives [OF link len a keys' k_def sz_def refl co(7,6,5,8) ap new that(1) _ that(3)]) (simp add: TXDESC_OFFSET_def)
  then show ?thesis
    by (intro exI [of _ n'] exI [of _ a'] exI [of _ b'] conjI allI impI co(1,2)) blast
qed

text \<open>A packet with user priority 5, sent with TKIP.\<close>

definition tx_example_sta :: tx_sta where
  "tx_example_sta = \<lparr>txpn = 7, txseq_tid = replicate 16 9, txmickey = replicate 16 1, tx_blocked = False, tx_privacy = TKIP,
     tx_qos_option = True, tx_ht_option = False, tx_ampdu_enable = False, tx_agg_bitmap = 0, BA_starting_seqctrl = replicate 16 0,
     tx_mac_id = 0, tx_raid = 0, tx_bwmode = 0, tx_ch_offset = 0, tx_sgi = False, tx_rtsen = False, tx_cts2self = False\<rparr>"

definition tx_example :: tx_net where
  "tx_example = \<lparr>tx_fw_state = 0x9, tx_bssid = replicate 6 4, tx_sec = example_sec, tx_alg = TKIP, tx_grp_alg = TKIP, tx_grp_mickey = [],
     sw_encrypt = True, tx_stapriv = example_table (replicate 6 4), tx_stas = [tx_example_sta], qos_on = True, acm_mask = 0,
     frag_thr = 2346, tx_wireless_mode = 3, wifi_spec = False, rts_thresh = 2347, ap_atheros = False, tx_cur_bwmode = 0,
     HT_protection = 0\<rparr>"

definition tx_example_attrib :: tx_attrib where
  "tx_example_attrib = \<lparr>hdrlen = 0, iv_len = 0, icv_len = 0, last_txcmdsz = 0, nr_frags = 0, encrypt = NO_PRIVACY, pkt_ta = [],
     pkt_ra = [], psta = None, pkt_dst = [], pkt_src = [], ether_type = 0, pkt_subtype = 0, pkt_priority = 0, pktlen = 0,
     pkt_hdrlen = 0, seqnum = 0, pkt_iv = replicate 18 0, pkt_icv = replicate 8 0, key_idx = 0, bswenc = False, dhcp_pkt = False,
     pkt_qos_en = False, pkt_ht_en = False, pkt_ampdu_en = False, pkt_ack_policy = 0, pkt_eosp = False, pkt_mdata = False,
     pkt_triggered = False, pkt_mac_id = 0, pkt_raid = 0, pkt_bwmode = 0, pkt_ch_offset = 0, pkt_sgi = False,
     pkt_retry_ctrl = False, pkt_pctrl = False, vcs_mode = 0\<rparr>"

definition tx_example_sent :: tx_attrib where
  "tx_example_sent = tx_example_attrib\<lparr>hdrlen := 26, iv_len := 8, icv_len := 4, encrypt := TKIP, pkt_ta := replicate 6 2,
     pkt_ra := replicate 6 4, psta := Some 0, pkt_dst := replicate 6 6, pkt_src := replicate 6 2, ether_type := 0x0800,
     pkt_subtype := 0x88, pkt_priority := 5, pktlen := 4, pkt_hdrlen := 14, bswenc := True, pkt_qos_en := True\<rparr>"

definition rx_example :: rx_net where
  "rx_example = \<lparr>path = example_path\<lparr>adapter := reorder_adapter, securitypriv := example_sec, stapriv := example_table (replicate 6 2),
       stations := [(stations example_path ! 0)\<lparr>dot11tkiprxmickey := replicate 16 1\<rparr>]\<rparr>,
     fw_state = 0x11, cur_bssid = replicate 6 4, myhwaddr = replicate 6 4, sec_privacy = TKIP, sec_grp_privacy = TKIP,
     sta_privacy = [TKIP], rxcache = [replicate 16 0], bIsAnyNonBEPkts = False, uc_swdec_pending_queue = [], rx_pkts = 0, calls = []\<rparr>"

lemma tx_example_attribs:
  "\<exists>ev. update_attrib tx_example (eth_packet (replicate 6 6) (replicate 6 2) 0x0800 [0x45, 0xa0, 0, 4]) tx_example_attrib
     = Some (ev, Some tx_example_sent)"
proof -
  have "map_option snd (update_attrib tx_example (eth_packet (replicate 6 6) (replicate 6 2) 0x0800 [0x45, 0xa0, 0, 4]) tx_example_attrib)
      = Some (Some tx_example_sent)" by code_simp
  then show ?thesis by auto
qed

lemma example_tables:
  "rtw_get_stainfo (example_table (replicate 6 4)) (replicate 6 4) = Some 0"
  "rtw_get_stainfo (example_table (replicate 6 2)) (replicate 6 2) = Some 0"
  by code_simp+

theorem station_packet_reaches_ap_witness:
  "\<exists>n' a' b' m' d. rtw_xmitframe_coalesce tx_example (eth_packet (replicate 6 6) (replicate 6 2) 0x0800 [0x45, 0xa0, 0, 4]) 0
        tx_example_sent (replicate 300 0) = Some (n', Some (a', b'))
     \<and> recv_func None rx_example (rx_example_frame (buf_get TXDESC_OFFSET (last_txcmdsz a') b')) rx_example_attrib = Some (RxSuccess, m')
     \<and> given (path m') = [Indicated d] \<and> frame_data d = eth_packet (replicate 6 6) (replicate 6 2) 0x0800 [0x45, 0xa0, 0, 4]"
proof -
  let ?pkt = "eth_packet (replicate 6 6) (replicate 6 2) 0x0800 [0x45, 0xa0, 0, 4]"
  obtain ev where ev: "update_attrib tx_example ?pkt tx_example_attrib = Some (ev, Some tx_example_sent)" using tx_example_attribs ..
  have st: "is_station (tx_fw_state tx_example)"
    by (simp add: is_station_def check_fwstate_def tx_example_def WIFI_STATION_STATE_def WIFI_ADHOC_STATE_def
        WIFI_ADHOC_MASTER_STATE_def WIFI_AP_STATE_def)
  have link: "station_link tx_example 0"
    using st example_tables(1)
    by (simp add: station_link_def) (simp add: tx_linked_def tx_example_def example_table_def FW_LINKED_def is_multicast_ether_addr_def)
  have keys: "tx_keys_ok tx_example 0 tx_example_sent (sealed_size tx_example_sent (length [0x45 :: u8, 0xa0, 0, 4]))"
    by (simp add: tx_keys_ok_def tx_example_sent_def tx_example_def tx_example_sta_def numeral_eq_Suc)
  have hears: "ap_hears rx_example 0 (tx_bssid tx_example) (replicate 6 2) (encrypt tx_example_sent)"
    using example_tables(2)
    by (simp add: ap_hears_def rx_example_def tx_example_def tx_example_sent_def check_fwstate_def WIFI_STATION_STATE_def WIFI_AP_STATE_def
        example_sec_def GET_ENCRY_ALGO_def)
  have agree: "rx_keys_agree tx_example 0 tx_example_sent (path rx_example) 0"
    by (simp add: rx_keys_agree_def tx_example_sent_def rx_example_def tx_example_def example_table_def tx_example_sta_def)
  have fwd: "ap_forwards None (path rx_example)"
    by (simp add: ap_forwards_def rx_example_def reorder_adapter_def example_path_def)
  have new: "rxcache rx_example ! 0 ! pkt_priority tx_example_sent
      \<noteq> 0xfff0 AND push_bit 4 ((txseq_tid (tx_stas tx_example ! 0) ! pkt_priority tx_example_sent + 1) AND 0xfff)"
    by (simp add: rx_example_def tx_example_sent_def tx_example_def tx_example_sta_def)
  obtain n' a' b' where s: "rtw_xmitframe_coalesce tx_example ?pkt 0 tx_example_sent (replicate 300 0) = Some (n', Some (a', b'))"
    and r: "\<And>g ra. wf_frame g \<Longrightarrow> frame_data g = buf_get TXDESC_OFFSET (last_txcmdsz a') b' \<Longrightarrow> rx_bdecrypted ra = 0 \<Longrightarrow>
       \<exists>m' d. recv_func None rx_example g ra = Some (RxSuccess, m') \<and> given (path m') = given (path rx_example) @ [Indicated d]
         \<and> frame_data d = ?pkt"
    using station_packet_reaches_ap [OF link _ _ ev _ _ _ _ _ keys hears agree fwd new, of "replicate 300 0" 0]
    by (auto simp: tx_example_sent_def [THEN arg_cong, of pkt_icv] tx_example_attrib_def tx_example_def)
  have "wf_frame (rx_example_frame bs)" "frame_data (rx_example_frame bs) = bs" for bs
    by (simp_all add: wf_frame_def rx_example_frame_def frame_data_def buf_get_def)
  then show ?thesis
    using s r [of "rx_example_frame (buf_get TXDESC_OFFSET (last_txcmdsz a') b')" rx_example_attrib]
    by (auto simp: rx_example_attrib_def rx_example_def example_path_def)
qed

end
