(* ===== verification/TxFragments.thy ===== *)
theory TxFragments
  imports TxPath
begin

text \<open>
  Where \<^verbatim>\<open>rtw_xmitframe_coalesce\<close> puts the fragments of a packet, and where the ciphers and
  \<^verbatim>\<open>xmitframe_addmic\<close> look for them.
\<close>

lemma RND4_add4: "k mod 4 = 0 \<Longrightarrow> RND4 (x + k) = RND4 x + k"
proof -
  assume k: "k mod 4 = 0"
  have "x + k \<le> RND4 (x + k)" "RND4 (x + k) < x + k + 4" "RND4 (x + k) mod 4 = 0"
    "x \<le> RND4 x" "RND4 x < x + 4" "RND4 x mod 4 = 0" by (rule RND4_bounds)+
  with k show ?thesis by presburger
qed

lemma length_snap: "length (rtw_put_snap ty) = 8"
  by (simp add: rtw_put_snap_def rtw_bridge_tunnel_header_def rtw_rfc1042_header_def be16_def)

lemma pktfile_read_some:
  assumes "pktfile_read pkt pos k = (d, pos')" "pos' \<noteq> length pkt" "pos \<le> length pkt"
  shows "length d = k \<and> pos' = pos + k"
  using assms by (auto simp: pktfile_read_def Let_def buf_get_def)

text \<open>The first fragment of a longer packet fills \<open>frag_len - 4\<close> bytes.\<close>

lemma first_turn_end:
  assumes t: "frag_turn frag_len False pkt 0 p pos a pn b = Some t" and more: "turn_pos t \<noteq> length pkt" "pos \<le> length pkt"
    and room: "0 \<le> mpdu_room frag_len a 8"
  shows "turn_end t = p + frag_len - 4"
proof -
  define s where "s = (if iv_len a \<noteq> 0 then tx_iv False a pn else (a, pn))"
  have k: "hdrlen (fst s) = hdrlen a" "iv_len (fst s) = iv_len a" "icv_space (fst s) = icv_space a"
    by (auto simp: s_def tx_iv_def Let_def icv_space_def split_beta)
  then have room': "mpdu_room frag_len (fst s) 8 = mpdu_room frag_len a 8" by (simp add: mpdu_room_def)
  obtain d pos' where d: "pktfile_read pkt pos (nat (mpdu_room frag_len a 8)) = (d, pos')" by fastforce
  have "turn_pos t = pos' \<and> turn_end t = p + hdrlen a + iv_len a + 8 + length d + icv_space a"
    using t room leD [OF room] unfolding frag_turn_def Let_def s_def [symmetric]
    by (auto simp: k room' d length_snap bind_eq_Some_conv split_beta simp del: One_nat_def)
  with pktfile_read_some [OF d _ more(2)] more(1) room show ?thesis
    by (simp add: mpdu_room_def)
qed

text \<open>The second fragment of a packet lies 36 bytes behind the place at which \<^verbatim>\<open>rtw_wep_encrypt\<close>,
  \<^verbatim>\<open>rtw_tkip_encrypt\<close>, \<^verbatim>\<open>rtw_aes_encrypt\<close> and \<^verbatim>\<open>xmitframe_addmic\<close> look for it: the
  driver reserves the transmit descriptor in front of every fragment, the ciphers only in front of the first.\<close>

theorem fragments_misplaced:
  assumes "frag_turn frag_len False pkt 0 TXDESC_OFFSET pos a pn b = Some t" "turn_pos t \<noteq> length pkt" "pos \<le> length pkt"
    and "0 \<le> mpdu_room frag_len a 8"
  shows "RND4 (base + turn_end t) - base + TXDESC_OFFSET = frag_offset frag_len base TXDESC_OFFSET 1 + 36"
proof -
  define x where "x = base + frag_len"
  have "frag_len \<ge> 4" using assms(4) by (simp add: mpdu_room_def)
  then have "base + turn_end t = x + 36" "base + TXDESC_OFFSET + frag_len = x + 40"
    using first_turn_end [OF assms] by (simp_all add: TXDESC_OFFSET_def x_def)
  then have "RND4 (base + turn_end t) = RND4 x + 36" "RND4 (base + TXDESC_OFFSET + frag_len) = RND4 x + 40"
    using RND4_add4 [of 36 x] RND4_add4 [of 40 x] by simp_all
  moreover have "base \<le> RND4 x" using RND4_bounds(1) [of x] by (simp add: x_def)
  moreover have "frag_offset frag_len base TXDESC_OFFSET 1 = RND4 (base + TXDESC_OFFSET + frag_len) - base" by simp
  ultimately show ?thesis by (simp add: TXDESC_OFFSET_def)
qed

definition fragment_example_attrib :: tx_attrib where
  "fragment_example_attrib = \<lparr>hdrlen = 24, iv_len = 4, icv_len = 4, last_txcmdsz = 0, nr_frags = 0, encrypt = WEP40, pkt_ta = replicate 6 2,
     pkt_ra = replicate 6 4, psta = Some 0, pkt_dst = replicate 6 6, pkt_src = replicate 6 2, ether_type = 0x0800, pkt_subtype = 0x08,
     pkt_priority = 0, pktlen = 30, pkt_hdrlen = 14, seqnum = 0, pkt_iv = replicate 18 0, pkt_icv = replicate 8 0, key_idx = 0,
     bswenc = True, dhcp_pkt = False, pkt_qos_en = False, pkt_ht_en = False, pkt_ampdu_en = False, pkt_ack_policy = 0,
     pkt_eosp = False, pkt_mdata = False, pkt_triggered = False, pkt_mac_id = 0, pkt_raid = 0, pkt_bwmode = 0, pkt_ch_offset = 0,
     pkt_sgi = False, pkt_retry_ctrl = False, pkt_pctrl = False, vcs_mode = 0\<rparr>"

theorem fragments_misplaced_witness:
  "\<exists>t. frag_turn 64 False (replicate 44 0) 0 TXDESC_OFFSET 14 fragment_example_attrib 5 (replicate 200 0) = Some t
     \<and> RND4 (4 + turn_end t) - 4 + TXDESC_OFFSET = frag_offset 64 4 TXDESC_OFFSET 1 + 36"
proof -
  have "map_option turn_pos (frag_turn 64 False (replicate 44 0) 0 TXDESC_OFFSET 14 fragment_example_attrib 5 (replicate 200 0)) = Some 34"
    by code_simp
  then obtain t where t: "frag_turn 64 False (replicate 44 0) 0 TXDESC_OFFSET 14 fragment_example_attrib 5 (replicate 200 0) = Some t"
    "turn_pos t = 34" by auto
  have "0 \<le> mpdu_room 64 fragment_example_attrib 8"
    by (simp add: mpdu_room_def fragment_example_attrib_def icv_space_def)
  with fragments_misplaced [OF t(1), of 4] t show ?thesis by simp
qed

end
