(* ===== verification/TxQueues.thy ===== *)
theory TxQueues
  imports TxPath
begin

text \<open>
  The queues between \<^verbatim>\<open>rtw_xmit\<close> and the USB device (\<^verbatim>\<open>core/rtw_xmit.c\<close>,
  \<^verbatim>\<open>hal/rtl8723au_xmit.c\<close>, \<^verbatim>\<open>os_dep/usb_ops_linux.c\<close>) and the stations of an access
  point that sleep: frames for them wait at the station and are announced in the beacon, until the station
  wakes up, polls or triggers.

  A frame is a value with the number of its \<^verbatim>\<open>struct xmit_frame\<close>; it is in the list that
  holds it. The sections under \<^verbatim>\<open>pxmitpriv->lock\<close> are atomic. What the queues make other parts do is recorded in \<open>q_out\<close>.
\<close>

section \<open>State\<close>

definition WIFI_SLEEP_STATE :: u32 where "WIFI_SLEEP_STATE = 0x00000004"
definition WIFI_STA_ALIVE_CHK_STATE :: u32 where "WIFI_STA_ALIVE_CHK_STATE = 0x00000400"
definition FW_UNDER_SURVEY :: u32 where "FW_UNDER_SURVEY = 0x00000800"
definition NR_XMITFRAME :: nat where "NR_XMITFRAME = 256"
definition NR_XMITBUFF :: nat where "NR_XMITBUFF = 4"

record qframe =
  qf_id :: nat
  qf_ra :: bytes
  qf_psta :: "nat option"
  qf_priority :: nat
  qf_qsel :: nat
  qf_triggered :: bool
  qf_mdata :: bool
  qf_eosp :: bool

text \<open>The queues of a station: the frames it sleeps through, and for VO, VI, BE and BK, in the order of
  \<^verbatim>\<open>hwxmits\<close>, the frames to be sent with their counter \<^verbatim>\<open>qcnt\<close>.\<close>

record q_sta =
  q_aid :: nat
  q_qos_option :: bool
  q_qos_info :: u8
  uapsd_bk :: u8
  uapsd_be :: u8
  uapsd_vi :: u8
  uapsd_vo :: u8
  has_legacy_ac :: bool
  sleepq :: "qframe list"
  sleepq_len :: u32
  sleepq_ac_len :: u32
  q_pending :: "qframe list list"
  q_cnt :: "int list"
  q_expire_to :: nat

datatype q_event = UpdateTim u16 | NullData bytes | QosNullData bytes nat | Tasklet | Submit qframe nat | ChkHiQueue

text \<open>\<open>q_aids\<close> is \<^verbatim>\<open>sta_aid\<close>, the station of every association number, \<open>q_hw\<close> are the stations in the four lists \<^verbatim>\<open>sta_queue\<close>, \<open>q_flight\<close> the buffers the USB core works on, each with whether it
  went to the high queue.\<close>

record tx_queues =
  q_fw_state :: u32
  q_mac :: bytes
  q_table :: sta_priv
  q_stas :: "q_sta list"
  q_aids :: "nat option list"
  q_dz :: u16
  q_tim :: u16
  q_expire :: nat
  q_hw :: "nat list list"
  q_accnt :: "int list"
  q_free :: "nat list"
  q_free_cnt :: int
  q_bufs :: "nat list"
  q_buf_cnt :: int
  q_flight :: "(nat \<times> bool) list"
  q_wifi_spec :: bool
  q_wmm_seq :: "nat list"
  q_stopped :: bool
  q_tx_pkts :: int
  q_tx_drop :: int
  q_out :: "q_event list"

definition upd_q :: "nat \<Rightarrow> (q_sta \<Rightarrow> q_sta) \<Rightarrow> tx_queues \<Rightarrow> tx_queues" where
  "upd_q i g n = n\<lparr>q_stas := (q_stas n)[i := g (q_stas n ! i)]\<rparr>"

definition q_state :: "tx_queues \<Rightarrow> nat \<Rightarrow> u32" where
  "q_state n i = sta_state (sta_buf (q_table n) ! i)"

definition set_q_state :: "nat \<Rightarrow> u32 \<Rightarrow> tx_queues \<Rightarrow> tx_queues" where
  "set_q_state i st n =
     n\<lparr>q_table := (q_table n)\<lparr>sta_buf := (sta_buf (q_table n))[i := (sta_buf (q_table n) ! i)\<lparr>sta_state := st\<rparr>]\<rparr>\<rparr>"

definition out :: "q_event \<Rightarrow> tx_queues \<Rightarrow> tx_queues" where
  "out e n = n\<lparr>q_out := q_out n @ [e]\<rparr>"

text \<open>\<^verbatim>\<open>update_beacon\<close> for the traffic indication map.\<close>

definition update_tim :: "tx_queues \<Rightarrow> tx_queues" where "update_tim n = out (UpdateTim (q_tim n)) n"

definition set_tim :: "nat \<Rightarrow> tx_queues \<Rightarrow> tx_queues" where "set_tim a n = n\<lparr>q_tim := q_tim n OR push_bit a 1\<rparr>"
definition clear_tim :: "nat \<Rightarrow> tx_queues \<Rightarrow> tx_queues" where "clear_tim a n = n\<lparr>q_tim := q_tim n AND NOT (push_bit a 1)\<rparr>"
definition set_dz :: "nat \<Rightarrow> tx_queues \<Rightarrow> tx_queues" where "set_dz a n = n\<lparr>q_dz := q_dz n OR push_bit a 1\<rparr>"
definition clear_dz :: "nat \<Rightarrow> tx_queues \<Rightarrow> tx_queues" where "clear_dz a n = n\<lparr>q_dz := q_dz n AND NOT (push_bit a 1)\<rparr>"

text \<open>The access category of a priority: its number, and the power save setting.\<close>

definition ac_index :: "nat \<Rightarrow> nat" where
  "ac_index up = (if up = 1 \<or> up = 2 then 3 else if up = 4 \<or> up = 5 then 1 else if up = 6 \<or> up = 7 then 0 else 2)"

definition uapsd_of :: "q_sta \<Rightarrow> nat \<Rightarrow> u8" where
  "uapsd_of s up = (if up = 1 \<or> up = 2 then uapsd_bk s else if up = 4 \<or> up = 5 then uapsd_vi s
     else if up = 6 \<or> up = 7 then uapsd_vo s else uapsd_be s)"

definition frame_sta :: "tx_queues \<Rightarrow> qframe \<Rightarrow> nat option" where
  "frame_sta n f = (case qf_psta f of Some i \<Rightarrow> Some i | None \<Rightarrow> rtw_get_stainfo (q_table n) (qf_ra f))"

definition q_linked :: "tx_queues \<Rightarrow> nat \<Rightarrow> bool" where "q_linked n i \<longleftrightarrow> q_state n i AND FW_LINKED \<noteq> 0"

section \<open>The pools\<close>

definition new_qframe :: "nat \<Rightarrow> qframe" where
  "new_qframe k = \<lparr>qf_id = k, qf_ra = replicate 6 0, qf_psta = None, qf_priority = 0, qf_qsel = 0, qf_triggered = False,
     qf_mdata = False, qf_eosp = False\<rparr>"

definition rtw_alloc_xmitframe :: "tx_queues \<Rightarrow> qframe option \<times> tx_queues" where
  "rtw_alloc_xmitframe n =
     (case q_free n of [] \<Rightarrow> (None, n) | k # ks \<Rightarrow> (Some (new_qframe k), n\<lparr>q_free := ks, q_free_cnt := q_free_cnt n - 1\<rparr>))"

definition rtw_free_xmitframe :: "qframe \<Rightarrow> tx_queues \<Rightarrow> tx_queues" where
  "rtw_free_xmitframe f n = n\<lparr>q_free := q_free n @ [qf_id f], q_free_cnt := q_free_cnt n + 1\<rparr>"

definition rtw_free_xmitframe_queue :: "qframe list \<Rightarrow> tx_queues \<Rightarrow> tx_queues" where
  "rtw_free_xmitframe_queue fs n = fold rtw_free_xmitframe fs n"

definition rtw_alloc_xmitbuf :: "tx_queues \<Rightarrow> nat option \<times> tx_queues" where
  "rtw_alloc_xmitbuf n =
     (case q_bufs n of [] \<Rightarrow> (None, n) | b # bs \<Rightarrow> (Some b, n\<lparr>q_bufs := bs, q_buf_cnt := q_buf_cnt n - 1\<rparr>))"

text \<open>A buffer is moved to the end when it is already in the list; the counter counts it again.\<close>

definition rtw_free_xmitbuf :: "nat \<Rightarrow> tx_queues \<Rightarrow> tx_queues" where
  "rtw_free_xmitbuf b n = n\<lparr>q_bufs := removeAll b (q_bufs n) @ [b], q_buf_cnt := q_buf_cnt n + 1\<rparr>"

section \<open>Queueing for transmission\<close>

definition rtw_xmit_classifier :: "qframe \<Rightarrow> tx_queues \<Rightarrow> tx_queues option" where
  "rtw_xmit_classifier f n =
     (case frame_sta n f of None \<Rightarrow> None
      | Some i \<Rightarrow>
          (if \<not> q_linked n i then None
           else
             (let ac = ac_index (qf_priority f);
                  n = (if i \<in> set (q_hw n ! ac) then n else n\<lparr>q_hw := (q_hw n)[ac := q_hw n ! ac @ [i]]\<rparr>);
                  n = upd_q i (\<lambda>s. s\<lparr>q_pending := (q_pending s)[ac := q_pending s ! ac @ [f]],
                        q_cnt := (q_cnt s)[ac := q_cnt s ! ac + 1]\<rparr>) n
              in Some (n\<lparr>q_accnt := (q_accnt n)[ac := q_accnt n ! ac + 1]\<rparr>))))"

definition rtl8723au_hal_xmitframe_enqueue :: "qframe \<Rightarrow> tx_queues \<Rightarrow> tx_queues" where
  "rtl8723au_hal_xmitframe_enqueue f n =
     (case rtw_xmit_classifier f n of
        None \<Rightarrow> (let n = rtw_free_xmitframe f n in n\<lparr>q_tx_pkts := q_tx_pkts n - 1, q_tx_drop := q_tx_drop n + 1\<rparr>)
      | Some n \<Rightarrow> out Tasklet n)"

text \<open>\<^verbatim>\<open>dequeue_one_xmitframe\<close> and \<^verbatim>\<open>rtw_dequeue_xframe\<close>: the first frame of the first station with one, in the
  order of the access categories. A station without frames is passed over.\<close>

definition dequeue_one_xmitframe :: "nat \<Rightarrow> nat \<Rightarrow> tx_queues \<Rightarrow> (qframe \<times> tx_queues) option" where
  "dequeue_one_xmitframe i ac n =
     (case q_pending (q_stas n ! i) ! ac of [] \<Rightarrow> None
      | f # fs \<Rightarrow>
          Some (f, upd_q i (\<lambda>s. s\<lparr>q_pending := (q_pending s)[ac := fs], q_cnt := (q_cnt s)[ac := q_cnt s ! ac - 1]\<rparr>) n))"

fun dequeue_stas :: "nat \<Rightarrow> nat list \<Rightarrow> tx_queues \<Rightarrow> (qframe \<times> tx_queues) option" where
  "dequeue_stas ac [] n = None"
| "dequeue_stas ac (i # is) n =
     (case dequeue_one_xmitframe i ac n of
        None \<Rightarrow> dequeue_stas ac is n
      | Some (f, n) \<Rightarrow>
          (let n = n\<lparr>q_accnt := (q_accnt n)[ac := q_accnt n ! ac - 1]\<rparr>
           in Some (f, if q_pending (q_stas n ! i) ! ac = []
                then n\<lparr>q_hw := (q_hw n)[ac := removeAll i (q_hw n ! ac)]\<rparr> else n)))"

fun dequeue_acs :: "nat list \<Rightarrow> tx_queues \<Rightarrow> (qframe \<times> tx_queues) option" where
  "dequeue_acs [] n = None"
| "dequeue_acs (ac # acs) n =
     (case dequeue_stas ac (q_hw n ! ac) n of None \<Rightarrow> dequeue_acs acs n | Some r \<Rightarrow> Some r)"

definition rtw_dequeue_xframe :: "tx_queues \<Rightarrow> (qframe \<times> tx_queues) option" where
  "rtw_dequeue_xframe n = dequeue_acs (if q_wifi_spec n then q_wmm_seq n else [0, 1, 2, 3]) n"

section \<open>Sleeping stations\<close>

definition queue_sleep :: "nat \<Rightarrow> qframe \<Rightarrow> tx_queues \<Rightarrow> tx_queues" where
  "queue_sleep i f n = upd_q i (\<lambda>s. s\<lparr>sleepq := sleepq s @ [f], sleepq_len := sleepq_len s + 1\<rparr>) n"

text \<open>\<^verbatim>\<open>xmitframe_enqueue_for_sleeping_sta\<close>: whether the frame is queued, and the frame.\<close>

definition sleep_unicast :: "nat \<Rightarrow> qframe \<Rightarrow> tx_queues \<Rightarrow> tx_queues" where
  "sleep_unicast i f n =
     (let n = queue_sleep i f n; wmmps = bit (uapsd_of (q_stas n ! i) (qf_priority f)) 0;
          n = (if wmmps then upd_q i (\<lambda>s. s\<lparr>sleepq_ac_len := sleepq_ac_len s + 1\<rparr>) n else n);
          s = q_stas n ! i in
      if has_legacy_ac s \<longleftrightarrow> \<not> wmmps
      then (let n = set_tim (q_aid s) n in if sleepq_len s = 1 then update_tim n else n)
      else n)"

definition xmitframe_enqueue_for_sleeping_sta :: "qframe \<Rightarrow> tx_queues \<Rightarrow> bool \<times> qframe \<times> tx_queues" where
  "xmitframe_enqueue_for_sleeping_sta f n =
     (let bmcst = is_multicast_ether_addr (qf_ra f) in
      if \<not> check_fwstate (q_fw_state n) WIFI_AP_STATE then (False, f, n)
      else
        (case frame_sta n f of None \<Rightarrow> (False, f, n)
         | Some i \<Rightarrow>
             (if \<not> q_linked n i then (False, f, n)
              else if qf_triggered f then (False, if bmcst then f\<lparr>qf_qsel := 0x11\<rparr> else f, n)
              else if bmcst then
                (if q_dz n \<noteq> 0 then (True, f, update_tim (set_dz 0 (set_tim 0 (queue_sleep i f n)))) else (False, f, n))
              else if q_state n i AND WIFI_SLEEP_STATE \<noteq> 0 \<and> bit (q_dz n) (q_aid (q_stas n ! i))
              then (True, f, sleep_unicast i f n)
              else (False, f, n))))"

text \<open>\<^verbatim>\<open>dequeue_xmitframes_to_sleeping_queue\<close>; \<open>kept\<close> are the frames passed over so far.\<close>

definition unqueue :: "nat \<Rightarrow> nat \<Rightarrow> nat \<Rightarrow> qframe list \<Rightarrow> tx_queues \<Rightarrow> tx_queues" where
  "unqueue i ac a fs n =
     (let n = upd_q i (\<lambda>s. s\<lparr>q_pending := (q_pending s)[ac := fs], q_cnt := (q_cnt s)[a := q_cnt s ! a - 1]\<rparr>) n
      in n\<lparr>q_accnt := (q_accnt n)[a := q_accnt n ! a - 1]\<rparr>)"

fun to_sleeping :: "nat \<Rightarrow> nat \<Rightarrow> qframe list \<Rightarrow> qframe list \<Rightarrow> tx_queues \<Rightarrow> tx_queues" where
  "to_sleeping i ac kept [] n = n"
| "to_sleeping i ac kept (f # fs) n =
     (case xmitframe_enqueue_for_sleeping_sta f n of
        (True, f, n) \<Rightarrow> to_sleeping i ac kept fs (unqueue i ac (ac_index (qf_priority f)) (kept @ fs) n)
      | (False, f, n) \<Rightarrow>
          to_sleeping i ac (kept @ [f]) fs (upd_q i (\<lambda>s. s\<lparr>q_pending := (q_pending s)[ac := kept @ f # fs]\<rparr>) n))"

definition dequeue_xmitframes_to_sleeping_queue :: "nat \<Rightarrow> nat \<Rightarrow> tx_queues \<Rightarrow> tx_queues" where
  "dequeue_xmitframes_to_sleeping_queue i ac n = to_sleeping i ac [] (q_pending (q_stas n ! i) ! ac) n"

definition stop_ac :: "nat \<Rightarrow> nat \<Rightarrow> tx_queues \<Rightarrow> tx_queues" where
  "stop_ac i ac n =
     (let n = dequeue_xmitframes_to_sleeping_queue i ac n in n\<lparr>q_hw := (q_hw n)[ac := removeAll i (q_hw n ! ac)]\<rparr>)"

text \<open>\<^verbatim>\<open>stop_sta_xmit\<close>; \<open>None\<close> is the use of a broadcast station that does not exist.\<close>

definition stop_sta_xmit :: "nat \<Rightarrow> tx_queues \<Rightarrow> tx_queues option" where
  "stop_sta_xmit i n =
     (let psta_bmc = rtw_get_stainfo (q_table n) bc_addr;
          n = set_q_state i (q_state n i OR WIFI_SLEEP_STATE) n;
          n = set_dz (q_aid (q_stas n ! i)) n;
          n = stop_ac i 3 (stop_ac i 2 (stop_ac i 1 (stop_ac i 0 n)))
      in map_option (\<lambda>b. stop_ac b 2 n) psta_bmc)"

text \<open>One turn of the loop of \<^verbatim>\<open>wakeup_sta_to_xmit\<close>, for the first frame; \<open>q_state_flip\<close> is the end of it.\<close>

definition wake_frame :: "q_sta \<Rightarrow> qframe \<Rightarrow> q_sta \<times> qframe" where
  "wake_frame s f =
     (let wmmps = bit (uapsd_of s (qf_priority f)) 1;
          s = s\<lparr>sleepq_len := sleepq_len s - 1\<rparr>;
          f = f\<lparr>qf_mdata := (sleepq_len s > 0)\<rparr>;
          s = (if wmmps then s\<lparr>sleepq_ac_len := sleepq_ac_len s - 1\<rparr> else s);
          f = (if wmmps then f\<lparr>qf_mdata := (sleepq_ac_len s > 0), qf_eosp := \<not> (sleepq_ac_len s > 0)\<rparr> else f)
      in (s, f\<lparr>qf_triggered := True\<rparr>))"

fun wake_frames :: "nat \<Rightarrow> qframe list \<Rightarrow> tx_queues \<Rightarrow> tx_queues" where
  "wake_frames i [] n = n"
| "wake_frames i (f # fs) n =
     (let (s, f) = wake_frame (q_stas n ! i) f in
      wake_frames i fs (rtl8723au_hal_xmitframe_enqueue f (upd_q i (\<lambda>_. s\<lparr>sleepq := fs\<rparr>) n)))"

fun wake_bmc :: "nat option \<Rightarrow> nat \<Rightarrow> qframe list \<Rightarrow> tx_queues \<Rightarrow> tx_queues" where
  "wake_bmc qsel b [] n = n"
| "wake_bmc qsel b (f # fs) n =
     (let s = q_stas n ! b; s = s\<lparr>sleepq := fs, sleepq_len := sleepq_len s - 1\<rparr>;
          f = f\<lparr>qf_mdata := (sleepq_len s > 0), qf_triggered := True\<rparr>;
          f = (case qsel of None \<Rightarrow> f | Some q \<Rightarrow> f\<lparr>qf_qsel := q\<rparr>)
      in wake_bmc qsel b fs (rtl8723au_hal_xmitframe_enqueue f (upd_q b (\<lambda>_. s) n)))"

definition alive_again :: "nat \<Rightarrow> tx_queues \<Rightarrow> tx_queues" where
  "alive_again i n =
     (if q_state n i AND WIFI_STA_ALIVE_CHK_STATE \<noteq> 0
      then set_q_state i (q_state n i XOR WIFI_STA_ALIVE_CHK_STATE) (upd_q i (q_expire_to_update (\<lambda>_. q_expire n)) n)
      else n)"

definition wake_done :: "nat \<Rightarrow> tx_queues \<Rightarrow> tx_queues" where
  "wake_done i n =
     (let a = q_aid (q_stas n ! i);
          n = clear_tim a n;
          n = (if q_state n i AND WIFI_SLEEP_STATE \<noteq> 0 then set_q_state i (q_state n i XOR WIFI_SLEEP_STATE) n else n)
      in clear_dz a (alive_again i n))"

definition wakeup_sta_to_xmit :: "nat \<Rightarrow> tx_queues \<Rightarrow> tx_queues" where
  "wakeup_sta_to_xmit i n =
     (let n = wake_frames i (sleepq (q_stas n ! i)) n;
          update = (sleepq_len (q_stas n ! i) = 0);
          n = (if update then wake_done i n else n) in
      case rtw_get_stainfo (q_table n) bc_addr of None \<Rightarrow> n
      | Some b \<Rightarrow>
          (let all_awake = (q_dz n AND 0xfffe = 0);
               n = (if all_awake then wake_bmc None b (sleepq (q_stas n ! b)) n else n);
               bmc = (all_awake \<and> sleepq_len (q_stas n ! b) = 0);
               n = (if bmc then clear_dz 0 (clear_tim 0 n) else n)
           in if update \<or> bmc then update_tim n else n))"

text \<open>\<^verbatim>\<open>xmit_delivery_enabled_frames\<close>; \<open>kept\<close> are the frames passed over so far.\<close>

definition deliver_frame :: "q_sta \<Rightarrow> qframe \<Rightarrow> q_sta \<times> qframe" where
  "deliver_frame s f =
     (let s = s\<lparr>sleepq_len := sleepq_len s - 1, sleepq_ac_len := sleepq_ac_len s - 1\<rparr>
      in (s, f\<lparr>qf_mdata := (sleepq_ac_len s > 0), qf_eosp := \<not> (sleepq_ac_len s > 0), qf_triggered := True\<rparr>))"

fun deliver_frames :: "nat \<Rightarrow> qframe list \<Rightarrow> qframe list \<Rightarrow> tx_queues \<Rightarrow> tx_queues" where
  "deliver_frames i kept [] n = n"
| "deliver_frames i kept (f # fs) n =
     (if \<not> bit (uapsd_of (q_stas n ! i) (qf_priority f)) 1 then deliver_frames i (kept @ [f]) fs n
      else
        (let (s, f) = deliver_frame (q_stas n ! i) f;
             n = rtl8723au_hal_xmitframe_enqueue f (upd_q i (\<lambda>_. s\<lparr>sleepq := kept @ fs\<rparr>) n);
             n = (if sleepq_ac_len s = 0 \<and> \<not> has_legacy_ac s then update_tim (clear_tim (q_aid s) n) else n)
         in deliver_frames i kept fs n))"

definition xmit_delivery_enabled_frames :: "nat \<Rightarrow> tx_queues \<Rightarrow> tx_queues" where
  "xmit_delivery_enabled_frames i n = deliver_frames i [] (sleepq (q_stas n ! i)) n"

section \<open>What stations send\<close>

text \<open>\<^verbatim>\<open>process_pwrbit_data\<close> and \<^verbatim>\<open>process_wmmps_data\<close>.\<close>

definition process_pwrbit_data :: "bytes \<Rightarrow> bool \<Rightarrow> tx_queues \<Rightarrow> tx_queues option" where
  "process_pwrbit_data src pwrbit n =
     (case rtw_get_stainfo (q_table n) src of None \<Rightarrow> Some n
      | Some i \<Rightarrow>
          (let asleep = (q_state n i AND WIFI_SLEEP_STATE \<noteq> 0) in
           if pwrbit then (if asleep then Some n else stop_sta_xmit i n)
           else Some (if asleep then wakeup_sta_to_xmit i n else n)))"

definition process_wmmps_data :: "bytes \<Rightarrow> nat \<Rightarrow> tx_queues \<Rightarrow> tx_queues" where
  "process_wmmps_data src priority n =
     (case rtw_get_stainfo (q_table n) src of None \<Rightarrow> n
      | Some i \<Rightarrow>
          (let s = q_stas n ! i in
           if q_qos_option s \<and> q_qos_info s AND 0xf \<noteq> 0 \<and> q_state n i AND WIFI_SLEEP_STATE \<noteq> 0 \<and> bit (uapsd_of s priority) 1
           then (if sleepq_ac_len s > 0 then xmit_delivery_enabled_frames i n
                 else out (QosNullData (hwaddr (sta_buf (q_table n) ! i)) priority) n)
           else n))"

text \<open>\<^verbatim>\<open>validate_recv_ctrl_frame\<close>: a PS-Poll gets one frame. It always returns \<^verbatim>\<open>_FAIL\<close>.\<close>

definition ps_poll :: "nat \<Rightarrow> tx_queues \<Rightarrow> tx_queues" where
  "ps_poll i n =
     (let n = alive_again i n; s = q_stas n ! i in
      if q_state n i AND WIFI_SLEEP_STATE \<noteq> 0 \<and> bit (q_dz n) (q_aid s) then
        (case sleepq s of
           f # fs \<Rightarrow>
             (let s = s\<lparr>sleepq := fs, sleepq_len := sleepq_len s - 1\<rparr>;
                  f = f\<lparr>qf_mdata := (sleepq_len s > 0), qf_triggered := True\<rparr>;
                  n = rtl8723au_hal_xmitframe_enqueue f (upd_q i (\<lambda>_. s) n)
              in if sleepq_len s = 0 then update_tim (clear_tim (q_aid s) n) else n)
         | [] \<Rightarrow>
             (if bit (q_tim n) (q_aid s) then
                update_tim (clear_tim (q_aid s)
                  (if sleepq_len s = 0 then out (NullData (hwaddr (sta_buf (q_table n) ! i))) n
                   else upd_q i (sleepq_len_update (\<lambda>_. 0)) n))
              else n))
      else n)"

definition validate_recv_ctrl_frame :: "bytes \<Rightarrow> nat \<Rightarrow> tx_queues \<Rightarrow> tx_queues option" where
  "validate_recv_ctrl_frame p priority n =
     (if GetFrameType p \<noteq> 4 then Some n
      else
        do { a1 \<leftarrow> rds p 4 6;
             if a1 \<noteq> q_mac n \<or> GetFrameSubType p \<noteq> 0xa4 then Some n
             else
               do { a2 \<leftarrow> rds p 10 6;
                    w \<leftarrow> rd_le16 p 2;
                    Some (case rtw_get_stainfo (q_table n) a2 of None \<Rightarrow> n
                      | Some i \<Rightarrow>
                          (if q_aid (q_stas n ! i) \<noteq> w mod 0x4000 \<or> bit (uapsd_of (q_stas n ! i) priority) 0 then n
                           else ps_poll i n)) } })"

section \<open>Broadcast frames after a beacon\<close>

text \<open>\<^verbatim>\<open>tx_beacon_hdl\<close>, and \<^verbatim>\<open>rtw_chk_hi_queue_hdl\<close> with the answer of the hardware.\<close>

definition tx_beacon_hdl :: "tx_queues \<Rightarrow> tx_queues" where
  "tx_beacon_hdl n =
     (case rtw_get_stainfo (q_table n) bc_addr of None \<Rightarrow> n
      | Some b \<Rightarrow>
          (if bit (q_tim n) 0 \<and> sleepq_len (q_stas n ! b) > 0 then wake_bmc (Some 0x11) b (sleepq (q_stas n ! b)) n else n))"

definition rtw_chk_hi_queue_hdl :: "bool \<Rightarrow> tx_queues \<Rightarrow> tx_queues" where
  "rtw_chk_hi_queue_hdl hiq_empty n =
     (case rtw_get_stainfo (q_table n) bc_addr of None \<Rightarrow> n
      | Some b \<Rightarrow>
          (if sleepq_len (q_stas n ! b) \<noteq> 0 then n
           else if hiq_empty then update_tim (clear_dz 0 (clear_tim 0 n)) else out ChkHiQueue n))"

section \<open>Transmission\<close>

text \<open>The queue of the hardware.\<close>

definition HIGH_QUEUE_INX :: nat where "HIGH_QUEUE_INX = 6"

definition rtw_get_ff_hwaddr :: "qframe \<Rightarrow> nat" where
  "rtw_get_ff_hwaddr f =
     (let q = qf_qsel f in
      if q = 0 \<or> q = 3 then 2 else if q = 1 \<or> q = 2 then 3 else if q = 4 \<or> q = 5 then 1 else if q = 6 \<or> q = 7 then 0
      else if q = 0x10 then 4 else if q = 0x11 then HIGH_QUEUE_INX else 5)"

text \<open>\<^verbatim>\<open>usb_write_port\<close>: the USB core refuses a request that is still in flight; \<open>usb\<close> tells whether it takes
  another one. A buffer that is not taken is free again.\<close>

definition usb_write_port :: "bool \<Rightarrow> qframe \<Rightarrow> nat \<Rightarrow> tx_queues \<Rightarrow> tx_queues" where
  "usb_write_port usb f b n =
     (if q_stopped n \<or> b \<in> fst ` set (q_flight n) \<or> \<not> usb then rtw_free_xmitbuf b n
      else out (Submit f b) (n\<lparr>q_flight := q_flight n @ [(b, rtw_get_ff_hwaddr f = HIGH_QUEUE_INX)]\<rparr>))"

definition usb_write_port_complete :: "nat \<Rightarrow> tx_queues \<Rightarrow> tx_queues" where
  "usb_write_port_complete b n =
     (case map_of (q_flight n) b of None \<Rightarrow> n
      | Some hiq \<Rightarrow>
          (let n = n\<lparr>q_flight := filter (\<lambda>(b', _). b' \<noteq> b) (q_flight n)\<rparr>
           in out Tasklet (rtw_free_xmitbuf b (if hiq then out ChkHiQueue n else n))))"

text \<open>\<^verbatim>\<open>rtw_dump_xframe\<close> hands the buffer over for every fragment.\<close>

definition rtw_dump_xframe :: "bool \<Rightarrow> nat \<Rightarrow> qframe \<Rightarrow> nat \<Rightarrow> tx_queues \<Rightarrow> tx_queues" where
  "rtw_dump_xframe usb nfrag f b n = rtw_free_xmitframe f ((usb_write_port usb f b ^^ nfrag) n)"

text \<open>What coalescing (\<open>TxPath\<close>) and the USB core do with a frame: success, the number of fragments, and
  whether the request is taken.\<close>

type_synonym tx_env = "qframe \<Rightarrow> bool \<times> nat \<times> bool"

definition rtl8192cu_xmitframe_complete :: "tx_env \<Rightarrow> tx_queues \<Rightarrow> bool \<times> tx_queues" where
  "rtl8192cu_xmitframe_complete env n =
     (case rtw_alloc_xmitbuf n of
        (None, n) \<Rightarrow> (False, n)
      | (Some b, n) \<Rightarrow>
          (case rtw_dequeue_xframe n of
             None \<Rightarrow> (False, rtw_free_xmitbuf b n)
           | Some (f, n) \<Rightarrow>
               (let (ok, nfrag, usb) = env f in
                (True, if ok then rtw_dump_xframe usb nfrag f b n
                       else rtw_free_xmitframe f (rtw_free_xmitbuf b n)))))"

text \<open>\<^verbatim>\<open>rtl8192cu_xmit_tasklet\<close>; \<open>None\<close> would be a loop without end.\<close>

partial_function (option) rtl8192cu_xmit_tasklet :: "tx_env \<Rightarrow> tx_queues \<Rightarrow> tx_queues option" where
  "rtl8192cu_xmit_tasklet env n =
     (if check_fwstate (q_fw_state n) FW_UNDER_SURVEY \<or> q_stopped n then Some n
      else
        (let (again, n) = rtl8192cu_xmitframe_complete env n
         in if again then rtl8192cu_xmit_tasklet env n else Some n))"

definition rtw_txframes_sta_ac_pending :: "qframe \<Rightarrow> tx_queues \<Rightarrow> int" where
  "rtw_txframes_sta_ac_pending f n =
     (case frame_sta n f of None \<Rightarrow> 0
      | Some i \<Rightarrow> (if q_linked n i then q_cnt (q_stas n ! i) ! ac_index (qf_priority f) else 0))"

text \<open>\<^verbatim>\<open>pre_xmitframe\<close> yields whether the frame was handled at once.\<close>

definition xmit_enqueue :: "qframe \<Rightarrow> tx_queues \<Rightarrow> bool \<times> tx_queues" where
  "xmit_enqueue f n =
     (case rtw_xmit_classifier f n of
        None \<Rightarrow> (let n = rtw_free_xmitframe f n in (True, n\<lparr>q_tx_pkts := q_tx_pkts n - 1, q_tx_drop := q_tx_drop n + 1\<rparr>))
      | Some n \<Rightarrow> (False, n))"

definition pre_xmitframe :: "tx_env \<Rightarrow> qframe \<Rightarrow> tx_queues \<Rightarrow> bool \<times> tx_queues" where
  "pre_xmitframe env f n =
     (case xmitframe_enqueue_for_sleeping_sta (f\<lparr>qf_qsel := qf_priority f\<rparr>) n of
        (True, f, n) \<Rightarrow>
          (False, case frame_sta n f of None \<Rightarrow> n
             | Some i \<Rightarrow> (if sleepq_len (q_stas n ! i) > 32 then wakeup_sta_to_xmit i n else n))
      | (False, f, n) \<Rightarrow>
          (if rtw_txframes_sta_ac_pending f n > 0 \<or> check_fwstate (q_fw_state n) (FW_UNDER_SURVEY OR FW_UNDER_LINKING)
           then xmit_enqueue f n
           else
             (case rtw_alloc_xmitbuf n of
                (None, n) \<Rightarrow> xmit_enqueue f n
              | (Some b, n) \<Rightarrow>
                  (let (ok, nfrag, usb) = env f in
                   (True, if ok then rtw_dump_xframe usb nfrag f b n
                          else rtw_free_xmitframe f (rtw_free_xmitbuf b n))))))"

text \<open>\<^verbatim>\<open>rtw_xmit\<close> for a packet with the receiver, station and priority that \<^verbatim>\<open>update_attrib\<close> finds, if it accepts the packet:
  0 for a frame that is handled, 1 for one that is queued and -1 for a refusal.\<close>

definition rtw_xmit :: "tx_env \<Rightarrow> (bytes \<times> nat option \<times> nat) option \<Rightarrow> tx_queues \<Rightarrow> int \<times> tx_queues" where
  "rtw_xmit env attribs n =
     (case rtw_alloc_xmitframe n of
        (None, n) \<Rightarrow> (-1, n)
      | (Some f, n) \<Rightarrow>
          (case attribs of
             None \<Rightarrow> (-1, rtw_free_xmitframe f n)
           | Some (ra, sta, prio) \<Rightarrow>
               (case xmitframe_enqueue_for_sleeping_sta (f\<lparr>qf_ra := ra, qf_psta := sta, qf_priority := prio, qf_qsel := prio\<rparr>) n of
                  (True, _, n) \<Rightarrow> (1, n)
                | (False, f, n) \<Rightarrow> (let (handled, n) = pre_xmitframe env f n in (if handled then 0 else 1, n)))))"

section \<open>Start and release\<close>

text \<open>What \<^verbatim>\<open>_rtw_init_xmit_priv\<close> sets up.\<close>

definition init_xmit_queues :: "tx_queues \<Rightarrow> tx_queues" where
  "init_xmit_queues n = n\<lparr>q_hw := [[], [], [], []], q_accnt := [0, 0, 0, 0], q_free := [0 ..< NR_XMITFRAME], q_free_cnt := int NR_XMITFRAME,
     q_bufs := [0 ..< NR_XMITBUFF], q_buf_cnt := int NR_XMITBUFF, q_flight := [], q_wmm_seq := [0, 1, 2, 3]\<rparr>"

text \<open>What \<^verbatim>\<open>_rtw_init_stainfo\<close> and \<^verbatim>\<open>rtw_free_stainfo\<close> do with the queues.\<close>

definition init_q_sta :: q_sta where
  "init_q_sta = \<lparr>q_aid = 0, q_qos_option = False, q_qos_info = 0, uapsd_bk = 0, uapsd_be = 0, uapsd_vi = 0, uapsd_vo = 0,
     has_legacy_ac = False, sleepq = [], sleepq_len = 0, sleepq_ac_len = 0, q_pending = [[], [], [], []], q_cnt = [0, 0, 0, 0],
     q_expire_to = 0\<rparr>"

definition free_ac :: "nat \<Rightarrow> nat \<Rightarrow> tx_queues \<Rightarrow> tx_queues" where
  "free_ac i ac n =
     (let s = q_stas n ! i; n = rtw_free_xmitframe_queue (q_pending s ! ac) n;
          n = n\<lparr>q_hw := (q_hw n)[ac := removeAll i (q_hw n ! ac)], q_accnt := (q_accnt n)[ac := q_accnt n ! ac - q_cnt s ! ac]\<rparr>
      in upd_q i (\<lambda>s. s\<lparr>q_pending := (q_pending s)[ac := []], q_cnt := (q_cnt s)[ac := 0]\<rparr>) n)"

definition free_sta_queues :: "nat \<Rightarrow> tx_queues \<Rightarrow> tx_queues" where
  "free_sta_queues i n =
     (let n = set_q_state i (q_state n i AND NOT FW_LINKED) n;
          n = rtw_free_xmitframe_queue (sleepq (q_stas n ! i)) n;
          n = upd_q i (\<lambda>s. s\<lparr>sleepq := [], sleepq_len := 0\<rparr>) n;
          n = free_ac i 3 (free_ac i 2 (free_ac i 1 (free_ac i 0 n)));
          n = upd_q i (\<lambda>s. s\<lparr>q_expire_to := 0, sleepq_ac_len := 0, q_qos_info := 0, uapsd_bk := 0, uapsd_be := 0,
                uapsd_vi := 0, uapsd_vo := 0, has_legacy_ac := False\<rparr>) n;
          a = q_aid (q_stas n ! i) in
      if a > 31 then n
      else
        (let n = clear_tim a (clear_dz a n) in
         if a > 0 \<and> q_aids n ! (a - 1) = Some i
         then upd_q i (\<lambda>s. s\<lparr>q_aid := 0\<rparr>) (n\<lparr>q_aids := (q_aids n)[a - 1 := None]\<rparr>) else n))"

end
