(* ===== verification/TxQueueInv.thy ===== *)
theory TxQueueInv
  imports TxQueues RxFilter
begin

text \<open>
  Every transmit frame is in exactly one place: the pool, the sleep queue of a station or one of its four
  transmit queues; the counters agree with the queues. Every operation of \<open>TxQueues\<close> keeps this.
\<close>

section \<open>The invariant\<close>

definition frames_of :: "q_sta \<Rightarrow> nat multiset" where
  "frames_of s = mset (map qf_id (sleepq s)) + mset (map qf_id (concat (q_pending s)))"

definition frame_ids :: "tx_queues \<Rightarrow> nat multiset" where
  "frame_ids n = mset (q_free n) + (\<Sum>s\<leftarrow>q_stas n. frames_of s)"

text \<open>A station's counters agree with its queues, which hold its own frames, each in the queue of
  its access category; frames to groups belong to the broadcast station, in slot \<open>bm\<close>.\<close>

definition own_frame :: "nat option \<Rightarrow> nat \<Rightarrow> qframe \<Rightarrow> bool" where
  "own_frame bm i f \<longleftrightarrow> qf_psta f = Some i \<and> (is_multicast_ether_addr (qf_ra f) \<longleftrightarrow> bm = Some i)"

definition q_sta_ok :: "nat option \<Rightarrow> nat \<Rightarrow> q_sta \<Rightarrow> bool" where
  "q_sta_ok bm i s \<longleftrightarrow> length (q_pending s) = 4 \<and> q_cnt s = map (\<lambda>q. int (length q)) (q_pending s)
     \<and> sleepq_len s = of_nat (length (sleepq s)) \<and> (\<forall>f \<in> set (sleepq s). own_frame bm i f)
     \<and> (\<forall>ac < 4. \<forall>f \<in> set (q_pending s ! ac). own_frame bm i f \<and> ac_index (qf_priority f) = ac)"

definition queues_ok :: "nat option \<Rightarrow> tx_queues \<Rightarrow> bool" where
  "queues_ok bm n \<longleftrightarrow> length (q_hw n) = 4
     \<and> q_accnt n = map (\<lambda>ac. \<Sum>s\<leftarrow>q_stas n. q_cnt s ! ac) [0 ..< 4]
     \<and> (\<forall>i < length (q_stas n). q_sta_ok bm i (q_stas n ! i))
     \<and> (\<forall>ac < 4. set (q_hw n ! ac) \<subseteq> {..< length (q_stas n)})
     \<and> (\<forall>a i. rtw_get_stainfo (q_table n) a = Some i \<longrightarrow> i < length (q_stas n))
     \<and> q_free_cnt n = int (length (q_free n)) \<and> set (q_wmm_seq n) = {..< 4}"

section \<open>Updates of one station\<close>

lemma sum_list_replace:
  fixes g :: "'a \<Rightarrow> 'b :: comm_monoid_add"
  assumes "i < length xs"
  shows "sum_list (map g (xs[i := y])) + g (xs ! i) = sum_list (map g xs) + g y"
proof -
  have "xs = take i xs @ xs ! i # drop (Suc i) xs" using assms by (rule id_take_nth_drop)
  then have "sum_list (map g xs) = sum_list (map g (take i xs)) + g (xs ! i) + sum_list (map g (drop (Suc i) xs))"
    by (metis (no_types, lifting) add.assoc list.simps(9) map_append sum_list.Cons sum_list.append)
  moreover have "sum_list (map g (xs[i := y])) = sum_list (map g (take i xs)) + g y + sum_list (map g (drop (Suc i) xs))"
    using assms by (simp add: upd_conv_take_nth_drop add.assoc)
  ultimately show ?thesis by (simp add: ac_simps)
qed

lemma upd_q_fields [simp]:
  "q_hw (upd_q i g n) = q_hw n" "q_accnt (upd_q i g n) = q_accnt n" "q_free (upd_q i g n) = q_free n"
  "q_free_cnt (upd_q i g n) = q_free_cnt n" "q_table (upd_q i g n) = q_table n" "q_dz (upd_q i g n) = q_dz n"
  "q_tim (upd_q i g n) = q_tim n" "q_out (upd_q i g n) = q_out n" "q_fw_state (upd_q i g n) = q_fw_state n"
  "length (q_stas (upd_q i g n)) = length (q_stas n)" "q_wmm_seq (upd_q i g n) = q_wmm_seq n"
  by (simp_all add: upd_q_def)

lemma upd_q_sta: "i < length (q_stas n) \<Longrightarrow> q_stas (upd_q i g n) ! j = (if j = i then g (q_stas n ! i) else q_stas n ! j)"
  by (simp add: upd_q_def nth_list_update)

lemma upd_q_proj: "(\<And>s. p (g s) = p s) \<Longrightarrow> p (q_stas (upd_q i g m) ! j) = p (q_stas m ! j)"
  by (cases "i < length (q_stas m)") (auto simp: upd_q_def nth_list_update list_update_beyond)

lemma set_q_state_fields [simp]:
  "q_hw (set_q_state i st n) = q_hw n" "q_accnt (set_q_state i st n) = q_accnt n" "q_free (set_q_state i st n) = q_free n"
  "q_free_cnt (set_q_state i st n) = q_free_cnt n" "q_stas (set_q_state i st n) = q_stas n" "q_dz (set_q_state i st n) = q_dz n"
  "q_tim (set_q_state i st n) = q_tim n" "q_out (set_q_state i st n) = q_out n" "q_fw_state (set_q_state i st n) = q_fw_state n"
  "q_wmm_seq (set_q_state i st n) = q_wmm_seq n"
  by (simp_all add: set_q_state_def)

lemma get_set_q_state [simp]: "rtw_get_stainfo (q_table (set_q_state i st n)) a = rtw_get_stainfo (q_table n) a"
proof -
  have "hwaddr ((sta_buf t)[i := (sta_buf t ! i)\<lparr>sta_state := st\<rparr>] ! p) = hwaddr (sta_buf t ! p)" for p and t :: sta_priv
    by (cases "i < length (sta_buf t)") (auto simp: nth_list_update list_update_beyond)
  then show ?thesis by (simp add: rtw_get_stainfo_def set_q_state_def)
qed

lemma bits_fields [simp]:
  "q_hw (set_tim a n) = q_hw n" "q_accnt (set_tim a n) = q_accnt n" "q_free (set_tim a n) = q_free n"
  "q_free_cnt (set_tim a n) = q_free_cnt n" "q_stas (set_tim a n) = q_stas n" "q_table (set_tim a n) = q_table n"
  "q_hw (clear_tim a n) = q_hw n" "q_accnt (clear_tim a n) = q_accnt n" "q_free (clear_tim a n) = q_free n"
  "q_free_cnt (clear_tim a n) = q_free_cnt n" "q_stas (clear_tim a n) = q_stas n" "q_table (clear_tim a n) = q_table n"
  "q_hw (set_dz a n) = q_hw n" "q_accnt (set_dz a n) = q_accnt n" "q_free (set_dz a n) = q_free n"
  "q_free_cnt (set_dz a n) = q_free_cnt n" "q_stas (set_dz a n) = q_stas n" "q_table (set_dz a n) = q_table n"
  "q_hw (clear_dz a n) = q_hw n" "q_accnt (clear_dz a n) = q_accnt n" "q_free (clear_dz a n) = q_free n"
  "q_free_cnt (clear_dz a n) = q_free_cnt n" "q_stas (clear_dz a n) = q_stas n" "q_table (clear_dz a n) = q_table n"
  "q_hw (out e n) = q_hw n" "q_accnt (out e n) = q_accnt n" "q_free (out e n) = q_free n"
  "q_free_cnt (out e n) = q_free_cnt n" "q_stas (out e n) = q_stas n" "q_table (out e n) = q_table n"
  "q_hw (update_tim n) = q_hw n" "q_accnt (update_tim n) = q_accnt n" "q_free (update_tim n) = q_free n"
  "q_free_cnt (update_tim n) = q_free_cnt n" "q_stas (update_tim n) = q_stas n" "q_table (update_tim n) = q_table n"
  "q_wmm_seq (set_tim a n) = q_wmm_seq n" "q_wmm_seq (clear_tim a n) = q_wmm_seq n" "q_wmm_seq (set_dz a n) = q_wmm_seq n"
  "q_wmm_seq (clear_dz a n) = q_wmm_seq n" "q_wmm_seq (out e n) = q_wmm_seq n" "q_wmm_seq (update_tim n) = q_wmm_seq n"
  by (simp_all add: set_tim_def clear_tim_def set_dz_def clear_dz_def out_def update_tim_def)

text \<open>The invariant and the frames depend on the queues only.\<close>

definition same_queues :: "tx_queues \<Rightarrow> tx_queues \<Rightarrow> bool" where
  "same_queues n m \<longleftrightarrow> q_hw m = q_hw n \<and> q_accnt m = q_accnt n \<and> q_stas m = q_stas n \<and> q_free m = q_free n
     \<and> q_free_cnt m = q_free_cnt n \<and> q_wmm_seq m = q_wmm_seq n
     \<and> (\<forall>a. rtw_get_stainfo (q_table m) a = rtw_get_stainfo (q_table n) a)"

lemma same_queues_ok: "same_queues n m \<Longrightarrow> queues_ok bm m = queues_ok bm n \<and> frame_ids m = frame_ids n"
  by (simp add: same_queues_def queues_ok_def frame_ids_def)

lemma same_queues_intros:
  "same_queues n n" "same_queues n (set_q_state i st n)" "same_queues n (set_tim a n)" "same_queues n (clear_tim a n)"
  "same_queues n (set_dz a n)" "same_queues n (clear_dz a n)" "same_queues n (out e n)" "same_queues n (update_tim n)"
  by (simp_all add: same_queues_def)

lemma queues_ok_simps [simp]:
  "queues_ok bm (set_q_state i st n) = queues_ok bm n" "queues_ok bm (set_tim a n) = queues_ok bm n" "queues_ok bm (clear_tim a n) = queues_ok bm n"
  "queues_ok bm (set_dz a n) = queues_ok bm n" "queues_ok bm (clear_dz a n) = queues_ok bm n" "queues_ok bm (out e n) = queues_ok bm n"
  "queues_ok bm (update_tim n) = queues_ok bm n"
  using same_queues_intros same_queues_ok by blast+

lemma frame_ids_simps [simp]:
  "frame_ids (set_q_state i st n) = frame_ids n" "frame_ids (set_tim a n) = frame_ids n" "frame_ids (clear_tim a n) = frame_ids n"
  "frame_ids (set_dz a n) = frame_ids n" "frame_ids (clear_dz a n) = frame_ids n" "frame_ids (out e n) = frame_ids n"
  "frame_ids (update_tim n) = frame_ids n"
  using same_queues_intros same_queues_ok by blast+

lemma frame_ids_upd:
  assumes "i < length (q_stas n)"
  shows "frame_ids (upd_q i g n) + frames_of (q_stas n ! i) = frame_ids n + frames_of (g (q_stas n ! i))"
  using sum_list_replace [OF assms, of frames_of "g (q_stas n ! i)"] by (simp add: frame_ids_def upd_q_def ac_simps)

lemma accnt_upd:
  assumes "i < length (q_stas n)"
  shows "(\<Sum>s\<leftarrow>q_stas (upd_q i g n). q_cnt s ! ac) = (\<Sum>s\<leftarrow>q_stas n. q_cnt s ! ac) + (q_cnt (g (q_stas n ! i)) ! ac - q_cnt (q_stas n ! i) ! ac)"
  using sum_list_replace [OF assms, of "\<lambda>s. q_cnt s ! ac" "g (q_stas n ! i)"] by (simp add: upd_q_def)

text \<open>A change that leaves the transmit queues alone.\<close>

lemma queues_ok_upd:
  assumes "queues_ok bm n" "i < length (q_stas n)" "q_sta_ok bm i (g (q_stas n ! i))" "q_cnt (g (q_stas n ! i)) = q_cnt (q_stas n ! i)"
  shows "queues_ok bm (upd_q i g n)"
  using assms by (simp add: queues_ok_def accnt_upd [OF assms(2)] upd_q_sta)

text \<open>A change of one transmit queue, with its counters.\<close>

lemma queues_ok_upd_ac:
  assumes n: "queues_ok bm n" "i < length (q_stas n)" and g: "q_sta_ok bm i (g (q_stas n ! i))" and ac: "ac < 4"
    and c: "q_cnt (g (q_stas n ! i)) = (q_cnt (q_stas n ! i))[ac := c]" and a: "c' = q_accnt n ! ac + (c - q_cnt (q_stas n ! i) ! ac)"
  shows "queues_ok bm (upd_q i g n\<lparr>q_accnt := (q_accnt n)[ac := c']\<rparr>)"
proof -
  have q: "q_sta_ok bm i (q_stas n ! i)" using n by (simp add: queues_ok_def)
  have acc: "q_accnt n = map (\<lambda>ac. \<Sum>s\<leftarrow>q_stas n. q_cnt s ! ac) [0 ..< 4]" using n by (simp add: queues_ok_def)
  have len: "length (q_cnt (q_stas n ! i)) = 4" using q by (simp add: q_sta_ok_def)
  have "(q_accnt n)[ac := c'] = map (\<lambda>k. \<Sum>s\<leftarrow>q_stas (upd_q i g n). q_cnt s ! k) [0 ..< 4]"
  proof (rule nth_equalityI)
    fix k assume "k < length ((q_accnt n)[ac := c'])"
    then have k: "k < 4" by (simp add: acc)
    then show "(q_accnt n)[ac := c'] ! k = map (\<lambda>k. \<Sum>s\<leftarrow>q_stas (upd_q i g n). q_cnt s ! k) [0 ..< 4] ! k"
      using ac len a by (auto simp: nth_list_update c accnt_upd [OF n(2)] acc)
  qed (simp add: acc)
  then show ?thesis using n g by (simp add: queues_ok_def upd_q_sta)
qed

section \<open>Flow of frames\<close>

text \<open>Frames \<open>h\<close> in the hands of an operation go in, and \<open>h'\<close> remain in them.\<close>

definition flow :: "nat option \<Rightarrow> tx_queues \<Rightarrow> nat multiset \<Rightarrow> tx_queues \<Rightarrow> nat multiset \<Rightarrow> bool" where
  "flow bm n h m h' \<longleftrightarrow> queues_ok bm m \<and> frame_ids n + h = frame_ids m + h' \<and> length (q_stas m) = length (q_stas n)"

lemma flow_refl: "queues_ok bm n \<Longrightarrow> flow bm n h n h" by (simp add: flow_def)

lemma flow_trans: "flow bm n h m h' \<Longrightarrow> flow bm m h' k h'' \<Longrightarrow> flow bm n h k h''" by (simp add: flow_def)

lemma flow_frame: "flow bm n h m h' \<Longrightarrow> flow bm n (h + x) m (h' + x)" by (simp add: flow_def ac_simps)

lemma flow_same: "queues_ok bm n \<Longrightarrow> same_queues n m \<Longrightarrow> flow bm n h m h"
  using same_queues_ok [of n m] by (simp add: flow_def same_queues_def)

lemma flow_ok: "flow bm n h m h' \<Longrightarrow> queues_ok bm m" "flow bm n h m h' \<Longrightarrow> length (q_stas m) = length (q_stas n)"
  by (simp_all add: flow_def)

lemma ac_index_less [simp]: "ac_index up < 4" by (simp add: ac_index_def)

lemma sta_queues:
  assumes "queues_ok bm n" "i < length (q_stas n)"
  shows "q_sta_ok bm i (q_stas n ! i)"
  using assms by (simp add: queues_ok_def)

text \<open>Changes of one station.\<close>

lemma flow_upd:
  assumes "queues_ok bm n" "i < length (q_stas n)" "q_sta_ok bm i (g (q_stas n ! i))" "q_cnt (g (q_stas n ! i)) = q_cnt (q_stas n ! i)"
    and "frames_of (q_stas n ! i) + h = frames_of (g (q_stas n ! i)) + h'"
  shows "flow bm n h (upd_q i g n) h'"
proof -
  have "frame_ids n + h + frames_of (q_stas n ! i) + frames_of (g (q_stas n ! i))
      = frame_ids (upd_q i g n) + h' + frames_of (q_stas n ! i) + frames_of (g (q_stas n ! i))"
    using frame_ids_upd [OF assms(2), of g] assms(5) by (simp add: ac_simps)
  then show ?thesis using queues_ok_upd [of bm n i g, OF assms(1-4)] by (simp add: flow_def)
qed

lemma frame_ids_accnt [simp]: "frame_ids (n\<lparr>q_accnt := c\<rparr>) = frame_ids n" "frame_ids (n\<lparr>q_hw := w\<rparr>) = frame_ids n"
  by (simp_all add: frame_ids_def)

lemma flow_upd_ac:
  assumes "queues_ok bm n" "i < length (q_stas n)" "q_sta_ok bm i (g (q_stas n ! i))" "ac < 4"
    and "q_cnt (g (q_stas n ! i)) = (q_cnt (q_stas n ! i))[ac := c]" "c' = q_accnt n ! ac + (c - q_cnt (q_stas n ! i) ! ac)"
    and "frames_of (q_stas n ! i) + h = frames_of (g (q_stas n ! i)) + h'"
  shows "flow bm n h (upd_q i g n\<lparr>q_accnt := (q_accnt n)[ac := c']\<rparr>) h'"
proof -
  have "frame_ids n + h + frames_of (q_stas n ! i) + frames_of (g (q_stas n ! i))
      = frame_ids (upd_q i g n) + h' + frames_of (q_stas n ! i) + frames_of (g (q_stas n ! i))"
    using frame_ids_upd [OF assms(2), of g] assms(7) by (simp add: ac_simps)
  then show ?thesis using queues_ok_upd_ac [of bm n i g ac c c', OF assms(1-6)] by (simp add: flow_def)
qed

lemma queues_ok_hw:
  assumes "queues_ok bm n" "set q \<subseteq> {..< length (q_stas n)}"
  shows "queues_ok bm (n\<lparr>q_hw := (q_hw n)[ac := q]\<rparr>)"
proof -
  have "set ((q_hw n)[ac := q] ! k) \<subseteq> {..< length (q_stas n)}" if "k < 4" for k
    using assms that by (cases "k = ac") (simp_all add: queues_ok_def)
  then show ?thesis using assms(1) by (simp add: queues_ok_def)
qed

text \<open>The transmit queue of a station with another list of frames.\<close>

lemma concat_update:
  assumes "k < length xs"
  shows "mset (concat (xs[k := y])) + mset (xs ! k) = mset (concat xs) + mset y"
  using sum_list_replace [OF assms, of mset y] by (simp add: mset_concat)

lemma frames_of_pending:
  assumes "k < length (q_pending s)"
  shows "frames_of (s\<lparr>q_pending := (q_pending s)[k := fs]\<rparr>) + mset (map qf_id (q_pending s ! k)) = frames_of s + mset (map qf_id fs)"
proof -
  have "image_mset qf_id (mset (concat ((q_pending s)[k := fs]))) + image_mset qf_id (mset (q_pending s ! k))
      = image_mset qf_id (mset (concat (q_pending s))) + image_mset qf_id (mset fs)"
    unfolding image_mset_union [symmetric] concat_update [OF assms] ..
  then show ?thesis by (simp add: frames_of_def ac_simps)
qed

lemma frames_of_cnt [simp]: "frames_of (s\<lparr>q_cnt := c\<rparr>) = frames_of s"
  by (simp add: frames_of_def)

section \<open>The pools\<close>

lemma flow_free:
  assumes "queues_ok bm n"
  shows "flow bm n {#qf_id f#} (rtw_free_xmitframe f n) {#}"
  using assms by (simp add: flow_def rtw_free_xmitframe_def queues_ok_def frame_ids_def)

lemma flow_free_queue:
  assumes "queues_ok bm n"
  shows "flow bm n (mset (map qf_id fs)) (rtw_free_xmitframe_queue fs n) {#}"
  using assms
proof (induction fs arbitrary: n)
  case Nil
  then show ?case by (simp add: rtw_free_xmitframe_queue_def flow_refl)
next
  case (Cons f fs)
  have "flow bm n (mset (map qf_id (f # fs))) (rtw_free_xmitframe f n) (mset (map qf_id fs))"
    using flow_frame [OF flow_free [OF Cons.prems, of f], of "mset (map qf_id fs)"] by simp
  from flow_trans [OF this Cons.IH [OF flow_ok(1) [OF this]]] show ?case by (simp add: rtw_free_xmitframe_queue_def)
qed

lemma flow_alloc:
  assumes "queues_ok bm n" "rtw_alloc_xmitframe n = (Some f, n')"
  shows "flow bm n {#} n' {#qf_id f#}"
proof -
  obtain k ks where k: "q_free n = k # ks" "f = new_qframe k" "n' = n\<lparr>q_free := ks, q_free_cnt := q_free_cnt n - 1\<rparr>"
    using assms(2) by (cases "q_free n") (auto simp: rtw_alloc_xmitframe_def)
  show ?thesis using assms(1) by (simp add: flow_def k new_qframe_def queues_ok_def frame_ids_def)
qed

section \<open>Queueing and dequeueing\<close>

lemma pending_ok:
  assumes "q_sta_ok bm i s" "ac < 4" "\<forall>f \<in> set fs. own_frame bm i f \<and> ac_index (qf_priority f) = ac"
  shows "q_sta_ok bm i (s\<lparr>q_pending := (q_pending s)[ac := fs], q_cnt := (q_cnt s)[ac := int (length fs)]\<rparr>)"
  using assms by (auto simp: q_sta_ok_def map_update nth_list_update)

lemma flow_classifier:
  assumes n: "queues_ok bm n" "own_frame bm i f" "i < length (q_stas n)" and c: "rtw_xmit_classifier f n = Some n'"
  shows "flow bm n {#qf_id f#} n' {#}"
proof -
  define ac where "ac = ac_index (qf_priority f)"
  define m where "m = (if i \<in> set (q_hw n ! ac) then n else n\<lparr>q_hw := (q_hw n)[ac := q_hw n ! ac @ [i]]\<rparr>)"
  have ac: "ac < 4" by (simp add: ac_def)
  have sub: "set (q_hw n ! ac) \<subseteq> {..< length (q_stas n)}" using n(1) ac by (simp add: queues_ok_def)
  have m: "queues_ok bm m" "q_stas m = q_stas n" "q_accnt m = q_accnt n" "frame_ids m = frame_ids n"
    using n queues_ok_hw [OF n(1), of "q_hw n ! ac @ [i]" ac] sub by (auto simp: m_def)
  define s where "s = q_stas n ! i"
  have s: "q_sta_ok bm i s" using sta_queues [OF n(1,3)] by (simp add: s_def)
  have len: "length (q_pending s) = 4" "q_cnt s = map (\<lambda>q. int (length q)) (q_pending s)" using s by (simp_all add: q_sta_ok_def)
  define g :: "q_sta \<Rightarrow> q_sta" where "g = (\<lambda>s. s\<lparr>q_pending := (q_pending s)[ac := q_pending s ! ac @ [f]], q_cnt := (q_cnt s)[ac := q_cnt s ! ac + 1]\<rparr>)"
  have gs: "g s = s\<lparr>q_pending := (q_pending s)[ac := q_pending s ! ac @ [f]], q_cnt := (q_cnt s)[ac := int (length (q_pending s ! ac @ [f]))]\<rparr>"
    using len ac by (simp add: g_def add.commute)
  have own: "\<forall>f \<in> set (q_pending s ! ac). own_frame bm i f \<and> ac_index (qf_priority f) = ac" using s ac by (simp add: q_sta_ok_def)
  have "q_sta_ok bm i (g s)" unfolding gs
    by (rule pending_ok [OF s ac]) (use own n(2) in \<open>auto simp: ac_def\<close>)
  moreover have "frames_of s + {#qf_id f#} = frames_of (g s) + {#}"
    using frames_of_pending [of ac s "q_pending s ! ac @ [f]"] len ac by (simp add: g_def)
  ultimately have "flow bm m {#qf_id f#} (upd_q i g m\<lparr>q_accnt := (q_accnt m)[ac := q_accnt m ! ac + 1]\<rparr>) {#}"
    using flow_upd_ac [OF m(1), of i g ac "q_cnt s ! ac + 1" _ "{#qf_id f#}" "{#}"] n(3) ac m(2) by (simp add: s_def g_def)
  moreover have "n' = upd_q i g m\<lparr>q_accnt := (q_accnt m)[ac := q_accnt m ! ac + 1]\<rparr>"
    using c n(2) by (auto simp: rtw_xmit_classifier_def frame_sta_def own_frame_def Let_def m_def ac_def g_def split: if_splits)
  ultimately show ?thesis using m by (simp add: flow_def)
qed

lemma flow_hal_enqueue:
  assumes n: "queues_ok bm n" "own_frame bm i f" "i < length (q_stas n)"
  shows "flow bm n {#qf_id f#} (rtl8723au_hal_xmitframe_enqueue f n) {#}"
proof (cases "rtw_xmit_classifier f n")
  case None
  have "same_queues m (m\<lparr>q_tx_pkts := a, q_tx_drop := b\<rparr>)" for m a b by (simp add: same_queues_def)
  with flow_trans [OF flow_free [OF n(1)] flow_same [OF flow_ok(1) [OF flow_free [OF n(1)]]]] None show ?thesis
    by (simp add: rtl8723au_hal_xmitframe_enqueue_def Let_def)
next
  case (Some n')
  have c: "flow bm n {#qf_id f#} n' {#}" by (rule flow_classifier [OF n Some])
  from flow_trans [OF c flow_same [OF flow_ok(1) [OF c] same_queues_intros(7)]] show ?thesis
    by (simp add: rtl8723au_hal_xmitframe_enqueue_def Some)
qed

lemma flow_dequeue_one:
  assumes n: "queues_ok bm n" "i < length (q_stas n)" "ac < 4" and d: "dequeue_one_xmitframe i ac n = Some (f, n')"
  shows "flow bm n {#} (n'\<lparr>q_accnt := (q_accnt n')[ac := q_accnt n' ! ac - 1]\<rparr>) {#qf_id f#}" "own_frame bm i f" "ac_index (qf_priority f) = ac"
proof -
  define s where "s = q_stas n ! i"
  have s: "q_sta_ok bm i s" using sta_queues [OF n(1,2)] by (simp add: s_def)
  have len: "length (q_pending s) = 4" "q_cnt s = map (\<lambda>q. int (length q)) (q_pending s)" using s by (simp_all add: q_sta_ok_def)
  obtain fs where fs: "q_pending s ! ac = f # fs" using d by (auto simp: dequeue_one_xmitframe_def s_def split: list.splits)
  define g :: "q_sta \<Rightarrow> q_sta" where "g = (\<lambda>s. s\<lparr>q_pending := (q_pending s)[ac := fs], q_cnt := (q_cnt s)[ac := q_cnt s ! ac - 1]\<rparr>)"
  have n': "n' = upd_q i g n" using d fs by (simp add: dequeue_one_xmitframe_def s_def g_def)
  have gs: "g s = s\<lparr>q_pending := (q_pending s)[ac := fs], q_cnt := (q_cnt s)[ac := int (length fs)]\<rparr>"
    using len n(3) by (simp add: g_def fs)
  have own: "\<forall>f \<in> set (q_pending s ! ac). own_frame bm i f \<and> ac_index (qf_priority f) = ac" using s n(3) by (simp add: q_sta_ok_def)
  then show "own_frame bm i f" "ac_index (qf_priority f) = ac" by (simp_all add: fs)
  have "q_sta_ok bm i (g s)" unfolding gs by (rule pending_ok [OF s n(3)]) (use own in \<open>simp add: fs\<close>)
  moreover have "frames_of s + {#} = frames_of (g s) + {#qf_id f#}"
    using frames_of_pending [of ac s fs] len n(3) by (simp add: g_def fs)
  ultimately show "flow bm n {#} (n'\<lparr>q_accnt := (q_accnt n')[ac := q_accnt n' ! ac - 1]\<rparr>) {#qf_id f#}"
    unfolding n' using flow_upd_ac [OF n(1,2), of g ac "q_cnt s ! ac - 1" _ "{#}" "{#qf_id f#}"] n(3)
    by (simp add: s_def g_def)
qed

lemma flow_hw:
  assumes "flow bm n h m h'" "set q \<subseteq> {..< length (q_stas m)}"
  shows "flow bm n h (m\<lparr>q_hw := (q_hw m)[ac := q]\<rparr>) h'"
  using assms queues_ok_hw [of bm m q ac] by (simp add: flow_def)

lemma hw_bound: "queues_ok bm n \<Longrightarrow> ac < 4 \<Longrightarrow> set (q_hw n ! ac) \<subseteq> {..< length (q_stas n)}"
  by (simp add: queues_ok_def)

definition dequeued :: "nat option \<Rightarrow> tx_queues \<Rightarrow> (qframe \<times> tx_queues) option \<Rightarrow> bool" where
  "dequeued bm n r \<longleftrightarrow> (\<forall>f n'. r = Some (f, n') \<longrightarrow> flow bm n {#} n' {#qf_id f#} \<and> (\<exists>i < length (q_stas n). own_frame bm i f))"

lemma dequeue_stas_flow:
  assumes "queues_ok bm n" "ac < 4" "set is \<subseteq> {..< length (q_stas n)}"
  shows "dequeued bm n (dequeue_stas ac is n)"
  using assms(3)
proof (induction "is")
  case Nil
  then show ?case by (simp add: dequeued_def)
next
  case (Cons i "is")
  show ?case
  proof (cases "dequeue_one_xmitframe i ac n")
    case None
    then show ?thesis using Cons by simp
  next
    case (Some r)
    obtain f m where r: "r = (f, m)" by fastforce
    have i: "i < length (q_stas n)" using Cons.prems by simp
    define k where "k = m\<lparr>q_accnt := (q_accnt m)[ac := q_accnt m ! ac - 1]\<rparr>"
    have fl: "flow bm n {#} k {#qf_id f#}" "own_frame bm i f"
      using flow_dequeue_one [OF assms(1) i assms(2) Some [unfolded r]] by (simp_all add: k_def)
    have "flow bm n {#} (k\<lparr>q_hw := (q_hw k)[ac := removeAll i (q_hw k ! ac)]\<rparr>) {#qf_id f#}"
      by (rule flow_hw [OF fl(1)]) (use hw_bound [OF flow_ok(1) [OF fl(1)] assms(2)] in auto)
    then show ?thesis using fl i by (auto simp: dequeued_def Some r Let_def k_def)
  qed
qed

lemma dequeue_flow:
  assumes "queues_ok bm n"
  shows "dequeued bm n (rtw_dequeue_xframe n)"
proof -
  have "dequeued bm n (dequeue_acs acs n)" if "set acs \<subseteq> {..< 4}" for acs
    using that
  proof (induction acs)
    case Nil
    then show ?case by (simp add: dequeued_def)
  next
    case (Cons ac acs)
    then show ?case using dequeue_stas_flow [OF assms _ hw_bound [OF assms], of ac ac]
      by (auto simp: dequeued_def split: option.splits)
  qed
  moreover have "set (if q_wifi_spec n then q_wmm_seq n else [0, 1, 2, 3]) \<subseteq> {..< 4}" using assms by (simp add: queues_ok_def)
  ultimately show ?thesis by (simp add: rtw_dequeue_xframe_def)
qed

section \<open>Sleeping and waking\<close>

lemma sleepq_ok:
  assumes "q_sta_ok bm i s" "\<forall>f \<in> set fs. own_frame bm i f" "k = of_nat (length fs)"
  shows "q_sta_ok bm i (s\<lparr>sleepq := fs, sleepq_len := k, sleepq_ac_len := a\<rparr>)"
  using assms by (simp add: q_sta_ok_def)

lemma frames_of_sleepq [simp]: "frames_of (s\<lparr>sleepq_len := k\<rparr>) = frames_of s" "frames_of (s\<lparr>sleepq_ac_len := k\<rparr>) = frames_of s"
  "frames_of (s\<lparr>q_expire_to := e\<rparr>) = frames_of s"
  by (simp_all add: frames_of_def)

text \<open>A station that has another sleep queue, and perhaps another count of the frames to be delivered.\<close>

lemma flow_sleepq:
  assumes "queues_ok bm n" "i < length (q_stas n)" "\<forall>f \<in> set fs. own_frame bm i f"
    and g: "g (q_stas n ! i) = (q_stas n ! i)\<lparr>sleepq := fs, sleepq_len := of_nat (length fs), sleepq_ac_len := a\<rparr>"
    and h: "mset (map qf_id (sleepq (q_stas n ! i))) + h = mset (map qf_id fs) + h'"
  shows "flow bm n h (upd_q i g n) h'"
proof (rule flow_upd [OF assms(1,2)])
  show "q_sta_ok bm i (g (q_stas n ! i))" unfolding g by (rule sleepq_ok [OF sta_queues [OF assms(1,2)] assms(3)]) simp
  show "q_cnt (g (q_stas n ! i)) = q_cnt (q_stas n ! i)" by (simp add: g)
  show "frames_of (q_stas n ! i) + h = frames_of (g (q_stas n ! i)) + h'"
    using h by (simp add: g frames_of_def ac_simps)
qed

lemma sleepq_len_ok: "queues_ok bm n \<Longrightarrow> i < length (q_stas n) \<Longrightarrow> sleepq_len (q_stas n ! i) = of_nat (length (sleepq (q_stas n ! i)))"
  using sta_queues by (simp add: q_sta_ok_def)

lemma sleepq_own: "queues_ok bm n \<Longrightarrow> i < length (q_stas n) \<Longrightarrow> \<forall>f \<in> set (sleepq (q_stas n ! i)). own_frame bm i f"
  using sta_queues by (simp add: q_sta_ok_def)

lemma flow_queue_sleep:
  assumes "queues_ok bm n" "i < length (q_stas n)" "own_frame bm i f"
  shows "flow bm n {#qf_id f#} (queue_sleep i f n) {#}"
  unfolding queue_sleep_def
  by (rule flow_sleepq [OF assms(1,2), where fs = "sleepq (q_stas n ! i) @ [f]" and a = "sleepq_ac_len (q_stas n ! i)"])
    (use assms sleepq_own [OF assms(1,2)] sleepq_len_ok [OF assms(1,2)] in \<open>auto simp: add.commute\<close>)

lemma flow_ac_len:
  assumes "queues_ok bm n" "i < length (q_stas n)"
  shows "flow bm n h (upd_q i (\<lambda>s. s\<lparr>sleepq_ac_len := a s\<rparr>) n) h"
  by (rule flow_sleepq [OF assms, where fs = "sleepq (q_stas n ! i)" and a = "a (q_stas n ! i)"])
    (use sleepq_own [OF assms] sleepq_len_ok [OF assms] in auto)

lemma flow_after:
  assumes "flow bm n h m h'"
  shows "flow bm n h (set_q_state i st m) h'" "flow bm n h (set_tim k m) h'" "flow bm n h (clear_tim k m) h'" "flow bm n h (set_dz k m) h'"
    "flow bm n h (clear_dz k m) h'" "flow bm n h (out e m) h'" "flow bm n h (update_tim m) h'"
  using assms by (simp_all add: flow_def)

lemma flow_sleep_unicast:
  assumes "queues_ok bm n" "i < length (q_stas n)" "own_frame bm i f"
  shows "flow bm n {#qf_id f#} (sleep_unicast i f n) {#}"
proof -
  define m where "m = queue_sleep i f n"
  have m: "flow bm n {#qf_id f#} m {#}" unfolding m_def by (rule flow_queue_sleep [OF assms])
  define w where "w = bit (uapsd_of (q_stas m ! i) (qf_priority f)) 0"
  define k where "k = (if w then upd_q i (\<lambda>s. s\<lparr>sleepq_ac_len := sleepq_ac_len s + 1\<rparr>) m else m)"
  have "flow bm m {#} k {#}"
    using flow_ac_len [OF flow_ok(1) [OF m], of i] flow_refl [OF flow_ok(1) [OF m]] flow_ok(2) [OF m] assms(2) by (simp add: k_def)
  with m have k: "flow bm n {#qf_id f#} k {#}" by (rule flow_trans)
  show ?thesis
    using k flow_after(2) [OF k] flow_after(7) [OF flow_after(2) [OF k]]
    by (simp add: sleep_unicast_def Let_def flip: m_def w_def k_def)
qed

text \<open>\<^verbatim>\<open>xmitframe_enqueue_for_sleeping_sta\<close>: the frame is queued, or stays in hand with its priority and station.\<close>

lemma enqueue_sleeping_flow:
  assumes n: "queues_ok bm n" "i < length (q_stas n)" "own_frame bm i f" and r: "xmitframe_enqueue_for_sleeping_sta f n = (q, f', n')"
  shows "flow bm n {#qf_id f#} n' (if q then {#} else {#qf_id f#})" "qf_id f' = qf_id f" "own_frame bm i f'"
    "qf_priority f' = qf_priority f" "\<And>j. q_pending (q_stas n' ! j) = q_pending (q_stas n ! j)" "\<And>j. q_cnt (q_stas n' ! j) = q_cnt (q_stas n ! j)"
proof -
  have fs: "frame_sta n f = Some i" using n(3) by (simp add: frame_sta_def own_frame_def)
  have b: "flow bm n {#qf_id f#} (update_tim (set_dz 0 (set_tim 0 (queue_sleep i f n)))) {#}"
    by (intro flow_after flow_queue_sleep n)
  have qs: "q_pending (q_stas (queue_sleep i f n) ! j) = q_pending (q_stas n ! j)" "q_cnt (q_stas (queue_sleep i f n) ! j) = q_cnt (q_stas n ! j)" for j
    unfolding queue_sleep_def by (rule upd_q_proj, simp)+
  have su: "q_pending (q_stas (sleep_unicast i f n) ! j) = q_pending (q_stas n ! j)" "q_cnt (q_stas (sleep_unicast i f n) ! j) = q_cnt (q_stas n ! j)" for j
    by (simp_all add: sleep_unicast_def Let_def qs upd_q_proj [of q_pending] upd_q_proj [of q_cnt])
  note u = flow_sleep_unicast [OF n]
  show "flow bm n {#qf_id f#} n' (if q then {#} else {#qf_id f#})"
    using r b u flow_refl [OF n(1)] by (auto simp: xmitframe_enqueue_for_sleeping_sta_def Let_def fs split: if_splits)
  show "qf_id f' = qf_id f" "own_frame bm i f'" "qf_priority f' = qf_priority f"
    using r n(3) by (auto simp: xmitframe_enqueue_for_sleeping_sta_def Let_def fs own_frame_def split: if_splits)
  show "q_pending (q_stas n' ! j) = q_pending (q_stas n ! j)" "q_cnt (q_stas n' ! j) = q_cnt (q_stas n ! j)" for j
    using r qs [of j] su [of j] by (auto simp: xmitframe_enqueue_for_sleeping_sta_def Let_def fs split: if_splits)
qed

text \<open>Every list of station \<open>i\<close> holds its own frames.\<close>

lemma unqueue_flow:
  assumes n: "queues_ok bm n" "i < length (q_stas n)" "ac < 4" and p: "q_pending (q_stas n ! i) ! ac = kept @ f # fs"
  shows "flow bm n {#} (unqueue i ac ac (kept @ fs) n) {#qf_id f#}"
proof -
  define s where "s = q_stas n ! i"
  have s: "q_sta_ok bm i s" using sta_queues [OF n(1,2)] by (simp add: s_def)
  have len: "length (q_pending s) = 4" "q_cnt s = map (\<lambda>q. int (length q)) (q_pending s)" using s by (simp_all add: q_sta_ok_def)
  define g :: "q_sta \<Rightarrow> q_sta" where "g = (\<lambda>s. s\<lparr>q_pending := (q_pending s)[ac := kept @ fs], q_cnt := (q_cnt s)[ac := q_cnt s ! ac - 1]\<rparr>)"
  have gs: "g s = s\<lparr>q_pending := (q_pending s)[ac := kept @ fs], q_cnt := (q_cnt s)[ac := int (length (kept @ fs))]\<rparr>"
    using len n(3) p by (simp add: g_def s_def)
  have own: "\<forall>f \<in> set (q_pending s ! ac). own_frame bm i f \<and> ac_index (qf_priority f) = ac" using s n(3) by (simp add: q_sta_ok_def)
  have "q_sta_ok bm i (g s)" unfolding gs by (rule pending_ok [OF s n(3)]) (use own p in \<open>simp add: s_def\<close>)
  moreover have "frames_of s + {#} = frames_of (g s) + {#qf_id f#}"
    using frames_of_pending [of ac s "kept @ fs"] len n(3) p by (simp add: g_def s_def)
  ultimately show ?thesis
    using flow_upd_ac [OF n(1,2), of g ac "q_cnt s ! ac - 1" _ "{#}" "{#qf_id f#}"] n(3)
    by (simp add: s_def g_def unqueue_def Let_def)
qed

lemma to_sleeping_induct:
  assumes "queues_ok bm n" "i < length (q_stas n)" "ac < 4" "q_pending (q_stas n ! i) ! ac = kept @ fs" "P n"
    and enq: "\<And>n f q f' m. queues_ok bm n \<Longrightarrow> i < length (q_stas n) \<Longrightarrow> own_frame bm i f
        \<Longrightarrow> xmitframe_enqueue_for_sleeping_sta f n = (q, f', m) \<Longrightarrow> P n \<Longrightarrow> P m"
    and upd: "\<And>n p c. P n \<Longrightarrow> P (upd_q i (\<lambda>s. s\<lparr>q_pending := p s, q_cnt := c s\<rparr>) n)" and acc: "\<And>n c. P n \<Longrightarrow> P (n\<lparr>q_accnt := c\<rparr>)"
  shows "flow bm n {#} (to_sleeping i ac kept fs n) {#} \<and> P (to_sleeping i ac kept fs n)"
  using assms(1-5)
proof (induction fs arbitrary: kept n)
  case Nil
  then show ?case by (simp add: flow_refl)
next
  case (Cons f fs)
  note n = Cons.prems(1-3)
  have own: "own_frame bm i f" "ac_index (qf_priority f) = ac"
    using sta_queues [OF n(1,2)] n(3) Cons.prems(4) by (auto simp: q_sta_ok_def)
  obtain q f' m where r: "xmitframe_enqueue_for_sleeping_sta f n = (q, f', m)" by (metis prod_cases3)
  note e = enqueue_sleeping_flow [OF n(1,2) own(1) r]
  have m: "queues_ok bm m" "length (q_stas m) = length (q_stas n)" using flow_ok [OF e(1)] by simp_all
  have p: "q_pending (q_stas m ! i) ! ac = kept @ f # fs" using Cons.prems(4) by (simp add: e(5))
  have P: "P m" by (rule enq [OF n(1,2) own(1) r Cons.prems(5)])
  show ?case
  proof (cases q)
    case True
    define k where "k = unqueue i ac ac (kept @ fs) m"
    have u: "flow bm m {#} k {#qf_id f#}" unfolding k_def using unqueue_flow [OF m(1) _ n(3) p] m n by simp
    have pk: "q_pending (q_stas k ! i) ! ac = kept @ fs"
      using n m sta_queues [OF m(1), of i] by (simp add: k_def unqueue_def Let_def upd_q_sta q_sta_ok_def)
    have "flow bm n {#qf_id f#} k {#qf_id f#}" using flow_trans [OF _ u] e(1) True by simp
    then have nk: "flow bm n {#} k {#}" by (simp add: flow_def)
    have "P k" using acc [OF upd [OF P]] by (simp add: k_def unqueue_def Let_def)
    from Cons.IH [OF flow_ok(1) [OF nk] _ n(3) pk this] flow_trans [OF nk] flow_ok(2) [OF nk] n(2)
    show ?thesis by (simp add: r True e(4) own(2) k_def)
  next
    case False
    define k where "k = upd_q i (\<lambda>s. s\<lparr>q_pending := (q_pending s)[ac := kept @ f' # fs]\<rparr>) m"
    have s: "q_sta_ok bm i (q_stas m ! i)" using sta_queues [OF m(1)] n m by simp
    then have len: "length (q_pending (q_stas m ! i)) = 4" "q_cnt (q_stas m ! i) = map (\<lambda>q. int (length q)) (q_pending (q_stas m ! i))"
      by (simp_all add: q_sta_ok_def)
    have c: "(q_cnt (q_stas m ! i))[ac := int (length (kept @ f' # fs))] = q_cnt (q_stas m ! i)"
      using len n(3) p by (simp add: list_update_same_conv)
    have own': "\<forall>f \<in> set (q_pending (q_stas m ! i) ! ac). own_frame bm i f \<and> ac_index (qf_priority f) = ac"
      using s n(3) by (simp add: q_sta_ok_def)
    have "q_sta_ok bm i ((q_stas m ! i)\<lparr>q_pending := (q_pending (q_stas m ! i))[ac := kept @ f' # fs]\<rparr>)"
      using pending_ok [OF s n(3), of "kept @ f' # fs"] own' own e(2-4) p unfolding c by auto
    moreover have "frames_of (q_stas m ! i) = frames_of ((q_stas m ! i)\<lparr>q_pending := (q_pending (q_stas m ! i))[ac := kept @ f' # fs]\<rparr>)"
      using frames_of_pending [of ac "q_stas m ! i" "kept @ f' # fs"] len n(3) p e(2) by simp
    ultimately have "flow bm m {#} k {#}"
      unfolding k_def using m n by (intro flow_upd) simp_all
    moreover have "flow bm n {#} m {#}" using e(1) False by (simp add: flow_def)
    ultimately have nk: "flow bm n {#} k {#}" by (rule flow_trans [rotated])
    have pk: "q_pending (q_stas k ! i) ! ac = (kept @ [f']) @ fs"
      using n m len by (simp add: k_def upd_q_sta)
    have "P k" using upd [OF P, where p = "\<lambda>s. (q_pending s)[ac := kept @ f' # fs]" and c = q_cnt] by (simp add: k_def)
    from Cons.IH [OF flow_ok(1) [OF nk] _ n(3) pk this] flow_trans [OF nk] flow_ok(2) [OF nk] n(2)
    show ?thesis using False by (simp add: r k_def)
  qed
qed

lemma to_sleeping_flow:
  assumes "queues_ok bm n" "i < length (q_stas n)" "ac < 4" "q_pending (q_stas n ! i) ! ac = kept @ fs"
  shows "flow bm n {#} (to_sleeping i ac kept fs n) {#}"
  using to_sleeping_induct [OF assms, of "\<lambda>_. True"] by simp

lemma stop_ac_flow:
  assumes "queues_ok bm n" "i < length (q_stas n)" "ac < 4"
  shows "flow bm n {#} (stop_ac i ac n) {#}"
proof -
  define m where "m = to_sleeping i ac [] (q_pending (q_stas n ! i) ! ac) n"
  have m: "flow bm n {#} m {#}" unfolding m_def by (rule to_sleeping_flow [OF assms]) simp
  have "flow bm n {#} (m\<lparr>q_hw := (q_hw m)[ac := removeAll i (q_hw m ! ac)]\<rparr>) {#}"
    by (rule flow_hw [OF m]) (use hw_bound [OF flow_ok(1) [OF m] assms(3)] in auto)
  then show ?thesis by (simp add: stop_ac_def dequeue_xmitframes_to_sleeping_queue_def m_def Let_def)
qed

lemma flow_bind: "flow bm n h m h' \<Longrightarrow> (queues_ok bm m \<Longrightarrow> length (q_stas m) = length (q_stas n) \<Longrightarrow> flow bm m h' k h'') \<Longrightarrow> flow bm n h k h''"
  using flow_trans flow_ok by blast

lemma table_bound: "queues_ok bm n \<Longrightarrow> rtw_get_stainfo (q_table n) a = Some i \<Longrightarrow> i < length (q_stas n)"
  by (simp add: queues_ok_def)

lemma stop_sta_xmit_flow:
  assumes n: "queues_ok bm n" "i < length (q_stas n)" and r: "stop_sta_xmit i n = Some n'"
  shows "flow bm n {#} n' {#}"
proof -
  obtain b where b: "rtw_get_stainfo (q_table n) bc_addr = Some b" using r by (auto simp: stop_sta_xmit_def Let_def)
  define m where "m = set_dz (q_aid (q_stas n ! i)) (set_q_state i (q_state n i OR WIFI_SLEEP_STATE) n)"
  have m: "flow bm n {#} m {#}" unfolding m_def by (intro flow_after flow_refl n)
  have "flow bm n {#} (stop_ac b 2 (stop_ac i 3 (stop_ac i 2 (stop_ac i 1 (stop_ac i 0 m))))) {#}"
    by (rule flow_bind [OF flow_bind [OF flow_bind [OF flow_bind [OF flow_bind [OF m]]]]]; rule stop_ac_flow)
      (use n(2) table_bound [OF n(1) b] in simp_all)
  then show ?thesis using r b by (simp add: stop_sta_xmit_def Let_def m_def)
qed

lemma flow_wake:
  assumes n: "queues_ok bm n" "i < length (q_stas n)" and q: "sleepq (q_stas n ! i) = pre @ f # post"
    and f: "qf_id f' = qf_id f" "qf_psta f' = qf_psta f" "qf_ra f' = qf_ra f"
    and s: "s = (q_stas n ! i)\<lparr>sleepq := pre @ post, sleepq_len := sleepq_len (q_stas n ! i) - 1, sleepq_ac_len := a\<rparr>"
  shows "flow bm n {#} (rtl8723au_hal_xmitframe_enqueue f' (upd_q i (\<lambda>_. s) n)) {#}"
proof -
  have "flow bm n {#} (upd_q i (\<lambda>_. s) n) {#qf_id f'#}"
    by (rule flow_sleepq [OF n, where fs = "pre @ post" and a = a])
      (use sleepq_own [OF n] sleepq_len_ok [OF n] q f in \<open>auto simp: s\<close>)
  moreover have "own_frame bm i f'" using sleepq_own [OF n] q f by (simp add: own_frame_def)
  ultimately show ?thesis by (intro flow_bind [OF _ flow_hal_enqueue]) (use n in simp_all)
qed

lemma hal_enqueue_sleepq:
  assumes "i < length (q_stas n)" "\<And>s c p. g (s\<lparr>q_pending := p, q_cnt := c\<rparr>) = g s"
  shows "g (q_stas (rtl8723au_hal_xmitframe_enqueue f n) ! i) = g (q_stas n ! i)"
proof -
  have "g (q_stas (upd_q k (\<lambda>s. s\<lparr>q_pending := p s, q_cnt := c s\<rparr>) m) ! i) = g (q_stas m ! i)" for k m and p :: "q_sta \<Rightarrow> qframe list list" and c
    by (rule upd_q_proj) (rule assms(2))
  then show ?thesis
    by (auto simp: rtl8723au_hal_xmitframe_enqueue_def rtw_xmit_classifier_def rtw_free_xmitframe_def Let_def split: option.splits)
qed

lemma wake_frame_spec:
  "\<exists>a. fst (wake_frame s f) = s\<lparr>sleepq_len := sleepq_len s - 1, sleepq_ac_len := a\<rparr>"
  "qf_id (snd (wake_frame s f)) = qf_id f" "qf_psta (snd (wake_frame s f)) = qf_psta f" "qf_ra (snd (wake_frame s f)) = qf_ra f"
proof -
  have "fst (wake_frame s f) = s\<lparr>sleepq_len := sleepq_len s - 1, sleepq_ac_len := sleepq_ac_len (fst (wake_frame s f))\<rparr>"
    by (simp add: wake_frame_def Let_def)
  then show "\<exists>a. fst (wake_frame s f) = s\<lparr>sleepq_len := sleepq_len s - 1, sleepq_ac_len := a\<rparr>" by blast
qed (simp_all add: wake_frame_def Let_def)

lemma wake_frames_flow:
  assumes "queues_ok bm n" "i < length (q_stas n)" "sleepq (q_stas n ! i) = fs"
  shows "flow bm n {#} (wake_frames i fs n) {#}"
  using assms
proof (induction fs arbitrary: n)
  case Nil
  then show ?case by (simp add: flow_refl)
next
  case (Cons f fs)
  obtain s f' where w: "wake_frame (q_stas n ! i) f = (s, f')" by fastforce
  obtain a where s: "s = (q_stas n ! i)\<lparr>sleepq_len := sleepq_len (q_stas n ! i) - 1, sleepq_ac_len := a\<rparr>"
    using wake_frame_spec(1) [of "q_stas n ! i" f] w by auto
  define m where "m = rtl8723au_hal_xmitframe_enqueue f' (upd_q i (\<lambda>_. s\<lparr>sleepq := fs\<rparr>) n)"
  have m: "flow bm n {#} m {#}" unfolding m_def
    by (rule flow_wake [OF Cons.prems(1,2), where pre = "[]" and post = fs and f = f and a = a])
      (use Cons.prems(3) wake_frame_spec(2-4) [of "q_stas n ! i" f] w s in auto)
  have "sleepq (q_stas m ! i) = fs" unfolding m_def
    by (subst hal_enqueue_sleepq) (use Cons.prems(2) in \<open>simp_all add: upd_q_sta\<close>)
  then have "flow bm m {#} (wake_frames i fs m) {#}" using Cons.IH flow_ok [OF m] Cons.prems(2) by simp
  with m show ?case by (simp add: w m_def [symmetric] flow_trans)
qed

lemma wake_bmc_flow:
  assumes "queues_ok bm n" "b < length (q_stas n)" "sleepq (q_stas n ! b) = fs"
  shows "flow bm n {#} (wake_bmc qsel b fs n) {#}"
  using assms
proof (induction fs arbitrary: n)
  case Nil
  then show ?case by (simp add: flow_refl)
next
  case (Cons f fs)
  define s where "s = (q_stas n ! b)\<lparr>sleepq := fs, sleepq_len := sleepq_len (q_stas n ! b) - 1\<rparr>"
  define f1 where "f1 = f\<lparr>qf_mdata := (sleepq_len s > 0), qf_triggered := True\<rparr>"
  define f' where "f' = (case qsel of None \<Rightarrow> f1 | Some q \<Rightarrow> f1\<lparr>qf_qsel := q\<rparr>)"
  define m where "m = rtl8723au_hal_xmitframe_enqueue f' (upd_q b (\<lambda>_. s) n)"
  have f': "qf_id f' = qf_id f" "qf_psta f' = qf_psta f" "qf_ra f' = qf_ra f" by (simp_all add: f'_def f1_def split: option.splits)
  have m: "flow bm n {#} m {#}" unfolding m_def
    by (rule flow_wake [OF Cons.prems(1,2), where pre = "[]" and post = fs and f = f and a = "sleepq_ac_len (q_stas n ! b)"])
      (use Cons.prems(3) f' in \<open>simp_all add: s_def\<close>)
  have "sleepq (q_stas m ! b) = fs" unfolding m_def
    by (subst hal_enqueue_sleepq) (use Cons.prems(2) in \<open>simp_all add: upd_q_sta s_def\<close>)
  then have "flow bm m {#} (wake_bmc qsel b fs m) {#}" using Cons.IH flow_ok [OF m] Cons.prems(2) by simp
  with m have "flow bm n {#} (wake_bmc qsel b fs m) {#}" by (rule flow_trans)
  then show ?case
    unfolding wake_bmc.simps Let_def s_def [symmetric] f1_def [symmetric] f'_def [symmetric] m_def [symmetric] .
qed

lemma flow_expire:
  assumes "queues_ok bm n" "i < length (q_stas n)"
  shows "flow bm n h (upd_q i (q_expire_to_update e) n) h"
  by (rule flow_upd [OF assms]) (use sta_queues [OF assms] in \<open>simp_all add: q_sta_ok_def frames_of_def\<close>)

lemma alive_again_flow:
  assumes "queues_ok bm n" "i < length (q_stas n)"
  shows "flow bm n {#} (alive_again i n) {#}"
  using flow_after(1) [OF flow_expire [OF assms]] flow_refl [OF assms(1)] by (simp add: alive_again_def)

lemma wake_done_flow:
  assumes "queues_ok bm n" "i < length (q_stas n)"
  shows "flow bm n {#} (wake_done i n) {#}"
proof -
  define m where "m = clear_tim (q_aid (q_stas n ! i)) n"
  define k where "k = (if q_state m i AND WIFI_SLEEP_STATE \<noteq> 0 then set_q_state i (q_state m i XOR WIFI_SLEEP_STATE) m else m)"
  have k: "flow bm n {#} k {#}" using flow_after(3) [OF flow_refl [OF assms(1)]] flow_after(1,3) by (auto simp: k_def m_def)
  from flow_bind [OF k alive_again_flow] assms(2) have "flow bm n {#} (alive_again i k) {#}" by simp
  from flow_after(5) [OF this] show ?thesis unfolding wake_done_def Let_def m_def [symmetric] k_def [symmetric] .
qed

lemma wakeup_flow:
  assumes n: "queues_ok bm n" "i < length (q_stas n)"
  shows "flow bm n {#} (wakeup_sta_to_xmit i n) {#}"
proof -
  define m where "m = wake_frames i (sleepq (q_stas n ! i)) n"
  define u where "u \<longleftrightarrow> sleepq_len (q_stas m ! i) = 0"
  define k where "k = (if u then wake_done i m else m)"
  have m: "flow bm n {#} m {#}" unfolding m_def by (rule wake_frames_flow [OF n]) simp
  have k: "flow bm n {#} k {#}"
    using flow_bind [OF m wake_done_flow] m n(2) by (simp add: k_def)
  show ?thesis
  proof (cases "rtw_get_stainfo (q_table k) bc_addr")
    case None
    with k show ?thesis by (simp add: wakeup_sta_to_xmit_def Let_def m_def [symmetric] u_def [symmetric] k_def [symmetric])
  next
    case (Some b)
    define al where "al \<longleftrightarrow> q_dz k AND 0xfffe = 0"
    define w where "w = (if al then wake_bmc None b (sleepq (q_stas k ! b)) k else k)"
    define bmc where "bmc \<longleftrightarrow> al \<and> sleepq_len (q_stas w ! b) = 0"
    define v where "v = (if bmc then clear_dz 0 (clear_tim 0 w) else w)"
    have b: "b < length (q_stas k)" by (rule table_bound [OF flow_ok(1) [OF k] Some])
    have "flow bm n {#} w {#}"
      using flow_bind [OF k wake_bmc_flow] k b by (simp add: w_def)
    then have "flow bm n {#} v {#}" using flow_after(5) [OF flow_after(3)] by (simp add: v_def)
    then have "flow bm n {#} (if u \<or> bmc then update_tim v else v) {#}" using flow_after(7) by simp
    then show ?thesis
      unfolding wakeup_sta_to_xmit_def Let_def m_def [symmetric] u_def [symmetric] k_def [symmetric] Some option.case
        al_def [symmetric] w_def [symmetric] bmc_def [symmetric] v_def [symmetric] .
  qed
qed

lemma deliver_frames_flow:
  assumes "queues_ok bm n" "i < length (q_stas n)" "sleepq (q_stas n ! i) = kept @ fs"
  shows "flow bm n {#} (deliver_frames i kept fs n) {#}"
  using assms
proof (induction fs arbitrary: kept n)
  case Nil
  then show ?case by (simp add: flow_refl)
next
  case (Cons f fs)
  show ?case
  proof (cases "bit (uapsd_of (q_stas n ! i) (qf_priority f)) 1")
    case False
    then show ?thesis using Cons.IH [of n "kept @ [f]"] Cons.prems by simp
  next
    case True
    obtain s f' where w: "deliver_frame (q_stas n ! i) f = (s, f')" by fastforce
    have s: "s = (q_stas n ! i)\<lparr>sleepq_len := sleepq_len (q_stas n ! i) - 1, sleepq_ac_len := sleepq_ac_len (q_stas n ! i) - 1\<rparr>"
      "qf_id f' = qf_id f" "qf_psta f' = qf_psta f" "qf_ra f' = qf_ra f"
      using w by (auto simp: deliver_frame_def Let_def)
    define m where "m = rtl8723au_hal_xmitframe_enqueue f' (upd_q i (\<lambda>_. s\<lparr>sleepq := kept @ fs\<rparr>) n)"
    define k where "k = (if sleepq_ac_len s = 0 \<and> \<not> has_legacy_ac s then update_tim (clear_tim (q_aid s) m) else m)"
    have m: "flow bm n {#} m {#}" unfolding m_def
      by (rule flow_wake [OF Cons.prems(1-3), where a = "sleepq_ac_len s"]) (simp_all add: s)
    then have k: "flow bm n {#} k {#}" using flow_after(7) [OF flow_after(3)] by (simp add: k_def)
    have "sleepq (q_stas m ! i) = kept @ fs" unfolding m_def
      by (subst hal_enqueue_sleepq) (use Cons.prems(2) in \<open>simp_all add: upd_q_sta\<close>)
    then have "flow bm k {#} (deliver_frames i kept fs k) {#}" using Cons.IH [of k kept] flow_ok [OF k] Cons.prems(2) by (simp add: k_def)
    with k have "flow bm n {#} (deliver_frames i kept fs k) {#}" by (rule flow_trans)
    then show ?thesis using True
      unfolding deliver_frames.simps w Let_def case_prod_conv m_def [symmetric] k_def [symmetric] by simp
  qed
qed

section \<open>What stations send\<close>

lemma pwrbit_flow:
  assumes "queues_ok bm n" "process_pwrbit_data src pwr n = Some n'"
  shows "flow bm n {#} n' {#}"
proof (cases "rtw_get_stainfo (q_table n) src")
  case None
  then show ?thesis using assms flow_refl by (simp add: process_pwrbit_data_def)
next
  case (Some i)
  have i: "i < length (q_stas n)" by (rule table_bound [OF assms(1) Some])
  show ?thesis
    using assms Some flow_refl [OF assms(1)] stop_sta_xmit_flow [OF assms(1) i] wakeup_flow [OF assms(1) i]
    by (auto simp: process_pwrbit_data_def Let_def split: if_splits)
qed

lemma wmmps_flow:
  assumes "queues_ok bm n"
  shows "flow bm n {#} (process_wmmps_data src prio n) {#}"
proof (cases "rtw_get_stainfo (q_table n) src")
  case None
  then show ?thesis using assms flow_refl by (simp add: process_wmmps_data_def)
next
  case (Some i)
  have i: "i < length (q_stas n)" by (rule table_bound [OF assms(1) Some])
  show ?thesis
    using deliver_frames_flow [OF assms i, of "[]"] flow_refl [OF assms] flow_after(6) [OF flow_refl [OF assms]]
    by (simp add: process_wmmps_data_def Some Let_def xmit_delivery_enabled_frames_def)
qed

lemma ps_poll_flow:
  assumes n: "queues_ok bm n" "i < length (q_stas n)"
  shows "flow bm n {#} (ps_poll i n) {#}"
proof -
  define m where "m = alive_again i n"
  have m: "flow bm n {#} m {#}" unfolding m_def by (rule alive_again_flow [OF n])
  have i: "queues_ok bm m" "i < length (q_stas m)" using flow_ok [OF m] n by simp_all
  define s where "s = q_stas m ! i"
  show ?thesis
  proof (cases "sleepq s")
    case Nil
    have "flow bm m {#} (upd_q i (sleepq_len_update (\<lambda>_. 0)) m) {#}"
      by (rule flow_sleepq [OF i, where fs = "[]" and a = "sleepq_ac_len s"]) (use Nil in \<open>simp_all add: s_def\<close>)
    then have z: "flow bm n {#} (upd_q i (sleepq_len_update (\<lambda>_. 0)) m) {#}" by (rule flow_trans [OF m])
    show ?thesis
      using m flow_after(7) [OF flow_after(3) [OF z]] flow_after(7) [OF flow_after(3) [OF flow_after(6) [OF m]]] Nil
      by (simp add: ps_poll_def Let_def flip: m_def s_def)
  next
    case (Cons f fs)
    define t where "t = s\<lparr>sleepq := fs, sleepq_len := sleepq_len s - 1\<rparr>"
    define f' where "f' = f\<lparr>qf_mdata := (sleepq_len t > 0), qf_triggered := True\<rparr>"
    define k where "k = rtl8723au_hal_xmitframe_enqueue f' (upd_q i (\<lambda>_. t) m)"
    have "flow bm m {#} k {#}" unfolding k_def
      by (rule flow_wake [OF i, where pre = "[]" and post = fs and f = f and a = "sleepq_ac_len s"])
        (use Cons in \<open>simp_all add: f'_def t_def s_def\<close>)
    with m have k: "flow bm n {#} k {#}" by (rule flow_trans)
    then have "flow bm n {#} (if sleepq_len t = 0 then update_tim (clear_tim (q_aid t) k) else k) {#}"
      using flow_after(7) [OF flow_after(3)] by simp
    then show ?thesis using m
      unfolding ps_poll_def Let_def m_def [symmetric] s_def [symmetric] Cons list.case t_def [symmetric] f'_def [symmetric] k_def [symmetric]
      by simp
  qed
qed

lemma ctrl_frame_flow:
  assumes n: "queues_ok bm n" and r: "validate_recv_ctrl_frame p prio n = Some n'"
  shows "flow bm n {#} n' {#}"
proof -
  have "n' = n \<or> (\<exists>i a. rtw_get_stainfo (q_table n) a = Some i \<and> n' = ps_poll i n)"
    using r by (auto simp: validate_recv_ctrl_frame_def bind_eq_Some_conv split: if_splits option.splits)
  then show ?thesis using flow_refl [OF n] ps_poll_flow [OF n] table_bound [OF n] by blast
qed

lemma tx_beacon_flow:
  assumes "queues_ok bm n"
  shows "flow bm n {#} (tx_beacon_hdl n) {#}"
  using flow_refl [OF assms] wake_bmc_flow [OF assms table_bound [OF assms]]
  by (simp add: tx_beacon_hdl_def split: option.splits)

lemma chk_hi_queue_flow:
  assumes "queues_ok bm n"
  shows "flow bm n {#} (rtw_chk_hi_queue_hdl e n) {#}"
  using flow_refl [OF assms] flow_after(7) [OF flow_after(5) [OF flow_after(3) [OF flow_refl [OF assms]]]] flow_after(6) [OF flow_refl [OF assms]]
  by (simp add: rtw_chk_hi_queue_hdl_def split: option.splits)

section \<open>Transmission\<close>

lemma bufs_same:
  "same_queues n (rtw_free_xmitbuf b n)" "same_queues n (usb_write_port usb f b n)" "same_queues n (usb_write_port_complete b n)"
  "rtw_alloc_xmitbuf n = (r, n') \<Longrightarrow> same_queues n n'"
  by (auto simp: same_queues_def rtw_free_xmitbuf_def usb_write_port_def usb_write_port_complete_def rtw_alloc_xmitbuf_def out_def Let_def
      split: option.splits list.splits)

lemma flow_same_after: "flow bm n h m h' \<Longrightarrow> same_queues m k \<Longrightarrow> flow bm n h k h'"
  using flow_trans flow_same flow_ok(1) by blast

lemma dump_flow:
  assumes "queues_ok bm n"
  shows "flow bm n {#qf_id f#} (rtw_dump_xframe usb nfrag f b n) {#}"
proof -
  have "flow bm n {#qf_id f#} ((usb_write_port usb f b ^^ nfrag) n) {#qf_id f#}"
    by (induction nfrag) (simp_all add: flow_refl assms flow_same_after bufs_same)
  then show ?thesis unfolding rtw_dump_xframe_def by (rule flow_bind) (rule flow_free)
qed

text \<open>A frame with its buffer, sent or given up.\<close>

lemma send_flow:
  assumes "flow bm n h m {#qf_id f#}"
  shows "flow bm n h (if ok then rtw_dump_xframe usb nfrag f b m else rtw_free_xmitframe f (rtw_free_xmitbuf b m)) {#}"
  using flow_trans [OF assms dump_flow [OF flow_ok(1) [OF assms]]]
    flow_trans [OF flow_same_after [OF assms bufs_same(1)] flow_free [OF flow_ok(1) [OF flow_same_after [OF assms bufs_same(1)]]]]
  by simp

lemma complete_flow:
  assumes n: "queues_ok bm n" and c: "rtl8192cu_xmitframe_complete env n = (r, n')"
  shows "flow bm n {#} n' {#}"
proof -
  obtain bo m where a: "rtw_alloc_xmitbuf n = (bo, m)" by fastforce
  have m: "flow bm n {#} m {#}" by (rule flow_same [OF n bufs_same(4) [OF a]])
  show ?thesis
  proof (cases bo)
    case None
    then show ?thesis using c a m by (simp add: rtl8192cu_xmitframe_complete_def)
  next
    case (Some b)
    show ?thesis
    proof (cases "rtw_dequeue_xframe m")
      case None
      then show ?thesis using c a Some flow_same_after [OF m bufs_same(1)] by (auto simp: rtl8192cu_xmitframe_complete_def)
    next
      case (Some fk)
      obtain f k where fk: "fk = (f, k)" by fastforce
      obtain ok nfrag usb where e: "env f = (ok, nfrag, usb)" by (metis prod_cases3)
      have "flow bm m {#} k {#qf_id f#}" using dequeue_flow [OF flow_ok(1) [OF m]] Some fk by (simp add: dequeued_def)
      with m have "flow bm n {#} k {#qf_id f#}" by (rule flow_trans)
      from send_flow [OF this] show ?thesis
        using c a \<open>bo = Some b\<close> Some fk e by (auto simp: rtl8192cu_xmitframe_complete_def)
    qed
  qed
qed

lemma xmit_enqueue_flow:
  assumes n: "queues_ok bm n" "own_frame bm i f" "i < length (q_stas n)"
  shows "flow bm n {#qf_id f#} (snd (xmit_enqueue f n)) {#}"
proof (cases "rtw_xmit_classifier f n")
  case None
  have "same_queues m (m\<lparr>q_tx_pkts := a, q_tx_drop := b\<rparr>)" for m a b by (simp add: same_queues_def)
  with flow_same_after [OF flow_free [OF n(1)]] None show ?thesis by (simp add: xmit_enqueue_def Let_def)
next
  case (Some m)
  then show ?thesis using flow_classifier [OF n Some] by (simp add: xmit_enqueue_def)
qed

lemma pre_xmitframe_flow:
  assumes n: "queues_ok bm n" "own_frame bm i f" "i < length (q_stas n)" and r: "pre_xmitframe env f n = (h, n')"
  shows "flow bm n {#qf_id f#} n' {#}"
proof -
  define g where "g = f\<lparr>qf_qsel := qf_priority f\<rparr>"
  have g: "own_frame bm i g" "qf_id g = qf_id f" using n(2) by (simp_all add: g_def own_frame_def)
  obtain q f' m where e: "xmitframe_enqueue_for_sleeping_sta g n = (q, f', m)" by (metis prod_cases3)
  note E = enqueue_sleeping_flow [OF n(1,3) g(1) e]
  have fl: "flow bm n {#qf_id f#} m (if q then {#} else {#qf_id f'#})" using E(1,2) g(2) by (cases q) simp_all
  have i: "queues_ok bm m" "i < length (q_stas m)" using flow_ok [OF fl] n(3) by simp_all
  show ?thesis
  proof (cases q)
    case True
    have "frame_sta m f' = Some i" using E(3) by (simp add: frame_sta_def own_frame_def)
    then show ?thesis using r fl True flow_trans [OF _ wakeup_flow [OF i]]
      by (auto simp: pre_xmitframe_def e simp flip: g_def split: if_splits)
  next
    case False
    then have f: "flow bm n {#qf_id f#} m {#qf_id f'#}" using fl by simp
    have en: "flow bm n {#qf_id f#} (snd (xmit_enqueue f' m)) {#}"
      by (rule flow_trans [OF f xmit_enqueue_flow [OF i(1) E(3) i(2)]])
    obtain bo k where a: "rtw_alloc_xmitbuf m = (bo, k)" by fastforce
    have k: "flow bm n {#qf_id f#} k {#qf_id f'#}" by (rule flow_same_after [OF f bufs_same(4) [OF a]])
    have en': "flow bm n {#qf_id f#} (snd (xmit_enqueue f' k)) {#}"
      using flow_trans [OF k xmit_enqueue_flow [OF flow_ok(1) [OF k] E(3)]] flow_ok(2) [OF k] n(3) by simp
    obtain ok nfrag usb where v: "env f' = (ok, nfrag, usb)" by (metis prod_cases3)
    show ?thesis
    proof (cases bo)
      case None
      then show ?thesis using r False en en'
        by (auto simp: pre_xmitframe_def e a simp flip: g_def split: if_splits)
    next
      case (Some b)
      then show ?thesis using r False en send_flow [OF k, of ok usb nfrag b]
        by (auto simp: pre_xmitframe_def e a v simp flip: g_def split: if_splits)
    qed
  qed
qed

lemma rtw_xmit_flow:
  assumes n: "queues_ok bm n" and a: "\<And>ra sta prio. attribs = Some (ra, sta, prio) \<Longrightarrow> \<exists>i < length (q_stas n). sta = Some i \<and> (is_multicast_ether_addr ra \<longleftrightarrow> bm = Some i)"
    and r: "rtw_xmit env attribs n = (c, n')"
  shows "flow bm n {#} n' {#}"
proof (cases "q_free n")
  case Nil
  then show ?thesis using r flow_refl [OF n] by (simp add: rtw_xmit_def rtw_alloc_xmitframe_def)
next
  case (Cons k ks)
  define f m where "f = new_qframe k" and "m = n\<lparr>q_free := ks, q_free_cnt := q_free_cnt n - 1\<rparr>"
  have al: "rtw_alloc_xmitframe n = (Some f, m)" by (simp add: rtw_alloc_xmitframe_def Cons f_def m_def)
  have m: "flow bm n {#} m {#qf_id f#}" by (rule flow_alloc [OF n al])
  show ?thesis
  proof (cases attribs)
    case None
    then show ?thesis using r flow_trans [OF m flow_free [OF flow_ok(1) [OF m]]] by (simp add: rtw_xmit_def al)
  next
    case (Some x)
    obtain ra sta prio where x: "x = (ra, sta, prio)" by (metis prod_cases3)
    obtain i where i: "i < length (q_stas n)" "sta = Some i" "is_multicast_ether_addr ra \<longleftrightarrow> bm = Some i" using a Some x by blast
    define g where "g = f\<lparr>qf_ra := ra, qf_psta := Some i, qf_priority := prio, qf_qsel := prio\<rparr>"
    have g: "own_frame bm i g" "qf_id g = qf_id f" using i(3) by (simp_all add: g_def own_frame_def)
    have im: "i < length (q_stas m)" using flow_ok(2) [OF m] i(1) by simp
    obtain q f' o1 where e: "xmitframe_enqueue_for_sleeping_sta g m = (q, f', o1)" by (metis prod_cases3)
    note E = enqueue_sleeping_flow [OF flow_ok(1) [OF m] im g(1) e]
    have fl: "flow bm n {#} o1 (if q then {#} else {#qf_id f'#})" using flow_trans [OF m] E(1,2) g(2) by (cases q) simp_all
    show ?thesis
    proof (cases q)
      case True
      then show ?thesis using r fl by (simp add: rtw_xmit_def al Some x i(2) e flip: g_def)
    next
      case False
      obtain h o2 where p: "pre_xmitframe env f' o1 = (h, o2)" by fastforce
      have "flow bm o1 {#qf_id f'#} o2 {#}"
        using pre_xmitframe_flow [OF flow_ok(1) [OF fl] E(3) _ p] flow_ok(2) [OF fl] i(1) by simp
      with fl False have "flow bm n {#} o2 {#}" using flow_trans by simp
      then show ?thesis using r False by (simp add: rtw_xmit_def al Some x i(2) e p flip: g_def)
    qed
  qed
qed

section \<open>Release of a station\<close>

lemma free_queue_frame: "q_stas (rtw_free_xmitframe_queue fs n) = q_stas n" "q_hw (rtw_free_xmitframe_queue fs n) = q_hw n"
  "q_accnt (rtw_free_xmitframe_queue fs n) = q_accnt n"
proof -
  have "q_stas (fold rtw_free_xmitframe fs n) = q_stas n \<and> q_hw (fold rtw_free_xmitframe fs n) = q_hw n
      \<and> q_accnt (fold rtw_free_xmitframe fs n) = q_accnt n"
    by (induction fs arbitrary: n) (simp_all add: rtw_free_xmitframe_def)
  then show "q_stas (rtw_free_xmitframe_queue fs n) = q_stas n" "q_hw (rtw_free_xmitframe_queue fs n) = q_hw n"
    "q_accnt (rtw_free_xmitframe_queue fs n) = q_accnt n" by (simp_all add: rtw_free_xmitframe_queue_def)
qed

text \<open>The frames leave the queue first, and go to the pool.\<close>

lemma free_frame_commute:
  "rtw_free_xmitframe f (upd_q i g n) = upd_q i g (rtw_free_xmitframe f n)"
  "rtw_free_xmitframe f (n\<lparr>q_accnt := c\<rparr>) = (rtw_free_xmitframe f n)\<lparr>q_accnt := c\<rparr>"
  "rtw_free_xmitframe f (n\<lparr>q_hw := w\<rparr>) = (rtw_free_xmitframe f n)\<lparr>q_hw := w\<rparr>"
  by (simp_all add: rtw_free_xmitframe_def upd_q_def)

lemma upd_q_commute:
  "upd_q i g (n\<lparr>q_accnt := c\<rparr>) = (upd_q i g n)\<lparr>q_accnt := c\<rparr>" "upd_q i g (n\<lparr>q_hw := w\<rparr>) = (upd_q i g n)\<lparr>q_hw := w\<rparr>"
  by (simp_all add: upd_q_def)

lemma free_queue_commute:
  "rtw_free_xmitframe_queue fs (upd_q i g n) = upd_q i g (rtw_free_xmitframe_queue fs n)"
  "rtw_free_xmitframe_queue fs (n\<lparr>q_accnt := c\<rparr>) = (rtw_free_xmitframe_queue fs n)\<lparr>q_accnt := c\<rparr>"
  "rtw_free_xmitframe_queue fs (n\<lparr>q_hw := w\<rparr>) = (rtw_free_xmitframe_queue fs n)\<lparr>q_hw := w\<rparr>"
  unfolding rtw_free_xmitframe_queue_def by (induction fs arbitrary: n) (simp_all add: free_frame_commute)

lemma free_ac_flow:
  assumes n: "queues_ok bm n" "i < length (q_stas n)" "ac < 4"
  shows "flow bm n {#} (free_ac i ac n) {#}"
proof -
  define s where "s = q_stas n ! i"
  have s: "q_sta_ok bm i s" using sta_queues [OF n(1,2)] by (simp add: s_def)
  have len: "length (q_pending s) = 4" "q_cnt s = map (\<lambda>q. int (length q)) (q_pending s)" using s by (simp_all add: q_sta_ok_def)
  define g :: "q_sta \<Rightarrow> q_sta" where "g = (\<lambda>s. s\<lparr>q_pending := (q_pending s)[ac := []], q_cnt := (q_cnt s)[ac := 0]\<rparr>)"
  define m where "m = upd_q i g n\<lparr>q_accnt := (q_accnt n)[ac := q_accnt n ! ac - q_cnt s ! ac]\<rparr>"
  have "q_sta_ok bm i (g s)" using pending_ok [OF s n(3), of "[]"] by (simp add: g_def)
  moreover have "frames_of s + {#} = frames_of (g s) + mset (map qf_id (q_pending s ! ac))"
    using frames_of_pending [of ac s "[]"] len n(3) by (simp add: g_def)
  ultimately have m: "flow bm n {#} m (mset (map qf_id (q_pending s ! ac)))"
    using flow_upd_ac [OF n(1,2), of g ac 0 _ "{#}" "mset (map qf_id (q_pending s ! ac))"] n(3) by (simp add: s_def g_def m_def)
  have "flow bm n {#} (m\<lparr>q_hw := (q_hw m)[ac := removeAll i (q_hw m ! ac)]\<rparr>) (mset (map qf_id (q_pending s ! ac)))"
    by (rule flow_hw [OF m]) (use hw_bound [OF flow_ok(1) [OF m] n(3)] in auto)
  then have "flow bm n {#} (rtw_free_xmitframe_queue (q_pending s ! ac) (m\<lparr>q_hw := (q_hw m)[ac := removeAll i (q_hw m ! ac)]\<rparr>)) {#}"
    by (rule flow_bind) (rule flow_free_queue)
  also have "rtw_free_xmitframe_queue (q_pending s ! ac) (m\<lparr>q_hw := (q_hw m)[ac := removeAll i (q_hw m ! ac)]\<rparr>) = free_ac i ac n"
    by (simp add: m_def free_queue_commute free_ac_def Let_def free_queue_frame upd_q_commute flip: s_def g_def)
  finally show ?thesis .
qed

lemma free_sta_flow:
  assumes n: "queues_ok bm n" "i < length (q_stas n)"
  shows "flow bm n {#} (free_sta_queues i n) {#}"
proof -
  define m where "m = set_q_state i (q_state n i AND NOT FW_LINKED) n"
  have m: "flow bm n {#} m {#}" unfolding m_def by (intro flow_after flow_refl n)
  have im: "queues_ok bm m" "i < length (q_stas m)" using n by (simp_all add: m_def)
  define k where "k = upd_q i (\<lambda>s. s\<lparr>sleepq := [], sleepq_len := 0\<rparr>) m"
  have "flow bm m {#} k (mset (map qf_id (sleepq (q_stas m ! i))))" unfolding k_def
    by (rule flow_sleepq [OF im, where fs = "[]" and a = "sleepq_ac_len (q_stas m ! i)"]) simp_all
  with m have "flow bm n {#} k (mset (map qf_id (sleepq (q_stas m ! i))))" by (rule flow_trans)
  then have f: "flow bm n {#} (rtw_free_xmitframe_queue (sleepq (q_stas m ! i)) k) {#}" by (rule flow_bind) (rule flow_free_queue)
  define l where "l = upd_q i (\<lambda>s. s\<lparr>sleepq := [], sleepq_len := 0\<rparr>) (rtw_free_xmitframe_queue (sleepq (q_stas m ! i)) m)"
  have l: "flow bm n {#} l {#}" using f by (simp add: k_def l_def free_queue_commute)
  define o4 where "o4 = free_ac i 3 (free_ac i 2 (free_ac i 1 (free_ac i 0 l)))"
  have o4: "flow bm n {#} o4 {#}" unfolding o4_def
    by (rule flow_bind [OF flow_bind [OF flow_bind [OF flow_bind [OF l]]]]; rule free_ac_flow) (use n(2) in simp_all)
  define g :: "q_sta \<Rightarrow> q_sta" where "g = (\<lambda>s. s\<lparr>q_expire_to := 0, sleepq_ac_len := 0, q_qos_info := 0, uapsd_bk := 0, uapsd_be := 0,
      uapsd_vi := 0, uapsd_vo := 0, has_legacy_ac := False\<rparr>)"
  have "flow bm o4 {#} (upd_q i g o4) {#}"
    by (rule flow_upd) (use flow_ok [OF o4] n(2) sta_queues [of bm o4 i] in \<open>simp_all add: g_def q_sta_ok_def frames_of_def\<close>)
  with o4 have o5: "flow bm n {#} (upd_q i g o4) {#}" by (rule flow_trans)
  define a where "a = q_aid (q_stas (upd_q i g o4) ! i)"
  define o6 where "o6 = clear_tim a (clear_dz a (upd_q i g o4))"
  have o6: "flow bm n {#} o6 {#}" unfolding o6_def by (rule flow_after(3) [OF flow_after(5) [OF o5]])
  define o7 where "o7 = o6\<lparr>q_aids := (q_aids o6)[a - 1 := None]\<rparr>"
  have o7: "flow bm n {#} o7 {#}" unfolding o7_def by (rule flow_same_after [OF o6]) (simp add: same_queues_def)
  have "flow bm o7 {#} (upd_q i (q_aid_update (\<lambda>_. 0)) o7) {#}"
    by (rule flow_upd) (use flow_ok [OF o7] n(2) sta_queues [of bm o7 i] in \<open>simp_all add: q_sta_ok_def frames_of_def\<close>)
  with o7 have "flow bm n {#} (upd_q i (q_aid_update (\<lambda>_. 0)) o7) {#}" by (rule flow_trans)
  with o5 o6 show ?thesis
    unfolding free_sta_queues_def Let_def m_def [symmetric] l_def [symmetric] o4_def [symmetric] g_def [symmetric] a_def [symmetric]
      o6_def [symmetric] o7_def [symmetric] by simp
qed

section \<open>Every reachable state\<close>

text \<open>What other parts do to the state: they leave the frames and the counters alone. \<open>E\<close> restricts it further.\<close>

definition q_environment :: "tx_queues \<Rightarrow> tx_queues \<Rightarrow> bool" where
  "q_environment n m \<longleftrightarrow> length (q_stas m) = length (q_stas n) \<and> q_hw m = q_hw n \<and> q_accnt m = q_accnt n \<and> q_free m = q_free n
     \<and> q_free_cnt m = q_free_cnt n \<and> set (q_wmm_seq m) = {..< 4}
     \<and> (\<forall>i < length (q_stas n). sleepq (q_stas m ! i) = sleepq (q_stas n ! i) \<and> sleepq_len (q_stas m ! i) = sleepq_len (q_stas n ! i)
          \<and> q_pending (q_stas m ! i) = q_pending (q_stas n ! i) \<and> q_cnt (q_stas m ! i) = q_cnt (q_stas n ! i))
     \<and> (\<forall>a i. rtw_get_stainfo (q_table m) a = Some i \<longrightarrow> i < length (q_stas n))"

inductive q_step :: "nat option \<Rightarrow> (tx_queues \<Rightarrow> tx_queues \<Rightarrow> bool) \<Rightarrow> tx_queues \<Rightarrow> tx_queues \<Rightarrow> bool" where
  xmit: "rtw_xmit env (map_option (\<lambda>(ra, i, prio). (ra, Some i, prio)) a) n = (r, n') \<Longrightarrow>
    (\<And>ra i prio. a = Some (ra, i, prio) \<Longrightarrow> i < length (q_stas n) \<and> (is_multicast_ether_addr ra \<longleftrightarrow> bm = Some i)) \<Longrightarrow> q_step bm E n n'"
| complete: "rtl8192cu_xmitframe_complete env n = (r, n') \<Longrightarrow> q_step bm E n n'"
| written: "q_step bm E n (usb_write_port_complete b n)"
| pwrbit: "process_pwrbit_data src pwr n = Some n' \<Longrightarrow> q_step bm E n n'"
| wmmps: "q_step bm E n (process_wmmps_data src prio n)"
| ctrl: "validate_recv_ctrl_frame p prio n = Some n' \<Longrightarrow> q_step bm E n n'"
| beacon: "q_step bm E n (tx_beacon_hdl n)"
| hi_queue: "q_step bm E n (rtw_chk_hi_queue_hdl e n)"
| leave: "i < length (q_stas n) \<Longrightarrow> q_step bm E n (free_sta_queues i n)"
| other: "E n m \<Longrightarrow> q_environment n m \<Longrightarrow> q_step bm E n m"

definition q_start :: "tx_queues \<Rightarrow> tx_queues \<Rightarrow> bool" where
  "q_start n0 n \<longleftrightarrow> n = init_xmit_queues n0 \<and> q_stas n0 = replicate NUM_STA init_q_sta
     \<and> (\<forall>a i. rtw_get_stainfo (q_table n0) a = Some i \<longrightarrow> i < NUM_STA)"

lemma environment_flow:
  assumes n: "queues_ok bm n" and e: "q_environment n m"
  shows "flow bm n {#} m {#}"
proof -
  have st: "length (q_stas m) = length (q_stas n)" using e by (simp add: q_environment_def)
  have "map (\<lambda>s. q_cnt s ! ac) (q_stas m) = map (\<lambda>s. q_cnt s ! ac) (q_stas n)" for ac
    by (rule nth_equalityI) (use e in \<open>simp_all add: q_environment_def\<close>)
  moreover have "map frames_of (q_stas m) = map frames_of (q_stas n)"
    by (rule nth_equalityI) (use e in \<open>simp_all add: q_environment_def frames_of_def\<close>)
  moreover have "\<forall>i < length (q_stas n). q_sta_ok bm i (q_stas m ! i)"
    using n e by (simp add: queues_ok_def q_environment_def q_sta_ok_def)
  ultimately show ?thesis using n e by (simp add: flow_def queues_ok_def q_environment_def frame_ids_def)
qed

lemma step_flow:
  assumes "q_step bm E n m" "queues_ok bm n"
  shows "flow bm n {#} m {#}"
  using assms
proof cases
  case (xmit env a r)
  show ?thesis by (rule rtw_xmit_flow [OF assms(2) _ xmit(1)]) (use xmit(2) in auto)
next
  case (written b)
  then show ?thesis using flow_same [OF assms(2) bufs_same(3)] by simp
qed (use assms(2) complete_flow pwrbit_flow wmmps_flow ctrl_frame_flow tx_beacon_flow chk_hi_queue_flow free_sta_flow environment_flow in auto)

lemma start_ok:
  assumes "q_start n0 n"
  shows "queues_ok bm n" "frame_ids n = mset [0 ..< NR_XMITFRAME]"
proof -
  have n: "n = init_xmit_queues n0" "q_stas n0 = replicate NUM_STA init_q_sta" using assms by (simp_all add: q_start_def)
  have "(\<Sum>s\<leftarrow>replicate k init_q_sta. q_cnt s ! ac) = 0" if "ac < 4" for k ac
    using that by (induction k) (auto simp: init_q_sta_def less_Suc_eq numeral_eq_Suc)
  then have "map (\<lambda>ac. \<Sum>s\<leftarrow>replicate NUM_STA init_q_sta. q_cnt s ! ac) [0 ..< 4] = [0, 0, 0, 0]" by (simp add: numeral_eq_Suc)
  moreover have "q_sta_ok bm i init_q_sta" for i by (auto simp: q_sta_ok_def init_q_sta_def less_Suc_eq numeral_eq_Suc)
  moreover have "frames_of init_q_sta = {#}" by (simp add: frames_of_def init_q_sta_def)
  then have "(\<Sum>s\<leftarrow>replicate k init_q_sta. frames_of s) = {#}" for k by (induction k) simp_all
  ultimately show "queues_ok bm n" "frame_ids n = mset [0 ..< NR_XMITFRAME]"
    using assms unfolding n by (auto simp: queues_ok_def frame_ids_def init_xmit_queues_def n(2) q_start_def less_Suc_eq numeral_eq_Suc)
qed

text \<open>C7. Transmit frames are neither lost nor duplicated: in every state the driver reaches, each of the 256
  frames is in exactly one of the pool, the sleep queue of a station and the four transmit queues of a
  station; the counters \<^verbatim>\<open>free_xmitframe_cnt\<close>, \<^verbatim>\<open>qcnt\<close>, \<^verbatim>\<open>accnt\<close> and \<^verbatim>\<open>sleepq_len\<close> are the lengths of their
  queues, and a frame waits at its own station in the queue of its access category.\<close>

theorem xmit_frames_conserved:
  assumes "q_start n0 n1" "(q_step bm E)\<^sup>*\<^sup>* n1 n"
  shows "queues_ok bm n \<and> frame_ids n = mset [0 ..< NR_XMITFRAME]"
  using assms(2)
proof (induction rule: rtranclp_induct)
  case base
  show ?case using start_ok [OF assms(1)] by simp
next
  case (step n m)
  from step_flow [OF step.hyps(2)] step.IH show ?case by (simp add: flow_def)
qed

text \<open>A packet for an associated station, sent at once.\<close>

definition q_example0 :: tx_queues where
  "q_example0 = \<lparr>q_fw_state = 0x11, q_mac = replicate 6 4, q_table = example_table (replicate 6 2),
     q_stas = replicate NUM_STA init_q_sta, q_aids = replicate NUM_STA None, q_dz = 0, q_tim = 0, q_expire = 0, q_hw = [], q_accnt = [], q_free = [], q_free_cnt = 0,
     q_bufs = [], q_buf_cnt = 0, q_flight = [], q_wifi_spec = False, q_wmm_seq = [], q_stopped = False, q_tx_pkts = 0,
     q_tx_drop = 0, q_out = []\<rparr>"

definition q_example :: tx_queues where "q_example = init_xmit_queues q_example0"

lemma q_example_fields: "q_stas q_example0 = replicate NUM_STA init_q_sta" "q_table q_example0 = example_table (replicate 6 2)"
  "q_stas q_example = replicate NUM_STA init_q_sta"
  by (simp_all add: q_example0_def q_example_def init_xmit_queues_def)

lemma example_lookup:
  assumes "rtw_get_stainfo (example_table mac) a = Some i"
  shows "i = 0"
proof -
  have "sta_hash (example_table mac) ! wifi_mac_hash x = [0]" for x using wifi_mac_hash_less [of x] by (simp add: example_table_def NUM_STA_def)
  then show ?thesis using assms by (auto simp: rtw_get_stainfo_def Let_def split: if_splits)
qed

lemma q_example_start: "q_start q_example0 q_example"
  unfolding q_start_def q_example_fields using example_lookup by (fastforce simp: q_example_def NUM_STA_def)

theorem xmit_frames_conserved_witness:
  "\<exists>n. rtw_xmit (\<lambda>_. (True, 1, True)) (Some (replicate 6 2, Some 0, 5)) q_example = (0, n)
     \<and> queues_ok None n \<and> frame_ids n = mset [0 ..< NR_XMITFRAME]"
proof -
  obtain c n where x: "rtw_xmit (\<lambda>_. (True, 1, True)) (Some (replicate 6 2, Some 0, 5)) q_example = (c, n)" by fastforce
  have "fst (rtw_xmit (\<lambda>_. (True, 1, True)) (Some (replicate 6 2, Some 0, 5)) q_example) = 0" by code_simp
  then have c: "c = 0" using x by simp
  have "length (q_stas q_example) = NUM_STA" by (simp add: q_example_fields)
  then have "q_step None (\<lambda>_ _. True) q_example n"
    using q_step.xmit [of "\<lambda>_. (True, 1, True)" "Some (replicate 6 2, 0, 5)" q_example c n None "\<lambda>_ _. True"] x
    by (simp add: NUM_STA_def is_multicast_ether_addr_def)
  then have "(q_step None (\<lambda>_ _. True))\<^sup>*\<^sup>* q_example n" by simp
  from xmit_frames_conserved [OF q_example_start this] x c show ?thesis by simp
qed

section \<open>The transmit tasklet\<close>

lemma dequeue_stas_frame: "dequeue_stas ac is n = Some (f, n') \<Longrightarrow> q_free n' = q_free n \<and> q_bufs n' = q_bufs n"
  by (induction ac "is" n rule: dequeue_stas.induct)
    (auto simp: dequeue_one_xmitframe_def Let_def upd_q_def split: option.splits list.splits prod.splits)

lemma dequeue_frame: "rtw_dequeue_xframe n = Some (f, n') \<Longrightarrow> q_free n' = q_free n"
proof -
  have "dequeue_acs acs n = Some (f, n') \<Longrightarrow> q_free n' = q_free n" for acs
    by (induction acs) (auto dest: dequeue_stas_frame split: option.splits)
  then show "rtw_dequeue_xframe n = Some (f, n') \<Longrightarrow> q_free n' = q_free n" by (simp add: rtw_dequeue_xframe_def)
qed

definition hw_drained :: "tx_queues \<Rightarrow> bool" where
  "hw_drained n \<longleftrightarrow> (\<forall>ac < 4. \<forall>i \<in> set (q_hw n ! ac). q_pending (q_stas n ! i) ! ac = [])"

lemma dequeue_None:
  assumes "queues_ok bm n" "rtw_dequeue_xframe n = None"
  shows "hw_drained n"
proof -
  have st: "dequeue_stas ac is n = None \<Longrightarrow> \<forall>i \<in> set is. q_pending (q_stas n ! i) ! ac = []" for ac "is"
    by (induction "is") (auto simp: dequeue_one_xmitframe_def Let_def split: option.splits list.splits)
  have "dequeue_acs acs n = None \<Longrightarrow> \<forall>ac \<in> set acs. \<forall>i \<in> set (q_hw n ! ac). q_pending (q_stas n ! i) ! ac = []" for acs
    using st by (induction acs) (auto split: option.splits)
  moreover have "set (if q_wifi_spec n then q_wmm_seq n else [0, 1, 2, 3]) = {..< 4}"
    using assms(1) by (auto simp: queues_ok_def less_Suc_eq numeral_eq_Suc)
  ultimately show ?thesis using assms(2) unfolding hw_drained_def rtw_dequeue_xframe_def by (metis lessThan_iff)
qed

lemma write_frame [simp]: "q_free (usb_write_port usb f b n) = q_free n"
  by (simp add: usb_write_port_def rtw_free_xmitbuf_def out_def)

lemma write_frames: "q_free ((usb_write_port usb f b ^^ k) n) = q_free n"
  by (induction k) simp_all

lemma complete_progress:
  assumes "queues_ok bm n" "rtl8192cu_xmitframe_complete env n = (r, n')"
  shows "if r then length (q_free n') = length (q_free n) + 1 else q_bufs n' = [] \<or> hw_drained n'"
proof -
  obtain bo m where a: "rtw_alloc_xmitbuf n = (bo, m)" by fastforce
  have am: "queues_ok bm m" "q_free m = q_free n"
    using flow_ok(1) [OF flow_same [OF assms(1) bufs_same(4) [OF a]]] a by (auto simp: rtw_alloc_xmitbuf_def split: list.splits)
  show ?thesis
  proof (cases bo)
    case None
    then show ?thesis using assms(2) a by (auto simp: rtl8192cu_xmitframe_complete_def rtw_alloc_xmitbuf_def split: list.splits)
  next
    case (Some b)
    show ?thesis
    proof (cases "rtw_dequeue_xframe m")
      case None
      then have "r = False" "n' = rtw_free_xmitbuf b m" using assms(2) a Some by (simp_all add: rtl8192cu_xmitframe_complete_def)
      then show ?thesis using dequeue_None [OF am(1) None] by (simp add: hw_drained_def rtw_free_xmitbuf_def)
    next
      case (Some fk)
      obtain f k where fk: "fk = (f, k)" by fastforce
      obtain ok nfrag usb where e: "env f = (ok, nfrag, usb)" by (metis prod_cases3)
      have "q_free k = q_free n" using dequeue_frame Some fk am(2) by simp
      then show ?thesis using assms(2) a \<open>bo = Some b\<close> Some fk e
        by (auto simp: rtl8192cu_xmitframe_complete_def rtw_dump_xframe_def rtw_free_xmitframe_def write_frames rtw_free_xmitbuf_def)
    qed
  qed
qed



end
