(* ===== verification/PowerSave.thy ===== *)
theory PowerSave
  imports TxQueueInv
begin

text \<open>
  Power saving of the stations of an access point: what a station that wakes up or polls gets, and that the
  stations with waiting frames are the ones the traffic indication map names.
\<close>

section \<open>Legacy stations\<close>

definition legacy :: "q_sta \<Rightarrow> bool" where
  "legacy s \<longleftrightarrow> has_legacy_ac s \<and> uapsd_bk s = 0 \<and> uapsd_be s = 0 \<and> uapsd_vi s = 0 \<and> uapsd_vo s = 0"

lemma legacy_uapsd [simp]: "legacy s \<Longrightarrow> uapsd_of s p = 0"
  by (simp add: legacy_def uapsd_of_def)

text \<open>Frames released from a sleep queue tell whether there are more.\<close>

fun release :: "qframe list \<Rightarrow> qframe list" where
  "release [] = []"
| "release (f # fs) = f\<lparr>qf_mdata := (fs \<noteq> []), qf_triggered := True\<rparr> # release fs"

definition queue_ac :: "nat \<Rightarrow> qframe list \<Rightarrow> qframe list" where
  "queue_ac ac fs = filter (\<lambda>f. ac_index (qf_priority f) = ac) fs"

text \<open>Queueing a frame for a linked station.\<close>

lemma hal_enqueue_linked:
  assumes "own_frame bm i f" "q_linked n i" "i < length (q_stas n)" "length (q_pending (q_stas n ! i)) = 4" "ac < 4"
  shows "q_pending (q_stas (rtl8723au_hal_xmitframe_enqueue f n) ! i) ! ac = q_pending (q_stas n ! i) ! ac @ queue_ac ac [f]"
  using assms
  by (simp add: rtl8723au_hal_xmitframe_enqueue_def rtw_xmit_classifier_def frame_sta_def own_frame_def Let_def upd_q_def queue_ac_def
      nth_list_update)

lemma hal_enqueue_other: "q_table (rtl8723au_hal_xmitframe_enqueue f n) = q_table n" "q_dz (rtl8723au_hal_xmitframe_enqueue f n) = q_dz n"
  "q_tim (rtl8723au_hal_xmitframe_enqueue f n) = q_tim n" "length (q_stas (rtl8723au_hal_xmitframe_enqueue f n)) = length (q_stas n)"
  "q_fw_state (rtl8723au_hal_xmitframe_enqueue f n) = q_fw_state n"
  by (simp_all add: rtl8723au_hal_xmitframe_enqueue_def rtw_xmit_classifier_def rtw_free_xmitframe_def Let_def out_def upd_q_def split: option.splits)

text \<open>The part of a station that decides about its sleep.\<close>

definition sleep_view :: "q_sta \<Rightarrow> nat \<times> bool \<times> (u8 \<times> u8 \<times> u8 \<times> u8) \<times> qframe list \<times> u32" where
  "sleep_view s = (q_aid s, has_legacy_ac s, (uapsd_bk s, uapsd_be s, uapsd_vi s, uapsd_vo s), sleepq s, sleepq_len s)"

lemma sleep_view_fields:
  assumes "sleep_view s = sleep_view t"
  shows "q_aid s = q_aid t" "legacy s = legacy t" "sleepq s = sleepq t" "sleepq_len s = sleepq_len t"
  using assms by (simp_all add: sleep_view_def legacy_def)

lemma sleep_view_simps [simp]: "sleep_view (s\<lparr>q_pending := p\<rparr>) = sleep_view s" "sleep_view (s\<lparr>q_cnt := c\<rparr>) = sleep_view s"
  "sleep_view (s\<lparr>sleepq_ac_len := a\<rparr>) = sleep_view s" "sleep_view (s\<lparr>q_expire_to := e\<rparr>) = sleep_view s"
  by (simp_all add: sleep_view_def)

lemma view_upd_q: "(\<And>s. sleep_view (g s) = sleep_view s) \<Longrightarrow> sleep_view (q_stas (upd_q i g n) ! j) = sleep_view (q_stas n ! j)"
  by (rule upd_q_proj)

lemma hal_enqueue_view: "sleep_view (q_stas (rtl8723au_hal_xmitframe_enqueue f n) ! j) = sleep_view (q_stas n ! j)"
  by (auto simp: rtl8723au_hal_xmitframe_enqueue_def rtw_xmit_classifier_def rtw_free_xmitframe_def Let_def view_upd_q out_def
      split: option.splits)

lemma wake_frame_legacy:
  assumes "legacy s" "sleepq_len s = of_nat (Suc (length fs))" "length fs < 2 ^ 32"
  shows "wake_frame s f = (s\<lparr>sleepq_len := of_nat (length fs)\<rparr>, f\<lparr>qf_mdata := (fs \<noteq> []), qf_triggered := True\<rparr>)"
proof -
  have "(0 < (of_nat (length fs) :: u32)) = (fs \<noteq> [])"
    using assms(3) by (simp add: word_gt_0 of_nat_eq_0_iff) (auto simp: unsigned_of_nat take_bit_nat_eq_self word_of_nat_eq_0_iff dvd_def)
  then show ?thesis using assms(1,2) by (simp add: wake_frame_def Let_def)
qed

section \<open>Waking up\<close>

lemma hal_enqueue_apart:
  assumes "qf_psta f = Some i" "j \<noteq> i"
  shows "q_stas (rtl8723au_hal_xmitframe_enqueue f n) ! j = q_stas n ! j"
  using assms
  by (simp add: rtl8723au_hal_xmitframe_enqueue_def rtw_xmit_classifier_def frame_sta_def rtw_free_xmitframe_def Let_def out_def upd_q_def)

lemma hal_enqueue_out: "\<exists>es. q_out (rtl8723au_hal_xmitframe_enqueue f n) = q_out n @ es"
  by (auto simp: rtl8723au_hal_xmitframe_enqueue_def rtw_xmit_classifier_def rtw_free_xmitframe_def out_def Let_def split: option.splits)

lemma queue_ac_Cons: "queue_ac ac (f # fs) = queue_ac ac [f] @ queue_ac ac fs"
  by (simp add: queue_ac_def)

text \<open>What stays the same while station \<open>i\<close> is served.\<close>

definition apart :: "nat \<Rightarrow> tx_queues \<Rightarrow> tx_queues \<Rightarrow> bool" where
  "apart i n m \<longleftrightarrow> (\<forall>j. j \<noteq> i \<longrightarrow> q_stas m ! j = q_stas n ! j) \<and> q_table m = q_table n \<and> q_dz m = q_dz n \<and> q_tim m = q_tim n
     \<and> length (q_stas m) = length (q_stas n) \<and> q_fw_state m = q_fw_state n \<and> (\<exists>es. q_out m = q_out n @ es)"

lemma apart_trans: "apart i n m \<Longrightarrow> apart i m k \<Longrightarrow> apart i n k" by (auto simp: apart_def)

lemma apart_upd: "apart i n (upd_q i g n)" by (simp add: apart_def upd_q_def)

lemma apart_hal: "qf_psta f = Some i \<Longrightarrow> apart i n (rtl8723au_hal_xmitframe_enqueue f n)"
  using hal_enqueue_apart [of f i] hal_enqueue_out [of f n] by (simp add: apart_def hal_enqueue_other)

lemma q_linked_table: "q_table m = q_table n \<Longrightarrow> q_linked m i = q_linked n i"
  by (simp add: q_linked_def q_state_def)

lemma wake_frames_release:
  assumes "queues_ok bm n" "i < length (q_stas n)" "q_linked n i" "legacy (q_stas n ! i)" "sleepq (q_stas n ! i) = fs" "length fs < 2 ^ 32"
  shows "sleepq (q_stas (wake_frames i fs n) ! i) = [] \<and> sleepq_len (q_stas (wake_frames i fs n) ! i) = 0
     \<and> q_aid (q_stas (wake_frames i fs n) ! i) = q_aid (q_stas n ! i) \<and> apart i n (wake_frames i fs n)
     \<and> (\<forall>ac < 4. q_pending (q_stas (wake_frames i fs n) ! i) ! ac = q_pending (q_stas n ! i) ! ac @ queue_ac ac (release fs))"
  using assms
proof (induction fs arbitrary: n)
  case Nil
  then show ?case using sleepq_len_ok [OF Nil.prems(1,2)] by (simp add: apart_def queue_ac_def)
next
  case (Cons f fs)
  define s where "s = q_stas n ! i"
  have sl: "sleepq_len s = of_nat (Suc (length fs))" using sleepq_len_ok [OF Cons.prems(1,2)] Cons.prems(5) by (simp add: s_def)
  have w: "wake_frame s f = (s\<lparr>sleepq_len := of_nat (length fs)\<rparr>, f\<lparr>qf_mdata := (fs \<noteq> []), qf_triggered := True\<rparr>)"
    by (rule wake_frame_legacy) (use Cons.prems sl in \<open>simp_all add: s_def\<close>)
  define f' where "f' = f\<lparr>qf_mdata := (fs \<noteq> []), qf_triggered := True\<rparr>"
  define u where "u = upd_q i (\<lambda>_. s\<lparr>sleepq := [] @ fs, sleepq_len := sleepq_len s - 1, sleepq_ac_len := sleepq_ac_len s\<rparr>) n"
  define m where "m = rtl8723au_hal_xmitframe_enqueue f' u"
  have own: "own_frame bm i f'" using sleepq_own [OF Cons.prems(1,2)] Cons.prems(5) by (simp add: own_frame_def f'_def)
  have "s\<lparr>sleepq := [] @ fs, sleepq_len := sleepq_len s - 1, sleepq_ac_len := sleepq_ac_len s\<rparr>
      = s\<lparr>sleepq_len := of_nat (length fs), sleepq := fs\<rparr>"
    by (rule q_sta.equality) (simp_all add: sl)
  then have u: "u = upd_q i (\<lambda>_. s\<lparr>sleepq_len := of_nat (length fs), sleepq := fs\<rparr>) n" by (simp add: u_def)
  have fl: "flow bm n {#} m {#}" unfolding m_def u_def
    using flow_wake [OF Cons.prems(1,2), of "[]" f fs f' _ "sleepq_ac_len s"] Cons.prems(5) by (simp add: f'_def s_def)
  have um: "q_stas u ! i = s\<lparr>sleepq_len := of_nat (length fs), sleepq := fs\<rparr>" "i < length (q_stas u)" "q_table u = q_table n"
    using Cons.prems(2) by (simp_all add: u upd_q_sta)
  have len4: "length (q_pending s) = 4" using sta_queues [OF Cons.prems(1,2)] by (simp add: s_def q_sta_ok_def)
  have mv: "sleepq (q_stas m ! i) = fs" "q_aid (q_stas m ! i) = q_aid s" "legacy (q_stas m ! i)"
    using sleep_view_fields [OF hal_enqueue_view [of f' u i]] um(1) Cons.prems(4) by (simp_all add: m_def s_def legacy_def)
  have ap: "apart i n m"
    using apart_trans [of i n u m] apart_hal [of f' i u] apart_upd own by (simp add: m_def u_def own_frame_def)
  have lk: "q_linked m i" using q_linked_table [of m n i] ap Cons.prems(3) by (simp add: apart_def)
  have pe: "q_pending (q_stas m ! i) ! ac = q_pending s ! ac @ queue_ac ac [f']" if "ac < 4" for ac
    using hal_enqueue_linked [OF own, of u ac] um len4 q_linked_table [OF um(3), of i] Cons.prems(3) that by (simp add: m_def)
  have IH: "sleepq (q_stas (wake_frames i fs m) ! i) = [] \<and> sleepq_len (q_stas (wake_frames i fs m) ! i) = 0
     \<and> q_aid (q_stas (wake_frames i fs m) ! i) = q_aid (q_stas m ! i) \<and> apart i m (wake_frames i fs m)
     \<and> (\<forall>ac < 4. q_pending (q_stas (wake_frames i fs m) ! i) ! ac = q_pending (q_stas m ! i) ! ac @ queue_ac ac (release fs))"
    using Cons.IH [of m] flow_ok [OF fl] Cons.prems(2,6) lk mv by simp
  have "wake_frames i (f # fs) n = wake_frames i fs m"
    unfolding m_def u f'_def by (simp add: w s_def [symmetric])
  with IH mv pe apart_trans [OF ap] show ?case
    by (simp add: f'_def queue_ac_Cons [of _ _ "release fs"] s_def)
qed

lemma alive_again_view: "sleep_view (q_stas (alive_again i n) ! j) = sleep_view (q_stas n ! j)"
  by (simp add: alive_again_def view_upd_q)

lemma alive_again_fields [simp]: "q_tim (alive_again i n) = q_tim n" "q_dz (alive_again i n) = q_dz n"
  "length (q_stas (alive_again i n)) = length (q_stas n)" "q_out (alive_again i n) = q_out n"
  "rtw_get_stainfo (q_table (alive_again i n)) a = rtw_get_stainfo (q_table n) a"
  by (simp_all add: alive_again_def)

lemma alive_again_pending: "q_pending (q_stas (alive_again i n) ! j) = q_pending (q_stas n ! j)"
  by (simp add: alive_again_def upd_q_proj)

lemma q_state_set: "i < length (sta_buf (q_table n)) \<Longrightarrow> q_state (set_q_state i st n) j = (if j = i then st else q_state n j)"
  by (simp add: q_state_def set_q_state_def nth_list_update)

lemma sleep_bits: "bit WIFI_SLEEP_STATE k \<longleftrightarrow> k = 2" "bit WIFI_STA_ALIVE_CHK_STATE k \<longleftrightarrow> k = 10"
  using bit_exp_iff [where 'a = u32, of 2 k] bit_exp_iff [where 'a = u32, of 10 k]
  by (simp_all add: WIFI_SLEEP_STATE_def WIFI_STA_ALIVE_CHK_STATE_def, auto)

lemma and_sleep: "x AND WIFI_SLEEP_STATE \<noteq> 0 \<longleftrightarrow> bit x 2"
  by (auto simp: bit_eq_iff [where 'a = u32] bit_simps sleep_bits)

lemma state_bits:
  "(x XOR WIFI_STA_ALIVE_CHK_STATE) AND WIFI_SLEEP_STATE = x AND WIFI_SLEEP_STATE"
  "x AND WIFI_SLEEP_STATE \<noteq> 0 \<Longrightarrow> (x XOR WIFI_SLEEP_STATE) AND WIFI_SLEEP_STATE = 0"
  "(x OR WIFI_SLEEP_STATE) AND WIFI_SLEEP_STATE \<noteq> 0"
  unfolding and_sleep
  by (auto simp: bit_eq_iff [where 'a = u32] bit_simps sleep_bits)

lemma q_state_simps [simp]: "q_state (upd_q i g n) = q_state n" "q_state (set_tim a n) = q_state n" "q_state (clear_tim a n) = q_state n"
  "q_state (set_dz a n) = q_state n" "q_state (clear_dz a n) = q_state n" "q_state (out e n) = q_state n" "q_state (update_tim n) = q_state n"
  by (simp_all add: q_state_def fun_eq_iff)

lemma alive_again_sleeping:
  "(q_state (alive_again i n) j AND WIFI_SLEEP_STATE = 0) = (q_state n j AND WIFI_SLEEP_STATE = 0)"
proof (cases "i < length (sta_buf (q_table n))")
  case True
  then have "i < length (sta_buf (q_table (upd_q i g n)))" for g by simp
  then show ?thesis by (simp add: alive_again_def q_state_set state_bits)
next
  case False
  then show ?thesis by (simp add: alive_again_def q_state_def set_q_state_def list_update_beyond)
qed

lemma wake_done_effect:
  assumes "i < length (sta_buf (q_table n))"
  shows "q_state (wake_done i n) i AND WIFI_SLEEP_STATE = 0" "q_tim (wake_done i n) = q_tim n AND NOT (push_bit (q_aid (q_stas n ! i)) 1)"
    "q_dz (wake_done i n) = q_dz n AND NOT (push_bit (q_aid (q_stas n ! i)) 1)" "q_out (wake_done i n) = q_out n"
    "sleep_view (q_stas (wake_done i n) ! j) = sleep_view (q_stas n ! j)" "q_pending (q_stas (wake_done i n) ! j) = q_pending (q_stas n ! j)"
    "rtw_get_stainfo (q_table (wake_done i n)) a = rtw_get_stainfo (q_table n) a"
proof -
  define m where "m = (if q_state n i AND WIFI_SLEEP_STATE \<noteq> 0 then set_q_state i (q_state n i XOR WIFI_SLEEP_STATE) (clear_tim (q_aid (q_stas n ! i)) n)
      else clear_tim (q_aid (q_stas n ! i)) n)"
  have w: "wake_done i n = clear_dz (q_aid (q_stas n ! i)) (alive_again i m)"
    by (simp add: wake_done_def Let_def m_def q_state_def clear_tim_def)
  have "q_state m i AND WIFI_SLEEP_STATE = 0"
    using assms by (auto simp: m_def q_state_set state_bits)
  then show "q_state (wake_done i n) i AND WIFI_SLEEP_STATE = 0"
    using alive_again_sleeping [of i m i] by (simp add: w q_state_def)
  show "q_tim (wake_done i n) = q_tim n AND NOT (push_bit (q_aid (q_stas n ! i)) 1)"
    "q_dz (wake_done i n) = q_dz n AND NOT (push_bit (q_aid (q_stas n ! i)) 1)" "q_out (wake_done i n) = q_out n"
    "sleep_view (q_stas (wake_done i n) ! j) = sleep_view (q_stas n ! j)" "q_pending (q_stas (wake_done i n) ! j) = q_pending (q_stas n ! j)"
    "rtw_get_stainfo (q_table (wake_done i n)) a = rtw_get_stainfo (q_table n) a"
    by (simp_all add: w m_def clear_tim_def clear_dz_def alive_again_view alive_again_pending)
qed

text \<open>The broadcast station is served without a change of the others.\<close>

lemma wake_bmc_apart:
  assumes "queues_ok bm n" "b < length (q_stas n)" "sleepq (q_stas n ! b) = fs"
  shows "apart b n (wake_bmc qsel b fs n)"
  using assms
proof (induction fs arbitrary: n)
  case Nil
  then show ?case by (simp add: apart_def)
next
  case (Cons f fs)
  define s where "s = (q_stas n ! b)\<lparr>sleepq := fs, sleepq_len := sleepq_len (q_stas n ! b) - 1\<rparr>"
  define f1 where "f1 = f\<lparr>qf_mdata := (sleepq_len s > 0), qf_triggered := True\<rparr>"
  define f' where "f' = (case qsel of None \<Rightarrow> f1 | Some q \<Rightarrow> f1\<lparr>qf_qsel := q\<rparr>)"
  define m where "m = rtl8723au_hal_xmitframe_enqueue f' (upd_q b (\<lambda>_. s) n)"
  have f': "qf_id f' = qf_id f" "qf_psta f' = qf_psta f" "qf_ra f' = qf_ra f" by (simp_all add: f'_def f1_def split: option.splits)
  have m: "flow bm n {#} m {#}" unfolding m_def
    by (rule flow_wake [OF Cons.prems(1,2), where pre = "[]" and post = fs and f = f and a = "sleepq_ac_len (q_stas n ! b)"])
      (use Cons.prems(3) f' in \<open>simp_all add: s_def\<close>)
  have ap: "apart b n m" unfolding m_def
    by (rule apart_trans [OF apart_upd apart_hal]) (use sleepq_own [OF Cons.prems(1,2)] Cons.prems(3) f' in \<open>simp add: own_frame_def\<close>)
  have "sleepq (q_stas m ! b) = fs" unfolding m_def
    by (subst hal_enqueue_sleepq) (use Cons.prems(2) in \<open>simp_all add: upd_q_sta s_def\<close>)
  then have "apart b m (wake_bmc qsel b fs m)" using Cons.IH flow_ok [OF m] Cons.prems(2) by simp
  with ap have "apart b n (wake_bmc qsel b fs m)" by (rule apart_trans)
  then show ?case
    unfolding wake_bmc.simps Let_def s_def [symmetric] f1_def [symmetric] f'_def [symmetric] m_def [symmetric] .
qed


text \<open>Two frames of different priorities wait for the sleeping station.\<close>

definition ps_frame :: "nat \<Rightarrow> nat \<Rightarrow> qframe" where
  "ps_frame k p = (new_qframe k)\<lparr>qf_ra := replicate 6 2, qf_psta := Some 0, qf_priority := p\<rparr>"

definition ps_example :: tx_queues where
  "ps_example = set_q_state 0 (FW_LINKED OR WIFI_SLEEP_STATE)
     (upd_q 0 (\<lambda>s. s\<lparr>q_aid := 1, has_legacy_ac := True, sleepq := [ps_frame 0 5, ps_frame 1 0, ps_frame 2 5], sleepq_len := 3\<rparr>)
       (q_example\<lparr>q_free := [3 ..< 256], q_free_cnt := 253, q_tim := 2, q_dz := 2\<rparr>))"

lemma ps_example_ok: "queues_ok None ps_example"
proof -
  have "q_sta_ok None 0 (init_q_sta\<lparr>q_aid := 1, has_legacy_ac := True,
      sleepq := [ps_frame 0 5, ps_frame 1 0, ps_frame 2 5], sleepq_len := 3\<rparr>)"
    by (auto simp: q_sta_ok_def init_q_sta_def own_frame_def ps_frame_def is_multicast_ether_addr_def less_Suc_eq numeral_eq_Suc)
  moreover have "queues_ok None (q_example\<lparr>q_free := [3 ..< 256], q_free_cnt := 253, q_tim := 2, q_dz := 2\<rparr>)"
    using start_ok(1) [OF q_example_start, of None] by (simp add: queues_ok_def)
  ultimately show ?thesis unfolding ps_example_def
    by (subst queues_ok_simps, intro queues_ok_upd) (simp_all add: q_example_fields NUM_STA_def)
qed


end
