(* ===== verification/TrafficMap.thy ===== *)
theory TrafficMap
  imports PowerSave
begin

text \<open>
  The traffic indication map: a station that sleeps and has frames waiting is always announced in the beacon.
\<close>

section \<open>The invariant\<close>

text \<open>The map in the beacon.\<close>

definition announced :: "tx_queues \<Rightarrow> u16" where
  "announced n = fold (\<lambda>e t. case e of UpdateTim t' \<Rightarrow> t' | _ \<Rightarrow> t) (q_out n) 0"

definition waits :: "q_sta \<Rightarrow> bool" where
  "waits s \<longleftrightarrow> legacy s \<and> q_aid s \<noteq> 0 \<and> sleepq s \<noteq> []"

definition tim_ok :: "tx_queues \<Rightarrow> bool" where
  "tim_ok n \<longleftrightarrow> (\<forall>i < length (q_stas n). waits (q_stas n ! i) \<longrightarrow>
     bit (q_tim n) (q_aid (q_stas n ! i)) \<and> bit (announced n) (q_aid (q_stas n ! i)))"

text \<open>Association numbers are given to one station each, and none to the broadcast station.\<close>

definition aids_ok :: "nat option \<Rightarrow> tx_queues \<Rightarrow> bool" where
  "aids_ok bm n \<longleftrightarrow> (\<forall>i < length (q_stas n). let a = q_aid (q_stas n ! i) in a \<noteq> 0 \<longrightarrow> a \<le> length (q_aids n) \<and> q_aids n ! (a - 1) = Some i)
     \<and> (\<forall>b. bm = Some b \<longrightarrow> q_aid (q_stas n ! b) = 0)"

definition tim_inv :: "nat option \<Rightarrow> tx_queues \<Rightarrow> bool" where
  "tim_inv bm n \<longleftrightarrow> aids_ok bm n \<and> tim_ok n"

lemma aids_distinct:
  assumes "aids_ok bm n" "i < length (q_stas n)" "j < length (q_stas n)" "q_aid (q_stas n ! i) = q_aid (q_stas n ! j)" "q_aid (q_stas n ! i) \<noteq> 0"
  shows "i = j"
proof -
  have "q_aids n ! (q_aid (q_stas n ! k) - 1) = Some k" if "k < length (q_stas n)" "q_aid (q_stas n ! k) \<noteq> 0" for k
    using assms(1) that by (simp add: aids_ok_def Let_def)
  from this [OF assms(2,5)] this [OF assms(3)] assms(4,5) show ?thesis by simp
qed

lemma aids_ok_eq:
  assumes "aids_ok bm n" "length (q_stas m) = length (q_stas n)" "\<And>j. q_aid (q_stas m ! j) = q_aid (q_stas n ! j)" "q_aids m = q_aids n"
  shows "aids_ok bm m"
  using assms by (simp add: aids_ok_def)

section \<open>Operations that let no station wait\<close>

definition calm :: "tx_queues \<Rightarrow> tx_queues \<Rightarrow> bool" where
  "calm n m \<longleftrightarrow> length (q_stas m) = length (q_stas n) \<and> q_tim m = q_tim n \<and> announced m = announced n \<and> q_aids m = q_aids n
     \<and> (\<forall>i. q_aid (q_stas m ! i) = q_aid (q_stas n ! i) \<and> (waits (q_stas m ! i) \<longrightarrow> waits (q_stas n ! i)))"

lemma calm_refl [simp]: "calm n n" by (simp add: calm_def)

lemma calm_trans: "calm n m \<Longrightarrow> calm m k \<Longrightarrow> calm n k" by (simp add: calm_def)

lemma calm_tim: "calm n m \<Longrightarrow> tim_inv bm n \<Longrightarrow> tim_inv bm m"
  by (auto simp: calm_def tim_inv_def aids_ok_def tim_ok_def Let_def)

lemma announced_out: "announced (out e n) = (case e of UpdateTim t \<Rightarrow> t | _ \<Rightarrow> announced n)"
  by (simp add: announced_def out_def split: q_event.splits)

lemma calm_upd:
  assumes "q_aid (g (q_stas n ! i)) = q_aid (q_stas n ! i)" "waits (g (q_stas n ! i)) \<Longrightarrow> waits (q_stas n ! i)"
  shows "calm n (upd_q i g n)"
proof (cases "i < length (q_stas n)")
  case True
  then show ?thesis using assms by (auto simp: calm_def upd_q_def announced_def nth_list_update)
next
  case False
  then show ?thesis by (simp add: calm_def upd_q_def announced_def list_update_beyond)
qed

lemma waits_pending [simp]: "waits (s\<lparr>q_pending := p\<rparr>) = waits s" "waits (s\<lparr>q_cnt := c\<rparr>) = waits s" "waits (s\<lparr>q_expire_to := e\<rparr>) = waits s"
  "waits (s\<lparr>sleepq_len := l\<rparr>) = waits s" "waits (s\<lparr>sleepq_ac_len := l\<rparr>) = waits s"
  by (simp_all add: waits_def legacy_def)

lemma calm_simps [simp]:
  "calm n (set_q_state i st n)" "calm n (set_dz a n)" "calm n (clear_dz a n)" "calm n (n\<lparr>q_accnt := c\<rparr>)" "calm n (n\<lparr>q_hw := w\<rparr>)"
  "calm n (rtw_free_xmitframe f n)" "calm n (rtw_free_xmitbuf b n)" "calm n (n\<lparr>q_tx_pkts := x, q_tx_drop := d\<rparr>)"
  by (simp_all add: calm_def announced_def set_q_state_def set_dz_def clear_dz_def rtw_free_xmitframe_def rtw_free_xmitbuf_def)

lemma calm_out: "\<forall>t. e \<noteq> UpdateTim t \<Longrightarrow> calm n (out e n)"
  by (cases e) (simp_all add: calm_def announced_out, simp_all add: out_def)

lemma calm_hal: "calm n (rtl8723au_hal_xmitframe_enqueue f n)"
proof (cases "rtw_xmit_classifier f n")
  case None
  then show ?thesis
    using calm_trans [OF calm_simps(6) calm_simps(8)] by (simp add: rtl8723au_hal_xmitframe_enqueue_def Let_def)
next
  case (Some m)
  then have "calm n m"
    by (auto simp: rtw_xmit_classifier_def Let_def split: option.splits if_splits
        intro!: calm_trans [OF _ calm_simps(4)] calm_trans [OF _ calm_upd] calm_simps)
  then show ?thesis using Some calm_out [of Tasklet m] by (simp add: rtl8723au_hal_xmitframe_enqueue_def calm_trans)
qed

lemma calm_alive: "calm n (alive_again i n)"
  unfolding alive_again_def by (auto intro!: calm_trans [OF calm_upd calm_simps(1)])

text \<open>Frames leave the sleep queue of a station.\<close>

lemma calm_release:
  assumes "sleepq (q_stas n ! i) \<noteq> []" "q_aid s = q_aid (q_stas n ! i)" "legacy s = legacy (q_stas n ! i)"
  shows "calm n (rtl8723au_hal_xmitframe_enqueue f (upd_q i (\<lambda>_. s) n))"
  by (rule calm_trans [OF calm_upd calm_hal]) (use assms in \<open>auto simp: waits_def\<close>)

lemma wake_frames_calm:
  assumes "i < length (q_stas n)" "sleepq (q_stas n ! i) = fs"
  shows "calm n (wake_frames i fs n)"
  using assms
proof (induction fs arbitrary: n)
  case (Cons f fs)
  obtain s f' where w: "wake_frame (q_stas n ! i) f = (s, f')" by fastforce
  then have s: "q_aid s = q_aid (q_stas n ! i)" "legacy s = legacy (q_stas n ! i)" by (auto simp: wake_frame_def Let_def legacy_def split: if_splits)
  define m where "m = rtl8723au_hal_xmitframe_enqueue f' (upd_q i (\<lambda>_. s\<lparr>sleepq := fs\<rparr>) n)"
  have m: "calm n m" unfolding m_def by (rule calm_release) (use Cons.prems s in \<open>simp_all add: legacy_def\<close>)
  have "sleepq (q_stas m ! i) = fs" unfolding m_def
    by (subst hal_enqueue_sleepq) (use Cons.prems(1) in \<open>simp_all add: upd_q_sta\<close>)
  then have "calm m (wake_frames i fs m)" using Cons.IH m Cons.prems(1) by (simp add: calm_def)
  with m show ?case by (simp add: w m_def [symmetric] calm_trans)
qed simp

lemma wake_bmc_calm:
  assumes "b < length (q_stas n)" "sleepq (q_stas n ! b) = fs"
  shows "calm n (wake_bmc qsel b fs n)"
  using assms
proof (induction fs arbitrary: n)
  case (Cons f fs)
  define s where "s = (q_stas n ! b)\<lparr>sleepq := fs, sleepq_len := sleepq_len (q_stas n ! b) - 1\<rparr>"
  define f1 where "f1 = f\<lparr>qf_mdata := (sleepq_len s > 0), qf_triggered := True\<rparr>"
  define f' where "f' = (case qsel of None \<Rightarrow> f1 | Some q \<Rightarrow> f1\<lparr>qf_qsel := q\<rparr>)"
  define m where "m = rtl8723au_hal_xmitframe_enqueue f' (upd_q b (\<lambda>_. s) n)"
  have m: "calm n m" unfolding m_def by (rule calm_release) (use Cons.prems in \<open>simp_all add: legacy_def s_def\<close>)
  have "sleepq (q_stas m ! b) = fs" unfolding m_def
    by (subst hal_enqueue_sleepq) (use Cons.prems(1) in \<open>simp_all add: upd_q_sta s_def\<close>)
  then have "calm m (wake_bmc qsel b fs m)" using Cons.IH m Cons.prems(1) by (simp add: calm_def)
  with m have "calm n (wake_bmc qsel b fs m)" by (rule calm_trans)
  then show ?case
    unfolding wake_bmc.simps Let_def s_def [symmetric] f1_def [symmetric] f'_def [symmetric] m_def [symmetric] .
qed simp

section \<open>Operations on the map\<close>

lemma set_tim_inv: "tim_inv bm n \<Longrightarrow> tim_inv bm (set_tim a n)"
  by (auto simp: tim_inv_def aids_ok_def tim_ok_def set_tim_def announced_def Let_def bit_simps)

lemma update_tim_inv: "tim_inv bm n \<Longrightarrow> tim_inv bm (update_tim n)"
  by (auto simp: tim_inv_def aids_ok_def tim_ok_def update_tim_def announced_out) (simp_all add: out_def Let_def)

lemma clear_tim_inv:
  assumes "tim_inv bm n" "i < length (q_stas n)" "\<not> waits (q_stas n ! i)"
  shows "tim_inv bm (clear_tim (q_aid (q_stas n ! i)) n)"
proof -
  have "bit (q_tim n AND NOT (push_bit (q_aid (q_stas n ! i)) 1)) (q_aid (q_stas n ! j))"
    if "j < length (q_stas n)" "waits (q_stas n ! j)" for j
  proof -
    have "bit (q_tim n) (q_aid (q_stas n ! j))" using assms(1) that by (simp add: tim_inv_def tim_ok_def)
    moreover have "q_aid (q_stas n ! i) \<noteq> q_aid (q_stas n ! j)"
      using aids_distinct [of bm n i j] assms that by (auto simp: tim_inv_def waits_def)
    moreover have "q_aid (q_stas n ! j) < 16" using bit_imp_le_length [OF calculation(1)] by simp
    ultimately show ?thesis by (simp add: bit_simps)
  qed
  then show ?thesis using assms(1)
    by (simp add: tim_inv_def aids_ok_def tim_ok_def clear_tim_def announced_def)
qed

lemma clear_tim0_inv: "tim_inv bm n \<Longrightarrow> tim_inv bm (clear_tim 0 n)"
proof -
  assume n: "tim_inv bm n"
  have "bit (q_tim n AND NOT (push_bit 0 1)) a" if "bit (q_tim n) a" "a \<noteq> 0" for a
    using bit_imp_le_length [OF that(1)] that by (simp add: bit_simps)
  then show ?thesis using n
    by (simp add: tim_inv_def aids_ok_def tim_ok_def clear_tim_def announced_def waits_def)
qed

section \<open>Frames for sleeping stations\<close>

text \<open>The queue of a station that can overflow no counter: at most 256 frames exist.\<close>

definition few_frames :: "tx_queues \<Rightarrow> bool" where "few_frames n \<longleftrightarrow> size (frame_ids n) < 2 ^ 32"

lemma sleepq_few:
  assumes "few_frames n" "i < length (q_stas n)"
  shows "length (sleepq (q_stas n ! i)) < 2 ^ 32"
proof -
  have "s \<in> set ss \<Longrightarrow> size (frames_of s) \<le> size (\<Sum>s\<leftarrow>ss. frames_of s)" for s ss
    by (induction ss) auto
  then have "size (frames_of (q_stas n ! i)) \<le> size (\<Sum>s\<leftarrow>q_stas n. frames_of s)"
    using assms(2) by simp
  then show ?thesis using assms(1) by (simp add: few_frames_def frame_ids_def frames_of_def)
qed

lemma sleepq_len_0:
  assumes "queues_ok bm n" "few_frames n" "i < length (q_stas n)"
  shows "sleepq_len (q_stas n ! i) = 0 \<longleftrightarrow> sleepq (q_stas n ! i) = []"
  using sleepq_len_ok [OF assms(1,3)] sleepq_few [OF assms(2,3)]
  by (auto simp: word_of_nat_eq_0_iff dvd_def)

lemma few_flow: "flow bm n h m {#} \<Longrightarrow> size h + size (frame_ids n) < 2 ^ 32 \<Longrightarrow> few_frames m"
  by (simp add: few_frames_def flow_def add.commute flip: size_union)

text \<open>The first frame that waits puts the station into the beacon.\<close>

lemma sleep_unicast_tim:
  assumes n: "queues_ok bm n" "i < length (q_stas n)" "tim_inv bm n" and dz: "bit (q_dz n) (q_aid (q_stas n ! i))"
  shows "tim_inv bm (sleep_unicast i f n)"
proof -
  define s where "s = q_stas n ! i"
  define t where "t = s\<lparr>sleepq := sleepq s @ [f], sleepq_len := sleepq_len s + 1\<rparr>"
  define w where "w = bit (uapsd_of t (qf_priority f)) 0"
  define u where "u = (if w then t\<lparr>sleepq_ac_len := sleepq_ac_len t + 1\<rparr> else t)"
  define m where "m = upd_q i (\<lambda>_. u) n"
  have su: "sleep_unicast i f n = (if has_legacy_ac u \<longleftrightarrow> \<not> w
      then (if sleepq_len u = 1 then update_tim (set_tim (q_aid u) m) else set_tim (q_aid u) m) else m)"
    using n(2) by (simp add: sleep_unicast_def queue_sleep_def Let_def upd_q_def u_def m_def w_def t_def s_def set_tim_def)
  have a: "q_aid u = q_aid s" "q_aid s < 16" using bit_imp_le_length [OF dz] by (simp_all add: u_def t_def s_def)
  have lu: "legacy u = legacy s" by (simp add: u_def t_def legacy_def)
  have m: "aids_ok bm m"
    by (rule aids_ok_eq [of bm n]) (use n(2,3) in \<open>simp_all add: m_def tim_inv_def upd_q_sta a(1) s_def, simp add: upd_q_def\<close>)
  have "tim_ok (if sleepq_len u = 1 then update_tim (set_tim (q_aid u) m) else set_tim (q_aid u) m)" if l: "legacy s"
  proof -
    have len: "sleepq_len s = of_nat (length (sleepq s))" using sleepq_len_ok [OF n(1,2)] by (simp add: s_def)
    have "bit (announced n) (q_aid s)" if "sleepq_len u \<noteq> 1" "q_aid s \<noteq> 0"
    proof -
      have "sleepq_len u = sleepq_len s + 1" by (simp add: u_def t_def)
      then have "sleepq s \<noteq> []" using that(1) len by auto
      then show ?thesis using n(2,3) l that(2) by (simp add: tim_inv_def tim_ok_def waits_def s_def)
    qed
    moreover have "q_aid s \<noteq> 0" if "waits u" using that by (simp add: waits_def a)
    ultimately show ?thesis using n(2,3) a
      by (auto simp: tim_inv_def tim_ok_def m_def upd_q_sta set_tim_def update_tim_def announced_out bit_simps)
         (auto simp: out_def upd_q_sta bit_simps upd_q_def announced_def)
  qed
  moreover have "tim_ok m \<and> tim_ok (if sleepq_len u = 1 then update_tim (set_tim (q_aid u) m) else set_tim (q_aid u) m)" if "\<not> legacy s"
  proof -
    have "calm n m" unfolding m_def by (rule calm_upd) (use that in \<open>simp_all add: a(1) waits_def lu flip: s_def\<close>)
    then have "tim_inv bm m" using n(3) calm_tim by blast
    moreover from this have "tim_inv bm (set_tim (q_aid u) m)" "tim_inv bm (update_tim (set_tim (q_aid u) m))"
      using set_tim_inv update_tim_inv by blast+
    ultimately show ?thesis by (simp add: tim_inv_def)
  qed
  moreover have "has_legacy_ac u \<longleftrightarrow> \<not> w" if "legacy s"
    using that by (auto simp: u_def t_def w_def legacy_def uapsd_of_def)
  ultimately show ?thesis using m
    by (cases "legacy s") (auto simp: su tim_inv_def aids_ok_def set_tim_def update_tim_def out_def Let_def)
qed

lemma queue_bmc_tim:
  assumes n: "i < length (q_stas n)" "tim_inv (Some i) n"
  shows "tim_inv (Some i) (update_tim (set_dz 0 (set_tim 0 (queue_sleep i f n))))"
proof -
  have "calm n (queue_sleep i f n)" unfolding queue_sleep_def
    by (rule calm_upd) (use n(2) in \<open>simp_all add: waits_def tim_inv_def aids_ok_def\<close>)
  then show ?thesis using n(2) calm_tim calm_simps(2) set_tim_inv update_tim_inv by blast
qed

lemma enqueue_sleeping_tim:
  assumes n: "queues_ok bm n" "i < length (q_stas n)" "own_frame bm i f" "tim_inv bm n"
    and r: "xmitframe_enqueue_for_sleeping_sta f n = (q, f', n')"
  shows "tim_inv bm n'"
proof -
  have fs: "frame_sta n f = Some i" using n(3) by (simp add: frame_sta_def own_frame_def)
  have "bm = Some i" if "is_multicast_ether_addr (qf_ra f)" using n(3) that by (simp add: own_frame_def)
  then show ?thesis
    using r n(4) sleep_unicast_tim [OF n(1,2,4)] queue_bmc_tim [OF n(2)]
    by (auto simp: xmitframe_enqueue_for_sleeping_sta_def Let_def fs split: if_splits)
qed

lemma stop_ac_tim:
  assumes n: "queues_ok bm n" "i < length (q_stas n)" "ac < 4" "tim_inv bm n"
  shows "tim_inv bm (stop_ac i ac n)"
proof -
  have "calm m (upd_q i (\<lambda>s. s\<lparr>q_pending := p s, q_cnt := c s\<rparr>) m)" for m p c
    by (rule calm_upd) simp_all
  then have "tim_inv bm (to_sleeping i ac [] (q_pending (q_stas n ! i) ! ac) n)"
    by (intro conjunct2 [OF to_sleeping_induct [OF n(1-3), of "[]" _ "tim_inv bm"]])
      (use n(4) enqueue_sleeping_tim calm_tim [OF calm_simps(4)] calm_tim in \<open>simp_all, blast+\<close>)
  then show ?thesis using calm_tim [OF calm_simps(5)] by (simp add: stop_ac_def dequeue_xmitframes_to_sleeping_queue_def Let_def)
qed

text \<open>Sequences of operations on a well-formed state.\<close>

definition tim_state :: "nat option \<Rightarrow> tx_queues \<Rightarrow> bool" where
  "tim_state bm n \<longleftrightarrow> queues_ok bm n \<and> few_frames n \<and> tim_inv bm n"

lemma tim_flow: "tim_state bm n \<Longrightarrow> flow bm n {#} m {#} \<Longrightarrow> tim_inv bm m \<Longrightarrow> tim_state bm m"
  by (simp add: tim_state_def few_frames_def flow_def)

lemma stop_sta_xmit_tim:
  assumes n: "tim_state bm n" "i < length (q_stas n)" and r: "stop_sta_xmit i n = Some n'"
  shows "tim_state bm n'"
proof -
  obtain b where b: "rtw_get_stainfo (q_table n) bc_addr = Some b" using r by (auto simp: stop_sta_xmit_def Let_def)
  define m where "m = set_dz (q_aid (q_stas n ! i)) (set_q_state i (q_state n i OR WIFI_SLEEP_STATE) n)"
  have bl: "b < length (q_stas n)" using table_bound [of bm n, OF _ b] n(1) by (simp add: tim_state_def)
  have "tim_inv bm m" using n(1) calm_tim calm_trans calm_simps(1,2) by (metis m_def tim_state_def)
  then have m: "tim_state bm m" "length (q_stas m) = length (q_stas n)"
    using n(1) by (simp_all add: tim_state_def few_frames_def m_def)
  have st: "tim_state bm (stop_ac j ac k) \<and> length (q_stas (stop_ac j ac k)) = length (q_stas k)"
    if "tim_state bm k" "j < length (q_stas k)" "ac < 4" for j ac k
    using that stop_ac_flow [of bm k j ac] stop_ac_tim [of bm k j ac] tim_flow [OF that(1)] flow_ok(2) by (metis tim_state_def)
  have "tim_state bm (stop_ac b 2 (stop_ac i 3 (stop_ac i 2 (stop_ac i 1 (stop_ac i 0 m)))))"
    using m n(2) bl by (simp add: st)
  then show ?thesis using r b by (simp add: stop_sta_xmit_def Let_def m_def)
qed

lemma wake_done_tim:
  assumes n: "tim_inv bm n" "i < length (q_stas n)" "sleepq (q_stas n ! i) = []"
  shows "tim_inv bm (wake_done i n)"
proof -
  define m where "m = clear_tim (q_aid (q_stas n ! i)) n"
  have m: "tim_inv bm m" unfolding m_def by (rule clear_tim_inv [OF n(1,2)]) (simp add: n(3) waits_def)
  define k where "k = (if q_state m i AND WIFI_SLEEP_STATE \<noteq> 0 then set_q_state i (q_state m i XOR WIFI_SLEEP_STATE) m else m)"
  have "calm m (clear_dz (q_aid (q_stas n ! i)) (alive_again i k))"
    using calm_trans [OF calm_trans [OF _ calm_alive] calm_simps(3)] by (auto simp: k_def)
  from calm_tim [OF this m] show ?thesis unfolding wake_done_def Let_def m_def [symmetric] k_def [symmetric] .
qed

lemma wakeup_tim:
  assumes n: "tim_state bm n" "i < length (q_stas n)"
  shows "tim_state bm (wakeup_sta_to_xmit i n)"
proof -
  have ok: "queues_ok bm n" using n(1) by (simp add: tim_state_def)
  define m where "m = wake_frames i (sleepq (q_stas n ! i)) n"
  define u where "u \<longleftrightarrow> sleepq_len (q_stas m ! i) = 0"
  define k where "k = (if u then wake_done i m else m)"
  have mf: "flow bm n {#} m {#}" unfolding m_def by (rule wake_frames_flow [OF ok n(2) refl])
  have "tim_inv bm m" unfolding m_def using calm_tim [OF wake_frames_calm [OF n(2) refl]] n(1) by (simp add: tim_state_def)
  then have m: "tim_state bm m" "i < length (q_stas m)" using tim_flow [OF n(1) mf] flow_ok(2) [OF mf] n(2) by simp_all
  have "tim_inv bm k" using m wake_done_tim [of bm m i] sleepq_len_0 [of bm m i] by (auto simp: k_def u_def tim_state_def)
  moreover have kf: "flow bm n {#} k {#}" using flow_bind [OF mf wake_done_flow] mf n(2) by (simp add: k_def)
  ultimately have k: "tim_state bm k" using tim_flow [OF n(1)] by simp
  have "tim_inv bm (wakeup_sta_to_xmit i n)"
  proof (cases "rtw_get_stainfo (q_table k) bc_addr")
    case None
    with k show ?thesis by (simp add: tim_state_def wakeup_sta_to_xmit_def Let_def m_def [symmetric] u_def [symmetric] k_def [symmetric])
  next
    case (Some b)
    define al where "al \<longleftrightarrow> q_dz k AND 0xfffe = 0"
    define w where "w = (if al then wake_bmc None b (sleepq (q_stas k ! b)) k else k)"
    define bmc where "bmc \<longleftrightarrow> al \<and> sleepq_len (q_stas w ! b) = 0"
    define v where "v = (if bmc then clear_dz 0 (clear_tim 0 w) else w)"
    have b: "b < length (q_stas k)" by (rule table_bound [OF flow_ok(1) [OF kf] Some])
    have "tim_inv bm w" using calm_tim [OF wake_bmc_calm [OF b refl]] k by (simp add: w_def tim_state_def)
    then have "tim_inv bm v" using calm_tim [OF calm_simps(3)] clear_tim0_inv by (simp add: v_def)
    then have "tim_inv bm (if u \<or> bmc then update_tim v else v)" using update_tim_inv by simp
    then show ?thesis
      unfolding wakeup_sta_to_xmit_def Let_def m_def [symmetric] u_def [symmetric] k_def [symmetric] Some option.case
        al_def [symmetric] w_def [symmetric] bmc_def [symmetric] v_def [symmetric] .
  qed
  then show ?thesis by (rule tim_flow [OF n(1) wakeup_flow [OF ok n(2)]])
qed

lemma deliver_frames_tim:
  assumes "tim_inv bm n" "i < length (q_stas n)" "sleepq (q_stas n ! i) = kept @ fs"
  shows "tim_inv bm (deliver_frames i kept fs n)"
  using assms
proof (induction fs arbitrary: kept n)
  case (Cons f fs)
  show ?case
  proof (cases "bit (uapsd_of (q_stas n ! i) (qf_priority f)) 1")
    case False
    then show ?thesis using Cons.IH [of n "kept @ [f]"] Cons.prems by simp
  next
    case True
    obtain s f' where w: "deliver_frame (q_stas n ! i) f = (s, f')" by fastforce
    have s: "q_aid s = q_aid (q_stas n ! i)" "legacy s = legacy (q_stas n ! i)" using w by (auto simp: deliver_frame_def Let_def legacy_def)
    define m where "m = rtl8723au_hal_xmitframe_enqueue f' (upd_q i (\<lambda>_. s\<lparr>sleepq := kept @ fs\<rparr>) n)"
    define k where "k = (if sleepq_ac_len s = 0 \<and> \<not> has_legacy_ac s then update_tim (clear_tim (q_aid s) m) else m)"
    have "\<not> legacy s" using True s by auto
    have m: "calm n m" unfolding m_def by (rule calm_release) (use Cons.prems s in \<open>simp_all add: legacy_def\<close>)
    have i: "i < length (q_stas m)" "q_aid (q_stas m ! i) = q_aid s" using m Cons.prems(2) s by (simp_all add: calm_def)
    have "\<not> waits (q_stas m ! i)" using m \<open>\<not> legacy s\<close> s(2) by (auto simp: calm_def waits_def)
    then have "tim_inv bm (clear_tim (q_aid s) m)" using clear_tim_inv [OF calm_tim [OF m Cons.prems(1)] i(1)] i(2) by simp
    then have k: "tim_inv bm k" using calm_tim [OF m Cons.prems(1)] update_tim_inv by (simp add: k_def)
    have "sleepq (q_stas m ! i) = kept @ fs" unfolding m_def
      by (subst hal_enqueue_sleepq) (use Cons.prems(2) in \<open>simp_all add: upd_q_sta\<close>)
    then have "tim_inv bm (deliver_frames i kept fs k)" using Cons.IH [OF k, of kept] i by (simp add: k_def)
    then show ?thesis using True
      unfolding deliver_frames.simps w Let_def case_prod_conv m_def [symmetric] k_def [symmetric] by simp
  qed
qed simp

lemma ps_poll_tim:
  assumes n: "tim_state bm n" "i < length (q_stas n)"
  shows "tim_state bm (ps_poll i n)"
proof -
  have ok: "queues_ok bm n" using n(1) by (simp add: tim_state_def)
  define m where "m = alive_again i n"
  have mf: "flow bm n {#} m {#}" unfolding m_def by (rule alive_again_flow [OF ok n(2)])
  have "tim_inv bm m" unfolding m_def using calm_tim [OF calm_alive] n(1) by (simp add: tim_state_def)
  then have m: "tim_state bm m" "i < length (q_stas m)" "queues_ok bm m"
    using tim_flow [OF n(1) mf] flow_ok [OF mf] n(2) by simp_all
  define s where "s = q_stas m ! i"
  have "tim_inv bm (ps_poll i n)"
  proof (cases "sleepq s")
    case Nil
    have z: "tim_inv bm (update_tim (clear_tim (q_aid s) k))" if "calm m k" "tim_inv bm k" for k
    proof -
      have "\<not> waits s" using Nil by (simp add: waits_def)
      then have "\<not> waits (q_stas k ! i)" "i < length (q_stas k)" "q_aid (q_stas k ! i) = q_aid s" using that m(2) by (auto simp: calm_def s_def)
      then show ?thesis using update_tim_inv [OF clear_tim_inv [of bm k i]] that(2) by simp
    qed
    have c: "calm m (out (NullData x) m)" "calm m (upd_q i (sleepq_len_update (\<lambda>_. 0)) m)" for x
      by (rule calm_out, simp) (rule calm_upd, simp_all)
    show ?thesis
      using z [OF c(1)] z [OF c(2)] calm_tim [OF c(1)] calm_tim [OF c(2)] m(1) Nil
      by (simp add: ps_poll_def Let_def tim_state_def flip: m_def s_def)
  next
    case (Cons f fs)
    define t where "t = s\<lparr>sleepq := fs, sleepq_len := sleepq_len s - 1\<rparr>"
    define f' where "f' = f\<lparr>qf_mdata := (sleepq_len t > 0), qf_triggered := True\<rparr>"
    define k where "k = rtl8723au_hal_xmitframe_enqueue f' (upd_q i (\<lambda>_. t) m)"
    have k: "calm m k" unfolding k_def by (rule calm_release) (use Cons in \<open>simp_all add: s_def t_def legacy_def\<close>)
    then have kt: "tim_inv bm k" "i < length (q_stas k)" "q_aid (q_stas k ! i) = q_aid t"
      using calm_tim [OF k] m by (simp_all add: tim_state_def calm_def t_def s_def)
    have "sleepq (q_stas k ! i) = fs" unfolding k_def
      by (subst hal_enqueue_sleepq) (use m(2) in \<open>simp_all add: upd_q_sta t_def\<close>)
    moreover have "sleepq_len s = of_nat (length (sleepq s))" using sleepq_len_ok [OF m(3,2)] by (simp add: s_def)
    then have "sleepq_len t = of_nat (length fs)" using Cons by (simp add: t_def)
    moreover have "length fs < 2 ^ 32" using sleepq_few [of m i] m Cons by (simp add: tim_state_def s_def)
    ultimately have "\<not> waits (q_stas k ! i)" if "sleepq_len t = 0"
      using that by (auto simp: waits_def word_of_nat_eq_0_iff dvd_def)
    then have "tim_inv bm (if sleepq_len t = 0 then update_tim (clear_tim (q_aid t) k) else k)"
      using update_tim_inv [OF clear_tim_inv [OF kt(1,2)]] kt by simp
    then show ?thesis using m(1)
      unfolding ps_poll_def Let_def m_def [symmetric] s_def [symmetric] Cons list.case t_def [symmetric] f'_def [symmetric] k_def [symmetric]
      by (simp add: tim_state_def)
  qed
  then show ?thesis by (rule tim_flow [OF n(1) ps_poll_flow [OF ok n(2)]])
qed

section \<open>Transmission and release\<close>

lemma calm_bufs:
  "calm n (usb_write_port usb f b n)" "calm n (usb_write_port_complete b n)"
  "rtw_alloc_xmitbuf n = (r, n') \<Longrightarrow> calm n n'" "rtw_alloc_xmitframe n = (r', n') \<Longrightarrow> calm n n'"
  by (auto simp: calm_def announced_def usb_write_port_def usb_write_port_complete_def rtw_alloc_xmitbuf_def rtw_alloc_xmitframe_def
      rtw_free_xmitbuf_def out_def Let_def split: option.splits list.splits)

lemma calm_dump: "calm n (rtw_dump_xframe usb nfrag f b n)"
proof -
  have "calm n ((usb_write_port usb f b ^^ nfrag) n)" by (induction nfrag) (auto intro: calm_trans calm_bufs)
  then show ?thesis unfolding rtw_dump_xframe_def using calm_trans calm_simps(6) by blast
qed

lemma calm_send: "calm n m \<Longrightarrow> calm n (if ok then rtw_dump_xframe usb nfrag f b m else rtw_free_xmitframe f (rtw_free_xmitbuf b m))"
  using calm_trans calm_dump calm_simps(6,7) by (metis (full_types))

lemma calm_dequeue:
  assumes "rtw_dequeue_xframe n = Some (f, n')"
  shows "calm n n'"
proof -
  have one: "calm m m'" if "dequeue_one_xmitframe i ac m = Some (g, m')" for i ac m m' g
    using that by (auto simp: dequeue_one_xmitframe_def split: list.splits intro!: calm_upd)
  have st: "dequeue_stas ac is n = Some (f, n') \<Longrightarrow> calm n n'" for ac "is"
  proof (induction "is")
    case (Cons i "is")
    show ?case
    proof (cases "dequeue_one_xmitframe i ac n")
      case None
      then show ?thesis using Cons by simp
    next
      case (Some x)
      obtain g m where x: "x = (g, m)" by fastforce
      from one [of i ac n g m] Some x have "calm n m" by simp
      then show ?thesis using Cons.prems Some x calm_trans [OF calm_trans [OF _ calm_simps(4)] calm_simps(5)] calm_trans [OF _ calm_simps(4)]
        by (auto simp: Let_def split: if_splits)
    qed
  qed simp
  have "dequeue_acs acs n = Some (f, n') \<Longrightarrow> calm n n'" for acs
    by (induction acs) (auto dest: st split: option.splits)
  then show ?thesis using assms by (simp add: rtw_dequeue_xframe_def)
qed

lemma calm_complete:
  assumes "rtl8192cu_xmitframe_complete env n = (r, n')"
  shows "calm n n'"
proof -
  obtain bo m where a: "rtw_alloc_xmitbuf n = (bo, m)" by fastforce
  have m: "calm n m" by (rule calm_bufs(3) [OF a])
  show ?thesis
  proof (cases bo)
    case None
    then show ?thesis using assms a m by (simp add: rtl8192cu_xmitframe_complete_def)
  next
    case (Some b)
    show ?thesis
    proof (cases "rtw_dequeue_xframe m")
      case None
      then show ?thesis using assms a Some calm_trans [OF m calm_simps(7)] by (auto simp: rtl8192cu_xmitframe_complete_def)
    next
      case (Some fk)
      obtain f k where fk: "fk = (f, k)" by fastforce
      obtain ok nfrag usb where e: "env f = (ok, nfrag, usb)" by (metis prod_cases3)
      have "calm n k" using calm_trans [OF m calm_dequeue] Some fk by simp
      from calm_send [OF this] show ?thesis
        using assms a \<open>bo = Some b\<close> Some fk e by (auto simp: rtl8192cu_xmitframe_complete_def)
    qed
  qed
qed

lemma calm_xmit_enqueue: "calm n (snd (xmit_enqueue f n))"
proof (cases "rtw_xmit_classifier f n")
  case None
  then show ?thesis using calm_trans [OF calm_simps(6) calm_simps(8)] by (simp add: xmit_enqueue_def Let_def)
next
  case (Some m)
  then show ?thesis
    by (auto simp: xmit_enqueue_def rtw_xmit_classifier_def Let_def split: option.splits if_splits
        intro!: calm_trans [OF _ calm_simps(4)] calm_trans [OF _ calm_upd] calm_simps)
qed

lemma pre_xmitframe_tim:
  assumes n: "tim_state bm n" "own_frame bm i f" "i < length (q_stas n)" "size (frame_ids n) + 1 < 2 ^ 32"
    and r: "pre_xmitframe env f n = (h, n')"
  shows "tim_inv bm n'"
proof -
  have ok: "queues_ok bm n" "tim_inv bm n" using n(1) by (simp_all add: tim_state_def)
  define g where "g = f\<lparr>qf_qsel := qf_priority f\<rparr>"
  have g: "own_frame bm i g" using n(2) by (simp add: g_def own_frame_def)
  obtain q f' m where e: "xmitframe_enqueue_for_sleeping_sta g n = (q, f', m)" by (metis prod_cases3)
  note E = enqueue_sleeping_flow [OF ok(1) n(3) g e]
  have m: "tim_inv bm m" by (rule enqueue_sleeping_tim [OF ok(1) n(3) g ok(2) e])
  show ?thesis
  proof (cases q)
    case True
    have fs: "frame_sta m f' = Some i" using E(3) by (simp add: frame_sta_def own_frame_def)
    have fl: "flow bm n {#qf_id g#} m {#}" using E(1) True by simp
    then have "tim_state bm m" using m few_flow [OF fl] n(4) by (simp add: tim_state_def flow_def)
    then have "tim_inv bm (wakeup_sta_to_xmit i m)" using wakeup_tim flow_ok(2) [OF fl] n(3) by (simp add: tim_state_def)
    then show ?thesis using r fs True m by (auto simp: pre_xmitframe_def e simp flip: g_def split: if_splits)
  next
    case False
    obtain bo k where a: "rtw_alloc_xmitbuf m = (bo, k)" by fastforce
    have k: "calm m k" by (rule calm_bufs(3) [OF a])
    have en: "calm m (snd (xmit_enqueue f' m))" "calm m (snd (xmit_enqueue f' k))" using calm_xmit_enqueue calm_trans [OF k] by blast+
    obtain ok nfrag usb where v: "env f' = (ok, nfrag, usb)" by (metis prod_cases3)
    have "calm m n'"
    proof (cases bo)
      case None
      then show ?thesis using r False en by (auto simp: pre_xmitframe_def e a simp flip: g_def split: if_splits)
    next
      case (Some b)
      then show ?thesis using r False en calm_send [OF k, of ok usb nfrag f' b]
        by (auto simp: pre_xmitframe_def e a v simp flip: g_def split: if_splits)
    qed
    from calm_tim [OF this m] show ?thesis .
  qed
qed

lemma alloc_few:
  assumes "queues_ok bm n" "rtw_alloc_xmitframe n = (Some f, m)"
  shows "size (frame_ids m) + 1 = size (frame_ids n)"
proof -
  have "flow bm n {#} m {#qf_id f#}" by (rule flow_alloc [OF assms])
  then have "frame_ids n = frame_ids m + {#qf_id f#}" by (simp add: flow_def)
  then show ?thesis by simp
qed

lemma rtw_xmit_tim:
  assumes n: "tim_state bm n"
    and a: "\<And>ra sta prio. attribs = Some (ra, sta, prio) \<Longrightarrow> \<exists>i < length (q_stas n). sta = Some i \<and> (is_multicast_ether_addr ra \<longleftrightarrow> bm = Some i)"
    and r: "rtw_xmit env attribs n = (c, n')"
  shows "tim_inv bm n'"
proof -
  have ok: "queues_ok bm n" "few_frames n" "tim_inv bm n" using n by (simp_all add: tim_state_def)
  obtain fo m where al: "rtw_alloc_xmitframe n = (fo, m)" by fastforce
  have m: "tim_inv bm m" by (rule calm_tim [OF calm_bufs(4) [OF al] ok(3)])
  show ?thesis
  proof (cases fo)
    case None
    then show ?thesis using r al m by (simp add: rtw_xmit_def)
  next
    case (Some f)
    have mf: "flow bm n {#} m {#qf_id f#}" using flow_alloc [OF ok(1)] al Some by simp
    have sz: "size (frame_ids m) + 1 < 2 ^ 32" using alloc_few [OF ok(1)] al Some ok(2) by (simp add: few_frames_def)
    show ?thesis
    proof (cases attribs)
      case None
      then show ?thesis using r al Some calm_tim [OF calm_simps(6) m] by (auto simp: rtw_xmit_def)
    next
      case at: (Some x)
      obtain ra sta prio where x: "x = (ra, sta, prio)" by (metis prod_cases3)
      obtain i where i: "i < length (q_stas n)" "sta = Some i" "is_multicast_ether_addr ra \<longleftrightarrow> bm = Some i" using a at x by blast
      define g where "g = f\<lparr>qf_ra := ra, qf_psta := Some i, qf_priority := prio, qf_qsel := prio\<rparr>"
      have g: "own_frame bm i g" "qf_id g = qf_id f" using i(3) by (simp_all add: g_def own_frame_def)
      have im: "i < length (q_stas m)" "queues_ok bm m" using flow_ok [OF mf] i(1) by simp_all
      obtain q f' k where e: "xmitframe_enqueue_for_sleeping_sta g m = (q, f', k)" by (metis prod_cases3)
      note E = enqueue_sleeping_flow [OF im(2,1) g(1) e]
      have k: "tim_inv bm k" by (rule enqueue_sleeping_tim [OF im(2,1) g(1) m e])
      show ?thesis
      proof (cases q)
        case True
        then show ?thesis using r k by (simp add: rtw_xmit_def al Some at x i(2) e flip: g_def)
      next
        case False
        obtain h o2 where p: "pre_xmitframe env f' k = (h, o2)" by fastforce
        have kf: "flow bm m {#qf_id g#} k {#qf_id g#}" using E(1) False by simp
        then have "frame_ids k = frame_ids m" "i < length (q_stas k)" "queues_ok bm k" using im(1) by (simp_all add: flow_def)
        then have "tim_inv bm o2" using pre_xmitframe_tim [OF _ E(3) _ _ p] k sz by (simp add: tim_state_def few_frames_def)
        then show ?thesis using r False by (simp add: rtw_xmit_def al Some at x i(2) e p flip: g_def)
      qed
    qed
  qed
qed

lemma calm_free_queue: "calm n (rtw_free_xmitframe_queue fs n)"
proof -
  have "calm n (fold rtw_free_xmitframe fs n)"
    by (induction fs arbitrary: n) (auto intro: calm_trans [OF calm_simps(6)])
  then show ?thesis by (simp add: rtw_free_xmitframe_queue_def)
qed

lemma calm_free_ac: "calm n (free_ac i ac n)"
proof -
  define m where "m = rtw_free_xmitframe_queue (q_pending (q_stas n ! i) ! ac) n"
  have "calm n (m\<lparr>q_hw := w, q_accnt := c\<rparr>)" for w c
    using calm_trans [OF calm_trans [OF calm_free_queue calm_simps(5)] calm_simps(4)] by (simp add: m_def)
  moreover have "calm k (upd_q i (\<lambda>s. s\<lparr>q_pending := (q_pending s)[ac := []], q_cnt := (q_cnt s)[ac := 0]\<rparr>) k)" for k
    by (rule calm_upd) simp_all
  ultimately show ?thesis unfolding free_ac_def Let_def m_def [symmetric] using calm_trans by blast
qed

lemma release_aid:
  assumes n: "tim_inv bm n" "i < length (q_stas n)" and a: "q_aid (q_stas n ! i) = a" "a > 0" "q_aids n ! (a - 1) = Some i"
  shows "tim_inv bm (upd_q i (\<lambda>s. s\<lparr>q_aid := 0\<rparr>) (n\<lparr>q_aids := (q_aids n)[a - 1 := None]\<rparr>))"
proof -
  have d: "q_aid (q_stas n ! j) \<noteq> a" if "j < length (q_stas n)" "j \<noteq> i" for j
    using aids_distinct [of bm n j i] n that a(1,2) by (auto simp: tim_inv_def)
  have "(q_aids n)[a - 1 := None] ! (q_aid (q_stas n ! j) - 1) = q_aids n ! (q_aid (q_stas n ! j) - 1)"
    if "j < length (q_stas n)" "j \<noteq> i" "q_aid (q_stas n ! j) \<noteq> 0" for j
    using d [OF that(1,2)] that(3) a(2) by (intro nth_list_update_neq) auto
  then show ?thesis using n
    by (auto simp: tim_inv_def aids_ok_def tim_ok_def Let_def upd_q_def announced_def nth_list_update waits_def)
qed

lemma free_sta_tim:
  assumes n: "tim_inv bm n" "i < length (q_stas n)"
  shows "tim_inv bm (free_sta_queues i n)"
proof -
  define m where "m = set_q_state i (q_state n i AND NOT FW_LINKED) n"
  define l where "l = upd_q i (\<lambda>s. s\<lparr>sleepq := [], sleepq_len := 0\<rparr>) (rtw_free_xmitframe_queue (sleepq (q_stas m ! i)) m)"
  have "calm n m" by (simp add: m_def)
  moreover have "calm (rtw_free_xmitframe_queue (sleepq (q_stas m ! i)) m) l" unfolding l_def by (rule calm_upd) (simp_all add: waits_def)
  ultimately have l: "calm n l" using calm_trans calm_free_queue by blast
  define o4 where "o4 = free_ac i 3 (free_ac i 2 (free_ac i 1 (free_ac i 0 l)))"
  have o4: "calm n o4" unfolding o4_def by (rule calm_trans [OF calm_trans [OF calm_trans [OF calm_trans [OF l]]]]; rule calm_free_ac)
  define g :: "q_sta \<Rightarrow> q_sta" where "g = (\<lambda>s. s\<lparr>q_expire_to := 0, sleepq_ac_len := 0, q_qos_info := 0, uapsd_bk := 0, uapsd_be := 0,
      uapsd_vi := 0, uapsd_vo := 0, has_legacy_ac := False\<rparr>)"
  define k where "k = upd_q i g o4"
  have "calm o4 k" unfolding k_def by (rule calm_upd) (simp_all add: g_def waits_def legacy_def)
  with o4 have "calm n k" by (rule calm_trans)
  then have k: "tim_inv bm k" "i < length (q_stas k)" using calm_tim n by (blast, simp add: calm_def)
  have "i < length (q_stas o4)" using o4 n(2) by (simp add: calm_def)
  then have w: "\<not> waits (q_stas k ! i)" by (simp add: k_def upd_q_sta g_def waits_def legacy_def)
  define a where "a = q_aid (q_stas k ! i)"
  define o6 where "o6 = clear_tim a (clear_dz a k)"
  have "tim_inv bm (clear_dz a k)" using calm_tim [OF calm_simps(3) k(1)] .
  then have o6: "tim_inv bm o6" using clear_tim_inv [of bm "clear_dz a k" i] k(2) w by (simp add: o6_def a_def)
  have "tim_inv bm (upd_q i (\<lambda>s. s\<lparr>q_aid := 0\<rparr>) (o6\<lparr>q_aids := (q_aids o6)[a - 1 := None]\<rparr>))" if "a > 0" "q_aids o6 ! (a - 1) = Some i"
    by (rule release_aid [OF o6]) (use k(2) that in \<open>simp_all add: o6_def a_def\<close>)
  with k(1) o6 show ?thesis
    unfolding free_sta_queues_def Let_def m_def [symmetric] l_def [symmetric] o4_def [symmetric] g_def [symmetric] k_def [symmetric]
      a_def [symmetric] o6_def [symmetric] by simp
qed

section \<open>Every reachable state\<close>

text \<open>Association gives a number to a station that has none, and whose sleep queue is empty; what a station sleeps
  through does not change while frames wait.\<close>

definition tim_environment :: "nat option \<Rightarrow> tx_queues \<Rightarrow> tx_queues \<Rightarrow> bool" where
  "tim_environment bm n m \<longleftrightarrow> q_tim m = q_tim n \<and> q_out m = q_out n \<and> aids_ok bm m
     \<and> (\<forall>i < length (q_stas m). waits (q_stas m ! i) \<longrightarrow> waits (q_stas n ! i) \<and> q_aid (q_stas m ! i) = q_aid (q_stas n ! i))"

lemma step_tim:
  assumes s: "q_step bm (tim_environment bm) n m" and n: "tim_state bm n"
  shows "tim_state bm m"
proof -
  have ok: "queues_ok bm n" "tim_inv bm n" using n by (simp_all add: tim_state_def)
  have fl: "flow bm n {#} m {#}" by (rule step_flow [OF s ok(1)])
  note look = table_bound [OF ok(1)]
  from s show ?thesis
  proof cases
    case (xmit env a r)
    have "tim_inv bm m" by (rule rtw_xmit_tim [OF n _ xmit(1)]) (use xmit(2) in auto)
    then show ?thesis by (rule tim_flow [OF n fl])
  next
    case (complete env r)
    show ?thesis by (rule tim_flow [OF n fl calm_tim [OF calm_complete [OF complete] ok(2)]])
  next
    case (written b)
    show ?thesis by (rule tim_flow [OF n fl]) (simp add: written calm_tim [OF calm_bufs(2) ok(2)])
  next
    case (pwrbit src pwr)
    then show ?thesis using n stop_sta_xmit_tim [OF n look] wakeup_tim [OF n look]
      by (auto simp: process_pwrbit_data_def Let_def split: option.splits if_splits)
  next
    case (wmmps src prio)
    have "tim_inv bm m"
      using wmmps ok(2) deliver_frames_tim [OF ok(2) look, where kept = "[]"] calm_tim [OF calm_out ok(2)]
      by (auto simp: process_wmmps_data_def xmit_delivery_enabled_frames_def Let_def split: option.splits)
    then show ?thesis by (rule tim_flow [OF n fl])
  next
    case (ctrl p prio)
    then have "m = n \<or> (\<exists>i a. rtw_get_stainfo (q_table n) a = Some i \<and> m = ps_poll i n)"
      by (auto simp: validate_recv_ctrl_frame_def bind_eq_Some_conv split: if_splits option.splits)
    then show ?thesis using n ps_poll_tim [OF n look] by blast
  next
    case beacon
    have "tim_inv bm m" using beacon ok(2) calm_tim [OF wake_bmc_calm [OF look refl] ok(2)]
      by (auto simp: tx_beacon_hdl_def split: option.splits)
    then show ?thesis by (rule tim_flow [OF n fl])
  next
    case (hi_queue e)
    have "tim_inv bm (update_tim (clear_dz 0 (clear_tim 0 n)))"
      by (rule update_tim_inv, rule calm_tim [OF calm_simps(3)], rule clear_tim0_inv, rule ok(2))
    then have "tim_inv bm m" using hi_queue ok(2) calm_tim [OF calm_out ok(2)]
      by (auto simp: rtw_chk_hi_queue_hdl_def split: option.splits)
    then show ?thesis by (rule tim_flow [OF n fl])
  next
    case (leave i)
    show ?thesis by (rule tim_flow [OF n fl]) (simp add: leave(1) free_sta_tim [OF ok(2) leave(2)])
  next
    case other
    have "tim_inv bm m" using other ok(2)
      by (simp add: tim_environment_def tim_inv_def tim_ok_def announced_def q_environment_def)
    then show ?thesis by (rule tim_flow [OF n fl])
  qed
qed


text \<open>A station associates, falls asleep, and a packet for it arrives.\<close>

definition tim_table :: sta_priv where
  "tim_table = \<lparr>sta_buf = [\<lparr>hwaddr = replicate 6 2, sta_state = FW_LINKED, dot118021x_UncstKey = replicate 16 3\<rparr>,
       \<lparr>hwaddr = bc_addr, sta_state = FW_LINKED, dot118021x_UncstKey = replicate 16 0\<rparr>],
     free_sta_queue = [], sta_hash = replicate 32 [0, 1], asoc_sta_count = 2\<rparr>"

definition tim_start0 :: tx_queues where "tim_start0 = q_example0\<lparr>q_table := tim_table\<rparr>"

definition tim_start :: tx_queues where "tim_start = init_xmit_queues tim_start0"

definition tim_joined :: tx_queues where
  "tim_joined = upd_q 0 (\<lambda>s. s\<lparr>q_aid := 1, has_legacy_ac := True\<rparr>) (tim_start\<lparr>q_aids := (q_aids tim_start)[0 := Some 0]\<rparr>)"

definition tim_asleep :: tx_queues where
  "tim_asleep = the (process_pwrbit_data (replicate 6 2) True tim_joined)"

definition tim_waiting :: tx_queues where
  "tim_waiting = snd (rtw_xmit (\<lambda>_. (True, 1, True)) (Some (replicate 6 2, Some 0, 5)) tim_asleep)"

lemma tim_lookup:
  assumes "rtw_get_stainfo tim_table a = Some i"
  shows "i < NUM_STA"
proof -
  have "sta_hash tim_table ! wifi_mac_hash x = [0, 1]" for x using wifi_mac_hash_less [of x] by (simp add: tim_table_def NUM_STA_def)
  then show ?thesis using assms by (auto simp: rtw_get_stainfo_def Let_def NUM_STA_def split: if_splits)
qed

lemma tim_start_ok: "q_start tim_start0 tim_start" "aids_ok (Some 1) tim_start" "q_out tim_start = []" "q_stas tim_start = replicate NUM_STA init_q_sta"
  using tim_lookup
  by (auto simp: q_start_def tim_start_def tim_start0_def q_example0_def init_xmit_queues_def aids_ok_def init_q_sta_def NUM_STA_def)

lemma tim_join_step: "q_step (Some 1) (tim_environment (Some 1)) tim_start tim_joined"
proof (rule q_step.other)
  show "q_environment tim_start tim_joined"
    using tim_lookup
    by (auto simp: q_environment_def tim_joined_def upd_q_def tim_start_ok(4) nth_list_update NUM_STA_def init_q_sta_def)
      (auto simp: tim_start_def tim_start0_def init_xmit_queues_def)
  show "tim_environment (Some 1) tim_start tim_joined"
    by (auto simp: tim_environment_def tim_joined_def upd_q_def tim_start_ok(4) nth_list_update NUM_STA_def init_q_sta_def waits_def
        aids_ok_def Let_def)
      (auto simp: tim_start_def tim_start0_def q_example0_def init_xmit_queues_def NUM_STA_def)
qed

lemma tim_reachable: "(q_step (Some 1) (tim_environment (Some 1)))\<^sup>*\<^sup>* tim_start tim_waiting"
proof -
  have "process_pwrbit_data (replicate 6 2) True tim_joined \<noteq> None" by code_simp
  then have "q_step (Some 1) E tim_joined tim_asleep" for E
    by (intro q_step.pwrbit [of "replicate 6 2" True]) (auto simp: tim_asleep_def)
  moreover have "length (q_stas tim_asleep) = 32" by code_simp
  then have "q_step (Some 1) E tim_asleep tim_waiting" for E
    using q_step.xmit [of "\<lambda>_. (True, 1, True)" "Some (replicate 6 2, 0, 5)" tim_asleep _ tim_waiting "Some 1" E]
    by (simp add: tim_waiting_def is_multicast_ether_addr_def prod_eq_iff)
  ultimately show ?thesis using tim_join_step by (meson converse_rtranclp_into_rtranclp rtranclp.rtrancl_refl)
qed


end
