(* ===== verification/BcnInfo.thy ===== *)
theory BcnInfo
  imports IeParse "HOL-Library.Signed_Division"
begin

text \<open>
  What a station remembers of the beacon of its access point (\<^verbatim>\<open>rtw_get_bcn_info\<close> in \<^verbatim>\<open>core/rtw_ieee80211.c\<close>) and how it
  notices that the access point has changed (\<^verbatim>\<open>rtw_check_bcn_info\<close> in \<^verbatim>\<open>core/rtw_wlan_util.c\<close>). Memory is a list of bytes from
  an address on, \<open>None\<close> is an access behind its end.
\<close>

section \<open>What is remembered\<close>

text \<open>A network (\<^verbatim>\<open>WLAN_BSSID_EX\<close>): \<open>bn_ies\<close> is the array of its elements with the 12 fixed bytes, \<open>bn_ielen\<close> the
  length in use, \<open>bn_kind\<close> the frame it was read from. The network a station is in has the facts of its beacon, too;
  \<open>b_sec\<close> holds the ciphers and the key management.\<close>

record bss =
  bn_mac :: bytes
  bn_kind :: nat
  bn_ssid :: bytes
  bn_ssidlen :: nat
  bn_privacy :: nat
  bn_rssi :: int
  bn_dsconfig :: nat
  bn_period :: nat
  bn_infra :: bool
  bn_rates :: bytes
  bn_strength :: nat
  bn_quality :: nat
  bn_ielen :: nat
  bn_ies :: bytes

record bcn_info =
  b_protocol :: nat
  b_sec :: sec_ie
  b_ht_cap :: u16
  b_ht_info :: u8

record bcn_net = bss +
  bn_info :: bcn_info

definition ENCRYP_PROTOCOL_OPENSYS :: nat where "ENCRYP_PROTOCOL_OPENSYS = 0"
definition ENCRYP_PROTOCOL_WEP :: nat where "ENCRYP_PROTOCOL_WEP = 1"
definition ENCRYP_PROTOCOL_WPA :: nat where "ENCRYP_PROTOCOL_WPA = 2"
definition ENCRYP_PROTOCOL_WPA2 :: nat where "ENCRYP_PROTOCOL_WPA2 = 3"

definition no_sec :: sec_ie where "no_sec = \<lparr>group_cipher = 0, pairwise_cipher = 0, is_8021x = False\<rparr>"

definition bcn_cap :: "bytes \<Rightarrow> u16" where "bcn_cap b = get_le16 (b ! 10) (b ! 11)"

text \<open>The element with the number \<open>eid\<close> behind the fixed fields: its position and length.\<close>

definition bcn_elem :: "nat \<Rightarrow> bytes \<Rightarrow> nat \<Rightarrow> (nat \<times> nat) option option" where
  "bcn_elem eid b n = map_option (map_option (\<lambda>(p, l). (12 + p, l))) (rtw_get_ie (drop 12 b) eid (int n - 12))"

definition bcn_ht_cap :: "bytes \<Rightarrow> nat \<Rightarrow> u16 option" where
  "bcn_ht_cap b n =
     do { r \<leftarrow> bcn_elem 45 b n;
          case r of Some (p, Suc l) \<Rightarrow> map_option of_nat (rd_le16 b (p + 2)) | _ \<Rightarrow> Some 0 }"

text \<open>The primary channel, where there is an HT information element, and the first byte behind it.\<close>

definition bcn_ht_info :: "bytes \<Rightarrow> nat \<Rightarrow> (u8 option \<times> u8) option" where
  "bcn_ht_info b n =
     do { r \<leftarrow> bcn_elem 61 b n;
          case r of Some (p, Suc l) \<Rightarrow> do { c \<leftarrow> rd b (p + 2); i \<leftarrow> rd b (p + 3); Some (Some c, i) } | _ \<Rightarrow> Some (None, 0) }"

definition bcn_protocol :: "bytes \<Rightarrow> nat \<Rightarrow> bool \<Rightarrow> nat option" where
  "bcn_protocol b n privacy =
     do { (_, st) \<leftarrow> rtw_get_sec_ie b n False \<lparr>out_rsn_ie = [], out_rsn_len = 0, out_wpa_ie = [], out_wpa_len = 0\<rparr>;
          Some (if out_rsn_len st > 0 then ENCRYP_PROTOCOL_WPA2 else if out_wpa_len st > 0 then ENCRYP_PROTOCOL_WPA
            else if privacy then ENCRYP_PROTOCOL_WEP else ENCRYP_PROTOCOL_OPENSYS) }"

text \<open>The WPA element, or the RSN element where there is none: the status of its parser and what it has written.\<close>

definition bcn_ciphers :: "bytes \<Rightarrow> nat \<Rightarrow> (rtw_status \<times> sec_ie) option" where
  "bcn_ciphers b n =
     do { w \<leftarrow> rtw_get_wpa_ie (drop 12 b) (int n - 12);
          case w of Some (p, Suc l) \<Rightarrow> rtw_parse_wpa_ie (drop (12 + p) b) (int (Suc l) + 2) True no_sec
          | _ \<Rightarrow>
              do { r \<leftarrow> rtw_get_wpa2_ie (drop 12 b) (int n - 12);
                   case r of Some (p, Suc l) \<Rightarrow> rtw_parse_wpa2_ie (drop (12 + p) b) (int (Suc l) + 2) True no_sec
                   | _ \<Rightarrow> Some (RTW_FAIL, no_sec) } }"

definition rtw_get_cipher_info :: "bcn_net \<Rightarrow> bcn_net option" where
  "rtw_get_cipher_info w =
     do { (ok, c) \<leftarrow> bcn_ciphers (bn_ies w) (bn_ielen w);
          Some (if ok = RTW_SUCCESS then w\<lparr>bn_info := (bn_info w)\<lparr>b_sec := c\<rparr>\<rparr> else w) }"

definition rtw_get_bcn_info :: "bcn_net \<Rightarrow> bcn_net option" where
  "rtw_get_bcn_info w =
     (let privacy = bit (bcn_cap (bn_ies w)) 4;
          w = (if privacy then w\<lparr>bn_privacy := 1\<rparr> else w)
      in do { prot \<leftarrow> bcn_protocol (bn_ies w) (bn_ielen w) privacy;
              w \<leftarrow> rtw_get_cipher_info (w\<lparr>bn_info := (bn_info w)\<lparr>b_protocol := prot\<rparr>\<rparr>);
              cap \<leftarrow> bcn_ht_cap (bn_ies w) (bn_ielen w);
              info \<leftarrow> bcn_ht_info (bn_ies w) (bn_ielen w);
              Some (w\<lparr>bn_info := (bn_info w)\<lparr>b_ht_cap := cap, b_ht_info := snd info\<rparr>\<rparr>) })"

section \<open>Reading a beacon\<close>

text \<open>What is measured with a received frame, the channel the radio is on, and the settings of the coexistence check.\<close>

record rx_phy =
  rx_rssi :: int
  rx_strength :: nat
  rx_quality :: nat
  oper_ch :: nat
  coex_check :: bool

text \<open>\<^verbatim>\<open>rtw_get_ie\<close> behind the fixed fields of the frame kind.\<close>

definition elem_at :: "nat \<Rightarrow> nat \<Rightarrow> bytes \<Rightarrow> nat \<Rightarrow> (nat \<times> nat) option option" where
  "elem_at off eid b n = map_option (map_option (\<lambda>(p, l). (off + p, l))) (rtw_get_ie (drop off b) eid (int n - int off))"

lemma bcn_elem_at: "bcn_elem eid b n = elem_at 12 eid b n"
  by (simp add: bcn_elem_def elem_at_def)

definition frame_kind :: "u8 \<Rightarrow> nat \<times> nat" where
  "frame_kind fc = (if fc AND 0xf0 = 0x80 then (1, 12) else if fc AND 0xf0 = 0x40 then (2, 0)
     else if fc AND 0xf0 = 0x50 then (3, 12) else (0, 12))"

definition collect_ssid :: "nat \<Rightarrow> bytes \<Rightarrow> nat \<Rightarrow> (bytes \<times> nat) option option" where
  "collect_ssid off b n =
     do { r \<leftarrow> elem_at off 0 b n;
          case r of None \<Rightarrow> Some None
          | Some (p, l) \<Rightarrow>
              (if l > 32 then Some None
               else do { d \<leftarrow> rds b (p + 2) l; Some (Some (d @ replicate (32 - l) 0, l)) }) }"

definition collect_rates :: "nat \<Rightarrow> bytes \<Rightarrow> nat \<Rightarrow> bytes option option" where
  "collect_rates off b n =
     do { r \<leftarrow> elem_at off 1 b n;
          d \<leftarrow> (case r of None \<Rightarrow> Some (Some [])
            | Some (p, l) \<Rightarrow> (if l > 16 then Some None else map_option Some (rds b (p + 2) l)));
          case d of None \<Rightarrow> Some None
          | Some d \<Rightarrow>
              do { r \<leftarrow> elem_at off 50 b n;
                   e \<leftarrow> (case r of None \<Rightarrow> Some (Some [])
                     | Some (p, l) \<Rightarrow> (if l > 16 - length d then Some None else map_option Some (rds b (p + 2) l)));
                   Some (map_option (\<lambda>e. d @ e @ replicate (16 - length d - length e) 0) e) } }"

definition collect_channel :: "nat \<Rightarrow> bytes \<Rightarrow> nat \<Rightarrow> nat \<Rightarrow> nat option" where
  "collect_channel off b n oper =
     do { r \<leftarrow> elem_at off 3 b n;
          case r of Some (p, l) \<Rightarrow> map_option unat (rd b (p + 2))
          | None \<Rightarrow>
              do { r \<leftarrow> elem_at off 61 b n;
                   case r of Some (p, l) \<Rightarrow> map_option unat (rd b (p + 2)) | None \<Rightarrow> Some oper } }"

text \<open>What the coexistence check adds to the counters of the networks that forbid 40 MHz and of those without HT.\<close>

definition coex_count :: "nat \<Rightarrow> bytes \<Rightarrow> nat \<Rightarrow> (nat \<times> nat) option" where
  "coex_count off b n =
     do { r \<leftarrow> elem_at off 45 b n;
          case r of Some (p, Suc l) \<Rightarrow> do { c \<leftarrow> rd_le16 b (p + 2); Some (if bit (of_nat c :: u16) 14 then (1, 0) else (0, 0)) }
          | _ \<Rightarrow> Some (0, 1) }"

definition collect_rest ::
    "rx_phy \<Rightarrow> bytes \<Rightarrow> nat \<Rightarrow> nat \<Rightarrow> bytes \<Rightarrow> nat \<Rightarrow> bytes \<times> nat \<Rightarrow> bytes \<Rightarrow> (bss \<times> nat \<times> nat) option" where
  "collect_rest rx b kind off e n nm rates =
     (let cap = bcn_cap e; req = (kind = 2) in
      do { ch \<leftarrow> collect_channel off e n (oper_ch rx);
           addr \<leftarrow> (if req \<or> bit cap 0 then rds b 10 6 else rds b 16 6);
           count \<leftarrow> (if req \<or> \<not> coex_check rx then Some (0, 0) else coex_count off e n);
           Some (\<lparr>bn_mac = addr, bn_kind = kind, bn_ssid = fst nm, bn_ssidlen = snd nm,
             bn_privacy = (if req \<or> bit cap 4 then 1 else 0), bn_rssi = rx_rssi rx, bn_dsconfig = ch,
             bn_period = (if req then 0 else unat (get_le16 (e ! 8) (e ! 9))), bn_infra = (req \<or> bit cap 0),
             bn_rates = rates, bn_strength = rx_strength rx,
             bn_quality = (if \<not> req \<and> ch \<noteq> oper_ch rx then 101 else rx_quality rx),
             bn_ielen = n, bn_ies = e\<rparr>, count) })"

text \<open>\<^verbatim>\<open>collect_bss_info\<close> of a frame of \<open>len\<close> bytes: \<open>Some None\<close> is the failing return.\<close>

definition collect_bss_info :: "rx_phy \<Rightarrow> bytes \<Rightarrow> nat \<Rightarrow> (bss \<times> nat \<times> nat) option option" where
  "collect_bss_info rx b len =
     (let n = len - 24 in
      if len < 24 \<or> n > MAX_IE_SZ then Some None
      else
        do { fc \<leftarrow> rd b 0;
             d \<leftarrow> rds b 24 n;
             let (kind, off) = frame_kind fc;
             let ies = d @ replicate (MAX_IE_SZ - n) 0;
             nm \<leftarrow> collect_ssid off ies n;
             rates \<leftarrow> (if nm = None then Some None else collect_rates off ies n);
             if rates = None \<or> n < 12 then Some None
             else map_option Some (collect_rest rx b kind off ies n (the nm) (the rates)) })"

text \<open>\<^verbatim>\<open>update_network\<close>: the signal is smoothed, or, of the access point the station is linked to, taken from the receive
  path (\<open>linked\<close> holds its strength and quality). The elements behind the length in use stay.\<close>

definition smooth :: "nat \<Rightarrow> nat \<Rightarrow> nat" where "smooth new old = (new + old * 4) div 5 mod 256"

definition update_network :: "(nat \<times> nat) option \<Rightarrow> bool \<Rightarrow> bss \<Rightarrow> bcn_net \<Rightarrow> bcn_net" where
  "update_network linked update_ie src dst =
     (let near = (bn_quality src \<noteq> 101);
          ss = (case linked of Some (s, _) \<Rightarrow> s | None \<Rightarrow> if near then smooth (bn_strength src) (bn_strength dst) else bn_strength dst);
          sq = (case linked of Some (_, q) \<Rightarrow> q | None \<Rightarrow> if near then smooth (bn_quality src) (bn_quality dst) else bn_quality dst);
          rssi = (if near then (bn_rssi src + bn_rssi dst * 4) sdiv 5 else bn_rssi dst);
          w = (if update_ie then dst\<lparr>bn_mac := bn_mac src, bn_kind := bn_kind src, bn_ssid := bn_ssid src, bn_ssidlen := bn_ssidlen src,
                 bn_privacy := bn_privacy src, bn_dsconfig := bn_dsconfig src, bn_period := bn_period src,
                 bn_infra := bn_infra src, bn_rates := bn_rates src, bn_ielen := bn_ielen src,
                 bn_ies := take (bn_ielen src) (bn_ies src) @ drop (bn_ielen src) (bn_ies dst)\<rparr> else dst)
      in w\<lparr>bn_strength := ss, bn_quality := sq, bn_rssi := rssi\<rparr>)"

section \<open>Whether a beacon still fits\<close>

definition bcn_channel :: "bytes \<Rightarrow> nat \<Rightarrow> u8 option \<Rightarrow> nat \<Rightarrow> nat option" where
  "bcn_channel b n primary cur =
     do { r \<leftarrow> bcn_elem 3 b n;
          case r of Some (p, l) \<Rightarrow> map_option unat (rd b (p + 2))
          | None \<Rightarrow> Some (case primary of Some c \<Rightarrow> unat c | None \<Rightarrow> cur) }"

text \<open>The array for the name has 32 bytes.\<close>

definition bcn_ssid :: "bytes \<Rightarrow> nat \<Rightarrow> (bytes \<times> nat) option" where
  "bcn_ssid b n =
     do { r \<leftarrow> bcn_elem 0 b n;
          case r of None \<Rightarrow> Some (replicate 32 0, 0)
          | Some (p, l) \<Rightarrow>
              (if l > 32 then None
               else do { d \<leftarrow> rds b (p + 2) l; Some (d @ replicate (32 - l) 0, l) }) }"

definition update_ht :: "u16 \<Rightarrow> u8 \<Rightarrow> bcn_net \<Rightarrow> bcn_net" where
  "update_ht cap info w =
     (if cap \<noteq> b_ht_cap (bn_info w) \<or> info AND 3 \<noteq> b_ht_info (bn_info w) AND 3
      then w\<lparr>bn_info := (bn_info w)\<lparr>b_ht_cap := cap, b_ht_info := info\<rparr>\<rparr> else w)"

definition ssid_differs :: "bytes \<times> nat \<Rightarrow> bcn_net \<Rightarrow> bool" where
  "ssid_differs s w \<longleftrightarrow> (fst s \<noteq> bn_ssid w \<or> snd s \<noteq> bn_ssidlen w) \<and> fst s ! 0 \<noteq> 0 \<and> snd s \<noteq> 0"

definition check_sec :: "bytes \<Rightarrow> nat \<Rightarrow> bcn_net \<Rightarrow> bool option" where
  "check_sec b n w =
     (let privacy = bit (bcn_cap b) 4
      in if bn_privacy w \<noteq> (if privacy then 1 else 0) then Some False
         else
           do { prot \<leftarrow> bcn_protocol b n privacy;
                if b_protocol (bn_info w) \<noteq> prot then Some False
                else if prot = ENCRYP_PROTOCOL_WPA \<or> prot = ENCRYP_PROTOCOL_WPA2 then
                  map_option (\<lambda>r. snd r = b_sec (bn_info w)) (bcn_ciphers b n)
                else Some True })"

definition check_ies :: "nat \<Rightarrow> bytes \<Rightarrow> nat \<Rightarrow> bcn_net \<Rightarrow> (bool \<times> bcn_net) option" where
  "check_ies cur_channel b n w =
     do { cap \<leftarrow> bcn_ht_cap b n;
          info \<leftarrow> bcn_ht_info b n;
          let w = update_ht cap (snd info) w;
          ch \<leftarrow> bcn_channel b n (fst info) cur_channel;
          if ch \<noteq> cur_channel then Some (False, w)
          else
            do { s \<leftarrow> bcn_ssid b n;
                 if ssid_differs s w then Some (False, w)
                 else map_option (\<lambda>ok. (ok, w)) (check_sec b n w) } }"

text \<open>\<^verbatim>\<open>rtw_check_bcn_info\<close> on a frame of \<open>len\<close> bytes; \<open>mem\<close> tells whether there is memory for the copy.\<close>

definition rtw_check_bcn_info :: "bool \<Rightarrow> bool \<Rightarrow> nat \<Rightarrow> bytes \<Rightarrow> nat \<Rightarrow> bcn_net \<Rightarrow> (bool \<times> bcn_net) option" where
  "rtw_check_bcn_info associated mem cur_channel b len w =
     (if \<not> associated then Some (True, w)
      else if len < 24 \<or> len - 24 > MAX_IE_SZ then Some (False, w)
      else
        do { a3 \<leftarrow> rds b 16 6;
             if a3 \<noteq> bn_mac w then Some (True, w)
             else if \<not> mem then None
             else
               do { d \<leftarrow> rds b 24 (len - 24);
                    check_ies cur_channel (d @ replicate (MAX_IE_SZ - (len - 24)) 0) (len - 24) w } })"

section \<open>Properties\<close>

lemma update_ht_same: "b_ht_cap (bn_info w) = cap \<Longrightarrow> b_ht_info (bn_info w) = info \<Longrightarrow> update_ht cap info w = w"
  by (simp add: update_ht_def)

lemma update_ht_keeps [simp]:
  "b_protocol (bn_info (update_ht c i w)) = b_protocol (bn_info w)" "b_sec (bn_info (update_ht c i w)) = b_sec (bn_info w)"
  "bn_privacy (update_ht c i w) = bn_privacy w"
  by (simp_all add: update_ht_def)

text \<open>What \<^verbatim>\<open>rtw_get_bcn_info\<close> leaves behind.\<close>

lemma rtw_get_bcn_info_Some:
  assumes "rtw_get_bcn_info w = Some w'"
  obtains prot ok c cap info where
    "bcn_protocol (bn_ies w) (bn_ielen w) (bit (bcn_cap (bn_ies w)) 4) = Some prot"
    "bcn_ciphers (bn_ies w) (bn_ielen w) = Some (ok, c)"
    "bcn_ht_cap (bn_ies w) (bn_ielen w) = Some cap" "bcn_ht_info (bn_ies w) (bn_ielen w) = Some info"
    "w' = w\<lparr>bn_privacy := (if bit (bcn_cap (bn_ies w)) 4 then 1 else bn_privacy w),
           bn_info := \<lparr>b_protocol = prot, b_sec = (if ok = RTW_SUCCESS then c else b_sec (bn_info w)),
             b_ht_cap = cap, b_ht_info = snd info\<rparr>\<rparr>"
proof -
  obtain prot where p: "bcn_protocol (bn_ies w) (bn_ielen w) (bit (bcn_cap (bn_ies w)) 4) = Some prot"
    using assms by (auto simp: rtw_get_bcn_info_def Let_def bind_eq_Some_conv split: if_splits)
  obtain ok c where c: "bcn_ciphers (bn_ies w) (bn_ielen w) = Some (ok, c)"
    using assms by (auto simp: rtw_get_bcn_info_def rtw_get_cipher_info_def Let_def bind_eq_Some_conv split: if_splits)
  obtain cap where h: "bcn_ht_cap (bn_ies w) (bn_ielen w) = Some cap"
    using assms c p by (auto simp: rtw_get_bcn_info_def rtw_get_cipher_info_def Let_def bind_eq_Some_conv split: if_splits)
  obtain info where i: "bcn_ht_info (bn_ies w) (bn_ielen w) = Some info"
    using assms c p h by (auto simp: rtw_get_bcn_info_def rtw_get_cipher_info_def Let_def bind_eq_Some_conv split: if_splits)
  show ?thesis
    by (rule that [OF p c h i], cases "bit (bcn_cap (bn_ies w)) 4"; cases "ok = RTW_SUCCESS"; cases "bn_info w")
      (use assms p c h i in \<open>auto simp: rtw_get_bcn_info_def rtw_get_cipher_info_def Let_def\<close>)
qed

text \<open>A beacon of the network that is long enough is checked by its elements.\<close>

lemma rtw_check_bcn_info_eq:
  assumes "rds b 16 6 = Some (bn_mac w)" "rds b 24 (length d) = Some d" "length d \<le> MAX_IE_SZ"
  shows "rtw_check_bcn_info True True cur b (24 + length d) w
    = check_ies cur (d @ replicate (MAX_IE_SZ - length d) 0) (length d) w"
  using assms by (simp add: rtw_check_bcn_info_def)

lemma unchanged_beacon:
  assumes "rtw_get_bcn_info w = Some w'" "bn_ies w = d @ replicate (MAX_IE_SZ - length d) 0" "bn_ielen w = length d"
    "length d \<le> MAX_IE_SZ" "rds b 16 6 = Some (bn_mac w)" "rds b 24 (length d) = Some d"
    "bcn_ht_info (bn_ies w) (length d) = Some info" "bcn_channel (bn_ies w) (length d) (fst info) cur = Some cur"
    "bcn_ssid (bn_ies w) (length d) = Some s" "\<not> ssid_differs s w" "\<not> bit (bcn_cap (bn_ies w)) 4 \<longrightarrow> bn_privacy w = 0"
  shows "rtw_check_bcn_info True True cur b (24 + length d) w' =
    Some (b_protocol (bn_info w') \<in> {ENCRYP_PROTOCOL_WPA, ENCRYP_PROTOCOL_WPA2} \<longrightarrow>
      (\<exists>c. bcn_ciphers (bn_ies w) (length d) = Some (RTW_SUCCESS, c) \<or>
        (bcn_ciphers (bn_ies w) (length d) = Some (RTW_FAIL, c) \<and> c = b_sec (bn_info w))), w')"
proof -
  from assms(1) obtain prot ok c cap info' where
    r: "bcn_protocol (bn_ies w) (length d) (bit (bcn_cap (bn_ies w)) 4) = Some prot"
      "bcn_ciphers (bn_ies w) (length d) = Some (ok, c)" "bcn_ht_cap (bn_ies w) (length d) = Some cap"
      "bcn_ht_info (bn_ies w) (length d) = Some info'"
    and w': "w' = w\<lparr>bn_privacy := (if bit (bcn_cap (bn_ies w)) 4 then 1 else bn_privacy w),
           bn_info := \<lparr>b_protocol = prot, b_sec = (if ok = RTW_SUCCESS then c else b_sec (bn_info w)),
             b_ht_cap = cap, b_ht_info = snd info'\<rparr>\<rparr>"
    unfolding assms(3) [symmetric] by (rule rtw_get_bcn_info_Some)
  have e: "rtw_check_bcn_info True True cur b (24 + length d) w' = check_ies cur (bn_ies w) (length d) w'"
    unfolding assms(2) by (rule rtw_check_bcn_info_eq) (use assms w' in auto)
  have u: "update_ht cap (snd info') w' = w'" by (simp add: update_ht_same w')
  have s: "\<not> ssid_differs s w'" using assms(10) by (simp add: ssid_differs_def w')
  have p: "bn_privacy w' = (if bit (bcn_cap (bn_ies w)) 4 then 1 else 0)" using assms(11) by (simp add: w')
  have k: "check_sec (bn_ies w) (length d) w' = Some (prot \<in> {ENCRYP_PROTOCOL_WPA, ENCRYP_PROTOCOL_WPA2} \<longrightarrow> c = b_sec (bn_info w'))"
    using r p by (auto simp: check_sec_def w')
  have "check_ies cur (bn_ies w) (length d) w'
      = Some (prot \<in> {ENCRYP_PROTOCOL_WPA, ENCRYP_PROTOCOL_WPA2} \<longrightarrow> c = b_sec (bn_info w'), w')"
    using r assms(7,8,9) u s k by (simp add: check_ies_def)
  then show ?thesis unfolding e using r(2) by (cases ok) (auto simp: w')
qed

lemma collect_bss_info_Some:
  assumes "collect_bss_info rx b len = Some (Some (s, k))"
  obtains d kind off nm where
    "24 \<le> len" "length d = len - 24" "length d \<le> MAX_IE_SZ" "rds b 24 (length d) = Some d"
    "frame_kind (b ! 0) = (kind, off)" "collect_ssid off (d @ replicate (MAX_IE_SZ - length d) 0) (length d) = Some (Some nm)"
    "collect_rest rx b kind off (d @ replicate (MAX_IE_SZ - length d) 0) (length d) nm (bn_rates s) = Some (s, k)"
proof -
  let ?n = "len - 24"
  from assms obtain fc d where
    l: "24 \<le> len" "?n \<le> MAX_IE_SZ" "rd b 0 = Some fc" "rds b 24 ?n = Some d"
    by (auto simp: collect_bss_info_def Let_def bind_eq_Some_conv split: if_splits)
  obtain kind off where f: "frame_kind fc = (kind, off)" by (cases "frame_kind fc") auto
  have n: "length d = ?n" using l(4) by (auto simp: rds_Some buf_get_def)
  from assms l f obtain nm rates where
    s: "collect_ssid off (d @ replicate (MAX_IE_SZ - ?n) 0) ?n = Some (Some nm)"
    "collect_rest rx b kind off (d @ replicate (MAX_IE_SZ - ?n) 0) ?n nm rates = Some (s, k)"
    by (auto simp: collect_bss_info_def Let_def bind_eq_Some_conv split: if_splits)
  moreover have "rates = bn_rates s" using s(2) by (auto simp: collect_rest_def Let_def bind_eq_Some_conv split: if_splits)
  moreover have "fc = b ! 0" using l(3) by (simp add: rd_Some)
  ultimately show ?thesis using that [of d kind off nm] l f n by simp
qed

lemma collect_rest_Some:
  assumes "collect_rest rx b kind off e n nm rates = Some (s, k)"
  shows "collect_channel off e n (oper_ch rx) = Some (bn_dsconfig s)"
    "(if kind = 2 \<or> bit (bcn_cap e) 0 then rds b 10 6 else rds b 16 6) = Some (bn_mac s)"
    "bn_privacy s = (if kind = 2 \<or> bit (bcn_cap e) 4 then 1 else 0)" "bn_ies s = e" "bn_ielen s = n"
    "nm = (bn_ssid s, bn_ssidlen s)"
  using assms by (auto simp: collect_rest_def Let_def bind_eq_Some_conv split: if_splits)



text \<open>A network with the name \<^verbatim>\<open>ab\<close> on channel 6 with RSN, CCMP, and one whose RSN element lists no pairwise cipher.\<close>

definition demo_bcn_body :: "u8 \<Rightarrow> bytes" where
  "demo_bcn_body pairs = replicate 8 0 @ [100, 0, 0x11, 0] @ [0, 2, 97, 98] @ [3, 1, 6]
     @ [48, 20, 1, 0, 0, 0x0f, 0xac, 4, pairs, 0, 0, 0x0f, 0xac, 4, 1, 0, 0, 0x0f, 0xac, 2, 0, 0]"

definition demo_bcn_frame :: "u8 \<Rightarrow> bytes" where
  "demo_bcn_frame pairs = [0x80, 0, 0, 0] @ replicate 6 255 @ [2, 0, 0, 0, 0, 1] @ [2, 0, 0, 0, 0, 1] @ [0, 0] @ demo_bcn_body pairs"

definition demo_bcn_phy :: rx_phy where
  "demo_bcn_phy = \<lparr>rx_rssi = - 60, rx_strength = 50, rx_quality = 80, oper_ch = 6, coex_check = False\<rparr>"

definition demo_bss :: "u8 \<Rightarrow> bss" where
  "demo_bss pairs = \<lparr>bn_mac = [2, 0, 0, 0, 0, 1], bn_kind = 1, bn_ssid = [97, 98] @ replicate 30 0, bn_ssidlen = 2, bn_privacy = 1,
     bn_rssi = - 60, bn_dsconfig = 6, bn_period = 100, bn_infra = True, bn_rates = replicate 16 0, bn_strength = 50, bn_quality = 80,
     bn_ielen = 41, bn_ies = demo_bcn_body pairs @ replicate (MAX_IE_SZ - 41) 0\<rparr>"

definition demo_bcn_old :: bcn_net where
  "demo_bcn_old = \<lparr>bn_mac = [2, 0, 0, 0, 0, 1], bn_kind = 1, bn_ssid = [97, 98] @ replicate 30 0, bn_ssidlen = 2, bn_privacy = 1,
     bn_rssi = - 70, bn_dsconfig = 6, bn_period = 100, bn_infra = True, bn_rates = replicate 16 0, bn_strength = 50, bn_quality = 80,
     bn_ielen = 12, bn_ies = replicate MAX_IE_SZ 0, bn_info = \<lparr>b_protocol = 0, b_sec = no_sec, b_ht_cap = 0, b_ht_info = 0\<rparr>\<rparr>"

definition demo_bcn_net :: "u8 \<Rightarrow> bcn_net" where
  "demo_bcn_net pairs = update_network None True (demo_bss pairs) demo_bcn_old"

definition demo_bcn_after :: "u8 \<Rightarrow> bcn_net" where
  "demo_bcn_after pairs = (demo_bcn_net pairs)\<lparr>bn_info := \<lparr>b_protocol = 3,
     b_sec = (if pairs = 1 then \<lparr>group_cipher = 16, pairwise_cipher = 16, is_8021x = False\<rparr> else no_sec), b_ht_cap = 0, b_ht_info = 0\<rparr>\<rparr>"

lemma demo_bcn_collect:
  "collect_bss_info demo_bcn_phy (demo_bcn_frame 1) 65 = Some (Some (demo_bss 1, 0, 0))"
  "collect_bss_info demo_bcn_phy (demo_bcn_frame 5) 65 = Some (Some (demo_bss 5, 0, 0))"
  by code_simp+

lemma demo_bcn_parse:
  "rtw_get_bcn_info (demo_bcn_net 1) = Some (demo_bcn_after 1)" "rtw_get_bcn_info (demo_bcn_net 5) = Some (demo_bcn_after 5)"
  by code_simp+

lemma demo_bcn_parser:
  "bcn_ciphers (bn_ies (demo_bss 1)) 41 = Some (RTW_SUCCESS, \<lparr>group_cipher = 16, pairwise_cipher = 16, is_8021x = False\<rparr>)"
  "bcn_ciphers (bn_ies (demo_bss 5)) 41 = Some (RTW_FAIL, \<lparr>group_cipher = 16, pairwise_cipher = 0, is_8021x = False\<rparr>)"
  by code_simp+

lemma demo_bcn_reads:
  "rd (demo_bcn_frame p) 0 = Some 0x80" "rds (demo_bcn_frame p) 10 6 = rds (demo_bcn_frame p) 16 6"
  "drop (bn_ielen (demo_bss p)) (bn_ies demo_bcn_old) = replicate (MAX_IE_SZ - bn_ielen (demo_bss p)) 0"
  "bn_dsconfig (demo_bss p) = 6" "bn_ielen (demo_bss p) = 41" "b_sec (bn_info demo_bcn_old) = no_sec"
  "b_protocol (bn_info (demo_bcn_after p)) = ENCRYP_PROTOCOL_WPA2"
  by (simp_all add: demo_bcn_frame_def demo_bcn_old_def demo_bss_def demo_bcn_after_def rd_def rds_def buf_get_def
      ENCRYP_PROTOCOL_WPA2_def)



end
