(* ===== verification/Join.thy ===== *)
theory Join
  imports ApAssoc Wep BcnInfo
begin

text \<open>
  A station joins an access point (\<^verbatim>\<open>core/rtw_mlme_ext.c\<close>, \<^verbatim>\<open>core/rtw_wlan_util.c\<close>): it waits for a beacon, authenticates,
  associates, and is disconnected again. Requests are repeated by the link timer until a limit is reached.

  A received frame is the memory from its first byte on, with its length; \<open>None\<close> is an access outside of the frame or of a
  field. \<open>cl_mem\<close> tells whether memory for frames and events can be had. Hardware registers are left out.
\<close>

section \<open>State\<close>

definition WIFI_FW_NULL_STATE :: u32 where "WIFI_FW_NULL_STATE = 0"
definition WIFI_FW_STATION_STATE :: u32 where "WIFI_FW_STATION_STATE = 0x02"
definition WIFI_FW_ADHOC_STATE :: u32 where "WIFI_FW_ADHOC_STATE = 0x01"
definition WIFI_FW_LINKING_STATE :: u32 where
  "WIFI_FW_LINKING_STATE = WIFI_FW_AUTH_NULL OR WIFI_FW_AUTH_STATE OR WIFI_FW_AUTH_SUCCESS OR WIFI_FW_ASSOC_STATE"

definition REAUTH_TO :: nat where "REAUTH_TO = 300"
definition REASSOC_TO :: nat where "REASSOC_TO = 300"
definition REAUTH_LIMIT :: nat where "REAUTH_LIMIT = 4"
definition REASSOC_LIMIT :: nat where "REASSOC_LIMIT = 4"

text \<open>What the station keeps of a known station, here of its access point: the sequence number of its last management
  frame, the number of its frames, whether it uses HT, and the channel width, offset and protection towards it.\<close>

record peer =
  RxMgmtFrameSeqNum :: u16
  peer_rx_pkts :: nat
  peer_ht :: bool
  peer_bw40 :: bool
  peer_offset :: nat
  peer_rts :: bool
  peer_cts :: bool

text \<open>The events the station reports and the frames it sends, in order.\<close>

datatype join_event = TxFrame bytes | JoinRes int | DelSta bytes nat

record clnt =
  cl_state :: u32
  cl_mac :: bytes
  cl_net :: bss
  cl_cur :: bcn_net
  cl_peers :: "bytes \<Rightarrow> peer option"
  cl_mem :: bool
  auth_algo :: nat
  cl_auth_seq :: u16
  reauth_count :: nat
  reassoc_count :: nat
  cl_chg_txt :: bytes
  cl_iv :: u32
  cl_key_index :: u32
  cl_sec :: security_priv
  mgnt_seq :: u16
  link_timer :: "nat option"
  assoc_timer :: "nat option"
  cl_aid :: nat
  cl_capability :: u16
  slot_time :: nat
  short_preamble :: bool
  assoc_vendor :: nat
  bcn_interval :: nat
  tsf :: u64
  HT_enable :: bool
  HT_caps_enable :: bool
  HT_info_enable :: bool
  HT_caps :: bytes
  HT_info :: bytes
  ERP_enable :: bool
  ERP_IE :: u8
  WMM_enable :: bool
  WMM_param :: bytes
  cur_channel :: nat
  cur_bw40 :: bool
  cur_ch_offset :: nat
  bwmode_updated :: bool
  cl_vcs :: nat
  cl_vcs_type :: nat
  cur_wireless_mode :: nat
  reg_wireless_mode :: nat
  datarate :: bytes
  basicrate :: bytes
  cl_qos :: bool
  cl_ht :: bool
  rf_1r :: bool
  rf_1t1r :: bool
  cbw40_enable :: bool
  rx_stbc :: nat
  wifi_spec :: bool
  bt_1ant :: bool
  p2p_ies :: bytes
  assoc_req :: "bytes option"
  assoc_rsp :: "bytes option"
  cl_out :: "join_event list"

definition set_link_timer :: "nat \<Rightarrow> clnt \<Rightarrow> clnt" where "set_link_timer ms n = n\<lparr>link_timer := Some ms\<rparr>"
definition cancel_link_timer :: "clnt \<Rightarrow> clnt" where "cancel_link_timer n = n\<lparr>link_timer := None\<rparr>"

definition emit :: "join_event \<Rightarrow> clnt \<Rightarrow> clnt" where "emit e n = n\<lparr>cl_out := cl_out n @ [e]\<rparr>"

definition report_join_res :: "int \<Rightarrow> clnt \<Rightarrow> clnt" where
  "report_join_res res n = (if cl_mem n then emit (JoinRes res) n else n)"

definition report_del_sta_event :: "bytes \<Rightarrow> nat \<Rightarrow> clnt \<Rightarrow> clnt" where
  "report_del_sta_event mac reason n = (if cl_mem n then emit (DelSta mac reason) n else n)"

definition in_state :: "u32 \<Rightarrow> clnt \<Rightarrow> bool" where "in_state s n \<longleftrightarrow> cl_state n AND s \<noteq> 0"

definition net_cap :: "bss \<Rightarrow> u16" where "net_cap w = get_le16 (bn_ies w ! 10) (bn_ies w ! 11)"
definition net_interval :: "bss \<Rightarrow> nat" where "net_interval w = unat (get_le16 (bn_ies w ! 8) (bn_ies w ! 9))"

section \<open>Frames of the station\<close>

definition mgmt_hdr :: "u16 \<Rightarrow> bytes \<Rightarrow> bytes \<Rightarrow> bytes \<Rightarrow> u16 \<Rightarrow> bytes" where
  "mgmt_hdr fctrl a1 a2 a3 seq = put_le16 fctrl @ [0, 0] @ a1 @ a2 @ a3 @ put_le16 (0xfff0 AND push_bit 4 seq)"

text \<open>A frame to the access point takes the next sequence number.\<close>

definition to_bss :: "u16 \<Rightarrow> bytes \<Rightarrow> clnt \<Rightarrow> clnt" where
  "to_bss fctrl body n =
     emit (TxFrame (mgmt_hdr fctrl (bn_mac (cl_net n)) (cl_mac n) (bn_mac (cl_net n)) (mgnt_seq n) @ body))
       (n\<lparr>mgnt_seq := mgnt_seq n + 1\<rparr>)"

definition issue_deauth :: "u16 \<Rightarrow> clnt \<Rightarrow> clnt" where
  "issue_deauth reason n = (if cl_mem n then to_bss 0x00c0 (put_le16 reason) n else n)"

text \<open>\<^verbatim>\<open>issue_auth\<close> of a station: the third frame of the shared key handshake goes through \<^verbatim>\<open>rtw_wep_encrypt\<close>.\<close>

definition auth_fields :: "clnt \<Rightarrow> u16 \<Rightarrow> bytes" where
  "auth_fields n status = put_le16 (if auth_algo n = 1 then 1 else 0) @ put_le16 (cl_auth_seq n) @ put_le16 status"

definition wep_frame :: "security_priv \<Rightarrow> bytes \<Rightarrow> bytes option" where
  "wep_frame sec fr =
     do { xf \<leftarrow> rtw_wep_encrypt sec 0 \<lparr>attrib = \<lparr>hdrlen = 24, iv_len = 4, icv_len = 4, last_txcmdsz = length fr, nr_frags = 1,
              encrypt = WEP40, pkt_ta = [], pkt_ra = [], psta = None\<rparr>,
            buf_addr = Some (replicate TXDESC_OFFSET 0 @ fr), buf_base = 0\<rparr>;
          buf \<leftarrow> buf_addr xf;
          Some (drop TXDESC_OFFSET buf) }"

definition issue_auth :: "u16 \<Rightarrow> clnt \<Rightarrow> clnt option" where
  "issue_auth status n =
     (if \<not> cl_mem n then Some n
      else if cl_auth_seq n = 3 \<and> in_state WIFI_FW_AUTH_STATE n \<and> auth_algo n = 1 then
        do { let iv = put_le32 (cl_iv n OR push_bit 30 (cl_key_index n));
             fr \<leftarrow> wep_frame (cl_sec n)
               (mgmt_hdr 0x40b0 (bn_mac (cl_net n)) (cl_mac n) (bn_mac (cl_net n)) (mgnt_seq n)
                 @ iv @ auth_fields n status @ [16, 128] @ take 128 (cl_chg_txt n) @ replicate 4 0);
             Some (emit (TxFrame fr) (n\<lparr>mgnt_seq := mgnt_seq n + 1, cl_iv := cl_iv n + 1\<rparr>)) }
      else Some (to_bss 0x00b0 (auth_fields n status) n))"

section \<open>Rates\<close>

definition ratetbl_val_2wifirate :: "u8 \<Rightarrow> u8" where
  "ratetbl_val_2wifirate rate =
     (let i = unat (rate AND 0x7f) in if i < 12 then [2, 4, 11, 22, 12, 18, 24, 36, 48, 72, 96, 108] ! i else 0)"

definition is_basicrate :: "clnt \<Rightarrow> u8 \<Rightarrow> bool" where
  "is_basicrate n rate = (\<exists>v \<in> set (take 13 (basicrate n)). v \<noteq> 0xff \<and> v \<noteq> 0xfe \<and> rate = ratetbl_val_2wifirate v)"

fun ratetbl2rateset :: "clnt \<Rightarrow> bytes \<Rightarrow> bytes" where
  "ratetbl2rateset n [] = []"
| "ratetbl2rateset n (r # rs) =
     (if r = 0xff then [] else if r = 0xfe then ratetbl2rateset n rs
      else
        (let rate = ratetbl_val_2wifirate r
         in (if is_basicrate n rate then rate OR 0x80 else rate) # ratetbl2rateset n rs))"

definition get_rate_set :: "clnt \<Rightarrow> bytes" where "get_rate_set n = ratetbl2rateset n (take 13 (datarate n))"

text \<open>The rates of the network that the station supports, too.\<close>

definition joint_rates :: "clnt \<Rightarrow> bytes" where
  "joint_rates n =
     (let sta = (if cur_channel n = 14 then take 4 (get_rate_set n) else get_rate_set n)
      in filter (\<lambda>r. \<exists>s \<in> set sta. r OR 0x80 = s OR 0x80) (takeWhile (\<lambda>r. r \<noteq> 0) (take 16 (bn_rates (cl_net n)))))"

definition UpdateBrateTbl :: "bytes \<Rightarrow> bytes" where
  "UpdateBrateTbl rs = map (\<lambda>r. if r AND 0x7f \<in> {2, 4, 11, 22, 12, 24, 48} then r OR 0x80 else r) (take 16 rs) @ drop 16 rs"

definition cckrates_included :: "bytes \<Rightarrow> bool" where
  "cckrates_included rs = (\<exists>r \<in> set rs. r AND 0x7f \<in> {2, 4, 11, 22})"

definition cckratesonly_included :: "bytes \<Rightarrow> bool" where
  "cckratesonly_included rs = (\<forall>r \<in> set rs. r AND 0x7f \<in> {2, 4, 11, 22})"

text \<open>\<^verbatim>\<open>rtw_get_rateset_len\<close> ends at a zero or after 13 rates.\<close>

definition update_wireless_mode :: "clnt \<Rightarrow> clnt option" where
  "update_wireless_mode n =
     do { ratelen \<leftarrow> rtw_get_rateset_len (bn_rates (cl_net n));
          let rates = take ratelen (bn_rates (cl_net n));
          let ht = HT_enable n \<or> (HT_info_enable n \<and> HT_caps_enable n);
          let mode = (if cur_channel n > 14 then (if ht then 16 else 0) + WIRELESS_11A
            else (if ht then 8 else 0) + (if cckratesonly_included rates then WIRELESS_11B
              else if cckrates_included rates then WIRELESS_11BG else WIRELESS_11G));
          Some (n\<lparr>HT_enable := ht, cur_wireless_mode := mode AND reg_wireless_mode n\<rparr>) }"

definition update_capinfo :: "u16 \<Rightarrow> clnt \<Rightarrow> clnt" where
  "update_capinfo cap n =
     n\<lparr>short_preamble := bit cap 5,
       slot_time := (if bit cap 1 then 20
         else if cur_wireless_mode n AND (WIRELESS_11G OR 8) \<noteq> 0 then (if bit cap 10 then 9 else 20)
         else if cur_wireless_mode n AND (WIRELESS_11A OR 16) \<noteq> 0 then 9 else 20)\<rparr>"

definition decide_wait_for_beacon_timeout :: "nat \<Rightarrow> nat" where
  "decide_wait_for_beacon_timeout t = (if t * 4 < 6000 then 6000 else if t * 4 > 20000 then 20000 else t * 4)"

section \<open>Elements of the access point\<close>

definition MCS_rate_1R :: bytes where "MCS_rate_1R = [0xff, 0, 0, 0, 1, 0, 0, 0, 0, 0, 0, 0, 0, 0, 0, 0]"
definition MCS_rate_2R :: bytes where "MCS_rate_2R = [0xff, 0xff, 0, 0, 1, 0, 0, 0, 0, 0, 0, 0, 0, 0, 0, 0]"
definition RTW_WPA_OUI :: bytes where "RTW_WPA_OUI = [0x00, 0x50, 0xf2, 0x01]"
definition WMM_OUI :: bytes where "WMM_OUI = [0x00, 0x50, 0xf2, 0x02]"
definition WMM_PARA_OUI :: bytes where "WMM_PARA_OUI = [0x00, 0x50, 0xf2, 0x02, 0x01, 0x01]"
definition REALTEK_96B_IE :: bytes where "REALTEK_96B_IE = [0x00, 0xe0, 0x4c, 0x02, 0x01, 0x20]"

text \<open>The handlers get the memory \<open>b\<close>, the position \<open>i\<close> of the element and its length \<open>l\<close>. \<^verbatim>\<open>HT_caps\<close> has 26 bytes, \<^verbatim>\<open>HT_info\<close> 22.\<close>

definition WMM_param_handler :: "bytes \<Rightarrow> nat \<Rightarrow> clnt \<Rightarrow> clnt option" where
  "WMM_param_handler b i n =
     (if \<not> cl_qos n then Some (n\<lparr>WMM_enable := False\<rparr>)
      else do { p \<leftarrow> rds b (i + 8) 18; Some (n\<lparr>WMM_enable := True, WMM_param := p\<rparr>) })"

definition merge_ampdu :: "u8 \<Rightarrow> u8 \<Rightarrow> u8" where
  "merge_ampdu own peer = min (own AND 0x3) (peer AND 0x3) OR max (own AND 0x1c) (peer AND 0x1c)"

definition merge_ht_caps :: "bytes \<Rightarrow> bytes \<Rightarrow> bytes" where
  "merge_ht_caps own d =
     map (\<lambda>(i, c). if i < length d then (if i = 2 then merge_ampdu c (d ! i) else c AND d ! i) else c) (enumerate 0 own)"

definition HT_caps_handler :: "bytes \<Rightarrow> nat \<Rightarrow> nat \<Rightarrow> clnt \<Rightarrow> clnt option" where
  "HT_caps_handler b i l n =
     (if \<not> cl_ht n then Some n
      else if l > 26 then None
      else
        do { d \<leftarrow> rds b (i + 2) l;
             let hc = merge_ht_caps (HT_caps n) d;
             let mcs = map2 (AND) (buf_get 3 16 hc) (if rf_1r n then MCS_rate_1R else MCS_rate_2R);
             Some (n\<lparr>HT_caps_enable := True, HT_caps := buf_put 3 mcs hc\<rparr>) })"

definition HT_info_handler :: "bytes \<Rightarrow> nat \<Rightarrow> nat \<Rightarrow> clnt \<Rightarrow> clnt option" where
  "HT_info_handler b i l n =
     (if \<not> cl_ht n \<or> l > 22 then Some n
      else do { d \<leftarrow> rds b (i + 2) l; Some (n\<lparr>HT_info_enable := True, HT_info := buf_put 0 d (HT_info n)\<rparr>) })"

definition ERP_IE_handler :: "bytes \<Rightarrow> nat \<Rightarrow> nat \<Rightarrow> clnt \<Rightarrow> clnt option" where
  "ERP_IE_handler b i l n =
     (if l > 1 then Some n
      else
        do { d \<leftarrow> rds b (i + 2) l;
             Some (n\<lparr>ERP_enable := True, ERP_IE := (if d = [] then ERP_IE n else d ! 0)\<rparr>) })"

definition assoc_element :: "bytes \<Rightarrow> nat \<Rightarrow> u8 \<Rightarrow> nat \<Rightarrow> clnt \<Rightarrow> clnt option" where
  "assoc_element b i eid l n =
     (if eid = 221 then do { oui \<leftarrow> rds b (i + 2) 6; if oui = WMM_PARA_OUI then WMM_param_handler b i n else Some n }
      else if eid = 45 then HT_caps_handler b i l n
      else if eid = 61 then HT_info_handler b i l n
      else if eid = 42 then ERP_IE_handler b i l n
      else Some n)"

function assoc_elements :: "bytes \<Rightarrow> nat \<Rightarrow> nat \<Rightarrow> clnt \<Rightarrow> clnt option" where
  "assoc_elements b pkt_len i n =
     (if i < pkt_len then
        do { eid \<leftarrow> rd b i; l \<leftarrow> rd b (i + 1);
             n \<leftarrow> assoc_element b i eid (unat l) n;
             assoc_elements b pkt_len (i + (unat l + 2)) n }
      else Some n)"
  by pat_completeness auto
termination
  by (relation "measure (\<lambda>(b, pkt_len, i, n). pkt_len - i)") auto

declare assoc_elements.simps [simp del]

text \<open>\<^verbatim>\<open>check_assoc_AP\<close>: the vendor of the access point by its vendor elements, \<open>ral\<close> and \<open>epi\<close> are the flags for Ralink
  and Epigram.\<close>

definition vendor_of :: "bytes \<Rightarrow> nat option" where
  "vendor_of o3 =
     (if o3 = [0x00, 0x03, 0x7f] \<or> o3 = [0x00, 0x13, 0x74] then Some 5
      else if o3 = [0x00, 0x10, 0x18] \<or> o3 = [0x00, 0x0a, 0xf7] then Some 3
      else if o3 = [0x00, 0x50, 0x43] then Some 8
      else None)"

definition vendor_of2 :: "bytes \<Rightarrow> nat option" where
  "vendor_of2 o3 =
     (if o3 = [0x00, 0x40, 0x96] then Some 6
      else if o3 = [0x00, 0xe0, 0x4c] then Some 1
      else if o3 = [0x00, 0x0a, 0xf5] then Some 11
      else None)"

function vendor_loop :: "bytes \<Rightarrow> nat \<Rightarrow> nat \<Rightarrow> bool \<Rightarrow> bool \<Rightarrow> nat option" where
  "vendor_loop b n i ral epi =
     (if i < n then
        do { eid \<leftarrow> rd b i; l \<leftarrow> rd b (i + 1);
             if eid = 221 then
               do { o3 \<leftarrow> rds b (i + 2) 3;
                    case vendor_of o3 of Some v \<Rightarrow> Some v
                    | None \<Rightarrow>
                        (if o3 = [0x00, 0x0c, 0x43] then
                           (if ral then Some 4 else vendor_loop b n (i + (unat l + 2)) True epi)
                         else
                           (case vendor_of2 o3 of Some v \<Rightarrow> Some v
                            | None \<Rightarrow>
                                (if o3 = [0x00, 0x90, 0x4c] then
                                   (if ral then Some 16 else vendor_loop b n (i + (unat l + 2)) ral True)
                                 else vendor_loop b n (i + (unat l + 2)) ral epi))) }
             else vendor_loop b n (i + (unat l + 2)) ral epi }
      else Some (if ral then (if epi then 16 else 4) else 0))"
  by pat_completeness auto
termination
  by (relation "measure (\<lambda>(b, n, i, _). n - i)") auto

declare vendor_loop.simps [simp del]

definition check_assoc_AP :: "bytes \<Rightarrow> nat \<Rightarrow> nat option" where
  "check_assoc_AP b n = vendor_loop b n 12 False False"

text \<open>Whether the network uses TKIP; a match compares behind the element where it is short.\<close>

function tkip_loop :: "bytes \<Rightarrow> nat \<Rightarrow> nat \<Rightarrow> bool option" where
  "tkip_loop b n i =
     (if i < n then
        do { eid \<leftarrow> rd b i; l \<leftarrow> rd b (i + 1);
             hit \<leftarrow> (if eid = 221 then
                 do { o4 \<leftarrow> rds b (i + 2) 4; if o4 = RTW_WPA_OUI then map_option (\<lambda>c. c = [0x00, 0x50, 0xf2, 0x02]) (rds b (i + 14) 4) else Some False }
               else if eid = 48 then map_option (\<lambda>c. c = [0x00, 0x0f, 0xac, 0x02]) (rds b (i + 10) 4)
               else Some False);
             if hit then Some True else tkip_loop b n (i + (unat l + 2)) }
      else Some False)"
  by pat_completeness auto
termination
  by (relation "measure (\<lambda>(b, n, i). n - i)") auto

declare tkip_loop.simps [simp del]

definition is_ap_in_tkip :: "bss \<Rightarrow> bool option" where
  "is_ap_in_tkip w = (if bit (net_cap w) 4 then tkip_loop (bn_ies w) (bn_ielen w) 12 else Some False)"

section \<open>The association request\<close>

definition elem :: "nat \<Rightarrow> bytes \<Rightarrow> bytes" where "elem i d = [of_nat i, of_nat (length d)] @ d"

definition rate_elements :: "bytes \<Rightarrow> bytes" where
  "rate_elements rs = (if length rs > 8 then elem 1 (take 8 rs) @ elem 50 (drop 8 rs) else elem 1 rs)"

text \<open>What the station makes of the HT capabilities of the network: width, spatial multiplexing power save, STBC and rates.\<close>

definition own_ht_caps :: "clnt \<Rightarrow> bytes \<Rightarrow> bytes" where
  "own_ht_caps n c =
     (let info = get_le16 (c ! 0) (c ! 1);
          info = (if cbw40_enable n then info OR 0x0002 else info AND NOT 0x0042);
          info = info OR 0x000c;
          info = (if rf_1t1r n then (if rx_stbc n \<noteq> 0 then info OR 0x0100 else info)
            else if rx_stbc n = 3 \<or> (cur_wireless_mode n AND 8 \<noteq> 0 \<and> rx_stbc n = 1)
                \<or> (cur_wireless_mode n AND 16 \<noteq> 0 \<and> rx_stbc n = 2) \<or> wifi_spec n
            then info OR 0x0200 else info);
          c = buf_put 3 (if rf_1t1r n then MCS_rate_1R else MCS_rate_2R) (buf_put 0 (put_le16 info) c)
      in if bt_1ant n then c[2 := c ! 2 AND NOT 0x3] else c)"

definition ht_element :: "clnt \<Rightarrow> (bytes \<times> clnt) option" where
  "ht_element n =
     (if \<not> cl_ht n then Some ([], n)
      else
        do { r \<leftarrow> rtw_get_ie (drop 12 (bn_ies (cl_net n))) 45 (int (bn_ielen (cl_net n)) - 12);
             tkip \<leftarrow> is_ap_in_tkip (cl_net n);
             case r of None \<Rightarrow> Some ([], n)
             | Some (p, l) \<Rightarrow>
                 (if tkip then Some ([], n)
                  else if l > 26 then None
                  else
                    do { c \<leftarrow> rds (bn_ies (cl_net n)) (12 + p + 2) 26;
                         let own = own_ht_caps n c;
                         Some (elem 45 (take l own), n\<lparr>HT_caps := own\<rparr>) }) })"

text \<open>The vendor elements of the network that the request repeats. The length byte of a WPS element is set to 14 in the
  stored network, and the loop goes on from there.\<close>

function vendor_elements :: "bool \<Rightarrow> bytes \<Rightarrow> nat \<Rightarrow> nat \<Rightarrow> (bytes \<times> bytes) option" where
  "vendor_elements spec b n i =
     (if i < n then
        do { eid \<leftarrow> rd b i; l \<leftarrow> rd b (i + 1);
             if eid = 221 then
               do { o4 \<leftarrow> rds b (i + 2) 4;
                    if o4 = RTW_WPA_OUI \<or> o4 = WMM_OUI \<or> o4 = WPS_OUI then
                      (let l = (if \<not> spec \<and> o4 = WPS_OUI then 14 else l); b = b[i + 1 := l] in
                       do { d \<leftarrow> rds b (i + 2) (unat l);
                            (e, b) \<leftarrow> vendor_elements spec b n (i + (unat l + 2));
                            Some (elem 221 d @ e, b) })
                    else vendor_elements spec b n (i + (unat l + 2)) }
             else vendor_elements spec b n (i + (unat l + 2)) }
      else Some ([], b))"
  by pat_completeness auto
termination
  by (relation "measure (\<lambda>(spec, b, n, i). n - i)") auto

declare vendor_elements.simps [simp del]

definition assocreq_body :: "clnt \<Rightarrow> (bytes \<times> clnt) option" where
  "assocreq_body n =
     (let w = cl_net n in
      do { nm \<leftarrow> rds (bn_ssid w) 0 (bn_ssidlen w);
           rsn \<leftarrow> rtw_get_ie (drop 12 (bn_ies w)) 48 (int (bn_ielen w) - 12);
           r \<leftarrow> (case rsn of None \<Rightarrow> Some []
             | Some (p, l) \<Rightarrow> map_option (elem 48) (rds (bn_ies w) (12 + p + 2) l));
           (ht, n) \<leftarrow> ht_element n;
           (v, b) \<leftarrow> vendor_elements (wifi_spec n) (bn_ies w) (bn_ielen w) 12;
           Some (buf_get 10 2 (bn_ies w) @ [3, 0] @ elem 0 nm @ rate_elements (joint_rates n) @ r @ ht @ v
               @ (if assoc_vendor n = 1 then elem 221 REALTEK_96B_IE else []) @ p2p_ies n,
             n\<lparr>cl_net := w\<lparr>bn_ies := b\<rparr>\<rparr>) })"

text \<open>The sequence number is taken before the rates are known; without a joint rate nothing is sent.\<close>

definition issue_assocreq :: "clnt \<Rightarrow> clnt option" where
  "issue_assocreq n =
     (if \<not> cl_mem n then Some (n\<lparr>assoc_req := None\<rparr>)
      else if joint_rates n = [] then Some (n\<lparr>mgnt_seq := mgnt_seq n + 1, assoc_req := None\<rparr>)
      else
        do { (body, m) \<leftarrow> assocreq_body n;
             let fr = mgmt_hdr 0 (bn_mac (cl_net n)) (cl_mac n) (bn_mac (cl_net n)) (mgnt_seq n) @ body;
             Some (emit (TxFrame fr) (m\<lparr>mgnt_seq := mgnt_seq n + 1, assoc_req := Some fr\<rparr>)) })"

section \<open>Steps\<close>

definition start_clnt_join :: "clnt \<Rightarrow> clnt option" where
  "start_clnt_join n =
     do { n \<leftarrow> update_wireless_mode (n\<lparr>cur_channel := bn_dsconfig (cl_net n) mod 256, bcn_interval := net_interval (cl_net n)\<rparr>);
          let cap = net_cap (cl_net n);
          let n = update_capinfo cap n;
          Some (if bit cap 0 then
             (let t = decide_wait_for_beacon_timeout (bcn_interval n) in
              (set_link_timer t n)\<lparr>assoc_timer := Some (REAUTH_TO * REAUTH_LIMIT + REASSOC_TO * REASSOC_LIMIT + t),
                cl_state := WIFI_FW_AUTH_NULL OR WIFI_FW_STATION_STATE\<rparr>)
           else if bit cap 1 then report_join_res 1 (n\<lparr>cl_state := WIFI_FW_ADHOC_STATE\<rparr>)
           else n) }"

definition start_clnt_auth :: "clnt \<Rightarrow> clnt option" where
  "start_clnt_auth n =
     (let n = cancel_link_timer n;
          n = n\<lparr>cl_state := cl_state n AND NOT WIFI_FW_AUTH_NULL OR WIFI_FW_AUTH_STATE, cl_auth_seq := 1,
                reauth_count := 0, reassoc_count := 0\<rparr>
      in map_option (set_link_timer REAUTH_TO) (issue_auth 0 (issue_deauth 3 n)))"

definition start_clnt_assoc :: "clnt \<Rightarrow> clnt option" where
  "start_clnt_assoc n =
     (let n = cancel_link_timer n;
          n = n\<lparr>cl_state := cl_state n AND NOT (WIFI_FW_AUTH_NULL OR WIFI_FW_AUTH_STATE) OR (WIFI_FW_AUTH_SUCCESS OR WIFI_FW_ASSOC_STATE)\<rparr>
      in map_option (set_link_timer REASSOC_TO) (issue_assocreq n))"

text \<open>The first beacon of the network fills the record of the network and starts the authentication.\<close>

definition update_TSF :: "bytes \<Rightarrow> clnt \<Rightarrow> clnt option" where
  "update_TSF b n = do { l \<leftarrow> rds b 24 4; h \<leftarrow> rds b 28 4;
     Some (n\<lparr>tsf := push_bit 32 (ucast (get_le32 h)) OR ucast (get_le32 l)\<rparr>) }"

definition OnBeacon_join :: "rx_phy \<Rightarrow> (nat \<times> nat) option \<Rightarrow> bytes \<Rightarrow> nat \<Rightarrow> clnt \<Rightarrow> clnt option" where
  "OnBeacon_join rx linked b len n =
     do { r \<leftarrow> (if cl_mem n then collect_bss_info rx b len else Some None);
          w \<leftarrow> (case r of None \<Rightarrow> Some (cl_cur n) | Some (s, _) \<Rightarrow> rtw_get_bcn_info (update_network linked True s (cl_cur n)));
          v \<leftarrow> check_assoc_AP (drop 24 b) (len - 24);
          n \<leftarrow> update_TSF b (n\<lparr>cl_cur := w, assoc_vendor := v\<rparr>);
          start_clnt_auth n }"

definition OnAuthClient :: "bytes \<Rightarrow> nat \<Rightarrow> clnt \<Rightarrow> (rtw_status \<times> clnt) option" where
  "OnAuthClient b len n =
     do { da \<leftarrow> rds b 4 6;
          if da \<noteq> cl_mac n \<or> \<not> in_state WIFI_FW_AUTH_STATE n then Some (RTW_SUCCESS, n)
          else
            do { fc \<leftarrow> rd b 1;
                 let off = (if bit fc 6 then 4 else 0);
                 seq \<leftarrow> rd_le16 b (24 + off + 2);
                 status \<leftarrow> rd_le16 b (24 + off + 4);
                 if status \<noteq> 0 then
                   Some (RTW_FAIL, set_link_timer 1
                     (if status = 13 then n\<lparr>auth_algo := (if auth_algo n = 1 then 0 else 1)\<rparr> else n))
                 else if seq = 2 \<and> auth_algo n = 1 then
                   do { r \<leftarrow> rtw_get_ie (drop 30 b) 16 (int len - 30);
                        case r of None \<Rightarrow> Some (RTW_FAIL, n)
                        | Some (p, l) \<Rightarrow>
                            (if l > 128 then None
                             else
                               do { txt \<leftarrow> rds b (30 + p + 2) l;
                                    n \<leftarrow> issue_auth 0 (n\<lparr>cl_chg_txt := buf_put 0 txt (cl_chg_txt n), cl_auth_seq := 3\<rparr>);
                                    Some (RTW_SUCCESS, set_link_timer REAUTH_TO n) }) }
                 else if seq = 2 \<or> (seq = 4 \<and> auth_algo n = 1) then
                   map_option (Pair RTW_SUCCESS) (start_clnt_assoc n)
                 else Some (RTW_FAIL, n) } }"

definition OnAssocRsp :: "bytes \<Rightarrow> nat \<Rightarrow> clnt \<Rightarrow> clnt option" where
  "OnAssocRsp b pkt_len n =
     do { da \<leftarrow> rds b 4 6;
          if da \<noteq> cl_mac n \<or> \<not> in_state (WIFI_FW_AUTH_SUCCESS OR WIFI_FW_ASSOC_STATE) n \<or> in_state WIFI_FW_ASSOC_SUCCESS n then Some n
          else
            do { let n = cancel_link_timer n;
                 status \<leftarrow> rd_le16 b 26;
                 if status > 0 then Some (report_join_res (-4) (n\<lparr>cl_state := WIFI_FW_NULL_STATE, assoc_rsp := None\<rparr>))
                 else
                   do { cap \<leftarrow> rd_le16 b 24;
                        a \<leftarrow> rd_le16 b 28;
                        let res = a mod 0x4000;
                        n \<leftarrow> assoc_elements b pkt_len 30 (n\<lparr>cl_capability := of_nat cap, slot_time := (if bit (of_nat cap :: u16) 10 then 9 else 20), cl_aid := res\<rparr>);
                        rsp \<leftarrow> rds b 0 pkt_len;
                        let n = n\<lparr>cl_state := cl_state n AND NOT WIFI_FW_ASSOC_STATE OR WIFI_FW_ASSOC_SUCCESS,
                          cl_net := (cl_net n)\<lparr>bn_rates := UpdateBrateTbl (bn_rates (cl_net n))\<rparr>,
                          assoc_rsp := (if res > 0 \<and> cl_mem n then Some rsp else None)\<rparr>;
                        Some (report_join_res (int res) n) } } }"

text \<open>Disconnection by the access point, and the link timer.\<close>

definition receive_disconnect :: "bytes \<Rightarrow> nat \<Rightarrow> clnt \<Rightarrow> clnt" where
  "receive_disconnect mac reason n =
     (if mac \<noteq> bn_mac (cl_net n) \<or> cl_state n AND 0x03 \<noteq> WIFI_FW_STATION_STATE then n
      else if in_state WIFI_FW_ASSOC_SUCCESS n then report_del_sta_event mac reason (n\<lparr>cl_state := WIFI_FW_NULL_STATE\<rparr>)
      else if in_state WIFI_FW_LINKING_STATE n then report_join_res (-2) (n\<lparr>cl_state := WIFI_FW_NULL_STATE\<rparr>)
      else n)"

definition OnDeAuth :: "bytes \<Rightarrow> clnt \<Rightarrow> clnt option" where
  "OnDeAuth b n =
     do { a3 \<leftarrow> rds b 16 6;
          if a3 \<noteq> bn_mac (cl_net n) then Some n
          else do { reason \<leftarrow> rd_le16 b 24; Some (receive_disconnect a3 reason n) } }"

definition link_timer_hdl :: "clnt \<Rightarrow> clnt option" where
  "link_timer_hdl n =
     (let n = cancel_link_timer n in
      if in_state WIFI_FW_AUTH_NULL n then Some (report_join_res (-3) (n\<lparr>cl_state := WIFI_FW_NULL_STATE\<rparr>))
      else if in_state WIFI_FW_AUTH_STATE n then
        (let n = n\<lparr>reauth_count := reauth_count n + 1\<rparr> in
         if reauth_count n > REAUTH_LIMIT then Some (report_join_res (-1) (n\<lparr>cl_state := 0\<rparr>))
         else map_option (set_link_timer REAUTH_TO) (issue_auth 0 (n\<lparr>cl_auth_seq := 1\<rparr>)))
      else if in_state WIFI_FW_ASSOC_STATE n then
        (let n = n\<lparr>reassoc_count := reassoc_count n + 1\<rparr> in
         if reassoc_count n > REASSOC_LIMIT then Some (report_join_res (-2) (n\<lparr>cl_state := WIFI_FW_NULL_STATE\<rparr>))
         else map_option (set_link_timer REASSOC_TO) (issue_assocreq n))
      else Some n)"

section \<open>Beacons of the access point\<close>

text \<open>Channel width and offset by the first byte behind the primary channel: 1 the upper, 2 the lower part.\<close>

definition ht_width :: "bool \<Rightarrow> u8 \<Rightarrow> bool \<times> nat" where
  "ht_width cbw40 i = (if cbw40 \<and> bit i 2 then (True, if i AND 3 = 1 then 1 else if i AND 3 = 3 then 2 else 0) else (False, 0))"

definition upd_peer :: "bytes \<Rightarrow> (peer \<Rightarrow> peer) \<Rightarrow> clnt \<Rightarrow> clnt" where
  "upd_peer a h n = n\<lparr>cl_peers := (\<lambda>x. if x = a then map_option h (cl_peers n x) else cl_peers n x)\<rparr>"

definition bwmode_update_check :: "bytes \<Rightarrow> nat \<Rightarrow> nat \<Rightarrow> clnt \<Rightarrow> clnt option" where
  "bwmode_update_check b i l n =
     (if \<not> cl_ht n \<or> l > 22 then Some n
      else
        do { info \<leftarrow> rd b (i + 3);
             let (bw, off) = ht_width (cbw40_enable n) info;
             if bw \<noteq> cur_bw40 n \<or> off \<noteq> cur_ch_offset n then
               do { n \<leftarrow> HT_info_handler b i l (n\<lparr>bwmode_updated := True, cur_bw40 := bw, cur_ch_offset := off\<rparr>);
                    Some (upd_peer (bn_mac (cl_net n)) (\<lambda>p. if peer_ht p then p\<lparr>peer_bw40 := bw, peer_offset := off\<rparr>
                      else p\<lparr>peer_bw40 := False, peer_offset := 0\<rparr>) n) }
             else Some (n\<lparr>bwmode_updated := False\<rparr>) })"

definition sta_VCS_update :: "bytes \<Rightarrow> clnt \<Rightarrow> clnt" where
  "sta_VCS_update a n =
     (let on = (\<lambda>p. p\<lparr>peer_rts := (cl_vcs_type n = 1), peer_cts := (cl_vcs_type n \<noteq> 1)\<rparr>);
          off = (\<lambda>p. p\<lparr>peer_rts := False, peer_cts := False\<rparr>)
      in upd_peer a (if cl_vcs n = 0 then off else if cl_vcs n = 1 then on
           else if ERP_enable n \<and> bit (ERP_IE n) 1 then on else off) n)"

function beacon_elements_loop :: "bytes \<Rightarrow> nat \<Rightarrow> bytes \<Rightarrow> nat \<Rightarrow> clnt \<Rightarrow> clnt option" where
  "beacon_elements_loop b len a i n =
     (if i < len then
        do { eid \<leftarrow> rd b (36 + i); l \<leftarrow> rd b (36 + i + 1);
             n \<leftarrow> (if eid = 61 then bwmode_update_check b (36 + i) (unat l) n
                  else if eid = 42 then map_option (sta_VCS_update a) (ERP_IE_handler b (36 + i) (unat l) n)
                  else Some n);
             beacon_elements_loop b len a (i + (unat l + 2)) n }
      else Some n)"
  by pat_completeness auto
termination
  by (relation "measure (\<lambda>(b, len, a, i, n). len - i)") auto

declare beacon_elements_loop.simps [simp del]

text \<open>\<^verbatim>\<open>update_beacon_info\<close>, with the address of the station whose protection it sets; the length is an unsigned number.\<close>

definition update_beacon_info :: "bytes \<Rightarrow> nat \<Rightarrow> bytes \<Rightarrow> clnt \<Rightarrow> clnt option" where
  "update_beacon_info b pkt_len a n =
     beacon_elements_loop b (if pkt_len < 36 then pkt_len + 2 ^ 32 - 36 else pkt_len - 36) a 0 n"

text \<open>The extended rates of some access points claim the first byte of the HT capabilities (\<open>0x2d\<close>): their length is
  corrected in the frame.\<close>

definition fix_rates_element :: "bytes \<Rightarrow> nat \<Rightarrow> bytes option" where
  "fix_rates_element b len =
     do { r \<leftarrow> elem_at 36 50 b len;
          case r of
            Some (p, Suc l) \<Rightarrow>
              do { x \<leftarrow> rd b (p + 2 + l);
                   if x \<noteq> 0x2d then Some b
                   else do { y \<leftarrow> rd b (p + 3 + l); Some (if y \<noteq> 0x2d then b[p + 1 := of_nat l] else b) } }
          | _ \<Rightarrow> Some b }"

text \<open>\<^verbatim>\<open>OnBeacon\<close> of a station of an infrastructure network; \<open>scan\<close> tells whether a site survey runs, which only records
  the network. \<open>OnBeacon_fixed\<close> works on the corrected frame.\<close>

definition OnBeacon_fixed :: "bool \<Rightarrow> rx_phy \<Rightarrow> (nat \<times> nat) option \<Rightarrow> bytes \<Rightarrow> nat \<Rightarrow> clnt \<Rightarrow> clnt option" where
  "OnBeacon_fixed scan rx linked b len n =
     (if scan then Some n
      else
        do { a3 \<leftarrow> rds b 16 6;
             if a3 \<noteq> bn_mac (cl_net n) then Some n
             else if in_state WIFI_FW_AUTH_NULL n then OnBeacon_join rx linked b len n
             else if cl_state n AND 0x03 = WIFI_FW_STATION_STATE \<and> in_state WIFI_FW_ASSOC_SUCCESS n then
               do { a2 \<leftarrow> rds b 10 6;
                    case cl_peers n a2 of None \<Rightarrow> Some n
                    | Some p \<Rightarrow>
                        do { (ok, w) \<leftarrow> rtw_check_bcn_info True (cl_mem n) (cur_channel n) b len (cl_cur n);
                             let n = n\<lparr>cl_cur := w\<rparr>;
                             if \<not> ok then Some (receive_disconnect (bn_mac (cl_net n)) 65535 n)
                             else if peer_rx_pkts p mod 16 = 0 then update_beacon_info b len a2 n
                             else Some n } }
             else Some n })"

definition OnBeacon :: "bool \<Rightarrow> rx_phy \<Rightarrow> (nat \<times> nat) option \<Rightarrow> bytes \<Rightarrow> nat \<Rightarrow> clnt \<Rightarrow> clnt option" where
  "OnBeacon scan rx linked b len n = do { b \<leftarrow> fix_rates_element b len; OnBeacon_fixed scan rx linked b len n }"

section \<open>Commands\<close>

text \<open>\<^verbatim>\<open>issue_deauth_ex\<close> with up to \<open>k\<close> attempts; \<open>acked i\<close> tells whether the attempt before the last \<open>i\<close> was acknowledged.\<close>

primrec issue_deauth_ex :: "(nat \<Rightarrow> bool) \<Rightarrow> u16 \<Rightarrow> nat \<Rightarrow> clnt \<Rightarrow> clnt" where
  "issue_deauth_ex acked reason 0 n = n"
| "issue_deauth_ex acked reason (Suc i) n =
     (let m = issue_deauth reason n in if cl_mem n \<and> acked i then m else issue_deauth_ex acked reason i m)"

definition join_element :: "bytes \<Rightarrow> nat \<Rightarrow> u8 \<Rightarrow> clnt \<Rightarrow> clnt option" where
  "join_element b i eid n =
     (if eid = 221 then do { o4 \<leftarrow> rds b (i + 2) 4; Some (if o4 = WMM_OUI then n\<lparr>WMM_enable := True\<rparr> else n) }
      else if eid = 45 then Some (n\<lparr>HT_caps_enable := True\<rparr>)
      else if eid = 61 then
        do { info \<leftarrow> rd b (i + 3);
             let (bw, off) = ht_width (cbw40_enable n) info;
             let n = n\<lparr>HT_info_enable := True\<rparr>;
             Some (if bw then n\<lparr>cur_bw40 := True, cur_ch_offset := off\<rparr> else n) }
      else Some n)"

function join_elements :: "bytes \<Rightarrow> nat \<Rightarrow> nat \<Rightarrow> clnt \<Rightarrow> clnt option" where
  "join_elements b len i n =
     (if i < len then
        do { eid \<leftarrow> rd b i; l \<leftarrow> rd b (i + 1);
             n \<leftarrow> join_element b i eid n;
             join_elements b len (i + (unat l + 2)) n }
      else Some n)"
  by pat_completeness auto
termination
  by (relation "measure (\<lambda>(b, len, i, n). len - i)") auto

declare join_elements.simps [simp del]

text \<open>\<^verbatim>\<open>join_cmd_hdl\<close> for the network \<open>w\<close>: its elements replace as many of the old ones. With too many of them it gives up
  half way, the result is whether it went on.\<close>

definition join_cmd_hdl :: "(nat \<Rightarrow> bool) \<Rightarrow> bss \<Rightarrow> clnt \<Rightarrow> (bool \<times> clnt) option" where
  "join_cmd_hdl acked w n =
     (let n = (if in_state WIFI_FW_ASSOC_SUCCESS n
        then cancel_link_timer
          ((if in_state WIFI_FW_STATION_STATE n then issue_deauth_ex acked 3 5 n else n)\<lparr>cl_state := WIFI_FW_NULL_STATE\<rparr>)
        else n);
          n = n\<lparr>cur_bw40 := False, cur_ch_offset := 0, ERP_enable := False, WMM_enable := False, HT_enable := False,
            HT_caps_enable := False, HT_info_enable := False, bwmode_updated := False, cl_net := w\<lparr>bn_ies := bn_ies (cl_net n)\<rparr>\<rparr>
      in if bn_ielen w > MAX_IE_SZ then Some (False, n)
         else
           do { d \<leftarrow> rds (bn_ies w) 0 (bn_ielen w);
                let ies = d @ drop (bn_ielen w) (bn_ies (cl_net n));
                n \<leftarrow> join_elements ies (bn_ielen w) 12 (n\<lparr>cl_net := (cl_net n)\<lparr>bn_ies := ies\<rparr>\<rparr>);
                map_option (Pair True) (start_clnt_join (cancel_link_timer n)) })"

definition is_client_associated_to_ap :: "clnt \<Rightarrow> bool" where
  "is_client_associated_to_ap n \<longleftrightarrow> in_state WIFI_FW_ASSOC_SUCCESS n \<and> cl_state n AND 0x03 = WIFI_FW_STATION_STATE"

definition disconnect_hdl :: "(nat \<Rightarrow> bool) \<Rightarrow> nat \<Rightarrow> clnt \<Rightarrow> clnt" where
  "disconnect_hdl acked timeout_ms n =
     cancel_link_timer ((if is_client_associated_to_ap n then issue_deauth_ex acked 3 (max 1 (timeout_ms div 100)) n else n)
       \<lparr>cl_state := WIFI_FW_NULL_STATE, cur_bw40 := False, cur_ch_offset := 0\<rparr>)"

section \<open>Dispatch\<close>

text \<open>The handlers of a station by the subtype of the frame. The frames of an access point (association requests), probe
  requests and responses and action frames do not touch the state modelled here.\<close>

record rx_context =
  rx_scan :: bool
  rx_phy_info :: rx_phy
  rx_linked :: "(nat \<times> nat) option"
  rx_seq :: u16

definition mlme_sta_tbl :: "nat \<Rightarrow> rx_context \<Rightarrow> bytes \<Rightarrow> nat \<Rightarrow> clnt \<Rightarrow> clnt option" where
  "mlme_sta_tbl index cx b len n =
     (if index = 1 \<or> index = 3 then OnAssocRsp b len n
      else if index = 8 then OnBeacon (rx_scan cx) (rx_phy_info cx) (rx_linked cx) b len n
      else if index = 10 \<or> index = 12 then OnDeAuth b n
      else if index = 11 then map_option snd (OnAuthClient b len n)
      else Some n)"

text \<open>\<^verbatim>\<open>mgt_dispatcher\<close>: only frames to the station or to all, and no repetition of the last frame of a known station.\<close>

definition mgt_dispatcher :: "rx_context \<Rightarrow> bytes \<Rightarrow> nat \<Rightarrow> clnt \<Rightarrow> clnt option" where
  "mgt_dispatcher cx b len n =
     do { f0 \<leftarrow> rd b 0;
          f1 \<leftarrow> rd b 1;
          a1 \<leftarrow> rds b 4 6;
          a2 \<leftarrow> rds b 10 6;
          let index = unat (drop_bit 4 f0);
          if f0 AND 0x0c \<noteq> 0 \<or> (a1 \<noteq> cl_mac n \<and> a1 \<noteq> replicate 6 0xff) \<or> index > 13 then Some n
          else
            (case cl_peers n a2 of None \<Rightarrow> mlme_sta_tbl index cx b len n
             | Some p \<Rightarrow>
                 (if bit f1 3 \<and> rx_seq cx = RxMgmtFrameSeqNum p then Some n
                  else mlme_sta_tbl index cx b len (upd_peer a2 (\<lambda>p. p\<lparr>RxMgmtFrameSeqNum := rx_seq cx\<rparr>) n))) }"

end
