(* ===== verification/JoinRun.thy ===== *)
theory JoinRun
  imports Join "HOL-Library.Sublist"
begin

text \<open>
  Runs of the join: commands, received frames and timeouts in any order. A successful result needs the whole handshake, a
  join in progress always has its timer armed, and without answers it ends with a failure after a bounded number of
  requests.
\<close>

section \<open>Runs\<close>

datatype join_input =
    Join "nat \<Rightarrow> bool" bss
  | Frame rx_context bytes nat
  | LinkTimeout
  | Disconnect "nat \<Rightarrow> bool" nat

text \<open>The timer only fires when it is armed.\<close>

definition join_step :: "join_input \<Rightarrow> clnt \<Rightarrow> clnt option" where
  "join_step i n =
     (case i of Join acked w \<Rightarrow> map_option snd (join_cmd_hdl acked w n)
      | Frame cx b len \<Rightarrow> mgt_dispatcher cx b len n
      | LinkTimeout \<Rightarrow> (if link_timer n = None then Some n else link_timer_hdl n)
      | Disconnect acked ms \<Rightarrow> Some (disconnect_hdl acked ms n))"

fun join_run :: "join_input list \<Rightarrow> clnt \<Rightarrow> clnt option" where
  "join_run [] n = Some n"
| "join_run (i # is) n = do { n \<leftarrow> join_step i n; join_run is n }"

lemma join_run_snoc: "join_run (is @ [i]) n = do { m \<leftarrow> join_run is n; join_step i m }"
  by (induction "is" arbitrary: n) (auto split: Option.bind_splits)

section \<open>What the parts of a step change\<close>

text \<open>The results reported so far, and the fields the state machine rests on.\<close>

definition results :: "clnt \<Rightarrow> int list" where
  "results n = concat (map (\<lambda>e. case e of JoinRes r \<Rightarrow> [r] | _ \<Rightarrow> []) (cl_out n))"

definition core :: "clnt \<Rightarrow> u32 \<times> bytes \<times> bytes \<times> bool \<times> nat option \<times> int list \<times> nat \<times> nat" where
  "core n = (cl_state n, cl_mac n, bn_mac (cl_net n), cl_mem n, link_timer n, results n, reauth_count n, reassoc_count n)"

lemma results_set: "JoinRes r \<in> set (cl_out n) \<longleftrightarrow> r \<in> set (results n)"
  by (auto simp: results_def split: join_event.splits)

lemma results_emit [simp]:
  "results (emit (TxFrame f) n) = results n" "results (emit (DelSta a r) n) = results n"
  "results (emit (JoinRes x) n) = results n @ [x]"
  by (simp_all add: results_def emit_def)

lemma emit_fields [simp]:
  "cl_state (emit e n) = cl_state n" "cl_mac (emit e n) = cl_mac n" "cl_net (emit e n) = cl_net n" "cl_mem (emit e n) = cl_mem n"
  "link_timer (emit e n) = link_timer n" "reauth_count (emit e n) = reauth_count n" "reassoc_count (emit e n) = reassoc_count n"
  by (simp_all add: emit_def)

lemma results_cong: "cl_out m = cl_out n \<Longrightarrow> results m = results n"
  by (simp add: results_def)

lemma results_state: "results (n\<lparr>cl_state := s, link_timer := t\<rparr>) = results n"
  by (simp add: results_def)

lemma core_tx [simp]: "core (emit (TxFrame f) n) = core n"
  by (simp add: core_def)

lemma core_upd [simp]:
  "core (n\<lparr>mgnt_seq := a1\<rparr>) = core n" "core (n\<lparr>cl_iv := a2\<rparr>) = core n" "core (n\<lparr>cl_auth_seq := a3\<rparr>) = core n"
  "core (n\<lparr>assoc_req := a4\<rparr>) = core n" "core (n\<lparr>assoc_rsp := a4\<rparr>) = core n" "core (n\<lparr>HT_caps := a5\<rparr>) = core n"
  "core (n\<lparr>cl_net := (cl_net n)\<lparr>bn_ies := a5\<rparr>\<rparr>) = core n" "core (n\<lparr>cl_net := (cl_net n)\<lparr>bn_rates := a5\<rparr>\<rparr>) = core n"
  "core (n\<lparr>cl_chg_txt := a5\<rparr>) = core n" "core (n\<lparr>auth_algo := a6\<rparr>) = core n" "core (n\<lparr>cl_capability := a1\<rparr>) = core n"
  "core (n\<lparr>slot_time := a6\<rparr>) = core n" "core (n\<lparr>cl_aid := a6\<rparr>) = core n" "core (n\<lparr>cl_cur := a7\<rparr>) = core n"
  "core (n\<lparr>assoc_vendor := a6\<rparr>) = core n" "core (n\<lparr>tsf := a8\<rparr>) = core n" "core (n\<lparr>cl_peers := a9\<rparr>) = core n"
  "core (n\<lparr>WMM_enable := b1\<rparr>) = core n" "core (n\<lparr>WMM_param := a5\<rparr>) = core n" "core (n\<lparr>HT_caps_enable := b1\<rparr>) = core n"
  "core (n\<lparr>HT_info_enable := b1\<rparr>) = core n" "core (n\<lparr>HT_info := a5\<rparr>) = core n" "core (n\<lparr>ERP_enable := b1\<rparr>) = core n"
  "core (n\<lparr>ERP_IE := e1\<rparr>) = core n" "core (n\<lparr>bwmode_updated := b1\<rparr>) = core n" "core (n\<lparr>cur_bw40 := b1\<rparr>) = core n"
  "core (n\<lparr>cur_ch_offset := a6\<rparr>) = core n" "core (n\<lparr>HT_enable := b1\<rparr>) = core n" "core (n\<lparr>cur_channel := a6\<rparr>) = core n"
  "core (n\<lparr>bcn_interval := a6\<rparr>) = core n" "core (n\<lparr>cur_wireless_mode := a6\<rparr>) = core n" "core (n\<lparr>short_preamble := b1\<rparr>) = core n"
  "core (n\<lparr>assoc_timer := t1\<rparr>) = core n"
  by (simp_all add: core_def results_def)

lemma core_to_bss [simp]: "core (to_bss f body n) = core n"
  by (simp add: to_bss_def)

lemma core_issue_deauth [simp]: "core (issue_deauth r n) = core n"
  by (simp add: issue_deauth_def)

lemma core_issue_deauth_ex [simp]: "core (issue_deauth_ex acked r k n) = core n"
  by (induction k arbitrary: n) (simp_all add: Let_def)

lemma core_issue_auth: "issue_auth st n = Some m \<Longrightarrow> core m = core n"
  by (auto simp: issue_auth_def bind_eq_Some_conv Let_def split: if_splits)

lemma core_ht_element:
  assumes "ht_element n = Some (e, m)"
  shows "core m = core n \<and> cl_net m = cl_net n \<and> wifi_spec m = wifi_spec n"
proof (cases "cl_ht n")
  case True
  with assms obtain r tkip where "rtw_get_ie (drop 12 (bn_ies (cl_net n))) 45 (int (bn_ielen (cl_net n)) - 12) = Some r"
    "is_ap_in_tkip (cl_net n) = Some tkip"
    by (auto simp: ht_element_def bind_eq_Some_conv)
  with assms True show ?thesis
    by (cases r) (auto simp: ht_element_def bind_eq_Some_conv Let_def split: if_splits)
qed (use assms in \<open>auto simp: ht_element_def\<close>)

lemma core_assocreq_body: "assocreq_body n = Some (e, m) \<Longrightarrow> core m = core n"
  by (auto simp: assocreq_body_def bind_eq_Some_conv Let_def dest!: core_ht_element)
    (metis core_upd(7))+

lemma core_issue_assocreq: "issue_assocreq n = Some m \<Longrightarrow> core m = core n"
  by (auto simp: issue_assocreq_def bind_eq_Some_conv Let_def dest: core_assocreq_body split: if_splits)

lemma core_WMM: "WMM_param_handler b i n = Some m \<Longrightarrow> core m = core n"
  by (auto simp: WMM_param_handler_def bind_eq_Some_conv split: if_splits)

lemma core_HT_caps: "HT_caps_handler b i l n = Some m \<Longrightarrow> core m = core n"
  by (auto simp: HT_caps_handler_def bind_eq_Some_conv Let_def split: if_splits)

lemma core_HT_info: "HT_info_handler b i l n = Some m \<Longrightarrow> core m = core n"
  by (auto simp: HT_info_handler_def bind_eq_Some_conv split: if_splits)

lemma core_ERP: "ERP_IE_handler b i l n = Some m \<Longrightarrow> core m = core n"
  by (auto simp: ERP_IE_handler_def bind_eq_Some_conv split: if_splits)

lemmas core_handlers = core_WMM core_HT_caps core_HT_info core_ERP

lemma core_assoc_element: "assoc_element b i eid l n = Some m \<Longrightarrow> core m = core n"
  by (auto simp: assoc_element_def bind_eq_Some_conv dest: core_handlers split: if_splits)

lemma core_assoc_elements: "assoc_elements b len i n = Some m \<Longrightarrow> core m = core n"
proof (induction b len i n rule: assoc_elements.induct)
  case (1 b len i n)
  show ?case
  proof (cases "i < len")
    case True
    with "1.prems" obtain eid l n' where r: "rd b i = Some eid" "rd b (i + 1) = Some l" "assoc_element b i eid (unat l) n = Some n'"
      "assoc_elements b len (i + (unat l + 2)) n' = Some m"
      by (subst (asm) assoc_elements.simps) (auto simp: bind_eq_Some_conv)
    from "1.IH" [OF True _ _ _ r(4)] r core_assoc_element [OF r(3)] show ?thesis by simp
  qed (use "1.prems" in \<open>subst (asm) assoc_elements.simps, simp\<close>)
qed

lemma core_upd_peer [simp]: "core (upd_peer a h n) = core n" by (simp add: upd_peer_def)

lemma core_VCS [simp]: "core (sta_VCS_update a n) = core n" by (simp add: sta_VCS_update_def Let_def)

lemma core_bwmode:
  assumes "bwmode_update_check b i l n = Some m"
  shows "core m = core n"
proof -
  have "\<exists>bw off. ht_width (cbw40_enable n) x = (bw, off)" for x by simp
  with assms show ?thesis
    by (fastforce simp: bwmode_update_check_def bind_eq_Some_conv Let_def case_prod_beta split: if_splits dest!: core_HT_info)
qed

lemma core_beacon_loop: "beacon_elements_loop b len a i n = Some m \<Longrightarrow> core m = core n"
proof (induction b len a i n rule: beacon_elements_loop.induct)
  case (1 b len a i n)
  show ?case
  proof (cases "i < len")
    case True
    with "1.prems" obtain eid l n' where r: "rd b (36 + i) = Some eid" "rd b (36 + i + 1) = Some l"
      "(if eid = 61 then bwmode_update_check b (36 + i) (unat l) n
        else if eid = 42 then map_option (sta_VCS_update a) (ERP_IE_handler b (36 + i) (unat l) n) else Some n) = Some n'"
      "beacon_elements_loop b len a (i + (unat l + 2)) n' = Some m"
      by (subst (asm) beacon_elements_loop.simps) (auto simp: bind_eq_Some_conv)
    have "core n' = core n" using r(3) by (auto split: if_splits dest: core_bwmode core_ERP)
    with "1.IH" [OF True _ _ _ r(4)] r show ?thesis by simp
  qed (use "1.prems" in \<open>subst (asm) beacon_elements_loop.simps, simp\<close>)
qed

lemma core_update_beacon_info: "update_beacon_info b len a n = Some m \<Longrightarrow> core m = core n"
  unfolding update_beacon_info_def by (rule core_beacon_loop)

lemma core_join_element: "join_element b i eid n = Some m \<Longrightarrow> core m = core n \<and> cl_net m = cl_net n"
  unfolding join_element_def
  by (cases "eid = 221"; cases "eid = 45"; cases "eid = 61"; cases "rds b (i + 2) 4"; cases "rd b (i + 3)")
    (simp_all add: Let_def case_prod_beta, (drule sym, simp)+)

lemma core_join_elements: "join_elements b len i n = Some m \<Longrightarrow> core m = core n \<and> cl_net m = cl_net n"
proof (induction b len i n rule: join_elements.induct)
  case (1 b len i n)
  show ?case
  proof (cases "i < len")
    case True
    with "1.prems" obtain eid l n' where r: "rd b i = Some eid" "rd b (i + 1) = Some l" "join_element b i eid n = Some n'"
      "join_elements b len (i + (unat l + 2)) n' = Some m"
      by (subst (asm) join_elements.simps) (auto simp: bind_eq_Some_conv)
    from core_join_element [OF r(3)]
    have "core n' = core n \<and> cl_net n' = cl_net n" .
    with "1.IH" [OF True _ _ _ r(4)] r show ?thesis by simp
  qed (use "1.prems" in \<open>subst (asm) join_elements.simps, simp\<close>)
qed

lemma core_update_wireless_mode: "update_wireless_mode n = Some m \<Longrightarrow> core m = core n \<and> cl_net m = cl_net n"
  unfolding update_wireless_mode_def Let_def
  by (cases "rtw_get_rateset_len (bn_rates (cl_net n))") (simp, simp del: if_split, drule sym, simp)

lemma core_update_capinfo [simp]: "core (update_capinfo c n) = core n" "cl_net (update_capinfo c n) = cl_net n"
  by (simp_all add: update_capinfo_def core_def results_def)

section \<open>The state machine\<close>

text \<open>What a join does, without its frames: its phase, the address of the network, whether the timer is armed and the results
  reported.\<close>

datatype phase = Idle | WaitBeacon | Authenticating | Associating | Associated

fun phase_state :: "phase \<Rightarrow> u32" where
  "phase_state Idle = 0"
| "phase_state WaitBeacon = 0x102"
| "phase_state Authenticating = 0x202"
| "phase_state Associating = 0x2402"
| "phase_state Associated = 0x4402"

record jspec =
  ph :: phase
  jnet :: bytes
  armed :: bool
  res :: "int list"

text \<open>The frames that carry a join on: a beacon of the network, an authentication response of status 0, and an association
  response of status 0 with the identifier \<open>r\<close>.\<close>

definition has_subtype :: "nat \<Rightarrow> bytes \<Rightarrow> bool" where "has_subtype k b \<longleftrightarrow> b \<noteq> [] \<and> unat (drop_bit 4 (b ! 0)) = k"

definition is_beacon :: "bytes \<Rightarrow> join_input \<Rightarrow> bool" where
  "is_beacon a i \<longleftrightarrow> (\<exists>cx b len. i = Frame cx b len \<and> has_subtype 8 b \<and> rds b 16 6 = Some a)"

definition is_auth_ok :: "bytes \<Rightarrow> join_input \<Rightarrow> bool" where
  "is_auth_ok mac i \<longleftrightarrow> (\<exists>cx b len. i = Frame cx b len \<and> has_subtype 11 b \<and> rds b 4 6 = Some mac \<and>
     rd_le16 b (28 + (if bit (b ! 1) 6 then 4 else 0)) = Some 0)"

definition is_assoc_ok :: "bytes \<Rightarrow> int \<Rightarrow> join_input \<Rightarrow> bool" where
  "is_assoc_ok mac r i \<longleftrightarrow> (\<exists>cx b len a. i = Frame cx b len \<and> (has_subtype 1 b \<or> has_subtype 3 b) \<and> rds b 4 6 = Some mac \<and>
     rd_le16 b 26 = Some 0 \<and> rd_le16 b 28 = Some a \<and> r = int (a mod 0x4000))"

definition joining :: "phase \<Rightarrow> bool" where "joining p \<longleftrightarrow> p = WaitBeacon \<or> p = Authenticating \<or> p = Associating"

text \<open>A result is only reported where there is memory for the event.\<close>

definition reports :: "int \<Rightarrow> int list \<Rightarrow> int list \<Rightarrow> bool" where "reports r rs rs' \<longleftrightarrow> rs' = rs \<or> rs' = rs @ [r]"

inductive join_spec :: "bytes \<Rightarrow> join_input \<Rightarrow> jspec \<Rightarrow> jspec \<Rightarrow> bool" for mac where
  stay: "(joining (ph s) \<Longrightarrow> armed s \<Longrightarrow> a) \<Longrightarrow> join_spec mac i s (s\<lparr>armed := a\<rparr>)"
| start: "join_spec mac (Join acked w) s (s\<lparr>ph := WaitBeacon, jnet := bn_mac w, armed := True\<rparr>)"
| auth: "ph s = WaitBeacon \<Longrightarrow> is_beacon (jnet s) i \<Longrightarrow> join_spec mac i s (s\<lparr>ph := Authenticating, armed := True\<rparr>)"
| assoc: "ph s = Authenticating \<Longrightarrow> is_auth_ok mac i \<Longrightarrow> join_spec mac i s (s\<lparr>ph := Associating, armed := True\<rparr>)"
| success: "ph s = Associating \<Longrightarrow> is_assoc_ok mac r i \<Longrightarrow> reports r (res s) rs \<Longrightarrow>
    join_spec mac i s (s\<lparr>ph := Associated, armed := False, res := rs\<rparr>)"
| fail: "joining (ph s) \<Longrightarrow> r < 0 \<Longrightarrow> reports r (res s) rs \<Longrightarrow> join_spec mac i s (s\<lparr>ph := Idle, armed := a, res := rs\<rparr>)"
| lost: "ph s = Associated \<Longrightarrow> join_spec mac i s (s\<lparr>ph := Idle\<rparr>)"
| leave: "join_spec mac (Disconnect acked ms) s (s\<lparr>ph := Idle, armed := False\<rparr>)"

definition abs_join :: "phase \<Rightarrow> clnt \<Rightarrow> jspec" where
  "abs_join p n = \<lparr>ph = p, jnet = bn_mac (cl_net n), armed = (link_timer n \<noteq> None), res = results n\<rparr>"

text \<open>Networks a join is started for: infrastructure networks whose elements hold the fixed fields and fit into the array.\<close>

fun valid_input :: "join_input \<Rightarrow> bool" where
  "valid_input (Join acked w) \<longleftrightarrow> 12 \<le> bn_ielen w \<and> bn_ielen w \<le> MAX_IE_SZ \<and> bit (net_cap w) 0"
| "valid_input _ \<longleftrightarrow> True"

lemmas state_defs = in_state_def WIFI_FW_AUTH_NULL_def WIFI_FW_AUTH_STATE_def WIFI_FW_AUTH_SUCCESS_def WIFI_FW_ASSOC_STATE_def
  WIFI_FW_ASSOC_SUCCESS_def WIFI_FW_LINKING_STATE_def WIFI_FW_STATION_STATE_def WIFI_FW_NULL_STATE_def

lemma phase_guards:
  assumes "cl_state n = phase_state p"
  shows "in_state WIFI_FW_AUTH_NULL n \<longleftrightarrow> p = WaitBeacon" "in_state WIFI_FW_AUTH_STATE n \<longleftrightarrow> p = Authenticating"
    "in_state WIFI_FW_ASSOC_STATE n \<longleftrightarrow> p = Associating" "in_state WIFI_FW_ASSOC_SUCCESS n \<longleftrightarrow> p = Associated"
    "in_state (WIFI_FW_AUTH_SUCCESS OR WIFI_FW_ASSOC_STATE) n \<longleftrightarrow> p = Associating \<or> p = Associated"
    "in_state WIFI_FW_STATION_STATE n \<longleftrightarrow> p \<noteq> Idle" "cl_state n AND 0x03 = WIFI_FW_STATION_STATE \<longleftrightarrow> p \<noteq> Idle"
    "in_state WIFI_FW_LINKING_STATE n \<longleftrightarrow> p \<noteq> Idle"
  using assms by (cases p; simp add: state_defs)+

lemma core_eq:
  "core m = core n \<longleftrightarrow> cl_state m = cl_state n \<and> cl_mac m = cl_mac n \<and> bn_mac (cl_net m) = bn_mac (cl_net n) \<and> cl_mem m = cl_mem n
     \<and> link_timer m = link_timer n \<and> results m = results n \<and> reauth_count m = reauth_count n \<and> reassoc_count m = reassoc_count n"
  by (auto simp: core_def)

lemma abs_core: "core m = core n \<Longrightarrow> abs_join p m = abs_join p n"
  by (simp add: core_eq abs_join_def)

text \<open>The steps that only move the state machine.\<close>

lemma start_clnt_auth_core:
  assumes "start_clnt_auth n = Some m" "cl_state n = phase_state WaitBeacon"
  shows "cl_state m = phase_state Authenticating" "cl_mac m = cl_mac n"
    "abs_join Authenticating m = (abs_join WaitBeacon n)\<lparr>ph := Authenticating, armed := True\<rparr>"
    "link_timer m = Some REAUTH_TO" "reauth_count m = 0" "reassoc_count m = 0" "cl_mem m = cl_mem n"
proof -
  define n1 where "n1 = (cancel_link_timer n)\<lparr>cl_state := cl_state n AND NOT WIFI_FW_AUTH_NULL OR WIFI_FW_AUTH_STATE, cl_auth_seq := 1,
    reauth_count := 0, reassoc_count := 0\<rparr>"
  obtain m1 where m: "issue_auth 0 (issue_deauth 3 n1) = Some m1" "m = set_link_timer REAUTH_TO m1"
    using assms(1) by (auto simp: start_clnt_auth_def n1_def Let_def cancel_link_timer_def)
  have c: "core m1 = core n1" using core_issue_auth [OF m(1)] by simp
  have s: "cl_state n1 = phase_state Authenticating" using assms(2) by (simp add: n1_def state_defs)
  have r: "results n1 = results n" by (simp add: n1_def cancel_link_timer_def results_def)
  show "cl_state m = phase_state Authenticating" "cl_mac m = cl_mac n"
    "abs_join Authenticating m = (abs_join WaitBeacon n)\<lparr>ph := Authenticating, armed := True\<rparr>"
    "link_timer m = Some REAUTH_TO" "reauth_count m = 0" "reassoc_count m = 0" "cl_mem m = cl_mem n"
    using c s r by (simp_all add: core_eq m(2) set_link_timer_def abs_join_def results_def n1_def cancel_link_timer_def)
qed

lemma start_clnt_assoc_core:
  assumes "start_clnt_assoc n = Some m" "cl_state n = phase_state Authenticating"
  shows "cl_state m = phase_state Associating" "cl_mac m = cl_mac n"
    "abs_join Associating m = (abs_join Authenticating n)\<lparr>ph := Associating, armed := True\<rparr>"
    "link_timer m = Some REASSOC_TO" "reauth_count m = reauth_count n" "reassoc_count m = reassoc_count n" "cl_mem m = cl_mem n"
proof -
  define n1 where "n1 = (cancel_link_timer n)\<lparr>cl_state := cl_state n AND NOT (WIFI_FW_AUTH_NULL OR WIFI_FW_AUTH_STATE)
    OR (WIFI_FW_AUTH_SUCCESS OR WIFI_FW_ASSOC_STATE)\<rparr>"
  obtain m1 where m: "issue_assocreq n1 = Some m1" "m = set_link_timer REASSOC_TO m1"
    using assms(1) by (auto simp: start_clnt_assoc_def n1_def Let_def cancel_link_timer_def)
  have c: "core m1 = core n1" using core_issue_assocreq [OF m(1)] .
  have s: "cl_state n1 = phase_state Associating" using assms(2) by (simp add: n1_def state_defs)
  have r: "results n1 = results n" by (simp add: n1_def cancel_link_timer_def results_def)
  show "cl_state m = phase_state Associating" "cl_mac m = cl_mac n"
    "abs_join Associating m = (abs_join Authenticating n)\<lparr>ph := Associating, armed := True\<rparr>"
    "link_timer m = Some REASSOC_TO" "reauth_count m = reauth_count n" "reassoc_count m = reassoc_count n" "cl_mem m = cl_mem n"
    using c s r by (simp_all add: core_eq m(2) set_link_timer_def abs_join_def results_def n1_def cancel_link_timer_def)
qed

lemma report_join_res_core:
  "cl_state (report_join_res r n) = cl_state n" "cl_mac (report_join_res r n) = cl_mac n" "cl_net (report_join_res r n) = cl_net n"
  "link_timer (report_join_res r n) = link_timer n" "cl_mem (report_join_res r n) = cl_mem n"
  "results (report_join_res r n) = (if cl_mem n then results n @ [r] else results n)"
  "reports r (results n) (results (report_join_res r n))"
  by (simp_all add: report_join_res_def reports_def)

lemma report_del_sta_core: "core (report_del_sta_event a r n) = core n"
  by (simp add: report_del_sta_event_def core_def)

section \<open>Refinement\<close>

definition refines :: "join_input \<Rightarrow> phase \<Rightarrow> clnt \<Rightarrow> clnt \<Rightarrow> bool" where
  "refines i p n m \<longleftrightarrow> cl_mac m = cl_mac n \<and>
     (\<exists>q. cl_state m = phase_state q \<and> join_spec (cl_mac n) i (abs_join p n) (abs_join q m))"

lemma refinesI:
  "cl_mac m = cl_mac n \<Longrightarrow> cl_state m = phase_state q \<Longrightarrow> join_spec (cl_mac n) i (abs_join p n) (abs_join q m) \<Longrightarrow> refines i p n m"
  by (auto simp: refines_def)

lemma refines_stay:
  assumes "cl_state m = cl_state n" "cl_mac m = cl_mac n" "bn_mac (cl_net m) = bn_mac (cl_net n)" "results m = results n"
    "joining p \<Longrightarrow> link_timer n \<noteq> None \<Longrightarrow> link_timer m \<noteq> None" "cl_state n = phase_state p"
  shows "refines i p n m"
proof (rule refinesI [where q = p])
  have "join_spec (cl_mac n) i (abs_join p n) ((abs_join p n)\<lparr>armed := (link_timer m \<noteq> None)\<rparr>)"
    by (rule join_spec.stay) (use assms(5) in \<open>simp add: abs_join_def\<close>)
  then show "join_spec (cl_mac n) i (abs_join p n) (abs_join p m)" using assms by (simp add: abs_join_def)
qed (use assms in auto)

lemma refines_core: "core m = core n \<Longrightarrow> cl_state n = phase_state p \<Longrightarrow> refines i p n m"
  by (rule refines_stay) (simp_all add: core_eq)

lemma refines_core_left: "core n' = core n \<Longrightarrow> refines i p n' m \<longleftrightarrow> refines i p n m"
  using abs_core [of n' n p] by (simp add: refines_def core_eq)

text \<open>A failure.\<close>

lemma refines_fail:
  assumes "joining p" "r < 0" "cl_mac n1 = cl_mac n" "bn_mac (cl_net n1) = bn_mac (cl_net n)" "results n1 = results n" "cl_state n1 = 0"
  shows "refines i p n (report_join_res r n1)"
proof (rule refinesI [where q = Idle])
  have "join_spec (cl_mac n) i (abs_join p n)
      ((abs_join p n)\<lparr>ph := Idle, armed := (link_timer n1 \<noteq> None), res := results (report_join_res r n1)\<rparr>)"
    using assms report_join_res_core(7) [of r n1] by (intro join_spec.fail [of _ r]) (simp_all add: abs_join_def)
  then show "join_spec (cl_mac n) i (abs_join p n) (abs_join Idle (report_join_res r n1))"
    using assms by (simp add: abs_join_def report_join_res_core)
qed (use assms in \<open>simp_all add: report_join_res_core\<close>)

lemma refines_receive_disconnect:
  assumes "cl_state n = phase_state p"
  shows "refines i p n (receive_disconnect a reason n)"
proof (cases "a \<noteq> bn_mac (cl_net n) \<or> p = Idle")
  case True
  then show ?thesis using assms by (auto simp: receive_disconnect_def phase_guards [OF assms] intro: refines_core)
next
  case False
  define n1 where "n1 = n\<lparr>cl_state := WIFI_FW_NULL_STATE\<rparr>"
  have n1: "cl_state n1 = 0" "cl_mac n1 = cl_mac n" "bn_mac (cl_net n1) = bn_mac (cl_net n)" "results n1 = results n"
    "link_timer n1 = link_timer n"
    by (simp_all add: n1_def results_def WIFI_FW_NULL_STATE_def)
  show ?thesis
  proof (cases "p = Associated")
    case True
    have r: "receive_disconnect a reason n = report_del_sta_event a reason n1"
      using False True by (simp add: receive_disconnect_def phase_guards [OF assms] n1_def)
    note c = report_del_sta_core [of a reason n1, unfolded core_eq]
    show ?thesis
    proof (rule refinesI [where q = Idle])
      have "join_spec (cl_mac n) i (abs_join p n) ((abs_join p n)\<lparr>ph := Idle\<rparr>)"
        by (rule join_spec.lost) (simp add: abs_join_def True)
      then show "join_spec (cl_mac n) i (abs_join p n) (abs_join Idle (receive_disconnect a reason n))"
        using c n1 r by (simp add: abs_join_def)
    qed (use c n1 r in simp_all)
  next
    case f: False
    have "receive_disconnect a reason n = report_join_res (-2) n1" "joining p"
      using False f by (simp_all add: receive_disconnect_def phase_guards [OF assms] n1_def joining_def) (cases p; simp)
    then show ?thesis using n1 by (simp add: refines_fail)
  qed
qed

lemma refines_link_timer:
  assumes "link_timer_hdl n = Some m" "cl_state n = phase_state p"
  shows "refines i p n m"
proof -
  define n1 where "n1 = cancel_link_timer n"
  have n1: "cl_state n1 = cl_state n" "cl_mac n1 = cl_mac n" "cl_net n1 = cl_net n" "results n1 = results n"
    by (simp_all add: n1_def cancel_link_timer_def results_def)
  note g = phase_guards [OF assms(2)[folded n1(1)]]
  have fail: "refines i p n (report_join_res r (n2\<lparr>cl_state := 0\<rparr>))" if "joining p" "r < 0" "core n2 = core n1" for r n2
    by (rule refines_fail) (use that n1 in \<open>simp_all add: core_eq results_def\<close>)
  have again: "refines i p n (set_link_timer t n2)"
    if "cl_state n2 = cl_state n1" "cl_mac n2 = cl_mac n1" "bn_mac (cl_net n2) = bn_mac (cl_net n1)" "results n2 = results n1" for t n2
    by (rule refines_stay) (use that n1 assms(2) in \<open>simp_all add: set_link_timer_def results_def\<close>)
  show ?thesis
  proof (cases p)
    case WaitBeacon
    then have "m = report_join_res (-3) (n1\<lparr>cl_state := 0\<rparr>)" using assms(1) g
      by (simp add: link_timer_hdl_def Let_def n1_def WIFI_FW_NULL_STATE_def)
    then show ?thesis using fail [of "-3" n1] WaitBeacon by (simp add: joining_def)
  next
    case Authenticating
    show ?thesis
    proof (cases "reauth_count n1 + 1 > REAUTH_LIMIT")
      case True
      then have "m = report_join_res (-1) (n1\<lparr>reauth_count := reauth_count n1 + 1, cl_state := 0\<rparr>)" using assms(1) g Authenticating
        by (simp add: link_timer_hdl_def Let_def n1_def [symmetric])
      then show ?thesis using n1 Authenticating
        by (simp add: refines_fail joining_def results_def)
    next
      case False
      then obtain n2 where "issue_auth 0 (n1\<lparr>reauth_count := reauth_count n1 + 1, cl_auth_seq := 1\<rparr>) = Some n2"
        "m = set_link_timer REAUTH_TO n2" using assms(1) g Authenticating
        by (auto simp: link_timer_hdl_def Let_def n1_def [symmetric])
      then show ?thesis using core_issue_auth [of 0 "n1\<lparr>reauth_count := reauth_count n1 + 1, cl_auth_seq := 1\<rparr>" n2]
          again [of n2 REAUTH_TO] by (simp add: core_eq results_def)
    qed
  next
    case Associating
    show ?thesis
    proof (cases "reassoc_count n1 + 1 > REASSOC_LIMIT")
      case True
      then have "m = report_join_res (-2) (n1\<lparr>reassoc_count := reassoc_count n1 + 1, cl_state := 0\<rparr>)" using assms(1) g Associating
        by (simp add: link_timer_hdl_def Let_def n1_def [symmetric] WIFI_FW_NULL_STATE_def)
      then show ?thesis using n1 Associating
        by (simp add: refines_fail joining_def results_def)
    next
      case False
      then obtain n2 where "issue_assocreq (n1\<lparr>reassoc_count := reassoc_count n1 + 1\<rparr>) = Some n2"
        "m = set_link_timer REASSOC_TO n2" using assms(1) g Associating
        by (auto simp: link_timer_hdl_def Let_def n1_def [symmetric])
      then show ?thesis using core_issue_assocreq [of "n1\<lparr>reassoc_count := reassoc_count n1 + 1\<rparr>" n2]
          again [of n2 REASSOC_TO] by (simp add: core_eq results_def)
    qed
  next
    case Idle
    then have "m = n1" using assms(1) g by (simp add: link_timer_hdl_def Let_def n1_def [symmetric])
    then show ?thesis using n1 Idle assms(2) by (auto intro!: refines_stay simp: joining_def)
  next
    case Associated
    then have "m = n1" using assms(1) g by (simp add: link_timer_hdl_def Let_def n1_def [symmetric])
    then show ?thesis using n1 Associated assms(2) by (auto intro!: refines_stay simp: joining_def)
  qed
qed

lemma refines_disconnect:
  assumes "cl_state n = phase_state p"
  shows "refines (Disconnect acked ms) p n (disconnect_hdl acked ms n)"
proof (rule refinesI [where q = Idle])
  let ?n1 = "if is_client_associated_to_ap n then issue_deauth_ex acked 3 (max 1 (ms div 100)) n else n"
  have c: "core ?n1 = core n" by simp
  have "join_spec (cl_mac n) (Disconnect acked ms) (abs_join p n) ((abs_join p n)\<lparr>ph := Idle, armed := False\<rparr>)" by (rule join_spec.leave)
  then show "join_spec (cl_mac n) (Disconnect acked ms) (abs_join p n) (abs_join Idle (disconnect_hdl acked ms n))"
    using c by (simp add: abs_join_def disconnect_hdl_def cancel_link_timer_def core_eq results_def)
  show "cl_mac (disconnect_hdl acked ms n) = cl_mac n" using c by (simp add: disconnect_hdl_def cancel_link_timer_def core_eq)
qed (simp add: disconnect_hdl_def cancel_link_timer_def WIFI_FW_NULL_STATE_def)

lemma refines_auth_client:
  assumes "OnAuthClient b len n = Some (st, m)" "cl_state n = phase_state p" "has_subtype 11 b"
  shows "refines (Frame cx b len) p n m"
proof (cases "rds b 4 6 = Some (cl_mac n) \<and> p = Authenticating")
  case False
  then have "m = n" using assms(1) phase_guards [OF assms(2)] by (auto simp: OnAuthClient_def bind_eq_Some_conv split: if_splits)
  then show ?thesis using assms(2) by (simp add: refines_core)
next
  case True
  note g = phase_guards [OF assms(2)]
  obtain fc where fc: "rd b 1 = Some fc" using assms(1) True g by (auto simp: OnAuthClient_def bind_eq_Some_conv)
  have fcb: "fc = b ! 1" using fc by (simp add: rd_Some)
  obtain sq status where r: "rd_le16 b (26 + (if bit fc 6 then 4 else 0)) = Some sq"
    "rd_le16 b (28 + (if bit fc 6 then 4 else 0)) = Some status"
    using assms(1) True g fc by (auto simp: OnAuthClient_def bind_eq_Some_conv Let_def)
  have timer: "refines (Frame cx b len) p n (set_link_timer t n1)" if "core n1 = core n" for t n1
    by (rule refines_stay) (use that assms(2) in \<open>simp_all add: core_eq set_link_timer_def results_def\<close>)
  show ?thesis
  proof (cases "status = 0")
    case False
    then have "\<exists>n1. m = set_link_timer 1 n1 \<and> core n1 = core n"
      using assms(1) True g fc r by (auto simp: OnAuthClient_def Let_def)
    then show ?thesis using timer by auto
  next
    case st: True
    show ?thesis
    proof (cases "start_clnt_assoc n = Some m")
      case t: True
      note c = start_clnt_assoc_core [OF t] assms(2) True
      show ?thesis
      proof (rule refinesI [where q = Associating])
        have "is_auth_ok (cl_mac n) (Frame cx b len)"
          using r(2) st True assms(3) fcb by (auto simp: is_auth_ok_def)
        then have "join_spec (cl_mac n) (Frame cx b len) (abs_join p n) ((abs_join p n)\<lparr>ph := Associating, armed := True\<rparr>)"
          using True by (intro join_spec.assoc) (simp_all add: abs_join_def)
        then show "join_spec (cl_mac n) (Frame cx b len) (abs_join p n) (abs_join Associating m)" using c by simp
      qed (use c in simp_all)
    next
      case nt: False
      show ?thesis
      proof (cases "sq = 2 \<and> auth_algo n = 1")
        case c: True
        obtain e where e: "rtw_get_ie (drop 30 b) 16 (int len - 30) = Some e"
          using assms(1) True g fc r st c by (auto simp: OnAuthClient_def Let_def bind_eq_Some_conv)
        show ?thesis
        proof (cases e)
          case None
          then have "m = n" using assms(1) True g fc r st c e by (auto simp: OnAuthClient_def Let_def)
          then show ?thesis using assms(2) by (simp add: refines_core)
        next
          case (Some pl)
          then have "\<exists>n1 txt. issue_auth 0 (n\<lparr>cl_chg_txt := txt, cl_auth_seq := 3\<rparr>) = Some n1 \<and> m = set_link_timer REAUTH_TO n1"
            using assms(1) True g fc r st c e
            by (cases pl) (auto simp: OnAuthClient_def Let_def bind_eq_Some_conv split: if_splits)
          then show ?thesis using timer by (auto dest!: core_issue_auth)
        qed
      next
        case c: False
        then have "m = n" using assms(1) True g fc r st nt by (auto simp: OnAuthClient_def Let_def split: if_splits)
        then show ?thesis using assms(2) by (simp add: refines_core)
      qed
    qed
  qed
qed

lemma refines_assoc_rsp:
  assumes "OnAssocRsp b len n = Some m" "cl_state n = phase_state p" "has_subtype 1 b \<or> has_subtype 3 b"
  shows "refines (Frame cx b len) p n m"
proof (cases "rds b 4 6 = Some (cl_mac n) \<and> p = Associating")
  case False
  then have "m = n" using assms(1) phase_guards [OF assms(2)] by (auto simp: OnAssocRsp_def bind_eq_Some_conv split: if_splits)
  then show ?thesis using assms(2) by (simp add: refines_core)
next
  case True
  note g = phase_guards [OF assms(2)]
  define n1 where "n1 = cancel_link_timer n"
  have n1: "cl_state n1 = cl_state n" "cl_mac n1 = cl_mac n" "cl_net n1 = cl_net n" "results n1 = results n" "link_timer n1 = None"
    by (simp_all add: n1_def cancel_link_timer_def results_def)
  obtain status where st: "rd_le16 b 26 = Some status"
    using assms(1) True g by (auto simp: OnAssocRsp_def bind_eq_Some_conv Let_def)
  show ?thesis
  proof (cases "status = 0")
    case False
    then have "m = report_join_res (-4) (n1\<lparr>cl_state := 0, assoc_rsp := None\<rparr>)"
      using assms(1) True g st by (simp add: OnAssocRsp_def Let_def n1_def [symmetric] WIFI_FW_NULL_STATE_def)
    then show ?thesis using n1 True by (simp add: refines_fail joining_def results_def)
  next
    case z: True
    obtain cap a n2 rsp where r: "rd_le16 b 24 = Some cap" "rd_le16 b 28 = Some a" "rds b 0 len = Some rsp"
      "assoc_elements b len 30 (n1\<lparr>cl_capability := of_nat cap, slot_time := (if bit (of_nat cap :: u16) 10 then 9 else 20), cl_aid := a mod 0x4000\<rparr>) = Some n2"
      using assms(1) True g st z by (auto simp: OnAssocRsp_def Let_def n1_def [symmetric] bind_eq_Some_conv)
    define n3 where "n3 = n2\<lparr>cl_state := cl_state n2 AND NOT WIFI_FW_ASSOC_STATE OR WIFI_FW_ASSOC_SUCCESS,
      cl_net := (cl_net n2)\<lparr>bn_rates := UpdateBrateTbl (bn_rates (cl_net n2))\<rparr>,
      assoc_rsp := (if a mod 0x4000 > 0 \<and> cl_mem n2 then Some rsp else None)\<rparr>"
    have m: "m = report_join_res (int (a mod 0x4000)) n3"
      using assms(1) True g st z r by (simp add: OnAssocRsp_def Let_def n1_def [symmetric] n3_def)
    have c: "core n2 = core n1" using core_assoc_elements [OF r(4)] by simp
    have n3: "cl_mac n3 = cl_mac n" "bn_mac (cl_net n3) = bn_mac (cl_net n)" "results n3 = results n" "link_timer n3 = None"
      using c n1 by (simp_all add: n3_def core_eq results_def)
    have s3: "cl_state n3 = phase_state Associated"
      using c n1 True assms(2) by (simp add: n3_def core_eq WIFI_FW_ASSOC_STATE_def WIFI_FW_ASSOC_SUCCESS_def)
    show ?thesis
    proof (rule refinesI [where q = Associated])
      have "is_assoc_ok (cl_mac n) (int (a mod 0x4000)) (Frame cx b len)"
        using st z True r(2) assms(3) by (auto simp: is_assoc_ok_def)
      then have "join_spec (cl_mac n) (Frame cx b len) (abs_join p n)
          ((abs_join p n)\<lparr>ph := Associated, armed := False, res := results m\<rparr>)"
        using True report_join_res_core(7) [of "int (a mod 0x4000)" n3] n3
        by (intro join_spec.success) (simp_all add: abs_join_def m)
      then show "join_spec (cl_mac n) (Frame cx b len) (abs_join p n) (abs_join Associated m)"
        using n3 by (simp add: abs_join_def m report_join_res_core)
    qed (use n3 s3 in \<open>simp_all add: m report_join_res_core\<close>)
  qed
qed

lemma core_update_TSF: "update_TSF b n = Some m \<Longrightarrow> core m = core n"
  by (auto simp: update_TSF_def bind_eq_Some_conv)

lemma refines_beacon_fixed:
  assumes "OnBeacon_fixed scan rx linked d len n = Some m" "cl_state n = phase_state p" "has_subtype 8 b"
    "rds b 16 6 = rds d 16 6"
  shows "refines (Frame cx b len) p n m"
proof (cases "\<not> scan \<and> rds d 16 6 = Some (bn_mac (cl_net n)) \<and> (p = WaitBeacon \<or> p = Associated)")
  case False
  then have "m = n" using assms(1) phase_guards [OF assms(2)] by (auto simp: OnBeacon_fixed_def bind_eq_Some_conv split: if_splits)
  then show ?thesis using assms(2) by (simp add: refines_core)
next
  case True
  note g = phase_guards [OF assms(2)]
  show ?thesis
  proof (cases "p = WaitBeacon")
    case w: True
    then have "OnBeacon_join rx linked d len n = Some m" using assms(1) True g by (simp add: OnBeacon_fixed_def)
    then obtain w v n1 where n1: "update_TSF d (n\<lparr>cl_cur := w, assoc_vendor := v\<rparr>) = Some n1" "start_clnt_auth n1 = Some m"
      by (auto simp: OnBeacon_join_def bind_eq_Some_conv)
    have c: "core n1 = core n" using core_update_TSF [OF n1(1)] by simp
    have s1: "cl_state n1 = phase_state WaitBeacon" using c assms(2) w by (simp add: core_eq)
    note a = start_clnt_auth_core [OF n1(2) s1]
    show ?thesis
    proof (rule refinesI [where q = Authenticating])
      have "join_spec (cl_mac n) (Frame cx b len) (abs_join p n) ((abs_join p n)\<lparr>ph := Authenticating, armed := True\<rparr>)"
        using True w assms(3,4) by (intro join_spec.auth) (auto simp: abs_join_def is_beacon_def)
      then show "join_spec (cl_mac n) (Frame cx b len) (abs_join p n) (abs_join Authenticating m)"
        using a abs_core [OF c, of p] w by simp
    qed (use a c in \<open>simp_all add: core_eq\<close>)
  next
    case False
    then have pa: "p = Associated" using True by simp
    obtain a2 where a2: "rds d 10 6 = Some a2" using assms(1) True g pa by (auto simp: OnBeacon_fixed_def bind_eq_Some_conv)
    show ?thesis
    proof (cases "cl_peers n a2")
      case None
      then have "m = n" using assms(1) True g pa a2 by (simp add: OnBeacon_fixed_def)
      then show ?thesis using assms(2) by (simp add: refines_core)
    next
      case (Some q)
      then obtain ok w where k: "rtw_check_bcn_info True (cl_mem n) (cur_channel n) d len (cl_cur n) = Some (ok, w)"
        "(if \<not> ok then Some (receive_disconnect (bn_mac (cl_net n)) 65535 (n\<lparr>cl_cur := w\<rparr>))
          else if peer_rx_pkts q mod 16 = 0 then update_beacon_info d len a2 (n\<lparr>cl_cur := w\<rparr>) else Some (n\<lparr>cl_cur := w\<rparr>)) = Some m"
        using assms(1) True g pa a2 by (auto simp: OnBeacon_fixed_def bind_eq_Some_conv Let_def split: if_splits)
      have c: "core (n\<lparr>cl_cur := w\<rparr>) = core n" by simp
      have s: "cl_state (n\<lparr>cl_cur := w\<rparr>) = phase_state p" using assms(2) by simp
      have "refines (Frame cx b len) p (n\<lparr>cl_cur := w\<rparr>) m"
        using k(2) s by (auto split: if_splits intro: refines_receive_disconnect refines_core dest: core_update_beacon_info)
      then show ?thesis by (simp add: refines_core_left [OF c])
    qed
  qed
qed

lemma fix_rates_element_keeps:
  assumes "fix_rates_element b len = Some d" "i + k \<le> 36"
  shows "rds d i k = rds b i k"
proof -
  obtain r where r: "elem_at 36 50 b len = Some r" using assms(1) by (auto simp: fix_rates_element_def bind_eq_Some_conv)
  consider "d = b" | p l v where "r = Some (p, l)" "d = b[p + 1 := v]"
  proof (cases r)
    case None
    then have "d = b" using assms(1) r by (simp add: fix_rates_element_def)
    then show ?thesis by (rule that(1))
  next
    case (Some q)
    then show ?thesis using assms(1) r that
      by (cases q; cases "snd q") (auto simp: fix_rates_element_def bind_eq_Some_conv split: if_splits)
  qed
  then show ?thesis
  proof cases
    case 2
    then have "36 \<le> p" using r by (auto simp: elem_at_def)
    then show ?thesis using assms(2) 2(2) by (simp add: rds_def buf_get_def drop_update_swap take_update_cancel)
  qed simp
qed

lemma refines_beacon:
  assumes "OnBeacon scan rx linked b len n = Some m" "cl_state n = phase_state p" "has_subtype 8 b"
  shows "refines (Frame cx b len) p n m"
proof -
  obtain d where "fix_rates_element b len = Some d" "OnBeacon_fixed scan rx linked d len n = Some m"
    using assms(1) by (auto simp: OnBeacon_def bind_eq_Some_conv)
  with assms(2,3) show ?thesis using refines_beacon_fixed fix_rates_element_keeps [of b len d 16 6] by auto
qed

lemma refines_deauth:
  assumes "OnDeAuth b n = Some m" "cl_state n = phase_state p"
  shows "refines i p n m"
  using assms by (auto simp: OnDeAuth_def bind_eq_Some_conv split: if_splits intro: refines_core refines_receive_disconnect)

lemma refines_dispatch:
  assumes "mgt_dispatcher cx b len n = Some m" "cl_state n = phase_state p"
  shows "refines (Frame cx b len) p n m"
proof -
  obtain f0 f1 a1 a2 where r: "rd b 0 = Some f0" "rd b 1 = Some f1" "rds b 4 6 = Some a1" "rds b 10 6 = Some a2"
    using assms(1) by (auto simp: mgt_dispatcher_def bind_eq_Some_conv)
  define k where "k = unat (drop_bit 4 f0)"
  have sub: "has_subtype k b" using r(1) by (auto simp: has_subtype_def k_def rd_Some)
  have tbl: "refines (Frame cx b len) p n m" if "mlme_sta_tbl k cx b len n1 = Some m" "core n1 = core n" for n1
  proof -
    have s1: "cl_state n1 = phase_state p" using that(2) assms(2) by (simp add: core_eq)
    have "refines (Frame cx b len) p n1 m"
      using that(1) sub s1 unfolding mlme_sta_tbl_def
      by (auto split: if_splits intro: refines_assoc_rsp refines_beacon refines_deauth refines_auth_client refines_core)
    then show ?thesis by (simp add: refines_core_left [OF that(2)])
  qed
  show ?thesis
  proof (cases "m = n")
    case True
    then show ?thesis using assms(2) by (simp add: refines_core)
  next
    case False
    then show ?thesis
      using assms(1) r tbl [of n] tbl [of "upd_peer a2 (\<lambda>p. p\<lparr>RxMgmtFrameSeqNum := rx_seq cx\<rparr>) n"]
      by (auto simp: mgt_dispatcher_def Let_def k_def [symmetric] split: if_splits option.splits)
  qed
qed

lemma refines_join:
  assumes "join_cmd_hdl acked w n = Some (ok, m)" "valid_input (Join acked w)"
  shows "refines (Join acked w) p n m"
proof -
  define n1 where "n1 = (if in_state WIFI_FW_ASSOC_SUCCESS n
        then cancel_link_timer
          ((if in_state WIFI_FW_STATION_STATE n then issue_deauth_ex acked 3 5 n else n)\<lparr>cl_state := WIFI_FW_NULL_STATE\<rparr>)
        else n)"
  define n2 where "n2 = n1\<lparr>cur_bw40 := False, cur_ch_offset := 0, ERP_enable := False, WMM_enable := False, HT_enable := False,
            HT_caps_enable := False, HT_info_enable := False, bwmode_updated := False, cl_net := w\<lparr>bn_ies := bn_ies (cl_net n1)\<rparr>\<rparr>"
  have n1: "cl_mac n1 = cl_mac n" "results n1 = results n"
    using core_issue_deauth_ex [of acked 3 5 n, unfolded core_eq] by (simp_all add: n1_def core_eq cancel_link_timer_def results_state)
  obtain d n3 where r: "rds (bn_ies w) 0 (bn_ielen w) = Some d"
    "join_elements (d @ drop (bn_ielen w) (bn_ies (cl_net n2))) (bn_ielen w) 12
       (n2\<lparr>cl_net := (cl_net n2)\<lparr>bn_ies := d @ drop (bn_ielen w) (bn_ies (cl_net n2))\<rparr>\<rparr>) = Some n3"
    "start_clnt_join (cancel_link_timer n3) = Some m"
    using assms by (auto simp: join_cmd_hdl_def Let_def n1_def [symmetric] n2_def [symmetric] bind_eq_Some_conv split: if_splits)
  have d: "d = take (bn_ielen w) (bn_ies w)" "bn_ielen w \<le> length (bn_ies w)" using r(1) by (auto simp: rds_Some buf_get_def)
  note c3 = core_join_elements [OF r(2)]
  define n4 where "n4 = (cancel_link_timer n3)\<lparr>cur_channel := bn_dsconfig (cl_net n3) mod 256, bcn_interval := net_interval (cl_net n3)\<rparr>"
  obtain n5 where n5: "update_wireless_mode n4 = Some n5" and m: "m = (let n = update_capinfo (net_cap (cl_net n4)) n5 in
      if bit (net_cap (cl_net n4)) 0 then
             (let t = decide_wait_for_beacon_timeout (bcn_interval n) in
              (set_link_timer t n)\<lparr>assoc_timer := Some (REAUTH_TO * REAUTH_LIMIT + REASSOC_TO * REASSOC_LIMIT + t),
                cl_state := WIFI_FW_AUTH_NULL OR WIFI_FW_STATION_STATE\<rparr>)
           else if bit (net_cap (cl_net n4)) 1 then report_join_res 1 (n\<lparr>cl_state := WIFI_FW_ADHOC_STATE\<rparr>)
           else n)"
    using r(3) core_update_wireless_mode by (auto simp: start_clnt_join_def Let_def n4_def [symmetric] bind_eq_Some_conv cancel_link_timer_def n4_def)
  have net: "cl_net n4 = w\<lparr>bn_ies := d @ drop (bn_ielen w) (bn_ies (cl_net n2))\<rparr>"
    using c3 by (simp add: n4_def n2_def cancel_link_timer_def)
  have "net_cap (cl_net n4) = net_cap w"
    using assms(2) d by (simp add: net net_cap_def nth_append)
  then have cap: "bit (net_cap (cl_net n4)) 0" using assms(2) by simp
  note c5 = core_update_wireless_mode [OF n5]
  define n6 where "n6 = update_capinfo (net_cap (cl_net n4)) n5"
  have c6: "core n6 = core n4" "cl_net n6 = cl_net n4" using c5 by (simp_all add: n6_def)
  have c4: "cl_mac n4 = cl_mac n" "results n4 = results n"
    using c3 n1 by (simp_all add: n4_def cancel_link_timer_def core_eq n2_def results_def)
  let ?t = "decide_wait_for_beacon_timeout (bcn_interval n6)"
  have m': "m = (set_link_timer ?t n6)\<lparr>assoc_timer := Some (REAUTH_TO * REAUTH_LIMIT + REASSOC_TO * REASSOC_LIMIT + ?t),
      cl_state := WIFI_FW_AUTH_NULL OR WIFI_FW_STATION_STATE\<rparr>"
    using cap by (simp add: m n6_def [symmetric] Let_def)
  show ?thesis
  proof (rule refinesI [where q = WaitBeacon])
    show "cl_mac m = cl_mac n" using c6 c4 by (simp add: m' set_link_timer_def core_eq)
    show "cl_state m = phase_state WaitBeacon" by (simp add: m' WIFI_FW_AUTH_NULL_def WIFI_FW_STATION_STATE_def)
    have "join_spec (cl_mac n) (Join acked w) (abs_join p n) ((abs_join p n)\<lparr>ph := WaitBeacon, jnet := bn_mac w, armed := True\<rparr>)"
      by (rule join_spec.start)
    then show "join_spec (cl_mac n) (Join acked w) (abs_join p n) (abs_join WaitBeacon m)"
      using c6 c4 net by (simp add: abs_join_def m' set_link_timer_def core_eq results_def)
  qed
qed

lemma join_step_refines_spec:
  assumes "join_step i n = Some m" "cl_state n = phase_state p" "valid_input i"
  shows "refines i p n m"
  using assms
  by (cases i) (auto simp: join_step_def split: if_splits
      intro: refines_join refines_dispatch refines_link_timer refines_disconnect refines_core)

section \<open>Runs of the specification\<close>

inductive spec_run :: "bytes \<Rightarrow> join_input list \<Rightarrow> jspec \<Rightarrow> jspec \<Rightarrow> bool" for mac where
  run_nil: "spec_run mac [] s s"
| run_snoc: "spec_run mac is s s' \<Longrightarrow> join_spec mac i s' s'' \<Longrightarrow> spec_run mac (is @ [i]) s s''"

lemma join_run_refines:
  assumes "join_run is n = Some m" "cl_state n = phase_state p" "\<forall>i \<in> set is. valid_input i"
  shows "cl_mac m = cl_mac n \<and> (\<exists>q. cl_state m = phase_state q \<and> spec_run (cl_mac n) is (abs_join p n) (abs_join q m))"
  using assms
proof (induction "is" arbitrary: m rule: rev_induct)
  case Nil
  then show ?case by (auto intro: spec_run.run_nil)
next
  case (snoc i "is")
  then obtain k where k: "join_run is n = Some k" "join_step i k = Some m" by (auto simp: join_run_snoc bind_eq_Some_conv)
  with snoc obtain q where q: "cl_mac k = cl_mac n" "cl_state k = phase_state q" "spec_run (cl_mac n) is (abs_join p n) (abs_join q k)"
    by auto
  from join_step_refines_spec [OF k(2) q(2)] snoc.prems q(1) obtain q' where
    "cl_mac m = cl_mac n" "cl_state m = phase_state q'" "join_spec (cl_mac n) i (abs_join q k) (abs_join q' m)"
    by (auto simp: refines_def)
  then show ?case using q(3) by (auto intro: spec_run.run_snoc)
qed

text \<open>Inputs with the properties \<open>Ps\<close> occur in this order.\<close>

definition in_order :: "('a \<Rightarrow> bool) list \<Rightarrow> 'a list \<Rightarrow> bool" where
  "in_order Ps xs \<longleftrightarrow> (\<exists>es. subseq es xs \<and> list_all2 (\<lambda>P e. P e) Ps es)"

lemma in_order_Nil [simp]: "in_order [] xs" by (auto simp: in_order_def)

lemma in_order_later: "in_order Ps xs \<Longrightarrow> in_order Ps (xs @ ys)"
  unfolding in_order_def using subseq_rev_drop_many by blast

lemma in_order_snoc:
  assumes "in_order Ps xs" "P x"
  shows "in_order (Ps @ [P]) (xs @ [x])"
proof -
  from assms(1) obtain es where e: "subseq es xs" "list_all2 (\<lambda>P e. P e) Ps es" by (auto simp: in_order_def)
  have "subseq (es @ [x]) (xs @ [x])" using e(1) by (intro list_emb_append_mono) simp_all
  moreover have "list_all2 (\<lambda>P e. P e) (Ps @ [P]) (es @ [x])" using e(2) assms(2) by (intro list_all2_appendI) simp_all
  ultimately show ?thesis unfolding in_order_def by blast
qed

definition is_join :: "bytes \<Rightarrow> join_input \<Rightarrow> bool" where "is_join a i \<longleftrightarrow> (\<exists>acked w. i = Join acked w \<and> bn_mac w = a)"

definition so_far :: "bytes \<Rightarrow> bytes \<Rightarrow> phase \<Rightarrow> (join_input \<Rightarrow> bool) list" where
  "so_far mac a p = (case p of Idle \<Rightarrow> [] | WaitBeacon \<Rightarrow> [is_join a] | Authenticating \<Rightarrow> [is_join a, is_beacon a]
     | _ \<Rightarrow> [is_join a, is_beacon a, is_auth_ok mac])"

definition spec_inv :: "bytes \<Rightarrow> join_input list \<Rightarrow> jspec \<Rightarrow> bool" where
  "spec_inv mac is s \<longleftrightarrow> in_order (so_far mac (jnet s) (ph s)) is \<and> (joining (ph s) \<longrightarrow> armed s) \<and>
     (\<forall>r \<in> set (res s). r < 0 \<or> (\<exists>a. in_order [is_join a, is_beacon a, is_auth_ok mac, is_assoc_ok mac r] is))"

lemma spec_inv_later: "spec_inv mac is s \<Longrightarrow> spec_inv mac (is @ [i]) s"
  by (auto simp: spec_inv_def intro: in_order_later)

lemma spec_inv_step:
  assumes "join_spec mac i s s'" "spec_inv mac is s"
  shows "spec_inv mac (is @ [i]) s'"
proof -
  note l = spec_inv_later [OF assms(2), of i]
  have o: "in_order (so_far mac (jnet s) (ph s)) is" using assms(2) by (simp add: spec_inv_def)
  show ?thesis
    using assms(1)
  proof cases
    case (start acked w)
    have "in_order ([] @ [is_join (bn_mac w)]) (is @ [i])" by (rule in_order_snoc) (auto simp: is_join_def start)
    then show ?thesis using l by (simp add: start spec_inv_def so_far_def joining_def)
  next
    case auth
    have "in_order ([is_join (jnet s)] @ [is_beacon (jnet s)]) (is @ [i])"
      by (rule in_order_snoc) (use o auth in \<open>auto simp: so_far_def\<close>)
    then show ?thesis using l by (simp add: auth spec_inv_def so_far_def joining_def)
  next
    case assoc
    have "in_order ([is_join (jnet s), is_beacon (jnet s)] @ [is_auth_ok mac]) (is @ [i])"
      by (rule in_order_snoc) (use o assoc in \<open>auto simp: so_far_def\<close>)
    then show ?thesis using l by (simp add: assoc spec_inv_def so_far_def joining_def)
  next
    case (success r rs)
    have "in_order ([is_join (jnet s), is_beacon (jnet s), is_auth_ok mac] @ [is_assoc_ok mac r]) (is @ [i])"
      by (rule in_order_snoc) (use o success in \<open>auto simp: so_far_def\<close>)
    then show ?thesis using l success(4) by (auto simp: success spec_inv_def so_far_def joining_def reports_def)
  qed (use l in \<open>auto simp: spec_inv_def so_far_def joining_def reports_def split: phase.splits\<close>)
qed

lemma spec_run_inv: "spec_run mac is s s' \<Longrightarrow> ph s = Idle \<Longrightarrow> res s = [] \<Longrightarrow> spec_inv mac is s'"
proof (induction rule: spec_run.induct)
  case (run_nil s)
  then show ?case by (simp add: spec_inv_def so_far_def joining_def)
next
  case (run_snoc "is" s s' i s'')
  then show ?case by (blast intro: spec_inv_step)
qed

text \<open>The state a run starts in: no join under way and no result yet.\<close>

definition idle_clnt :: "clnt \<Rightarrow> bool" where "idle_clnt n \<longleftrightarrow> cl_state n = 0 \<and> results n = []"

lemma run_inv:
  assumes "join_run is n = Some m" "idle_clnt n" "\<forall>i \<in> set is. valid_input i"
  obtains q where "cl_state m = phase_state q" "spec_inv (cl_mac n) is (abs_join q m)"
proof -
  have "cl_state n = phase_state Idle" using assms(2) by (simp add: idle_clnt_def)
  from join_run_refines [OF assms(1) this assms(3)] obtain q where
    q: "cl_state m = phase_state q" "spec_run (cl_mac n) is (abs_join Idle n) (abs_join q m)" by auto
  have "spec_inv (cl_mac n) is (abs_join q m)"
    using spec_run_inv [OF q(2)] assms(2) by (simp add: abs_join_def idle_clnt_def)
  then show ?thesis using that q(1) by blast
qed

section \<open>Properties\<close>




text \<open>A station joins an open network: the join, the beacon, the two responses, and the state at its end.\<close>

definition demo_jbody :: bytes where
  "demo_jbody = replicate 8 0 @ [100, 0, 0x01, 0x04] @ [0, 2, 97, 98] @ [1, 4, 0x82, 0x84, 0x8b, 0x96] @ [3, 1, 6]"

definition demo_jbss :: bss where
  "demo_jbss = \<lparr>bn_mac = [2, 0, 0, 0, 0, 1], bn_kind = 1, bn_ssid = [97, 98] @ replicate 30 0, bn_ssidlen = 2, bn_privacy = 0,
     bn_rssi = - 60, bn_dsconfig = 6, bn_period = 100, bn_infra = True, bn_rates = [0x82, 0x84, 0x8b, 0x96] @ replicate 12 0,
     bn_strength = 50, bn_quality = 80, bn_ielen = 25, bn_ies = demo_jbody @ replicate 26 0\<rparr>"

definition demo_clnt :: clnt where
  "demo_clnt = \<lparr>cl_state = 0, cl_mac = demo_addr, cl_net = demo_jbss,
     cl_cur = bss.extend demo_jbss \<lparr>bn_info = \<lparr>b_protocol = 0, b_sec = no_sec, b_ht_cap = 0, b_ht_info = 0\<rparr>\<rparr>,
     cl_peers = (\<lambda>_. None), cl_mem = True, auth_algo = 0, cl_auth_seq = 0, reauth_count = 0, reassoc_count = 0,
     cl_chg_txt = replicate 128 0, cl_iv = 0, cl_key_index = 0, cl_sec = \<lparr>dot11PrivacyKeyIndex = 0, dot11DefKey = [], dot11DefKeylen = [],
     dot118021XGrpKeyid = 0, dot118021XGrpKey = [], binstallGrpkey = False\<rparr>, mgnt_seq = 1, link_timer = None, assoc_timer = None,
     cl_aid = 0, cl_capability = 0, slot_time = 9, short_preamble = False, assoc_vendor = 0, bcn_interval = 0, tsf = 0,
     HT_enable = False, HT_caps_enable = False, HT_info_enable = False, HT_caps = replicate 26 0, HT_info = replicate 22 0,
     ERP_enable = False, ERP_IE = 0, WMM_enable = False, WMM_param = replicate 18 0, cur_channel = 1, cur_bw40 = False,
     cur_ch_offset = 0, bwmode_updated = False, cl_vcs = 2, cl_vcs_type = 1, cur_wireless_mode = 0, reg_wireless_mode = 11,
     datarate = [0, 1, 2, 3, 0xff] @ replicate 8 0xff, basicrate = replicate 13 0xff, cl_qos = False, cl_ht = False, rf_1r = True, rf_1t1r = True,
     cbw40_enable = False, rx_stbc = 0, wifi_spec = False, bt_1ant = False, p2p_ies = [], assoc_req = None, assoc_rsp = None, cl_out = []\<rparr>"

definition demo_cx :: rx_context where
  "demo_cx = \<lparr>rx_scan = False, rx_phy_info = demo_bcn_phy, rx_linked = None, rx_seq = 0\<rparr>"

definition demo_frame :: "u8 \<Rightarrow> bytes \<Rightarrow> join_input" where
  "demo_frame fc body = Frame demo_cx ([fc, 0, 0, 0] @ demo_addr @ [2, 0, 0, 0, 0, 1] @ [2, 0, 0, 0, 0, 1] @ [0, 0] @ body) (24 + length body)"

definition demo_join :: "join_input list" where
  "demo_join = [Join (\<lambda>_. False) demo_jbss, demo_frame 0x80 demo_jbody, demo_frame 0xb0 [0, 0, 2, 0, 0, 0],
     demo_frame 0x10 [0x01, 0x04, 0, 0, 0x01, 0]]"

lemma demo_three:
  "map_option (\<lambda>m. (cl_state m, results m, cl_mac m, cl_mem m, cl_peers m [2, 0, 0, 0, 0, 1])) (join_run (take 3 demo_join) demo_clnt)
    = Some (0x2402, [], demo_addr, True, None)"
  by code_simp

lemma demo_one: "map_option (\<lambda>m. (cl_state m, link_timer m)) (join_run (take 1 demo_join) demo_clnt) = Some (0x102, Some 6000)"
  by code_simp

lemma demo_valid: "\<forall>i \<in> set demo_join. valid_input i"
  by (simp add: demo_join_def demo_frame_def) code_simp

lemma demo_idle: "idle_clnt demo_clnt" by (simp add: idle_clnt_def results_def demo_clnt_def)

definition demo_rsp :: bytes where
  "demo_rsp = [0x10, 0, 0, 0] @ demo_addr @ [2, 0, 0, 0, 0, 1] @ [2, 0, 0, 0, 0, 1] @ [0, 0] @ [0x01, 0x04, 0, 0, 0x01, 0]"

lemma demo_rsp_reads:
  "rd demo_rsp 0 = Some 0x10" "rd demo_rsp 1 = Some 0" "rds demo_rsp 4 6 = Some demo_addr" "rds demo_rsp 10 6 = Some [2, 0, 0, 0, 0, 1]"
  "rd_le16 demo_rsp 24 = Some 0x401" "rd_le16 demo_rsp 26 = Some 0" "rd_le16 demo_rsp 28 = Some 1" "rds demo_rsp 0 30 = Some demo_rsp"
  by code_simp+

lemma demo_last_step:
  assumes "cl_state m = 0x2402" "results m = []" "cl_mac m = demo_addr" "cl_mem m" "cl_peers m [2, 0, 0, 0, 0, 1] = None"
  shows "\<exists>m'. join_step (demo_join ! 3) m = Some m' \<and> results m' = [1]"
proof -
  have f: "demo_join ! 3 = Frame demo_cx demo_rsp 30" by (simp add: demo_join_def demo_frame_def demo_rsp_def)
  note g = phase_guards [of m Associating]
  have "\<exists>m'. OnAssocRsp demo_rsp 30 m = Some m' \<and> results m' = [1]"
    using assms g demo_rsp_reads
    by (simp add: OnAssocRsp_def Let_def assoc_elements.simps [of demo_rsp 30 30] report_join_res_core)
      (simp add: results_def cancel_link_timer_def)
  then show ?thesis
    using assms demo_rsp_reads by (simp add: f join_step_def mgt_dispatcher_def mlme_sta_tbl_def Let_def)
qed




end
