(* ===== verification/JoinLive.thy ===== *)
theory JoinLive
  imports JoinRun
begin

text \<open>
  A join that is not answered ends: the timer repeats the request up to its limit and then reports the failure. The
  requests can always be built for a network with well-formed elements.
\<close>

section \<open>Joins that are not answered\<close>

text \<open>A network for which an association request can always be built: its elements are well formed with room behind them, its
  vendor elements hold a prefix, an HT element is not too long, and only with \<^verbatim>\<open>wifi_spec\<close> there are WPS elements.\<close>

definition net_wf :: "bool \<Rightarrow> bss \<Rightarrow> ie list \<Rightarrow> bytes \<Rightarrow> bool" where
  "net_wf spec w es tail \<longleftrightarrow> bn_ies w = take 12 (bn_ies w) @ enc_ies es @ tail \<and> 12 \<le> length (bn_ies w) \<and> 26 \<le> length tail \<and>
     bn_ielen w = 12 + length (enc_ies es) \<and> bn_ssidlen w \<le> length (bn_ssid w) \<and>
     (\<forall>e \<in> set es. ie_ok e \<and> (fst e = 45 \<longrightarrow> length (snd e) \<le> 26) \<and>
       (fst e = 221 \<longrightarrow> 4 \<le> length (snd e) \<and> (spec \<or> take 4 (snd e) \<noteq> WPS_OUI)))"

lemma rds_total: "i + k \<le> length b \<Longrightarrow> rds b i k = Some (buf_get i k b)"
  by (simp add: rds_Some)

lemma tkip_loop_total:
  assumes "\<forall>e \<in> set es. ie_ok e" "26 \<le> length tail" "b = pre @ enc_ies es @ tail" "k = length pre + length (enc_ies es)"
  shows "tkip_loop b k (length pre) \<noteq> None"
  using assms
proof (induction es arbitrary: pre)
  case Nil
  then show ?case by (subst tkip_loop.simps) simp
next
  case (Cons e es)
  have b: "b = pre @ enc_ie e @ enc_ies es @ tail" "b = (pre @ enc_ie e) @ enc_ies es @ tail" using Cons.prems by simp_all
  note r = rd_enc [OF b(1)] and u = unat_len [of e]
  have l: "length pre + 28 \<le> length b" using b(1) Cons.prems(2) by simp
  have p: "length pre + (length (snd e) + 2) = length (pre @ enc_ie e)" by simp
  have IH: "tkip_loop b k (length pre + (length (snd e) + 2)) \<noteq> None"
    unfolding p using Cons.IH [OF _ _ b(2)] Cons.prems by simp
  let ?hit = "if fst e = 221 then
      do { o4 \<leftarrow> rds b (length pre + 2) 4; if o4 = RTW_WPA_OUI then map_option (\<lambda>c. c = [0x00, 0x50, 0xf2, 0x02]) (rds b (length pre + 14) 4) else Some False }
    else if fst e = 48 then map_option (\<lambda>c. c = [0x00, 0x0f, 0xac, 0x02]) (rds b (length pre + 10) 4) else Some False"
  have "?hit \<noteq> None" using l by (simp add: rds_total) blast
  then obtain hit where h: "?hit = Some hit" by blast
  have k: "length pre < k" "ie_ok e" using Cons.prems by (auto simp: enc_ie_def)
  show ?case
    unfolding tkip_loop.simps [of b k "length pre"] using IH k r u by (simp add: h) blast?
qed

lemma vendor_elements_total:
  assumes "\<forall>e \<in> set es. ie_ok e \<and> (fst e = 221 \<longrightarrow> 4 \<le> length (snd e) \<and> (spec \<or> take 4 (snd e) \<noteq> WPS_OUI))"
    "26 \<le> length tail" "b = pre @ enc_ies es @ tail" "k = length pre + length (enc_ies es)"
  shows "\<exists>v. vendor_elements spec b k (length pre) = Some (v, b)"
  using assms
proof (induction es arbitrary: pre)
  case Nil
  then show ?case by (subst vendor_elements.simps) simp
next
  case (Cons e es)
  have b: "b = pre @ enc_ie e @ enc_ies es @ tail" "b = (pre @ enc_ie e) @ enc_ies es @ tail" using Cons.prems by simp_all
  note r = rd_enc [OF b(1)] and u = unat_len [of e]
  have ok: "ie_ok e" "fst e = 221 \<Longrightarrow> 4 \<le> length (snd e) \<and> (spec \<or> take 4 (snd e) \<noteq> WPS_OUI)" using Cons.prems by auto
  have p: "length pre + (length (snd e) + 2) = length (pre @ enc_ie e)" by simp
  obtain v where IH: "vendor_elements spec b k (length pre + (length (snd e) + 2)) = Some (v, b)"
    unfolding p using Cons.IH [OF _ _ b(2)] Cons.prems by auto
  have k: "length pre < k" using Cons.prems by (auto simp: enc_ie_def)
  have d: "rds b (length pre + 2) (length (snd e)) = Some (snd e)"
    using rds_enc [of b "pre @ [fst e, of_nat (length (snd e))]" "snd e" "enc_ies es @ tail"] b(1) by (simp add: enc_ie_def)
  have upd: "b[length pre + 1 := of_nat (length (snd e))] = b" using r(2) by (metis list_update_id rd_Some)
  have o4: "rds b (length pre + 2) 4 = Some (take 4 (snd e))" if "fst e = 221"
  proof -
    have t: "4 \<le> length (snd e)" using ok(2) [OF that] by simp
    have e: "snd e = buf_get (length pre + 2) (length (snd e)) b" "length pre + 2 + length (snd e) \<le> length b"
      using d by (simp_all add: rds_Some)
    have "take 4 (snd e) = take 4 (buf_get (length pre + 2) (length (snd e)) b)" by (rule arg_cong [OF e(1)])
    also have "\<dots> = buf_get (length pre + 2) 4 b" using t by (simp add: buf_get_def)
    finally show ?thesis using e(2) t by (simp add: rds_total)
  qed
  show ?case
  proof (cases "fst e = 221")
    case False
    then show ?thesis unfolding vendor_elements.simps [of spec b k "length pre"] using IH r u ok(1) k by (simp add: Let_def)
  next
    case True
    have w: "\<not> (\<not> spec \<and> take 4 (snd e) = WPS_OUI)" using ok(2) [OF True] by auto
    have "(\<lambda>l. if \<not> spec \<and> take 4 (snd e) = WPS_OUI then 14 else l) = id" using w by auto
    then show ?thesis
      unfolding vendor_elements.simps [of spec b k "length pre"] using IH r u ok(1) k w d o4 upd True by (auto simp: Let_def)
  qed
qed

lemma issue_assocreq_total:
  assumes "net_wf (wifi_spec n) (cl_net n) es tail"
  shows "\<exists>m. issue_assocreq n = Some m \<and> cl_net m = cl_net n \<and> wifi_spec m = wifi_spec n"
proof -
  define w where "w = cl_net n"
  have wf: "bn_ies w = take 12 (bn_ies w) @ enc_ies es @ tail" "12 \<le> length (bn_ies w)" "26 \<le> length tail"
    "bn_ielen w = 12 + length (enc_ies es)" "bn_ssidlen w \<le> length (bn_ssid w)"
    "\<forall>e \<in> set es. ie_ok e \<and> (fst e = 45 \<longrightarrow> length (snd e) \<le> 26) \<and> (fst e = 221 \<longrightarrow> 4 \<le> length (snd e) \<and> (wifi_spec n \<or> take 4 (snd e) \<noteq> WPS_OUI))"
    using assms by (auto simp: net_wf_def w_def)
  have drop12: "drop 12 (bn_ies w) = enc_ies es @ tail"
    by (subst wf(1)) (use wf(2) in simp)
  have len: "length (bn_ies w) = 12 + length (enc_ies es) + length tail"
    using arg_cong [OF wf(1), of length] wf(2) by simp
  have lim: "int (bn_ielen w) - 12 = int (length (enc_ies es))" using wf(4) by simp
  have ie: "\<exists>r. rtw_get_ie (drop 12 (bn_ies w)) x (int (bn_ielen w) - 12) = Some r \<and>
      (\<forall>q l. r = Some (q, l) \<longrightarrow> q + 2 + l \<le> length (enc_ies es) \<and> (x = 45 \<longrightarrow> l \<le> 26))" for x
  proof -
    have g: "rtw_get_ie (drop 12 (bn_ies w)) x (int (bn_ielen w) - 12) = Some (ie_pos (\<lambda>e. unat (fst e) = x) es 0)"
      unfolding drop12 lim by (rule rtw_get_ie_first_parts(1)) (use wf(6) in auto)
    have "q + 2 + l \<le> j + length (enc_ies es) \<and> (\<exists>e \<in> set es. unat (fst e) = x \<and> l = length (snd e))"
      if "ie_pos (\<lambda>e. unat (fst e) = x) es j = Some (q, l)" for q l j
      using that by (induction es arbitrary: j) (fastforce split: if_splits)+
    from this [of 0] show ?thesis using g wf(6) by (auto simp: word_unat_eq_iff)
  qed
  obtain rsn where rsn: "rtw_get_ie (drop 12 (bn_ies w)) 48 (int (bn_ielen w) - 12) = Some rsn"
    "\<And>q l. rsn = Some (q, l) \<Longrightarrow> q + 2 + l \<le> length (enc_ies es)" using ie [of 48] by auto
  obtain ht where ht: "rtw_get_ie (drop 12 (bn_ies w)) 45 (int (bn_ielen w) - 12) = Some ht"
    "\<And>q l. ht = Some (q, l) \<Longrightarrow> q + 2 + l \<le> length (enc_ies es) \<and> l \<le> 26" using ie [of 45] by auto
  have pre: "length (take 12 (bn_ies w)) = 12" using wf(2) by simp
  have "tkip_loop (bn_ies w) (bn_ielen w) 12 \<noteq> None"
    using tkip_loop_total [of es tail "bn_ies w" "take 12 (bn_ies w)" "bn_ielen w"] wf pre by auto
  then obtain tkip where tk: "is_ap_in_tkip w = Some tkip" by (cases "bit (net_cap w) 4") (auto simp: is_ap_in_tkip_def)
  obtain v where v: "vendor_elements (wifi_spec n) (bn_ies w) (bn_ielen w) 12 = Some (v, bn_ies w)"
    using vendor_elements_total [of es "wifi_spec n" tail "bn_ies w" "take 12 (bn_ies w)" "bn_ielen w"] wf pre by auto
  have "ht_element n \<noteq> None"
  proof (cases ht)
    case None
    then show ?thesis using ht(1) tk by (simp add: ht_element_def w_def)
  next
    case (Some ql)
    obtain q l where ql: "ht = Some (q, l)" using Some by (cases ql) auto
    have "12 + q + 2 + 26 \<le> length (bn_ies w)" using ht(2) [OF ql] len wf(3) by simp
    then show ?thesis using ht(1) ht(2) [OF ql] tk ql by (simp add: ht_element_def w_def rds_total Let_def)
  qed
  then obtain h m where h: "ht_element n = Some (h, m)" by auto
  have m: "cl_net m = w" "wifi_spec m = wifi_spec n"
    using core_ht_element [OF h] by (simp_all add: w_def)
  obtain r where r: "(case rsn of None \<Rightarrow> Some [] | Some (p, l) \<Rightarrow> map_option (elem 48) (rds (bn_ies w) (12 + p + 2) l)) = Some r"
  proof (cases rsn)
    case (Some ql)
    obtain q l where ql: "ql = (q, l)" by fastforce
    have "12 + q + 2 + l \<le> length (bn_ies w)" using rsn(2) [of q l] Some ql len by simp
    then show ?thesis using that Some ql by (simp add: rds_total)
  qed (use that in auto)
  have nm: "rds (bn_ssid w) 0 (bn_ssidlen w) = Some (buf_get 0 (bn_ssidlen w) (bn_ssid w))" using wf(5) by (simp add: rds_total)
  have "\<exists>body. assocreq_body n = Some (body, m\<lparr>cl_net := w\<lparr>bn_ies := bn_ies w\<rparr>\<rparr>)"
    using rsn(1) r h v nm m(2) by (simp add: assocreq_body_def w_def [symmetric] Let_def)
  then show ?thesis using m by (auto simp: issue_assocreq_def Let_def w_def emit_def)
qed

lemma issue_auth_first_total:
  assumes "cl_auth_seq n \<noteq> 3"
  shows "issue_auth st n \<noteq> None"
  using assms by (simp add: issue_auth_def)

text \<open>The end of a join by its timer: the failure is the only result, and the timer is off.\<close>

definition gave_up :: "clnt \<Rightarrow> clnt \<Rightarrow> bool" where
  "gave_up n m \<longleftrightarrow> cl_state m = 0 \<and> link_timer m = None \<and> (\<exists>r < 0. results m = results n @ [r])"

lemma gave_up_core: "results n' = results n \<Longrightarrow> gave_up n' m \<longleftrightarrow> gave_up n m"
  by (simp add: gave_up_def)

lemma timeouts_off: "link_timer n = None \<Longrightarrow> join_run (replicate k LinkTimeout) n = Some n"
  by (induction k) (simp_all add: join_step_def)

definition timer_state :: "phase \<Rightarrow> clnt \<Rightarrow> bool" where
  "timer_state p n \<longleftrightarrow> cl_state n = phase_state p \<and> link_timer n \<noteq> None \<and> cl_mem n"

lemma timeout_gives_up:
  assumes "timer_state p n" "joining p" "p = Authenticating \<longrightarrow> REAUTH_LIMIT \<le> reauth_count n" "p = Associating \<longrightarrow> REASSOC_LIMIT \<le> reassoc_count n"
  shows "\<exists>m. join_step LinkTimeout n = Some m \<and> gave_up n m"
proof -
  have s: "cl_state n = phase_state p" using assms(1) by (simp add: timer_state_def)
  have c: "cl_state (cancel_link_timer n) = phase_state p" using s by (simp add: cancel_link_timer_def)
  show ?thesis
    using assms phase_guards [OF c] unfolding join_step_def link_timer_hdl_def Let_def
    by (cases p) (simp_all add: timer_state_def joining_def cancel_link_timer_def gave_up_def report_join_res_core
        WIFI_FW_NULL_STATE_def, simp_all add: results_def)
qed

lemma timeout_reauth:
  assumes "timer_state Authenticating n" "reauth_count n < REAUTH_LIMIT"
  shows "\<exists>m. join_step LinkTimeout n = Some m \<and> timer_state Authenticating m \<and> reauth_count m = reauth_count n + 1 \<and> results m = results n"
proof -
  define n1 where "n1 = (cancel_link_timer n)\<lparr>reauth_count := reauth_count n + 1, cl_auth_seq := 1\<rparr>"
  have c: "cl_state (cancel_link_timer n) = phase_state Authenticating" using assms(1) by (simp add: timer_state_def cancel_link_timer_def)
  obtain m1 where m1: "issue_auth 0 n1 = Some m1" using issue_auth_first_total [of n1 0] by (auto simp: n1_def)
  have "join_step LinkTimeout n = Some (set_link_timer REAUTH_TO m1)"
    using assms phase_guards [OF c] m1 unfolding join_step_def link_timer_hdl_def Let_def
    by (auto simp: timer_state_def n1_def cancel_link_timer_def)
  moreover have "core m1 = core n1" using core_issue_auth [OF m1] .
  ultimately show ?thesis using assms
    by (simp add: timer_state_def core_eq set_link_timer_def n1_def cancel_link_timer_def results_def)
qed

lemma timeout_reassoc:
  assumes "timer_state Associating n" "reassoc_count n < REASSOC_LIMIT" "net_wf (wifi_spec n) (cl_net n) es tail"
  shows "\<exists>m. join_step LinkTimeout n = Some m \<and> timer_state Associating m \<and> reassoc_count m = reassoc_count n + 1 \<and> results m = results n
    \<and> net_wf (wifi_spec m) (cl_net m) es tail"
proof -
  define n1 where "n1 = (cancel_link_timer n)\<lparr>reassoc_count := reassoc_count n + 1\<rparr>"
  have c: "cl_state (cancel_link_timer n) = phase_state Associating" using assms(1) by (simp add: timer_state_def cancel_link_timer_def)
  have w: "net_wf (wifi_spec n1) (cl_net n1) es tail" using assms(3) by (simp add: n1_def cancel_link_timer_def)
  obtain m1 where m1: "issue_assocreq n1 = Some m1" "cl_net m1 = cl_net n1" "wifi_spec m1 = wifi_spec n1"
    using issue_assocreq_total [OF w] by auto
  have "join_step LinkTimeout n = Some (set_link_timer REASSOC_TO m1)"
    using assms phase_guards [OF c] m1 unfolding join_step_def link_timer_hdl_def Let_def
    by (auto simp: timer_state_def n1_def cancel_link_timer_def)
  moreover have "core m1 = core n1" using core_issue_assocreq [OF m1(1)] .
  ultimately show ?thesis using assms w m1
    by (simp add: timer_state_def core_eq set_link_timer_def n1_def cancel_link_timer_def results_def)
qed

lemma gives_up_auth:
  assumes "timer_state Authenticating n" "REAUTH_LIMIT - reauth_count n \<le> k"
  shows "\<exists>m. join_run (replicate (Suc k) LinkTimeout) n = Some m \<and> gave_up n m"
  using assms
proof (induction k arbitrary: n)
  case 0
  then show ?case using timeout_gives_up [of Authenticating n] by (auto simp: joining_def)
next
  case (Suc k)
  show ?case
  proof (cases "reauth_count n < REAUTH_LIMIT")
    case True
    with timeout_reauth [OF Suc.prems(1)] obtain m where
      m: "join_step LinkTimeout n = Some m" "timer_state Authenticating m" "reauth_count m = reauth_count n + 1" "results m = results n"
      by auto
    then show ?thesis using Suc.IH [OF m(2)] Suc.prems(2) gave_up_core [OF m(4)] by auto
  next
    case False
    with timeout_gives_up [OF Suc.prems(1)] obtain m where "join_step LinkTimeout n = Some m" "gave_up n m" by (auto simp: joining_def)
    then show ?thesis using timeouts_off [of m "Suc k"] by (auto simp: gave_up_def)
  qed
qed

lemma gives_up_assoc:
  assumes "timer_state Associating n" "REASSOC_LIMIT - reassoc_count n \<le> k" "net_wf (wifi_spec n) (cl_net n) es tail"
  shows "\<exists>m. join_run (replicate (Suc k) LinkTimeout) n = Some m \<and> gave_up n m"
  using assms
proof (induction k arbitrary: n)
  case 0
  then show ?case using timeout_gives_up [of Associating n] by (auto simp: joining_def)
next
  case (Suc k)
  show ?case
  proof (cases "reassoc_count n < REASSOC_LIMIT")
    case True
    with timeout_reassoc [OF Suc.prems(1) _ Suc.prems(3)] obtain m where
      m: "join_step LinkTimeout n = Some m" "timer_state Associating m" "reassoc_count m = reassoc_count n + 1" "results m = results n"
        "net_wf (wifi_spec m) (cl_net m) es tail"
      by auto
    then show ?thesis using Suc.IH [OF m(2) _ m(5)] Suc.prems(2) gave_up_core [OF m(4)] by auto
  next
    case False
    with timeout_gives_up [OF Suc.prems(1)] obtain m where "join_step LinkTimeout n = Some m" "gave_up n m" by (auto simp: joining_def)
    then show ?thesis using timeouts_off [of m "Suc k"] by (auto simp: gave_up_def)
  qed
qed

section \<open>Property\<close>

text \<open>C6. A join that nobody answers ends: from any moment of the join on, five timeouts suffice. None of them fails, the
  requests are repeated up to the limits, and then exactly one result, a failure, is reported and the timer stays off.\<close>

theorem unanswered_join_gives_up:
  assumes "cl_state n = phase_state p" "joining p" "link_timer n \<noteq> None" "cl_mem n"
    "p = Associating \<Longrightarrow> net_wf (wifi_spec n) (cl_net n) es tail"
  shows "\<exists>m r. join_run (replicate 5 LinkTimeout) n = Some m \<and> cl_state m = 0 \<and> link_timer m = None \<and>
    r < 0 \<and> results m = results n @ [r]"
proof -
  have t: "timer_state p n" using assms by (simp add: timer_state_def)
  have "\<exists>m. join_run (replicate (Suc 4) LinkTimeout) n = Some m \<and> gave_up n m"
  proof (cases p)
    case WaitBeacon
    with timeout_gives_up [OF t assms(2)] obtain m where m: "join_step LinkTimeout n = Some m" "gave_up n m" by auto
    have "join_run (replicate (Suc k) LinkTimeout) n = Some m" for k using m timeouts_off [of m k] by (auto simp: gave_up_def)
    then show ?thesis using m(2) by blast
  next
    case Authenticating
    show ?thesis by (rule gives_up_auth) (use t Authenticating in \<open>simp_all add: REAUTH_LIMIT_def\<close>)
  next
    case Associating
    show ?thesis by (rule gives_up_assoc [of _ _ es tail]) (use t Associating assms(5) in \<open>simp_all add: REASSOC_LIMIT_def\<close>)
  qed (use assms(2) in \<open>simp_all add: joining_def\<close>)
  then show ?thesis by (auto simp: gave_up_def eval_nat_numeral)
qed

text \<open>The example station, associating, with nobody there.\<close>

definition demo_waiting :: clnt where
  "demo_waiting = demo_clnt\<lparr>cl_state := 0x2402, link_timer := Some REASSOC_TO\<rparr>"

theorem unanswered_join_gives_up_witness:
  "\<exists>m r. join_run (replicate 5 LinkTimeout) demo_waiting = Some m \<and> cl_state m = 0 \<and> link_timer m = None \<and>
    r < 0 \<and> results m = results demo_waiting @ [r]"
proof -
  have f: "cl_state demo_waiting = phase_state Associating" "link_timer demo_waiting \<noteq> None" "cl_mem demo_waiting"
    "cl_net demo_waiting = demo_jbss" "wifi_spec demo_waiting = False"
    by (simp_all add: demo_waiting_def demo_clnt_def)
  have "net_wf False demo_jbss [(0, [97, 98]), (1, [0x82, 0x84, 0x8b, 0x96]), (3, [6])] (replicate 26 0)"
    by (simp add: net_wf_def demo_jbss_def demo_jbody_def enc_ie_def ie_ok_def WPS_OUI_def)
  then show ?thesis
    using unanswered_join_gives_up [OF f(1) _ f(2,3), of "[(0, [97, 98]), (1, [0x82, 0x84, 0x8b, 0x96]), (3, [6])]" "replicate 26 0"] f(4,5)
    by (simp add: joining_def)
qed

end
