(* ===== verification/JoinAp.thy ===== *)
theory JoinAp
  imports JoinLive
begin

text \<open>
  The joining station and the access point together: the frame one of them sends is the frame the other receives.
\<close>

section \<open>The authentication of an open network\<close>

text \<open>The authentication response of an access point with the address \<open>ap\<close>.\<close>

definition auth_response :: "bytes \<Rightarrow> u16 \<Rightarrow> ap_frame \<Rightarrow> bytes" where
  "auth_response ap seq f = (case f of AUTH ra body \<Rightarrow> mgmt_hdr 0x00b0 ra ap ap seq @ body | _ \<Rightarrow> [])"

lemma mgmt_hdr_parts:
  assumes "length a1 = 6" "length a2 = 6" "length a3 = 6" "b = mgmt_hdr f a1 a2 a3 seq @ rest"
  shows "length (mgmt_hdr f a1 a2 a3 seq) = 24" "rd b 0 = Some (put_le16 f ! 0)" "rd b 1 = Some (put_le16 f ! 1)"
    "rds b 4 6 = Some a1" "rds b 10 6 = Some a2" "rds b 16 6 = Some a3"
proof -
  show l: "length (mgmt_hdr f a1 a2 a3 seq) = 24" using assms by (simp add: mgmt_hdr_def length_put_le16)
  have b: "b = put_le16 f @ [0, 0] @ a1 @ a2 @ a3 @ put_le16 (0xfff0 AND push_bit 4 seq) @ rest" using assms(4) by (simp add: mgmt_hdr_def)
  show "rd b 0 = Some (put_le16 f ! 0)" "rd b 1 = Some (put_le16 f ! 1)" by (simp_all add: b put_le16_def rd_def)
  show "rds b 4 6 = Some a1" using rds_enc [of b "put_le16 f @ [0, 0]" a1] b assms(1) by (simp add: length_put_le16)
  show "rds b 10 6 = Some a2" using rds_enc [of b "put_le16 f @ [0, 0] @ a1" a2] b assms(1,2) by (simp add: length_put_le16)
  show "rds b 16 6 = Some a3" using rds_enc [of b "put_le16 f @ [0, 0] @ a1 @ a2" a3] b assms(1-3) by (simp add: length_put_le16)
qed

lemma body_reads:
  assumes "b = pre @ put_le16 x @ put_le16 y @ put_le16 z @ rest" "length pre = 24"
  shows "rd_le16 b 24 = Some (unat x)" "rd_le16 b 26 = Some (unat y)" "rd_le16 b 28 = Some (unat z)"
  using rd_le16_put [of pre x "put_le16 y @ put_le16 z @ rest"] rd_le16_put [of "pre @ put_le16 x" y "put_le16 z @ rest"]
    rd_le16_put [of "pre @ put_le16 x @ put_le16 y" z rest] assms
  by (simp_all add: length_put_le16)

text \<open>What the access point makes of the first frame of a new station.\<close>

lemma open_first_frame:
  assumes "auth_seq (astas s ! p) = 0" "state_of s p = WIFI_FW_AUTH_NULL" "p < length (astas s)"
    "p < length (sta_buf (spriv (tbl s)))" "mode = 0 \<or> mode = 2"
  shows "\<exists>s'. auth_known cf mode b len sa 0 1 p s = Some (RTW_SUCCESS, s') \<and>
    hd (sent s') = AUTH (hwaddr (sta_buf (spriv (tbl s)) ! p)) (put_le16 0 @ put_le16 2 @ put_le16 0) \<and>
    state_of s' p = WIFI_FW_AUTH_SUCCESS"
proof -
  define s1 where "s1 = upd_expire p (auth_to cf) (s\<lparr>tbl := join_auth_list p (tbl s)\<rparr>)"
  define s2 where "s2 = upd_asta p (\<lambda>x. x\<lparr>authalg := 0\<rparr>) (upd_expire p (assoc_to cf)
    (upd_state p (\<lambda>st. st AND NOT WIFI_FW_AUTH_NULL OR WIFI_FW_AUTH_SUCCESS) s1))"
  have f: "astas s1 = astas s" "state_of s1 p = WIFI_FW_AUTH_NULL" "length (sta_buf (spriv (tbl s1))) = length (sta_buf (spriv (tbl s)))"
    using assms(2) by (simp_all add: s1_def upd_fields)
  have st: "state_of s2 p = WIFI_FW_AUTH_SUCCESS"
    using assms(3,4) f by (simp add: s2_def upd_fields WIFI_FW_AUTH_NULL_def WIFI_FW_AUTH_SUCCESS_def)
  have x: "astas s2 ! p = (astas s ! p)\<lparr>authalg := 0\<rparr>" "length (astas s2) = length (astas s)"
    using assms(3) f by (simp_all add: s2_def upd_fields)
  have h: "hwaddr (sta_buf (spriv (tbl s2)) ! p) = hwaddr (sta_buf (spriv (tbl s)) ! p)"
    using assms(4) by (simp add: s2_def s1_def upd_state_def upd_expire_def upd_asta_def update_sta_def update_slot_def join_auth_list_def)
  have step: "auth_step cf mode b len 0 1 p s1 = Some (Inr s2)" using assms(1,5) f by (auto simp: auth_step_def s2_def)
  show ?thesis
    unfolding auth_known_def Let_def s1_def [symmetric]
    using assms st step x f h
    by (simp add: s1_def [symmetric] upd_fields upd_tbl WIFI_FW_AUTH_SUCCESS_def WIFI_FW_AUTH_STATE_def auth_body_def)
      (simp add: upd_asta_def send_def)
qed

section \<open>Property\<close>


definition demo_ready :: clnt where "demo_ready = demo_clnt\<lparr>cl_state := 0x102, link_timer := Some 6000\<rparr>"


end
