(* ===== verification/Wmm.thy ===== *)
theory Wmm
  imports JoinRun "HOL-Library.Multiset"
begin

text \<open>
  The channel access parameters a joined station takes over from its access point (\<^verbatim>\<open>WMMOnAssocRsp\<close> in
  \<^verbatim>\<open>core/rtw_wlan_util.c\<close>), and the order in which it serves its transmit queues.
\<close>

section \<open>Parameters\<close>

text \<open>The mask of the categories with admission control, the order of the queues (0 voice, 1 video, 2 best effort, 3
  background), the parameter registers written, queue by queue, and the admission control register.\<close>

record wmm =
  acm_mask :: u8
  wmm_para_seq :: "nat list"
  ac_param_regs :: "(nat \<times> u32) list"
  acm_ctrl :: "u8 option"

definition queue_of_aci :: "u8 \<Rightarrow> nat" where
  "queue_of_aci aci = (if aci = 0 then 2 else if aci = 1 then 3 else if aci = 2 then 1 else 0)"

text \<open>The record of one access category is \<open>a # cw # lo # hi # rest\<close>; the arbitration time is computed in eight bits.\<close>

definition aifs_of :: "nat \<Rightarrow> nat \<Rightarrow> u8 \<Rightarrow> u8" where
  "aifs_of slot sifs a = of_nat (unat (a AND 0x0f) * slot + sifs)"

definition ac_parm :: "nat \<Rightarrow> nat \<Rightarrow> u8 \<Rightarrow> u8 \<Rightarrow> u16 \<Rightarrow> u32" where
  "ac_parm slot sifs a cw txop =
     ucast (aifs_of slot sifs a) OR push_bit 8 (ucast (cw AND 0x0f)) OR push_bit 12 (ucast (drop_bit 4 (cw AND 0xf0))) OR push_bit 16 (ucast txop)"

definition acm_bit :: "u8 \<Rightarrow> u8" where
  "acm_bit aci = (if aci = 0 then 2 else if aci = 1 then 0 else if aci = 2 then 4 else 8)"

definition ac_step :: "nat \<Rightarrow> nat \<Rightarrow> bytes \<Rightarrow> nat \<Rightarrow> u32 list \<times> wmm \<Rightarrow> u32 list \<times> wmm" where
  "ac_step slot sifs p i = (\<lambda>(edca, w).
     (let a = p ! (2 + 4 * i);
          aci = drop_bit 5 a AND 0x03;
          acm = drop_bit 4 a AND 0x01;
          parm = ac_parm slot sifs a (p ! (3 + 4 * i)) (get_le16 (p ! (4 + 4 * i)) (p ! (5 + 4 * i)));
          q = queue_of_aci aci
      in (edca[q := parm],
          w\<lparr>acm_mask := acm_mask w OR (if acm \<noteq> 0 then acm_bit aci else 0), ac_param_regs := ac_param_regs w @ [(q, parm)]\<rparr>)))"

text \<open>A queue goes before another one with a longer contention, and at equal contention with a shorter transmission limit.\<close>

definition goes_first :: "u32 \<Rightarrow> u32 \<Rightarrow> bool" where
  "goes_first x y \<longleftrightarrow> x AND 0xFFFF < y AND 0xFFFF \<or> (x AND 0xFFFF = y AND 0xFFFF \<and> drop_bit 16 x > drop_bit 16 y)"

definition swap_at :: "nat \<Rightarrow> nat \<Rightarrow> 'a list \<Rightarrow> 'a list" where "swap_at i j xs = xs[i := xs ! j, j := xs ! i]"

text \<open>One comparison of the sort; \<open>change\<close> is the variable \<^verbatim>\<open>change_inx\<close>, which nothing sets before the first one.\<close>

definition order_step :: "nat \<times> nat \<Rightarrow> u32 list \<times> nat list \<times> bool \<Rightarrow> u32 list \<times> nat list \<times> bool" where
  "order_step ij = (\<lambda>(edca, inx, change).
     (case ij of (i, j) \<Rightarrow>
        if change \<or> goes_first (edca ! j) (edca ! i) then (swap_at i j edca, swap_at i j inx, False) else (edca, inx, False)))"

definition order_queues :: "bool \<Rightarrow> u32 list \<Rightarrow> u32 list \<times> nat list" where
  "order_queues change edca =
     (case fold order_step [(0, 1), (0, 2), (0, 3), (1, 2), (1, 3), (2, 3)] (edca, [0, 1, 2, 3], change) of (e, inx, _) \<Rightarrow> (e, inx))"

text \<open>\<^verbatim>\<open>WMMOnAssocRsp\<close>; \<open>junk\<close> and \<open>change\<close> are what the stack holds in the variables \<^verbatim>\<open>edca\<close> and \<^verbatim>\<open>change_inx\<close>.\<close>

definition WMMOnAssocRsp :: "u32 list \<Rightarrow> bool \<Rightarrow> bool \<Rightarrow> clnt \<Rightarrow> wmm \<Rightarrow> wmm" where
  "WMMOnAssocRsp junk change acm_by_register n w =
     (if \<not> WMM_enable n then w\<lparr>acm_mask := 0\<rparr>
      else
        (let sifs = (if cur_wireless_mode n = WIRELESS_11B then 10 else 16);
             (edca, v) = fold (ac_step (slot_time n) sifs (WMM_param n)) [0, 1, 2, 3] (junk, w\<lparr>acm_mask := 0\<rparr>);
             v = (if acm_by_register then v\<lparr>acm_ctrl := Some (acm_mask v), acm_mask := acm_mask w\<rparr> else v)
         in v\<lparr>wmm_para_seq := (if wifi_spec n then snd (order_queues change edca) else [0, 1, 2, 3])\<rparr>))"

text \<open>The rest of \<^verbatim>\<open>mlmeext_joinbss_event_callback\<close> that changes the state modelled here.\<close>

definition HTOnAssocRsp :: "clnt \<Rightarrow> clnt" where
  "HTOnAssocRsp n = n\<lparr>HT_enable := HT_info_enable n \<and> HT_caps_enable n\<rparr>"

definition mlmeext_joinbss_event_callback :: "u32 list \<Rightarrow> bool \<Rightarrow> bool \<Rightarrow> int \<Rightarrow> clnt \<times> wmm \<Rightarrow> clnt \<times> wmm" where
  "mlmeext_joinbss_event_callback junk change acm_by_register join_res = (\<lambda>(n, w).
     (if join_res < 0 then (n, w)
      else
        (let n = update_capinfo (cl_capability n) n
         in (HTOnAssocRsp n, WMMOnAssocRsp junk change acm_by_register n w))))"

section \<open>Properties\<close>

definition rank :: "u32 \<Rightarrow> nat" where "rank x = unat (x AND 0xFFFF) * 65536 + (65535 - unat (drop_bit 16 x))"

lemma goes_first_rank: "goes_first x y \<longleftrightarrow> rank x < rank y"
proof -
  have b: "unat (drop_bit 16 z) \<le> 65535" for z :: u32
  proof -
    have l: "unat z < 2 ^ 32" using unsigned_less [of z] by simp
    then have "unat (drop_bit 16 z) = drop_bit 16 (unat z)" by (simp add: unsigned_drop_bit_eq take_bit_nat_eq_self)
    then show ?thesis using l by (simp add: drop_bit_eq_div)
  qed
  have r: "(a < a' \<or> (a = a' \<and> d' < d)) \<longleftrightarrow> a * 65536 + (65535 - d) < a' * 65536 + (65535 - d')" if "d \<le> 65535" "d' \<le> 65535" for a a' d d' :: nat
  proof -
    have "d + (65535 - d) = 65535" "d' + (65535 - d') = 65535" using that by simp_all
    then show ?thesis by (cases a a' rule: linorder_cases) linarith+
  qed
  show ?thesis
    using r [OF b b, of "unat (x AND 0xFFFF)" "unat (y AND 0xFFFF)"]
    by (simp add: goes_first_def rank_def word_less_nat_alt word_unat_eq_iff)
qed

text \<open>The sort of four parameters.\<close>

lemma order_queues_perm:
  assumes "length edca = 4"
  shows "mset (snd (order_queues change edca)) = {#0, 1, 2, 3#}"
proof -
  obtain a b c d where e: "edca = [a, b, c, d]" using assms by (auto simp: length_Suc_conv eval_nat_numeral)
  show ?thesis
    unfolding e by (simp add: order_queues_def order_step_def swap_at_def eval_nat_numeral add_mset_commute)
qed

lemma order_queues_sorted:
  assumes "length edca = 4"
  shows "sorted_wrt (\<lambda>i j. \<not> goes_first (edca ! j) (edca ! i)) (snd (order_queues False edca))"
proof -
  obtain a b c d where e: "edca = [a, b, c, d]" using assms by (auto simp: length_Suc_conv eval_nat_numeral)
  show ?thesis
    unfolding e by (simp add: order_queues_def order_step_def swap_at_def goes_first_rank)
qed

lemma ac_steps:
  "length (fst (fold (ac_step slot sifs p) is (edca, w))) = length edca"
  "wmm_para_seq (snd (fold (ac_step slot sifs p) is (edca, w))) = wmm_para_seq w"
  by (induction "is" arbitrary: edca w) (simp_all add: ac_step_def Let_def)

text \<open>C33. Whatever the access point announces and whatever the stack holds, the order in which the station serves its queues
  contains every queue once. With the flag of the sort cleared at first, and where the driver sorts at all, no queue comes
  before one that contends for a shorter time, or as long with a longer transmission limit.\<close>

theorem WMMOnAssocRsp_order:
  assumes "WMM_enable n" "length junk = 4" "w' = WMMOnAssocRsp junk change acm_by_register n w"
    "edca = fst (fold (ac_step (slot_time n) (if cur_wireless_mode n = WIRELESS_11B then 10 else 16) (WMM_param n)) [0, 1, 2, 3]
      (junk, w\<lparr>acm_mask := 0\<rparr>))"
  shows "mset (wmm_para_seq w') = {#0, 1, 2, 3#} \<and>
    (wifi_spec n \<and> \<not> change \<longrightarrow> sorted_wrt (\<lambda>i j. \<not> goes_first (edca ! j) (edca ! i)) (wmm_para_seq w'))"
proof -
  have l: "length edca = 4" using assms(2,4) ac_steps(1) by metis
  have "wmm_para_seq w' = (if wifi_spec n then snd (order_queues change edca) else [0, 1, 2, 3])"
    unfolding assms(3,4) WMMOnAssocRsp_def using assms(1) by (simp add: Let_def case_prod_beta)
  then show ?thesis
    using order_queues_perm [OF l] order_queues_sorted [OF l] by (auto simp: add_mset_commute)
qed

text \<open>The parameters of an access point in the usual order, and a voice category that needs longer than the others.\<close>

definition demo_wmm_clnt :: clnt where
  "demo_wmm_clnt = demo_clnt\<lparr>WMM_enable := True, wifi_spec := True, slot_time := 9, cur_wireless_mode := 3,
     WMM_param := [0, 0] @ [0x03, 0xa4, 0, 0] @ [0x27, 0xa4, 0, 0] @ [0x42, 0x43, 0x5e, 0] @ [0x62, 0x32, 0x2f, 0]\<rparr>"

definition demo_wmm :: wmm where "demo_wmm = \<lparr>acm_mask = 0, wmm_para_seq = [], ac_param_regs = [], acm_ctrl = None\<rparr>"

text \<open>A flag left set swaps voice and video, and they stay that way.\<close>

lemma order_queues_garbage:
  "snd (order_queues False [0x2f3222, 0x5e4322, 0xa42b, 0xa44f]) = [0, 1, 2, 3]"
  "snd (order_queues True [0x2f3222, 0x5e4322, 0xa42b, 0xa44f]) = [1, 0, 2, 3]"
  by code_simp+

text \<open>With long slots an arbitration number of 12 wraps to no arbitration time at all.\<close>

lemma aifs_wraps: "aifs_of 20 16 0x0c = 0" "aifs_of 20 16 0x0b = 236" by (simp_all add: aifs_of_def)

theorem WMMOnAssocRsp_order_witness:
  "mset (wmm_para_seq (WMMOnAssocRsp [0, 0, 0, 0] False False demo_wmm_clnt demo_wmm)) = {#0, 1, 2, 3#}"
  using WMMOnAssocRsp_order [OF _ _ refl refl, of demo_wmm_clnt "[0, 0, 0, 0]"] by (simp add: demo_wmm_clnt_def)

end
