(* ===== verification/Spec2Isabelle.thy ===== *)
theory Spec2Isabelle
  imports Prelude Rc4 Crc32 Michael Sta Frame Wep Tkip Aes Ccmp RxFrame Reorder RxPath StaTable Ie IeSearch IeParse Beacon ApCap
    ApAuth ApAssoc RxValid RxFilter TxPath TxStation TxRx TxFragments TxQueues TxQueueInv PowerSave TrafficMap BcnInfo JoinAp Wmm
begin

text \<open>
  A model of the core logic of the rtl8723au driver, a Linux driver for a USB wireless adapter: what the driver itself does
  with frames, keys, stations and networks, translated from the C sources under \<^verbatim>\<open>src/\<close>, with the theorems that make it
  correct.

  \<^bold>\<open>The program.\<close> The driver stands between the network stack and the adapter. A packet from the stack gets its attributes
  and is cut into fragments, encrypted and queued by station and access category (\<^verbatim>\<open>core/rtw_xmit.c\<close>,
  \<^verbatim>\<open>core/rtw_security.c\<close>, \<^verbatim>\<open>hal/rtl8723au_xmit.c\<close>). A received frame is checked, decrypted, put together, ordered and given to
  the stack (\<^verbatim>\<open>core/rtw_recv.c\<close>). Management frames drive two state machines, one of a station that joins a network and one
  of an access point that admits stations (\<^verbatim>\<open>core/rtw_mlme_ext.c\<close>, \<^verbatim>\<open>core/rtw_ap.c\<close>); they share the table of known stations
  (\<^verbatim>\<open>core/rtw_sta_mgt.c\<close>), the information elements (\<^verbatim>\<open>core/rtw_ieee80211.c\<close>) and the helpers of \<^verbatim>\<open>core/rtw_wlan_util.c\<close>.

  \<^bold>\<open>Conventions.\<close> Machine integers are words, memory is the list of the bytes from an address to the end of the object, and a
  function that may leave it returns an option: \<open>None\<close> is an access that C leaves undefined. A null pointer is the \<open>None\<close> inside.
  State is passed explicitly in records with the fields of the C structures that the component uses. What the driver emits
  (frames, events, updates of the beacon) is appended to a list in the state. Loops over memory are functions whose termination
  is proved by a measure; there is no fuel. Steps are atomic, as under the locks of the driver.

  \<^bold>\<open>Theories.\<close>
  \<^item> \<open>Prelude\<close>: words, buffers, block copies, little-endian access, and the collections \<open>buf_simps\<close> and \<open>len_simps\<close>.
  \<^item> \<open>Rc4\<close>, \<open>Crc32\<close>, \<open>Michael\<close>, \<open>Aes\<close>: the primitives of \<^verbatim>\<open>core/rtw_security.c\<close>. The table-driven and in-place code is equal to a
    reference definition of each algorithm.
  \<^item> \<open>Frame\<close>, \<open>Wep\<close>, \<open>Tkip\<close>, \<open>Ccmp\<close>: the attributes and keys the ciphers use, the loop over fragments, and the three ciphers. The
    locale \<open>frag_cipher\<close> states what one fragment cipher promises, and its lemma about all fragments is used for the three of them;
    \<open>stream_cipher\<close> and \<open>block_cipher\<close> do the same for RC4 and AES. What is sealed is opened again, keys of different packets
    differ, and the blocks are those of CCM.
  \<^item> \<open>Ie\<close>, \<open>IeSearch\<close>, \<open>IeParse\<close>: writers, searches and parsers of information elements, on every byte string and on well-formed series.
  \<^item> \<open>Sta\<close>, \<open>StaTable\<close>: the station table with its hash lists, allocation and release, association numbers and the access list. The
    locale \<open>station_store\<close> is its contract; the table refines a finite map.
  \<^item> \<open>RxFrame\<close>, \<open>RxValid\<close>, \<open>RxFilter\<close>, \<open>RxPath\<close>, \<open>Reorder\<close>: a received frame from the header checks through decryption, reassembly,
    Michael check and port filter to the reordering window and the conversion to Ethernet. Which frames pass, and in which order.
  \<^item> \<open>TxPath\<close>, \<open>TxStation\<close>, \<open>TxFragments\<close>, \<open>TxRx\<close>: an Ethernet packet until its sealed fragments; what a station sends is what its access
    point delivers.
  \<^item> \<open>TxQueues\<close>, \<open>TxQueueInv\<close>, \<open>PowerSave\<close>, \<open>TrafficMap\<close>: frames and buffers between the transmit path and the device, and the power saving
    of an access point. Every frame is in one place, and stations with waiting frames are announced.
  \<^item> \<open>Beacon\<close>, \<open>ApCap\<close>, \<open>ApAuth\<close>, \<open>ApAssoc\<close>: the beacon of an access point, the counters and the protection that follow its stations,
    authentication and association.
  \<^item> \<open>BcnInfo\<close>: what a station keeps of a beacon, and when it takes the access point as changed.
  \<^item> \<open>Join\<close>, \<open>JoinRun\<close>, \<open>JoinLive\<close>, \<open>JoinAp\<close>: the station joins a network: beacon, authentication, association, link timer and
    disconnection. \<open>JoinRun\<close> has the state machine \<open>join_spec\<close> that every step refines, and invariants over all runs by rule
    induction; \<open>JoinLive\<close> shows that a join without answers ends; \<open>JoinAp\<close> lets the station and the access point talk.
  \<^item> \<open>Wmm\<close>: the channel access parameters a joined station takes over.

  \<^bold>\<open>Bounds.\<close> The constants are those of the headers: 32 stations, 256 transmit frames and 4 transmit buffers, a window of up to 64
  frames, 768 bytes of elements, four repetitions of a request every 300 milliseconds.

  \<^bold>\<open>Not modelled.\<close> The tables and register sequences of the chip (\<^verbatim>\<open>hal/\<close>), the firmware image, Bluetooth coexistence and
  dynamic mechanisms (\<^verbatim>\<open>hal/odm*.c\<close>) read and write registers whose meaning no source tells. The interfaces to Linux
  (\<^verbatim>\<open>os_dep/\<close>) move data between the kernel's structures and those of the driver. Code behind switches that the build does not
  set (TDLS, concurrent mode, bridge extension) is left out, and so are P2P, the site survey and roaming, the ad hoc mode and
  power control of the device itself.
\<close>

end
